(* ===== verification/Prelude.thy ===== *)
theory Prelude
  imports Main "HOL-Library.Sublist"
begin

text \<open>
  Shared vocabulary of the development: results of fallible Go functions, the byte
  predicates the packages use, and the part of Go's \<open>strings\<close> and \<open>strconv\<close> packages
  the sources call.  A Go string is a list of bytes; one \<open>char\<close> is one byte, so
  \<open>length\<close> is Go's \<open>len\<close>.  \<open>strings.ToLower\<close> and \<open>strings.TrimSpace\<close> are modelled on
  ASCII letters and ASCII white space (bytes above 127 are left alone).
\<close>

named_theorems result_simps "equations that evaluate sequenced fallible calls"
named_theorems gostr "facts about Go string functions"

section \<open>Results\<close>

type_synonym ('e, 'a) result = "'e + 'a"

text \<open>Sequencing of fallible calls: the error of the first is the error of the whole.\<close>

fun rbind :: "('e, 'a) result \<Rightarrow> ('a \<Rightarrow> ('e, 'b) result) \<Rightarrow> ('e, 'b) result" where
  "rbind (Inl e) f = Inl e"
| "rbind (Inr x) f = f x"

declare rbind.simps [result_simps]

lemma rbind_eq_Inr [result_simps]: "rbind r f = Inr y \<longleftrightarrow> (\<exists>x. r = Inr x \<and> f x = Inr y)"
  by (cases r) auto

lemma rbind_eq_Inl [result_simps]:
  "rbind r f = Inl e \<longleftrightarrow> r = Inl e \<or> (\<exists>x. r = Inr x \<and> f x = Inl e)"
  by (cases r) auto

fun isOk :: "('e, 'a) result \<Rightarrow> bool" where
  "isOk (Inl e) = False"
| "isOk (Inr x) = True"

section \<open>Bytes\<close>

definition byteval :: "char \<Rightarrow> nat" where
  "byteval c = of_char c"

abbreviation LF :: char where "LF \<equiv> CHR 0x0A"
abbreviation CR :: char where "CR \<equiv> CHR 0x0D"
abbreviation TAB :: char where "TAB \<equiv> CHR 0x09"
abbreviation NUL :: char where "NUL \<equiv> CHR 0x00"
abbreviation DQ :: char where "DQ \<equiv> CHR 0x22"
abbreviation SQ :: char where "SQ \<equiv> CHR 0x27"
abbreviation BSLASH :: char where "BSLASH \<equiv> CHR 0x5C"
abbreviation CRLF :: string where "CRLF \<equiv> [CR, LF]"

definition is_lower :: "char \<Rightarrow> bool" where
  "is_lower c \<longleftrightarrow> 97 \<le> byteval c \<and> byteval c \<le> 122"

definition is_upper :: "char \<Rightarrow> bool" where
  "is_upper c \<longleftrightarrow> 65 \<le> byteval c \<and> byteval c \<le> 90"

definition is_digit :: "char \<Rightarrow> bool" where
  "is_digit c \<longleftrightarrow> 48 \<le> byteval c \<and> byteval c \<le> 57"

definition is_alnum :: "char \<Rightarrow> bool" where
  "is_alnum c \<longleftrightarrow> is_lower c \<or> is_upper c \<or> is_digit c"

definition is_space :: "char \<Rightarrow> bool" where
  "is_space c \<longleftrightarrow> (9 \<le> byteval c \<and> byteval c \<le> 13) \<or> byteval c = 32"

definition is_hex :: "char \<Rightarrow> bool" where
  "is_hex c \<longleftrightarrow> is_digit c \<or> (97 \<le> byteval c \<and> byteval c \<le> 102) \<or> (65 \<le> byteval c \<and> byteval c \<le> 70)"

definition lower_char :: "char \<Rightarrow> char" where
  "lower_char c = (if is_upper c then char_of (byteval c + 32) else c)"

definition upper_char :: "char \<Rightarrow> char" where
  "upper_char c = (if is_lower c then char_of (byteval c - 32) else c)"

lemmas byte_defs =
  byteval_def is_lower_def is_upper_def is_digit_def is_alnum_def is_space_def is_hex_def

lemma byteval_lt [simp]: "byteval c < 256"
  by (simp add: byteval_def)

lemma byteval_inject: "byteval a = byteval b \<longleftrightarrow> a = b"
  by (simp add: byteval_def)

lemma byteval_char_of: "n < 256 \<Longrightarrow> byteval (char_of n) = n"
  by (simp add: byteval_def)

lemma lower_char_idem [simp]: "lower_char (lower_char c) = lower_char c"
  by (auto simp: lower_char_def is_upper_def byteval_char_of)

section \<open>Prefixes, suffixes, substrings\<close>

fun HasPrefix :: "'a list \<Rightarrow> 'a list \<Rightarrow> bool" where
  "HasPrefix s [] = True"
| "HasPrefix [] (p # ps) = False"
| "HasPrefix (c # cs) (p # ps) = (c = p \<and> HasPrefix cs ps)"

definition HasSuffix :: "'a list \<Rightarrow> 'a list \<Rightarrow> bool" where
  "HasSuffix s p = HasPrefix (rev s) (rev p)"

definition TrimPrefix :: "'a list \<Rightarrow> 'a list \<Rightarrow> 'a list" where
  "TrimPrefix s p = (if HasPrefix s p then drop (length p) s else s)"

definition TrimSuffix :: "'a list \<Rightarrow> 'a list \<Rightarrow> 'a list" where
  "TrimSuffix s p = (if HasSuffix s p then take (length s - length p) s else s)"

fun Index :: "'a list \<Rightarrow> 'a list \<Rightarrow> nat option" where
  "Index [] sub = (if sub = [] then Some 0 else None)"
| "Index (c # cs) sub =
     (if HasPrefix (c # cs) sub then Some 0 else map_option Suc (Index cs sub))"

definition Contains :: "'a list \<Rightarrow> 'a list \<Rightarrow> bool" where
  "Contains s sub \<longleftrightarrow> Index s sub \<noteq> None"

lemma HasPrefix_iff [gostr]: "HasPrefix s p \<longleftrightarrow> (\<exists>r. s = p @ r)"
  by (induction s p rule: HasPrefix.induct) auto

lemma HasPrefix_append [simp]: "HasPrefix (p @ r) p"
  by (auto simp: HasPrefix_iff)

lemma HasPrefix_take: "HasPrefix s p \<longleftrightarrow> take (length p) s = p"
  by (metis HasPrefix_iff append_eq_conv_conj append_take_drop_id)

lemma HasPrefix_length: "HasPrefix s p \<Longrightarrow> length p \<le> length s"
  by (auto simp: HasPrefix_iff)

lemma HasSuffix_iff [gostr]: "HasSuffix s p \<longleftrightarrow> (\<exists>r. s = r @ p)"
proof
  assume "HasSuffix s p"
  then obtain r where "rev s = rev p @ r"
    by (auto simp: HasSuffix_def HasPrefix_iff)
  then have "s = rev r @ p"
    by (metis rev_append rev_rev_ident)
  then show "\<exists>r. s = r @ p" ..
next
  assume "\<exists>r. s = r @ p"
  then show "HasSuffix s p"
    by (auto simp: HasSuffix_def)
qed

lemma TrimSuffix_append [simp]: "TrimSuffix (r @ p) p = r"
  by (simp add: TrimSuffix_def HasSuffix_iff)

lemma TrimPrefix_append [simp]: "TrimPrefix (p @ r) p = r"
  by (simp add: TrimPrefix_def)

lemma TrimSuffix_cases: "(HasSuffix s p \<and> s = TrimSuffix s p @ p) \<or> (\<not> HasSuffix s p \<and> TrimSuffix s p = s)"
  by (auto simp: TrimSuffix_def HasSuffix_iff)

lemma Index_Some:
  "Index s sub = Some i \<Longrightarrow> HasPrefix (drop i s) sub \<and> i \<le> length s \<and> (\<forall>j < i. \<not> HasPrefix (drop j s) sub)"
proof (induction s arbitrary: i)
  case Nil
  then show ?case by (auto split: if_splits)
next
  case (Cons c cs)
  show ?case
  proof (cases "HasPrefix (c # cs) sub")
    case True
    with Cons.prems show ?thesis by simp
  next
    case False
    with Cons.prems obtain k where k: "Index cs sub = Some k" "i = Suc k"
      by auto
    with Cons.IH [of k] False show ?thesis
      by (auto simp: less_Suc_eq_0_disj)
  qed
qed

lemma Index_None: "Index s sub = None \<Longrightarrow> \<not> HasPrefix (drop j s) sub"
proof (induction s arbitrary: j)
  case Nil
  then show ?case by (cases sub) (auto split: if_splits)
next
  case (Cons c cs)
  then show ?case by (cases j) (auto split: if_splits)
qed

lemma Index_split:
  "Index s sub = Some i \<Longrightarrow> s = take i s @ sub @ drop (i + length sub) s"
  by (metis HasPrefix_iff Index_Some add.commute append_eq_conv_conj append_take_drop_id drop_drop)

lemma Contains_iff [gostr]: "Contains s sub \<longleftrightarrow> (\<exists>l r. s = l @ sub @ r)"
proof
  assume "Contains s sub"
  then obtain i where "Index s sub = Some i"
    by (auto simp: Contains_def)
  then have "s = take i s @ sub @ drop (i + length sub) s"
    by (rule Index_split)
  then show "\<exists>l r. s = l @ sub @ r" by blast
next
  assume "\<exists>l r. s = l @ sub @ r"
  then obtain l r where s: "s = l @ sub @ r" by blast
  have "HasPrefix (drop (length l) s) sub" by (simp add: s)
  then show "Contains s sub"
    using Index_None by (fastforce simp: Contains_def)
qed

lemma Contains_sublist: "Contains s sub \<longleftrightarrow> sublist sub s"
  by (auto simp: Contains_iff sublist_def)

lemma Contains_Nil [simp]: "Contains s []"
  by (auto simp: Contains_iff)

lemma Contains_refl [simp]: "Contains s s"
  by (metis Contains_iff append_Nil append_Nil2)

lemma Contains_single: "Contains s [c] \<longleftrightarrow> c \<in> set s"
  by (auto simp: Contains_iff in_set_conv_decomp)

section \<open>Replacement and counting\<close>

text \<open>
  \<open>strings.Count\<close> of a non-empty substring: non-overlapping occurrences from the left.
  (For the empty substring Go counts runes; see \<open>Utf8\<close>.)
\<close>

function CountSub :: "'a list \<Rightarrow> 'a list \<Rightarrow> nat" where
  "CountSub s sub =
     (if sub = [] \<or> s = [] then 0
      else if HasPrefix s sub then Suc (CountSub (drop (length sub) s) sub)
      else CountSub (tl s) sub)"
  by pat_completeness auto
termination
  by (relation "measure (\<lambda>(s, sub). length s)") (auto simp: neq_Nil_conv)

declare CountSub.simps [simp del]

text \<open>\<open>strings.Replace(s, old, new, 1)\<close>: the leftmost occurrence.\<close>

definition Replace1 :: "'a list \<Rightarrow> 'a list \<Rightarrow> 'a list \<Rightarrow> 'a list" where
  "Replace1 s old new =
     (case Index s old of None \<Rightarrow> s | Some i \<Rightarrow> take i s @ new @ drop (i + length old) s)"

text \<open>\<open>strings.ReplaceAll\<close> for a non-empty \<open>old\<close> (the only use in the sources).\<close>

function ReplaceAll :: "'a list \<Rightarrow> 'a list \<Rightarrow> 'a list \<Rightarrow> 'a list" where
  "ReplaceAll s old new =
     (if old = [] \<or> s = [] then s
      else if HasPrefix s old then new @ ReplaceAll (drop (length old) s) old new
      else hd s # ReplaceAll (tl s) old new)"
  by pat_completeness auto
termination
  by (relation "measure (\<lambda>(s, old, new). length s)") (auto simp: neq_Nil_conv)

declare ReplaceAll.simps [simp del]

lemma ReplaceAll_Nil [simp]: "ReplaceAll [] old new = []"
  by (simp add: ReplaceAll.simps)

lemma ReplaceAll_Cons:
  "old \<noteq> [] \<Longrightarrow> ReplaceAll (c # cs) old new =
     (if HasPrefix (c # cs) old then new @ ReplaceAll (drop (length old) (c # cs)) old new
      else c # ReplaceAll cs old new)"
  by (subst ReplaceAll.simps) simp

lemma CountSub_Nil [simp]: "CountSub [] sub = 0"
  by (simp add: CountSub.simps)

lemma CountSub_Cons:
  "sub \<noteq> [] \<Longrightarrow> CountSub (c # cs) sub =
     (if HasPrefix (c # cs) sub then Suc (CountSub (drop (length sub) (c # cs)) sub)
      else CountSub cs sub)"
  by (subst CountSub.simps) simp

lemma CountSub_0_iff:
  assumes "sub \<noteq> []"
  shows "CountSub s sub = 0 \<longleftrightarrow> \<not> Contains s sub"
proof (induction s)
  case Nil
  then show ?case using assms by (simp add: Contains_def)
next
  case (Cons c cs)
  then show ?case
    using assms by (auto simp: CountSub_Cons Contains_def)
qed

lemma ReplaceAll_absent:
  "\<not> Contains s old \<Longrightarrow> ReplaceAll s old new = s"
proof (induction s)
  case Nil
  then show ?case by simp
next
  case (Cons c cs)
  then have "old \<noteq> []" by auto
  with Cons show ?case
    by (auto simp: ReplaceAll_Cons Contains_def split: if_splits)
qed

lemma Replace1_absent: "\<not> Contains s old \<Longrightarrow> Replace1 s old new = s"
  by (simp add: Replace1_def Contains_def)

section \<open>Splitting and joining\<close>

text \<open>\<open>strings.Split\<close> at a one-byte separator: never empty, one more part than separators.\<close>

fun SplitChar :: "'a \<Rightarrow> 'a list \<Rightarrow> 'a list list" where
  "SplitChar c [] = [[]]"
| "SplitChar c (x # xs) =
     (if x = c then [] # SplitChar c xs
      else (case SplitChar c xs of [] \<Rightarrow> [[x]] | p # ps \<Rightarrow> (x # p) # ps))"

text \<open>\<open>strings.SplitN(s, c, n)\<close> for \<open>n > 0\<close>: at most \<open>n\<close> parts, the last unsplit.\<close>

fun SplitN :: "nat \<Rightarrow> 'a \<Rightarrow> 'a list \<Rightarrow> 'a list list" where
  "SplitN n c s =
     (let ps = SplitChar c s in
      if length ps \<le> n then ps
      else take (n - 1) ps @ [drop (length (concat (map (\<lambda>p. p @ [c]) (take (n - 1) ps)))) s])"

fun Join :: "'a list \<Rightarrow> 'a list list \<Rightarrow> 'a list" where
  "Join sep [] = []"
| "Join sep [x] = x"
| "Join sep (x # y # ys) = x @ sep @ Join sep (y # ys)"

lemma SplitChar_ne [simp]: "SplitChar c s \<noteq> []"
  by (induction s) (auto split: list.splits)

lemma Join_Cons: "xs \<noteq> [] \<Longrightarrow> Join sep (x # xs) = x @ sep @ Join sep xs"
  by (cases xs) auto

lemma Join_SplitChar [simp]: "Join [c] (SplitChar c s) = s"
proof (induction s)
  case Nil
  then show ?case by simp
next
  case (Cons x xs)
  obtain p ps where p: "SplitChar c xs = p # ps"
    using SplitChar_ne by (metis list.exhaust)
  have J: "Join [c] ((x # p) # ps) = x # Join [c] (p # ps)"
    by (cases ps) auto
  show ?case
    using Cons p J by (cases "x = c") auto
qed

lemma SplitChar_no_sep: "p \<in> set (SplitChar c s) \<Longrightarrow> c \<notin> set p"
proof (induction s arbitrary: p)
  case Nil
  then show ?case by simp
next
  case (Cons x xs)
  obtain q qs where q: "SplitChar c xs = q # qs"
    using SplitChar_ne by (metis list.exhaust)
  have IH: "c \<notin> set r" if "r = q \<or> r \<in> set qs" for r
    using Cons.IH [of r] that q by auto
  show ?case
    using Cons.prems q IH by (cases "x = c") auto
qed

lemma SplitChar_single: "c \<notin> set s \<Longrightarrow> SplitChar c s = [s]"
  by (induction s) auto

lemma SplitChar_append:
  "c \<notin> set p \<Longrightarrow> SplitChar c (p @ c # s) = p # SplitChar c s"
  by (induction p) auto

lemma SplitChar_Join:
  "xs \<noteq> [] \<Longrightarrow> \<forall>x \<in> set xs. c \<notin> set x \<Longrightarrow> SplitChar c (Join [c] xs) = xs"
proof (induction xs)
  case Nil
  then show ?case by simp
next
  case (Cons x xs)
  show ?case
  proof (cases xs)
    case Nil
    then show ?thesis using Cons.prems by (simp add: SplitChar_single)
  next
    case (Cons y ys)
    then show ?thesis
      using Cons.IH Cons.prems by (simp add: SplitChar_append)
  qed
qed

lemma length_SplitChar: "length (SplitChar c s) = Suc (count_list s c)"
proof (induction s)
  case Nil
  then show ?case by simp
next
  case (Cons x xs)
  obtain q qs where q: "SplitChar c xs = q # qs"
    using SplitChar_ne by (metis list.exhaust)
  then show ?case using Cons by auto
qed

section \<open>Trimming, case, numbers\<close>

definition TrimLeftP :: "('a \<Rightarrow> bool) \<Rightarrow> 'a list \<Rightarrow> 'a list" where
  "TrimLeftP p s = dropWhile p s"

definition TrimRightP :: "('a \<Rightarrow> bool) \<Rightarrow> 'a list \<Rightarrow> 'a list" where
  "TrimRightP p s = rev (dropWhile p (rev s))"

definition TrimP :: "('a \<Rightarrow> bool) \<Rightarrow> 'a list \<Rightarrow> 'a list" where
  "TrimP p s = TrimRightP p (TrimLeftP p s)"

definition TrimSpace :: "string \<Rightarrow> string" where
  "TrimSpace s = TrimP is_space s"

definition ToLower :: "string \<Rightarrow> string" where
  "ToLower s = map lower_char s"

definition ToUpper :: "string \<Rightarrow> string" where
  "ToUpper s = map upper_char s"

text \<open>\<open>strings.Fields\<close>: maximal runs of bytes that are not white space.\<close>

function Fields :: "string \<Rightarrow> string list" where
  "Fields s =
     (let t = dropWhile is_space s in
      if t = [] then []
      else takeWhile (\<lambda>c. \<not> is_space c) t # Fields (dropWhile (\<lambda>c. \<not> is_space c) t))"
  by pat_completeness auto
termination
proof (relation "measure length", simp)
  fix s t assume t: "t = dropWhile is_space s" "t \<noteq> []"
  then have "\<not> is_space (hd t)"
    using hd_dropWhile by blast
  with t(2) have "length (dropWhile (\<lambda>c. \<not> is_space c) t) < length t"
    by (cases t) (auto simp: less_Suc_eq_le length_dropWhile_le)
  also have "length t \<le> length s"
    by (simp add: t(1) length_dropWhile_le)
  finally show "(dropWhile (\<lambda>c. \<not> is_space c) t, s) \<in> measure length"
    by simp
qed

declare Fields.simps [simp del]

lemma TrimP_idem_ends:
  "TrimP p s \<noteq> [] \<Longrightarrow> \<not> p (hd (TrimP p s)) \<and> \<not> p (last (TrimP p s))"
proof -
  assume ne: "TrimP p s \<noteq> []"
  let ?t = "dropWhile p s"
  have r: "TrimP p s = rev (dropWhile p (rev ?t))"
    by (simp add: TrimP_def TrimRightP_def TrimLeftP_def)
  have l: "\<not> p (last (TrimP p s))"
    using ne r hd_dropWhile [of p "rev ?t"] by (simp add: last_rev)
  obtain u where u: "?t = TrimP p s @ u"
    using r takeWhile_dropWhile_id [of p "rev ?t"] by (metis rev_append rev_rev_ident)
  then have "?t \<noteq> []" "hd ?t = hd (TrimP p s)"
    using ne by auto
  then have "\<not> p (hd (TrimP p s))"
    using hd_dropWhile [of p s] by simp
  with l show ?thesis by simp
qed

lemma set_dropWhile_subset: "set (dropWhile p s) \<subseteq> set s"
  by (auto dest: set_dropWhileD)

lemma set_TrimP: "set (TrimP p s) \<subseteq> set s"
  using set_dropWhile_subset [of p "rev (dropWhile p s)"] set_dropWhile_subset [of p s]
  by (auto simp: TrimP_def TrimRightP_def TrimLeftP_def)

lemma ToLower_idem [simp]: "ToLower (ToLower s) = ToLower s"
  by (simp add: ToLower_def)

lemma length_ToLower [simp]: "length (ToLower s) = length s"
  by (simp add: ToLower_def)

text \<open>\<open>strconv.Itoa\<close> and \<open>strconv.Atoi\<close> (64-bit \<open>int\<close>, decimal, optional sign).\<close>

definition digit_char :: "nat \<Rightarrow> char" where
  "digit_char d = char_of (48 + d)"

fun nat_digits :: "nat \<Rightarrow> string" where
  "nat_digits n = (if n < 10 then [digit_char n] else nat_digits (n div 10) @ [digit_char (n mod 10)])"

declare nat_digits.simps [simp del]

definition Itoa :: "int \<Rightarrow> string" where
  "Itoa i = (if i < 0 then CHR ''-'' # nat_digits (nat (- i)) else nat_digits (nat i))"

definition digits_val :: "string \<Rightarrow> nat" where
  "digits_val s = foldl (\<lambda>a c. 10 * a + (byteval c - 48)) 0 s"

definition Atoi :: "string \<Rightarrow> int option" where
  "Atoi s =
     (let neg = HasPrefix s ''-'';
          body = (if neg \<or> HasPrefix s ''+'' then drop 1 s else s);
          v = (if neg then - int (digits_val body) else int (digits_val body))
      in if body \<noteq> [] \<and> list_all is_digit body \<and> - (2 ^ 63) \<le> v \<and> v < 2 ^ 63 then Some v else None)"

lemma nat_digits_ne [simp]: "nat_digits n \<noteq> []"
  by (subst nat_digits.simps) simp

lemma digit_char_val: "d < 10 \<Longrightarrow> byteval (digit_char d) = 48 + d"
  by (simp add: digit_char_def byteval_char_of)

lemma is_digit_digit_char: "d < 10 \<Longrightarrow> is_digit (digit_char d)"
  by (simp add: is_digit_def digit_char_val)

lemma nat_digits_digits: "list_all is_digit (nat_digits n)"
proof (induction n rule: nat_digits.induct)
  case (1 n)
  show ?case
  proof (cases "n < 10")
    case True
    then show ?thesis by (subst nat_digits.simps) (simp add: is_digit_digit_char)
  next
    case False
    with 1 show ?thesis
      by (subst nat_digits.simps) (simp add: is_digit_digit_char)
  qed
qed

lemma digits_val_nat_digits [simp]: "digits_val (nat_digits n) = n"
proof (induction n rule: nat_digits.induct)
  case (1 n)
  show ?case
  proof (cases "n < 10")
    case True
    then show ?thesis by (subst nat_digits.simps) (simp add: digits_val_def digit_char_val)
  next
    case False
    with 1 show ?thesis
      by (subst nat_digits.simps) (simp add: digits_val_def digit_char_val)
  qed
qed

lemma nat_digits_inject: "nat_digits m = nat_digits n \<longleftrightarrow> m = n"
  by (metis digits_val_nat_digits)

section \<open>64-bit integers and compiled expressions\<close>

text \<open>Go's \<open>int\<close> and \<open>int64\<close> arithmetic, where it can overflow.\<close>

definition wrap64 :: "int \<Rightarrow> int" where
  "wrap64 x = (x + 2 ^ 63) mod 2 ^ 64 - 2 ^ 63"

lemma wrap64_id: "- (2 ^ 63) \<le> x \<Longrightarrow> x < 2 ^ 63 \<Longrightarrow> wrap64 x = x"
  by (simp add: wrap64_def)

text \<open>\<open>regexp.Compile\<close>: an error text or the predicate \<open>MatchString\<close>.\<close>

type_synonym regex = "string \<Rightarrow> bool"
type_synonym compiler = "string \<Rightarrow> (string, regex) result"

end
