(* ===== verification/Vars.thy ===== *)
theory Vars
  imports Prelude "HOL-Library.List_Lexorder" "HOL-Library.Char_ord"
begin

text \<open>
  Package \<open>vars\<close> (\<open>vars/substitute.go\<close>): literal, fail-closed substitution of
  \<open>{{name}}\<close> references.  \<open>Substitute\<close> is the loop of the source, one recursive call per
  iteration; its two error returns are the constructors of \<open>vars_error\<close>.  The lemmas give
  its behaviour on plain text, escapes and references, and show that a template built from
  tokens is parsed back to exactly those tokens.
\<close>

type_synonym env = "string \<rightharpoonup> string"

datatype vars_error =
    Unterminated nat string                    \<comment> \<open>byte offset and the rest of the template\<close>
  | InvalidName string "string list" string    \<comment> \<open>name, known variables, template\<close>
  | NoValue string "string list" string

text \<open>\<open>namePattern\<close>: a letter or underscore, then at most 63 letters, digits, \<open>_\<close>, \<open>-\<close>.\<close>

definition name_start :: "char \<Rightarrow> bool" where
  "name_start c \<longleftrightarrow> is_lower c \<or> is_upper c \<or> c = CHR ''_''"

definition name_rest :: "char \<Rightarrow> bool" where
  "name_rest c \<longleftrightarrow> is_alnum c \<or> c = CHR ''_'' \<or> c = CHR ''-''"

definition ValidateName :: "string \<Rightarrow> bool" where
  "ValidateName name =
     (case name of [] \<Rightarrow> False
      | c # cs \<Rightarrow> name_start c \<and> list_all name_rest cs \<and> length cs \<le> 63)"

text \<open>
  A Go map has no order; \<open>referenceError\<close> sorts its keys, so the map is given by its
  lookup function and the list of its keys.
\<close>

record values_map =
  lookup :: env
  keys :: "string list"

definition referenceError ::
  "(string \<Rightarrow> string list \<Rightarrow> string \<Rightarrow> vars_error) \<Rightarrow> string \<Rightarrow> string \<Rightarrow> values_map \<Rightarrow> vars_error" where
  "referenceError problem template name vs = problem name (sort (keys vs)) template"

text \<open>
  One iteration per call: \<open>rest\<close> is \<open>s[i:]\<close> and \<open>out\<close> what the builder holds.
  \<open>Index\<close> searches \<open>rest[2:]\<close> for the closing braces.
\<close>

function subst_loop :: "string \<Rightarrow> values_map \<Rightarrow> nat \<Rightarrow> string \<Rightarrow> string \<Rightarrow> vars_error + string" where
  "subst_loop s vs i rest out =
     (if rest = [] then Inr out
      else if HasPrefix rest ''{{{{'' then subst_loop s vs (i + 4) (drop 4 rest) (out @ ''{{'')
      else if \<not> HasPrefix rest ''{{'' then subst_loop s vs (i + 1) (tl rest) (out @ [hd rest])
      else (case Index (drop 2 rest) ''}}'' of
          None \<Rightarrow> Inl (Unterminated i rest)
        | Some end \<Rightarrow>
            (let name = take end (drop 2 rest) in
             if \<not> ValidateName name then Inl (referenceError InvalidName s name vs)
             else (case lookup vs name of
                 None \<Rightarrow> Inl (referenceError NoValue s name vs)
               | Some v \<Rightarrow> subst_loop s vs (i + 2 + end + 2) (drop (2 + end + 2) rest) (out @ v)))))"
  by pat_completeness auto
termination
  by (relation "measure (\<lambda>(s, vs, i, rest, out). length rest)") (auto simp: neq_Nil_conv)

declare subst_loop.simps [simp del]

definition Substitute :: "string \<Rightarrow> values_map \<Rightarrow> vars_error + string" where
  "Substitute s vs = subst_loop s vs 0 s []"

section \<open>Token view of a template\<close>

text \<open>
  The abstract specification: a template is a list of tokens; \<open>unparse\<close> writes it down,
  \<open>expand\<close> says what it stands for.
\<close>

datatype token = Lit char | Esc | Ref string

fun unparse1 :: "token \<Rightarrow> string" where
  "unparse1 (Lit c) = [c]"
| "unparse1 Esc = ''{{{{''"
| "unparse1 (Ref n) = ''{{'' @ n @ ''}}''"

definition unparse :: "token list \<Rightarrow> string" where
  "unparse ts = concat (map unparse1 ts)"

fun expand1 :: "env \<Rightarrow> token \<Rightarrow> string" where
  "expand1 e (Lit c) = [c]"
| "expand1 e Esc = ''{{''"
| "expand1 e (Ref n) = the (e n)"

definition expand :: "env \<Rightarrow> token list \<Rightarrow> string" where
  "expand e ts = concat (map (expand1 e) ts)"

text \<open>Well-formed: literals are not braces, references are valid and bound.\<close>

fun token_ok :: "env \<Rightarrow> token \<Rightarrow> bool" where
  "token_ok e (Lit c) = (c \<noteq> CHR ''{'')"
| "token_ok e Esc = True"
| "token_ok e (Ref n) = (ValidateName n \<and> e n \<noteq> None)"

text \<open>
  The readings of a template: a single brace is a literal only where no second brace follows, and every reference
  is valid and bound.
\<close>

fun reading :: "env \<Rightarrow> token list \<Rightarrow> bool" where
  "reading e [] = True"
| "reading e (Lit c # ts) = ((c = CHR ''{'' \<longrightarrow> \<not> HasPrefix (unparse ts) ''{'') \<and> reading e ts)"
| "reading e (Esc # ts) = reading e ts"
| "reading e (Ref n # ts) = (ValidateName n \<and> e n \<noteq> None \<and> reading e ts)"

lemma ValidateName_no_brace:
  "ValidateName n \<Longrightarrow> CHR ''{'' \<notin> set n \<and> CHR ''}'' \<notin> set n"
  by (cases n)
     (auto simp: ValidateName_def name_start_def name_rest_def list_all_iff byte_defs)

lemma ValidateName_hd: "ValidateName n \<Longrightarrow> n \<noteq> [] \<and> hd n \<noteq> CHR ''{''"
  by (cases n)
     (auto simp: ValidateName_def name_start_def byte_defs)

lemma Index_closing:
  "CHR ''}'' \<notin> set n \<Longrightarrow> Index (n @ ''}}'' @ r) ''}}'' = Some (length n)"
  by (induction n) auto

lemma subst_loop_Nil [simp]: "subst_loop s vs i [] out = Inr out"
  by (simp add: subst_loop.simps)

lemma subst_loop_lit:
  "c \<noteq> CHR ''{'' \<Longrightarrow> subst_loop s vs i (c # r) out = subst_loop s vs (i + 1) r (out @ [c])"
  by (subst subst_loop.simps) simp

lemma subst_loop_esc:
  "subst_loop s vs i (''{{{{'' @ r) out = subst_loop s vs (i + 4) r (out @ ''{{'')"
  by (subst subst_loop.simps) simp

lemma subst_loop_ref:
  assumes "ValidateName n"
  shows "subst_loop s vs i (''{{'' @ n @ ''}}'' @ r) out =
     (case lookup vs n of
        None \<Rightarrow> Inl (referenceError NoValue s n vs)
      | Some v \<Rightarrow> subst_loop s vs (i + 2 + length n + 2) r (out @ v))"
proof -
  have n: "n \<noteq> []" "hd n \<noteq> CHR ''{''" and nb: "CHR ''}'' \<notin> set n"
    using assms ValidateName_hd ValidateName_no_brace by auto
  then obtain c cs where c: "n = c # cs" "c \<noteq> CHR ''{''" by (cases n) auto
  have idx: "Index (n @ ''}}'' @ r) ''}}'' = Some (length n)"
    using nb by (rule Index_closing)
  show ?thesis
    using assms idx c
    by (subst subst_loop.simps) (auto simp: Let_def split: option.splits)
qed

lemma subst_loop_token:
  assumes "token_ok (lookup vs) t"
  shows "subst_loop s vs i (unparse1 t @ r) out =
     subst_loop s vs (i + length (unparse1 t)) r (out @ expand1 (lookup vs) t)"
  using assms
proof (cases t)
  case (Ref n)
  with assms obtain v where "lookup vs n = Some v" "ValidateName n" by auto
  then show ?thesis
    using Ref subst_loop_ref [of n s vs i r out] by (simp add: add.assoc)
next
  case (Lit c)
  with assms show ?thesis by (simp add: subst_loop_lit)
next
  case Esc
  then show ?thesis using subst_loop_esc [of s vs i r out] by (simp add: eval_nat_numeral)
qed

lemma subst_loop_tokens:
  "list_all (token_ok (lookup vs)) ts \<Longrightarrow>
   subst_loop s vs i (unparse ts @ r) out =
     subst_loop s vs (i + length (unparse ts)) r (out @ expand (lookup vs) ts)"
proof (induction ts arbitrary: i out)
  case Nil
  then show ?case by (simp add: unparse_def expand_def)
next
  case (Cons t ts)
  then show ?case
    using subst_loop_token [of vs t s i "unparse ts @ r" out]
    by (simp add: unparse_def expand_def add.assoc)
qed

text \<open>The rest of a well-formed template is left to the next iteration, whatever it holds.\<close>

lemma Substitute_tokens:
  "list_all (token_ok (lookup vs)) ts \<Longrightarrow> Substitute (unparse ts) vs = Inr (expand (lookup vs) ts)"
  using subst_loop_tokens [of vs ts "unparse ts" 0 "[]" "[]"] by (simp add: Substitute_def)

text \<open>A substitution succeeds exactly on the templates that have a reading, with its expansion.\<close>

lemma HasPrefix2: "HasPrefix s [a, b] \<Longrightarrow> s = a # b # drop 2 s"
  by (auto simp: HasPrefix_iff)

lemma unparse_simps [simp]: "unparse [] = []" "unparse (t # ts) = unparse1 t @ unparse ts"
  "expand e [] = []" "expand e (t # ts) = expand1 e t @ expand e ts"
  by (simp_all add: unparse_def expand_def)

lemma subst_loop_single:
  "\<not> (c = CHR ''{'' \<and> HasPrefix r ''{'') \<Longrightarrow> subst_loop s vs i (c # r) out = subst_loop s vs (i + 1) r (out @ [c])"
  by (subst subst_loop.simps) (auto simp: HasPrefix_iff)

lemma subst_loop_reading:
  "reading (lookup vs) ts \<Longrightarrow> subst_loop s vs i (unparse ts) out = Inr (out @ expand (lookup vs) ts)"
proof (induction "lookup vs" ts arbitrary: i out rule: reading.induct)
  case (2 c ts)
  then show ?case by (simp add: subst_loop_single)
next
  case (3 ts)
  then show ?case using subst_loop_esc [of s vs i "unparse ts" out] by simp
next
  case (4 n ts)
  then obtain v where "lookup vs n = Some v" by auto
  with 4 show ?case using subst_loop_ref [of n s vs i "unparse ts" out] by simp
qed simp

lemma subst_loop_sound:
  "subst_loop s vs i rest out = Inr t \<Longrightarrow>
   \<exists>ts. rest = unparse ts \<and> t = out @ expand (lookup vs) ts \<and> reading (lookup vs) ts"
proof (induction s vs i rest out rule: subst_loop.induct)
  case (1 s vs i rest out)
  consider (finish) "rest = []" | (esc) "HasPrefix rest ''{{{{''"
    | (lit) "rest \<noteq> []" "\<not> HasPrefix rest ''{{''"
    | (ref) "HasPrefix rest ''{{''" "\<not> HasPrefix rest ''{{{{''"
    by blast
  then show ?case
  proof cases
    case finish
    with 1 show ?thesis by (intro exI [of _ "[]"]) simp
  next
    case esc
    then obtain r where r: "rest = ''{{{{'' @ r" by (auto simp: HasPrefix_iff)
    have "subst_loop s vs (i + 4) (drop 4 rest) (out @ ''{{'') = Inr t"
      using "1.prems" unfolding r subst_loop_esc by simp
    then obtain ts where "drop 4 rest = unparse ts" "t = (out @ ''{{'') @ expand (lookup vs) ts" "reading (lookup vs) ts"
      using "1.IH"(1) [OF _ esc] r by auto
    then show ?thesis using r by (intro exI [of _ "Esc # ts"]) simp
  next
    case lit
    then have ne: "\<not> HasPrefix rest ''{{{{''" by (auto simp: HasPrefix_iff)
    have "subst_loop s vs (i + 1) (tl rest) (out @ [hd rest]) = Inr t"
      using "1.prems" lit ne by (subst (asm) subst_loop.simps) simp
    then obtain ts where ts: "tl rest = unparse ts" "t = (out @ [hd rest]) @ expand (lookup vs) ts" "reading (lookup vs) ts"
      using "1.IH"(2) [OF lit(1) ne lit(2)] by auto
    have "rest = unparse (Lit (hd rest) # ts)" using ts(1) lit(1) by (cases rest) simp_all
    moreover have "hd rest = CHR ''{'' \<longrightarrow> \<not> HasPrefix (unparse ts) ''{''"
      using lit ts(1) by (cases rest) (auto simp: HasPrefix_iff)
    ultimately show ?thesis using ts by (intro exI [of _ "Lit (hd rest) # ts"]) simp
  next
    case ref
    then have ne: "rest \<noteq> []" and r: "rest = ''{{'' @ drop 2 rest"
      using HasPrefix2 [of rest] by auto
    obtain e where e: "Index (drop 2 rest) ''}}'' = Some e"
      using "1.prems" ref ne by (subst (asm) subst_loop.simps) (auto split: option.splits)
    let ?n = "take e (drop 2 rest)"
    have v: "ValidateName ?n"
      using "1.prems" ref ne e by (subst (asm) subst_loop.simps) (auto simp: Let_def split: if_splits)
    obtain w where w: "lookup vs ?n = Some w"
      using "1.prems" ref ne e v
      by (subst (asm) subst_loop.simps) (auto simp: Let_def split: if_splits option.splits)
    have "subst_loop s vs (i + 2 + e + 2) (drop (2 + e + 2) rest) (out @ w) = Inr t"
      using "1.prems" ref ne e v w by (subst (asm) subst_loop.simps) (simp add: Let_def)
    then obtain ts where ts: "drop (2 + e + 2) rest = unparse ts"
        "t = (out @ w) @ expand (lookup vs) ts" "reading (lookup vs) ts"
      using "1.IH"(3) [OF ne ref(2) _ e refl _ w] ref v by auto
    have "drop 2 rest = ?n @ ''}}'' @ drop (e + 2) (drop 2 rest)"
      using Index_split [OF e] by simp
    then have "rest = unparse (Ref ?n # ts)"
      using r ts(1) by (simp add: add.commute)
    then show ?thesis
      using ts v w by (intro exI [of _ "Ref ?n # ts"]) simp
  qed
qed

text \<open>The two other failures at an opening.\<close>

lemma subst_loop_invalid:
  assumes "CHR ''}'' \<notin> set n" "\<not> ValidateName n" "\<not> HasPrefix n ''{{''"
  shows "subst_loop s vs i (''{{'' @ n @ ''}}'' @ r) out = Inl (InvalidName n (sort (keys vs)) s)"
proof -
  have idx: "Index (n @ ''}}'' @ r) ''}}'' = Some (length n)" using assms(1) by (rule Index_closing)
  have "\<not> HasPrefix (''{{'' @ n @ ''}}'' @ r) ''{{{{''" using assms(3) by (cases n; cases "tl n") (auto simp: HasPrefix_iff)
  then show ?thesis using assms(2) idx by (subst subst_loop.simps) (simp add: Let_def referenceError_def)
qed

lemma subst_loop_open:
  assumes "\<not> Contains r ''}}''" "\<not> HasPrefix r ''{{''"
  shows "subst_loop s vs i (''{{'' @ r) out = Inl (Unterminated i (''{{'' @ r))"
proof -
  have "\<not> HasPrefix (''{{'' @ r) ''{{{{''" using assms(2) by (auto simp: HasPrefix_iff)
  then show ?thesis using assms(1) by (subst subst_loop.simps) (simp add: Contains_def)
qed

section \<open>Properties\<close>

text \<open>
  Claim C1: substitution is literal.  A template written from literals, escapes and bound
  references expands to exactly those literals, a literal \<open>{{\<close> per escape and the value of
  each reference, so braces inside a value are never substituted again.
\<close>

theorem Substitute_literal:
  assumes "list_all (token_ok (lookup vs)) ts"
  shows "Substitute (unparse ts) vs = Inr (expand (lookup vs) ts)"
  using assms by (rule Substitute_tokens)

theorem Substitute_literal_witness:
  "Substitute ''a{{x}}{{{{'' \<lparr>lookup = [''x'' \<mapsto> ''{{x}}''], keys = [''x'']\<rparr> = Inr ''a{{x}}{{''"
proof -
  let ?vs = "\<lparr>lookup = [''x'' \<mapsto> ''{{x}}''], keys = [''x'']\<rparr>"
  let ?ts = "[Lit CHR ''a'', Ref ''x'', Esc]"
  have "list_all (token_ok (lookup ?vs)) ?ts"
    by (simp add: ValidateName_def name_start_def byte_defs)
  from Substitute_literal [OF this] show ?thesis
    by (simp add: unparse_def expand_def)
qed

text \<open>
  Claim C2: substitution is fail-closed.  It succeeds exactly when the whole template reads as literals, escapes and
  references whose names are valid and bound, two braces in a row never being literals, and the output is the
  expansion of that reading; so an unbound or malformed reference is never passed through or dropped.  After a
  well-formed beginning, a valid reference without a value, an invalid name and an unterminated reference are each
  reported as such, whatever follows.
\<close>

theorem Substitute_fail_closed:
  "(Substitute s vs = Inr t \<longleftrightarrow> (\<exists>ts. s = unparse ts \<and> reading (lookup vs) ts \<and> t = expand (lookup vs) ts)) \<and>
   (list_all (token_ok (lookup vs)) pre \<longrightarrow>
     (ValidateName n \<and> lookup vs n = None \<and> s = unparse pre @ ''{{'' @ n @ ''}}'' @ r \<longrightarrow>
        Substitute s vs = Inl (NoValue n (sort (keys vs)) s)) \<and>
     (CHR ''}'' \<notin> set n \<and> \<not> ValidateName n \<and> \<not> HasPrefix n ''{{'' \<and> s = unparse pre @ ''{{'' @ n @ ''}}'' @ r \<longrightarrow>
        Substitute s vs = Inl (InvalidName n (sort (keys vs)) s)) \<and>
     (\<not> Contains r ''}}'' \<and> \<not> HasPrefix r ''{{'' \<and> s = unparse pre @ ''{{'' @ r \<longrightarrow>
        Substitute s vs = Inl (Unterminated (length (unparse pre)) (''{{'' @ r))))"
proof (intro conjI impI; (elim conjE)?)
  show "Substitute s vs = Inr t \<longleftrightarrow> (\<exists>ts. s = unparse ts \<and> reading (lookup vs) ts \<and> t = expand (lookup vs) ts)"
    using subst_loop_sound [of s vs 0 s "[]" t] subst_loop_reading [of vs _ s 0 "[]"] by (auto simp: Substitute_def)
next
  assume "list_all (token_ok (lookup vs)) pre" "s = unparse pre @ ''{{'' @ n @ ''}}'' @ r"
    "ValidateName n" "lookup vs n = None"
  then show "Substitute s vs = Inl (NoValue n (sort (keys vs)) s)"
    using subst_loop_tokens [of vs pre s 0 "''{{'' @ n @ ''}}'' @ r" "[]"]
      subst_loop_ref [of n s vs "length (unparse pre)" r "expand (lookup vs) pre"]
    by (simp add: Substitute_def referenceError_def)
next
  assume "list_all (token_ok (lookup vs)) pre" and s: "s = unparse pre @ ''{{'' @ n @ ''}}'' @ r"
    and n: "CHR ''}'' \<notin> set n" "\<not> ValidateName n" "\<not> HasPrefix n ''{{''"
  then have "Substitute s vs = subst_loop s vs (length (unparse pre)) (''{{'' @ n @ ''}}'' @ r) (expand (lookup vs) pre)"
    using subst_loop_tokens [of vs pre s 0 "''{{'' @ n @ ''}}'' @ r" "[]"] by (simp add: Substitute_def)
  then show "Substitute s vs = Inl (InvalidName n (sort (keys vs)) s)"
    using subst_loop_invalid [OF n] by simp
next
  assume "list_all (token_ok (lookup vs)) pre" and s: "s = unparse pre @ ''{{'' @ r"
    and r: "\<not> Contains r ''}}''" "\<not> HasPrefix r ''{{''"
  then have "Substitute s vs = subst_loop s vs (length (unparse pre)) (''{{'' @ r) (expand (lookup vs) pre)"
    using subst_loop_tokens [of vs pre s 0 "''{{'' @ r" "[]"] by (simp add: Substitute_def)
  then show "Substitute s vs = Inl (Unterminated (length (unparse pre)) (''{{'' @ r))"
    using subst_loop_open [OF r] by simp
qed

theorem Substitute_fail_closed_witness:
  "Substitute ''a{{x}}'' \<lparr>lookup = Map.empty, keys = [''y'']\<rparr> = Inl (NoValue ''x'' [''y''] ''a{{x}}'') \<and>
   Substitute ''a{{x'' \<lparr>lookup = Map.empty, keys = [''y'']\<rparr> = Inl (Unterminated 1 ''{{x'')"
proof
  have n: "ValidateName ''x''" by (simp add: ValidateName_def name_start_def byte_defs)
  show "Substitute ''a{{x}}'' \<lparr>lookup = Map.empty, keys = [''y'']\<rparr> = Inl (NoValue ''x'' [''y''] ''a{{x}}'')"
    using Substitute_fail_closed [of "''a{{x}}''" "\<lparr>lookup = Map.empty, keys = [''y'']\<rparr>" _ "[Lit CHR ''a'']" "''x''" "[]"] n
    by simp
  show "Substitute ''a{{x'' \<lparr>lookup = Map.empty, keys = [''y'']\<rparr> = Inl (Unterminated 1 ''{{x'')"
    using Substitute_fail_closed [of "''a{{x''" "\<lparr>lookup = Map.empty, keys = [''y'']\<rparr>" _ "[Lit CHR ''a'']" "[]" "''x''"]
    by (simp add: Contains_iff)
qed

end
