(* ===== verification/Security.thy ===== *)
theory Security
  imports Prelude "HOL-Library.List_Lexorder" "HOL-Library.Char_ord" "HOL-Library.Product_Lexorder"
    "HOL-Library.Multiset"
begin

text \<open>
  Package \<open>security\<close> (\<open>security/sanitize.go\<close>): the secret mask.  A mask is its sorted list
  of named secrets (the read-write lock only makes each operation atomic); a nil mask is
  \<open>None\<close>.  The lemmas follow an occurrence of a secret through a replacement, and lead to
  the redaction theorem: under a condition on the secrets that the tokens cannot meet by
  accident, no secret survives \<open>Apply\<close>.
\<close>

record namedSecret =
  ns_value :: string
  ns_name :: string

type_synonym Mask = "namedSecret list"

definition NewMask :: Mask where
  "NewMask = []"

text \<open>The order of \<open>sort.Slice\<close> in \<open>AddNamed\<close>: longest first, then name, then value.\<close>

definition secret_key :: "namedSecret \<Rightarrow> int \<times> string \<times> string" where
  "secret_key s = (- int (length (ns_value s)), ns_name s, ns_value s)"

definition AddNamed :: "string \<Rightarrow> string \<Rightarrow> Mask \<Rightarrow> Mask" where
  "AddNamed nm v m =
     (if v = [] then m else sort_key secret_key (m @ [\<lparr>ns_value = v, ns_name = nm\<rparr>]))"

definition Add :: "string \<Rightarrow> Mask \<Rightarrow> Mask" where
  "Add v m = AddNamed [] v m"

definition snapshot :: "Mask option \<Rightarrow> namedSecret list" where
  "snapshot m = (case m of None \<Rightarrow> [] | Some ss \<Rightarrow> ss)"

definition MaskEqual :: "Mask option \<Rightarrow> Mask option \<Rightarrow> bool" where
  "MaskEqual m other =
     (let left = snapshot m; right = snapshot other in
      length left = length right \<and> list_all2 (=) left right)"

definition mask_token :: "namedSecret \<Rightarrow> string" where
  "mask_token sec =
     (if ns_name sec = [] then ''***'' else ''[HELPER_SECRET:'' @ ns_name sec @ '']'')"

definition apply_secret :: "namedSecret \<Rightarrow> string \<Rightarrow> string" where
  "apply_secret sec s =
     (if ns_value sec \<noteq> [] \<and> Contains s (ns_value sec)
      then ReplaceAll s (ns_value sec) (mask_token sec) else s)"

definition ApplyMask :: "Mask \<Rightarrow> string \<Rightarrow> string" where
  "ApplyMask m s = foldl (\<lambda>t sec. apply_secret sec t) s m"

section \<open>Occurrences through a replacement\<close>

text \<open>
  \<open>isolated t v\<close>: the token \<open>t\<close> cannot overlap an occurrence of \<open>v\<close> in any context: \<open>v\<close>
  holds neither end of \<open>t\<close> and is not inside it.
\<close>

definition isolated :: "'a list \<Rightarrow> 'a list \<Rightarrow> bool" where
  "isolated t v \<longleftrightarrow> t \<noteq> [] \<and> v \<noteq> [] \<and> hd t \<notin> set v \<and> last t \<notin> set v \<and> \<not> Contains t v"

lemma Contains_nth:
  "Contains s v \<longleftrightarrow> (\<exists>k. k + length v \<le> length s \<and> (\<forall>i < length v. s ! (k + i) = v ! i))"
proof
  assume "Contains s v"
  then obtain l r where s: "s = l @ v @ r" by (auto simp: Contains_iff)
  show "\<exists>k. k + length v \<le> length s \<and> (\<forall>i < length v. s ! (k + i) = v ! i)"
    by (rule exI [of _ "length l"]) (simp add: s nth_append)
next
  assume "\<exists>k. k + length v \<le> length s \<and> (\<forall>i < length v. s ! (k + i) = v ! i)"
  then obtain k where k: "k + length v \<le> length s" "\<forall>i < length v. s ! (k + i) = v ! i" by blast
  have "take (length v) (drop k s) = v"
    using k by (intro nth_equalityI) auto
  then have "s = take k s @ v @ drop (length v) (drop k s)"
    by (metis append_take_drop_id)
  then show "Contains s v" by (auto simp: Contains_iff)
qed

lemma isolated_split:
  assumes iso: "isolated t v" and c: "Contains (x @ t @ y) v"
  shows "Contains x v \<or> Contains y v"
proof -
  obtain k where k: "k + length v \<le> length (x @ t @ y)"
    and eq: "\<And>i. i < length v \<Longrightarrow> (x @ t @ y) ! (k + i) = v ! i"
    using c by (auto simp: Contains_nth)
  have t: "t \<noteq> []" and lt: "0 < length t" using iso by (auto simp: isolated_def)
  have inv: "(x @ t @ y) ! j \<in> set v" if "k \<le> j" "j < k + length v" for j
    using eq [of "j - k"] that by simp
  consider (left) "k + length v \<le> length x" | (right) "length x + length t \<le> k"
    | (first) "k \<le> length x" "length x < k + length v"
    | (lst) "length x < k" "k < length x + length t" "length x + length t - 1 < k + length v"
    | (inner) "length x < k" "k + length v \<le> length x + length t"
    by linarith
  then show ?thesis
  proof cases
    case left
    then have "Contains x v"
      using eq by (auto simp: Contains_nth nth_append intro!: exI [of _ k])
    then show ?thesis ..
  next
    case right
    have "y ! (k - (length x + length t) + i) = v ! i" if "i < length v" for i
      using eq [OF that] right by (auto simp: nth_append add.commute add.assoc split: if_splits)
    then have "Contains y v"
      using k right by (auto simp: Contains_nth intro!: exI [of _ "k - (length x + length t)"])
    then show ?thesis ..
  next
    case first
    have "(x @ t @ y) ! length x = hd t" using t by (simp add: nth_append hd_conv_nth)
    with inv [of "length x"] first iso show ?thesis by (simp add: isolated_def)
  next
    case lst
    have "(x @ t @ y) ! (length x + length t - 1) = last t"
      using t by (cases t rule: rev_cases) (auto simp: nth_append)
    moreover have "k \<le> length x + length t - 1" using lst(2) by linarith
    ultimately show ?thesis using inv [of "length x + length t - 1"] lst(3) iso by (simp add: isolated_def)
  next
    case inner
    then obtain d where d: "k = length x + d" by (metis less_imp_add_positive)
    have "t ! (d + i) = v ! i" if "i < length v" for i
    proof -
      have "(x @ t @ y) ! (k + i) = (t @ y) ! (d + i)"
        using nth_append_length_plus [of x "t @ y" "d + i"] by (simp add: d add.assoc)
      moreover have "d + i < length t" using inner(2) that by (simp add: d)
      ultimately show ?thesis using eq [OF that] by (simp add: nth_append)
    qed
    then have "Contains t v"
      using inner(2) by (auto simp: Contains_nth d intro!: exI [of _ d])
    with iso show ?thesis by (simp add: isolated_def)
  qed
qed

lemma Contains_appendI: "Contains x v \<Longrightarrow> Contains (x @ y) v"
  unfolding Contains_iff by (metis append.assoc)

lemma Contains_appendI2: "Contains y v \<Longrightarrow> Contains (x @ y) v"
  unfolding Contains_iff by (metis append.assoc)

text \<open>A replacement by an isolated token creates no occurrence.\<close>

lemma ReplaceAll_no_new:
  "isolated new v \<Longrightarrow> Contains (x @ ReplaceAll s old new) v \<Longrightarrow> Contains (x @ s) v"
proof (induction s old new arbitrary: x rule: ReplaceAll.induct)
  case (1 s old new)
  show ?case
  proof (cases "old = [] \<or> s = []")
    case True
    then show ?thesis using "1.prems" by (auto simp: ReplaceAll.simps)
  next
    case False
    show ?thesis
    proof (cases "HasPrefix s old")
      case True
      then have "Contains (x @ new @ ReplaceAll (drop (length old) s) old new) v"
        using False "1.prems" by (subst (asm) ReplaceAll.simps) simp
      then have "Contains x v \<or> Contains ([] @ ReplaceAll (drop (length old) s) old new) v"
        using isolated_split "1.prems"(1) by fastforce
      then have "Contains x v \<or> Contains ([] @ drop (length old) s) v"
        using "1.IH"(1) [OF False True "1.prems"(1)] by blast
      then show ?thesis
        by (metis Contains_appendI Contains_appendI2 append_Nil append_take_drop_id)
    next
      case noprefix: False
      then have "Contains ((x @ [hd s]) @ ReplaceAll (tl s) old new) v"
        using False "1.prems" by (subst (asm) ReplaceAll.simps) simp
      then have "Contains ((x @ [hd s]) @ tl s) v"
        using "1.IH"(2) [OF False noprefix "1.prems"(1)] by blast
      then show ?thesis using False by simp
    qed
  qed
qed

text \<open>And it removes every occurrence of the text it replaces.\<close>

lemma ReplaceAll_removes_gen:
  "isolated new old \<Longrightarrow> (\<forall>j < length x. \<not> HasPrefix (drop j (x @ s)) old) \<Longrightarrow>
   \<not> Contains (x @ ReplaceAll s old new) old"
proof (induction s old new arbitrary: x rule: ReplaceAll.induct)
  case (1 s old new)
  have old: "old \<noteq> []" using "1.prems"(1) by (simp add: isolated_def)
  have nox: "\<not> Contains x old"
  proof
    assume "Contains x old"
    then obtain l r where x: "x = l @ old @ r" by (auto simp: Contains_iff)
    then have "length l < length x" "HasPrefix (drop (length l) (x @ s)) old" using old by auto
    with "1.prems"(2) show False by blast
  qed
  show ?case
  proof (cases "s = []")
    case True
    then show ?thesis using nox by simp
  next
    case False
    then have ne: "\<not> (old = [] \<or> s = [])" using old by simp
    show ?thesis
    proof (cases "HasPrefix s old")
      case True
      have "\<not> Contains ([] @ ReplaceAll (drop (length old) s) old new) old"
        using "1.IH"(1) [OF ne True "1.prems"(1), of "[]"] by simp
      then have "\<not> Contains (x @ new @ ReplaceAll (drop (length old) s) old new) old"
        using isolated_split [OF "1.prems"(1)] nox by fastforce
      then show ?thesis using ne True by (subst ReplaceAll.simps) simp
    next
      case np: False
      have xs: "(x @ [hd s]) @ tl s = x @ s" using False by simp
      have "\<forall>j < length (x @ [hd s]). \<not> HasPrefix (drop j ((x @ [hd s]) @ tl s)) old"
        unfolding xs using "1.prems"(2) np by (auto simp: less_Suc_eq)
      then have "\<not> Contains ((x @ [hd s]) @ ReplaceAll (tl s) old new) old"
        using "1.IH"(2) [OF ne np "1.prems"(1)] by blast
      then show ?thesis using ne np by (subst ReplaceAll.simps) simp
    qed
  qed
qed

lemma ReplaceAll_removes: "isolated new old \<Longrightarrow> \<not> Contains (ReplaceAll s old new) old"
  using ReplaceAll_removes_gen [of new old "[]" s] by simp

section \<open>The mask\<close>

lemma apply_secret_removes:
  "isolated (mask_token sec) (ns_value sec) \<Longrightarrow> \<not> Contains (apply_secret sec s) (ns_value sec)"
  using ReplaceAll_removes [of "mask_token sec" "ns_value sec" s]
  by (auto simp: apply_secret_def isolated_def)

lemma apply_secret_no_new:
  "isolated (mask_token sec) v \<Longrightarrow> Contains (apply_secret sec s) v \<Longrightarrow> Contains s v"
  using ReplaceAll_no_new [of "mask_token sec" v "[]" s "ns_value sec"]
  by (auto simp: apply_secret_def split: if_splits)

lemma ApplyMask_Cons: "ApplyMask (sec # m) s = ApplyMask m (apply_secret sec s)"
  by (simp add: ApplyMask_def)

lemma ApplyMask_no_new:
  "\<forall>sec \<in> set m. isolated (mask_token sec) v \<Longrightarrow> Contains (ApplyMask m s) v \<Longrightarrow> Contains s v"
proof (induction m arbitrary: s)
  case Nil
  then show ?case by (simp add: ApplyMask_def)
next
  case (Cons sec m)
  then show ?case by (auto simp: ApplyMask_Cons dest: apply_secret_no_new)
qed

lemma ApplyMask_hides:
  "\<forall>a \<in> set m. \<forall>b \<in> set m. isolated (mask_token a) (ns_value b) \<Longrightarrow>
   sec \<in> set m \<Longrightarrow> \<not> Contains (ApplyMask m s) (ns_value sec)"
proof (induction m arbitrary: s)
  case Nil
  then show ?case by simp
next
  case (Cons a m)
  show ?case
  proof (cases "sec \<in> set m")
    case True
    with Cons show ?thesis by (simp add: ApplyMask_Cons)
  next
    case False
    with Cons.prems have "sec = a" by simp
    with Cons.prems have "\<not> Contains (apply_secret a s) (ns_value sec)"
      by (simp add: apply_secret_removes)
    with Cons.prems show ?thesis
      using ApplyMask_no_new [of m "ns_value sec"] by (auto simp: ApplyMask_Cons)
  qed
qed

lemma ApplyMask_absent:
  "\<forall>sec \<in> set m. \<not> Contains s (ns_value sec) \<Longrightarrow> ApplyMask m s = s"
  by (induction m) (auto simp: ApplyMask_def apply_secret_def)

lemma ends_of_token: "hd (mask_token sec) \<in> {CHR ''['', CHR ''*''} \<and> last (mask_token sec) \<in> {CHR '']'', CHR ''*''}"
  by (simp add: mask_token_def)

text \<open>
  A sufficient condition that is easy to check: secrets free of \<open>[\<close>, \<open>]\<close>, \<open>*\<close> that are not
  part of a token.
\<close>

definition maskable :: "Mask \<Rightarrow> bool" where
  "maskable m \<longleftrightarrow> (\<forall>b \<in> set m. ns_value b \<noteq> [] \<and> CHR ''['' \<notin> set (ns_value b) \<and>
      CHR '']'' \<notin> set (ns_value b) \<and> CHR ''*'' \<notin> set (ns_value b) \<and>
      (\<forall>a \<in> set m. \<not> Contains (mask_token a) (ns_value b)))"

lemma maskable_isolated:
  assumes "maskable m"
  shows "\<forall>a \<in> set m. \<forall>b \<in> set m. isolated (mask_token a) (ns_value b)"
proof (intro ballI)
  fix a b assume "a \<in> set m" "b \<in> set m"
  then show "isolated (mask_token a) (ns_value b)"
    using assms ends_of_token [of a]
    by (auto simp: maskable_def isolated_def mask_token_def)
qed

lemma secret_key_inj: "secret_key a = secret_key b \<Longrightarrow> a = b"
  by (cases a; cases b) (simp add: secret_key_def)

definition add_all :: "(string \<times> string) list \<Rightarrow> Mask \<Rightarrow> Mask" where
  "add_all ps m = foldl (\<lambda>acc (nm, v). AddNamed nm v acc) m ps"

definition mask_sorted :: "Mask \<Rightarrow> bool" where
  "mask_sorted m \<longleftrightarrow> sorted (map secret_key m)"

lemma AddNamed_sorted: "mask_sorted m \<Longrightarrow> mask_sorted (AddNamed nm v m)"
  by (simp add: AddNamed_def mask_sorted_def)

lemma mset_AddNamed:
  "mset (AddNamed nm v m) = mset m + (if v = [] then {#} else {#\<lparr>ns_value = v, ns_name = nm\<rparr>#})"
  by (simp add: AddNamed_def)

definition secrets_of :: "(string \<times> string) list \<Rightarrow> namedSecret list" where
  "secrets_of ps = map (\<lambda>(nm, v). \<lparr>ns_value = v, ns_name = nm\<rparr>) (filter (\<lambda>(nm, v). v \<noteq> []) ps)"

lemma add_all_spec:
  "mask_sorted m \<Longrightarrow> mask_sorted (add_all ps m) \<and> mset (add_all ps m) = mset m + mset (secrets_of ps)"
proof (induction ps arbitrary: m)
  case Nil
  then show ?case by (simp add: add_all_def secrets_of_def)
next
  case (Cons p ps)
  obtain nm v where p: "p = (nm, v)" by (cases p)
  show ?case
    using Cons.IH [of "AddNamed nm v m"] Cons.prems AddNamed_sorted
    by (auto simp: add_all_def secrets_of_def p mset_AddNamed)
qed

lemma sorted_keys_unique:
  assumes "mask_sorted a" "mask_sorted b" "mset a = mset b"
  shows "a = b"
proof -
  have "sort (map secret_key b) = map secret_key a"
    by (rule properties_for_sort) (use assms in \<open>simp_all add: mask_sorted_def\<close>)
  moreover have "sort (map secret_key b) = map secret_key b"
    using assms(2) by (simp add: mask_sorted_def sorted_sort_id)
  ultimately have "map secret_key a = map secret_key b" by simp
  moreover have "inj secret_key" by (auto intro: injI secret_key_inj)
  ultimately show ?thesis by (simp add: inj_map_eq_map)
qed

lemma MaskEqual_Some: "MaskEqual (Some a) (Some b) \<longleftrightarrow> a = b"
  by (auto simp: MaskEqual_def snapshot_def list.rel_eq)

lemma MaskEqual_None: "MaskEqual None (Some b) \<longleftrightarrow> b = []" "MaskEqual (Some b) None \<longleftrightarrow> b = []" "MaskEqual None None"
  by (auto simp: MaskEqual_def snapshot_def)

lemma MaskEqual_iff: "MaskEqual a b \<longleftrightarrow> snapshot a = snapshot b"
  by (auto simp: MaskEqual_def list.rel_eq Let_def)

section \<open>Properties\<close>

text \<open>
  Claim C3: redaction is complete.  In a mask whose secrets avoid the token brackets and the
  asterisk and are no part of a token, no secret value occurs in the text \<open>Apply\<close> returns,
  whatever the text and however the secrets overlap each other.
\<close>

theorem Apply_redacts:
  assumes "maskable m" and "sec \<in> set m"
  shows "\<not> Contains (ApplyMask m s) (ns_value sec)"
  using ApplyMask_hides [OF maskable_isolated] assms by blast

theorem Apply_redacts_witness:
  "\<not> Contains (ApplyMask (AddNamed ''db'' ''hunter2'' (Add ''hunter'' NewMask)) ''pw=hunter2 hunter'') ''hunter2''"
proof -
  let ?m = "[\<lparr>ns_value = ''hunter2'', ns_name = ''db''\<rparr>, \<lparr>ns_value = ''hunter'', ns_name = ''''\<rparr>]"
  have m: "AddNamed ''db'' ''hunter2'' (Add ''hunter'' NewMask) = ?m"
    by (simp add: AddNamed_def Add_def NewMask_def secret_key_def)
  have "maskable ?m"
    by (simp add: maskable_def mask_token_def Contains_def)
  from Apply_redacts [OF this, of "hd ?m"] show ?thesis
    unfolding m by simp
qed

text \<open>
  \<open>Equal\<close> compares masks as collections.  Two masks filled by any sequences of
  \<open>AddNamed\<close> calls are equal exactly when they were given the same non-empty named secrets
  with the same multiplicities, in whatever order.
\<close>

theorem Equal_order_insensitive:
  "MaskEqual (Some (add_all ps NewMask)) (Some (add_all qs NewMask)) \<longleftrightarrow>
     mset (secrets_of ps) = mset (secrets_of qs)"
proof -
  have s: "mask_sorted NewMask" by (simp add: mask_sorted_def NewMask_def)
  show ?thesis
    using add_all_spec [OF s, of ps] add_all_spec [OF s, of qs] sorted_keys_unique
    by (auto simp: MaskEqual_Some NewMask_def)
qed

end
