(* ===== verification/Evidence.thy ===== *)
theory Evidence
  imports Prelude
begin

text \<open>
  Package \<open>evidence\<close> (\<open>evidence/evidence.go\<close>): distilling failure lines from command output
  and checking that an analysis cites only known evidence.  The regular expression of the
  source, \<open>\[(E[0-9]+)\]|\b(E[0-9]+)\b\<close>, is the left-to-right scanner \<open>find_refs\<close>: its
  alternatives start with different bytes and the digit runs are maximal, so no
  backtracking can change a match.
\<close>

record EvLine =
  ev_ID :: string
  ev_Source :: string
  ev_Text :: string

record Summary =
  su_EvidenceLines :: "EvLine list"
  su_Truncated :: bool

datatype problem = UnknownReference string | NoReferences

record Validation =
  va_Valid :: bool
  va_Status :: string
  va_References :: "string list"
  va_Problems :: "problem list"

definition failure_keywords :: "string list" where
  "failure_keywords = [''error'', ''failed'', ''failure'', ''panic'', ''fatal'', ''exception'', ''denied'',
     ''timeout'', ''traceback'', ''undefined'', ''cannot'', ''no such file'']"

definition matched_line :: "string \<Rightarrow> bool" where
  "matched_line line = list_ex (\<lambda>k. Contains (ToLower line) k) failure_keywords"

definition tail :: "'a list \<Rightarrow> int \<Rightarrow> 'a list" where
  "tail values limit =
     (if int (length values) \<le> limit then values else drop (length values - nat limit) values)"

text \<open>The selection loop: \<open>seen\<close> and \<open>selected\<close> as in the source, stopping at the limit.\<close>

fun select_loop :: "int \<Rightarrow> string list \<Rightarrow> string list \<Rightarrow> string list \<Rightarrow> string list" where
  "select_loop limit [] seen selected = selected"
| "select_loop limit (line # rest) seen selected =
     (if \<not> matched_line line then select_loop limit rest seen selected
      else let trimmed = TrimSpace line in
        if trimmed = [] then select_loop limit rest seen selected
        else if trimmed \<in> set seen then select_loop limit rest seen selected
        else let selected' = selected @ [trimmed] in
          if int (length selected') \<ge> limit then selected'
          else select_loop limit rest (trimmed # seen) selected')"

definition number_lines :: "string list \<Rightarrow> EvLine list" where
  "number_lines ls = map (\<lambda>(i, l). \<lparr>ev_ID = ''E'' @ Itoa (int i + 1), ev_Source = ''command_output'', ev_Text = l\<rparr>)
     (enumerate 0 ls)"

definition SelectDistilled :: "string list \<Rightarrow> int \<Rightarrow> EvLine list \<times> bool" where
  "SelectDistilled lines limit0 =
     (let limit = (if limit0 \<le> 0 then 30 else limit0);
          selected = select_loop limit lines [] [];
          distilled = (length selected > 0);
          final = (if distilled then selected
                   else filter (\<lambda>t. t \<noteq> []) (map TrimSpace (tail lines limit)))
      in (number_lines final, distilled))"

definition Select :: "string list \<Rightarrow> int \<Rightarrow> EvLine list" where
  "Select lines limit = fst (SelectDistilled lines limit)"

section \<open>Citations\<close>

definition is_word :: "char \<Rightarrow> bool" where
  "is_word c \<longleftrightarrow> is_alnum c \<or> c = CHR ''_''"

definition word_at_end :: "string \<Rightarrow> bool" where
  "word_at_end s = (case s of [] \<Rightarrow> False | c # _ \<Rightarrow> is_word c)"

text \<open>The reference that matches at the head of \<open>s\<close>, and how many bytes it takes.\<close>

fun ref_at :: "char option \<Rightarrow> string \<Rightarrow> (string \<times> nat) option" where
  "ref_at prev [] = None"
| "ref_at prev (c # r) =
     (if c = CHR ''['' then
        (case r of [] \<Rightarrow> None
         | e # r' \<Rightarrow>
           (let ds = takeWhile is_digit r'; rest = dropWhile is_digit r' in
            if e = CHR ''E'' \<and> ds \<noteq> [] \<and> HasPrefix rest '']'' then Some (e # ds, length ds + 3) else None))
      else if c = CHR ''E'' \<and> \<not> (case prev of None \<Rightarrow> False | Some p \<Rightarrow> is_word p) then
        (let ds = takeWhile is_digit r; rest = dropWhile is_digit r in
         if ds \<noteq> [] \<and> \<not> word_at_end rest then Some (c # ds, length ds + 1) else None)
      else None)"

lemma ref_at_pos: "ref_at prev s = Some (r, n) \<Longrightarrow> 0 < n"
  by (cases "(prev, s)" rule: ref_at.cases) (auto simp: Let_def split: if_splits list.splits option.splits)

function find_refs :: "char option \<Rightarrow> string \<Rightarrow> string list" where
  "find_refs prev s =
     (if s = [] then []
      else (case ref_at prev s of
          Some (r, n) \<Rightarrow> r # find_refs (Some (last (take n s))) (drop n s)
        | None \<Rightarrow> find_refs (Some (hd s)) (tl s)))"
  by pat_completeness auto
termination
  by (relation "measure (\<lambda>(prev, s). length s)")
     (auto simp: neq_Nil_conv simp del: ref_at.simps dest: ref_at_pos)

declare find_refs.simps [simp del]

text \<open>Keep first occurrences only, reporting each unknown one (the loop over \<open>matches\<close>).\<close>

fun collect_refs :: "string list \<Rightarrow> string list \<Rightarrow> string list \<times> problem list \<Rightarrow> string list \<times> problem list" where
  "collect_refs known [] acc = acc"
| "collect_refs known (r # rs) (refs, problems) =
     (if r \<in> set refs then collect_refs known rs (refs, problems)
      else collect_refs known rs
        (refs @ [r], if r \<in> set known then problems else problems @ [UnknownReference r]))"

definition ValidateLinks :: "Summary \<Rightarrow> string \<Rightarrow> bool \<Rightarrow> Validation" where
  "ValidateLinks summary analysis requireEvidence =
     (let known = map ev_ID (su_EvidenceLines summary);
          (refs, problems) = collect_refs known (find_refs None analysis) ([], []);
          problems' = (if requireEvidence \<and> TrimSpace analysis \<noteq> [] \<and> refs = []
                       then problems @ [NoReferences] else problems);
          valid = (problems' = [])
      in \<lparr>va_Valid = valid, va_Status = (if valid then ''ok'' else ''INSUFFICIENT_DATA''),
          va_References = refs, va_Problems = problems'\<rparr>)"

section \<open>Lemmas\<close>

lemma select_loop_spec:
  "0 < limit \<Longrightarrow> set seen = set selected \<Longrightarrow> distinct selected \<Longrightarrow> int (length selected) < limit \<Longrightarrow>
   (let out = select_loop limit lines seen selected in
     int (length out) \<le> limit \<and> distinct out \<and> set selected \<subseteq> set out \<and>
     set out \<subseteq> set selected \<union> {TrimSpace l | l. l \<in> set lines \<and> matched_line l \<and> TrimSpace l \<noteq> []})"
proof (induction limit lines seen selected rule: select_loop.induct)
  case (1 limit seen selected)
  then show ?case by simp
next
  case (2 limit line rest seen selected)
  let ?t = "TrimSpace line"
  consider (skip) "\<not> matched_line line \<or> ?t = [] \<or> ?t \<in> set seen"
    | (take) "matched_line line" "?t \<noteq> []" "?t \<notin> set seen" by blast
  then show ?case
  proof cases
    case skip
    then have "select_loop limit (line # rest) seen selected = select_loop limit rest seen selected"
      by (auto simp: Let_def)
    moreover have "let out = select_loop limit rest seen selected in
     int (length out) \<le> limit \<and> distinct out \<and> set selected \<subseteq> set out \<and>
     set out \<subseteq> set selected \<union> {TrimSpace l | l. l \<in> set rest \<and> matched_line l \<and> TrimSpace l \<noteq> []}"
      using 2 skip by (metis (no_types, lifting))
    ultimately show ?thesis by (auto simp: Let_def)
  next
    case take
    show ?thesis
    proof (cases "int (length (selected @ [?t])) \<ge> limit")
      case True
      then have "select_loop limit (line # rest) seen selected = selected @ [?t]"
        using take by (simp add: Let_def)
      then show ?thesis using 2(5-8) take by (auto simp: Let_def)
    next
      case False
      then have eq: "select_loop limit (line # rest) seen selected
          = select_loop limit rest (?t # seen) (selected @ [?t])"
        using take by (simp add: Let_def)
      have "let out = select_loop limit rest (?t # seen) (selected @ [?t]) in
     int (length out) \<le> limit \<and> distinct out \<and> set (selected @ [?t]) \<subseteq> set out \<and>
     set out \<subseteq> set (selected @ [?t]) \<union> {TrimSpace l | l. l \<in> set rest \<and> matched_line l \<and> TrimSpace l \<noteq> []}"
        using 2(4) [OF _ refl take(2,3) refl False] 2(5-8) take False by auto
      then show ?thesis unfolding eq using take by (auto simp: Let_def)
    qed
  qed
qed

lemma select_loop_progress:
  "line \<in> set lines \<Longrightarrow> matched_line line \<Longrightarrow> TrimSpace line \<noteq> [] \<Longrightarrow> set seen = set selected \<Longrightarrow>
   select_loop limit lines seen selected \<noteq> []"
proof (induction limit lines seen selected rule: select_loop.induct)
  case (1 limit seen selected)
  then show ?case by simp
next
  case (2 limit l rest seen selected)
  have keep: "selected \<noteq> [] \<Longrightarrow> select_loop limit ls sn selected \<noteq> []" for ls sn
    by (induction limit ls sn selected rule: select_loop.induct) (auto simp: Let_def)
  have keep': "select_loop limit ls sn (selected @ [x]) \<noteq> []" for ls sn x
  proof -
    have "xs \<noteq> [] \<Longrightarrow> select_loop limit ls sn xs \<noteq> []" for xs
      by (induction limit ls sn xs rule: select_loop.induct) (auto simp: Let_def)
    then show ?thesis by simp
  qed
  show ?case
  proof (cases "matched_line l \<and> TrimSpace l \<noteq> []")
    case True
    then show ?thesis
      using keep keep' 2(8) by (cases "selected = []") (auto simp: Let_def)
  next
    case False
    then have "line \<in> set rest" using 2(5,6,7) by auto
    then show ?thesis using False 2 by (auto simp: Let_def)
  qed
qed

lemma tail_subset: "set (tail xs n) \<subseteq> set xs"
  by (auto simp: tail_def dest: in_set_dropD)

lemma length_tail: "0 \<le> n \<Longrightarrow> int (length (tail xs n)) \<le> n"
  by (auto simp: tail_def)

lemma number_lines_ids: "map ev_ID (number_lines ls) = map (\<lambda>i. ''E'' @ Itoa (int i + 1)) [0..<length ls]"
  by (simp add: number_lines_def enumerate_eq_zip zip_map_fst_snd map_zip_map comp_def)
     (induction ls rule: rev_induct, auto)

lemma number_lines_texts: "map ev_Text (number_lines ls) = ls"
  by (simp add: number_lines_def enumerate_eq_zip comp_def case_prod_unfold)

lemma distinct_ids: "distinct (map ev_ID (number_lines ls))"
  by (auto simp: number_lines_ids distinct_map inj_on_def Itoa_def nat_digits_inject)

lemma collect_refs_spec:
  "collect_refs known rs (refs, ps) = (refs', ps') \<Longrightarrow> distinct refs \<Longrightarrow>
   distinct refs' \<and> set refs' = set refs \<union> set rs \<and>
   set ps' = set ps \<union> {UnknownReference r | r. r \<in> set rs - set refs \<and> r \<notin> set known}"
proof (induction rs arbitrary: refs ps)
  case Nil
  then show ?case by simp
next
  case (Cons r rs)
  show ?case
  proof (cases "r \<in> set refs")
    case True
    with Cons show ?thesis by auto
  next
    case False
    with Cons.prems Cons.IH [of "refs @ [r]" "if r \<in> set known then ps else ps @ [UnknownReference r]"]
    show ?thesis by (auto split: if_splits)
  qed
qed

section \<open>Properties\<close>

text \<open>
  A distilled selection is sound, bounded and complete as a verdict.  The number
  of lines is at most the effective limit, ids are \<open>E1, E2, ...\<close> and distinct, every text is
  a trimmed, non-blank input line; when the result is flagged as distilled the texts are
  distinct and come from lines that name a failure, and it is flagged exactly when some
  non-blank line names one.
\<close>

theorem SelectDistilled_spec:
  assumes "SelectDistilled lines limit = (out, distilled)"
  shows "int (length out) \<le> (if limit \<le> 0 then 30 else limit) \<and>
    map ev_ID out = map (\<lambda>i. ''E'' @ Itoa (int i + 1)) [0..<length out] \<and> distinct (map ev_ID out) \<and>
    (\<forall>t \<in> set (map ev_Text out). t \<noteq> [] \<and> t \<in> TrimSpace ` set lines) \<and>
    (distilled \<longrightarrow> distinct (map ev_Text out) \<and>
       set (map ev_Text out) \<subseteq> TrimSpace ` {l \<in> set lines. matched_line l}) \<and>
    (distilled \<longleftrightarrow> (\<exists>l \<in> set lines. matched_line l \<and> TrimSpace l \<noteq> []))"
proof -
  define lim where "lim = (if limit \<le> 0 then 30 else limit)"
  define sel where "sel = select_loop lim lines [] []"
  define fin where "fin = (if length sel > 0 then sel else filter (\<lambda>t. t \<noteq> []) (map TrimSpace (tail lines lim)))"
  have lim: "0 < lim" by (simp add: lim_def)
  have S: "int (length sel) \<le> lim" "distinct sel"
      "set sel \<subseteq> {TrimSpace l | l. l \<in> set lines \<and> matched_line l \<and> TrimSpace l \<noteq> []}"
    using select_loop_spec [of lim "[]" "[]" lines] lim by (auto simp: sel_def Let_def)
  have out: "out = number_lines fin" and d: "distilled = (length sel > 0)"
    using assms by (simp_all add: SelectDistilled_def Let_def sel_def fin_def lim_def split: if_splits)
  have len: "length out = length fin"
    by (metis length_map number_lines_texts out)
  have "int (length fin) \<le> lim"
  proof -
    have "int (length (filter (\<lambda>t. t \<noteq> []) (map TrimSpace (tail lines lim)))) \<le> int (length (tail lines lim))"
      by (metis length_filter_le length_map of_nat_le_iff)
    also have "\<dots> \<le> lim" using lim by (simp add: length_tail)
    finally show ?thesis using S(1) by (simp add: fin_def)
  qed
  moreover have "\<forall>t \<in> set fin. t \<noteq> [] \<and> t \<in> TrimSpace ` set lines"
    using S(3) tail_subset [of lines lim] by (auto simp: fin_def)
  moreover have "distilled \<longleftrightarrow> (\<exists>l \<in> set lines. matched_line l \<and> TrimSpace l \<noteq> [])"
    using S(3) select_loop_progress [of _ lines "[]" "[]" lim]
    by (cases sel) (auto simp: d sel_def)
  moreover have "distilled \<longrightarrow> distinct fin \<and> set fin \<subseteq> TrimSpace ` {l \<in> set lines. matched_line l}"
    using S(2,3) by (auto simp: fin_def d)
  moreover have "map ev_ID out = map (\<lambda>i. ''E'' @ Itoa (int i + 1)) [0..<length out]"
    by (simp only: out number_lines_ids len [unfolded out])
  moreover have "map ev_Text out = fin" "distinct (map ev_ID out)"
    by (simp_all only: out number_lines_texts distinct_ids)
  ultimately show ?thesis
    by (simp only: len lim_def simp_thms)
qed

theorem SelectDistilled_spec_witness:
  "(let r = SelectDistilled [''ok'', '' build failed'', '' build failed'', ''panic: x''] 2 in
     map ev_ID (fst r) = [''E1'', ''E2''] \<and> map ev_Text (fst r) = [''build failed'', ''panic: x''] \<and> snd r \<and>
     distinct (map ev_ID (fst r)))"
proof -
  obtain out d where r: "SelectDistilled [''ok'', '' build failed'', '' build failed'', ''panic: x''] 2 = (out, d)"
    by (metis surj_pair)
  have e: "map ev_ID (fst (SelectDistilled [''ok'', '' build failed'', '' build failed'', ''panic: x''] 2)) = [''E1'', ''E2'']"
    "map ev_Text (fst (SelectDistilled [''ok'', '' build failed'', '' build failed'', ''panic: x''] 2)) = [''build failed'', ''panic: x'']"
    "snd (SelectDistilled [''ok'', '' build failed'', '' build failed'', ''panic: x''] 2)"
    by code_simp+
  from SelectDistilled_spec [OF r] e show ?thesis
    by (simp add: r Let_def)
qed

text \<open>
  An analysis is accepted exactly when every reference it makes is a known
  evidence id and, if evidence is required and the analysis is not blank, it makes at least
  one; the references reported are those it makes, without repetition.
\<close>

theorem ValidateLinks_grounded:
  "(let v = ValidateLinks summary analysis req; made = set (find_refs None analysis) in
     (va_Valid v \<longleftrightarrow> made \<subseteq> set (map ev_ID (su_EvidenceLines summary)) \<and>
        \<not> (req \<and> TrimSpace analysis \<noteq> [] \<and> made = {})) \<and>
     set (va_References v) = made \<and> distinct (va_References v) \<and>
     (va_Status v = ''ok'' \<longleftrightarrow> va_Valid v))"
proof -
  obtain refs ps where c: "collect_refs (map ev_ID (su_EvidenceLines summary)) (find_refs None analysis) ([], []) = (refs, ps)"
    by (metis surj_pair)
  from collect_refs_spec [OF c] have r: "distinct refs" "set refs = set (find_refs None analysis)"
    and p: "set ps = {UnknownReference r | r. r \<in> set (find_refs None analysis) \<and> r \<notin> set (map ev_ID (su_EvidenceLines summary))}"
    by auto
  have "ps = [] \<longleftrightarrow> set (find_refs None analysis) \<subseteq> set (map ev_ID (su_EvidenceLines summary))"
    using p by (cases ps) (auto simp del: set_map)
  moreover have "refs = [] \<longleftrightarrow> set (find_refs None analysis) = {}"
    using r(2) by (metis set_empty)
  ultimately show ?thesis
    using r by (simp add: ValidateLinks_def c Let_def del: set_map)
qed

end
