(* ===== verification/Json.thy ===== *)
theory Json
  imports Prelude
begin

text \<open>
  What the sources use of Go's \<open>encoding/json\<close>: parsed values and decoding into maps,
  strings and string slices.  A \<open>json.RawMessage\<close> is given by its parse, \<open>None\<close> for bytes
  that are not JSON.  As in Go, \<open>null\<close> leaves a scalar target alone, empties a map or slice,
  struct fields match keys without regard to (ASCII) case, and later members win.
\<close>

datatype json =
    JNull | JBool bool | JNum string | JStr string | JArr "json list" | JObj "(string \<times> json) list"

type_synonym RawMessage = "json option"

text \<open>The value of a key in a decoded \<open>map[string]T\<close>: the last member with that key.\<close>

definition member :: "string \<Rightarrow> (string \<times> 'a) list \<Rightarrow> 'a option" where
  "member k ms = map_of (rev ms) k"

text \<open>\<open>json.Unmarshal(raw, &object)\<close> with \<open>object\<close> a nil \<open>map[string]json.RawMessage\<close>.\<close>

fun decode_object :: "RawMessage \<Rightarrow> (string \<times> json) list option" where
  "decode_object (Some (JObj ms)) = Some ms"
| "decode_object (Some JNull) = Some []"
| "decode_object _ = None"

fun decode_string :: "string \<Rightarrow> RawMessage \<Rightarrow> string option" where
  "decode_string old (Some (JStr s)) = Some s"
| "decode_string old (Some JNull) = Some old"
| "decode_string old _ = None"

fun decode_strings :: "json list \<Rightarrow> string list option" where
  "decode_strings [] = Some []"
| "decode_strings (x # xs) =
     (case (decode_string [] (Some x), decode_strings xs) of
        (Some s, Some ss) \<Rightarrow> Some (s # ss) | _ \<Rightarrow> None)"

fun decode_string_slice :: "RawMessage \<Rightarrow> string list option" where
  "decode_string_slice (Some (JArr xs)) = decode_strings xs"
| "decode_string_slice (Some JNull) = Some []"
| "decode_string_slice _ = None"

definition field_matches :: "string \<Rightarrow> string \<Rightarrow> bool" where
  "field_matches field key \<longleftrightarrow> ToLower field = ToLower key"

end
