(* ===== verification/Tools.thy ===== *)
theory Tools
  imports Json
begin

text \<open>
  Package \<open>tool\<close>: effects and hints (\<open>effects.go\<close>), coded errors (\<open>error.go\<close>), results
  (\<open>result.go\<close>), schemas (\<open>schema.go\<close>), specifications and operation resolution
  (\<open>spec.go\<close>), tools (\<open>tool.go\<close>) and catalogs (\<open>catalog.go\<close>).  A Go map of operations is
  an association list with distinct keys, read in list order where the source iterates
  (Go's order is unspecified; it only selects which error is reported).  Defensive copies
  are the identity on values.
\<close>

section \<open>Effects\<close>

datatype Effect =
    EffectFilesystemRead | EffectFilesystemWrite | EffectProcessExecute | EffectProcessBackground
  | EffectNetworkAccess | EffectGitRead | EffectGitWrite | EffectConfigRead | EffectConfigWrite
  | EffectMemoryRead | EffectMemoryWrite | EffectModelInvoke | EffectUserInteraction
  | EffectHostLifecycle
  | OtherEffect string    \<comment> \<open>any other string: not in \<open>knownEffects\<close>\<close>

fun knownEffect :: "Effect \<Rightarrow> bool" where
  "knownEffect (OtherEffect s) = False"
| "knownEffect _ = True"

datatype tool_error =
    UnknownEffect Effect | DuplicateEffect Effect
  | OperationNameRequired | ReadOnlyMutates | ReadOnlyDestructive
  | InvalidToolName string | DescriptionRequired | SchemaRequired | DecodeInputSchema
  | SchemaTypeNotObject string | OperationsNeedField | FieldWhitespace | DispatchNeedsOperations
  | FieldMissing string | DecodeFieldSchema string | FieldNotString string | FieldNotRequired string
  | EnumDiffers string | EnumUnknownOperation string string
  | MismatchedName string string | InOperation string tool_error
  | HandlerRequired | InTool string tool_error | DuplicateTool string
  | SchemaEmpty | SchemaNotObject

type_synonym EffectSet = "Effect list"

fun new_effect_loop :: "Effect list \<Rightarrow> Effect list \<Rightarrow> tool_error + EffectSet" where
  "new_effect_loop [] set' = Inr set'"
| "new_effect_loop (e # es) set' =
     (if \<not> knownEffect e then Inl (UnknownEffect e)
      else if e \<in> set set' then new_effect_loop es set'
      else new_effect_loop es (set' @ [e]))"

definition NewEffectSet :: "Effect list \<Rightarrow> tool_error + EffectSet" where
  "NewEffectSet effects = new_effect_loop effects []"

definition EffectSet_Contains :: "EffectSet \<Rightarrow> Effect \<Rightarrow> bool" where
  "EffectSet_Contains s effect \<longleftrightarrow> effect \<in> set s"

fun effects_validate_loop :: "Effect list \<Rightarrow> Effect list \<Rightarrow> tool_error option" where
  "effects_validate_loop [] seen = None"
| "effects_validate_loop (e # es) seen =
     (if \<not> knownEffect e then Some (UnknownEffect e)
      else if e \<in> set seen then Some (DuplicateEffect e)
      else effects_validate_loop es (e # seen))"

definition effects_validate :: "EffectSet \<Rightarrow> tool_error option" where
  "effects_validate s = effects_validate_loop s []"

fun mutating :: "Effect \<Rightarrow> bool" where
  "mutating EffectFilesystemWrite = True"
| "mutating EffectProcessExecute = True"
| "mutating EffectProcessBackground = True"
| "mutating EffectGitWrite = True"
| "mutating EffectConfigWrite = True"
| "mutating EffectMemoryWrite = True"
| "mutating EffectHostLifecycle = True"
| "mutating _ = False"

definition Mutates :: "EffectSet \<Rightarrow> bool" where
  "Mutates s = list_ex mutating s"

record Hints =
  ReadOnly :: bool
  Destructive :: bool
  Idempotent :: bool
  OpenWorld :: bool

record Operation =
  op_Name :: string
  op_Effects :: EffectSet
  op_Hints :: Hints

section \<open>Coded errors and results\<close>

datatype ErrorCode =
    CodeInvalidArgument | CodeNotFound | CodeConflict | CodePermissionDenied
  | CodeLimitExceeded | CodeUnavailable | CodeInternal

text \<open>A Go error chain: a coded \<open>*tool.Error\<close> with an optional cause, a wrapper of another
  type, or a plain error.\<close>

datatype go_error =
    Coded ErrorCode string bool "go_error option"
  | Wrapped string go_error
  | Plain string

definition NewError :: "ErrorCode \<Rightarrow> string \<Rightarrow> go_error" where
  "NewError code message = Coded code message False None"

definition WrapError :: "ErrorCode \<Rightarrow> string \<Rightarrow> go_error \<Rightarrow> go_error" where
  "WrapError code message err = Coded code message False (Some err)"

text \<open>\<open>errors.As\<close> stops at the first coded error of the chain.\<close>

fun CodeOf :: "go_error \<Rightarrow> ErrorCode" where
  "CodeOf (Coded code m r c) = code"
| "CodeOf (Wrapped m e) = CodeOf e"
| "CodeOf (Plain m) = CodeInternal"

fun ErrorText :: "go_error \<Rightarrow> string" where
  "ErrorText (Coded code m r None) = m"
| "ErrorText (Coded code m r (Some e)) = m @ '': '' @ ErrorText e"
| "ErrorText (Wrapped m e) = m @ '': '' @ ErrorText e"
| "ErrorText (Plain m) = m"

record Truncation =
  tr_Reason :: string
  tr_ReturnedBytes :: int
  tr_TotalBytes :: int
  tr_ReturnedLines :: int
  tr_TotalLines :: int
  tr_Continuation :: string

text \<open>\<open>Structured\<close> holds what \<open>json.Marshal\<close> makes of the value: its bytes, or an error.\<close>

record Result =
  Content :: string
  Structured :: "(go_error + string) option"
  Detail :: string
  Output :: string
  Truncated :: "Truncation option"

definition ModelContent :: "Result \<Rightarrow> go_error + string" where
  "ModelContent r =
     (if Content r \<noteq> [] then Inr (Content r)
      else (case Structured r of
          None \<Rightarrow> Inr []
        | Some (Inl e) \<Rightarrow> Inl (Wrapped ''encode structured tool result'' e)
        | Some (Inr raw) \<Rightarrow> Inr raw))"

definition DisplayOutput :: "Result \<Rightarrow> go_error + string" where
  "DisplayOutput r = (if Output r \<noteq> [] then Inr (Output r) else ModelContent r)"

section \<open>Schemas\<close>

text \<open>A \<open>Schema\<close> is its parsed document, \<open>None\<close> for the zero value.\<close>

type_synonym Schema = "json option"

definition ParseSchema :: "string \<Rightarrow> RawMessage \<Rightarrow> tool_error + Schema" where
  "ParseSchema raw parsed =
     (if TrimSpace raw = [] then Inl SchemaEmpty
      else (case parsed of
          Some (JObj ms) \<Rightarrow> Inr (Some (JObj ms))
        | _ \<Rightarrow> Inl SchemaNotObject))"

record inputSchemaShape =
  ss_Type :: string
  ss_Properties :: "(string \<times> json) list"
  ss_Required :: "string list"

record operationPropertyShape =
  ps_Type :: string
  ps_Enum :: "string list"

text \<open>
  Decoding into the shapes: one member after the other; a member of the wrong type makes
  the whole decoding an error (\<open>None\<close>).  A repeated \<open>properties\<close> object extends the map.
\<close>

definition shape_member :: "inputSchemaShape option \<Rightarrow> string \<times> json \<Rightarrow> inputSchemaShape option" where
  "shape_member acc kv =
     (case acc of None \<Rightarrow> None | Some sh \<Rightarrow>
       (if field_matches ''type'' (fst kv) then
          map_option (\<lambda>s. sh\<lparr>ss_Type := s\<rparr>) (decode_string (ss_Type sh) (Some (snd kv)))
        else if field_matches ''properties'' (fst kv) then
          (case snd kv of JNull \<Rightarrow> Some (sh\<lparr>ss_Properties := []\<rparr>)
             | JObj ms \<Rightarrow> Some (sh\<lparr>ss_Properties := ss_Properties sh @ ms\<rparr>) | _ \<Rightarrow> None)
        else if field_matches ''required'' (fst kv) then
          map_option (\<lambda>ss. sh\<lparr>ss_Required := ss\<rparr>) (decode_string_slice (Some (snd kv)))
        else Some sh))"

definition Decode_shape :: "Schema \<Rightarrow> inputSchemaShape option" where
  "Decode_shape s =
     (let zero = \<lparr>ss_Type = [], ss_Properties = [], ss_Required = []\<rparr> in
      case s of
        Some (JObj ms) \<Rightarrow> foldl shape_member (Some zero) ms
      | Some JNull \<Rightarrow> Some zero
      | _ \<Rightarrow> None)"

definition property_member ::
  "operationPropertyShape option \<Rightarrow> string \<times> json \<Rightarrow> operationPropertyShape option" where
  "property_member acc kv =
     (case acc of None \<Rightarrow> None | Some sh \<Rightarrow>
       (if field_matches ''type'' (fst kv) then
          map_option (\<lambda>s. sh\<lparr>ps_Type := s\<rparr>) (decode_string (ps_Type sh) (Some (snd kv)))
        else if field_matches ''enum'' (fst kv) then
          map_option (\<lambda>ss. sh\<lparr>ps_Enum := ss\<rparr>) (decode_string_slice (Some (snd kv)))
        else Some sh))"

definition Decode_property :: "json \<Rightarrow> operationPropertyShape option" where
  "Decode_property j =
     (let zero = \<lparr>ps_Type = [], ps_Enum = []\<rparr> in
      case j of
        JObj ms \<Rightarrow> foldl property_member (Some zero) ms
      | JNull \<Rightarrow> Some zero
      | _ \<Rightarrow> None)"

section \<open>Specifications\<close>

record Spec =
  sp_Name :: string
  sp_Description :: string
  sp_InputSchema :: Schema
  sp_Operation :: Operation
  sp_OperationField :: string
  sp_Operations :: "(string \<times> Operation) list"

definition validName :: "string \<Rightarrow> bool" where
  "validName n \<longleftrightarrow> n \<noteq> [] \<and> list_all (\<lambda>c. is_alnum c \<or> c = CHR ''_'' \<or> c = CHR ''-'') n"

definition validateOperation :: "Operation \<Rightarrow> tool_error option" where
  "validateOperation op =
     (if TrimSpace (op_Name op) = [] then Some OperationNameRequired
      else (case effects_validate (op_Effects op) of
          Some e \<Rightarrow> Some e
        | None \<Rightarrow>
            if ReadOnly (op_Hints op) \<and> Mutates (op_Effects op) then Some ReadOnlyMutates
            else if ReadOnly (op_Hints op) \<and> Destructive (op_Hints op) then Some ReadOnlyDestructive
            else None))"

definition directOperation :: "Spec \<Rightarrow> Operation" where
  "directOperation s =
     (if op_Name (sp_Operation s) = [] then (sp_Operation s)\<lparr>op_Name := sp_Name s\<rparr> else sp_Operation s)"

fun check_enum :: "string \<Rightarrow> (string \<times> Operation) list \<Rightarrow> string list \<Rightarrow> tool_error option" where
  "check_enum field ops [] = None"
| "check_enum field ops (n # ns) =
     (if map_of ops n = None then Some (EnumUnknownOperation field n) else check_enum field ops ns)"

definition validateOperationSchema ::
  "inputSchemaShape \<Rightarrow> string \<Rightarrow> (string \<times> Operation) list \<Rightarrow> tool_error option" where
  "validateOperationSchema schema field ops =
     (case member field (ss_Properties schema) of
        None \<Rightarrow> Some (FieldMissing field)
      | Some raw \<Rightarrow>
        (case Decode_property raw of
           None \<Rightarrow> Some (DecodeFieldSchema field)
         | Some property \<Rightarrow>
             if ps_Type property \<noteq> ''string'' then Some (FieldNotString field)
             else if field \<notin> set (ss_Required schema) then Some (FieldNotRequired field)
             else if length (ps_Enum property) \<noteq> length ops then Some (EnumDiffers field)
             else check_enum field ops (ps_Enum property)))"

fun validate_ops_loop :: "(string \<times> Operation) list \<Rightarrow> tool_error option" where
  "validate_ops_loop [] = None"
| "validate_ops_loop ((name, op) # rest) =
     (if TrimSpace name = [] then Some OperationNameRequired
      else if op_Name op \<noteq> [] \<and> op_Name op \<noteq> name then Some (MismatchedName name (op_Name op))
      else (case validateOperation (op\<lparr>op_Name := name\<rparr>) of
          Some e \<Rightarrow> Some (InOperation name e)
        | None \<Rightarrow> validate_ops_loop rest))"

definition Spec_Validate :: "Spec \<Rightarrow> tool_error option" where
  "Spec_Validate s =
     (if \<not> validName (sp_Name s) then Some (InvalidToolName (sp_Name s))
      else if TrimSpace (sp_Description s) = [] then Some DescriptionRequired
      else if sp_InputSchema s = None then Some SchemaRequired
      else (case Decode_shape (sp_InputSchema s) of
          None \<Rightarrow> Some DecodeInputSchema
        | Some schema \<Rightarrow>
            if ss_Type schema \<noteq> ''object'' then Some (SchemaTypeNotObject (ss_Type schema))
            else if sp_OperationField s = [] then
              (if sp_Operations s \<noteq> [] then Some OperationsNeedField
               else validateOperation (directOperation s))
            else if TrimSpace (sp_OperationField s) \<noteq> sp_OperationField s then Some FieldWhitespace
            else if sp_Operations s = [] then Some DispatchNeedsOperations
            else (case validateOperationSchema schema (sp_OperationField s) (sp_Operations s) of
                Some e \<Rightarrow> Some e
              | None \<Rightarrow> validate_ops_loop (sp_Operations s))))"

definition ResolveOperation :: "Spec \<Rightarrow> RawMessage \<Rightarrow> go_error + Operation" where
  "ResolveOperation s input =
     (if sp_OperationField s = [] then Inr (directOperation s)
      else (case decode_object input of
          None \<Rightarrow> Inl (WrapError CodeInvalidArgument ''decode tool input'' (Plain ''json''))
        | Some object \<Rightarrow>
          (case member (sp_OperationField s) object of
             None \<Rightarrow> Inl (NewError CodeInvalidArgument (sp_OperationField s @ '' is required''))
           | Some raw \<Rightarrow>
             (case decode_string [] (Some raw) of
                None \<Rightarrow> Inl (NewError CodeInvalidArgument (sp_OperationField s @ '' must be a non-empty string''))
              | Some name \<Rightarrow>
                  if TrimSpace name = [] then
                    Inl (NewError CodeInvalidArgument (sp_OperationField s @ '' must be a non-empty string''))
                  else (case map_of (sp_Operations s) name of
                      None \<Rightarrow> Inl (NewError CodeInvalidArgument (''unknown '' @ sp_OperationField s @ '' '' @ name))
                    | Some op \<Rightarrow> Inr (op\<lparr>op_Name := name\<rparr>))))))"

section \<open>Tools and catalogs\<close>

type_synonym Handler = "RawMessage \<Rightarrow> go_error + Result"

record Tool =
  to_Spec :: Spec
  to_Handler :: "Handler option"
  to_DetailFromArgs :: "(RawMessage \<Rightarrow> string) option"

definition Tool_Validate :: "Tool \<Rightarrow> tool_error option" where
  "Tool_Validate t =
     (case Spec_Validate (to_Spec t) of
        Some e \<Rightarrow> Some e
      | None \<Rightarrow> if to_Handler t = None then Some HandlerRequired else None)"

definition Execute :: "Tool \<Rightarrow> RawMessage \<Rightarrow> go_error + Result" where
  "Execute t input =
     (case to_Handler t of
        None \<Rightarrow> Inl (NewError CodeInternal ''tool handler is not configured'')
      | Some h \<Rightarrow> h input)"

definition Tool_Detail :: "Tool \<Rightarrow> RawMessage \<Rightarrow> string" where
  "Tool_Detail t input = (case to_DetailFromArgs t of None \<Rightarrow> [] | Some f \<Rightarrow> f input)"

record Catalog =
  tools :: "Tool list"
  index :: "string \<rightharpoonup> nat"

abbreviation tool_name :: "Tool \<Rightarrow> string" where
  "tool_name t \<equiv> sp_Name (to_Spec t)"

fun catalog_loop :: "Tool list \<Rightarrow> Catalog \<Rightarrow> tool_error + Catalog" where
  "catalog_loop [] c = Inr c"
| "catalog_loop (t # ts) c =
     (case Tool_Validate t of
        Some e \<Rightarrow> Inl (InTool (tool_name t) e)
      | None \<Rightarrow>
          if index c (tool_name t) \<noteq> None then Inl (DuplicateTool (tool_name t))
          else catalog_loop ts \<lparr>tools = tools c @ [t],
                 index = (index c)(tool_name t \<mapsto> length (tools c))\<rparr>)"

definition NewCatalog :: "Tool list \<Rightarrow> tool_error + Catalog" where
  "NewCatalog ts = catalog_loop ts \<lparr>tools = [], index = Map.empty\<rparr>"

definition Tools_of :: "Catalog option \<Rightarrow> Tool list" where
  "Tools_of c = (case c of None \<Rightarrow> [] | Some cat \<Rightarrow> tools cat)"

definition Merge :: "Catalog option list \<Rightarrow> tool_error + Catalog" where
  "Merge cs = NewCatalog (concat (map Tools_of cs))"

definition Lookup :: "Catalog option \<Rightarrow> string \<Rightarrow> Tool option" where
  "Lookup c name =
     (case c of None \<Rightarrow> None
      | Some cat \<Rightarrow> (case index cat name of None \<Rightarrow> None | Some i \<Rightarrow> Some (tools cat ! i)))"

definition Names :: "Catalog option \<Rightarrow> string list" where
  "Names c = map tool_name (Tools_of c)"

definition Len :: "Catalog option \<Rightarrow> nat" where
  "Len c = length (Tools_of c)"

section \<open>Lemmas\<close>

text \<open>Keep the first occurrence of every element.\<close>

definition first_occurrences :: "'a list \<Rightarrow> 'a list" where
  "first_occurrences xs = rev (remdups (rev xs))"

lemma first_occurrences_Nil [simp]: "first_occurrences [] = []"
  by (simp add: first_occurrences_def)

lemma set_first_occurrences [simp]: "set (first_occurrences xs) = set xs"
  by (simp add: first_occurrences_def)

lemma first_occurrences_snoc:
  "first_occurrences (xs @ [x]) = (if x \<in> set xs then first_occurrences xs else first_occurrences xs @ [x])"
  by (simp add: first_occurrences_def)

lemma distinct_first_occurrences [simp]: "distinct (first_occurrences xs)"
  by (simp add: first_occurrences_def)

lemma new_effect_loop_spec:
  "new_effect_loop es (first_occurrences pre) =
     (case find (\<lambda>e. \<not> knownEffect e) es of
        Some e \<Rightarrow> Inl (UnknownEffect e) | None \<Rightarrow> Inr (first_occurrences (pre @ es)))"
proof (induction es arbitrary: pre)
  case Nil
  then show ?case by simp
next
  case (Cons e es)
  have "new_effect_loop es (first_occurrences (pre @ [e])) =
     (case find (\<lambda>e. \<not> knownEffect e) es of
        Some e \<Rightarrow> Inl (UnknownEffect e) | None \<Rightarrow> Inr (first_occurrences (pre @ e # es)))"
    using Cons [of "pre @ [e]"] by (simp split: option.splits)
  then show ?case
    by (auto simp: first_occurrences_snoc split: if_splits)
qed

lemma NewEffectSet_eq:
  "NewEffectSet es =
     (case find (\<lambda>e. \<not> knownEffect e) es of
        Some e \<Rightarrow> Inl (UnknownEffect e) | None \<Rightarrow> Inr (first_occurrences es))"
  using new_effect_loop_spec [of es "[]"] by (simp add: NewEffectSet_def split: option.splits)

lemma effects_validate_loop_None:
  "effects_validate_loop es seen = None \<longleftrightarrow>
     list_all knownEffect es \<and> distinct es \<and> set es \<inter> set seen = {}"
  by (induction es seen rule: effects_validate_loop.induct) auto

lemma effects_validate_None: "effects_validate es = None \<longleftrightarrow> list_all knownEffect es \<and> distinct es"
  by (simp add: effects_validate_def effects_validate_loop_None)

lemma validateOperation_None:
  "validateOperation op = None \<longleftrightarrow>
     TrimSpace (op_Name op) \<noteq> [] \<and> list_all knownEffect (op_Effects op) \<and> distinct (op_Effects op) \<and>
     \<not> (ReadOnly (op_Hints op) \<and> (Mutates (op_Effects op) \<or> Destructive (op_Hints op)))"
  using effects_validate_None [of "op_Effects op"]
  by (cases "effects_validate (op_Effects op)") (auto simp: validateOperation_def)

lemma validate_ops_loop_None:
  "validate_ops_loop ops = None \<longleftrightarrow>
     (\<forall>(n, op) \<in> set ops. TrimSpace n \<noteq> [] \<and> (op_Name op = [] \<or> op_Name op = n) \<and>
        validateOperation (op\<lparr>op_Name := n\<rparr>) = None)"
  by (induction ops rule: validate_ops_loop.induct) (auto split: option.splits)

lemma check_enum_None: "check_enum f ops ns = None \<longleftrightarrow> (\<forall>n \<in> set ns. map_of ops n \<noteq> None)"
  by (induction ns) auto

lemma Spec_Validate_dispatch:
  assumes "Spec_Validate s = None" "sp_OperationField s \<noteq> []"
  shows "validate_ops_loop (sp_Operations s) = None"
  using assms by (auto simp: Spec_Validate_def split: if_splits option.splits)

lemma Spec_Validate_direct:
  assumes "Spec_Validate s = None" "sp_OperationField s = []"
  shows "validateOperation (directOperation s) = None"
  using assms by (auto simp: Spec_Validate_def split: if_splits option.splits)

lemma ResolveOperation_dispatch:
  assumes "ResolveOperation s input = Inr op" "sp_OperationField s \<noteq> []"
  obtains name op0 where "map_of (sp_Operations s) name = Some op0" "op = op0\<lparr>op_Name := name\<rparr>"
    "TrimSpace name \<noteq> []"
  using assms by (auto simp: ResolveOperation_def split: if_splits option.splits)

lemma ResolveOperation_validated:
  assumes "Spec_Validate s = None" "ResolveOperation s input = Inr op"
  shows "validateOperation op = None"
proof (cases "sp_OperationField s = []")
  case True
  with assms(2) have "op = directOperation s" by (simp add: ResolveOperation_def)
  with Spec_Validate_direct [OF assms(1) True] show ?thesis by (simp only:)
next
  case False
  then obtain name op0 where r: "map_of (sp_Operations s) name = Some op0" "op = op0\<lparr>op_Name := name\<rparr>"
    using assms(2) by (blast elim: ResolveOperation_dispatch)
  then show ?thesis
    using Spec_Validate_dispatch [OF assms(1) False] map_of_SomeD [OF r(1)]
    by (auto simp: validate_ops_loop_None)
qed

text \<open>The representation invariant of a catalog: the index finds every tool at its position.\<close>

definition catalog_ok :: "Catalog \<Rightarrow> bool" where
  "catalog_ok c \<longleftrightarrow> distinct (map tool_name (tools c)) \<and> list_all (\<lambda>t. Tool_Validate t = None) (tools c) \<and>
     (\<forall>n i. index c n = Some i \<longleftrightarrow> i < length (tools c) \<and> tool_name (tools c ! i) = n)"

lemma catalog_ok_index_None:
  assumes "catalog_ok c"
  shows "index c n = None \<longleftrightarrow> n \<notin> tool_name ` set (tools c)"
proof
  assume "index c n = None"
  then have "\<not> (i < length (tools c) \<and> tool_name (tools c ! i) = n)" for i
    using assms by (metis catalog_ok_def option.distinct(1))
  then show "n \<notin> tool_name ` set (tools c)"
    by (metis imageE in_set_conv_nth)
next
  assume a: "n \<notin> tool_name ` set (tools c)"
  show "index c n = None"
  proof (cases "index c n")
    case (Some i)
    with assms have "i < length (tools c)" "tool_name (tools c ! i) = n"
      by (simp_all add: catalog_ok_def)
    with a show ?thesis by force
  qed
qed

lemma catalog_ok_snoc:
  assumes "catalog_ok c" "Tool_Validate t = None" "index c (tool_name t) = None"
  shows "catalog_ok \<lparr>tools = tools c @ [t], index = (index c)(tool_name t \<mapsto> length (tools c))\<rparr>"
proof -
  have new: "tool_name (tools c ! i) \<noteq> tool_name t" if "i < length (tools c)" for i
    using assms(1,3) that by (metis catalog_ok_def option.distinct(1))
  then have "tool_name t \<notin> tool_name ` set (tools c)"
    by (metis imageE in_set_conv_nth)
  then show ?thesis
    using assms new by (auto simp: catalog_ok_def nth_append less_Suc_eq)
qed

lemma catalog_loop_spec:
  "catalog_ok c \<Longrightarrow>
   (case catalog_loop ts c of
      Inl e \<Rightarrow> \<not> (list_all (\<lambda>t. Tool_Validate t = None) ts \<and> distinct (map tool_name (tools c @ ts)))
    | Inr c' \<Rightarrow> catalog_ok c' \<and> tools c' = tools c @ ts)"
proof (induction ts c rule: catalog_loop.induct)
  case (1 c)
  then show ?case by simp
next
  case (2 t ts c)
  show ?case
  proof (cases "Tool_Validate t")
    case (Some e)
    then show ?thesis by simp
  next
    case None
    show ?thesis
    proof (cases "index c (tool_name t) = None")
      case False
      then have "tool_name t \<in> tool_name ` set (tools c)"
        by (simp only: catalog_ok_index_None [OF "2.prems"] not_not)
      then have "\<not> distinct (map tool_name (tools c @ t # ts))" by simp
      moreover have "catalog_loop (t # ts) c = Inl (DuplicateTool (tool_name t))"
        using None False by simp
      ultimately show ?thesis by (simp only: sum.case simp_thms)
    next
      case True
      define c1 where "c1 = \<lparr>tools = tools c @ [t], index = (index c)(tool_name t \<mapsto> length (tools c))\<rparr>"
      have c1: "catalog_ok c1" "tools c1 = tools c @ [t]"
        using catalog_ok_snoc [OF "2.prems" None True] by (simp_all add: c1_def)
      have "catalog_loop (t # ts) c = catalog_loop ts c1"
        using None True by (simp add: c1_def)
      moreover have "case catalog_loop ts c1 of
          Inl e \<Rightarrow> \<not> (list_all (\<lambda>t. Tool_Validate t = None) ts \<and> distinct (map tool_name (tools c1 @ ts)))
        | Inr c' \<Rightarrow> catalog_ok c' \<and> tools c' = tools c1 @ ts"
        using "2.IH" [OF None _ c1(1) [unfolded c1_def]] True unfolding c1_def by (simp only: not_not)
      ultimately show ?thesis
        using c1(2) by (cases "catalog_loop ts c1") simp_all
    qed
  qed
qed

lemma catalog_ok_empty: "catalog_ok \<lparr>tools = [], index = Map.empty\<rparr>"
  by (simp add: catalog_ok_def)

lemma NewCatalog_cases:
  "case NewCatalog ts of
     Inl e \<Rightarrow> \<not> (list_all (\<lambda>t. Tool_Validate t = None) ts \<and> distinct (map tool_name ts))
   | Inr c \<Rightarrow> catalog_ok c \<and> tools c = ts"
  using catalog_loop_spec [OF catalog_ok_empty, of ts] by (auto simp: NewCatalog_def split: sum.splits)

lemma Lookup_find:
  assumes "catalog_ok c"
  shows "Lookup (Some c) n = find (\<lambda>t. tool_name t = n) (tools c)"
proof (cases "index c n")
  case None
  then have "n \<notin> tool_name ` set (tools c)"
    by (simp only: catalog_ok_index_None [OF assms] simp_thms)
  then have "find (\<lambda>t. tool_name t = n) (tools c) = None"
    unfolding find_None_iff by blast
  then show ?thesis using None by (simp add: Lookup_def)
next
  case (Some i)
  with assms have i: "i < length (tools c)" "tool_name (tools c ! i) = n" "distinct (map tool_name (tools c))"
    by (simp_all add: catalog_ok_def)
  then have "tool_name (tools c ! j) \<noteq> n" if "j < i" for j
    using that nth_eq_iff_index_eq [OF i(3), of j i] by simp
  then have "find (\<lambda>t. tool_name t = n) (tools c) = Some (tools c ! i)"
    unfolding find_Some_iff using i(1,2) by blast
  then show ?thesis
    using Some by (simp add: Lookup_def)
qed

section \<open>Properties\<close>

text \<open>
  Merging catalogs succeeds exactly when every tool is valid and no two tools,
  of the same or of different catalogs, share a name; the merged catalog then lists the
  tools in order and its index finds, for every name, the one tool that carries it.
\<close>

theorem Merge_spec:
  "(let ts = concat (map Tools_of cs);
        ok = (list_all (\<lambda>t. Tool_Validate t = None) ts \<and> distinct (map tool_name ts))
    in case Merge cs of
         Inl e \<Rightarrow> \<not> ok
       | Inr c \<Rightarrow> ok \<and> Tools_of (Some c) = ts \<and> Names (Some c) = map tool_name ts \<and> Len (Some c) = length ts \<and>
           (\<forall>n. Lookup (Some c) n = find (\<lambda>t. tool_name t = n) ts))"
  using NewCatalog_cases [of "concat (map Tools_of cs)"]
  by (auto simp: Merge_def Let_def Tools_of_def Names_def Len_def Lookup_find split: sum.splits)
     (auto simp: catalog_ok_def)

text \<open>
  Claim C4: permission metadata is trustworthy: whatever operation a validated tool
  resolves an input to has a name, only known and duplicate-free effects, and, when it is
  declared read-only, neither a mutating effect nor the destructive hint; for an
  action-dispatch tool it is one of the declared operations.
\<close>

theorem ResolveOperation_safe:
  assumes "Tool_Validate t = None" "ResolveOperation (to_Spec t) input = Inr op"
  shows "TrimSpace (op_Name op) \<noteq> [] \<and> list_all knownEffect (op_Effects op) \<and> distinct (op_Effects op) \<and>
    (ReadOnly (op_Hints op) \<longrightarrow> \<not> Mutates (op_Effects op) \<and> \<not> Destructive (op_Hints op)) \<and>
    (sp_OperationField (to_Spec t) \<noteq> [] \<longrightarrow>
       (\<exists>d. (op_Name op, d) \<in> set (sp_Operations (to_Spec t)) \<and> op_Effects d = op_Effects op \<and> op_Hints d = op_Hints op))"
proof -
  have v: "Spec_Validate (to_Spec t) = None"
    using assms(1) by (simp add: Tool_Validate_def split: option.splits)
  have "\<exists>d. (op_Name op, d) \<in> set (sp_Operations (to_Spec t)) \<and> op_Effects d = op_Effects op \<and> op_Hints d = op_Hints op"
    if "sp_OperationField (to_Spec t) \<noteq> []"
    using assms(2) that by (auto elim!: ResolveOperation_dispatch dest!: map_of_SomeD)
  then show ?thesis
    using ResolveOperation_validated [OF v assms(2)] by (simp add: validateOperation_None)
qed

definition example_hints :: "bool \<Rightarrow> Hints" where
  "example_hints ro = \<lparr>ReadOnly = ro, Destructive = \<not> ro, Idempotent = True, OpenWorld = False\<rparr>"

definition example_spec :: Spec where
  "example_spec = \<lparr>sp_Name = ''store'', sp_Description = ''d'',
     sp_InputSchema = Some (JObj [(''type'', JStr ''object''),
        (''properties'', JObj [(''action'', JObj [(''type'', JStr ''string''), (''enum'', JArr [JStr ''get'', JStr ''put''])])]),
        (''required'', JArr [JStr ''action''])]),
     sp_Operation = \<lparr>op_Name = [], op_Effects = [], op_Hints = example_hints True\<rparr>,
     sp_OperationField = ''action'',
     sp_Operations = [(''get'', \<lparr>op_Name = [], op_Effects = [EffectFilesystemRead], op_Hints = example_hints True\<rparr>),
        (''put'', \<lparr>op_Name = ''put'', op_Effects = [EffectFilesystemWrite], op_Hints = example_hints False\<rparr>)]\<rparr>"

definition example_tool :: Tool where
  "example_tool = \<lparr>to_Spec = example_spec, to_Handler = Some (\<lambda>i. Inl (Plain ''unused'')), to_DetailFromArgs = None\<rparr>"

lemma example_tool_valid: "Tool_Validate example_tool = None"
proof -
  have "Spec_Validate example_spec = None" by code_simp
  then show ?thesis by (simp add: Tool_Validate_def example_tool_def)
qed

lemma example_resolve:
  "ResolveOperation example_spec (Some (JObj [(''action'', JStr ''get'')])) =
     Inr \<lparr>op_Name = ''get'', op_Effects = [EffectFilesystemRead], op_Hints = example_hints True\<rparr>"
  by code_simp

theorem ResolveOperation_safe_witness:
  "\<not> Mutates [EffectFilesystemRead] \<and> \<not> Destructive (example_hints True)"
  using ResolveOperation_safe [OF example_tool_valid, of "Some (JObj [(''action'', JStr ''get'')])"]
    example_resolve by (simp add: example_tool_def example_hints_def)

text \<open>
  \<open>NewEffectSet\<close> rejects exactly the first unknown effect; otherwise it returns
  the distinct effects in order of first occurrence, a set its own validator accepts.
\<close>

theorem NewEffectSet_spec:
  "(case NewEffectSet es of
      Inl err \<Rightarrow> (\<exists>e pre post. es = pre @ e # post \<and> list_all knownEffect pre \<and> \<not> knownEffect e \<and> err = UnknownEffect e)
    | Inr s \<Rightarrow> list_all knownEffect es \<and> s = first_occurrences es \<and> effects_validate s = None \<and>
        (\<forall>e. EffectSet_Contains s e \<longleftrightarrow> e \<in> set es))"
proof (cases "find (\<lambda>e. \<not> knownEffect e) es")
  case None
  then have "list_all knownEffect es" by (auto simp: find_None_iff list_all_iff)
  then show ?thesis
    using None by (auto simp: NewEffectSet_eq list_all_iff effects_validate_None EffectSet_Contains_def)
next
  case (Some e)
  then obtain i where i: "i < length es" "\<not> knownEffect (es ! i)" "e = es ! i" "\<forall>j<i. knownEffect (es ! j)"
    by (auto simp: find_Some_iff)
  then have "es = take i es @ e # drop (Suc i) es" "list_all knownEffect (take i es)"
    by (auto simp: id_take_nth_drop list_all_length)
  then show ?thesis using Some i by (auto simp: NewEffectSet_eq)
qed

text \<open>
  The schema check compares only the number of enumerated names with the number
  of operations, so a tool whose enum repeats one name and leaves another out is accepted,
  and that operation can be resolved although the schema does not offer it.
\<close>

theorem enum_repetition_accepted:
  "(let spec = example_spec\<lparr>sp_InputSchema := Some (JObj [(''type'', JStr ''object''),
        (''properties'', JObj [(''action'', JObj [(''type'', JStr ''string''), (''enum'', JArr [JStr ''get'', JStr ''get''])])]),
        (''required'', JArr [JStr ''action''])])\<rparr>
    in Spec_Validate spec = None \<and> isOk (ResolveOperation spec (Some (JObj [(''action'', JStr ''put'')]))))"
  by code_simp

end
