(* ===== verification/GoPath.thy ===== *)
theory GoPath
  imports Prelude
begin

text \<open>
  The part of Go's \<open>path\<close> and \<open>path/filepath\<close> the sources use, for slash-separated paths
  (Unix: no volume names): \<open>Clean\<close>, \<open>Dir\<close>, \<open>Base\<close>, \<open>Join\<close>, \<open>IsAbs\<close>.  A path is cleaned on its
  components; the lemmas say what a cleaned path looks like, that cleaning is idempotent,
  and when a cleaned relative path stays below the directory it is relative to.
\<close>

abbreviation SLASH :: char where "SLASH \<equiv> CHR 0x2F"

definition IsAbs :: "string \<Rightarrow> bool" where
  "IsAbs p = HasPrefix p [SLASH]"

text \<open>One component after the other; \<open>acc\<close> is the result so far, last component first.\<close>

fun clean_comps :: "bool \<Rightarrow> string list \<Rightarrow> string list \<Rightarrow> string list" where
  "clean_comps rooted acc [] = rev acc"
| "clean_comps rooted acc (c # cs) =
     (if c = [] \<or> c = ''.'' then clean_comps rooted acc cs
      else if c = ''..'' then
        (if acc \<noteq> [] \<and> hd acc \<noteq> ''..'' then clean_comps rooted (tl acc) cs
         else if rooted then clean_comps rooted acc cs
         else clean_comps rooted (''..'' # acc) cs)
      else clean_comps rooted (c # acc) cs)"

definition Clean :: "string \<Rightarrow> string" where
  "Clean p =
     (let rooted = IsAbs p; cs = clean_comps rooted [] (SplitChar SLASH p) in
      if rooted then SLASH # Join [SLASH] cs
      else if cs = [] then ''.'' else Join [SLASH] cs)"

text \<open>The position behind the last slash.\<close>

definition split_last :: "string \<Rightarrow> string \<times> string" where
  "split_last p =
     (let file = rev (takeWhile (\<lambda>c. c \<noteq> SLASH) (rev p)) in (take (length p - length file) p, file))"

definition Dir :: "string \<Rightarrow> string" where
  "Dir p = Clean (fst (split_last p))"

definition Base :: "string \<Rightarrow> string" where
  "Base p =
     (if p = [] then ''.''
      else let q = TrimRightP (\<lambda>c. c = SLASH) p; f = snd (split_last q) in
        if f = [] then [SLASH] else f)"

definition JoinPath :: "string list \<Rightarrow> string" where
  "JoinPath ps =
     (let qs = filter (\<lambda>p. p \<noteq> []) ps in if qs = [] then [] else Clean (Join [SLASH] qs))"

section \<open>Clean component lists\<close>

definition plain_comp :: "string \<Rightarrow> bool" where
  "plain_comp c \<longleftrightarrow> c \<noteq> [] \<and> c \<noteq> ''.'' \<and> c \<noteq> ''..'' \<and> SLASH \<notin> set c"

text \<open>A path that names something strictly below its base: plain components, at least one.\<close>

definition below :: "string \<Rightarrow> bool" where
  "below p \<longleftrightarrow> (\<exists>cs. cs \<noteq> [] \<and> list_all plain_comp cs \<and> p = Join [SLASH] cs)"

lemma plain_comp_simps [simp]:
  "\<not> plain_comp []" "\<not> plain_comp ''.''" "\<not> plain_comp ''..''"
  by (simp_all add: plain_comp_def)

lemma clean_comps_plain:
  "list_all plain_comp cs \<Longrightarrow> clean_comps rooted acc cs = rev acc @ cs"
  by (induction cs arbitrary: acc) (auto simp: plain_comp_def)

lemma clean_comps_dots:
  "list_all plain_comp cs \<Longrightarrow> \<forall>c \<in> set acc. c = ''..'' \<Longrightarrow>
   clean_comps False acc (replicate n ''..'' @ cs) = rev acc @ replicate n ''..'' @ cs"
proof (induction n arbitrary: acc)
  case 0
  then show ?case by (simp add: clean_comps_plain)
next
  case (Suc n)
  then have "acc = [] \<or> hd acc = ''..''" by (cases acc) auto
  with Suc show ?case by auto
qed

text \<open>The shape of every result: some leading \<open>..\<close>, none for rooted paths, then plain components.\<close>

definition dots_then_plain :: "bool \<Rightarrow> string list \<Rightarrow> bool" where
  "dots_then_plain rooted cs \<longleftrightarrow>
     (\<exists>n ps. cs = replicate n ''..'' @ ps \<and> list_all plain_comp ps \<and> (rooted \<longrightarrow> n = 0))"

lemma dots_then_plain_Nil [simp]: "dots_then_plain rooted []"
  by (auto simp: dots_then_plain_def)

lemma dots_then_plain_snoc:
  "dots_then_plain rooted cs \<Longrightarrow> plain_comp c \<Longrightarrow> dots_then_plain rooted (cs @ [c])"
proof -
  assume "dots_then_plain rooted cs" "plain_comp c"
  then obtain n ps where "cs @ [c] = replicate n ''..'' @ (ps @ [c])" "list_all plain_comp (ps @ [c])" "rooted \<longrightarrow> n = 0"
    by (auto simp: dots_then_plain_def)
  then show ?thesis unfolding dots_then_plain_def by blast
qed

lemma dots_then_plain_pop:
  assumes "dots_then_plain rooted (cs @ [c])" "c \<noteq> ''..''"
  shows "dots_then_plain rooted cs"
proof -
  obtain n ps where n: "cs @ [c] = replicate n ''..'' @ ps" "list_all plain_comp ps" "rooted \<longrightarrow> n = 0"
    using assms(1) by (auto simp: dots_then_plain_def)
  have "ps \<noteq> []"
  proof
    assume "ps = []"
    with n(1) have "last (replicate n ''..'') = c" "n \<noteq> 0"
      by (metis append_Nil2 last_snoc, metis append_is_Nil_conv n(1) list.distinct(1) replicate_0 \<open>ps = []\<close>)
    with assms(2) show False by (simp add: last_replicate)
  qed
  then obtain qs where "ps = qs @ [c]" "cs = replicate n ''..'' @ qs"
    using n(1) by (metis append_butlast_last_id append_assoc butlast_snoc last_appendR last_snoc)
  with n(2,3) show ?thesis by (auto simp: dots_then_plain_def)
qed

lemma dots_then_plain_dot:
  assumes "dots_then_plain rooted cs" "cs = [] \<or> last cs = ''..''" "\<not> rooted"
  shows "dots_then_plain rooted (cs @ [''..''])"
proof -
  obtain n ps where n: "cs = replicate n ''..'' @ ps" "list_all plain_comp ps"
    using assms(1) by (auto simp: dots_then_plain_def)
  have "ps = []"
  proof (rule ccontr)
    assume "ps \<noteq> []"
    with n assms(2) have "last ps = ''..''" by auto
    with n(2) \<open>ps \<noteq> []\<close> show False by (metis last_in_set list_all_iff plain_comp_simps(3))
  qed
  with n have "cs @ [''..''] = replicate (Suc n) ''..'' @ []"
    by (simp add: replicate_append_same)
  with assms(3) show ?thesis unfolding dots_then_plain_def by (metis list.pred_inject(1))
qed

lemma clean_comps_shape:
  "dots_then_plain rooted (rev acc) \<Longrightarrow> \<forall>c \<in> set cs. SLASH \<notin> set c \<Longrightarrow>
   dots_then_plain rooted (clean_comps rooted acc cs)"
proof (induction rooted acc cs rule: clean_comps.induct)
  case (1 rooted acc)
  then show ?case by simp
next
  case (2 rooted acc c cs)
  consider (skip) "c = [] \<or> c = ''.''" | (up) "c = ''..''" | (plain) "plain_comp c"
    using "2.prems"(2) by (auto simp: plain_comp_def)
  then show ?case
  proof cases
    case skip
    with 2 show ?thesis by auto
  next
    case up
    show ?thesis
    proof (cases "acc \<noteq> [] \<and> hd acc \<noteq> ''..''")
      case True
      then have "dots_then_plain rooted (rev (tl acc))"
        using "2.prems"(1) by (cases acc) (auto intro: dots_then_plain_pop)
      with True up "2.IH"(2) "2.prems" show ?thesis by simp
    next
      case False
      then have l: "rev acc = [] \<or> last (rev acc) = ''..''" by (auto simp: last_rev)
      show ?thesis
      proof (cases rooted)
        case True
        with False up "2.IH"(3) "2.prems" show ?thesis by auto
      next
        case nr: False
        have "dots_then_plain rooted (rev (''..'' # acc))"
          using dots_then_plain_dot [OF "2.prems"(1) l nr] by simp
        with False nr up "2.IH"(4) "2.prems" show ?thesis by auto
      qed
    qed
  next
    case plain
    then have "dots_then_plain rooted (rev (c # acc))"
      using "2.prems"(1) by (simp add: dots_then_plain_snoc)
    with plain "2.IH"(5) "2.prems" show ?thesis by (auto simp: plain_comp_def)
  qed
qed

lemma clean_comps_split: "dots_then_plain rooted (clean_comps rooted [] (SplitChar SLASH p))"
  by (rule clean_comps_shape) (auto dest: SplitChar_no_sep)

lemma Clean_relative:
  assumes "\<not> IsAbs p"
  obtains (dot) "Clean p = ''.''"
  | (comps) n ps where "Clean p = Join [SLASH] (replicate n ''..'' @ ps)" "list_all plain_comp ps"
      "replicate n ''..'' @ ps \<noteq> []"
proof -
  obtain n ps where n: "clean_comps False [] (SplitChar SLASH p) = replicate n ''..'' @ ps" "list_all plain_comp ps"
    using clean_comps_split [of False p] by (auto simp: dots_then_plain_def)
  show thesis
  proof (cases "replicate n ''..'' @ ps = []")
    case True
    then have "Clean p = ''.''" using n(1) assms by (simp add: Clean_def)
    then show thesis by (rule dot)
  next
    case False
    then have "Clean p = Join [SLASH] (replicate n ''..'' @ ps)" using n(1) assms by (simp add: Clean_def)
    then show thesis using n(2) False by (rule comps)
  qed
qed

lemma Join_replicate_dots: "Join [SLASH] (replicate (Suc n) ''..'' @ ps) = ''..'' \<or>
    HasPrefix (Join [SLASH] (replicate (Suc n) ''..'' @ ps)) ''../''"
  by (cases "replicate n ''..'' @ ps") auto

text \<open>A cleaned relative path that is neither the base nor escapes names something below it.\<close>

lemma Clean_below:
  assumes "\<not> IsAbs p" "Clean p \<noteq> ''.''" "Clean p \<noteq> ''..''" "\<not> HasPrefix (Clean p) ''../''"
  shows "below (Clean p)"
  using assms(1)
proof (cases rule: Clean_relative)
  case dot
  with assms(2) show ?thesis by simp
next
  case (comps n ps)
  show ?thesis
  proof (cases n)
    case 0
    with comps show ?thesis by (auto simp: below_def)
  next
    case (Suc k)
    then show ?thesis using Join_replicate_dots [of k ps] comps(1) assms(3,4) by auto
  qed
qed

lemma below_split:
  assumes "list_all plain_comp cs" "cs \<noteq> []"
  shows "SplitChar SLASH (Join [SLASH] cs) = cs"
  using assms by (auto intro: SplitChar_Join simp: list_all_iff plain_comp_def)

lemma below_not_abs: "below p \<Longrightarrow> \<not> IsAbs p"
proof -
  assume "below p"
  then obtain c cs where "p = Join [SLASH] (c # cs)" "plain_comp c"
    unfolding below_def by (metis list.exhaust list.pred_inject(2))
  then show "\<not> IsAbs p"
    by (cases cs; cases c) (auto simp: IsAbs_def plain_comp_def)
qed

lemma Clean_below_id:
  assumes "below p"
  shows "Clean p = p"
proof -
  obtain cs where cs: "cs \<noteq> []" "list_all plain_comp cs" "p = Join [SLASH] cs"
    using assms by (auto simp: below_def)
  then have "clean_comps False [] (SplitChar SLASH p) = cs"
    by (simp add: below_split clean_comps_plain)
  then show ?thesis using below_not_abs [OF assms] cs by (simp add: Clean_def)
qed

lemma below_ne: "below p \<Longrightarrow> p \<noteq> []"
proof -
  assume "below p"
  then obtain c cs where "p = Join [SLASH] (c # cs)" "plain_comp c"
    unfolding below_def by (metis list.exhaust list.pred_inject(2))
  then show "p \<noteq> []"
    by (cases cs) (auto simp: plain_comp_def)
qed

lemma below_not_special: "below p \<Longrightarrow> p \<noteq> ''.'' \<and> p \<noteq> ''..'' \<and> \<not> HasPrefix p ''../''"
proof -
  assume "below p"
  then obtain c cs where p: "p = Join [SLASH] (c # cs)" and c: "plain_comp c"
    and cs: "SplitChar SLASH p = c # cs"
    unfolding below_def by (metis list.exhaust list.pred_inject(2) below_split)
  have "SplitChar SLASH ''.'' = [''.'']" "SplitChar SLASH ''..'' = [''..'']" by simp_all
  then have "p \<noteq> ''.''" "p \<noteq> ''..''" using c cs by force+
  moreover have "\<not> HasPrefix p ''../''"
  proof
    assume "HasPrefix p ''../''"
    then obtain r where "p = ''..'' @ SLASH # r" by (auto simp: HasPrefix_iff)
    then have "SplitChar SLASH p = ''..'' # SplitChar SLASH r"
      by (simp only: SplitChar_append [of SLASH "''..''"]) simp
    with cs have "c = ''..''" by simp
    with c show False by simp
  qed
  ultimately show ?thesis by blast
qed

text \<open>Characters of a cleaned path come from the path.\<close>

lemma set_Join: "set (Join sep xs) \<subseteq> set sep \<union> \<Union> (set ` set xs)"
  by (induction sep xs rule: Join.induct) auto

lemma clean_comps_subset: "set (clean_comps rooted acc cs) \<subseteq> set acc \<union> set cs"
proof (induction rooted acc cs rule: clean_comps.induct)
  case (1 rooted acc)
  then show ?case by simp
next
  case (2 rooted acc c cs)
  have t: "set (tl acc) \<subseteq> set acc" by (cases acc) auto
  consider "c = [] \<or> c = ''.''" | "c = ''..''" "acc \<noteq> [] \<and> hd acc \<noteq> ''..''"
    | "c = ''..''" "\<not> (acc \<noteq> [] \<and> hd acc \<noteq> ''..'')" rooted
    | "c = ''..''" "\<not> (acc \<noteq> [] \<and> hd acc \<noteq> ''..'')" "\<not> rooted"
    | "c \<noteq> []" "c \<noteq> ''.''" "c \<noteq> ''..''" by blast
  then show ?case
  proof cases
    case 1 with "2.IH"(1) show ?thesis by auto
  next
    case 2 with "2.IH"(2) t show ?thesis by auto
  next
    case 3 with "2.IH"(3) show ?thesis by auto
  next
    case 4 with "2.IH"(4) show ?thesis by auto
  next
    case 5 with "2.IH"(5) show ?thesis by auto
  qed
qed

lemma SplitChar_chars: "x \<in> set (SplitChar c s) \<Longrightarrow> set x \<subseteq> set s"
proof (induction s arbitrary: x)
  case Nil
  then show ?case by simp
next
  case (Cons a s)
  obtain q qs where q: "SplitChar c s = q # qs"
    using SplitChar_ne by (metis list.exhaust)
  have IH: "set y \<subseteq> set s" if "y = q \<or> y \<in> set qs" for y
    using Cons.IH [of y] that q by auto
  show ?case
    using Cons.prems q IH by (cases "a = c") fastforce+
qed

lemma Clean_chars: "set (Clean p) \<subseteq> set p \<union> {SLASH, CHR ''.''}"
proof -
  have "set x \<subseteq> set p" if "x \<in> set (clean_comps r [] (SplitChar SLASH p))" for x r
    using that clean_comps_subset [of r "[]" "SplitChar SLASH p"] SplitChar_chars [of x SLASH p] by auto
  then have "set (Join [SLASH] (clean_comps r [] (SplitChar SLASH p))) \<subseteq> set p \<union> {SLASH}" for r
    using set_Join [of "[SLASH]" "clean_comps r [] (SplitChar SLASH p)"] by fastforce
  then show ?thesis
    by (auto simp: Clean_def Let_def split: if_splits)
qed

text \<open>Directory and last component of a path that names something below.\<close>

lemma Join_snoc: "xs \<noteq> [] \<Longrightarrow> Join sep (xs @ [x]) = Join sep xs @ sep @ x"
  by (induction sep xs rule: Join.induct) (auto simp: Join_Cons)

lemma split_last_single: "SLASH \<notin> set f \<Longrightarrow> split_last f = ([], f)"
proof -
  assume "SLASH \<notin> set f"
  then have "takeWhile (\<lambda>c. c \<noteq> SLASH) (rev f) = rev f" by auto
  then show ?thesis by (simp add: split_last_def Let_def del: takeWhile_eq_all_conv)
qed

lemma split_last_append: "SLASH \<notin> set f \<Longrightarrow> split_last (p @ SLASH # f) = (p @ [SLASH], f)"
proof -
  assume "SLASH \<notin> set f"
  then have "takeWhile (\<lambda>c. c \<noteq> SLASH) (rev (p @ SLASH # f)) = rev f"
    by (subst rev_append, simp, subst takeWhile_append2) auto
  then show ?thesis by (simp add: split_last_def Let_def)
qed

lemma Dir_below_single: "plain_comp c \<Longrightarrow> Dir c = ''.''"
proof -
  assume "plain_comp c"
  then have "split_last c = ([], c)" by (simp add: split_last_single plain_comp_def)
  then show ?thesis by (simp add: Dir_def Clean_def IsAbs_def)
qed

lemma Clean_trailing:
  assumes "list_all plain_comp cs" "cs \<noteq> []"
  shows "Clean (Join [SLASH] cs @ [SLASH]) = Join [SLASH] cs"
proof -
  have b: "below (Join [SLASH] cs)" using assms by (auto simp: below_def)
  have j: "Join [SLASH] (cs @ [[]]) = Join [SLASH] cs @ [SLASH]"
    using Join_snoc [OF assms(2), of "[SLASH]" "[]"] by simp
  have "\<forall>x \<in> set (cs @ [[]]). SLASH \<notin> set x" using assms by (auto simp: list_all_iff plain_comp_def)
  from SplitChar_Join [OF _ this] have sp: "SplitChar SLASH (Join [SLASH] cs @ [SLASH]) = cs @ [[]]"
    by (simp add: j)
  have app: "clean_comps False acc (cs @ [[]]) = clean_comps False acc cs" for acc
    using assms(1) by (induction cs arbitrary: acc) (auto simp: plain_comp_def)
  have "\<not> IsAbs (Join [SLASH] cs @ [SLASH])"
    using below_not_abs [OF b] below_ne [OF b] by (cases "Join [SLASH] cs") (auto simp: IsAbs_def)
  then show ?thesis
    using assms by (simp add: Clean_def sp app clean_comps_plain)
qed

lemma Dir_below:
  assumes "list_all plain_comp cs" "cs \<noteq> []" "plain_comp c"
  shows "Dir (Join [SLASH] (cs @ [c])) = Join [SLASH] cs"
proof -
  have "split_last (Join [SLASH] (cs @ [c])) = (Join [SLASH] cs @ [SLASH], c)"
    using assms(2,3) by (simp add: Join_snoc split_last_append plain_comp_def)
  then show ?thesis using Clean_trailing [OF assms(1,2)] by (simp add: Dir_def)
qed

lemma below_cases:
  assumes "below p"
  obtains (top) "plain_comp p" "Dir p = ''.''"
  | (deep) cs c where "list_all plain_comp cs" "cs \<noteq> []" "plain_comp c" "p = Join [SLASH] (cs @ [c])"
      "Dir p = Join [SLASH] cs"
proof -
  obtain cs where cs: "cs \<noteq> []" "list_all plain_comp cs" "p = Join [SLASH] cs"
    using assms by (auto simp: below_def)
  obtain bs c where bc: "cs = bs @ [c]" using cs(1) by (metis rev_exhaust)
  show thesis
  proof (cases "bs = []")
    case True
    then have "plain_comp p" using bc cs by simp
    then show thesis by (intro top) (simp_all add: Dir_below_single)
  next
    case False
    then show thesis using deep [of bs c] bc cs Dir_below [of bs c] by simp
  qed
qed

lemma Join_plain_inject:
  assumes "list_all plain_comp cs" "cs \<noteq> []" "list_all plain_comp ds" "ds \<noteq> []"
  shows "Join [SLASH] cs = Join [SLASH] ds \<longleftrightarrow> cs = ds"
  using assms below_split by metis

end
