(* ===== verification/OsRoot.thy ===== *)
theory OsRoot
  imports GoPath "HOL-Library.Word"
begin

unbundle bit_operations_syntax

text \<open>
  The part of \<open>os.Root\<close> and \<open>os.File\<close> the sources use, as an executable file-system machine.
  A \<open>disk\<close> maps root-relative cleaned names to nodes and inode numbers to file contents and
  modes (so a descriptor, an inode number, keeps its file through renames and links).  Every
  system call consults the fault oracle at the current tick, so any call may fail, and
  appends the disk it leaves to the log, so what a crash between two calls would expose is
  a member of the log.  \<open>os.Root\<close> confines names to the root; intermediate components must
  be directories (intermediate symbolic links are refused), absolute names are refused
  when looked up, and the final component is
  followed by the calls that follow it.  The mode of a directory is not tracked (0755) and
  that of a symbolic link is 0777, as on Linux.
\<close>

type_synonym FileMode = "32 word"

definition ModePerm :: FileMode where "ModePerm = 0x1FF"   \<comment> \<open>octal 777\<close>
definition ModeSetuid :: FileMode where "ModeSetuid = push_bit 23 1"
definition ModeSetgid :: FileMode where "ModeSetgid = push_bit 22 1"
definition ModeSticky :: FileMode where "ModeSticky = push_bit 20 1"

definition ModeSymlink :: FileMode where "ModeSymlink = push_bit 27 1"
definition ModeDir :: FileMode where "ModeDir = push_bit 31 1"

definition Perm :: "FileMode \<Rightarrow> FileMode" where
  "Perm m = m AND ModePerm"

datatype os_error =
    ErrExist | ErrNotExist | ErrPermission | ErrNotDir | ErrIsDir | ErrLoop | ErrNotEmpty | ErrEscapes | ErrInvalid
  | ErrShortWrite | ErrIO string

datatype node = File nat | Directory | Symlink "string option"   \<comment> \<open>target inside the root, if it is\<close>

record inode =
  content :: string
  mode :: FileMode

record disk =
  names :: "string \<rightharpoonup> node"
  inodes :: "nat \<rightharpoonup> inode"

datatype fault = Fault os_error nat   \<comment> \<open>the error, and how many bytes a failing write has written\<close>

record os =
  dsk :: disk
  next_ino :: nat
  clock :: nat
  faults :: "nat \<Rightarrow> fault option"
  umask :: FileMode
  log :: "disk list"

type_synonym 'a io = "os \<Rightarrow> (os_error + 'a) \<times> os"

text \<open>End of a system call: the clock advances and the disk is logged.\<close>

definition commit :: "disk \<Rightarrow> os \<Rightarrow> os" where
  "commit d st = st\<lparr>dsk := d, clock := clock st + 1, log := log st @ [d]\<rparr>"

definition faulty :: "os \<Rightarrow> os_error option" where
  "faulty st = (case faults st (clock st) of None \<Rightarrow> None | Some (Fault e n) \<Rightarrow> Some e)"

text \<open>A call that fails, by the oracle or by its own checks, leaves the disk alone.\<close>

definition syscall :: "(disk \<Rightarrow> os_error + ('a \<times> disk)) \<Rightarrow> 'a io" where
  "syscall f st =
     (case faulty st of
        Some e \<Rightarrow> (Inl e, commit (dsk st) st)
      | None \<Rightarrow> (case f (dsk st) of
            Inl e \<Rightarrow> (Inl e, commit (dsk st) st)
          | Inr (a, d) \<Rightarrow> (Inr a, commit d st)))"

definition parent_ok :: "disk \<Rightarrow> string \<Rightarrow> bool" where
  "parent_ok d name \<longleftrightarrow> Dir name = ''.'' \<or> names d (Dir name) = Some Directory"

text \<open>Follow final symbolic links, at most 40 as the kernel does.\<close>

fun follow :: "nat \<Rightarrow> disk \<Rightarrow> string \<Rightarrow> os_error + string" where
  "follow 0 d name = Inl ErrLoop"
| "follow (Suc n) d name =
     (case names d name of
        Some (Symlink None) \<Rightarrow> Inl ErrEscapes
      | Some (Symlink (Some t)) \<Rightarrow> follow n d t
      | _ \<Rightarrow> Inr name)"

text \<open>\<open>os.FileInfo\<close>: node, mode and size.\<close>

record FileInfo =
  fi_node :: node
  fi_mode :: FileMode
  fi_size :: nat

definition file_info :: "disk \<Rightarrow> node \<Rightarrow> os_error + FileInfo" where
  "file_info d n =
     (case n of
        File i \<Rightarrow> (case inodes d i of None \<Rightarrow> Inl (ErrIO ''stale'')
          | Some x \<Rightarrow> Inr \<lparr>fi_node = n, fi_mode = mode x, fi_size = length (content x)\<rparr>)
      | Directory \<Rightarrow> Inr \<lparr>fi_node = n, fi_mode = ModeDir OR 0x1ED, fi_size = 4096\<rparr>
      | Symlink t \<Rightarrow> Inr \<lparr>fi_node = n, fi_mode = ModeSymlink OR 0x1FF,
          fi_size = (case t of None \<Rightarrow> 0 | Some x \<Rightarrow> length x)\<rparr>)"

definition root_node :: "disk \<Rightarrow> string \<Rightarrow> node option" where
  "root_node d name = (if name = ''.'' then Some Directory else names d name)"

definition os_lstat :: "string \<Rightarrow> FileInfo io" where
  "os_lstat name = syscall (\<lambda>d.
     if IsAbs name then Inl ErrEscapes else
     case root_node d name of
       None \<Rightarrow> Inl ErrNotExist
     | Some n \<Rightarrow> (case file_info d n of Inl e \<Rightarrow> Inl e | Inr fi \<Rightarrow> Inr (fi, d)))"

definition os_stat :: "string \<Rightarrow> FileInfo io" where
  "os_stat name = syscall (\<lambda>d.
     if IsAbs name then Inl ErrEscapes else
     case follow 41 d name of Inl e \<Rightarrow> Inl e
     | Inr t \<Rightarrow>
       (case root_node d t of
         None \<Rightarrow> Inl ErrNotExist
       | Some n \<Rightarrow> (case file_info d n of Inl e \<Rightarrow> Inl e | Inr fi \<Rightarrow> Inr (fi, d))))"

text \<open>\<open>OpenFile\<close> with \<open>O_CREATE|O_EXCL\<close>: a new empty file; its permission bits pass the umask.\<close>

definition create_node :: "nat \<Rightarrow> string \<Rightarrow> FileMode \<Rightarrow> disk \<Rightarrow> os_error + (nat \<times> disk)" where
  "create_node i name m d =
     (if names d name \<noteq> None then Inl ErrExist
      else if \<not> parent_ok d name then Inl ErrNotExist
      else Inr (i, d\<lparr>names := (names d)(name \<mapsto> File i), inodes := (inodes d)(i \<mapsto> \<lparr>content = [], mode = m\<rparr>)\<rparr>))"

definition os_create_excl :: "string \<Rightarrow> FileMode \<Rightarrow> nat io" where
  "os_create_excl name perm st =
     (case syscall (create_node (next_ino st) name (perm AND NOT (Perm (umask st)))) st of
        (Inl e, st') \<Rightarrow> (Inl e, st')
      | (Inr fd, st') \<Rightarrow> (Inr fd, st'\<lparr>next_ino := next_ino st + 1\<rparr>))"

text \<open>\<open>file.Write\<close> appends at the offset; a failing write may have written a part.\<close>

definition append_inode :: "nat \<Rightarrow> string \<Rightarrow> disk \<Rightarrow> disk" where
  "append_inode fd bytes d =
     (case inodes d fd of None \<Rightarrow> d
      | Some x \<Rightarrow> d\<lparr>inodes := (inodes d)(fd \<mapsto> x\<lparr>content := content x @ bytes\<rparr>)\<rparr>)"

definition os_write :: "nat \<Rightarrow> string \<Rightarrow> nat io" where
  "os_write fd data st =
     (case faults st (clock st) of
        Some (Fault e n) \<Rightarrow> (Inl e, commit (append_inode fd (take n data) (dsk st)) st)
      | None \<Rightarrow> (Inr (length data), commit (append_inode fd data (dsk st)) st))"

definition os_chmod :: "nat \<Rightarrow> FileMode \<Rightarrow> unit io" where
  "os_chmod fd m = syscall (\<lambda>d.
     case inodes d fd of None \<Rightarrow> Inl ErrInvalid
     | Some x \<Rightarrow> Inr ((), d\<lparr>inodes := (inodes d)(fd \<mapsto> x\<lparr>mode := m\<rparr>)\<rparr>))"

definition os_sync :: "nat \<Rightarrow> unit io" where
  "os_sync fd = syscall (\<lambda>d. Inr ((), d))"

definition os_close :: "nat \<Rightarrow> unit io" where
  "os_close fd = syscall (\<lambda>d. Inr ((), d))"

definition os_open_dir :: "string \<Rightarrow> unit io" where
  "os_open_dir name = syscall (\<lambda>d.
     if name = ''.'' \<or> names d name = Some Directory then Inr ((), d) else Inl ErrNotExist)"

definition os_remove :: "string \<Rightarrow> unit io" where
  "os_remove name = syscall (\<lambda>d.
     case names d name of
       None \<Rightarrow> Inl ErrNotExist
     | Some Directory \<Rightarrow>
         if \<exists>p. names d p \<noteq> None \<and> Dir p = name then Inl ErrNotEmpty
         else Inr ((), d\<lparr>names := (names d)(name := None)\<rparr>)
     | Some _ \<Rightarrow> Inr ((), d\<lparr>names := (names d)(name := None)\<rparr>))"

text \<open>\<open>rename(2)\<close> of a file: replaces a file or link, refuses a directory, and does nothing
  when both names are links to one file.\<close>

definition os_rename :: "string \<Rightarrow> string \<Rightarrow> unit io" where
  "os_rename old new = syscall (\<lambda>d.
     case names d old of
       None \<Rightarrow> Inl ErrNotExist
     | Some n \<Rightarrow>
         if \<not> parent_ok d new then Inl ErrNotExist
         else if names d new = Some Directory \<and> n \<noteq> Directory then Inl ErrIsDir
         else if names d new = Some n then Inr ((), d)
         else Inr ((), d\<lparr>names := (names d)(old := None, new \<mapsto> n)\<rparr>))"

definition os_link :: "string \<Rightarrow> string \<Rightarrow> unit io" where
  "os_link old new = syscall (\<lambda>d.
     case names d old of
       Some (File i) \<Rightarrow>
         if names d new \<noteq> None then Inl ErrExist
         else if \<not> parent_ok d new then Inl ErrNotExist
         else Inr ((), d\<lparr>names := (names d)(new \<mapsto> File i)\<rparr>)
     | Some _ \<Rightarrow> Inl ErrInvalid
     | None \<Rightarrow> Inl ErrNotExist)"

text \<open>\<open>MkdirAll\<close>: every missing prefix of the name, from the top; one call of the oracle.\<close>

fun prefixes_of :: "string list \<Rightarrow> string list \<Rightarrow> string list" where
  "prefixes_of done' [] = []"
| "prefixes_of done' (c # cs) = Join [SLASH] (done' @ [c]) # prefixes_of (done' @ [c]) cs"

fun mkdirs :: "string list \<Rightarrow> disk \<Rightarrow> os_error + disk" where
  "mkdirs [] d = Inr d"
| "mkdirs (p # ps) d =
     (case names d p of
        None \<Rightarrow> mkdirs ps (d\<lparr>names := (names d)(p \<mapsto> Directory)\<rparr>)
      | Some Directory \<Rightarrow> mkdirs ps d
      | Some _ \<Rightarrow> Inl ErrNotDir)"

definition os_mkdir_all :: "string \<Rightarrow> unit io" where
  "os_mkdir_all name = syscall (\<lambda>d.
     case mkdirs (prefixes_of [] (SplitChar SLASH name)) d of
       Inl e \<Rightarrow> Inl e | Inr d' \<Rightarrow> Inr ((), d'))"

text \<open>Opening for reading gives a descriptor; reading takes at most \<open>limit\<close> bytes (\<open>io.LimitReader\<close>).\<close>

definition os_open :: "string \<Rightarrow> nat io" where
  "os_open name = syscall (\<lambda>d.
     if IsAbs name then Inl ErrEscapes else
     case follow 41 d name of Inl e \<Rightarrow> Inl e
     | Inr t \<Rightarrow>
       (case root_node d t of
         Some (File i) \<Rightarrow> Inr (i, d)
       | Some Directory \<Rightarrow> Inl ErrIsDir
       | _ \<Rightarrow> Inl ErrNotExist))"

definition os_read :: "nat \<Rightarrow> nat \<Rightarrow> string io" where
  "os_read fd limit = syscall (\<lambda>d.
     case inodes d fd of None \<Rightarrow> Inl ErrInvalid | Some x \<Rightarrow> Inr (take limit (content x), d))"

definition os_read_file :: "string \<Rightarrow> string io" where
  "os_read_file name st =
     (case os_open name st of
        (Inl e, st1) \<Rightarrow> (Inl e, st1)
      | (Inr fd, st1) \<Rightarrow> (case os_read fd (length (case inodes (dsk st1) fd of None \<Rightarrow> [] | Some x \<Rightarrow> content x)) st1 of
          (r, st2) \<Rightarrow> (r, snd (os_close fd st2))))"

section \<open>Observations and invariant\<close>

text \<open>What a reader sees at a name.\<close>

datatype obs = Absent | ADirectory | ALink "string option" | AFile string FileMode

definition see :: "disk \<Rightarrow> string \<Rightarrow> obs" where
  "see d p =
     (case names d p of
        None \<Rightarrow> Absent
      | Some Directory \<Rightarrow> ADirectory
      | Some (Symlink t) \<Rightarrow> ALink t
      | Some (File i) \<Rightarrow> (case inodes d i of None \<Rightarrow> Absent | Some x \<Rightarrow> AFile (content x) (mode x)))"

text \<open>Every file name has its inode, and inode numbers in use were allocated.\<close>

definition disk_ok :: "nat \<Rightarrow> disk \<Rightarrow> bool" where
  "disk_ok n d \<longleftrightarrow> (\<forall>p i. names d p = Some (File i) \<longrightarrow> i < n \<and> inodes d i \<noteq> None)"

text \<open>The inode of a name belongs to that name only.\<close>

definition sole_name :: "string \<Rightarrow> nat \<Rightarrow> disk \<Rightarrow> bool" where
  "sole_name p i d \<longleftrightarrow> names d p = Some (File i) \<and> inodes d i \<noteq> None \<and> (\<forall>q. q \<noteq> p \<longrightarrow> names d q \<noteq> Some (File i))"

lemma commit_simps [simp]:
  "dsk (commit d st) = d" "next_ino (commit d st) = next_ino st" "log (commit d st) = log st @ [d]"
  "umask (commit d st) = umask st" "faults (commit d st) = faults st" "clock (commit d st) = clock st + 1"
  by (simp_all add: commit_def)

lemma syscall_cases:
  assumes "syscall f st = (r, st')"
  obtains (fail) e where "r = Inl e" "st' = commit (dsk st) st"
  | (ok) a d where "r = Inr a" "f (dsk st) = Inr (a, d)" "st' = commit d st"
  using assms by (auto simp: syscall_def split: option.splits sum.splits)

lemma syscall_same:
  assumes "syscall f st = (r, st')" "\<And>d a d'. f d = Inr (a, d') \<Longrightarrow> d' = d"
  shows "st' = commit (dsk st) st"
  using assms(1) by (rule syscall_cases) (auto dest: assms(2))

text \<open>Calls that only look leave the disk alone.\<close>

lemma os_lstat_same: "os_lstat n st = (r, st') \<Longrightarrow> st' = commit (dsk st) st"
  unfolding os_lstat_def by (erule syscall_same) (auto split: option.splits sum.splits if_splits)

lemma os_stat_same: "os_stat n st = (r, st') \<Longrightarrow> st' = commit (dsk st) st"
  unfolding os_stat_def
  by (erule syscall_same) (auto split: option.splits sum.splits if_splits)

lemma os_sync_same: "os_sync n st = (r, st') \<Longrightarrow> st' = commit (dsk st) st"
  unfolding os_sync_def by (erule syscall_same) auto

lemma os_close_same: "os_close n st = (r, st') \<Longrightarrow> st' = commit (dsk st) st"
  unfolding os_close_def by (erule syscall_same) auto

lemma os_open_dir_same: "os_open_dir n st = (r, st') \<Longrightarrow> st' = commit (dsk st) st"
  unfolding os_open_dir_def by (erule syscall_same) (auto split: if_splits)

lemma os_open_same: "os_open n st = (r, st') \<Longrightarrow> st' = commit (dsk st) st"
  unfolding os_open_def
  by (erule syscall_same) (auto split: option.splits node.splits sum.splits if_splits)

lemma os_read_same: "os_read n k st = (r, st') \<Longrightarrow> st' = commit (dsk st) st"
  unfolding os_read_def by (erule syscall_same) (auto split: option.splits)

lemmas os_same = os_lstat_same os_stat_same os_sync_same os_close_same os_open_dir_same os_open_same os_read_same

text \<open>Creating a directory tree only turns absent names into directories.\<close>

definition grown :: "disk \<Rightarrow> disk \<Rightarrow> bool" where
  "grown d d' \<longleftrightarrow> inodes d' = inodes d \<and>
     (\<forall>p. names d' p = names d p \<or> (names d p = None \<and> names d' p = Some Directory))"

lemma grown_refl [simp]: "grown d d" by (simp add: grown_def)

lemma mkdirs_grown:
  "mkdirs ps d = Inr d' \<Longrightarrow> grown d d' \<and> (\<forall>p. p \<notin> set ps \<longrightarrow> names d' p = names d p)"
proof (induction ps d rule: mkdirs.induct)
  case (1 d)
  then show ?case by simp
next
  case (2 p ps d)
  consider "names d p = None" | "names d p = Some Directory"
    using 2(3) by (auto split: option.splits node.splits)
  then show ?case
  proof cases
    case 1
    with 2(1,3) have "grown (d\<lparr>names := (names d)(p \<mapsto> Directory)\<rparr>) d'"
      "\<forall>q. q \<notin> set ps \<longrightarrow> names d' q = ((names d)(p \<mapsto> Directory)) q" by auto
    then show ?thesis using 1 by (auto simp: grown_def split: if_splits)
  next
    case 2
    with "2.prems" "2.IH"(2) show ?thesis by auto
  qed
qed

lemma grown_disk_ok: "grown d d' \<Longrightarrow> disk_ok n d \<Longrightarrow> disk_ok n d'"
  unfolding grown_def disk_ok_def by (metis node.distinct(1) option.inject)

lemma grown_see: "grown d d' \<Longrightarrow> see d' p = see d p \<or> (see d p = Absent \<and> see d' p = ADirectory)"
proof -
  assume "grown d d'"
  then have "inodes d' = inodes d" "names d' p = names d p \<or> (names d p = None \<and> names d' p = Some Directory)"
    by (simp_all add: grown_def)
  then show ?thesis
    by (cases "names d p") (auto simp: see_def split: node.splits)
qed

text \<open>Writing to or changing the mode of an inode with one name shows at that name only.\<close>

lemma see_other_inode:
  assumes "sole_name p i d" "q \<noteq> p"
  shows "see (d\<lparr>inodes := (inodes d)(i \<mapsto> x)\<rparr>) q = see d q"
  using assms by (auto simp: see_def sole_name_def split: option.splits node.splits)

lemma sole_name_upd [simp]:
  "sole_name p i d \<Longrightarrow> sole_name p i (d\<lparr>inodes := (inodes d)(i \<mapsto> x)\<rparr>)"
  by (auto simp: sole_name_def)

lemma disk_ok_upd [simp]: "disk_ok n d \<Longrightarrow> disk_ok n (d\<lparr>inodes := (inodes d)(i \<mapsto> x)\<rparr>)"
  by (auto simp: disk_ok_def)

text \<open>Observation after a change of the name table.\<close>

lemma see_upd_other [simp]: "q \<noteq> p \<Longrightarrow> see (d\<lparr>names := (names d)(p := x)\<rparr>) q = see d q"
  by (simp add: see_def cong: option.case_cong node.case_cong)

lemma see_upd_None [simp]: "see (d\<lparr>names := (names d)(p := None)\<rparr>) p = Absent"
  by (simp add: see_def)

lemma see_upd_File [simp]:
  "inodes d i = Some x \<Longrightarrow> see (d\<lparr>names := (names d)(p \<mapsto> File i)\<rparr>) p = AFile (content x) (mode x)"
  by (simp add: see_def)

lemma see_None: "names d p = None \<Longrightarrow> see d p = Absent"
  by (simp add: see_def)

lemma see_move_other: "q \<noteq> p \<Longrightarrow> q \<noteq> t \<Longrightarrow> see (d\<lparr>names := (names d)(p := x, t := y)\<rparr>) q = see d q"
  by (simp add: see_def cong: option.case_cong node.case_cong)

lemma see_move_target:
  "inodes d i = Some x \<Longrightarrow> see (d\<lparr>names := (names d)(p := n, t \<mapsto> File i)\<rparr>) t = AFile (content x) (mode x)"
  by (simp add: see_def)

lemma see_move_source: "p \<noteq> t \<Longrightarrow> see (d\<lparr>names := (names d)(p := None, t := y)\<rparr>) p = Absent"
  by (simp add: see_def)

lemma disk_ok_name_None: "disk_ok n d \<Longrightarrow> disk_ok n (d\<lparr>names := (names d)(p := None)\<rparr>)"
  by (simp add: disk_ok_def)

lemma disk_ok_name_File:
  "disk_ok n d \<Longrightarrow> names d q = Some (File i) \<Longrightarrow> disk_ok n (d\<lparr>names := (names d)(p \<mapsto> File i)\<rparr>)"
  by (auto simp: disk_ok_def)

lemma disk_ok_move:
  "disk_ok n d \<Longrightarrow> names d q = Some (File i) \<Longrightarrow> disk_ok n (d\<lparr>names := (names d)(p := None, t \<mapsto> File i)\<rparr>)"
  by (auto simp: disk_ok_def)

text \<open>Making the parents of a name does not make the name.\<close>

lemma prefixes_of_take:
  "q \<in> set (prefixes_of pre cs) \<Longrightarrow> \<exists>k. 0 < k \<and> k \<le> length cs \<and> q = Join [SLASH] (pre @ take k cs)"
proof (induction pre cs rule: prefixes_of.induct)
  case (1 pre)
  then show ?case by simp
next
  case (2 pre c cs)
  then consider "q = Join [SLASH] (pre @ [c])" | "q \<in> set (prefixes_of (pre @ [c]) cs)" by auto
  then show ?case
  proof cases
    case 1
    then show ?thesis by (intro exI [of _ 1]) simp
  next
    case 2
    with "2.IH" obtain k where "k \<le> length cs" "q = Join [SLASH] (pre @ [c] @ take k cs)" by auto
    then show ?thesis by (intro exI [of _ "Suc k"]) simp
  qed
qed

lemma below_not_own_parent:
  assumes "below p" "Dir p \<noteq> ''.''"
  shows "p \<notin> set (prefixes_of [] (SplitChar SLASH (Dir p)))"
  using assms(1)
proof (cases rule: below_cases)
  case top
  with assms(2) show ?thesis by simp
next
  case (deep cs c)
  show ?thesis
  proof
    assume "p \<in> set (prefixes_of [] (SplitChar SLASH (Dir p)))"
    then obtain k where k: "0 < k" "k \<le> length cs" "p = Join [SLASH] (take k cs)"
      using prefixes_of_take [of p "[]"] deep by (auto simp: below_split)
    have "list_all plain_comp (take k cs)" "take k cs \<noteq> []"
      using deep(1,2) k by (auto simp: list_all_iff dest: in_set_takeD)
    then have "take k cs = cs @ [c]"
      using deep k(3) Join_plain_inject [of "take k cs" "cs @ [c]"] by simp
    then have "length (take k cs) = Suc (length cs)" by simp
    then show False by simp
  qed
qed

end
