(* ===== verification/Safefs.thy ===== *)
theory Safefs
  imports OsRoot
begin

text \<open>
  Package \<open>safefs\<close>: confined names (\<open>cleanRelative\<close>), creation of missing parents, the two
  atomic writers (\<open>WriteFileAtomic\<close> of \<open>root.go\<close>, \<open>WriteFileAtomicOpts\<close> of
  \<open>atomic_opts.go\<close>), exclusive creation and the thin confined wrappers.  Random temporary
  names are an argument (\<open>None\<close>: the random source failed).  The lemmas follow a writer
  through its system calls, any of which may fail, and give what every logged disk, that
  is every possible crash point, shows.  The interface \<open>atomic_writer\<close> collects what a
  client may rely on.
\<close>

datatype safefs_error =
    PathRequired | NotRelative string | MustNameEntry | EscapesRoot string | RandomFailed
  | TempAllocation | CreateParent os_error | OsError os_error

section \<open>Confined names\<close>

definition cleanRelative :: "string \<Rightarrow> bool \<Rightarrow> safefs_error + string" where
  "cleanRelative name allowRoot =
     (if TrimSpace name = [] then (if allowRoot then Inr ''.'' else Inl PathRequired)
      else if IsAbs name then Inl (NotRelative name)
      else let clean = Clean name in
        if clean = ''.'' then (if allowRoot then Inr clean else Inl MustNameEntry)
        else if clean = ''..'' \<or> HasPrefix clean ''../'' then Inl (EscapesRoot name)
        else Inr clean)"

definition FullPath :: "string \<Rightarrow> string \<Rightarrow> safefs_error + string" where
  "FullPath rootpath name =
     (case cleanRelative name True of
        Inl e \<Rightarrow> Inl e
      | Inr clean \<Rightarrow> Inr (if clean = ''.'' then rootpath else JoinPath [rootpath, clean]))"

text \<open>A confined call: the name is checked, then the call runs.\<close>

definition confined :: "bool \<Rightarrow> (string \<Rightarrow> 'a io) \<Rightarrow> string \<Rightarrow> os \<Rightarrow> (safefs_error + 'a) \<times> os" where
  "confined allowRoot f name st =
     (case cleanRelative name allowRoot of
        Inl e \<Rightarrow> (Inl e, st)
      | Inr clean \<Rightarrow> (case f clean st of
            (Inl e, st') \<Rightarrow> (Inl (OsError e), st') | (Inr a, st') \<Rightarrow> (Inr a, st')))"

definition ReadFile :: "string \<Rightarrow> os \<Rightarrow> (safefs_error + string) \<times> os" where
  "ReadFile = confined False os_read_file"

definition Stat :: "string \<Rightarrow> os \<Rightarrow> (safefs_error + FileInfo) \<times> os" where
  "Stat = confined True os_stat"

definition Lstat :: "string \<Rightarrow> os \<Rightarrow> (safefs_error + FileInfo) \<times> os" where
  "Lstat = confined True os_lstat"

definition Remove :: "string \<Rightarrow> os \<Rightarrow> (safefs_error + unit) \<times> os" where
  "Remove = confined False os_remove"

definition MkdirAll :: "string \<Rightarrow> os \<Rightarrow> (safefs_error + unit) \<times> os" where
  "MkdirAll = confined False os_mkdir_all"

definition Rename :: "string \<Rightarrow> string \<Rightarrow> os \<Rightarrow> (safefs_error + unit) \<times> os" where
  "Rename oldName newName st =
     (case cleanRelative oldName False of
        Inl e \<Rightarrow> (Inl e, st)
      | Inr cleanOld \<Rightarrow> confined False (os_rename cleanOld) newName st)"

definition Link :: "string \<Rightarrow> string \<Rightarrow> os \<Rightarrow> (safefs_error + unit) \<times> os" where
  "Link oldName newName st =
     (case cleanRelative oldName False of
        Inl e \<Rightarrow> (Inl e, st)
      | Inr oldClean \<Rightarrow> confined False (os_link oldClean) newName st)"

definition ensureParent :: "string \<Rightarrow> os \<Rightarrow> (safefs_error + unit) \<times> os" where
  "ensureParent clean st =
     (let dir = Dir clean in
      if dir = ''.'' then (Inr (), st)
      else (case os_stat dir st of
          (Inr _, st1) \<Rightarrow> (Inr (), st1)
        | (Inl e, st1) \<Rightarrow>
            if e \<noteq> ErrNotExist then (Inl (OsError e), st1)
            else (case os_mkdir_all dir st1 of
                (Inl e', st2) \<Rightarrow> (Inl (CreateParent e'), st2)
              | (Inr _, st2) \<Rightarrow> (Inr (), st2))))"

section \<open>The options writer (\<open>atomic_opts.go\<close>)\<close>

record WriteOptions =
  ExactMode :: bool
  CreateOnly :: bool

definition preservedMode :: "FileMode \<Rightarrow> FileMode" where
  "preservedMode m = Perm m OR (m AND (ModeSetuid OR ModeSetgid OR ModeSticky))"

text \<open>The deferred clean-up: close unless closed, remove the temporary file unless kept.\<close>

definition cleanup :: "nat option \<Rightarrow> string \<Rightarrow> os \<Rightarrow> os" where
  "cleanup fd tmp st =
     snd (os_remove tmp (case fd of None \<Rightarrow> st | Some i \<Rightarrow> snd (os_close i st)))"

definition failing :: "nat option \<Rightarrow> string \<Rightarrow> os_error \<Rightarrow> os \<Rightarrow> (safefs_error + unit) \<times> os" where
  "failing fd tmp e st = (Inl (OsError e), cleanup fd tmp st)"

definition syncDir :: "string \<Rightarrow> os \<Rightarrow> (safefs_error + unit) \<times> os" where
  "syncDir directory st =
     (case os_open_dir directory st of
        (Inl e, st1) \<Rightarrow> (Inl (OsError e), st1)
      | (Inr _, st1) \<Rightarrow> (case os_sync 0 st1 of (syncErr, st2) \<Rightarrow>
          (case os_close 0 st2 of (closeErr, st3) \<Rightarrow>
            (case syncErr of Inl e \<Rightarrow> (Inl (OsError e), st3)
             | Inr _ \<Rightarrow> (case closeErr of Inl e \<Rightarrow> (Inl (OsError e), st3) | Inr _ \<Rightarrow> (Inr (), st3))))))"

text \<open>The mode the new file gets: read from the target unless the mode is exact.\<close>

definition choose_mode :: "WriteOptions \<Rightarrow> string \<Rightarrow> FileMode \<Rightarrow> os \<Rightarrow> FileMode \<times> os" where
  "choose_mode opts clean perm st =
     (if ExactMode opts then (perm, st)
      else (case os_lstat clean st of
          (Inr fi, st') \<Rightarrow> (preservedMode (fi_mode fi), st') | (Inl _, st') \<Rightarrow> (perm, st')))"

text \<open>Installing a complete, closed temporary file: link-if-absent or rename.\<close>

definition install :: "WriteOptions \<Rightarrow> string \<Rightarrow> string \<Rightarrow> os \<Rightarrow> (safefs_error + unit) \<times> os" where
  "install opts tmp clean st =
     (if CreateOnly opts then
        (case os_link tmp clean st of
           (Inl e, st1) \<Rightarrow> failing None tmp e st1
         | (Inr _, st1) \<Rightarrow> (case os_remove tmp st1 of
             (Inl e, st2) \<Rightarrow> failing None tmp e st2
           | (Inr _, st2) \<Rightarrow> syncDir (Dir clean) st2))
      else
        (case os_rename tmp clean st of
           (Inl e, st1) \<Rightarrow> failing None tmp e st1
         | (Inr _, st1) \<Rightarrow> syncDir (Dir clean) st1))"

text \<open>Writing through the descriptor: content, mode, flush, close.\<close>

definition fill :: "nat \<Rightarrow> string \<Rightarrow> FileMode \<Rightarrow> os \<Rightarrow> (nat option \<times> os_error + unit) \<times> os" where
  "fill fd data finalMode st =
     (case os_write fd data st of
        (Inl e, st1) \<Rightarrow> (Inl (Some fd, e), st1)
      | (Inr n, st1) \<Rightarrow>
          if n \<noteq> length data then (Inl (Some fd, ErrShortWrite), st1)
          else (case os_chmod fd finalMode st1 of
              (Inl e, st2) \<Rightarrow> (Inl (Some fd, e), st2)
            | (Inr _, st2) \<Rightarrow> (case os_sync fd st2 of
                  (Inl e, st3) \<Rightarrow> (Inl (Some fd, e), st3)
                | (Inr _, st3) \<Rightarrow> (case os_close fd st3 of
                      (Inl e, st4) \<Rightarrow> (Inl (None, e), st4)
                    | (Inr _, st4) \<Rightarrow> (Inr (), st4)))))"

definition cozy_temp :: "string \<Rightarrow> string \<Rightarrow> string" where
  "cozy_temp clean noise = JoinPath [Dir clean, ''.cozy-tmp-'' @ noise]"

definition write_in :: "WriteOptions \<Rightarrow> string \<Rightarrow> string \<Rightarrow> string \<Rightarrow> FileMode \<Rightarrow> os \<Rightarrow> (safefs_error + unit) \<times> os" where
  "write_in opts tmp clean data perm st =
     (case os_create_excl tmp (if ExactMode opts then 0x180 else perm) st of
        (Inl e, st1) \<Rightarrow> (Inl (OsError e), st1)
      | (Inr fd, st1) \<Rightarrow>
          (case choose_mode opts clean perm st1 of (finalMode, st2) \<Rightarrow>
            (case fill fd data finalMode st2 of
               (Inl (fd', e), st3) \<Rightarrow> failing fd' tmp e st3
             | (Inr _, st3) \<Rightarrow> install opts tmp clean st3)))"

definition WriteFileAtomicOpts ::
  "string \<Rightarrow> string \<Rightarrow> FileMode \<Rightarrow> WriteOptions \<Rightarrow> string option \<Rightarrow> os \<Rightarrow> (safefs_error + unit) \<times> os" where
  "WriteFileAtomicOpts name data perm opts random st =
     (case cleanRelative name False of
        Inl e \<Rightarrow> (Inl e, st)
      | Inr clean \<Rightarrow>
          (case ensureParent clean st of
             (Inl e, st1) \<Rightarrow> (Inl e, st1)
           | (Inr _, st1) \<Rightarrow>
               (case random of
                  None \<Rightarrow> (Inl RandomFailed, st1)
                | Some noise \<Rightarrow> write_in opts (cozy_temp clean noise) clean data perm st1)))"

section \<open>The plain writer and exclusive creation (\<open>root.go\<close>)\<close>

definition plain_temp :: "string \<Rightarrow> string \<Rightarrow> string" where
  "plain_temp T noise = JoinPath [Dir T, ''.'' @ Base T @ ''.'' @ noise @ ''.tmp'']"

text \<open>Up to five attempts at a fresh temporary name.\<close>

fun create_temp :: "nat \<Rightarrow> string \<Rightarrow> FileMode \<Rightarrow> string option list \<Rightarrow> os \<Rightarrow> (safefs_error + string \<times> nat) \<times> os" where
  "create_temp 0 clean perm noises st = (Inl TempAllocation, st)"
| "create_temp (Suc k) clean perm [] st = (Inl RandomFailed, st)"
| "create_temp (Suc k) clean perm (None # noises) st = (Inl RandomFailed, st)"
| "create_temp (Suc k) clean perm (Some noise # noises) st =
     (let tmp = plain_temp clean noise in
      case os_create_excl tmp perm st of
        (Inr fd, st') \<Rightarrow> (Inr (tmp, fd), st')
      | (Inl e, st') \<Rightarrow> if e \<noteq> ErrExist then (Inl (OsError e), st') else create_temp k clean perm noises st')"

text \<open>Write and flush, then close in any case; the write error wins.\<close>

definition write_sync_close :: "nat \<Rightarrow> string \<Rightarrow> os \<Rightarrow> os_error option \<times> os" where
  "write_sync_close fd data st =
     (case (case os_write fd data st of
              (Inl e, st1) \<Rightarrow> (Some e, st1)
            | (Inr _, st1) \<Rightarrow> (case os_sync fd st1 of (Inl e, st2) \<Rightarrow> (Some e, st2) | (Inr _, st2) \<Rightarrow> (None, st2)))
      of (writeErr, st1) \<Rightarrow>
        (case os_close fd st1 of
           (Inl e, st2) \<Rightarrow> (Some (case writeErr of Some w \<Rightarrow> w | None \<Rightarrow> e), st2)
         | (Inr _, st2) \<Rightarrow> (writeErr, st2)))"

definition WriteFileAtomic ::
  "string \<Rightarrow> string \<Rightarrow> FileMode \<Rightarrow> string option list \<Rightarrow> os \<Rightarrow> (safefs_error + unit) \<times> os" where
  "WriteFileAtomic name data perm noises st =
     (case cleanRelative name False of
        Inl e \<Rightarrow> (Inl e, st)
      | Inr clean \<Rightarrow>
          (case ensureParent clean st of
             (Inl e, st1) \<Rightarrow> (Inl e, st1)
           | (Inr _, st1) \<Rightarrow>
               (case os_stat clean st1 of (info, st2) \<Rightarrow>
                 (let perm' = (case info of Inr fi \<Rightarrow> Perm (fi_mode fi) | Inl _ \<Rightarrow> perm) in
                  case create_temp 5 clean perm' noises st2 of
                    (Inl e, st3) \<Rightarrow> (Inl e, st3)
                  | (Inr (tmp, fd), st3) \<Rightarrow>
                      (case write_sync_close fd data st3 of
                         (Some e, st4) \<Rightarrow> failing None tmp e st4
                       | (None, st4) \<Rightarrow>
                           (case os_rename tmp clean st4 of
                              (Inl e, st5) \<Rightarrow> failing None tmp e st5
                            | (Inr _, st5) \<Rightarrow> (Inr (), st5)))))))"

definition CreateExclusive :: "string \<Rightarrow> string \<Rightarrow> FileMode \<Rightarrow> os \<Rightarrow> (safefs_error + unit) \<times> os" where
  "CreateExclusive name data perm st =
     (case cleanRelative name False of
        Inl e \<Rightarrow> (Inl e, st)
      | Inr clean \<Rightarrow>
          (case ensureParent clean st of
             (Inl e, st1) \<Rightarrow> (Inl e, st1)
           | (Inr _, st1) \<Rightarrow>
               (case os_create_excl clean perm st1 of
                  (Inl e, st2) \<Rightarrow> (Inl (OsError e), st2)
                | (Inr fd, st2) \<Rightarrow>
                    (case os_write fd data st2 of
                       (Inl e, st3) \<Rightarrow> (Inl (OsError e), snd (os_close fd st3))
                     | (Inr _, st3) \<Rightarrow>
                         (case os_close fd st3 of
                            (Inl e, st4) \<Rightarrow> (Inl (OsError e), st4) | (Inr _, st4) \<Rightarrow> (Inr (), st4))))))"

section \<open>What a reader or a crash can see while a writer runs\<close>

text \<open>\<open>logged P st st'\<close>: every disk logged between the two states satisfies \<open>P\<close>.\<close>

definition logged :: "(disk \<Rightarrow> bool) \<Rightarrow> os \<Rightarrow> os \<Rightarrow> bool" where
  "logged P st st' \<longleftrightarrow> (\<exists>ds. log st' = log st @ ds \<and> (\<forall>d \<in> set ds. P d))"

lemma logged_refl [simp]: "logged P st st"
  by (simp add: logged_def)

lemma logged_trans: "logged P a b \<Longrightarrow> logged P b c \<Longrightarrow> logged P a c"
  unfolding logged_def by (metis append_assoc set_append Un_iff)

lemma logged_commit: "P d \<Longrightarrow> logged P st (commit d st)"
  by (auto simp: logged_def)

lemma logged_mono: "logged P a b \<Longrightarrow> (\<And>d. P d \<Longrightarrow> Q d) \<Longrightarrow> logged Q a b"
  unfolding logged_def by blast

text \<open>Nothing differs from \<open>d0\<close> outside the temporary name.\<close>

definition frame :: "string \<Rightarrow> disk \<Rightarrow> disk \<Rightarrow> bool" where
  "frame tmp d0 d \<longleftrightarrow> (\<forall>p. p \<noteq> tmp \<longrightarrow> see d p = see d0 p)"

text \<open>The target shows the new content, everything else is as in \<open>d0\<close>.\<close>

definition installed :: "string \<Rightarrow> string \<Rightarrow> string \<Rightarrow> FileMode \<Rightarrow> disk \<Rightarrow> disk \<Rightarrow> bool" where
  "installed tmp T data m d0 d \<longleftrightarrow>
     see d T = AFile data m \<and> (\<forall>p. p \<noteq> tmp \<longrightarrow> p \<noteq> T \<longrightarrow> see d p = see d0 p)"

text \<open>The writer holds a private temporary file and has changed nothing else.\<close>

definition working :: "string \<Rightarrow> nat \<Rightarrow> disk \<Rightarrow> os \<Rightarrow> bool" where
  "working tmp fd d0 st \<longleftrightarrow> disk_ok (next_ino st) (dsk st) \<and> sole_name tmp fd (dsk st) \<and> frame tmp d0 (dsk st)"

lemma frame_refl [simp]: "frame tmp d d"
  by (simp add: frame_def)

lemma working_commit_same: "working tmp fd d0 st \<Longrightarrow> working tmp fd d0 (commit (dsk st) st)"
  by (simp add: working_def)

lemma working_commit_upd:
  "working tmp fd d0 st \<Longrightarrow> working tmp fd d0 (commit (dsk st\<lparr>inodes := (inodes (dsk st))(fd \<mapsto> x)\<rparr>) st)"
  by (auto simp: working_def frame_def see_other_inode)

lemma working_logged: "working tmp fd d0 st \<Longrightarrow> logged (frame tmp d0) st (commit (dsk st) st)"
  by (auto simp: working_def intro: logged_commit)

lemma working_logged_upd:
  "working tmp fd d0 st \<Longrightarrow>
   logged (frame tmp d0) st (commit (dsk st\<lparr>inodes := (inodes (dsk st))(fd \<mapsto> x)\<rparr>) st)"
  by (rule logged_commit) (auto simp: working_def frame_def see_other_inode)

lemma os_create_excl_cases:
  assumes "os_create_excl name perm st = (r, st')"
  obtains (fail) e where "r = Inl e" "st' = commit (dsk st) st"
  | (ok) d where "r = Inr (next_ino st)" "names (dsk st) name = None"
      "d = dsk st\<lparr>names := (names (dsk st))(name \<mapsto> File (next_ino st)),
         inodes := (inodes (dsk st))(next_ino st \<mapsto> \<lparr>content = [], mode = perm AND NOT (Perm (umask st))\<rparr>)\<rparr>"
      "st' = (commit d st)\<lparr>next_ino := next_ino st + 1\<rparr>"
proof -
  obtain r0 s0 where c: "syscall (create_node (next_ino st) name (perm AND NOT (Perm (umask st)))) st = (r0, s0)"
    by (metis surj_pair)
  show thesis
    using c
  proof (cases rule: syscall_cases)
    case (fail e)
    with c assms show thesis by (auto simp: os_create_excl_def intro: that(1))
  next
    case (ok a d)
    then have "a = next_ino st" "names (dsk st) name = None"
      "d = dsk st\<lparr>names := (names (dsk st))(name \<mapsto> File (next_ino st)),
         inodes := (inodes (dsk st))(next_ino st \<mapsto> \<lparr>content = [], mode = perm AND NOT (Perm (umask st))\<rparr>)\<rparr>"
      by (auto simp: create_node_def split: if_splits)
    note created = this
    have "r = Inr a" "st' = (commit d st)\<lparr>next_ino := next_ino st + 1\<rparr>"
      using assms c ok(1,3) by (simp_all add: os_create_excl_def)
    with created show thesis using that(2) [of d] by simp
  qed
qed

lemma create_working:
  assumes "os_create_excl tmp perm st = (Inr fd, st')" "disk_ok (next_ino st) (dsk st)"
  shows "working tmp fd (dsk st) st' \<and> logged (frame tmp (dsk st)) st st' \<and>
    inodes (dsk st') fd = Some \<lparr>content = [], mode = perm AND NOT (Perm (umask st))\<rparr> \<and>
    names (dsk st) tmp = None"
  using assms(1)
proof (cases rule: os_create_excl_cases)
  case (fail e)
  then show ?thesis by simp
next
  case (ok d)
  have fresh: "names (dsk st) q \<noteq> Some (File (next_ino st))" for q
    using assms(2) by (auto simp: disk_ok_def)
  have fr: "frame tmp (dsk st) d"
    using fresh by (auto simp: frame_def see_def ok(3) split: option.splits node.splits)
  have "disk_ok (next_ino st + 1) d"
    using assms(2) by (auto simp: disk_ok_def ok(3) less_Suc_eq)
  moreover have "sole_name tmp (next_ino st) d"
    using fresh by (auto simp: sole_name_def ok(3))
  moreover have "logged (frame tmp (dsk st)) st st'"
    using fr by (auto simp: logged_def ok(4))
  ultimately show ?thesis
    using fr ok by (simp add: working_def)
qed

lemma write_working:
  assumes "os_write fd data st = (r, st')" "working tmp fd d0 st"
  shows "working tmp fd d0 st' \<and> logged (frame tmp d0) st st' \<and>
    (isOk r \<longrightarrow> r = Inr (length data) \<and> (\<forall>x. inodes (dsk st) fd = Some x \<longrightarrow>
       inodes (dsk st') fd = Some (x\<lparr>content := content x @ data\<rparr>)))"
proof -
  have a: "append_inode fd b (dsk st) = dsk st\<lparr>inodes := (inodes (dsk st))(fd \<mapsto> x\<lparr>content := content x @ b\<rparr>)\<rparr>"
    if "inodes (dsk st) fd = Some x" for b x
    using that by (simp add: append_inode_def)
  obtain x where x: "inodes (dsk st) fd = Some x"
    using assms(2) by (auto simp: working_def sole_name_def)
  show ?thesis
    using assms working_commit_upd [OF assms(2)] working_logged_upd [OF assms(2)] x
    by (auto simp: os_write_def a split: option.splits fault.splits)
qed

lemma chmod_working:
  assumes "os_chmod fd m st = (r, st')" "working tmp fd d0 st"
  shows "working tmp fd d0 st' \<and> logged (frame tmp d0) st st' \<and>
    (isOk r \<longrightarrow> (\<forall>x. inodes (dsk st) fd = Some x \<longrightarrow> inodes (dsk st') fd = Some (x\<lparr>mode := m\<rparr>)))"
  using assms(1) unfolding os_chmod_def
proof (cases rule: syscall_cases)
  case (fail e)
  then show ?thesis
    using assms(2) working_commit_same working_logged by auto
next
  case (ok a d)
  then show ?thesis
    using working_commit_upd [OF assms(2)] working_logged_upd [OF assms(2)]
    by (auto split: option.splits)
qed

lemma same_working:
  assumes "st' = commit (dsk st) st" "working tmp fd d0 st"
  shows "working tmp fd d0 st'" "logged (frame tmp d0) st st'" "dsk st' = dsk st"
  using assms working_commit_same working_logged by auto

lemma fill_working:
  assumes "fill fd data m st = (r, st')" "working tmp fd d0 st"
    "inodes (dsk st) fd = Some \<lparr>content = [], mode = m0\<rparr>"
  shows "working tmp fd d0 st' \<and> logged (frame tmp d0) st st' \<and>
    (isOk r \<longrightarrow> inodes (dsk st') fd = Some \<lparr>content = data, mode = m\<rparr>)"
proof -
  obtain r1 s1 where w: "os_write fd data st = (r1, s1)" by (metis surj_pair)
  note W = write_working [OF w assms(2)]
  show ?thesis
  proof (cases r1)
    case (Inl e)
    then show ?thesis using W assms(1) w by (auto simp: fill_def)
  next
    case (Inr n)
    then have n: "n = length data" "inodes (dsk s1) fd = Some \<lparr>content = data, mode = m0\<rparr>"
      using W assms(3) by auto
    obtain r2 s2 where c: "os_chmod fd m s1 = (r2, s2)" by (metis surj_pair)
    have C: "working tmp fd d0 s2" "logged (frame tmp d0) st s2"
      "isOk r2 \<longrightarrow> inodes (dsk s2) fd = Some \<lparr>content = data, mode = m\<rparr>"
      using chmod_working [OF c] W n(2) by (auto intro: logged_trans)
    obtain r3 s3 where y: "os_sync fd s2 = (r3, s3)" by (metis surj_pair)
    note Y = same_working [OF os_sync_same [OF y] C(1)]
    obtain r4 s4 where z: "os_close fd s3 = (r4, s4)" by (metis surj_pair)
    note Z = same_working [OF os_close_same [OF z] Y(1)]
    have "logged (frame tmp d0) st s3" "logged (frame tmp d0) st s4"
      using C(2) Y(2) Z(2) by (blast intro: logged_trans)+
    moreover have "fill fd data m st =
      (case r2 of Inl e \<Rightarrow> (Inl (Some fd, e), s2) | Inr _ \<Rightarrow>
        (case r3 of Inl e \<Rightarrow> (Inl (Some fd, e), s3) | Inr _ \<Rightarrow>
          (case r4 of Inl e \<Rightarrow> (Inl (None, e), s4) | Inr _ \<Rightarrow> (Inr (), s4))))"
      by (simp add: fill_def w Inr n(1) c y z split: sum.split)
    ultimately show ?thesis
      using assms(1) C Y Z by (auto split: sum.splits)
  qed
qed

text \<open>Removing the temporary name.\<close>

lemma remove_tmp:
  assumes "os_remove tmp st = (r, st')" "working tmp fd d0 st"
  shows "disk_ok (next_ino st') (dsk st') \<and> frame tmp d0 (dsk st') \<and> logged (frame tmp d0) st st' \<and>
    (isOk r \<longrightarrow> see (dsk st') tmp = Absent)"
  using assms(1) unfolding os_remove_def
proof (cases rule: syscall_cases)
  case (fail e)
  then show ?thesis
    using assms(2) working_logged [OF assms(2)] by (auto simp: working_def)
next
  case (ok a d)
  then have d: "d = dsk st\<lparr>names := (names (dsk st))(tmp := None)\<rparr>"
    using assms(2) by (auto simp: working_def sole_name_def split: option.splits node.splits)
  have "frame tmp d0 d"
    using assms(2) by (simp add: d frame_def working_def)
  moreover have "disk_ok (next_ino st) d"
    using assms(2) by (simp add: d working_def disk_ok_name_None)
  moreover have "see d tmp = Absent" by (simp add: d)
  ultimately show ?thesis using ok(3) by (simp add: logged_commit)
qed

lemma failing_frame:
  assumes "failing c tmp e st = (r, st')" "working tmp fd d0 st"
  shows "\<not> isOk r \<and> disk_ok (next_ino st') (dsk st') \<and> frame tmp d0 (dsk st') \<and> logged (frame tmp d0) st st'"
proof -
  define s1 where "s1 = (case c of None \<Rightarrow> st | Some i \<Rightarrow> snd (os_close i st))"
  have s1: "working tmp fd d0 s1" "logged (frame tmp d0) st s1"
  proof -
    have "working tmp fd d0 (snd (os_close i st)) \<and> logged (frame tmp d0) st (snd (os_close i st))" for i
      using same_working(1,2) [OF os_close_same assms(2)] by (metis surj_pair snd_conv)
    then show "working tmp fd d0 s1" "logged (frame tmp d0) st s1"
      using assms(2) by (simp_all add: s1_def split: option.split)
  qed
  obtain r2 where "os_remove tmp s1 = (r2, st')"
    using assms(1) by (metis failing_def cleanup_def s1_def prod.exhaust_sel snd_conv)
  from remove_tmp [OF this s1(1)] s1(2) assms(1) show ?thesis
    by (auto simp: failing_def intro: logged_trans)
qed

lemma dsk_same: "st' = commit (dsk st) st \<Longrightarrow> dsk st' = dsk st \<and> next_ino st' = next_ino st \<and> (P (dsk st) \<longrightarrow> logged P st st')"
  by (simp add: logged_commit)

lemma syncDir_same:
  assumes "syncDir dir st = (r, st')"
  shows "dsk st' = dsk st \<and> next_ino st' = next_ino st \<and> (P (dsk st) \<longrightarrow> logged P st st')"
proof -
  obtain r1 s1 where a: "os_open_dir dir st = (r1, s1)" by (metis surj_pair)
  obtain r2 s2 where b: "os_sync 0 s1 = (r2, s2)" by (metis surj_pair)
  obtain r3 s3 where c: "os_close 0 s2 = (r3, s3)" by (metis surj_pair)
  note A = dsk_same [OF os_open_dir_same [OF a], of P]
  note B = dsk_same [OF os_sync_same [OF b], of P]
  note C = dsk_same [OF os_close_same [OF c], of P]
  have "st' = s1 \<or> st' = s3"
    using assms by (auto simp: syncDir_def a b c split: sum.splits)
  then show ?thesis
    using A B C by (metis logged_trans)
qed

text \<open>A disk that is either not yet or completely installed.\<close>

definition step_ok :: "string \<Rightarrow> string \<Rightarrow> string \<Rightarrow> FileMode \<Rightarrow> disk \<Rightarrow> disk \<Rightarrow> bool" where
  "step_ok tmp T data m d0 d \<longleftrightarrow> frame tmp d0 d \<or> installed tmp T data m d0 d"

lemma frame_step: "frame tmp d0 d \<Longrightarrow> step_ok tmp T data m d0 d"
  by (simp add: step_ok_def)

lemma rename_install:
  assumes "os_rename tmp T st = (r, st')" "working tmp fd d0 st" "tmp \<noteq> T"
    "inodes (dsk st) fd = Some \<lparr>content = data, mode = m\<rparr>"
  shows "(isOk r \<and> disk_ok (next_ino st') (dsk st') \<and> installed tmp T data m d0 (dsk st') \<and>
      see (dsk st') tmp = Absent \<and> logged (step_ok tmp T data m d0) st st') \<or>
    (\<not> isOk r \<and> st' = commit (dsk st) st)"
  using assms(1) unfolding os_rename_def
proof (cases rule: syscall_cases)
  case (fail e)
  then show ?thesis by simp
next
  case (ok a d)
  have tmp: "names (dsk st) tmp = Some (File fd)" "\<And>q. q \<noteq> tmp \<Longrightarrow> names (dsk st) q \<noteq> Some (File fd)"
    using assms(2) by (auto simp: working_def sole_name_def)
  have d: "d = dsk st\<lparr>names := (names (dsk st))(tmp := None, T \<mapsto> File fd)\<rparr>"
    using ok(2) tmp(1) tmp(2) [OF assms(3) [symmetric]] by (simp split: if_splits)
  have "see d T = AFile data m" using assms(4) by (simp add: d see_move_target)
  then have "installed tmp T data m d0 d"
    using assms(2) by (simp add: installed_def working_def frame_def d see_move_other)
  moreover have "disk_ok (next_ino st) d"
    using assms(2) tmp(1) by (simp only: d working_def disk_ok_move)
  moreover have "see d tmp = Absent" unfolding d using assms(3) by (rule see_move_source)
  ultimately show ?thesis using ok by (simp add: logged_commit step_ok_def)
qed

lemma link_install:
  assumes "os_link tmp T st = (r, st')" "working tmp fd d0 st" "tmp \<noteq> T"
    "inodes (dsk st) fd = Some \<lparr>content = data, mode = m\<rparr>"
  shows "(isOk r \<and> see d0 T = Absent \<and> disk_ok (next_ino st') (dsk st') \<and> installed tmp T data m d0 (dsk st') \<and>
      names (dsk st') tmp = Some (File fd) \<and> logged (step_ok tmp T data m d0) st st') \<or>
    (\<not> isOk r \<and> st' = commit (dsk st) st)"
  using assms(1) unfolding os_link_def
proof (cases rule: syscall_cases)
  case (fail e)
  then show ?thesis by simp
next
  case (ok a d)
  have tmp: "names (dsk st) tmp = Some (File fd)" "\<And>q. q \<noteq> tmp \<Longrightarrow> names (dsk st) q \<noteq> Some (File fd)"
    using assms(2) by (auto simp: working_def sole_name_def)
  have d: "d = dsk st\<lparr>names := (names (dsk st))(T \<mapsto> File fd)\<rparr>" and new: "names (dsk st) T = None"
    using ok(2) tmp(1) by (simp_all split: if_splits)
  have "see d0 T = see (dsk st) T" using assms(2,3) by (auto simp: working_def frame_def)
  then have "see d0 T = Absent" by (simp add: see_None new)
  moreover have "installed tmp T data m d0 d"
    using assms(2,4) by (simp add: d installed_def working_def frame_def)
  moreover have "disk_ok (next_ino st) d"
    using assms(2) tmp(1) by (simp only: d working_def disk_ok_name_File)
  ultimately show ?thesis using ok d tmp(1) assms(3) by (simp add: logged_commit step_ok_def)
qed

lemma remove_installed:
  assumes "os_remove tmp st = (r, st')" "disk_ok (next_ino st) (dsk st)" "installed tmp T data m d0 (dsk st)"
    "names (dsk st) tmp = Some (File fd)" "tmp \<noteq> T"
  shows "disk_ok (next_ino st') (dsk st') \<and> installed tmp T data m d0 (dsk st') \<and>
    logged (step_ok tmp T data m d0) st st' \<and> (isOk r \<longrightarrow> see (dsk st') tmp = Absent) \<and>
    (\<not> isOk r \<longrightarrow> dsk st' = dsk st)"
  using assms(1) unfolding os_remove_def
proof (cases rule: syscall_cases)
  case (fail e)
  then show ?thesis using assms(2,3) by (simp add: logged_commit step_ok_def)
next
  case (ok a d)
  then have d: "d = dsk st\<lparr>names := (names (dsk st))(tmp := None)\<rparr>"
    using assms(4) by auto
  have "installed tmp T data m d0 d"
    using assms(3,5) by (simp add: d installed_def)
  moreover have "disk_ok (next_ino st) d" using assms(2) by (simp only: d disk_ok_name_None)
  moreover have "see d tmp = Absent" by (simp add: d)
  ultimately show ?thesis using ok by (simp add: logged_commit step_ok_def)
qed

lemma cleanRelative_below: "cleanRelative name False = Inr clean \<Longrightarrow> below clean"
  by (auto simp: cleanRelative_def Let_def intro: Clean_below split: if_splits)

lemma ensureParent_grown:
  assumes "ensureParent clean st = (r, st')" "below clean"
  shows "grown (dsk st) (dsk st') \<and> names (dsk st') clean = names (dsk st) clean \<and>
    next_ino st' = next_ino st \<and> umask st' = umask st \<and>
    logged (\<lambda>d. grown (dsk st) d \<and> names d clean = names (dsk st) clean) st st'"
proof (cases "Dir clean = ''.''")
  case True
  with assms(1) show ?thesis by (simp add: ensureParent_def)
next
  case False
  obtain r1 s1 where a: "os_stat (Dir clean) st = (r1, s1)" by (metis surj_pair)
  have s1: "s1 = commit (dsk st) st" using os_stat_same [OF a] .
  show ?thesis
  proof (cases "r1 = Inl ErrNotExist")
    case True
    obtain r2 s2 where b: "os_mkdir_all (Dir clean) s1 = (r2, s2)" by (metis surj_pair)
    have st': "st' = s2"
      using assms(1) False a True b by (auto simp: ensureParent_def Let_def split: sum.splits)
    show ?thesis
      using b unfolding os_mkdir_all_def
    proof (cases rule: syscall_cases)
      case (fail e)
      then show ?thesis by (simp add: st' s1 logged_def)
    next
      case (ok u d)
      then have m: "mkdirs (prefixes_of [] (SplitChar SLASH (Dir clean))) (dsk st) = Inr d"
        by (auto simp: s1 split: sum.splits)
      then have "grown (dsk st) d" "names d clean = names (dsk st) clean"
        using mkdirs_grown [OF m] below_not_own_parent [OF assms(2) False] by auto
      then show ?thesis by (simp add: st' ok(3) s1 logged_def)
    qed
  next
    case nf: False
    then have "st' = s1"
      using assms(1) False a by (auto simp: ensureParent_def Let_def split: sum.splits if_splits)
    then show ?thesis by (simp add: s1 logged_def)
  qed
qed

text \<open>Installing a filled temporary file.\<close>

lemma install_spec:
  assumes "install opts tmp T st = (r, st')" "working tmp fd d0 st" "tmp \<noteq> T"
    "inodes (dsk st) fd = Some \<lparr>content = data, mode = m\<rparr>"
  shows "disk_ok (next_ino st') (dsk st') \<and> step_ok tmp T data m d0 (dsk st') \<and>
    logged (step_ok tmp T data m d0) st st' \<and>
    (isOk r \<longrightarrow> installed tmp T data m d0 (dsk st') \<and> see (dsk st') tmp = Absent) \<and>
    (CreateOnly opts \<and> see d0 T \<noteq> Absent \<longrightarrow> \<not> isOk r \<and> logged (frame tmp d0) st st' \<and> frame tmp d0 (dsk st'))"
proof -
  have fw: "disk_ok (next_ino st1) (dsk st1) \<and> frame tmp d0 (dsk st1) \<and> \<not> isOk r1 \<and> logged (frame tmp d0) st st1 \<and>
      logged (step_ok tmp T data m d0) st st1"
    if "failing None tmp e (commit (dsk st) st) = (r1, st1)" for e r1 st1
    using failing_frame [OF that working_commit_same [OF assms(2)]] working_logged [OF assms(2)]
    by (auto intro: logged_trans logged_mono [OF _ frame_step])
  show ?thesis
  proof (cases "CreateOnly opts")
    case True
    obtain r1 s1 where a: "os_link tmp T st = (r1, s1)" by (metis surj_pair)
    note A = link_install [OF a assms(2-4)]
    show ?thesis
    proof (cases r1)
      case (Inl e)
      then have "install opts tmp T st = failing None tmp e (commit (dsk st) st)"
        using True a A by (simp add: install_def)
      with assms(1) have "failing None tmp e (commit (dsk st) st) = (r, st')" by simp
      from fw [OF this] show ?thesis by (auto simp: frame_step)
    next
      case (Inr u)
      obtain r2 s2 where b: "os_remove tmp s1 = (r2, s2)" by (metis surj_pair)
      have A': "see d0 T = Absent" "disk_ok (next_ino s1) (dsk s1)" "installed tmp T data m d0 (dsk s1)"
        "names (dsk s1) tmp = Some (File fd)" "logged (step_ok tmp T data m d0) st s1"
        using A Inr by auto
      note B = remove_installed [OF b A'(2-4) assms(3)]
      show ?thesis
      proof (cases r2)
        case (Inl e)
        define s3 where "s3 = snd (os_remove tmp s2)"
        obtain r3 where c: "os_remove tmp s2 = (r3, s3)" by (metis s3_def surj_pair snd_conv)
        have "dsk s2 = dsk s1" using B Inl by simp
        then have C: "disk_ok (next_ino s3) (dsk s3)" "installed tmp T data m d0 (dsk s3)"
            "logged (step_ok tmp T data m d0) s2 s3"
          using remove_installed [OF c _ _ _ assms(3)] B A'(4) by auto
        have "st' = s3" "r = Inl (OsError e)"
          using assms(1) True a Inr b Inl s3_def by (auto simp: install_def failing_def cleanup_def)
        then show ?thesis
          using C B A' by (auto simp: step_ok_def intro: logged_trans)
      next
        case r2: (Inr u2)
        have "syncDir (Dir T) s2 = (r, st')"
          using assms(1) True a Inr b r2 by (simp add: install_def)
        from syncDir_same [OF this, of "step_ok tmp T data m d0"] show ?thesis
          using B A' r2 by (auto simp: step_ok_def intro: logged_trans)
      qed
    qed
  next
    case False
    obtain r1 s1 where a: "os_rename tmp T st = (r1, s1)" by (metis surj_pair)
    note A = rename_install [OF a assms(2-4)]
    show ?thesis
    proof (cases r1)
      case (Inl e)
      then have "install opts tmp T st = failing None tmp e (commit (dsk st) st)"
        using False a A by (simp add: install_def)
      with assms(1) have "failing None tmp e (commit (dsk st) st) = (r, st')" by simp
      from fw [OF this] show ?thesis by (auto simp: frame_step)
    next
      case (Inr u)
      have "syncDir (Dir T) s1 = (r, st')"
        using assms(1) False a Inr by (simp add: install_def)
      from syncDir_same [OF this, of "step_ok tmp T data m d0"] show ?thesis
        using A Inr False by (auto simp: step_ok_def intro: logged_trans)
    qed
  qed
qed

lemma choose_mode_same:
  "choose_mode opts clean perm st = (m, st') \<Longrightarrow> st' = st \<or> st' = commit (dsk st) st"
  using os_lstat_same [of clean st] by (auto simp: choose_mode_def split: if_splits prod.splits sum.splits)

lemma write_in_spec:
  assumes "write_in opts tmp T data perm st = (r, st')" "disk_ok (next_ino st) (dsk st)" "tmp \<noteq> T"
  shows "\<exists>m. (ExactMode opts \<longrightarrow> m = perm) \<and> disk_ok (next_ino st') (dsk st') \<and> step_ok tmp T data m (dsk st) (dsk st') \<and>
    logged (step_ok tmp T data m (dsk st)) st st' \<and>
    (isOk r \<longrightarrow> installed tmp T data m (dsk st) (dsk st') \<and> see (dsk st') tmp = Absent) \<and>
    (CreateOnly opts \<and> see (dsk st) T \<noteq> Absent \<longrightarrow>
       \<not> isOk r \<and> logged (frame tmp (dsk st)) st st' \<and> frame tmp (dsk st) (dsk st'))"
proof -
  let ?S = "\<lambda>m. step_ok tmp T data m (dsk st)"
  obtain r1 s1 where a: "os_create_excl tmp (if ExactMode opts then 0x180 else perm) st = (r1, s1)"
    by (metis surj_pair)
  show ?thesis
  proof (cases r1)
    case (Inl e)
    then have "st' = s1" "r = Inl (OsError e)" "s1 = commit (dsk st) st"
      using assms(1) a os_create_excl_cases [OF a] by (auto simp: write_in_def)
    then show ?thesis using assms(2)
      by (intro exI [of _ perm]) (simp add: step_ok_def logged_commit)
  next
    case (Inr fd)
    note C = create_working [OF a [unfolded Inr] assms(2)]
    obtain m s2 where c: "choose_mode opts T perm s1 = (m, s2)" by (metis surj_pair)
    have S2: "working tmp fd (dsk st) s2" "logged (frame tmp (dsk st)) s1 s2" "dsk s2 = dsk s1"
      using choose_mode_same [OF c] C working_commit_same working_logged by auto
    have mode: "ExactMode opts \<longrightarrow> m = perm" using c by (auto simp: choose_mode_def split: if_splits)
    obtain r3 s3 where f: "fill fd data m s2 = (r3, s3)" by (metis surj_pair)
    have F: "working tmp fd (dsk st) s3" "logged (frame tmp (dsk st)) st s3"
        "isOk r3 \<longrightarrow> inodes (dsk s3) fd = Some \<lparr>content = data, mode = m\<rparr>"
      using fill_working [OF f S2(1)] C S2(2,3) by (auto intro: logged_trans)
    have L: "logged (?S m) st s3" using F(2) by (rule logged_mono) (rule frame_step)
    show ?thesis
    proof (cases r3)
      case (Inl ce)
      then obtain cl e where "failing cl tmp e s3 = (r, st')"
        using assms(1) a Inr c f by (cases ce) (auto simp: write_in_def)
      from failing_frame [OF this F(1)] show ?thesis
        using F(2) L mode by (intro exI [of _ m]) (auto intro: logged_trans logged_mono [OF _ frame_step] frame_step)
    next
      case r3: (Inr u)
      have "install opts tmp T s3 = (r, st')"
        using assms(1) a Inr c f r3 by (simp add: write_in_def)
      from install_spec [OF this F(1) assms(3)] F(3) r3 show ?thesis
        using F(2) L mode by (intro exI [of _ m]) (auto intro: logged_trans)
    qed
  qed
qed

section \<open>The interface of an atomic writer\<close>

text \<open>
  What one write of \<open>data\<close> at \<open>T\<close> may make visible outside its temporary names: nothing
  changes, except that missing parents appear as directories and that the target shows
  the complete new content.
\<close>

definition write_view :: "string set \<Rightarrow> string \<Rightarrow> string \<Rightarrow> FileMode \<Rightarrow> disk \<Rightarrow> disk \<Rightarrow> bool" where
  "write_view tmps T data m d0 d \<longleftrightarrow> (\<forall>p. p \<notin> tmps \<longrightarrow>
     see d p = see d0 p \<or> (p \<noteq> T \<and> see d0 p = Absent \<and> see d p = ADirectory) \<or> (p = T \<and> see d p = AFile data m))"

lemma see_cong: "names d p = names d' p \<Longrightarrow> inodes d = inodes d' \<Longrightarrow> see d p = see d' p"
  by (simp add: see_def cong: option.case_cong node.case_cong)

lemma grown_view:
  "grown d0 d \<Longrightarrow> names d T = names d0 T \<Longrightarrow> write_view tmps T data m d0 d"
  unfolding write_view_def
proof (intro allI impI)
  fix p assume g: "grown d0 d" "names d T = names d0 T"
  show "see d p = see d0 p \<or> (p \<noteq> T \<and> see d0 p = Absent \<and> see d p = ADirectory) \<or> (p = T \<and> see d p = AFile data m)"
  proof (cases "p = T")
    case True
    with g have "see d p = see d0 p" by (auto simp: grown_def intro: see_cong)
    then show ?thesis ..
  next
    case False
    then show ?thesis using grown_see [OF g(1), of p] by blast
  qed
qed

lemma step_view:
  assumes "grown d0 d1" "names d1 T = names d0 T" "step_ok tmp T data m d1 d" "tmp \<in> tmps"
  shows "write_view tmps T data m d0 d"
proof -
  have T: "see d1 T = see d0 T" using assms(1,2) by (auto simp: grown_def intro: see_cong)
  have o: "see d p = see d1 p \<or> (p = T \<and> see d p = AFile data m)" if "p \<notin> tmps" for p
    using assms(3,4) that by (cases "p = T") (auto simp: step_ok_def frame_def installed_def)
  show ?thesis
    unfolding write_view_def
  proof (intro allI impI)
    fix p assume "p \<notin> tmps"
    then show "see d p = see d0 p \<or> (p \<noteq> T \<and> see d0 p = Absent \<and> see d p = ADirectory) \<or> (p = T \<and> see d p = AFile data m)"
      using o [of p] grown_see [OF assms(1), of p] T by (cases "p = T") auto
  qed
qed

locale atomic_writer =
  fixes writer :: "'o \<Rightarrow> string \<Rightarrow> string \<Rightarrow> os \<Rightarrow> (safefs_error + unit) \<times> os"
    and temps :: "'o \<Rightarrow> string \<Rightarrow> string set"
  assumes rejected: "cleanRelative name False = Inl e \<Longrightarrow> writer opt name data st = (Inl e, st)"
    and atomic: "writer opt name data st = (r, st') \<Longrightarrow> disk_ok (next_ino st) (dsk st) \<Longrightarrow>
      cleanRelative name False = Inr T \<Longrightarrow> T \<notin> temps opt T \<Longrightarrow>
      \<exists>m. disk_ok (next_ino st') (dsk st') \<and> write_view (temps opt T) T data m (dsk st) (dsk st') \<and>
        logged (write_view (temps opt T) T data m (dsk st)) st st' \<and>
        (isOk r \<longrightarrow> see (dsk st') T = AFile data m)"

text \<open>Running a list of writes, each with its options, name and data; errors do not stop it.\<close>

fun run_writes :: "('o \<Rightarrow> string \<Rightarrow> string \<Rightarrow> os \<Rightarrow> (safefs_error + unit) \<times> os) \<Rightarrow> ('o \<times> string \<times> string) list \<Rightarrow> os \<Rightarrow> os" where
  "run_writes writer [] st = st"
| "run_writes writer ((opt, name, data) # ws) st = run_writes writer ws (snd (writer opt name data st))"

text \<open>The versions a name may show: what it showed first, or a complete written content.\<close>

definition version_of :: "('o \<times> string \<times> string) list \<Rightarrow> string \<Rightarrow> obs \<Rightarrow> obs \<Rightarrow> bool" where
  "version_of ws P v0 v \<longleftrightarrow> v = v0 \<or> (v0 = Absent \<and> v = ADirectory) \<or>
     (\<exists>(opt, name, data) \<in> set ws. cleanRelative name False = Inr P \<and> (\<exists>m. v = AFile data m))"

text \<open>Temporary names of the writes avoid the name in question and the targets.\<close>

definition fresh_temps :: "('o \<Rightarrow> string \<Rightarrow> string set) \<Rightarrow> ('o \<times> string \<times> string) list \<Rightarrow> string \<Rightarrow> bool" where
  "fresh_temps temps ws P \<longleftrightarrow> (\<forall>(opt, name, data) \<in> set ws.
     case cleanRelative name False of Inl e \<Rightarrow> True | Inr T \<Rightarrow> T \<notin> temps opt T \<and> P \<notin> temps opt T)"

context atomic_writer
begin

lemma write_version:
  assumes "writer opt name data st = (r, st')" "disk_ok (next_ino st) (dsk st)"
    "fresh_temps temps [(opt, name, data)] P" "(opt, name, data) \<in> set ws"
    "version_of ws P v0 (see (dsk st) P)"
  shows "disk_ok (next_ino st') (dsk st') \<and> version_of ws P v0 (see (dsk st') P) \<and>
    logged (\<lambda>d. version_of ws P v0 (see d P)) st st'"
proof (cases "cleanRelative name False")
  case (Inl e)
  with rejected [OF Inl] assms show ?thesis by simp
next
  case (Inr T)
  with assms(3) have T: "T \<notin> temps opt T" "P \<notin> temps opt T" by (auto simp: fresh_temps_def)
  obtain m where m: "disk_ok (next_ino st') (dsk st')" "write_view (temps opt T) T data m (dsk st) (dsk st')"
      "logged (write_view (temps opt T) T data m (dsk st)) st st'"
    using atomic [OF assms(1,2) Inr T(1)] by blast
  have v: "version_of ws P v0 (see d P)" if "write_view (temps opt T) T data m (dsk st) d" for d
  proof -
    have "see d P = see (dsk st) P \<or> (see (dsk st) P = Absent \<and> see d P = ADirectory) \<or> (P = T \<and> see d P = AFile data m)"
      using that T(2) unfolding write_view_def by blast
    then show ?thesis
      using assms(4,5) Inr unfolding version_of_def by fastforce
  qed
  show ?thesis
    using m v logged_mono [OF m(3), of "\<lambda>d. version_of ws P v0 (see d P)"] by blast
qed

lemma run_writes_versions_gen:
  assumes "disk_ok (next_ino st) (dsk st)" "fresh_temps temps vs P" "set vs \<subseteq> set ws"
    "version_of ws P v0 (see (dsk st) P)"
  shows "logged (\<lambda>d. version_of ws P v0 (see d P)) st (run_writes writer vs st) \<and>
    version_of ws P v0 (see (dsk (run_writes writer vs st)) P)"
  using assms
proof (induction vs arbitrary: st)
  case Nil
  then show ?case by simp
next
  case (Cons w vs)
  obtain opt name data where w: "w = (opt, name, data)" by (metis prod_cases3)
  obtain r st1 where s: "writer opt name data st = (r, st1)" by (metis surj_pair)
  have f: "fresh_temps temps [(opt, name, data)] P" "fresh_temps temps vs P"
    using Cons.prems(2) by (simp_all add: fresh_temps_def w)
  have one: "disk_ok (next_ino st1) (dsk st1) \<and> version_of ws P v0 (see (dsk st1) P) \<and>
      logged (\<lambda>d. version_of ws P v0 (see d P)) st st1"
    by (rule write_version [OF s Cons.prems(1) f(1) _ Cons.prems(4)]) (use Cons.prems(3) w in auto)
  with Cons.IH [of st1] f(2) Cons.prems(3) show ?case
    by (auto simp: w s intro: logged_trans)
qed

lemma run_writes_versions:
  assumes "disk_ok (next_ino st) (dsk st)" "fresh_temps temps ws P"
  shows "logged (\<lambda>d. version_of ws P (see (dsk st) P) (see d P)) st (run_writes writer ws st)"
  using run_writes_versions_gen [OF assms subset_refl, of "see (dsk st) P"] by (simp add: version_of_def)

end

section \<open>Both writers implement the interface\<close>

text \<open>Options of the two writers: mode, options and random name; mode and random names.\<close>

definition write_opts :: "FileMode \<times> WriteOptions \<times> string option \<Rightarrow> string \<Rightarrow> string \<Rightarrow> os \<Rightarrow> (safefs_error + unit) \<times> os" where
  "write_opts o' name data st = (case o' of (perm, opts, random) \<Rightarrow> WriteFileAtomicOpts name data perm opts random st)"

definition temps_opts :: "FileMode \<times> WriteOptions \<times> string option \<Rightarrow> string \<Rightarrow> string set" where
  "temps_opts o' T = (case o' of (_, _, None) \<Rightarrow> {} | (_, _, Some noise) \<Rightarrow> {cozy_temp T noise})"

definition write_plain :: "FileMode \<times> string option list \<Rightarrow> string \<Rightarrow> string \<Rightarrow> os \<Rightarrow> (safefs_error + unit) \<times> os" where
  "write_plain o' name data st = (case o' of (perm, noises) \<Rightarrow> WriteFileAtomic name data perm noises st)"

definition temps_plain :: "FileMode \<times> string option list \<Rightarrow> string \<Rightarrow> string set" where
  "temps_plain o' T = {plain_temp T noise | noise. Some noise \<in> set (snd o')}"

lemma write_opts_atomic:
  assumes "WriteFileAtomicOpts name data perm opts random st = (r, st')" "disk_ok (next_ino st) (dsk st)"
    "cleanRelative name False = Inr T" "T \<notin> temps_opts (perm, opts, random) T"
  shows "\<exists>m. (ExactMode opts \<longrightarrow> m = perm) \<and> disk_ok (next_ino st') (dsk st') \<and>
    write_view (temps_opts (perm, opts, random) T) T data m (dsk st) (dsk st') \<and>
    logged (write_view (temps_opts (perm, opts, random) T) T data m (dsk st)) st st' \<and>
    (isOk r \<longrightarrow> see (dsk st') T = AFile data m \<and> (\<forall>t \<in> temps_opts (perm, opts, random) T. see (dsk st') t = Absent)) \<and>
    (CreateOnly opts \<and> see (dsk st) T \<noteq> Absent \<longrightarrow> \<not> isOk r \<and> see (dsk st') T = see (dsk st) T \<and>
       logged (\<lambda>d. see d T = see (dsk st) T) st st')"
proof -
  obtain r1 s1 where e: "ensureParent T st = (r1, s1)" by (metis surj_pair)
  note E = ensureParent_grown [OF e cleanRelative_below [OF assms(3)]]
  have ok1: "disk_ok (next_ino s1) (dsk s1)" using E assms(2) grown_disk_ok by metis
  let ?t = "temps_opts (perm, opts, random) T"
  have seeT: "see d T = see (dsk st) T" if "grown (dsk st) d" "names d T = names (dsk st) T" for d
    using that by (auto simp: grown_def intro: see_cong)
  have early: ?thesis if "st' = s1" "\<not> isOk r"
    using E ok1 that by (intro exI [of _ perm])
      (auto intro!: grown_view seeT intro: logged_mono [OF conjunct2 [OF conjunct2 [OF conjunct2 [OF conjunct2 [OF E]]]]])
  show ?thesis
  proof (cases "isOk r1 \<and> random \<noteq> None")
    case False
    then show ?thesis using assms(1,3) e early
      by (cases r1; cases random) (auto simp: WriteFileAtomicOpts_def)
  next
    case True
    then obtain noise where n: "random = Some noise" by auto
    have ts: "?t = {cozy_temp T noise}" by (simp add: temps_opts_def n)
    have w: "write_in opts (cozy_temp T noise) T data perm s1 = (r, st')"
      using assms(1,3) e True n by (cases r1) (auto simp: WriteFileAtomicOpts_def)
    have ne: "cozy_temp T noise \<noteq> T" using assms(4) ts by auto
    obtain m where m: "ExactMode opts \<longrightarrow> m = perm" "disk_ok (next_ino st') (dsk st')"
      "step_ok (cozy_temp T noise) T data m (dsk s1) (dsk st')"
      "logged (step_ok (cozy_temp T noise) T data m (dsk s1)) s1 st'"
      "isOk r \<longrightarrow> installed (cozy_temp T noise) T data m (dsk s1) (dsk st') \<and> see (dsk st') (cozy_temp T noise) = Absent"
      "CreateOnly opts \<and> see (dsk s1) T \<noteq> Absent \<longrightarrow>
       \<not> isOk r \<and> logged (frame (cozy_temp T noise) (dsk s1)) s1 st' \<and> frame (cozy_temp T noise) (dsk s1) (dsk st')"
      using write_in_spec [OF w ok1 ne] by blast
    have gv: "write_view ?t T data m (dsk st) d" if "step_ok (cozy_temp T noise) T data m (dsk s1) d" for d
      using E that step_view [of "dsk st" "dsk s1" T _ data m d ?t] ts by blast
    have L1: "logged (write_view ?t T data m (dsk st)) st s1"
      using E logged_mono [of _ st s1 "write_view ?t T data m (dsk st)"] grown_view by blast
    have L2: "logged (write_view ?t T data m (dsk st)) s1 st'" using m(4) gv by (rule logged_mono)
    have S: "see (dsk s1) T = see (dsk st) T" using E seeT by blast
    have fT: "see d T = see (dsk st) T" if "frame (cozy_temp T noise) (dsk s1) d" for d
      using that ne S by (auto simp: frame_def)
    have L3: "logged (\<lambda>d. see d T = see (dsk st) T) st s1"
      using E logged_mono [of _ st s1 "\<lambda>d. see d T = see (dsk st) T"] seeT by blast
    have "\<not> isOk r \<and> see (dsk st') T = see (dsk st) T \<and> logged (\<lambda>d. see d T = see (dsk st) T) st st'"
      if "CreateOnly opts \<and> see (dsk st) T \<noteq> Absent"
    proof -
      have c: "\<not> isOk r" "logged (frame (cozy_temp T noise) (dsk s1)) s1 st'" "frame (cozy_temp T noise) (dsk s1) (dsk st')"
        using m(6) that S by simp_all
      have "logged (\<lambda>d. see d T = see (dsk st) T) s1 st'" using c(2) fT by (rule logged_mono)
      with L3 have "logged (\<lambda>d. see d T = see (dsk st) T) st st'" by (rule logged_trans)
      with c(1) fT [OF c(3)] show ?thesis by simp
    qed
    moreover have "isOk r \<longrightarrow> see (dsk st') T = AFile data m \<and> (\<forall>t \<in> ?t. see (dsk st') t = Absent)"
      using m(5) ts by (auto simp: installed_def)
    ultimately show ?thesis
      using m(1,2) gv [OF m(3)] logged_trans [OF L1 L2] by (intro exI [of _ m]) simp
  qed
qed

lemma create_temp_spec:
  "create_temp k T perm noises st = (r, st') \<Longrightarrow> disk_ok (next_ino st) (dsk st) \<Longrightarrow>
   (case r of
      Inl e \<Rightarrow> dsk st' = dsk st \<and> next_ino st' = next_ino st \<and> logged (\<lambda>d. d = dsk st) st st'
    | Inr (tmp, fd) \<Rightarrow> tmp \<in> {plain_temp T noise | noise. Some noise \<in> set noises} \<and>
        working tmp fd (dsk st) st' \<and> logged (frame tmp (dsk st)) st st' \<and>
        inodes (dsk st') fd = Some \<lparr>content = [], mode = perm AND NOT (Perm (umask st))\<rparr>)"
proof (induction k T perm noises st rule: create_temp.induct)
  case (4 k T perm noise noises st)
  let ?tmp = "plain_temp T noise"
  obtain r1 s1 where c: "os_create_excl ?tmp perm st = (r1, s1)" by (metis surj_pair)
  show ?case
  proof (cases r1)
    case (Inr fd)
    have "r = Inr (?tmp, fd)" "st' = s1"
      using "4.prems"(1) c Inr by simp_all
    then show ?thesis
      using create_working [OF c [unfolded Inr] "4.prems"(2)] by auto
  next
    case (Inl e)
    have s1: "s1 = commit (dsk st) st" using os_create_excl_cases [OF c] Inl by auto
    show ?thesis
    proof (cases "e = ErrExist")
      case False
      then have "r = Inl (OsError e)" "st' = s1" using "4.prems"(1) c Inl by simp_all
      then show ?thesis by (simp add: s1 logged_commit)
    next
      case True
      have rec: "create_temp k T perm noises s1 = (r, st')" using "4.prems"(1) c Inl True by simp
      have L: "logged (\<lambda>d. d = dsk st) st s1" "\<And>t. logged (frame t (dsk st)) st s1"
        by (simp_all add: s1 logged_commit)
      have "disk_ok (next_ino s1) (dsk s1)" using "4.prems"(2) by (simp add: s1)
      from "4.IH" [OF refl c [symmetric, unfolded Inl] refl _ rec this] True
      show ?thesis using L by (auto simp: s1 split: sum.splits intro: logged_trans)
    qed
  qed
qed auto

lemma write_sync_close_working:
  assumes "write_sync_close fd data st = (we, st')" "working tmp fd d0 st"
    "inodes (dsk st) fd = Some \<lparr>content = [], mode = m\<rparr>"
  shows "working tmp fd d0 st' \<and> logged (frame tmp d0) st st' \<and>
    (we = None \<longrightarrow> inodes (dsk st') fd = Some \<lparr>content = data, mode = m\<rparr>)"
proof -
  obtain r1 s1 where w: "os_write fd data st = (r1, s1)" by (metis surj_pair)
  note W = write_working [OF w assms(2)]
  obtain r2 s2 where y: "os_sync fd s1 = (r2, s2)" by (metis surj_pair)
  have Y: "working tmp fd d0 s2" "logged (frame tmp d0) s1 s2" "dsk s2 = dsk s1"
    using same_working [OF os_sync_same [OF y]] W by auto
  obtain s we1 where s: "(s = s1 \<and> (\<exists>e. r1 = Inl e \<and> we1 = Some e)) \<or> (s = s2 \<and> isOk r1 \<and> (we1 = None \<or> (\<exists>e. we1 = Some e)))"
      "(case r1 of Inl e \<Rightarrow> (Some e, s1) | Inr _ \<Rightarrow> (case r2 of Inl e \<Rightarrow> (Some e, s2) | Inr _ \<Rightarrow> (None, s2))) = (we1, s)"
    by (cases r1; cases r2) auto
  have S: "working tmp fd d0 s" "logged (frame tmp d0) st s"
      "we1 = None \<longrightarrow> inodes (dsk s) fd = Some \<lparr>content = data, mode = m\<rparr>"
    using s(1) W Y assms(3) by (auto intro: logged_trans)
  obtain r3 s3 where z: "os_close fd s = (r3, s3)" by (metis surj_pair)
  note Z = same_working [OF os_close_same [OF z] S(1)]
  have "(case os_write fd data st of (Inl e, st1) \<Rightarrow> (Some e, st1)
      | (Inr _, st1) \<Rightarrow> (case os_sync fd st1 of (Inl e, st2) \<Rightarrow> (Some e, st2) | (Inr _, st2) \<Rightarrow> (None, st2))) = (we1, s)"
    using s(2) by (cases r1; cases r2) (simp_all add: w y)
  then have "write_sync_close fd data st =
    (case r3 of Inl e \<Rightarrow> (Some (case we1 of Some w \<Rightarrow> w | None \<Rightarrow> e), s3) | Inr _ \<Rightarrow> (we1, s3))"
    unfolding write_sync_close_def by (simp add: z split: sum.split)
  then have "st' = s3" "we = None \<longrightarrow> we1 = None"
    using assms(1) by (auto split: sum.splits)
  with S Z show ?thesis by (auto intro: logged_trans)
qed

lemma write_plain_atomic:
  assumes "WriteFileAtomic name data perm noises st = (r, st')" "disk_ok (next_ino st) (dsk st)"
    "cleanRelative name False = Inr T" "T \<notin> temps_plain (perm, noises) T"
  shows "\<exists>m. disk_ok (next_ino st') (dsk st') \<and>
    write_view (temps_plain (perm, noises) T) T data m (dsk st) (dsk st') \<and>
    logged (write_view (temps_plain (perm, noises) T) T data m (dsk st)) st st' \<and>
    (isOk r \<longrightarrow> see (dsk st') T = AFile data m)"
proof -
  let ?t = "temps_plain (perm, noises) T"
  obtain r1 s1 where e: "ensureParent T st = (r1, s1)" by (metis surj_pair)
  note E = ensureParent_grown [OF e cleanRelative_below [OF assms(3)]]
  have ok1: "disk_ok (next_ino s1) (dsk s1)" using E assms(2) grown_disk_ok by metis
  have V1: "write_view ?t T data m (dsk st) (dsk s1)" "logged (write_view ?t T data m (dsk st)) st s1" for m
    using E logged_mono [of _ st s1 "write_view ?t T data m (dsk st)"] grown_view by blast+
  show ?thesis
  proof (cases r1)
    case (Inl x)
    then have "st' = s1" "\<not> isOk r" using assms(1,3) e by (auto simp: WriteFileAtomic_def)
    then show ?thesis using ok1 V1 by blast
  next
    case (Inr u)
    obtain info s2 where i: "os_stat T s1 = (info, s2)" by (metis surj_pair)
    have s2: "s2 = commit (dsk s1) s1" using os_stat_same [OF i] .
    define perm' where "perm' = (case info of Inr fi \<Rightarrow> Perm (fi_mode fi) | Inl _ \<Rightarrow> perm)"
    obtain r3 s3 where c: "create_temp 5 T perm' noises s2 = (r3, s3)" by (metis surj_pair)
    have ok2: "disk_ok (next_ino s2) (dsk s2)" using ok1 by (simp add: s2)
    note C = create_temp_spec [OF c ok2]
    have V2: "logged (write_view ?t T data m (dsk st)) st s2" for m
      unfolding s2 by (rule logged_trans [OF V1(2)]) (rule logged_commit, rule V1(1))
    show ?thesis
    proof (cases r3)
      case r3: (Inl x)
      then have "st' = s3" "\<not> isOk r"
        using assms(1,3) e Inr i c by (auto simp: WriteFileAtomic_def perm'_def Let_def)
      moreover have "dsk s3 = dsk s1" "next_ino s3 = next_ino s1" "logged (\<lambda>d. d = dsk s1) s2 s3"
        using C r3 by (simp_all add: s2)
      moreover have "logged (write_view ?t T data perm (dsk st)) s2 s3"
        using calculation(5) V1(1) by (auto intro: logged_mono)
      ultimately show ?thesis
        using ok1 V1(1) logged_trans [OF V2] by metis
    next
      case r3: (Inr tf)
      obtain tmp fd where tf: "tf = (tmp, fd)" by (cases tf)
      define m where "m = perm' AND NOT (Perm (umask s2))"
      have tmp: "tmp \<in> ?t" "tmp \<noteq> T"
        using C r3 tf assms(4) by (auto simp: temps_plain_def)
      have W: "working tmp fd (dsk s1) s3" "logged (frame tmp (dsk s1)) s2 s3"
          "inodes (dsk s3) fd = Some \<lparr>content = [], mode = m\<rparr>"
        using C r3 tf by (simp_all add: s2 m_def)
      obtain we s4 where ws: "write_sync_close fd data s3 = (we, s4)" by (metis surj_pair)
      note S = write_sync_close_working [OF ws W(1,3)]
      have sv: "write_view ?t T data m (dsk st) d" if "step_ok tmp T data m (dsk s1) d" for d
        using E that tmp(1) step_view [of "dsk st" "dsk s1" T tmp data m d ?t] by blast
      have fv: "write_view ?t T data m (dsk st) d" if "frame tmp (dsk s1) d" for d
        using that sv frame_step by blast
      have V4: "logged (write_view ?t T data m (dsk st)) st s4"
      proof -
        have "logged (frame tmp (dsk s1)) s3 s4" using S by blast
        then show ?thesis
          using logged_trans [OF logged_trans [OF V2 logged_mono [OF W(2) fv]] logged_mono [OF _ fv]] by blast
      qed
      have rest: "(case we of Some e \<Rightarrow> failing None tmp e s4
         | None \<Rightarrow> (case os_rename tmp T s4 of (Inl e, s5) \<Rightarrow> failing None tmp e s5 | (Inr _, s5) \<Rightarrow> (Inr (), s5))) = (r, st')"
        using assms(1,3) e Inr i c r3 tf ws by (simp add: WriteFileAtomic_def perm'_def Let_def)
      have F: ?thesis if f: "failing None tmp x s5 = (r, st')" "s5 = s4 \<or> s5 = commit (dsk s4) s4" for x s5
      proof -
        have w5: "working tmp fd (dsk s1) s5" "logged (frame tmp (dsk s1)) s4 s5"
          using f(2)
        proof (atomize (full), elim disjE)
          assume "s5 = s4"
          with S show "working tmp fd (dsk s1) s5 \<and> logged (frame tmp (dsk s1)) s4 s5" by simp
        next
          assume "s5 = commit (dsk s4) s4"
          with same_working [of s5 s4 tmp fd "dsk s1"] S
          show "working tmp fd (dsk s1) s5 \<and> logged (frame tmp (dsk s1)) s4 s5" by simp
        qed
        have G: "\<not> isOk r" "disk_ok (next_ino st') (dsk st')" "frame tmp (dsk s1) (dsk st')"
            "logged (frame tmp (dsk s1)) s5 st'"
          using failing_frame [OF f(1) w5(1)] by simp_all
        have "logged (write_view ?t T data m (dsk st)) s4 s5" using w5(2) fv by (rule logged_mono)
        then have "logged (write_view ?t T data m (dsk st)) st s5" by (rule logged_trans [OF V4])
        moreover have "logged (write_view ?t T data m (dsk st)) s5 st'" using G(4) fv by (rule logged_mono)
        ultimately have "logged (write_view ?t T data m (dsk st)) st st'" by (rule logged_trans)
        then show ?thesis using G(1,2) fv [OF G(3)] by (intro exI [of _ m]) simp
      qed
      show ?thesis
      proof (cases we)
        case (Some x)
        with rest F [of x s4] show ?thesis by simp
      next
        case None
        obtain r5 s5 where rn: "os_rename tmp T s4 = (r5, s5)" by (metis surj_pair)
        have I: "(isOk r5 \<and> disk_ok (next_ino s5) (dsk s5) \<and> installed tmp T data m (dsk s1) (dsk s5) \<and>
            see (dsk s5) tmp = Absent \<and> logged (step_ok tmp T data m (dsk s1)) s4 s5) \<or>
          (\<not> isOk r5 \<and> s5 = commit (dsk s4) s4)"
          using rename_install [OF rn _ tmp(2), of fd "dsk s1" data m] S None by blast
        show ?thesis
        proof (cases r5)
          case (Inl x)
          then show ?thesis using rest None rn F [of x s5] I by simp
        next
          case (Inr u5)
          then have "st' = s5" "r = Inr ()" using rest None rn by auto
          moreover have I5: "disk_ok (next_ino s5) (dsk s5)" "installed tmp T data m (dsk s1) (dsk s5)"
              "logged (step_ok tmp T data m (dsk s1)) s4 s5"
            using I Inr by simp_all
          moreover have "write_view ?t T data m (dsk st) (dsk s5)"
            by (rule sv) (simp add: step_ok_def I5(2))
          moreover have "logged (write_view ?t T data m (dsk st)) s4 s5"
            using I5(3) sv by (rule logged_mono)
          moreover have "see (dsk s5) T = AFile data m" using I5(2) by (simp add: installed_def)
          ultimately show ?thesis
            using logged_trans [OF V4] by (intro exI [of _ m]) simp
        qed
      qed
    qed
  qed
qed

interpretation opts: atomic_writer write_opts temps_opts
proof
  fix name e opt data st
  assume "cleanRelative name False = Inl e"
  then show "write_opts opt name data st = (Inl e, st)"
    by (simp add: write_opts_def WriteFileAtomicOpts_def split: prod.split)
next
  fix opt name data st r st' T
  assume a: "write_opts opt name data st = (r, st')" "disk_ok (next_ino st) (dsk st)"
    "cleanRelative name False = Inr T" "T \<notin> temps_opts opt T"
  obtain perm opts random where o: "opt = (perm, opts, random)" by (metis prod_cases3)
  show "\<exists>m. disk_ok (next_ino st') (dsk st') \<and> write_view (temps_opts opt T) T data m (dsk st) (dsk st') \<and>
      logged (write_view (temps_opts opt T) T data m (dsk st)) st st' \<and> (isOk r \<longrightarrow> see (dsk st') T = AFile data m)"
    using write_opts_atomic [of name data perm opts random st r st' T] a by (auto simp: o write_opts_def)
qed

interpretation plain: atomic_writer write_plain temps_plain
proof
  fix name e opt data st
  assume "cleanRelative name False = Inl e"
  then show "write_plain opt name data st = (Inl e, st)"
    by (simp add: write_plain_def WriteFileAtomic_def split: prod.split)
next
  fix opt name data st r st' T
  assume a: "write_plain opt name data st = (r, st')" "disk_ok (next_ino st) (dsk st)"
    "cleanRelative name False = Inr T" "T \<notin> temps_plain opt T"
  show "\<exists>m. disk_ok (next_ino st') (dsk st') \<and> write_view (temps_plain opt T) T data m (dsk st) (dsk st') \<and>
      logged (write_view (temps_plain opt T) T data m (dsk st)) st st' \<and> (isOk r \<longrightarrow> see (dsk st') T = AFile data m)"
    using write_plain_atomic [of name data "fst opt" "snd opt" st r st' T] a
    by (simp add: write_plain_def split_beta)
qed

section \<open>Calls that leave the disk alone\<close>

text \<open>Steps that leave the disk alone.\<close>

definition quiet :: "os \<Rightarrow> os \<Rightarrow> bool" where
  "quiet st st' \<longleftrightarrow> dsk st' = dsk st \<and> next_ino st' = next_ino st \<and> umask st' = umask st \<and> faults st' = faults st \<and>
     logged (\<lambda>d. d = dsk st) st st'"

lemma quiet_refl [simp]: "quiet st st"
  by (simp add: quiet_def)

lemma quiet_trans: "quiet a b \<Longrightarrow> quiet b c \<Longrightarrow> quiet a c"
  by (auto simp: quiet_def intro: logged_trans)

lemma quiet_commit: "st' = commit (dsk st) st \<Longrightarrow> quiet st st'"
  by (simp add: quiet_def logged_commit)

lemma logged_quiet: "quiet a b \<Longrightarrow> P (dsk a) \<Longrightarrow> logged P a b"
  by (auto simp: quiet_def intro: logged_mono)

lemma quiet_ok: "quiet a b \<Longrightarrow> disk_ok (next_ino a) (dsk a) \<Longrightarrow> disk_ok (next_ino b) (dsk b)"
  by (simp add: quiet_def)

section \<open>Properties\<close>

text \<open>A small machine to run the writers on: one file, chosen faults.\<close>

definition machine :: "(nat \<Rightarrow> fault option) \<Rightarrow> FileMode \<Rightarrow> os" where
  "machine fs um = \<lparr>dsk = \<lparr>names = [''f'' \<mapsto> File 0], inodes = [0 \<mapsto> \<lparr>content = ''old'', mode = 0x1B6\<rparr>]\<rparr>,
     next_ino = 1, clock = 0, faults = fs, umask = um, log = []\<rparr>"

definition no_faults :: "nat \<Rightarrow> fault option" where
  "no_faults n = None"

definition fault_at :: "nat \<Rightarrow> nat \<Rightarrow> fault option" where
  "fault_at k n = (if n = k then Some (Fault (ErrIO ''disk'') 1) else None)"

lemma machine_ok: "disk_ok (next_ino (machine fs um)) (dsk (machine fs um))"
  by (auto simp: machine_def disk_ok_def split: if_splits)

text \<open>
  Claim C5: the options writer is crash-safe under any faults.  At every moment at which a
  crash could happen, and whichever system calls fail, every name outside the writer's own
  temporary file shows what it showed before, or is a parent directory just made, or is
  the target showing the complete new content with one mode; on success the target shows
  it and the temporary file is gone; with \<open>CreateOnly\<close> an existing target is never touched.
\<close>

theorem WriteFileAtomicOpts_crash_safe:
  assumes "WriteFileAtomicOpts name data perm opts random st = (r, st')" "disk_ok (next_ino st) (dsk st)"
    "cleanRelative name False = Inr T" "T \<notin> temps_opts (perm, opts, random) T"
  shows "\<exists>m. (ExactMode opts \<longrightarrow> m = perm) \<and>
    logged (write_view (temps_opts (perm, opts, random) T) T data m (dsk st)) st st' \<and>
    write_view (temps_opts (perm, opts, random) T) T data m (dsk st) (dsk st') \<and>
    (isOk r \<longrightarrow> see (dsk st') T = AFile data m \<and> (\<forall>t \<in> temps_opts (perm, opts, random) T. see (dsk st') t = Absent)) \<and>
    (CreateOnly opts \<and> see (dsk st) T \<noteq> Absent \<longrightarrow> \<not> isOk r \<and> see (dsk st') T = see (dsk st) T \<and>
       logged (\<lambda>d. see d T = see (dsk st) T) st st')"
  using write_opts_atomic [OF assms] by blast

lemma abs_f: "\<not> IsAbs ''f''" by code_simp

lemma clean_f: "cleanRelative ''f'' False = Inr ''f''" by code_simp

lemma example_temps: "''f'' \<notin> temps_opts (p, opts, Some ''00'') ''f''"
proof -
  have "cozy_temp ''f'' ''00'' = ''.cozy-tmp-00''" by code_simp
  then show ?thesis by (simp add: temps_opts_def)
qed

lemmas run_defs = WriteFileAtomicOpts_def WriteFileAtomic_def ensureParent_def write_in_def
  os_create_excl_def create_node_def syscall_def faulty_def commit_def parent_ok_def fill_def install_def
  choose_mode_def os_write_def os_chmod_def os_sync_def os_close_def os_rename_def os_link_def os_remove_def
  os_open_dir_def os_lstat_def os_stat_def root_node_def file_info_def append_inode_def syncDir_def failing_def cleanup_def
  write_sync_close_def

lemma path_facts: "Dir ''f'' = ''.''" "Dir ''.cozy-tmp-00'' = ''.''" "cozy_temp ''f'' ''00'' = ''.cozy-tmp-00''"
  "plain_temp ''f'' ''00'' = ''.f.00.tmp''" "Dir ''.f.00.tmp'' = ''.''"
  by code_simp+

lemma example_run_ok:
  "WriteFileAtomicOpts ''f'' ''new'' 0x1A4 \<lparr>ExactMode = True, CreateOnly = False\<rparr> (Some ''00'') (machine no_faults 0x12)
     = (r, st') \<Longrightarrow> r = Inr ()"
  by (auto simp: run_defs clean_f abs_f path_facts machine_def no_faults_def)

theorem WriteFileAtomicOpts_crash_safe_witness:
  "\<exists>st'. WriteFileAtomicOpts ''f'' ''new'' 0x1A4 \<lparr>ExactMode = True, CreateOnly = False\<rparr> (Some ''00'') (machine no_faults 0x12)
     = (Inr (), st') \<and> see (dsk st') ''f'' = AFile ''new'' 0x1A4"
proof -
  obtain r st' where r: "WriteFileAtomicOpts ''f'' ''new'' 0x1A4 \<lparr>ExactMode = True, CreateOnly = False\<rparr> (Some ''00'') (machine no_faults 0x12)
     = (r, st')" by (metis surj_pair)
  have ok: "r = Inr ()" by (rule example_run_ok [OF r])
  from WriteFileAtomicOpts_crash_safe [OF r machine_ok clean_f example_temps] ok
  have "see (dsk st') ''f'' = AFile ''new'' 0x1A4" by auto
  with r ok show ?thesis by blast
qed

text \<open>
  No torn or lost file, over any sequence of writes by the options writer.  Take
  any list of writes, to any names, with any faults; if their temporary names avoid the
  targets and the name \<open>P\<close>, then on every disk ever exposed \<open>P\<close> shows its first content
  or the complete content of one of the writes to \<open>P\<close> (an absent name may become a parent
  directory).
\<close>

theorem write_opts_history:
  assumes "disk_ok (next_ino st) (dsk st)" "fresh_temps temps_opts ws P"
  shows "logged (\<lambda>d. version_of ws P (see (dsk st) P) (see d P)) st (run_writes write_opts ws st)"
  using assms by (rule opts.run_writes_versions)

theorem write_opts_history_witness:
  "logged (\<lambda>d. see d ''f'' = AFile ''old'' 0x1B6 \<or> (\<exists>m. see d ''f'' = AFile ''new'' m)) (machine (fault_at 4) 0x12)
     (run_writes write_opts [((0x1A4, \<lparr>ExactMode = True, CreateOnly = False\<rparr>, Some ''00''), ''f'', ''new'')] (machine (fault_at 4) 0x12))"
proof -
  let ?ws = "[((0x1A4, \<lparr>ExactMode = True, CreateOnly = False\<rparr>, Some ''00''), ''f'', ''new'')]"
  have f: "fresh_temps temps_opts ?ws ''f''"
    using example_temps by (simp add: fresh_temps_def clean_f)
  have s: "see (dsk (machine (fault_at 4) 0x12)) ''f'' = AFile ''old'' 0x1B6" by (simp add: machine_def see_def)
  show ?thesis
    using write_opts_history [OF machine_ok f] unfolding s
    by (rule logged_mono) (auto simp: version_of_def s)
qed

text \<open>
  The same holds of the plain writer, with up to five temporary names per write.
\<close>

theorem write_plain_history:
  assumes "disk_ok (next_ino st) (dsk st)" "fresh_temps temps_plain ws P"
  shows "logged (\<lambda>d. version_of ws P (see (dsk st) P) (see d P)) st (run_writes write_plain ws st)"
  using assms by (rule plain.run_writes_versions)

theorem write_plain_history_witness:
  "logged (\<lambda>d. see d ''f'' = AFile ''old'' 0x1B6 \<or> (\<exists>m. see d ''f'' = AFile ''new'' m)) (machine (fault_at 2) 0x12)
     (run_writes write_plain [((0x1A4, [Some ''00'']), ''f'', ''new'')] (machine (fault_at 2) 0x12))"
proof -
  let ?ws = "[((0x1A4, [Some ''00'']), ''f'', ''new'')]"
  have f: "fresh_temps temps_plain ?ws ''f''"
    by (simp add: fresh_temps_def clean_f temps_plain_def path_facts)
  have s: "see (dsk (machine (fault_at 2) 0x12)) ''f'' = AFile ''old'' 0x1B6" by (simp add: machine_def see_def)
  show ?thesis
    using write_plain_history [OF machine_ok f] unfolding s
    by (rule logged_mono) (auto simp: version_of_def s)
qed

text \<open>
  Confinement.  A name accepted as an entry has only plain components (no empty,
  \<open>.\<close> or \<open>..\<close> component and no slash within one), is not absolute, and is accepted again
  unchanged; so cleaning is idempotent and no accepted name leaves the root.
\<close>

theorem cleanRelative_confined:
  "(case cleanRelative name False of
      Inl e \<Rightarrow> True
    | Inr clean \<Rightarrow> below clean \<and> \<not> IsAbs clean \<and> clean = Clean name \<and>
        (cleanRelative clean False = Inr clean \<or> TrimSpace clean = []))"
proof (cases "cleanRelative name False")
  case (Inl e)
  then show ?thesis by simp
next
  case (Inr clean)
  have b: "below clean" using cleanRelative_below [OF Inr] .
  moreover have "clean = Clean name" using Inr by (auto simp: cleanRelative_def Let_def split: if_splits)
  ultimately show ?thesis
    using Inr below_not_abs [OF b] Clean_below_id [OF b] below_not_special [OF b]
    by (auto simp: cleanRelative_def Let_def)
qed

text \<open>
  An error of the options writer does not mean that the target is untouched.  If
  the target's directory cannot be flushed after the rename, the call reports the error
  although the new content is in place.
\<close>

theorem WriteFileAtomicOpts_error_after_install:
  "(let (r, st') = WriteFileAtomicOpts ''f'' ''new'' 0x1A4 \<lparr>ExactMode = True, CreateOnly = False\<rparr> (Some ''00'') (machine (fault_at 6) 0x12)
    in r = Inl (OsError (ErrIO ''disk'')) \<and> see (dsk st') ''f'' = AFile ''new'' 0x1A4)"
  by (simp add: run_defs clean_f abs_f path_facts machine_def fault_at_def see_def)

text \<open>
  The plain writer does not always preserve the mode of an existing file: the
  mode is applied when the temporary file is created, so the umask takes bits away
  (0666 becomes 0644 under umask 022).
\<close>

theorem WriteFileAtomic_mode_lost:
  "(let (r, st') = WriteFileAtomic ''f'' ''new'' 0x1A4 [Some ''00''] (machine no_faults 0x12)
    in r = Inr () \<and> see (dsk (machine no_faults 0x12)) ''f'' = AFile ''old'' 0x1B6 \<and>
       see (dsk st') ''f'' = AFile ''new'' 0x1A4)"
  by (simp add: run_defs clean_f abs_f path_facts machine_def no_faults_def see_def eval_nat_numeral Perm_def ModePerm_def Let_def)

end
