(* ===== verification/TextEdit.thy ===== *)
theory TextEdit
  imports Prelude "HOL-Library.Word" "HOL-Library.Multiset"
begin

unbundle bit_operations_syntax

text \<open>
  The text side of package \<open>filesystem\<close>: newline handling, line splitting, anchors and
  binary detection of \<open>read.go\<close>, and the two edit routines of \<open>edit.go\<close>,
  \<open>applyUniqueReplacement\<close> and \<open>applyHashlineEdits\<close>, on byte strings.  Errors carry the
  code and message of \<open>errors.go\<close>.  The lemmas relate the bottom-up splicing of line
  ranges to a one-pass reference and show the newline round trip.
\<close>

datatype FsCode = CodeInvalidInput | CodeNotFound | CodeConflict | CodeLimit | CodePermission | CodeInternal

datatype fs_error = FsError FsCode string string string   \<comment> \<open>code, operation, path, message\<close>

fun code_of :: "fs_error \<Rightarrow> FsCode" where
  "code_of (FsError c op p m) = c"

section \<open>Newlines, lines, binary files (\<open>read.go\<close>)\<close>

definition normalizeLF :: "string \<Rightarrow> string" where
  "normalizeLF raw = ReplaceAll raw CRLF [LF]"

definition splitTextLines :: "string \<Rightarrow> string list" where
  "splitTextLines raw =
     (if raw = [] then []
      else let parts = SplitChar LF raw in
        if last parts = [] then butlast parts else parts)"

text \<open>\<open>utf8.Valid\<close>: the accept ranges of Go's decoder.\<close>

definition cont :: "nat \<Rightarrow> nat \<Rightarrow> char \<Rightarrow> bool" where
  "cont lo hi c \<longleftrightarrow> lo \<le> byteval c \<and> byteval c \<le> hi"

abbreviation tail_byte :: "char \<Rightarrow> bool" where "tail_byte \<equiv> cont 0x80 0xBF"

text \<open>Length of the valid rune at the head, 0 if there is none.\<close>

fun rune_len :: "string \<Rightarrow> nat" where
  "rune_len [] = 0"
| "rune_len (a # s) =
     (let x = byteval a in
      if x < 0x80 then 1
      else if 0xC2 \<le> x \<and> x \<le> 0xDF then (case s of b # _ \<Rightarrow> if tail_byte b then 2 else 0 | _ \<Rightarrow> 0)
      else if 0xE0 \<le> x \<and> x \<le> 0xEF then
        (case s of b # c # _ \<Rightarrow>
            if cont (if x = 0xE0 then 0xA0 else 0x80) (if x = 0xED then 0x9F else 0xBF) b \<and> tail_byte c then 3 else 0
          | _ \<Rightarrow> 0)
      else if 0xF0 \<le> x \<and> x \<le> 0xF4 then
        (case s of b # c # d # _ \<Rightarrow>
            if cont (if x = 0xF0 then 0x90 else 0x80) (if x = 0xF4 then 0x8F else 0xBF) b \<and> tail_byte c \<and> tail_byte d
            then 4 else 0
          | _ \<Rightarrow> 0)
      else 0)"

lemma rune_len_pos_ne: "0 < rune_len s \<Longrightarrow> s \<noteq> []"
  by (cases s) auto

function utf8_valid :: "string \<Rightarrow> bool" where
  "utf8_valid s = (if s = [] then True else if rune_len s = 0 then False else utf8_valid (drop (rune_len s) s))"
  by pat_completeness auto
termination
  by (relation "measure length") (auto simp: neq_Nil_conv simp del: rune_len.simps)

declare utf8_valid.simps [simp del]

definition isBinary :: "string \<Rightarrow> bool" where
  "isBinary raw \<longleftrightarrow> NUL \<in> set raw \<or> \<not> utf8_valid raw"

definition newlineConvention :: "string \<Rightarrow> string" where
  "newlineConvention raw =
     (let crlf = CountSub raw CRLF; lf = CountSub raw [LF] - crlf in
      if crlf > 0 \<and> crlf \<ge> lf then CRLF else [LF])"

text \<open>64-bit FNV-1a, reduced to three letters.\<close>

definition fnv64a :: "string \<Rightarrow> 64 word" where
  "fnv64a text = foldl (\<lambda>h c. (h XOR of_nat (byteval c)) * 1099511628211) 14695981039346656037 text"

definition lineAnchor :: "string \<Rightarrow> string" where
  "lineAnchor text =
     (let value = unat (fnv64a text mod (26 * 26 * 26)) in
      [char_of (97 + value div (26 * 26)), char_of (97 + (value div 26) mod 26), char_of (97 + value mod 26)])"

function hashChunks :: "string \<Rightarrow> string list" where
  "hashChunks h = (if h = [] then [] else take 8 h # hashChunks (drop 8 h))"
  by pat_completeness auto
termination by (relation "measure length") (auto simp: neq_Nil_conv)

declare hashChunks.simps [simp del]

section \<open>Unique replacement (\<open>edit.go\<close>)\<close>

definition applyUniqueReplacement :: "string \<Rightarrow> string \<Rightarrow> string \<Rightarrow> fs_error + string" where
  "applyUniqueReplacement snapshot oldText0 newText0 =
     (let oldText = normalizeLF oldText0; newText = normalizeLF newText0 in
      if oldText = [] then
        (if snapshot = [] then Inr newText
         else Inl (FsError CodeInvalidInput ''edit'' [] ''old text must not be empty unless replacing an empty snapshot''))
      else let count = CountSub snapshot oldText in
        if count = 1 then Inr (Replace1 snapshot oldText newText)
        else if count = 0 \<and> Contains snapshot newText then Inr snapshot
        else if count = 0 then Inl (FsError CodeConflict ''edit'' [] ''old text was not found'')
        else Inl (FsError CodeConflict ''edit'' [] (''old text occurs '' @ Itoa (int count) @ '' times'')))"

section \<open>Hashline ranges (\<open>edit.go\<close>)\<close>

record HashlineEdit =
  he_From :: string
  he_To :: string
  he_Content :: "string option"

record resolvedHashlineEdit =
  start :: nat
  stop :: nat
  content_lines :: "string list"

text \<open>The pattern \<open>^([1-9][0-9]*)#([a-z]{3})$\<close>, then \<open>Atoi\<close> of the first group.\<close>

definition parseHashline :: "string \<Rightarrow> fs_error + (int \<times> string)" where
  "parseHashline value =
     (let ds = takeWhile is_digit value; r = dropWhile is_digit value in
      if ds \<noteq> [] \<and> hd ds \<noteq> CHR ''0'' \<and> length r = 4 \<and> hd r = CHR ''#'' \<and> list_all is_lower (tl r) then
        (case Atoi ds of
           None \<Rightarrow> Inl (FsError CodeInvalidInput ''edit'' value ''invalid line number'')
         | Some n \<Rightarrow> Inr (n, tl r))
      else Inl (FsError CodeInvalidInput ''edit'' value ''hashline must be number#abc''))"

definition edit_content :: "string option \<Rightarrow> string list" where
  "edit_content c =
     (case c of None \<Rightarrow> []
      | Some text \<Rightarrow> (let n = normalizeLF text in if n = [] then [[]] else splitTextLines n))"

definition resolve_edit :: "string list \<Rightarrow> HashlineEdit \<Rightarrow> fs_error + resolvedHashlineEdit" where
  "resolve_edit lines edit =
     rbind (parseHashline (he_From edit)) (\<lambda>(fromLine, fromAnchor).
     let toText = (if he_To edit = [] then he_From edit else he_To edit);
         range = he_From edit @ ''..'' @ toText in
     rbind (parseHashline toText) (\<lambda>(toLine, toAnchor).
       if fromLine > toLine then Inl (FsError CodeInvalidInput ''edit'' range ''range is reversed'')
       else if fromLine < 1 \<or> toLine > int (length lines) then
         Inl (FsError CodeConflict ''edit'' range ''line range is outside snapshot'')
       else if lineAnchor (lines ! nat (fromLine - 1)) \<noteq> fromAnchor \<or> lineAnchor (lines ! nat (toLine - 1)) \<noteq> toAnchor then
         Inl (FsError CodeConflict ''edit'' range ''hashline anchor mismatch'')
       else Inr \<lparr>start = nat (fromLine - 1), stop = nat toLine, content_lines = edit_content (he_Content edit)\<rparr>))"

fun resolve_edits :: "string list \<Rightarrow> HashlineEdit list \<Rightarrow> fs_error + resolvedHashlineEdit list" where
  "resolve_edits lines [] = Inr []"
| "resolve_edits lines (e # es) =
     rbind (resolve_edit lines e) (\<lambda>r. rbind (resolve_edits lines es) (\<lambda>rs. Inr (r # rs)))"

fun overlapping :: "resolvedHashlineEdit list \<Rightarrow> bool" where
  "overlapping (a # b # rs) \<longleftrightarrow> start b < stop a \<or> overlapping (b # rs)"
| "overlapping _ \<longleftrightarrow> False"

definition splice :: "resolvedHashlineEdit \<Rightarrow> string list \<Rightarrow> string list" where
  "splice e lines = take (start e) lines @ content_lines e @ drop (stop e) lines"

definition applyHashlineEdits :: "string \<Rightarrow> HashlineEdit list \<Rightarrow> fs_error + string" where
  "applyHashlineEdits snapshot edits =
     (let lines = SplitChar LF snapshot in
      rbind (resolve_edits lines edits) (\<lambda>resolved.
        let sorted = sort_key start resolved in
        if overlapping sorted then Inl (FsError CodeConflict ''edit'' [] ''hashline ranges overlap'')
        else Inr (Join [LF] (foldr splice sorted lines))))"

section \<open>Line references\<close>

text \<open>Digits without a leading zero are the digits of their value.\<close>

lemma nat_digits_zero: "nat_digits 0 = ''0''"
  by code_simp

lemma digit_char_byteval: "is_digit c \<Longrightarrow> digit_char (byteval c - 48) = c \<and> byteval c - 48 < 10"
  by (auto simp: is_digit_def digit_char_def byteval_def)

lemma nat_digits_digits_val:
  "list_all is_digit ds \<Longrightarrow> ds \<noteq> [] \<Longrightarrow> hd ds \<noteq> CHR ''0'' \<Longrightarrow> nat_digits (digits_val ds) = ds"
proof (induction ds rule: rev_induct)
  case (snoc c ds)
  let ?d = "byteval c - 48"
  have c: "digit_char ?d = c" "?d < 10" using snoc.prems(1) digit_char_byteval by simp_all
  show ?case
  proof (cases "ds = []")
    case True
    then show ?thesis using c by (subst nat_digits.simps) (simp add: digits_val_def)
  next
    case False
    with snoc have IH: "nat_digits (digits_val ds) = ds" by simp
    have "digits_val ds \<noteq> 0" using IH False snoc.prems(3) by (metis hd_append2 list.sel(1) nat_digits_zero)
    then show ?thesis
      using c IH by (subst nat_digits.simps) (simp add: digits_val_def)
  qed
qed simp

lemma nat_digits_hd: "0 < n \<Longrightarrow> hd (nat_digits n) \<noteq> CHR ''0''"
proof (induction n rule: nat_digits.induct)
  case (1 n)
  show ?case
  proof (cases "n < 10")
    case True
    have "byteval (CHR ''0'') = 48" by (simp add: byteval_def)
    then show ?thesis using True 1 digit_char_val [of n] by (subst nat_digits.simps) auto
  next
    case False
    with 1 show ?thesis by (subst nat_digits.simps) simp
  qed
qed

lemma Atoi_digits:
  assumes "list_all is_digit ds" "ds \<noteq> []"
  shows "Atoi ds = (if int (digits_val ds) < 2 ^ 63 then Some (int (digits_val ds)) else None)"
proof -
  obtain d ds' where d: "ds = d # ds'" "is_digit d" using assms by (cases ds) auto
  then have "\<not> HasPrefix ds ''-''" "\<not> HasPrefix ds ''+''" by (auto simp: HasPrefix_iff is_digit_def byteval_def)
  then show ?thesis using assms by (simp add: Atoi_def Let_def)
qed

lemma lineAnchor_shape: "length (lineAnchor t) = 3" "list_all is_lower (lineAnchor t)"
proof -
  have l: "is_lower (char_of (97 + d))" if "d < 26" for d :: nat
    using that by (simp add: is_lower_def byteval_char_of)
  have "unat (fnv64a t mod (26 * 26 * 26)) < 17576" by (simp add: unat_mod unat_arith_simps)
  then have "unat (fnv64a t mod (26 * 26 * 26)) div (26 * 26) < 26" by simp
  then show "list_all is_lower (lineAnchor t)" by (simp add: lineAnchor_def Let_def l)
qed (simp add: lineAnchor_def Let_def)

text \<open>What a reference says: the number of a line, from one, and the anchor of that line.\<close>

definition names_line :: "string list \<Rightarrow> string \<Rightarrow> nat \<Rightarrow> bool" where
  "names_line lines ref k \<longleftrightarrow> 1 \<le> k \<and> k \<le> length lines \<and> ref = nat_digits k @ ''#'' @ lineAnchor (lines ! (k - 1))"

definition names_range :: "string list \<Rightarrow> HashlineEdit \<Rightarrow> resolvedHashlineEdit \<Rightarrow> bool" where
  "names_range lines e r \<longleftrightarrow>
     (\<exists>k m. names_line lines (he_From e) k \<and> names_line lines (if he_To e = [] then he_From e else he_To e) m \<and> k \<le> m
        \<and> start r = k - 1 \<and> stop r = m \<and> content_lines r = edit_content (he_Content e))"

lemma parseHashline_Inr: "parseHashline v = Inr (n, a) \<longleftrightarrow>
    (\<exists>k. n = int k \<and> 1 \<le> k \<and> int k < 2 ^ 63 \<and> v = nat_digits k @ ''#'' @ a \<and> length a = 3 \<and> list_all is_lower a)"
    (is "?P \<longleftrightarrow> ?T")
proof
  assume p: ?P
  define ds where "ds = takeWhile is_digit v"
  define r where "r = dropWhile is_digit v"
  have v: "v = ds @ r" by (simp add: ds_def r_def)
  have ok: "ds \<noteq> []" "hd ds \<noteq> CHR ''0''" "length r = 4" "hd r = CHR ''#''" "list_all is_lower (tl r)" "a = tl r"
    and n: "Atoi ds = Some n"
    using p by (auto simp: parseHashline_def Let_def ds_def r_def split: if_splits option.splits)
  have ds: "list_all is_digit ds" by (simp add: ds_def list_all_iff) (meson set_takeWhileD)
  have e: "nat_digits (digits_val ds) = ds" using nat_digits_digits_val [OF ds ok(1,2)] .
  have "digits_val ds \<noteq> 0" using e ok(2) nat_digits_zero by (metis list.sel(1))
  moreover have "n = int (digits_val ds)" "int (digits_val ds) < 2 ^ 63"
    using n Atoi_digits [OF ds ok(1)] by (simp_all split: if_splits)
  moreover have "r = ''#'' @ a" using ok(3,4,6) by (cases r) auto
  ultimately show ?T using v ok e by (intro exI [of _ "digits_val ds"]) auto
next
  assume ?T
  then obtain k where k: "n = int k" "1 \<le> k" "int k < 2 ^ 63" "v = nat_digits k @ ''#'' @ a" "length a = 3" "list_all is_lower a"
    by blast
  have h: "\<not> is_digit (CHR ''#'')" by (simp add: byte_defs)
  have d: "\<forall>c \<in> set (nat_digits k). is_digit c" using nat_digits_digits [of k] by (simp add: list_all_iff)
  have "takeWhile is_digit v = nat_digits k" "dropWhile is_digit v = ''#'' @ a"
    using d h by (simp_all add: k(4) takeWhile_append2 dropWhile_append2)
  moreover have "Atoi (nat_digits k) = Some (int k)"
    using Atoi_digits [OF nat_digits_digits [of k]] k(3) by simp
  moreover have "hd (nat_digits k) \<noteq> CHR ''0''" using k(2) nat_digits_hd by simp
  ultimately show ?P using k by (simp add: parseHashline_def Let_def)
qed

lemma resolve_edit_iff:
  assumes "int (length lines) < 2 ^ 63"
  shows "resolve_edit lines e = Inr r \<longleftrightarrow> names_range lines e r"
proof
  assume "resolve_edit lines e = Inr r"
  then obtain n a m b where p: "parseHashline (he_From e) = Inr (n, a)"
      "parseHashline (if he_To e = [] then he_From e else he_To e) = Inr (m, b)" "n \<le> m" "1 \<le> n" "m \<le> int (length lines)"
      "lineAnchor (lines ! nat (n - 1)) = a" "lineAnchor (lines ! nat (m - 1)) = b"
      "r = \<lparr>start = nat (n - 1), stop = nat m, content_lines = edit_content (he_Content e)\<rparr>"
    by (auto simp: resolve_edit_def Let_def rbind_eq_Inr split: if_splits)
  from p(1) obtain k where k: "n = int k" "he_From e = nat_digits k @ ''#'' @ a" unfolding parseHashline_Inr by blast
  from p(2) obtain j where j: "m = int j" "(if he_To e = [] then he_From e else he_To e) = nat_digits j @ ''#'' @ b"
    unfolding parseHashline_Inr by blast
  show "names_range lines e r"
    unfolding names_range_def names_line_def
    by (rule exI [of _ k], rule exI [of _ j]) (use p(3-8) k j in \<open>auto simp: nat_diff_distrib\<close>)
next
  assume "names_range lines e r"
  then obtain k m where k: "names_line lines (he_From e) k" "names_line lines (if he_To e = [] then he_From e else he_To e) m"
      "k \<le> m" "start r = k - 1" "stop r = m" "content_lines r = edit_content (he_Content e)"
    unfolding names_range_def by blast
  have "parseHashline (he_From e) = Inr (int k, lineAnchor (lines ! (k - 1)))"
    "parseHashline (if he_To e = [] then he_From e else he_To e) = Inr (int m, lineAnchor (lines ! (m - 1)))"
    using k(1,2) assms lineAnchor_shape by (auto simp: parseHashline_Inr names_line_def)
  moreover have "nat (int k - 1) = k - 1" "nat (int m - 1) = m - 1" by simp_all
  moreover have "r = \<lparr>start = k - 1, stop = m, content_lines = edit_content (he_Content e)\<rparr>" using k by (cases r) simp
  ultimately show "resolve_edit lines e = Inr r"
    using k(1-3) by (simp add: resolve_edit_def Let_def names_line_def)
qed

section \<open>Reference semantics of range edits\<close>

text \<open>One pass over the sorted ranges, copying the lines between them; \<open>i\<close> is the position.\<close>

fun merge_ranges :: "nat \<Rightarrow> resolvedHashlineEdit list \<Rightarrow> string list \<Rightarrow> string list" where
  "merge_ranges i [] lines = drop i lines"
| "merge_ranges i (e # es) lines = take (start e - i) (drop i lines) @ content_lines e @ merge_ranges (stop e) es lines"

lemma splice_drop:
  assumes "take (start a) xs = take (start a) lines" "start a \<le> length lines" "i \<le> start a"
  shows "drop i (splice a xs) = take (start a - i) (drop i lines) @ content_lines a @ drop (stop a) xs"
  using assms by (simp only: splice_def) (simp add: drop_take)

lemma splice_take:
  assumes "take (start a) xs = take (start a) lines" "start a \<le> length lines" "i \<le> start a"
  shows "take i (splice a xs) = take i lines"
  using assms by (simp only: splice_def) (simp add: min_def)

lemma take_foldr_splice:
  "\<not> overlapping es \<Longrightarrow> \<forall>e \<in> set es. start e \<le> stop e \<and> stop e \<le> length lines \<Longrightarrow>
   sorted (map start es) \<Longrightarrow> es = [] \<or> i \<le> start (hd es) \<Longrightarrow>
   take i (foldr splice es lines) = take i lines"
proof (induction es arbitrary: i)
  case Nil
  then show ?case by simp
next
  case (Cons a es)
  have ov: "\<not> overlapping es" using Cons.prems(1) by (cases es) auto
  have "es = [] \<or> start a \<le> start (hd es)" using Cons.prems(3) by (cases es) auto
  then have "take (start a) (foldr splice es lines) = take (start a) lines"
    using Cons.IH [OF ov] Cons.prems(2,3) by auto
  moreover have "start a \<le> length lines" "i \<le> start a" using Cons.prems(2,4) by auto
  ultimately show ?case by (simp add: splice_take)
qed

lemma foldr_splice_merge:
  "\<not> overlapping es \<Longrightarrow> \<forall>e \<in> set es. start e \<le> stop e \<and> stop e \<le> length lines \<Longrightarrow>
   sorted (map start es) \<Longrightarrow> es = [] \<or> i \<le> start (hd es) \<Longrightarrow>
   drop i (foldr splice es lines) = merge_ranges i es lines"
proof (induction es arbitrary: i)
  case Nil
  then show ?case by simp
next
  case (Cons a es)
  have ov: "\<not> overlapping es" using Cons.prems(1) by (cases es) auto
  have hd: "es = [] \<or> stop a \<le> start (hd es)" using Cons.prems(1) by (cases es) auto
  have rest: "drop (stop a) (foldr splice es lines) = merge_ranges (stop a) es lines"
    using Cons.IH [OF ov _ _ hd] Cons.prems(2,3) by auto
  have "es = [] \<or> start a \<le> start (hd es)" using Cons.prems(3) by (cases es) auto
  then have t: "take (start a) (foldr splice es lines) = take (start a) lines"
    using take_foldr_splice [OF ov] Cons.prems(2,3) by auto
  have "i \<le> start a" "start a \<le> length lines" using Cons.prems(2,4) by auto
  then show ?case
    using splice_drop [OF t] by (simp add: rest)
qed

lemma rbind_split: "rbind (Inr x) f = f x" by simp

lemma resolve_edit_ok:
  "resolve_edit lines e = Inr r \<Longrightarrow> start r < stop r \<and> stop r \<le> length lines"
  by (auto simp: resolve_edit_def Let_def result_simps split: if_splits)

lemma resolve_edits_map:
  "resolve_edits lines es = Inr rs \<longleftrightarrow> map (resolve_edit lines) es = map Inr rs"
  by (induction es arbitrary: rs) (auto simp: result_simps Cons_eq_map_conv map_eq_Cons_conv)

lemma resolve_edits_ok:
  "resolve_edits lines es = Inr rs \<Longrightarrow> \<forall>r \<in> set rs. start r < stop r \<and> stop r \<le> length lines"
  by (induction es arbitrary: rs) (auto simp: result_simps dest: resolve_edit_ok)

lemma not_overlapping_distinct:
  "\<not> overlapping rs \<Longrightarrow> \<forall>r \<in> set rs. start r < stop r \<Longrightarrow> sorted (map start rs) \<Longrightarrow> sorted_wrt (<) (map start rs)"
proof (induction rs rule: overlapping.induct)
  case (1 a b rs)
  then have "sorted_wrt (<) (map start (b # rs))" by auto
  moreover have "start a < start b" using 1 by force
  ultimately show ?case by (auto intro: less_trans)
qed auto

lemma sorted_wrt_less_distinct: "sorted_wrt (<) (map start rs) \<Longrightarrow> distinct (map start rs)"
  using strict_sorted_iff by blast

lemma overlapping_iff:
  "\<forall>r \<in> set es. start r < stop r \<Longrightarrow> \<not> overlapping es \<longleftrightarrow> sorted_wrt (\<lambda>a b. stop a \<le> start b) es"
proof (induction es rule: overlapping.induct)
  case (1 a b es)
  have "stop a \<le> start b \<and> sorted_wrt (\<lambda>a b. stop a \<le> start b) (b # es) \<longleftrightarrow> sorted_wrt (\<lambda>a b. stop a \<le> start b) (a # b # es)"
    using 1 by force
  with 1 show ?case by auto
qed auto

section \<open>The newline round trip\<close>

text \<open>Every line feed is preceded by a carriage return, and carriage returns occur only there.\<close>

fun crlf_text :: "string \<Rightarrow> bool" where
  "crlf_text [] = True"
| "crlf_text (c # s) =
     (if c = CR then (case s of [] \<Rightarrow> False | d # t \<Rightarrow> d = LF \<and> crlf_text t)
      else c \<noteq> LF \<and> crlf_text s)"

lemma normalizeLF_no_CRLF: "CR \<notin> set s \<Longrightarrow> normalizeLF s = s"
  unfolding normalizeLF_def by (rule ReplaceAll_absent) (auto simp: Contains_iff)

lemma ReplaceAll_LF_id: "LF \<notin> set s \<Longrightarrow> ReplaceAll s [LF] CRLF = s"
  by (rule ReplaceAll_absent) (auto simp: Contains_iff)

lemma crlf_round_trip:
  "crlf_text s \<Longrightarrow> CR \<notin> set (normalizeLF s) \<and> ReplaceAll (normalizeLF s) [LF] CRLF = s"
proof (induction s rule: crlf_text.induct)
  case 1
  then show ?case by (simp add: normalizeLF_def)
next
  case (2 c s)
  show ?case
  proof (cases "c = CR")
    case True
    then obtain t where t: "s = LF # t" "crlf_text t" using 2(3) by (auto split: list.splits)
    have IH: "CR \<notin> set (normalizeLF t)" "ReplaceAll (normalizeLF t) [LF] CRLF = t"
      using 2(1) [OF True t(1)] t by auto
    have "normalizeLF (c # s) = LF # normalizeLF t"
      by (simp add: normalizeLF_def True t(1) ReplaceAll_Cons)
    then show ?thesis using IH True t by (simp add: ReplaceAll_Cons)
  next
    case False
    then have s: "crlf_text s" "c \<noteq> LF" using 2(3) by auto
    have IH: "CR \<notin> set (normalizeLF s)" "ReplaceAll (normalizeLF s) [LF] CRLF = s"
      using 2(2) False s by auto
    have "normalizeLF (c # s) = c # normalizeLF s"
      using False by (simp add: normalizeLF_def ReplaceAll_Cons)
    then show ?thesis using IH False s by (simp add: ReplaceAll_Cons)
  qed
qed

section \<open>Properties\<close>

text \<open>
  Claim C8: range edits are exact.  A set of hashline edits is accepted exactly when every edit names lines of the
  snapshot by their number and their anchor, first to last, and the ranges, in order, are disjoint; the result is
  then one left-to-right pass that copies the lines outside the ranges and puts each replacement in the place of its
  range.  So a stale anchor is never applied, and the bottom-up splicing of the source agrees with the reference.
\<close>

theorem applyHashlineEdits_exact:
  assumes "int (length (SplitChar LF snapshot)) < 2 ^ 63"
  shows "applyHashlineEdits snapshot edits = Inr out \<longleftrightarrow>
    (\<exists>rs. list_all2 (names_range (SplitChar LF snapshot)) edits rs \<and>
       sorted_wrt (\<lambda>a b. stop a \<le> start b) (sort_key start rs) \<and>
       out = Join [LF] (merge_ranges 0 (sort_key start rs) (SplitChar LF snapshot)))"
proof -
  let ?ls = "SplitChar LF snapshot"
  have rs: "resolve_edits ?ls edits = Inr rs \<longleftrightarrow> list_all2 (names_range ?ls) edits rs" for rs
    unfolding resolve_edits_map list_all2_conv_all_nth
    by (auto simp: list_eq_iff_nth_eq resolve_edit_iff [OF assms])
  have dis: "\<not> overlapping (sort_key start rs) \<longleftrightarrow> sorted_wrt (\<lambda>a b. stop a \<le> start b) (sort_key start rs)"
    and mrg: "\<not> overlapping (sort_key start rs) \<Longrightarrow> foldr splice (sort_key start rs) ?ls = merge_ranges 0 (sort_key start rs) ?ls"
    if "resolve_edits ?ls edits = Inr rs" for rs
  proof -
    have ok: "\<forall>r \<in> set (sort_key start rs). start r < stop r \<and> stop r \<le> length ?ls" using resolve_edits_ok [OF that] by simp
    then show "\<not> overlapping (sort_key start rs) \<longleftrightarrow> sorted_wrt (\<lambda>a b. stop a \<le> start b) (sort_key start rs)"
      by (intro overlapping_iff) simp
    show "foldr splice (sort_key start rs) ?ls = merge_ranges 0 (sort_key start rs) ?ls" if "\<not> overlapping (sort_key start rs)"
      using foldr_splice_merge [of "sort_key start rs" ?ls 0] that ok by fastforce
  qed
  have "applyHashlineEdits snapshot edits = Inr out \<longleftrightarrow> (\<exists>rs. resolve_edits ?ls edits = Inr rs \<and>
      \<not> overlapping (sort_key start rs) \<and> out = Join [LF] (foldr splice (sort_key start rs) ?ls))"
    by (auto simp: applyHashlineEdits_def Let_def rbind_eq_Inr)
  also have "\<dots> \<longleftrightarrow> (\<exists>rs. resolve_edits ?ls edits = Inr rs \<and> sorted_wrt (\<lambda>a b. stop a \<le> start b) (sort_key start rs) \<and>
      out = Join [LF] (merge_ranges 0 (sort_key start rs) ?ls))"
    using dis mrg by (intro ex_cong1) (metis (no_types, lifting))
  finally show ?thesis by (simp only: rs)
qed

text \<open>An example: three lines, the second replaced by two, the last deleted.\<close>

definition example_text :: string where
  "example_text = ''a'' @ [LF] @ ''b'' @ [LF] @ ''c''"

definition example_edits :: "HashlineEdit list" where
  "example_edits = [\<lparr>he_From = ''3#'' @ lineAnchor ''c'', he_To = [], he_Content = None\<rparr>,
     \<lparr>he_From = ''2#'' @ lineAnchor ''b'', he_To = [], he_Content = Some (''x'' @ [LF] @ ''y'')\<rparr>]"

lemma anchor_facts: "lineAnchor ''b'' = ''ecz''" "lineAnchor ''c'' = ''urq''"
  by (simp_all add: lineAnchor_def fnv64a_def byteval_def char_of_def bit_Suc_0_iff)

lemma example_parse: "parseHashline ''3#urq'' = Inr (3, ''urq'')" "parseHashline ''2#ecz'' = Inr (2, ''ecz'')"
    "edit_content (Some (''x'' @ [LF] @ ''y'')) = [''x'', ''y'']" "edit_content None = []"
  by code_simp+

lemma example_edits_run:
  "applyHashlineEdits example_text example_edits = Inr (''a'' @ [LF] @ ''x'' @ [LF] @ ''y'')"
proof -
  have "resolve_edits [''a'', ''b'', ''c''] example_edits =
      Inr [\<lparr>start = 2, stop = 3, content_lines = []\<rparr>, \<lparr>start = 1, stop = 2, content_lines = [''x'', ''y'']\<rparr>]"
    using anchor_facts example_parse by (simp add: example_edits_def resolve_edit_def Let_def)
  moreover have "SplitChar LF example_text = [''a'', ''b'', ''c'']"
    by (simp add: example_text_def)
  ultimately show ?thesis
    by (simp add: applyHashlineEdits_def Let_def splice_def)
qed

theorem applyHashlineEdits_exact_witness:
  "\<exists>rs. list_all2 (names_range (SplitChar LF example_text)) example_edits rs \<and>
    ''a'' @ [LF] @ ''x'' @ [LF] @ ''y'' = Join [LF] (merge_ranges 0 (sort_key start rs) (SplitChar LF example_text))"
proof -
  have "int (length (SplitChar LF example_text)) < 2 ^ 63" by (simp add: example_text_def)
  from iffD1 [OF applyHashlineEdits_exact [OF this] example_edits_run] show ?thesis by blast
qed

text \<open>
  The order in which the edits are given does not matter: a permutation of an
  accepted set of edits is accepted with the same result.
\<close>

theorem applyHashlineEdits_order_irrelevant:
  assumes "mset edits' = mset edits" "applyHashlineEdits snapshot edits = Inr out"
  shows "applyHashlineEdits snapshot edits' = Inr out"
proof -
  let ?ls = "SplitChar LF snapshot"
  obtain rs where rs: "resolve_edits ?ls edits = Inr rs" "\<not> overlapping (sort_key start rs)"
      "out = Join [LF] (foldr splice (sort_key start rs) ?ls)"
    using assms(2) by (auto simp: applyHashlineEdits_def Let_def result_simps split: if_splits)
  have all: "\<forall>e \<in> set edits. isOk (resolve_edit ?ls e)"
  proof
    fix e assume "e \<in> set edits"
    then have "resolve_edit ?ls e \<in> set (map Inr rs)"
      using rs(1) by (metis image_eqI list.set_map resolve_edits_map)
    then show "isOk (resolve_edit ?ls e)" by auto
  qed
  define f where "f = (\<lambda>e. case resolve_edit ?ls e of Inr r \<Rightarrow> r | Inl _ \<Rightarrow> undefined)"
  have f: "resolve_edit ?ls e = Inr (f e)" if "e \<in> set edits" for e
    using all that by (force simp: f_def split: sum.splits)
  have "map (resolve_edit ?ls) edits = map Inr (map f edits)" using f by simp
  then have rs_f: "rs = map f edits"
    using rs(1) by (metis resolve_edits_map sum.inject(2) Inr_inject)
  have s: "set edits' = set edits" using assms(1) by (metis set_mset_mset)
  have r': "resolve_edits ?ls edits' = Inr (map f edits')"
    using f s by (simp add: resolve_edits_map)
  have m: "mset (map f edits') = mset rs" using assms(1) by (simp add: rs_f)
  have "sorted_wrt (<) (map start (sort_key start rs))"
    using not_overlapping_distinct [OF rs(2)] resolve_edits_ok [OF rs(1)] by simp
  then have d: "distinct (map start (sort_key start rs))" by (rule sorted_wrt_less_distinct)
  have srt: "mset (sort_key start (map f edits')) = mset (sort_key start rs)" using m by simp
  then have "mset (map start (sort_key start (map f edits'))) = mset (map start (sort_key start rs))"
    by (metis mset_map)
  then have d': "distinct (map start (sort_key start (map f edits')))"
    using d by (metis mset_eq_imp_distinct_iff)
  have sets: "set (sort_key start (map f edits')) = set (sort_key start rs)"
    using srt by (metis set_mset_mset)
  have "inj_on start (set (sort_key start (map f edits')) \<union> set (sort_key start rs))"
    using d sets by (simp add: distinct_map)
  from map_sorted_distinct_set_unique [OF this _ d' _ d sets]
  have "sort_key start (map f edits') = sort_key start rs" by simp
  then show ?thesis
    using r' rs(2,3) by (simp add: applyHashlineEdits_def Let_def)
qed

theorem applyHashlineEdits_order_irrelevant_witness:
  "applyHashlineEdits example_text (rev example_edits) = Inr (''a'' @ [LF] @ ''x'' @ [LF] @ ''y'')"
  using applyHashlineEdits_order_irrelevant [OF _ example_edits_run, of "rev example_edits"] by simp

text \<open>
  What a unique replacement returns.  Either the old text occurs once (counting
  non-overlapping occurrences) and exactly its leftmost occurrence is replaced, or it does
  not occur, the new text is already there and nothing changes, or the snapshot and the old
  text are both empty; in every other case the call fails.
\<close>

theorem applyUniqueReplacement_cases:
  "(let o' = normalizeLF old; n = normalizeLF new in
    case applyUniqueReplacement snapshot old new of
      Inr out \<Rightarrow> (o' = [] \<and> snapshot = [] \<and> out = n) \<or>
        (o' \<noteq> [] \<and> CountSub snapshot o' = 1 \<and>
          (\<exists>l r. snapshot = l @ o' @ r \<and> out = l @ n @ r \<and> list_all (\<lambda>j. \<not> HasPrefix (drop j snapshot) o') [0..<length l])) \<or>
        (o' \<noteq> [] \<and> \<not> Contains snapshot o' \<and> Contains snapshot n \<and> out = snapshot)
    | Inl e \<Rightarrow> (o' = [] \<and> snapshot \<noteq> [] \<and> code_of e = CodeInvalidInput) \<or>
        (o' \<noteq> [] \<and> code_of e = CodeConflict \<and>
          (CountSub snapshot o' \<ge> 2 \<or> (\<not> Contains snapshot o' \<and> \<not> Contains snapshot n))))"
proof (cases "normalizeLF old = []")
  case True
  then show ?thesis by (auto simp: applyUniqueReplacement_def Let_def)
next
  case False
  let ?o = "normalizeLF old" and ?n = "normalizeLF new"
  note z = CountSub_0_iff [OF False, of snapshot]
  consider "CountSub snapshot ?o = 1" | "CountSub snapshot ?o = 0" | "CountSub snapshot ?o \<ge> 2" by linarith
  then show ?thesis
  proof cases
    case 1
    then have "Contains snapshot ?o" using z by auto
    then obtain i where i: "Index snapshot ?o = Some i" by (auto simp: Contains_def)
    have "snapshot = take i snapshot @ ?o @ drop (i + length ?o) snapshot" using Index_split [OF i] .
    moreover have "Replace1 snapshot ?o ?n = take i snapshot @ ?n @ drop (i + length ?o) snapshot"
      by (simp add: Replace1_def i)
    moreover have "list_all (\<lambda>j. \<not> HasPrefix (drop j snapshot) ?o) [0..<length (take i snapshot)]"
      using Index_Some [OF i] by (simp add: list_all_iff)
    ultimately have "\<exists>l r. snapshot = l @ ?o @ r \<and> Replace1 snapshot ?o ?n = l @ ?n @ r \<and>
        list_all (\<lambda>j. \<not> HasPrefix (drop j snapshot) ?o) [0..<length l]" by blast
    with 1 False show ?thesis by (simp add: applyUniqueReplacement_def Let_def)
  next
    case 2
    with z False show ?thesis by (auto simp: applyUniqueReplacement_def Let_def)
  next
    case 3
    with False show ?thesis by (auto simp: applyUniqueReplacement_def Let_def)
  qed
qed

text \<open>
  "unique" counts non-overlapping occurrences: \<open>aa\<close> occurs at two positions of
  \<open>aaa\<close>, yet the replacement is accepted; and a deletion of absent text reports success.
\<close>

theorem applyUniqueReplacement_overlap:
  "applyUniqueReplacement ''aaa'' ''aa'' ''b'' = Inr ''ba'' \<and>
   HasPrefix ''aaa'' ''aa'' \<and> HasPrefix (drop 1 ''aaa'') ''aa'' \<and>
   applyUniqueReplacement ''text'' ''absent'' [] = Inr ''text''"
  by code_simp

end
