(* ===== verification/Service.thy ===== *)
theory Service
  imports Safefs TextEdit
begin

text \<open>
  Package \<open>filesystem\<close>, the service: limits (\<open>types.go\<close>, \<open>service.go\<close>), path checks, error
  classification (\<open>errors.go\<close>), bounded reads (\<open>read.go\<close>), guarded writes (\<open>write.go\<close>) and
  guarded edits (\<open>edit.go\<close>) over the machine of \<open>OsRoot\<close>, every installation going through
  \<open>WriteFileAtomicOpts\<close>.  Parameters: \<open>sha\<close> is the hexadecimal SHA-256 of the standard
  library; \<open>ctx_err t\<close> says whether the context is cancelled at clock \<open>t\<close>; \<open>random\<close> is the
  random part of the temporary name.  The locks are not modelled: an operation runs alone.
\<close>

section \<open>Limits\<close>

record Limits =
  WholeFileBytes :: int
  ReadLines :: int
  ReadBytes :: int
  ListEntries :: int
  FindMatches :: int
  SearchMatches :: int
  SearchBytes :: int
  ScanFiles :: int
  ScanBytes :: int

definition DefaultLimits :: Limits where
  "DefaultLimits = \<lparr>WholeFileBytes = 8388608, ReadLines = 1000, ReadBytes = 51200, ListEntries = 500,
     FindMatches = 100, SearchMatches = 100, SearchBytes = 51200, ScanFiles = 10000, ScanBytes = 67108864\<rparr>"

definition lowerInt :: "string \<Rightarrow> int \<Rightarrow> int \<Rightarrow> fs_error + int" where
  "lowerInt field cap requested =
     (if requested = 0 then Inr cap
      else if requested < 0 \<or> requested > cap then
        Inl (FsError CodeInvalidInput ''limits'' field ''limit must be positive and may not exceed configured cap'')
      else Inr requested)"

definition mergeLimits :: "Limits \<Rightarrow> Limits \<Rightarrow> fs_error + Limits" where
  "mergeLimits base requested =
     rbind (lowerInt ''whole_file_bytes'' (WholeFileBytes base) (WholeFileBytes requested)) (\<lambda>a.
     rbind (lowerInt ''read_lines'' (ReadLines base) (ReadLines requested)) (\<lambda>b.
     rbind (lowerInt ''read_bytes'' (ReadBytes base) (ReadBytes requested)) (\<lambda>c.
     rbind (lowerInt ''list_entries'' (ListEntries base) (ListEntries requested)) (\<lambda>d.
     rbind (lowerInt ''find_matches'' (FindMatches base) (FindMatches requested)) (\<lambda>e.
     rbind (lowerInt ''search_matches'' (SearchMatches base) (SearchMatches requested)) (\<lambda>f.
     rbind (lowerInt ''search_bytes'' (SearchBytes base) (SearchBytes requested)) (\<lambda>g.
     rbind (lowerInt ''scan_files'' (ScanFiles base) (ScanFiles requested)) (\<lambda>h.
     rbind (lowerInt ''scan_bytes'' (ScanBytes base) (ScanBytes requested)) (\<lambda>i.
       Inr \<lparr>WholeFileBytes = a, ReadLines = b, ReadBytes = c, ListEntries = d, FindMatches = e,
         SearchMatches = f, SearchBytes = g, ScanFiles = h, ScanBytes = i\<rparr>)))))))))"

text \<open>\<open>Open\<close> folds the \<open>WithLimits\<close> options over the defaults.\<close>

fun apply_options :: "Limits list \<Rightarrow> Limits \<Rightarrow> fs_error + Limits" where
  "apply_options [] l = Inr l"
| "apply_options (o1 # os) l = rbind (mergeLimits l o1) (apply_options os)"

record svc =
  limits :: Limits
  closed :: bool

definition Open :: "string \<Rightarrow> Limits list \<Rightarrow> fs_error + svc" where
  "Open rootPath opts =
     (if rootPath = [] then Inl (FsError CodeInvalidInput ''open'' rootPath ''root path is required'')
      else rbind (apply_options opts DefaultLimits) (\<lambda>l. Inr \<lparr>limits = l, closed = False\<rparr>))"

definition Close :: "svc \<Rightarrow> svc" where
  "Close s = s\<lparr>closed := True\<rparr>"

datatype call_error = FsErr fs_error | ContextErr

definition begin_op :: "svc \<Rightarrow> (nat \<Rightarrow> bool) \<Rightarrow> nat \<Rightarrow> string \<Rightarrow> call_error option" where
  "begin_op s ctx_err now op =
     (if ctx_err now then Some ContextErr
      else if closed s then Some (FsErr (FsError CodeInternal op [] ''service is closed'')) else None)"

section \<open>Paths\<close>

definition cleanPath :: "string \<Rightarrow> bool \<Rightarrow> fs_error + string" where
  "cleanPath name allowRoot =
     (if NUL \<in> set name then Inl (FsError CodeInvalidInput ''path'' name ''path contains NUL'')
      else if IsAbs name then Inl (FsError CodeInvalidInput ''path'' name ''absolute paths are not allowed'')
      else let slashed = ReplaceAll name [BSLASH] [SLASH] in
        if list_ex (\<lambda>part. part = ''..'') (SplitChar SLASH slashed) then
          Inl (FsError CodeInvalidInput ''path'' name ''parent-directory paths are not allowed'')
        else let cleaned = Clean slashed in
          if cleaned = ''.'' then
            (if allowRoot then Inr ''.'' else Inl (FsError CodeInvalidInput ''path'' name ''file path is required''))
          else if cleaned = ''..'' \<or> HasPrefix cleaned ''../'' then
            Inl (FsError CodeInvalidInput ''path'' name ''path escapes root'')
          else Inr cleaned)"

section \<open>Error classification\<close>

fun errno_text :: "os_error \<Rightarrow> string" where
  "errno_text ErrExist = ''file exists''"
| "errno_text ErrNotExist = ''no such file or directory''"
| "errno_text ErrPermission = ''permission denied''"
| "errno_text ErrNotDir = ''not a directory''"
| "errno_text ErrIsDir = ''is a directory''"
| "errno_text ErrLoop = ''too many levels of symbolic links''"
| "errno_text ErrNotEmpty = ''directory not empty''"
| "errno_text ErrEscapes = ''path escapes from parent''"
| "errno_text ErrInvalid = ''invalid argument''"
| "errno_text ErrShortWrite = ''short write''"
| "errno_text (ErrIO m) = m"

text \<open>A \<open>*PathError\<close>: the call, the name and the cause.\<close>

definition path_error_text :: "string \<Rightarrow> string \<Rightarrow> os_error \<Rightarrow> string" where
  "path_error_text call name e = call @ '' '' @ name @ '': '' @ errno_text e"

definition isUnsafeRootError :: "string \<Rightarrow> bool" where
  "isUnsafeRootError text =
     (let t = ToLower text in
      Contains t ''path escapes'' \<or> Contains t ''escapes from'' \<or> Contains t ''outside root'' \<or>
      Contains t ''invalid argument'')"

definition classifyError :: "string \<Rightarrow> string \<Rightarrow> os_error \<Rightarrow> fs_error" where
  "classifyError op name e =
     (case e of
        ErrNotExist \<Rightarrow> FsError CodeNotFound op name ''path not found''
      | ErrPermission \<Rightarrow> FsError CodePermission op name ''access denied''
      | ErrExist \<Rightarrow> FsError CodeConflict op name ''path already exists''
      | _ \<Rightarrow> FsError CodeInternal op name ''operation failed'')"

definition rootError :: "string \<Rightarrow> string \<Rightarrow> string \<Rightarrow> os_error \<Rightarrow> fs_error" where
  "rootError op name text e =
     (if isUnsafeRootError text then FsError CodePermission op name ''path traversal refused''
      else classifyError op name e)"

text \<open>
  Errors of the writer: the system error inside, and the text that is searched (without
  the file names that some of these texts also contain).
\<close>

fun writer_error :: "string \<Rightarrow> string \<Rightarrow> safefs_error \<Rightarrow> fs_error" where
  "writer_error op name (OsError e) = rootError op name (errno_text e) e"
| "writer_error op name (CreateParent e) =
     rootError op name (''create parent directory beneath root: '' @ errno_text e) e"
| "writer_error op name (EscapesRoot n) = FsError CodePermission op name ''path traversal refused''"
| "writer_error op name _ = FsError CodeInternal op name ''operation failed''"

section \<open>Modes\<close>

definition preservedFileMode :: "FileMode \<Rightarrow> FileMode" where
  "preservedFileMode m = m AND (ModePerm OR ModeSetuid OR ModeSetgid OR ModeSticky)"

definition unixMode :: "32 word \<Rightarrow> FileMode" where
  "unixMode value =
     (value AND 0x1FF) OR (if value AND 0x800 \<noteq> 0 then ModeSetuid else 0)
       OR (if value AND 0x400 \<noteq> 0 then ModeSetgid else 0) OR (if value AND 0x200 \<noteq> 0 then ModeSticky else 0)"

definition modeToUnix :: "FileMode \<Rightarrow> 32 word" where
  "modeToUnix m =
     Perm m OR (if m AND ModeSetuid \<noteq> 0 then 0x800 else 0)
       OR (if m AND ModeSetgid \<noteq> 0 then 0x400 else 0) OR (if m AND ModeSticky \<noteq> 0 then 0x200 else 0)"

section \<open>Expected hashes\<close>

definition validateExpectedHash :: "string \<Rightarrow> fs_error option" where
  "validateExpectedHash expected =
     (if expected = [] then None
      else if length expected < 4 \<or> length expected > 64 then
        Some (FsError CodeInvalidInput ''hash'' expected ''expected SHA-256 must be a 4-64 character prefix'')
      else if \<not> list_all is_hex expected then
        Some (FsError CodeInvalidInput ''hash'' expected ''expected SHA-256 must be hexadecimal'')
      else None)"

definition matchExpected :: "string \<Rightarrow> string \<Rightarrow> string \<Rightarrow> fs_error option" where
  "matchExpected name actual expected =
     (if expected = [] then None
      else if \<not> HasPrefix actual (ToLower expected) then
        Some (FsError CodeConflict ''hash'' name (''stale snapshot: expected '' @ expected @ '', actual '' @ actual))
      else None)"

section \<open>Reading\<close>

record Line =
  li_Number :: nat
  li_Anchor :: string
  li_Text :: string

record ReadRequest =
  rq_Path :: string
  rq_Offset :: int
  rq_Limit :: int
  rq_MaxBytes :: int

record ReadResult =
  rr_SHA256 :: string
  rr_HashChunks :: "string list"
  rr_Binary :: bool
  rr_Content :: string
  rr_Data :: string
  rr_Lines :: "Line list"
  rr_TotalLines :: nat
  rr_Offset :: int
  rr_NextOffset :: int      \<comment> \<open>0 when there is no next page\<close>
  rr_Newline :: string
  rr_FinalNewline :: bool
  rr_Truncated :: bool
  rr_ReturnedBytes :: int

text \<open>The page loop; \<open>n\<close> lines and \<open>used\<close> bytes so far, \<open>idx\<close> the index of the next line.\<close>

fun page_loop :: "int \<Rightarrow> int \<Rightarrow> string list \<Rightarrow> nat \<Rightarrow> nat \<Rightarrow> int \<Rightarrow> Line list \<times> int \<times> nat" where
  "page_loop lineLimit byteLimit [] idx n used = ([], used, idx)"
| "page_loop lineLimit byteLimit (t # ts) idx n used =
     (let cost = int (length t) + (if n > 0 then 1 else 0) in
      if int n < lineLimit \<and> used + cost \<le> byteLimit then
        (case page_loop lineLimit byteLimit ts (idx + 1) (n + 1) (used + cost) of
           (ls, u, e) \<Rightarrow> (\<lparr>li_Number = idx + 1, li_Anchor = lineAnchor t, li_Text = t\<rparr> # ls, u, e))
      else ([], used, idx))"

definition read_result :: "(string \<Rightarrow> string) \<Rightarrow> string \<Rightarrow> int \<Rightarrow> int \<Rightarrow> int \<Rightarrow> ReadResult" where
  "read_result sha raw offset lineLimit byteLimit =
     (let hash = sha raw; binary = isBinary raw;
          base = \<lparr>rr_SHA256 = hash, rr_HashChunks = hashChunks hash, rr_Binary = binary, rr_Content = [],
            rr_Data = [], rr_Lines = [], rr_TotalLines = 0, rr_Offset = offset, rr_NextOffset = 0,
            rr_Newline = (if binary then [] else newlineConvention raw),
            rr_FinalNewline = (\<not> binary \<and> HasSuffix raw [LF]), rr_Truncated = False, rr_ReturnedBytes = 0\<rparr>
      in if binary then
           (let s = min (nat (offset - 1)) (length raw); e = min (s + nat byteLimit) (length raw);
                d = take (e - s) (drop s raw);
                r = base\<lparr>rr_Data := d, rr_ReturnedBytes := int (length d)\<rparr> in
            if e < length raw then r\<lparr>rr_NextOffset := int e + 1, rr_Truncated := True\<rparr> else r)
         else
           (let texts = splitTextLines (normalizeLF raw); base' = base\<lparr>rr_TotalLines := length texts\<rparr> in
            if offset > int (length texts) then base'
            else (case page_loop lineLimit byteLimit (drop (nat (offset - 1)) texts) (nat (offset - 1)) 0 0 of
                (ls, used, endIndex) \<Rightarrow>
                  (let r = base'\<lparr>rr_Lines := ls, rr_Content := Join [LF] (map li_Text ls), rr_ReturnedBytes := used\<rparr> in
                   if endIndex < length texts then r\<lparr>rr_NextOffset := int endIndex + 1, rr_Truncated := True\<rparr> else r))))"

text \<open>Open, read at most one byte more than the cap, close: shared by reads and writes.\<close>

definition load :: "svc \<Rightarrow> (nat \<Rightarrow> bool) \<Rightarrow> string \<Rightarrow> string \<Rightarrow> os \<Rightarrow> (call_error + string) \<times> os" where
  "load s ctx_err name growMsg st =
     (case os_open name st of
        (Inl e, st1) \<Rightarrow> (Inl (FsErr (rootError ''read'' name (path_error_text ''openat'' name e) e)), st1)
      | (Inr fd, st1) \<Rightarrow>
          (case os_read fd (nat (WholeFileBytes (limits s) + 1)) st1 of (readR, st2) \<Rightarrow>
            (case os_close fd st2 of (closeR, st3) \<Rightarrow>
              (case readR of
                 Inl e \<Rightarrow> (Inl (FsErr (rootError ''read'' name (path_error_text ''read'' name e) e)), st3)
               | Inr raw \<Rightarrow>
                   (case closeR of
                      Inl e \<Rightarrow> (Inl (FsErr (rootError ''read'' name (path_error_text ''close'' name e) e)), st3)
                    | Inr _ \<Rightarrow>
                        if int (length raw) > WholeFileBytes (limits s) then
                          (Inl (FsErr (FsError CodeLimit ''read'' name growMsg)), st3)
                        else if ctx_err (clock st3) then (Inl ContextErr, st3)
                        else (Inr raw, st3))))))"

definition Read :: "(string \<Rightarrow> string) \<Rightarrow> svc \<Rightarrow> (nat \<Rightarrow> bool) \<Rightarrow> ReadRequest \<Rightarrow> os \<Rightarrow> (call_error + ReadResult) \<times> os" where
  "Read sha s ctx_err rq st =
     (case begin_op s ctx_err (clock st) ''read'' of
        Some e \<Rightarrow> (Inl e, st)
      | None \<Rightarrow>
     (case cleanPath (rq_Path rq) False of
        Inl e \<Rightarrow> (Inl (FsErr e), st)
      | Inr name \<Rightarrow>
          let offset = (if rq_Offset rq = 0 then 1 else rq_Offset rq) in
          if offset < 1 then (Inl (FsErr (FsError CodeInvalidInput ''read'' name ''offset must be 1-based'')), st)
          else (case lowerInt ''limit'' (ReadLines (limits s)) (rq_Limit rq) of
              Inl e \<Rightarrow> (Inl (FsErr e), st)
            | Inr lineLimit \<Rightarrow>
          (case lowerInt ''max_bytes'' (ReadBytes (limits s)) (rq_MaxBytes rq) of
              Inl e \<Rightarrow> (Inl (FsErr e), st)
            | Inr byteLimit \<Rightarrow>
          (case os_stat name st of
              (Inl e, st1) \<Rightarrow> (Inl (FsErr (rootError ''read'' name (path_error_text ''statat'' name e) e)), st1)
            | (Inr info, st1) \<Rightarrow>
                (case fi_node info of
                   File i \<Rightarrow>
                     if int (fi_size info) > WholeFileBytes (limits s) then
                       (Inl (FsErr (FsError CodeLimit ''read'' name ''file size exceeds whole-file cap'')), st1)
                     else (case load s ctx_err name ''file grew beyond whole-file cap while reading'' st1 of
                         (Inl e, st2) \<Rightarrow> (Inl e, st2)
                       | (Inr raw, st2) \<Rightarrow> (Inr (read_result sha raw offset lineLimit byteLimit), st2))
                 | _ \<Rightarrow> (Inl (FsErr (FsError CodeInvalidInput ''read'' name ''path is not a regular file'')), st1)))))))"

section \<open>Guarded writes and edits\<close>

text \<open>\<open>readExisting\<close>: \<open>None\<close> when there is no such file, else its content and mode.\<close>

definition readExisting :: "svc \<Rightarrow> (nat \<Rightarrow> bool) \<Rightarrow> string \<Rightarrow> os \<Rightarrow> (call_error + (string \<times> FileMode) option) \<times> os" where
  "readExisting s ctx_err name st =
     (case os_lstat name st of
        (Inl e, st1) \<Rightarrow>
          if e = ErrNotExist then (Inr None, st1)
          else (Inl (FsErr (rootError ''stat'' name (path_error_text ''lstatat'' name e) e)), st1)
      | (Inr info, st1) \<Rightarrow>
          (case fi_node info of
             Symlink t \<Rightarrow> (Inl (FsErr (FsError CodePermission ''write'' name ''refusing to replace a symlink'')), st1)
           | Directory \<Rightarrow> (Inl (FsErr (FsError CodeInvalidInput ''write'' name ''target is not a regular file'')), st1)
           | File i \<Rightarrow>
               if int (fi_size info) > WholeFileBytes (limits s) then
                 (Inl (FsErr (FsError CodeLimit ''write'' name ''existing file exceeds whole-file cap'')), st1)
               else (case load s ctx_err name ''file grew beyond whole-file cap'' st1 of
                   (Inl e, st2) \<Rightarrow> (Inl e, st2)
                 | (Inr data, st2) \<Rightarrow> (Inr (Some (data, fi_mode info)), st2))))"

definition atomicWrite ::
  "(nat \<Rightarrow> bool) \<Rightarrow> string option \<Rightarrow> string \<Rightarrow> string \<Rightarrow> FileMode \<Rightarrow> bool \<Rightarrow> bool \<Rightarrow> os \<Rightarrow> (call_error + unit) \<times> os" where
  "atomicWrite ctx_err random name bytes permissions exactMode createOnly st =
     (if ctx_err (clock st) then (Inl ContextErr, st)
      else (case WriteFileAtomicOpts name bytes permissions \<lparr>ExactMode = exactMode, CreateOnly = createOnly\<rparr> random st of
          (Inl e, st1) \<Rightarrow> (Inl (FsErr (writer_error ''write'' name e)), st1)
        | (Inr _, st1) \<Rightarrow> (Inr (), st1)))"

datatype WriteMode = WriteDefault | WriteOverwrite | WriteCreateOnly | WriteUnknown string

record WriteRequest =
  wr_Path :: string
  wr_Data :: "string option"
  wr_Content :: string
  wr_Mode :: WriteMode
  wr_CreateOnly :: bool
  wr_ExpectedSHA256 :: string
  wr_Permissions :: "32 word option"

record WriteResult =
  ws_Path :: string
  ws_OldSHA256 :: string
  ws_NewSHA256 :: string
  ws_Changed :: bool
  ws_Status :: string
  ws_Bytes :: nat
  ws_Mode :: "32 word"

definition write_mode :: "WriteRequest \<Rightarrow> WriteMode" where
  "write_mode rq =
     (if wr_CreateOnly rq then WriteCreateOnly
      else (case wr_Mode rq of WriteDefault \<Rightarrow> WriteOverwrite | m \<Rightarrow> m))"

text \<open>The checks of a write request that need no file system.\<close>

definition check_write :: "svc \<Rightarrow> string \<Rightarrow> string \<Rightarrow> WriteRequest \<Rightarrow> fs_error option" where
  "check_write s name bytes rq =
     (if int (length bytes) > WholeFileBytes (limits s) then
        Some (FsError CodeLimit ''write'' name ''content exceeds whole-file cap'')
      else if write_mode rq \<noteq> WriteOverwrite \<and> write_mode rq \<noteq> WriteCreateOnly then
        Some (FsError CodeInvalidInput ''write'' name ''unknown write mode'')
      else (case validateExpectedHash (wr_ExpectedSHA256 rq) of
          Some e \<Rightarrow> Some e
        | None \<Rightarrow> (case wr_Permissions rq of
              Some p \<Rightarrow> if 0xFFF < p then Some (FsError CodeInvalidInput ''write'' name ''permissions exceed 07777'') else None
            | None \<Rightarrow> None)))"

text \<open>What to do about the file that is there: the early returns between reading and writing.\<close>

datatype decision = Refuse call_error | Unchanged | Proceed

definition decide_write :: "(string \<Rightarrow> string) \<Rightarrow> string \<Rightarrow> string \<Rightarrow> WriteRequest \<Rightarrow> (string \<times> FileMode) option \<Rightarrow> decision" where
  "decide_write sha name bytes rq existing =
     (case existing of
        Some (old, m) \<Rightarrow>
          (case matchExpected name (sha old) (wr_ExpectedSHA256 rq) of
             Some e \<Rightarrow> Refuse (FsErr e)
           | None \<Rightarrow>
               let sameMode = (case wr_Permissions rq of None \<Rightarrow> True | Some p \<Rightarrow> modeToUnix m = p) in
               if old = bytes \<and> sameMode then Unchanged
               else if write_mode rq = WriteCreateOnly then
                 Refuse (FsErr (FsError CodeConflict ''write'' name ''create-only target already exists''))
               else Proceed)
      | None \<Rightarrow>
          if wr_ExpectedSHA256 rq \<noteq> [] then
            Refuse (FsErr (FsError CodeConflict ''write'' name ''expected hash supplied for missing file''))
          else Proceed)"

definition write_permissions :: "WriteRequest \<Rightarrow> (string \<times> FileMode) option \<Rightarrow> FileMode" where
  "write_permissions rq existing =
     (case wr_Permissions rq of
        Some p \<Rightarrow> unixMode p
      | None \<Rightarrow> (case existing of Some (old, m) \<Rightarrow> preservedFileMode m | None \<Rightarrow> 0x1B6))"

text \<open>The second half of \<open>Write\<close>, once the existing file is known.\<close>

definition finish_write ::
  "(string \<Rightarrow> string) \<Rightarrow> (nat \<Rightarrow> bool) \<Rightarrow> string option \<Rightarrow> string \<Rightarrow> string \<Rightarrow> WriteRequest \<Rightarrow>
   (string \<times> FileMode) option \<Rightarrow> os \<Rightarrow> (call_error + WriteResult) \<times> os" where
  "finish_write sha ctx_err random name bytes rq existing st1 =
     (let oldHash = (case existing of Some (old, m) \<Rightarrow> sha old | None \<Rightarrow> []);
          oldMode = (case existing of Some (old, m) \<Rightarrow> m | None \<Rightarrow> 0) in
      (case decide_write sha name bytes rq existing of
         Refuse e \<Rightarrow> (Inl e, st1)
       | Unchanged \<Rightarrow>
           (Inr \<lparr>ws_Path = name, ws_OldSHA256 = oldHash, ws_NewSHA256 = oldHash, ws_Changed = False,
              ws_Status = ''unchanged'', ws_Bytes = length bytes, ws_Mode = modeToUnix oldMode\<rparr>, st1)
       | Proceed \<Rightarrow>
           if ctx_err (clock st1) then (Inl ContextErr, st1)
           else
             (case atomicWrite ctx_err random name bytes (write_permissions rq existing)
                     (existing \<noteq> None \<or> wr_Permissions rq \<noteq> None) (write_mode rq = WriteCreateOnly) st1 of
                (Inl e, st2) \<Rightarrow> (Inl e, st2)
              | (Inr _, st2) \<Rightarrow>
                  (case os_lstat name st2 of
                     (Inl e, st3) \<Rightarrow> (Inl (FsErr (rootError ''stat'' name (path_error_text ''lstatat'' name e) e)), st3)
                   | (Inr info, st3) \<Rightarrow>
                       (Inr \<lparr>ws_Path = name, ws_OldSHA256 = oldHash, ws_NewSHA256 = sha bytes, ws_Changed = True,
                          ws_Status = (if existing \<noteq> None then ''updated'' else ''created''),
                          ws_Bytes = length bytes, ws_Mode = modeToUnix (fi_mode info)\<rparr>, st3)))))"

definition write_bytes :: "WriteRequest \<Rightarrow> string" where
  "write_bytes rq = (case wr_Data rq of Some d \<Rightarrow> d | None \<Rightarrow> wr_Content rq)"

definition Write ::
  "(string \<Rightarrow> string) \<Rightarrow> svc \<Rightarrow> (nat \<Rightarrow> bool) \<Rightarrow> string option \<Rightarrow> WriteRequest \<Rightarrow> os \<Rightarrow> (call_error + WriteResult) \<times> os" where
  "Write sha s ctx_err random rq st =
     (case begin_op s ctx_err (clock st) ''write'' of
        Some e \<Rightarrow> (Inl e, st)
      | None \<Rightarrow>
     (case cleanPath (wr_Path rq) False of
        Inl e \<Rightarrow> (Inl (FsErr e), st)
      | Inr name \<Rightarrow>
          (case check_write s name (write_bytes rq) rq of
             Some e \<Rightarrow> (Inl (FsErr e), st)
           | None \<Rightarrow>
          (case readExisting s ctx_err name st of
             (Inl e, st1) \<Rightarrow> (Inl e, st1)
           | (Inr existing, st1) \<Rightarrow> finish_write sha ctx_err random name (write_bytes rq) rq existing st1))))"

record EditRequest =
  er_Path :: string
  er_ExpectedSHA256 :: string
  er_Replace :: "(string \<times> string) option"    \<comment> \<open>old, new\<close>
  er_OldText :: string
  er_NewText :: string
  er_Edits :: "HashlineEdit list"

record EditResult =
  es_Path :: string
  es_OldSHA256 :: string
  es_NewSHA256 :: string
  es_Changed :: bool
  es_Status :: string

text \<open>The text transformation of \<open>Edit\<close>, from raw bytes to raw bytes.\<close>

definition edit_bytes :: "string \<Rightarrow> EditRequest \<Rightarrow> string \<Rightarrow> fs_error + string" where
  "edit_bytes name rq raw =
     (let newline = newlineConvention raw; finalNewline = HasSuffix raw [LF];
          normalized = (if finalNewline then TrimSuffix (normalizeLF raw) [LF] else normalizeLF raw);
          hasHashline = (er_Edits rq \<noteq> []) in
      if hasHashline \<and> raw = [] then Inl (FsError CodeConflict ''edit'' name ''empty snapshot has no hashline anchors'')
      else rbind (if hasHashline then applyHashlineEdits normalized (er_Edits rq)
                  else (case er_Replace rq of
                      None \<Rightarrow> applyUniqueReplacement normalized (er_OldText rq) (er_NewText rq)
                    | Some (old, new) \<Rightarrow> applyUniqueReplacement normalized old new))
        (\<lambda>edited.
          let edited' = (if finalNewline then edited @ [LF] else TrimRightP (\<lambda>c. c = LF) edited) in
          Inr (if newline = CRLF then ReplaceAll edited' [LF] CRLF else edited')))"

definition check_edit :: "string \<Rightarrow> EditRequest \<Rightarrow> fs_error option" where
  "check_edit name rq =
     (case validateExpectedHash (er_ExpectedSHA256 rq) of
        Some e \<Rightarrow> Some e
      | None \<Rightarrow>
          let hasHashline = (er_Edits rq \<noteq> []); hasReplace = (er_Replace rq \<noteq> None \<or> er_OldText rq \<noteq> []) in
          if hasHashline = hasReplace then
            Some (FsError CodeInvalidInput ''edit'' name ''select exactly one replacement style'')
          else if hasHashline \<and> er_ExpectedSHA256 rq = [] then
            Some (FsError CodeInvalidInput ''edit'' name ''hashline edits require expected_sha256'')
          else None)"

text \<open>From the snapshot to the bytes to install: every check of \<open>Edit\<close> in between.\<close>

definition plan_edit :: "(string \<Rightarrow> string) \<Rightarrow> svc \<Rightarrow> string \<Rightarrow> EditRequest \<Rightarrow> string \<Rightarrow> fs_error + string" where
  "plan_edit sha s name rq raw =
     (if isBinary raw then Inl (FsError CodeInvalidInput ''edit'' name ''binary files cannot be text-edited'')
      else (case matchExpected name (sha raw) (er_ExpectedSHA256 rq) of
          Some e \<Rightarrow> Inl e
        | None \<Rightarrow> rbind (edit_bytes name rq raw) (\<lambda>newRaw.
            if int (length newRaw) > WholeFileBytes (limits s) then
              Inl (FsError CodeLimit ''edit'' name ''edited file exceeds whole-file cap'')
            else Inr newRaw)))"

definition Edit ::
  "(string \<Rightarrow> string) \<Rightarrow> svc \<Rightarrow> (nat \<Rightarrow> bool) \<Rightarrow> string option \<Rightarrow> EditRequest \<Rightarrow> os \<Rightarrow> (call_error + EditResult) \<times> os" where
  "Edit sha s ctx_err random rq st =
     (case begin_op s ctx_err (clock st) ''edit'' of
        Some e \<Rightarrow> (Inl e, st)
      | None \<Rightarrow>
     (case cleanPath (er_Path rq) False of
        Inl e \<Rightarrow> (Inl (FsErr e), st)
      | Inr name \<Rightarrow>
     (case check_edit name rq of
        Some e \<Rightarrow> (Inl (FsErr e), st)
      | None \<Rightarrow>
     (case readExisting s ctx_err name st of
        (Inl e, st1) \<Rightarrow> (Inl e, st1)
      | (Inr None, st1) \<Rightarrow> (Inl (FsErr (FsError CodeNotFound ''edit'' name ''path not found'')), st1)
      | (Inr (Some (raw, m)), st1) \<Rightarrow>
          (case plan_edit sha s name rq raw of
             Inl e \<Rightarrow> (Inl (FsErr e), st1)
           | Inr newRaw \<Rightarrow>
               if sha newRaw = sha raw then
                 (Inr \<lparr>es_Path = name, es_OldSHA256 = sha raw, es_NewSHA256 = sha raw, es_Changed = False,
                    es_Status = ''unchanged''\<rparr>, st1)
               else if ctx_err (clock st1) then (Inl ContextErr, st1)
               else (case atomicWrite ctx_err random name newRaw (preservedFileMode m) True False st1 of
                   (Inl e, st2) \<Rightarrow> (Inl e, st2)
                 | (Inr _, st2) \<Rightarrow>
                     (Inr \<lparr>es_Path = name, es_OldSHA256 = sha raw, es_NewSHA256 = sha newRaw, es_Changed = True,
                        es_Status = ''updated''\<rparr>, st2)))))))"

section \<open>Lemmas\<close>

lemma cleanPath_shape:
  assumes "cleanPath name False = Inr clean"
  shows "clean = Clean (ReplaceAll name [BSLASH] [SLASH]) \<and> (below clean \<or> IsAbs clean)"
proof -
  let ?n = "ReplaceAll name [BSLASH] [SLASH]"
  have c: "clean = Clean ?n" "clean \<noteq> ''.''" "clean \<noteq> ''..''" "\<not> HasPrefix clean ''../''"
    using assms by (auto simp: cleanPath_def Let_def split: if_splits)
  show ?thesis
  proof (cases "IsAbs ?n")
    case True
    then show ?thesis using c(1) by (simp add: Clean_def IsAbs_def)
  next
    case False
    then show ?thesis using c Clean_below by blast
  qed
qed

lemma load_quiet:
  assumes "load s ctx name msg st = (r, st')"
  shows "quiet st st'"
proof -
  obtain r1 s1 where a: "os_open name st = (r1, s1)" by (metis surj_pair)
  have q1: "quiet st s1" using os_open_same [OF a] by (rule quiet_commit)
  show ?thesis
  proof (cases r1)
    case (Inl e)
    then show ?thesis using assms a q1 by (simp add: load_def)
  next
    case (Inr fd)
    obtain r2 s2 where b: "os_read fd (nat (WholeFileBytes (limits s) + 1)) s1 = (r2, s2)" by (metis surj_pair)
    obtain r3 s3 where c: "os_close fd s2 = (r3, s3)" by (metis surj_pair)
    have "quiet s1 s2" "quiet s2 s3"
      using os_read_same [OF b] os_close_same [OF c] by (simp_all only: quiet_commit)
    moreover have "st' = s3"
      using assms by (auto simp: load_def a b c Inr split: sum.splits if_splits)
    ultimately show ?thesis using q1 quiet_trans by blast
  qed
qed

lemma take_all_if_short: "int (length (take (nat (cap + 1)) c)) \<le> cap \<Longrightarrow> take (nat (cap + 1)) c = c"
  by (cases "0 \<le> cap") (auto simp: min_def split: if_splits)

lemma load_content:
  assumes "load s ctx name msg st = (Inr raw, st')" "names (dsk st) name = Some (File i)" "name \<noteq> ''.''"
  shows "\<exists>x. inodes (dsk st) i = Some x \<and> raw = content x"
proof -
  obtain r1 s1 where a: "os_open name st = (r1, s1)" by (metis surj_pair)
  then obtain fd where fd: "r1 = Inr fd" using assms(1) by (cases r1) (auto simp: load_def)
  have "follow 41 (dsk st) name = Inr name"
    using assms(2) by (simp add: eval_nat_numeral)
  then have i: "fd = i" "s1 = commit (dsk st) st"
    using a fd assms(2,3) by (auto simp: os_open_def root_node_def elim!: syscall_cases split: if_splits)
  obtain r2 s2 where b: "os_read i (nat (WholeFileBytes (limits s) + 1)) s1 = (r2, s2)" by (metis surj_pair)
  obtain r3 s3 where c: "os_close i s2 = (r3, s3)" by (metis surj_pair)
  have r: "r2 = Inr raw" "int (length raw) \<le> WholeFileBytes (limits s)"
    using assms(1) by (auto simp: load_def a b c fd i(1) split: sum.splits if_splits)
  from b obtain x where "inodes (dsk st) i = Some x" "raw = take (nat (WholeFileBytes (limits s) + 1)) (content x)"
    using r(1) unfolding os_read_def i(2) by (auto elim!: syscall_cases split: option.splits)
  with r(2) take_all_if_short show ?thesis by simp
qed

lemma readExisting_quiet:
  assumes "readExisting s ctx name st = (r, st')"
  shows "quiet st st'"
proof -
  obtain r1 s1 where a: "os_lstat name st = (r1, s1)" by (metis surj_pair)
  have q1: "quiet st s1" using os_lstat_same [OF a] by (rule quiet_commit)
  show ?thesis
  proof (cases r1)
    case (Inl e)
    then show ?thesis using assms q1 by (auto simp: readExisting_def a split: if_splits)
  next
    case (Inr info)
    obtain r2 s2 where b: "load s ctx name ''file grew beyond whole-file cap'' s1 = (r2, s2)" by (metis surj_pair)
    have "quiet s1 s2" using load_quiet [OF b] .
    then have "quiet st s2" using q1 quiet_trans by blast
    moreover have "st' = s1 \<or> st' = s2"
      using assms by (auto simp: readExisting_def a b Inr split: node.splits sum.splits if_splits)
    ultimately show ?thesis using q1 by blast
  qed
qed

lemma readExisting_some:
  assumes "readExisting s ctx name st = (Inr (Some (raw, m)), st')" "below name"
  shows "see (dsk st) name = AFile raw m"
proof -
  obtain r1 s1 where a: "os_lstat name st = (r1, s1)" by (metis surj_pair)
  obtain info where info: "r1 = Inr info" using assms(1) by (cases r1) (auto simp: readExisting_def a split: if_splits)
  have s1: "dsk s1 = dsk st" using os_lstat_same [OF a] by simp
  have nd: "name \<noteq> ''.''" using below_not_special [OF assms(2)] by simp
  obtain i where i: "fi_node info = File i"
    using assms(1) by (auto simp: readExisting_def a info split: node.splits)
  have m: "m = fi_mode info" and l: "load s ctx name ''file grew beyond whole-file cap'' s1 = (Inr raw, st')"
    using assms(1) by (auto simp: readExisting_def a info i split: sum.splits if_splits prod.splits)
  from a have nm: "names (dsk st) name = Some (File i)" "\<exists>x. inodes (dsk st) i = Some x \<and> fi_mode info = mode x"
    using info i nd
    by (auto simp: os_lstat_def root_node_def file_info_def elim!: syscall_cases
        split: option.splits node.splits sum.splits if_splits)
  then show ?thesis
    using load_content [OF l _ nd, of i] m by (auto simp: s1 see_def)
qed

lemma readExisting_some_rel:
  "readExisting s ctx name st = (Inr (Some x), st') \<Longrightarrow> \<not> IsAbs name"
  by (auto simp: readExisting_def os_lstat_def syscall_def split: option.splits if_splits sum.splits prod.splits)

text \<open>The temporary name of a service write.\<close>

definition service_temps :: "string option \<Rightarrow> string \<Rightarrow> string set" where
  "service_temps random T = (case random of None \<Rightarrow> {} | Some noise \<Rightarrow> {cozy_temp T noise})"

lemma temps_opts_service: "temps_opts (p, opts, random) T = service_temps random T"
  by (simp add: temps_opts_def service_temps_def split: option.split)

lemma cleanRelative_cleaned:
  "below name \<or> IsAbs name \<Longrightarrow> cleanRelative name False = Inr T \<Longrightarrow> T = name"
  using Clean_below_id by (auto simp: cleanRelative_def Let_def split: if_splits)

lemma write_view_refl [simp]: "write_view tmps T data m d d"
  by (simp add: write_view_def)

lemma atomicWrite_spec:
  assumes "atomicWrite ctx random name bytes perm exact co st = (r, st')" "disk_ok (next_ino st) (dsk st)"
    "below name \<or> IsAbs name" "name \<notin> service_temps random name"
  shows "\<exists>m. (exact \<longrightarrow> m = perm) \<and> write_view (service_temps random name) name bytes m (dsk st) (dsk st') \<and>
    logged (write_view (service_temps random name) name bytes m (dsk st)) st st' \<and>
    (isOk r \<longrightarrow> see (dsk st') name = AFile bytes m) \<and>
    (co \<and> see (dsk st) name \<noteq> Absent \<longrightarrow> \<not> isOk r \<and> logged (\<lambda>d. see d name = see (dsk st) name) st st')"
proof (cases "ctx (clock st)")
  case True
  then have "r = Inl ContextErr" "st' = st" using assms(1) by (simp_all add: atomicWrite_def)
  then show ?thesis by (intro exI [of _ perm]) simp
next
  case False
  let ?o = "\<lparr>ExactMode = exact, CreateOnly = co\<rparr>"
  obtain r1 s1 where w: "WriteFileAtomicOpts name bytes perm ?o random st = (r1, s1)" by (metis surj_pair)
  have st': "st' = s1" "isOk r \<longleftrightarrow> isOk r1"
    using assms(1) False w by (auto simp: atomicWrite_def split: sum.splits)
  show ?thesis
  proof (cases "cleanRelative name False")
    case (Inl e)
    then have "s1 = st" "\<not> isOk r1" using w by (auto simp: WriteFileAtomicOpts_def)
    then show ?thesis using st' by (intro exI [of _ perm]) simp
  next
    case (Inr T)
    then have T: "cleanRelative name False = Inr name" using cleanRelative_cleaned [OF assms(3) Inr] by simp
    have nt: "name \<notin> temps_opts (perm, ?o, random) name" using assms(4) by (simp add: temps_opts_service)
    from write_opts_atomic [OF w assms(2) T nt] show ?thesis
      unfolding st' temps_opts_service by auto
  qed
qed

lemma matchExpected_None: "matchExpected name actual expected = None \<longleftrightarrow> expected = [] \<or> HasPrefix actual (ToLower expected)"
  by (simp add: matchExpected_def)

text \<open>What an edit may show at its target: the old file, or the planned new one.\<close>

definition edit_view :: "(string \<Rightarrow> string) \<Rightarrow> svc \<Rightarrow> string \<Rightarrow> EditRequest \<Rightarrow> obs \<Rightarrow> obs \<Rightarrow> bool" where
  "edit_view sha s name rq old v \<longleftrightarrow> v = old \<or>
     (\<exists>raw m new. old = AFile raw m \<and> plan_edit sha s name rq raw = Inr new \<and> v = AFile new (preservedFileMode m))"

lemma Edit_steps:
  assumes "Edit sha s ctx random rq st = (r, st')" "disk_ok (next_ino st) (dsk st)"
    "cleanPath (er_Path rq) False = Inr name" "name \<notin> service_temps random name"
  shows "logged (\<lambda>d. edit_view sha s name rq (see (dsk st) name) (see d name)) st st' \<and>
    edit_view sha s name rq (see (dsk st) name) (see (dsk st') name) \<and>
    (\<forall>res. r = Inr res \<longrightarrow> (\<exists>raw m new. see (dsk st) name = AFile raw m \<and> plan_edit sha s name rq raw = Inr new \<and>
       es_OldSHA256 res = sha raw \<and> es_NewSHA256 res = sha new \<and>
       (if es_Changed res then see (dsk st') name = AFile new (preservedFileMode m) else dsk st' = dsk st)))"
proof -
  let ?V = "\<lambda>d. edit_view sha s name rq (see (dsk st) name) (see d name)"
  have base: ?thesis if "quiet st st'" "\<not> isOk r"
    using that by (auto simp: edit_view_def quiet_def intro: logged_mono)
  show ?thesis
  proof (cases "begin_op s ctx (clock st) ''edit'' = None \<and> check_edit name rq = None")
    case False
    then have "st' = st" "\<not> isOk r" using assms(1,3) by (auto simp: Edit_def split: option.splits)
    then show ?thesis using base by simp
  next
    case pre: True
    obtain r1 s1 where re: "readExisting s ctx name st = (r1, s1)" by (metis surj_pair)
    have q: "quiet st s1" using readExisting_quiet [OF re] .
    show ?thesis
    proof (cases "\<exists>raw m. r1 = Inr (Some (raw, m))")
      case False
      then have "st' = s1" "\<not> isOk r"
        using assms(1,3) pre re by (auto simp: Edit_def split: sum.splits option.splits)
      then show ?thesis using base q by simp
    next
      case True
      then obtain raw m where rm: "r1 = Inr (Some (raw, m))" by blast
      have b: "below name"
        using cleanPath_shape [OF assms(3)] readExisting_some_rel [OF re [unfolded rm]] by blast
      have old: "see (dsk st) name = AFile raw m" using readExisting_some [OF re [unfolded rm] b] .
      show ?thesis
      proof (cases "plan_edit sha s name rq raw")
        case (Inl e)
        then have "st' = s1" "\<not> isOk r" using assms(1,3) pre re rm by (auto simp: Edit_def)
        then show ?thesis using base q by simp
      next
        case (Inr new)
        show ?thesis
        proof (cases "sha new = sha raw \<or> ctx (clock s1)")
          case True
          then have "st' = s1" "r = Inl ContextErr \<or> (\<exists>res. r = Inr res \<and> es_OldSHA256 res = sha raw \<and>
              es_NewSHA256 res = sha new \<and> \<not> es_Changed res)"
            using assms(1,3) pre re rm Inr by (auto simp: Edit_def split: if_splits)
          then show ?thesis using q old Inr
            by (auto simp: edit_view_def quiet_def intro: logged_mono)
        next
          case False
          obtain r2 s2 where aw: "atomicWrite ctx random name new (preservedFileMode m) True False s1 = (r2, s2)"
            by (metis surj_pair)
          have fin: "st' = s2" "isOk r \<longleftrightarrow> isOk r2"
              "isOk r2 \<longrightarrow> (\<exists>res. r = Inr res \<and> es_OldSHA256 res = sha raw \<and> es_NewSHA256 res = sha new \<and> es_Changed res)"
            using assms(1,3) pre re rm Inr False aw by (auto simp: Edit_def split: sum.splits)
          have d1: "dsk s1 = dsk st" using q by (simp add: quiet_def)
          obtain m2 where m2: "m2 = preservedFileMode m"
            "write_view (service_temps random name) name new m2 (dsk st) (dsk s2)"
            "logged (write_view (service_temps random name) name new m2 (dsk st)) s1 s2"
            "isOk r2 \<longrightarrow> see (dsk s2) name = AFile new m2"
            using atomicWrite_spec [OF aw quiet_ok [OF q assms(2)] _ assms(4)] b d1 by auto
          have V: "?V d" if "write_view (service_temps random name) name new m2 (dsk st) d" for d
            using that assms(4) old Inr m2(1) by (auto simp: write_view_def edit_view_def)
          have "logged ?V s1 s2" using m2(3) V by (rule logged_mono)
          moreover have "logged ?V st s1" using q by (rule logged_quiet) (simp add: edit_view_def)
          ultimately have "logged ?V st s2" using logged_trans by blast
          then show ?thesis
            using V [OF m2(2)] fin m2(1,4) old Inr by (cases r) (auto simp: fin(1))
        qed
      qed
    qed
  qed
qed

lemma plan_edit_guard:
  "plan_edit sha s name rq raw = Inr new \<Longrightarrow>
   \<not> isBinary raw \<and> (er_ExpectedSHA256 rq = [] \<or> HasPrefix (sha raw) (ToLower (er_ExpectedSHA256 rq))) \<and>
   edit_bytes name rq raw = Inr new \<and> int (length new) \<le> WholeFileBytes (limits s)"
  by (auto simp: plan_edit_def result_simps matchExpected_None split: if_splits option.splits)

section \<open>Properties\<close>

text \<open>
  Claim C6: an edit is atomic and guarded.  At every crash point and under any faults the
  target shows the old file or exactly the planned text with the preserved mode; the plan
  was made from the content that was there, which is text, matches the expected hash prefix
  and stays within the size cap; on success the reported hashes are those of the old and
  new content and, unless nothing changed, the new content is installed.
\<close>

theorem Edit_atomic_guarded:
  assumes "Edit sha s ctx random rq st = (r, st')" "disk_ok (next_ino st) (dsk st)"
    "cleanPath (er_Path rq) False = Inr name" "name \<notin> service_temps random name"
  shows "logged (\<lambda>d. edit_view sha s name rq (see (dsk st) name) (see d name)) st st' \<and>
    (\<forall>res. r = Inr res \<longrightarrow> (\<exists>raw m new. see (dsk st) name = AFile raw m \<and> \<not> isBinary raw \<and>
       (er_ExpectedSHA256 rq = [] \<or> HasPrefix (sha raw) (ToLower (er_ExpectedSHA256 rq))) \<and>
       edit_bytes name rq raw = Inr new \<and> int (length new) \<le> WholeFileBytes (limits s) \<and>
       es_OldSHA256 res = sha raw \<and> es_NewSHA256 res = sha new \<and>
       (if es_Changed res then see (dsk st') name = AFile new (preservedFileMode m) else dsk st' = dsk st)))"
  using Edit_steps [OF assms] plan_edit_guard by fastforce

text \<open>A toy hash for examples only; the theorems hold for every \<open>sha\<close>.\<close>

definition example_sha :: "string \<Rightarrow> string" where
  "example_sha x = Itoa (int (length x) + 1000)"

definition example_svc :: svc where
  "example_svc = \<lparr>limits = DefaultLimits, closed = False\<rparr>"

definition example_edit :: EditRequest where
  "example_edit = \<lparr>er_Path = ''f'', er_ExpectedSHA256 = [], er_Replace = Some (''l'', ''i''), er_OldText = [],
     er_NewText = [], er_Edits = []\<rparr>"

lemma example_clean: "cleanPath ''f'' False = Inr ''f''" by code_simp

lemma example_service_temps: "''f'' \<notin> service_temps (Some ''00'') ''f''"
  using example_temps by (simp add: temps_opts_service)

lemma example_plan: "plan_edit example_sha example_svc ''f'' (example_edit\<lparr>er_Replace := Some (''l'', ''ll'')\<rparr>) ''old'' = Inr ''olld''"
  by code_simp

lemma example_check: "check_edit ''f'' (example_edit\<lparr>er_Replace := Some (''l'', ''ll'')\<rparr>) = None" by code_simp

lemma example_shas: "example_sha ''olld'' = ''1004''" "example_sha ''old'' = ''1003''" by code_simp+

lemma example_preserved: "preservedFileMode 0x1B6 = 0x1B6" by code_simp

lemmas service_run_defs = run_defs readExisting_def load_def os_open_def os_read_def begin_op_def atomicWrite_def

definition never :: "nat \<Rightarrow> bool" where "never n = False"

lemma example_svc_facts: "limits example_svc = DefaultLimits" "\<not> closed example_svc"
    "WholeFileBytes DefaultLimits = 8388608"
  by (simp_all add: example_svc_def DefaultLimits_def)

lemma follow_file: "names d name = Some (File i) \<Longrightarrow> follow 41 d name = Inr name"
  by (simp add: eval_nat_numeral)

lemma example_edit_run:
  "\<exists>st'. Edit example_sha example_svc never (Some ''00'') (example_edit\<lparr>er_Replace := Some (''l'', ''ll'')\<rparr>) (machine no_faults 0x12)
    = (Inr \<lparr>es_Path = ''f'', es_OldSHA256 = ''1003'', es_NewSHA256 = ''1004'', es_Changed = True, es_Status = ''updated''\<rparr>, st')"
proof -
  have p: "er_Path (example_edit\<lparr>er_Replace := Some (''l'', ''ll'')\<rparr>) = ''f''" by (simp add: example_edit_def)
  show ?thesis
    unfolding Edit_def p
    by (simp add: example_clean example_check service_run_defs machine_def no_faults_def never_def abs_f clean_f
        path_facts example_plan example_shas example_preserved example_svc_facts follow_file)
qed

theorem Edit_atomic_guarded_witness:
  "\<exists>st' m. see (dsk st') ''f'' = AFile ''olld'' m \<and>
     logged (\<lambda>d. see d ''f'' = AFile ''old'' 0x1B6 \<or> (\<exists>m. see d ''f'' = AFile ''olld'' m)) (machine no_faults 0x12) st'"
proof -
  let ?rq = "example_edit\<lparr>er_Replace := Some (''l'', ''ll'')\<rparr>"
  obtain st' where st': "Edit example_sha example_svc never (Some ''00'') ?rq (machine no_faults 0x12)
    = (Inr \<lparr>es_Path = ''f'', es_OldSHA256 = ''1003'', es_NewSHA256 = ''1004'', es_Changed = True, es_Status = ''updated''\<rparr>, st')"
    using example_edit_run by blast
  have c: "cleanPath (er_Path ?rq) False = Inr ''f''" using example_clean by (simp add: example_edit_def)
  have old: "see (dsk (machine no_faults 0x12)) ''f'' = AFile ''old'' 0x1B6" by (simp add: machine_def see_def)
  have e: "edit_bytes ''f'' ?rq ''old'' = Inr ''olld''" by code_simp
  from Edit_atomic_guarded [OF st' machine_ok c example_service_temps]
  have L: "logged (\<lambda>d. edit_view example_sha example_svc ''f'' ?rq (AFile ''old'' 0x1B6) (see d ''f'')) (machine no_faults 0x12) st'"
    and R: "see (dsk st') ''f'' = AFile ''olld'' (preservedFileMode 0x1B6)"
    unfolding old using e by auto
  show ?thesis
    using R logged_mono [OF L, of "\<lambda>d. see d ''f'' = AFile ''old'' 0x1B6 \<or> (\<exists>m. see d ''f'' = AFile ''olld'' m)"]
    by (auto simp: edit_view_def example_plan)
qed

text \<open>What a write may show at its target.\<close>

lemma decide_write_cases:
  "decide_write sha name bytes rq existing = Proceed \<Longrightarrow>
     (case existing of
        None \<Rightarrow> wr_ExpectedSHA256 rq = []
      | Some (old, m) \<Rightarrow> (wr_ExpectedSHA256 rq = [] \<or> HasPrefix (sha old) (ToLower (wr_ExpectedSHA256 rq))) \<and>
          write_mode rq \<noteq> WriteCreateOnly)"
  "decide_write sha name bytes rq existing = Unchanged \<Longrightarrow>
     \<exists>m. existing = Some (bytes, m) \<and> (wr_ExpectedSHA256 rq = [] \<or> HasPrefix (sha bytes) (ToLower (wr_ExpectedSHA256 rq)))"
  by (auto simp: decide_write_def Let_def matchExpected_None split: option.splits if_splits)

text \<open>The guard an accepted write has passed.\<close>

definition write_guard :: "(string \<Rightarrow> string) \<Rightarrow> WriteRequest \<Rightarrow> (string \<times> FileMode) option \<Rightarrow> bool" where
  "write_guard sha rq existing \<longleftrightarrow>
     (case existing of
        None \<Rightarrow> wr_ExpectedSHA256 rq = []
      | Some (old, m) \<Rightarrow> wr_ExpectedSHA256 rq = [] \<or> HasPrefix (sha old) (ToLower (wr_ExpectedSHA256 rq)))"

text \<open>What a write guarantees, in terms of the disk before (\<open>d0\<close>) and the states around it.\<close>

definition write_post ::
  "(string \<Rightarrow> string) \<Rightarrow> string set \<Rightarrow> string \<Rightarrow> WriteRequest \<Rightarrow> FileMode \<Rightarrow> os \<Rightarrow> (call_error + WriteResult) \<Rightarrow> os \<Rightarrow> bool" where
  "write_post sha tmps name rq m st r st' \<longleftrightarrow>
     logged (write_view tmps name (write_bytes rq) m (dsk st)) st st' \<and>
     (write_mode rq = WriteCreateOnly \<and> see (dsk st) name \<noteq> Absent \<longrightarrow> logged (\<lambda>d. see d name = see (dsk st) name) st st') \<and>
     (case r of
        Inl e \<Rightarrow> True
      | Inr res \<Rightarrow>
          (\<exists>existing. (case existing of None \<Rightarrow> True | Some (old, m0) \<Rightarrow> see (dsk st) name = AFile old m0) \<and>
             write_guard sha rq existing) \<and>
          (if ws_Changed res then see (dsk st') name = AFile (write_bytes rq) m
           else dsk st' = dsk st \<and> (\<exists>m0. see (dsk st) name = AFile (write_bytes rq) m0)))"

lemma write_post_quiet: "quiet st st' \<Longrightarrow> \<not> isOk r \<Longrightarrow> write_post sha tmps name rq m st r st'"
  by (cases r) (auto simp: write_post_def intro: logged_quiet)

lemma finish_write_post:
  assumes "finish_write sha ctx random name (write_bytes rq) rq existing s1 = (r, st')" "quiet st s1"
    "disk_ok (next_ino st) (dsk st)" "below name \<or> IsAbs name" "name \<notin> service_temps random name"
    and old: "\<And>raw m0. existing = Some (raw, m0) \<Longrightarrow> see (dsk st) name = AFile raw m0"
  shows "\<exists>m. write_post sha (service_temps random name) name rq m st r st' \<and>
    (\<forall>p. wr_Permissions rq = Some p \<longrightarrow> m = unixMode p)"
proof -
  let ?b = "write_bytes rq"
  let ?m0 = "case wr_Permissions rq of Some p \<Rightarrow> unixMode p | None \<Rightarrow> 0"
  have early: ?thesis if "quiet st st'" "\<not> isOk r"
    using write_post_quiet [OF that] by (intro exI [of _ ?m0]) simp
  show ?thesis
  proof (cases "decide_write sha name ?b rq existing")
    case (Refuse e)
    then show ?thesis using assms(1,2) early by (auto simp: finish_write_def Let_def)
  next
    case Unchanged
    then obtain m1 where e: "existing = Some (?b, m1)"
        "wr_ExpectedSHA256 rq = [] \<or> HasPrefix (sha ?b) (ToLower (wr_ExpectedSHA256 rq))"
      using decide_write_cases(2) by blast
    obtain res where res: "st' = s1" "r = Inr res" "\<not> ws_Changed res"
      using assms(1) Unchanged by (auto simp: finish_write_def Let_def)
    have w: "logged (write_view (service_temps random name) name ?b ?m0 (dsk st)) st s1"
        "logged (\<lambda>d. see d name = see (dsk st) name) st s1"
      by (rule logged_quiet [OF assms(2)], simp)+
    have g: "\<exists>existing. (case existing of None \<Rightarrow> True | Some (old, m0) \<Rightarrow> see (dsk st) name = AFile old m0) \<and>
        write_guard sha rq existing"
      using old [OF e(1)] e(2) by (intro exI [of _ "Some (?b, m1)"]) (simp add: write_guard_def)
    have "dsk s1 = dsk st" using assms(2) by (simp add: quiet_def)
    then have "write_post sha (service_temps random name) name rq ?m0 st r st'"
      unfolding write_post_def res(1,2) using w g old [OF e(1)] res(3) by simp
    then show ?thesis by (intro exI [of _ ?m0]) simp
  next
    case Proceed
    note guard = decide_write_cases(1) [OF Proceed]
    show ?thesis
    proof (cases "ctx (clock s1)")
      case True
      then show ?thesis using assms(1,2) Proceed early by (auto simp: finish_write_def Let_def)
    next
      case False
      obtain r2 s2 where aw: "atomicWrite ctx random name ?b (write_permissions rq existing)
          (existing \<noteq> None \<or> wr_Permissions rq \<noteq> None) (write_mode rq = WriteCreateOnly) s1 = (r2, s2)"
        by (metis surj_pair)
      obtain r3 s3 where ls: "os_lstat name s2 = (r3, s3)" by (metis surj_pair)
      have q3: "quiet s2 s3" using os_lstat_same [OF ls] by (rule quiet_commit)
      have fin: "st' = (if isOk r2 then s3 else s2)" "\<forall>res. r = Inr res \<longrightarrow> isOk r2 \<and> ws_Changed res"
        using assms(1) Proceed False aw ls by (auto simp: finish_write_def Let_def split: sum.splits)
      have d1: "dsk s1 = dsk st" using assms(2) by (simp add: quiet_def)
      obtain m where m: "existing \<noteq> None \<or> wr_Permissions rq \<noteq> None \<longrightarrow> m = write_permissions rq existing"
        "write_view (service_temps random name) name ?b m (dsk st) (dsk s2)"
        "logged (write_view (service_temps random name) name ?b m (dsk st)) s1 s2"
        "isOk r2 \<longrightarrow> see (dsk s2) name = AFile ?b m"
        "write_mode rq = WriteCreateOnly \<and> see (dsk st) name \<noteq> Absent \<longrightarrow>
           \<not> isOk r2 \<and> logged (\<lambda>d. see d name = see (dsk st) name) s1 s2"
        using atomicWrite_spec [OF aw quiet_ok [OF assms(2,3)] assms(4,5)] unfolding d1 by blast
      have tail: "quiet s2 st'" using fin(1) q3 by simp
      have L: "logged (write_view (service_temps random name) name ?b m (dsk st)) st st'"
        using logged_trans [OF logged_quiet [OF assms(2)] logged_trans [OF m(3) logged_quiet [OF tail]]] m(2) by simp
      have C: "write_mode rq = WriteCreateOnly \<and> see (dsk st) name \<noteq> Absent \<longrightarrow>
          logged (\<lambda>d. see d name = see (dsk st) name) st st'"
        using m(5) fin(1) logged_trans [OF logged_quiet [OF assms(2), of "\<lambda>d. see d name = see (dsk st) name"]] by simp
      have "dsk st' = dsk s2" using tail by (simp add: quiet_def)
      have g: "\<exists>existing. (case existing of None \<Rightarrow> True | Some (old, m0) \<Rightarrow> see (dsk st) name = AFile old m0) \<and>
          write_guard sha rq existing"
        using guard old by (intro exI [of _ existing]) (auto simp: write_guard_def split: option.splits)
      have "write_post sha (service_temps random name) name rq m st r st'"
        unfolding write_post_def using L C g fin(2) m(4) \<open>dsk st' = dsk s2\<close> by (cases r) simp_all
      then show ?thesis using m(1) by (intro exI [of _ m]) (auto simp: write_permissions_def)
    qed
  qed
qed

lemma Write_steps:
  assumes "Write sha s ctx random rq st = (r, st')" "disk_ok (next_ino st) (dsk st)"
    "cleanPath (wr_Path rq) False = Inr name" "name \<notin> service_temps random name"
  shows "\<exists>m. write_post sha (service_temps random name) name rq m st r st' \<and>
    (\<forall>p. wr_Permissions rq = Some p \<longrightarrow> m = unixMode p)"
proof -
  let ?m0 = "case wr_Permissions rq of Some p \<Rightarrow> unixMode p | None \<Rightarrow> 0"
  have early: ?thesis if "quiet st st'" "\<not> isOk r"
    using write_post_quiet [OF that] by (intro exI [of _ ?m0]) simp
  show ?thesis
  proof (cases "begin_op s ctx (clock st) ''write'' = None \<and> check_write s name (write_bytes rq) rq = None")
    case False
    then show ?thesis using assms(1,3) early by (auto simp: Write_def split: option.splits)
  next
    case pre: True
    obtain r1 s1 where re: "readExisting s ctx name st = (r1, s1)" by (metis surj_pair)
    note q = readExisting_quiet [OF re]
    show ?thesis
    proof (cases r1)
      case (Inl e)
      then show ?thesis using assms(1,3) pre re q early by (auto simp: Write_def)
    next
      case (Inr existing)
      have f: "finish_write sha ctx random name (write_bytes rq) rq existing s1 = (r, st')"
        using assms(1,3) pre re Inr by (simp add: Write_def)
      have old: "see (dsk st) name = AFile raw m0" if "existing = Some (raw, m0)" for raw m0
        using re Inr that cleanPath_shape [OF assms(3)] readExisting_some_rel readExisting_some by blast
      show ?thesis
        using finish_write_post [OF f q assms(2) _ assms(4) old] cleanPath_shape [OF assms(3)] by blast
    qed
  qed
qed

text \<open>
  Claim C7: a write is atomic and guarded.  Whatever fails, every crash point shows at the
  target the old state or the complete new bytes (other names at most gain parent
  directories); a create-only write never changes an existing target; a successful write
  has passed the expected-hash guard against the content that was there, has installed the
  bytes (with the requested permissions), or reports no change because they were there.
\<close>

theorem Write_atomic_guarded:
  assumes "Write sha s ctx random rq st = (r, st')" "disk_ok (next_ino st) (dsk st)"
    "cleanPath (wr_Path rq) False = Inr name" "name \<notin> service_temps random name"
  shows "\<exists>m. (\<forall>p. wr_Permissions rq = Some p \<longrightarrow> m = unixMode p) \<and>
    logged (write_view (service_temps random name) name (write_bytes rq) m (dsk st)) st st' \<and>
    (write_mode rq = WriteCreateOnly \<and> see (dsk st) name \<noteq> Absent \<longrightarrow> logged (\<lambda>d. see d name = see (dsk st) name) st st') \<and>
    (\<forall>res. r = Inr res \<longrightarrow>
       (\<exists>existing. (case existing of None \<Rightarrow> True | Some (old, m0) \<Rightarrow> see (dsk st) name = AFile old m0) \<and>
          write_guard sha rq existing) \<and>
       (if ws_Changed res then see (dsk st') name = AFile (write_bytes rq) m
        else dsk st' = dsk st \<and> (\<exists>m0. see (dsk st) name = AFile (write_bytes rq) m0)))"
proof -
  obtain m where m: "write_post sha (service_temps random name) name rq m st r st'"
      "\<forall>p. wr_Permissions rq = Some p \<longrightarrow> m = unixMode p"
    using Write_steps [OF assms] by blast
  show ?thesis
    using m unfolding write_post_def by (intro exI [of _ m]) (simp split: sum.splits)
qed

definition example_write :: WriteRequest where
  "example_write = \<lparr>wr_Path = ''f'', wr_Data = None, wr_Content = ''new!'', wr_Mode = WriteDefault, wr_CreateOnly = False,
     wr_ExpectedSHA256 = ''1003'', wr_Permissions = Some 0x180\<rparr>"

lemma example_write_facts:
  "wr_Path example_write = ''f''" "write_bytes example_write = ''new!''" "write_mode example_write = WriteOverwrite"
  "check_write example_svc ''f'' ''new!'' example_write = None"
  "decide_write example_sha ''f'' ''new!'' example_write (Some (''old'', 0x1B6)) = Proceed"
  "write_permissions example_write (Some (''old'', 0x1B6)) = 0x180" "wr_Permissions example_write = Some 0x180"
  "unixMode 0x180 = 0x180" "example_sha ''new!'' = ''1004''"
  by code_simp+

lemma example_write_run:
  "\<exists>st' res. Write example_sha example_svc never (Some ''00'') example_write (machine no_faults 0x12) = (Inr res, st') \<and> ws_Changed res"
  unfolding Write_def finish_write_def
  by (simp add: example_write_facts example_clean service_run_defs machine_def no_faults_def never_def abs_f clean_f
      path_facts example_shas example_svc_facts follow_file)

theorem Write_atomic_guarded_witness:
  "\<exists>st'. see (dsk st') ''f'' = AFile ''new!'' 0x180 \<and>
     logged (\<lambda>d. see d ''f'' = AFile ''old'' 0x1B6 \<or> see d ''f'' = AFile ''new!'' 0x180) (machine no_faults 0x12) st'"
proof -
  obtain st' res where w: "Write example_sha example_svc never (Some ''00'') example_write (machine no_faults 0x12) = (Inr res, st')"
      "ws_Changed res"
    using example_write_run by blast
  have c: "cleanPath (wr_Path example_write) False = Inr ''f''" by (simp add: example_write_facts example_clean)
  have old: "see (dsk (machine no_faults 0x12)) ''f'' = AFile ''old'' 0x1B6" by (simp add: machine_def see_def)
  obtain m where m: "m = unixMode 0x180"
      "logged (write_view (service_temps (Some ''00'') ''f'') ''f'' ''new!'' m (dsk (machine no_faults 0x12))) (machine no_faults 0x12) st'"
      "see (dsk st') ''f'' = AFile ''new!'' m"
    using Write_atomic_guarded [OF w(1) machine_ok c example_service_temps] w(2) by (auto simp: example_write_facts)
  have "logged (\<lambda>d. see d ''f'' = AFile ''old'' 0x1B6 \<or> see d ''f'' = AFile ''new!'' 0x180) (machine no_faults 0x12) st'"
    using m(2) by (rule logged_mono)
      (use example_service_temps m(1) in \<open>auto simp: write_view_def old example_write_facts\<close>)
  then show ?thesis using m by (auto simp: example_write_facts)
qed

section \<open>Paging\<close>

lemma page_loop_spec:
  "page_loop ll bl ts idx n used = (ls, u, e) \<Longrightarrow>
   e = idx + length ls \<and> map li_Text ls = take (length ls) ts \<and> length ls \<le> length ts \<and>
   map li_Number ls = [idx + 1..<idx + 1 + length ls] \<and>
   (used \<le> bl \<longrightarrow> u \<le> bl) \<and> (int n \<le> ll \<longrightarrow> int (n + length ls) \<le> ll) \<and>
   u = used + int (length (concat (map li_Text ls))) + int (length ls) - (if n = 0 \<and> ls \<noteq> [] then 1 else 0)"
proof (induction ll bl ts idx n used arbitrary: ls u e rule: page_loop.induct)
  case (1 ll bl idx n used)
  then show ?case by simp
next
  case (2 ll bl t ts idx n used)
  let ?cost = "int (length t) + (if n > 0 then 1 else 0)"
  show ?case
  proof (cases "int n < ll \<and> used + ?cost \<le> bl")
    case False
    with "2.prems" show ?thesis by (auto simp: Let_def)
  next
    case True
    obtain ls' u' e' where r: "page_loop ll bl ts (idx + 1) (n + 1) (used + ?cost) = (ls', u', e')"
      by (metis prod_cases3)
    then have eq: "ls = \<lparr>li_Number = idx + 1, li_Anchor = lineAnchor t, li_Text = t\<rparr> # ls'" "u = u'" "e = e'"
      using "2.prems" True by (simp_all add: Let_def)
    have up: "[idx + 1..<idx + 1 + length ls] = (idx + 1) # [idx + 1 + 1..<idx + 1 + 1 + length ls']"
      by (simp add: eq(1) upt_rec)
    have IH: "e' = idx + 1 + length ls'" "map li_Text ls' = take (length ls') ts" "length ls' \<le> length ts"
      "map li_Number ls' = [idx + 1 + 1..<idx + 1 + 1 + length ls']" "u' \<le> bl" "int (n + 1 + length ls') \<le> ll"
      "u' = used + ?cost + int (length (concat (map li_Text ls'))) + int (length ls')"
      using "2.IH" [OF refl True r] True by auto
    show ?thesis
      unfolding up using IH by (simp add: eq)
  qed
qed

lemma page_loop_progress:
  assumes "page_loop ll bl (t # ts) idx 0 0 = (ls, u, e)" "0 < ll" "int (length t) \<le> bl"
  shows "ls \<noteq> []"
  using assms by (auto simp: Let_def split: prod.splits)

lemma length_Join_LF: "int (length (Join [LF] xs)) = int (length (concat xs)) + int (length xs) - (if xs = [] then 0 else 1)"
proof (induction xs)
  case (Cons x xs)
  then show ?case by (cases xs) simp_all
qed simp

lemma read_text:
  assumes "\<not> isBinary raw" "1 \<le> offset" "offset \<le> int (length (splitTextLines (normalizeLF raw)))"
    "page_loop ll bl (drop (nat (offset - 1)) (splitTextLines (normalizeLF raw))) (nat (offset - 1)) 0 0 = (ls, u, e)"
  shows "rr_Lines (read_result sha raw offset ll bl) = ls"
    "rr_Content (read_result sha raw offset ll bl) = Join [LF] (map li_Text ls)"
    "rr_ReturnedBytes (read_result sha raw offset ll bl) = u"
    "rr_NextOffset (read_result sha raw offset ll bl) =
       (if e < length (splitTextLines (normalizeLF raw)) then int e + 1 else 0)"
  using assms by (simp_all add: read_result_def Let_def)

lemma read_text_past:
  "\<not> isBinary raw \<Longrightarrow> offset > int (length (splitTextLines (normalizeLF raw))) \<Longrightarrow>
   rr_Lines (read_result sha raw offset ll bl) = [] \<and> rr_NextOffset (read_result sha raw offset ll bl) = 0 \<and>
   rr_Content (read_result sha raw offset ll bl) = [] \<and> rr_ReturnedBytes (read_result sha raw offset ll bl) = 0"
  by (simp add: read_result_def Let_def)

text \<open>Follow \<open>NextOffset\<close> from page to page.\<close>

fun read_pages :: "(string \<Rightarrow> string) \<Rightarrow> string \<Rightarrow> int \<Rightarrow> int \<Rightarrow> nat \<Rightarrow> int \<Rightarrow> Line list" where
  "read_pages sha raw ll bl 0 offset = []"
| "read_pages sha raw ll bl (Suc k) offset =
     (let r = read_result sha raw offset ll bl in
      rr_Lines r @ (if rr_NextOffset r = 0 then [] else read_pages sha raw ll bl k (rr_NextOffset r)))"

lemma upt_split: "i \<le> j \<Longrightarrow> j \<le> k \<Longrightarrow> [i..<k] = [i..<j] @ [j..<k]"
  using upt_add_eq_append [of i j "k - j"] by simp

lemma read_pages_from:
  assumes nb: "\<not> isBinary raw" and ll: "0 < ll"
    and fits: "\<forall>t \<in> set (splitTextLines (normalizeLF raw)). int (length t) \<le> bl"
  shows "length (splitTextLines (normalizeLF raw)) - i < k \<Longrightarrow> i \<le> length (splitTextLines (normalizeLF raw)) \<Longrightarrow>
    map li_Text (read_pages sha raw ll bl k (int i + 1)) = drop i (splitTextLines (normalizeLF raw)) \<and>
    map li_Number (read_pages sha raw ll bl k (int i + 1)) = [i + 1..<length (splitTextLines (normalizeLF raw)) + 1]"
proof (induction k arbitrary: i)
  case 0
  then show ?case by simp
next
  case (Suc k)
  let ?ts = "splitTextLines (normalizeLF raw)"
  show ?case
  proof (cases "i = length ?ts")
    case True
    then show ?thesis using read_text_past [OF nb, of "int i + 1" sha ll bl] by (simp add: Let_def)
  next
    case False
    then have i: "i < length ?ts" using Suc.prems by simp
    obtain ls u e where p: "page_loop ll bl (drop i ?ts) i 0 0 = (ls, u, e)" by (metis prod_cases3)
    have p': "page_loop ll bl (drop (nat (int i + 1 - 1)) ?ts) (nat (int i + 1 - 1)) 0 0 = (ls, u, e)" using p by simp
    note R = read_text [OF nb _ _ p', of sha]
    note S = page_loop_spec [OF p]
    have "drop i ?ts = ?ts ! i # drop (Suc i) ?ts" using i by (simp add: Cons_nth_drop_Suc)
    then have ne: "ls \<noteq> []"
      using page_loop_progress [of ll bl "?ts ! i" "drop (Suc i) ?ts" i ls u e] p ll fits i by simp
    have lines: "rr_Lines (read_result sha raw (int i + 1) ll bl) = ls"
      and nxt: "rr_NextOffset (read_result sha raw (int i + 1) ll bl) = (if e < length ?ts then int e + 1 else 0)"
      using R i by simp_all
    have e: "e = i + length ls" "map li_Text ls = take (length ls) (drop i ?ts)" "length ls \<le> length ?ts - i"
        "map li_Number ls = [i + 1..<i + 1 + length ls]"
      using S by auto
    have num: "[i + 1..<length ?ts + 1] = [i + 1..<i + 1 + length ls] @ [i + 1 + length ls..<length ?ts + 1]"
      using e(3) i upt_split [of "i + 1" "i + 1 + length ls" "length ?ts + 1"] by simp
    show ?thesis
    proof (cases "e < length ?ts")
      case True
      have "length ?ts - e < k" using Suc.prems(1) e(1) ne True i by (cases ls) auto
      from Suc.IH [OF this] True lines nxt e show ?thesis
        unfolding num by (simp add: Let_def) (metis add.commute append_take_drop_id drop_drop)
    next
      case False
      then have "length ls = length ?ts - i" using e(1,3) by simp
      then show ?thesis using lines nxt False e i by (simp add: Let_def)
    qed
  qed
qed

text \<open>
  Paging loses nothing.  If every line fits the byte limit, following
  \<open>NextOffset\<close> from the start ends after at most one page per line and yields every line
  of the text once, in order, numbered from 1.
\<close>

theorem read_pages_complete:
  assumes "\<not> isBinary raw" "0 < lineLimit"
    "\<forall>t \<in> set (splitTextLines (normalizeLF raw)). int (length t) \<le> byteLimit"
  shows "map li_Text (read_pages sha raw lineLimit byteLimit (Suc (length (splitTextLines (normalizeLF raw)))) 1)
      = splitTextLines (normalizeLF raw) \<and>
    map li_Number (read_pages sha raw lineLimit byteLimit (Suc (length (splitTextLines (normalizeLF raw)))) 1)
      = [1..<length (splitTextLines (normalizeLF raw)) + 1]"
  using read_pages_from [OF assms, of 0 "Suc (length (splitTextLines (normalizeLF raw)))" sha] by simp

lemma example_lines: "\<not> isBinary example_text" "splitTextLines (normalizeLF example_text) = [''a'', ''b'', ''c'']"
  by code_simp+

theorem read_pages_complete_witness:
  "map li_Text (read_pages example_sha example_text 2 3 4 1) = [''a'', ''b'', ''c'']"
  using read_pages_complete [of example_text 2 3 example_sha] by (simp add: example_lines eval_nat_numeral)

text \<open>
  A page is bounded and is a contiguous part of the text: at most the line limit,
  content no longer than the byte limit and equal to the reported byte count, lines
  consecutive from the offset.
\<close>

theorem read_result_bounded:
  assumes "\<not> isBinary raw" "1 \<le> offset" "0 \<le> lineLimit" "0 \<le> byteLimit"
  shows "(let r = read_result sha raw offset lineLimit byteLimit; ts = splitTextLines (normalizeLF raw) in
    int (length (rr_Lines r)) \<le> lineLimit \<and> int (length (rr_Content r)) \<le> byteLimit \<and>
    rr_ReturnedBytes r = int (length (rr_Content r)) \<and>
    map li_Text (rr_Lines r) = take (length (rr_Lines r)) (drop (nat (offset - 1)) ts) \<and>
    rr_Content r = Join [LF] (map li_Text (rr_Lines r)) \<and>
    (rr_NextOffset r = 0 \<or> rr_NextOffset r = offset + int (length (rr_Lines r))))"
proof (cases "offset > int (length (splitTextLines (normalizeLF raw)))")
  case True
  then show ?thesis using read_text_past [OF assms(1) True, of sha lineLimit byteLimit] assms by (simp add: Let_def)
next
  case False
  let ?ts = "splitTextLines (normalizeLF raw)"
  obtain ls u e where p: "page_loop lineLimit byteLimit (drop (nat (offset - 1)) ?ts) (nat (offset - 1)) 0 0 = (ls, u, e)"
    by (metis prod_cases3)
  note R = read_text [OF assms(1,2) _ p, of sha]
  have S: "e = nat (offset - 1) + length ls" "map li_Text ls = take (length ls) (drop (nat (offset - 1)) ?ts)"
    "u \<le> byteLimit" "int (length ls) \<le> lineLimit"
    "u = int (length (concat (map li_Text ls))) + int (length ls) - (if ls \<noteq> [] then 1 else 0)"
    using page_loop_spec [OF p] assms(3,4) by auto
  have "int (length (Join [LF] (map li_Text ls))) = u"
    using S(5) length_Join_LF [of "map li_Text ls"] by (cases ls) simp_all
  then show ?thesis using R False S(1-4) assms(2) by (simp add: Let_def)
qed

theorem read_result_bounded_witness:
  "length (rr_Lines (read_result example_sha example_text 2 1 10)) \<le> 1"
  using read_result_bounded [of example_text 2 1 10 example_sha] example_lines by (simp add: Let_def)

text \<open>
  Without that condition paging can stall: for a line longer than the byte limit
  the page is empty and its continuation is the same offset again.
\<close>

theorem read_result_no_progress:
  "(let r = read_result sha ''longer'' 1 10 3 in rr_Lines r = [] \<and> rr_Truncated r \<and> rr_NextOffset r = rr_Offset r)"
proof -
  have "\<not> isBinary ''longer''" "splitTextLines (normalizeLF ''longer'') = [''longer'']" by code_simp+
  then show ?thesis by (simp add: read_result_def Let_def)
qed

section \<open>Paths, limits, modes, errors\<close>

text \<open>
  An accepted service path names something below the root (plain components
  only, no backslash, no NUL), unless the request began with a backslash.
\<close>

theorem cleanPath_confined:
  assumes "cleanPath name False = Inr clean" "\<not> HasPrefix name [BSLASH]"
  shows "below clean \<and> BSLASH \<notin> set clean \<and> NUL \<notin> set clean"
proof -
  let ?n = "ReplaceAll name [BSLASH] [SLASH]"
  have na: "\<not> IsAbs name" "NUL \<notin> set name" using assms(1) by (auto simp: cleanPath_def split: if_splits)
  have "hd ?n = hd name \<or> name = []" "?n = [] \<longleftrightarrow> name = []"
    using assms(2) by (cases name; simp add: ReplaceAll_Cons HasPrefix_iff)+
  then have "\<not> IsAbs ?n"
    using na(1) by (cases name; cases ?n) (auto simp: IsAbs_def)
  moreover have c: "clean = Clean ?n" "below clean \<or> IsAbs clean" using cleanPath_shape [OF assms(1)] by auto
  moreover have "IsAbs ?n" if "IsAbs clean"
  proof (rule ccontr)
    assume "\<not> IsAbs ?n"
    moreover have "clean \<noteq> ''.''" "clean \<noteq> ''..''" "\<not> HasPrefix clean ''../''"
      using assms(1) by (auto simp: cleanPath_def Let_def split: if_splits)
    ultimately have "below clean" using Clean_below c(1) by blast
    then show False using below_not_abs that by blast
  qed
  ultimately have "below clean" by blast
  moreover have "BSLASH \<notin> set ?n \<and> set ?n \<subseteq> set name \<union> {SLASH}"
  proof (induction name)
    case (Cons a name)
    then show ?case by (auto simp: ReplaceAll_Cons HasPrefix_iff)
  qed simp
  ultimately show ?thesis
    using Clean_chars [of ?n] c(1) na(2) by auto
qed

theorem cleanPath_confined_witness:
  "below ''a/b'' \<and> cleanPath (''a'' @ [BSLASH] @ ''./b'') False = Inr ''a/b''"
proof -
  have c: "cleanPath (''a'' @ [BSLASH] @ ''./b'') False = Inr ''a/b''" by code_simp
  have "\<not> HasPrefix (''a'' @ [BSLASH] @ ''./b'') [BSLASH]" by simp
  from cleanPath_confined [OF c this] c show ?thesis by simp
qed

text \<open>
  The exception is real: a path that begins with a backslash passes every check of
  \<open>cleanPath\<close> and comes out absolute.
\<close>

theorem cleanPath_backslash_absolute:
  "cleanPath (BSLASH # ''etc'' @ [BSLASH] @ ''passwd'') False = Inr ''/etc/passwd'' \<and> IsAbs ''/etc/passwd''"
  by code_simp

lemma mode_constants:
  "(0x1FF :: 32 word) = mask 9" "(0xFFF :: 32 word) = mask 12" "(0x800 :: 32 word) = 2 ^ 11" "(0x400 :: 32 word) = 2 ^ 10"
  "(0x200 :: 32 word) = 2 ^ 9" "ModePerm = mask 9" "ModeSetuid = 2 ^ 23" "ModeSetgid = 2 ^ 22" "ModeSticky = 2 ^ 20"
  by (simp_all add: mask_eq_exp_minus_1 ModePerm_def ModeSetuid_def ModeSetgid_def ModeSticky_def push_bit_eq_mult)

lemma bit_if_exp: "bit (if c then 2 ^ k else (0 :: 32 word)) n \<longleftrightarrow> c \<and> n = k \<and> k < 32"
  by (auto simp: bit_exp_iff)

lemma bit_unixMode:
  "bit (unixMode v) n \<longleftrightarrow> (n < 9 \<and> bit v n) \<or> (n = 23 \<and> bit v 11) \<or> (n = 22 \<and> bit v 10) \<or> (n = 20 \<and> bit v 9)"
  unfolding unixMode_def mode_constants and_exp_eq_0_iff_not_bit
    bit_or_iff bit_and_iff bit_mask_iff bit_if_exp
  by (auto simp: bit_imp_le_length)

lemma bit_modeToUnix:
  "bit (modeToUnix m) n \<longleftrightarrow> (n < 9 \<and> bit m n) \<or> (n = 11 \<and> bit m 23) \<or> (n = 10 \<and> bit m 22) \<or> (n = 9 \<and> bit m 20)"
  unfolding modeToUnix_def Perm_def mode_constants and_exp_eq_0_iff_not_bit
    bit_or_iff bit_and_iff bit_mask_iff bit_if_exp
  by (auto simp: bit_imp_le_length)

text \<open>
  Unix permission bits survive the conversion to \<open>os.FileMode\<close> and back, for all
  values a write request may carry (at most 07777).
\<close>

theorem unixMode_round_trip: "modeToUnix (unixMode value) = value AND 0xFFF"
  unfolding mode_constants(2)
  by (rule bit_eqI) (auto simp: bit_modeToUnix bit_unixMode bit_and_iff bit_mask_iff less_Suc_eq numeral_eq_Suc)

definition limits_le :: "Limits \<Rightarrow> Limits \<Rightarrow> bool" where
  "limits_le a b \<longleftrightarrow> 0 < WholeFileBytes a \<and> WholeFileBytes a \<le> WholeFileBytes b \<and> 0 < ReadLines a \<and> ReadLines a \<le> ReadLines b \<and>
     0 < ReadBytes a \<and> ReadBytes a \<le> ReadBytes b \<and> 0 < ListEntries a \<and> ListEntries a \<le> ListEntries b \<and>
     0 < FindMatches a \<and> FindMatches a \<le> FindMatches b \<and> 0 < SearchMatches a \<and> SearchMatches a \<le> SearchMatches b \<and>
     0 < SearchBytes a \<and> SearchBytes a \<le> SearchBytes b \<and> 0 < ScanFiles a \<and> ScanFiles a \<le> ScanFiles b \<and>
     0 < ScanBytes a \<and> ScanBytes a \<le> ScanBytes b"

lemma lowerInt_le: "lowerInt f c q = Inr x \<Longrightarrow> 0 < c \<Longrightarrow> 0 < x \<and> x \<le> c"
  by (auto simp: lowerInt_def split: if_splits)

lemma mergeLimits_le:
  assumes "mergeLimits base q = Inr l" "limits_le base b"
  shows "limits_le l b"
  using assms by (fastforce simp: mergeLimits_def result_simps limits_le_def dest!: lowerInt_le)

lemma apply_options_le: "apply_options os l = Inr l' \<Longrightarrow> limits_le l b \<Longrightarrow> limits_le l' b"
  by (induction os arbitrary: l) (auto simp: result_simps dest: mergeLimits_le)

text \<open>
  Limits only ever go down: whatever options \<open>Open\<close> is given, every limit of the
  service stays positive and at most the safe default.
\<close>

theorem Open_limits_lowered:
  "(case Open rootPath opts of Inl e \<Rightarrow> True | Inr s \<Rightarrow> limits_le (limits s) DefaultLimits \<and> \<not> closed s)"
proof -
  have "limits_le DefaultLimits DefaultLimits" by (simp add: limits_le_def DefaultLimits_def)
  then show ?thesis
    by (cases "Open rootPath opts") (auto simp: Open_def result_simps dest: apply_options_le split: if_splits)
qed

text \<open>
  Errors are classified by searching their text, which contains the file name; so
  a missing file whose name contains one of the searched phrases is reported as a denied
  path traversal instead of not found.
\<close>

theorem rootError_misclassified:
  "(let name = ''notes outside root.txt'' in
    rootError ''read'' name (path_error_text ''statat'' name ErrNotExist) ErrNotExist =
      FsError CodePermission ''read'' name ''path traversal refused'' \<and>
    classifyError ''read'' name ErrNotExist = FsError CodeNotFound ''read'' name ''path not found'')"
  by code_simp

end
