(* ===== verification/Termination.thy ===== *)
theory Termination
  imports Main
begin

text \<open>
  Package \<open>command\<close>, \<open>termination_unix.go\<close>: the life of one command's process group.  Two threads
  run: \<open>groupTermination.run\<close> and the context watcher of \<open>os/exec\<close>, which calls
  \<open>groupTermination.cancel\<close> through \<open>Cmd.Cancel\<close> and hands its result to \<open>Cmd.Wait\<close> over an unbuffered
  channel.  They share the mutex \<open>mu\<close>, the flag \<open>reaped\<close> and the leader process.  An action is one
  atomic step of a thread, of the kernel or of the context; \<open>tstep a s\<close> is \<open>None\<close> where \<open>a\<close> cannot be taken
  in \<open>s\<close>, so a blocked thread simply has no step.
\<close>

section \<open>State\<close>

datatype leader = NotStarted | Alive | Zombie | Reaped

datatype thread = Runner | Watcher

text \<open>Where \<open>run\<close> stands; \<open>RReap\<close> and \<open>RRecv\<close> are inside \<open>Cmd.Wait\<close>.\<close>

datatype runner_pc = RStart | RWaitid | RKill | RLock | RMark | RReap | RRecv | RUnlock | RDone

text \<open>Where the watcher stands; \<open>WLock\<close> to \<open>WUnlock\<close> are inside \<open>cancel\<close>.\<close>

datatype watcher_pc = WIdle | WSelect | WLock | WCheck | WKill | WUnlock | WSend | WDone

record tstate =
  rpc :: runner_pc
  wpc :: watcher_pc
  mu :: "thread option"
  reaped :: bool
  leader :: leader
  ctxDone :: bool
  badKill :: bool      \<comment> \<open>a group kill was sent although the leader had been reaped\<close>

definition tinit :: tstate where
  "tinit = \<lparr>rpc = RStart, wpc = WIdle, mu = None, reaped = False, leader = NotStarted, ctxDone = False, badKill = False\<rparr>"

section \<open>Steps\<close>

datatype t_action =
    StartOk | StartFail | WaitidOk | WaitidFail | RunnerKill | RunnerLock | MarkReaped | Reap | RecvIdle | RecvLate | RunnerUnlock
  | CtxFires | WatcherWakes | WatcherLock | CheckReaped | CheckLive | WatcherKill | WatcherUnlock
  | LeaderExits

text \<open>\<open>killCommandProcessGroup\<close>: the signal goes to whatever now has the group id.\<close>

definition kill_group :: "tstate \<Rightarrow> tstate" where
  "kill_group s = s\<lparr>badKill := (badKill s \<or> leader s = Reaped)\<rparr>"

fun runner_step :: "t_action \<Rightarrow> tstate \<Rightarrow> tstate option" where
  "runner_step StartOk s = (if rpc s = RStart then Some (s\<lparr>rpc := RWaitid, wpc := WSelect, leader := Alive\<rparr>) else None)"
| "runner_step StartFail s = (if rpc s = RStart then Some (s\<lparr>rpc := RDone\<rparr>) else None)"
| "runner_step WaitidOk s = (if rpc s = RWaitid \<and> leader s = Zombie then Some (s\<lparr>rpc := RKill\<rparr>) else None)"
| "runner_step WaitidFail s = (if rpc s = RWaitid then Some (s\<lparr>rpc := RKill\<rparr>) else None)"
| "runner_step RunnerKill s = (if rpc s = RKill then Some ((kill_group s)\<lparr>rpc := RLock\<rparr>) else None)"
| "runner_step RunnerLock s = (if rpc s = RLock \<and> mu s = None then Some (s\<lparr>rpc := RMark, mu := Some Runner\<rparr>) else None)"
| "runner_step MarkReaped s = (if rpc s = RMark then Some (s\<lparr>rpc := RReap, reaped := True\<rparr>) else None)"
| "runner_step Reap s = (if rpc s = RReap \<and> leader s = Zombie then Some (s\<lparr>rpc := RRecv, leader := Reaped\<rparr>) else None)"
| "runner_step RecvIdle s = (if rpc s = RRecv \<and> wpc s = WSelect then Some (s\<lparr>rpc := RUnlock, wpc := WDone\<rparr>) else None)"
| "runner_step RecvLate s = (if rpc s = RRecv \<and> wpc s = WSend then Some (s\<lparr>rpc := RUnlock, wpc := WDone\<rparr>) else None)"
| "runner_step RunnerUnlock s = (if rpc s = RUnlock then Some (s\<lparr>rpc := RDone, mu := None\<rparr>) else None)"
| "runner_step a s = None"

fun watcher_step :: "t_action \<Rightarrow> tstate \<Rightarrow> tstate option" where
  "watcher_step WatcherWakes s = (if wpc s = WSelect \<and> ctxDone s then Some (s\<lparr>wpc := WLock\<rparr>) else None)"
| "watcher_step WatcherLock s = (if wpc s = WLock \<and> mu s = None then Some (s\<lparr>wpc := WCheck, mu := Some Watcher\<rparr>) else None)"
| "watcher_step CheckReaped s = (if wpc s = WCheck \<and> reaped s then Some (s\<lparr>wpc := WUnlock\<rparr>) else None)"
| "watcher_step CheckLive s = (if wpc s = WCheck \<and> \<not> reaped s then Some (s\<lparr>wpc := WKill\<rparr>) else None)"
| "watcher_step WatcherKill s = (if wpc s = WKill then Some ((kill_group s)\<lparr>wpc := WUnlock\<rparr>) else None)"
| "watcher_step WatcherUnlock s = (if wpc s = WUnlock then Some (s\<lparr>wpc := WSend, mu := None\<rparr>) else None)"
| "watcher_step a s = None"

fun env_step :: "t_action \<Rightarrow> tstate \<Rightarrow> tstate option" where
  "env_step LeaderExits s = (if leader s = Alive then Some (s\<lparr>leader := Zombie\<rparr>) else None)"
| "env_step CtxFires s = (if ctxDone s then None else Some (s\<lparr>ctxDone := True\<rparr>))"
| "env_step a s = None"

definition tstep :: "t_action \<Rightarrow> tstate \<Rightarrow> tstate option" where
  "tstep a s =
     (case runner_step a s of Some t \<Rightarrow> Some t
      | None \<Rightarrow> (case watcher_step a s of Some t \<Rightarrow> Some t | None \<Rightarrow> env_step a s))"

inductive reach :: "tstate \<Rightarrow> bool" where
  reach_init: "reach tinit"
| reach_step: "reach s \<Longrightarrow> tstep a s = Some t \<Longrightarrow> reach t"

fun trun :: "t_action list \<Rightarrow> tstate \<Rightarrow> tstate option" where
  "trun [] s = Some s"
| "trun (a # as) s = (case tstep a s of None \<Rightarrow> None | Some t \<Rightarrow> trun as t)"

text \<open>No thread can take a step; only the context could still fire.\<close>

definition stuck :: "tstate \<Rightarrow> bool" where
  "stuck s \<longleftrightarrow> (\<forall>a. a \<noteq> CtxFires \<longrightarrow> tstep a s = None)"

section \<open>Invariant\<close>

text \<open>Where a thread holds the mutex, where the mark is still ahead, where the process has been started.\<close>

fun rcrit :: "runner_pc \<Rightarrow> bool" where
  "rcrit RMark = True" | "rcrit RReap = True" | "rcrit RRecv = True" | "rcrit RUnlock = True"
| "rcrit RStart = False" | "rcrit RWaitid = False" | "rcrit RKill = False" | "rcrit RLock = False" | "rcrit RDone = False"

fun wcrit :: "watcher_pc \<Rightarrow> bool" where
  "wcrit WCheck = True" | "wcrit WKill = True" | "wcrit WUnlock = True"
| "wcrit WIdle = False" | "wcrit WSelect = False" | "wcrit WLock = False" | "wcrit WSend = False" | "wcrit WDone = False"

fun unmarked :: "runner_pc \<Rightarrow> bool" where
  "unmarked RStart = True" | "unmarked RWaitid = True" | "unmarked RKill = True" | "unmarked RLock = True" | "unmarked RMark = True"
| "unmarked RReap = False" | "unmarked RRecv = False" | "unmarked RUnlock = False" | "unmarked RDone = False"

fun running_pc :: "runner_pc \<Rightarrow> bool" where
  "running_pc RStart = False" | "running_pc RDone = False" | "running_pc RUnlock = False"
| "running_pc RWaitid = True" | "running_pc RKill = True" | "running_pc RLock = True" | "running_pc RMark = True"
| "running_pc RReap = True" | "running_pc RRecv = True"

definition lock_inv :: "tstate \<Rightarrow> bool" where
  "lock_inv s \<longleftrightarrow> \<not> (rcrit (rpc s) \<and> wcrit (wpc s))
     \<and> mu s = (if rcrit (rpc s) then Some Runner else if wcrit (wpc s) then Some Watcher else None)"

definition mark_inv :: "tstate \<Rightarrow> bool" where
  "mark_inv s \<longleftrightarrow> (unmarked (rpc s) \<longrightarrow> \<not> reaped s) \<and> (leader s = Reaped \<longrightarrow> reaped s) \<and> (wpc s = WKill \<longrightarrow> \<not> reaped s)
     \<and> (rpc s = RReap \<longrightarrow> reaped s)"

definition live_inv :: "tstate \<Rightarrow> bool" where
  "live_inv s \<longleftrightarrow> (running_pc (rpc s) \<longrightarrow> leader s \<noteq> NotStarted \<and> wpc s \<noteq> WIdle \<and> wpc s \<noteq> WDone)
     \<and> (rpc s = RReap \<longrightarrow> leader s \<noteq> Reaped) \<and> (rpc s = RStart \<longrightarrow> wpc s = WIdle)"

definition tinv :: "tstate \<Rightarrow> bool" where
  "tinv s \<longleftrightarrow> lock_inv s \<and> mark_inv s \<and> live_inv s \<and> \<not> badKill s"

lemmas tinv_defs = tinv_def lock_inv_def mark_inv_def live_inv_def kill_group_def

lemma tinv_init: "tinv tinit"
  by (simp add: tinv_defs tinit_def)

lemma runner_step_inv: "tinv s \<Longrightarrow> runner_step a s = Some t \<Longrightarrow> tinv t"
  by (cases a; cases "rpc s"; cases "wpc s"; clarsimp simp: tinv_defs split: if_splits)

lemma watcher_step_inv: "tinv s \<Longrightarrow> watcher_step a s = Some t \<Longrightarrow> tinv t"
  by (cases a; cases "rpc s"; cases "wpc s"; clarsimp simp: tinv_defs split: if_splits)

lemma env_step_inv: "tinv s \<Longrightarrow> env_step a s = Some t \<Longrightarrow> tinv t"
  by (cases a; cases "rpc s"; cases "wpc s"; clarsimp simp: tinv_defs split: if_splits)

lemma tstep_inv: "tinv s \<Longrightarrow> tstep a s = Some t \<Longrightarrow> tinv t"
  by (auto simp: tstep_def split: option.splits intro: runner_step_inv watcher_step_inv env_step_inv)

lemma reach_tinv: "reach s \<Longrightarrow> tinv s"
  by (induction rule: reach.induct) (auto intro: tinv_init tstep_inv)

lemma trun_reach: "trun as s = Some t \<Longrightarrow> reach s \<Longrightarrow> reach t"
  by (induction as arbitrary: s) (auto split: option.splits intro: reach_step)

section \<open>Progress\<close>

text \<open>Every position but two has a step of some thread or of the kernel.\<close>

lemma tstep_runner: "runner_step a s = Some t \<Longrightarrow> tstep a s = Some t"
  by (simp add: tstep_def)

lemma tstep_watcher: "watcher_step a s = Some t \<Longrightarrow> \<exists>u. tstep a s = Some u"
  by (auto simp: tstep_def split: option.splits)

lemma tstep_env: "env_step a s = Some t \<Longrightarrow> \<exists>u. tstep a s = Some u"
  by (auto simp: tstep_def split: option.splits)

lemma not_stuckI: "tstep a s \<noteq> None \<Longrightarrow> a \<noteq> CtxFires \<Longrightarrow> \<not> stuck s"
  by (auto simp: stuck_def)

lemma wcrit_moves: "wcrit (wpc s) \<Longrightarrow> \<not> stuck s"
  using not_stuckI [of CheckReaped s] not_stuckI [of CheckLive s] not_stuckI [of WatcherKill s] not_stuckI [of WatcherUnlock s]
  by (cases "wpc s"; cases "reaped s") (simp_all add: tstep_def)

lemma stuck_cases:
  assumes inv: "tinv s" and st: "stuck s"
  shows "rpc s = RDone \<or> (rpc s = RRecv \<and> wpc s = WLock)"
proof (cases "rpc s")
  case RStart
  then show ?thesis using not_stuckI [of StartOk s] st by (simp add: tstep_def)
next
  case RWaitid
  then show ?thesis using not_stuckI [of WaitidFail s] st by (simp add: tstep_def)
next
  case RKill
  then show ?thesis using not_stuckI [of RunnerKill s] st by (simp add: tstep_def)
next
  case RLock
  show ?thesis
  proof (cases "mu s = None")
    case True
    then show ?thesis using not_stuckI [of RunnerLock s] st RLock by (simp add: tstep_def)
  next
    case False
    then have "wcrit (wpc s)" using inv RLock by (auto simp: tinv_def lock_inv_def split: if_splits)
    then show ?thesis using wcrit_moves st by blast
  qed
next
  case RMark
  then show ?thesis using not_stuckI [of MarkReaped s] st by (simp add: tstep_def)
next
  case RReap
  then have "leader s = Alive \<or> leader s = Zombie"
    using inv by (cases "leader s") (simp_all add: tinv_def live_inv_def)
  then show ?thesis
    using not_stuckI [of LeaderExits s] not_stuckI [of Reap s] st RReap by (auto simp: tstep_def)
next
  case RRecv
  have "wpc s = WSelect \<or> wpc s = WSend \<or> wpc s = WLock"
    using inv RRecv by (cases "wpc s") (simp_all add: tinv_def live_inv_def lock_inv_def)
  then show ?thesis
    using not_stuckI [of RecvIdle s] not_stuckI [of RecvLate s] st RRecv by (auto simp: tstep_def)
next
  case RUnlock
  then show ?thesis using not_stuckI [of RunnerUnlock s] st by (simp add: tstep_def)
qed simp

section \<open>Properties\<close>

text \<open>
  Claim C15: the group kill never reaches a recycled group.  In no interleaving of \<open>run\<close>, the context
  watcher and the kernel is \<open>kill(-pgid)\<close> sent after the leader has been reaped, and the mutex is held
  by at most one of the two threads.
\<close>

theorem kill_before_reap:
  assumes "reach s"
  shows "\<not> badKill s \<and> \<not> (rcrit (rpc s) \<and> wcrit (wpc s)) \<and> (case tstep WatcherKill s of None \<Rightarrow> True | Some t \<Rightarrow> leader s \<noteq> Reaped)
     \<and> (case tstep RunnerKill s of None \<Rightarrow> True | Some t \<Rightarrow> leader s \<noteq> Reaped)"
  using reach_tinv [OF assms]
  by (auto simp: tinv_def lock_inv_def mark_inv_def tstep_def split: option.splits)

theorem kill_before_reap_witness:
  "\<exists>s. trun [StartOk, CtxFires, WatcherWakes, WatcherLock, CheckLive, WatcherKill, LeaderExits, WaitidOk, RunnerKill,
        WatcherUnlock, RunnerLock, MarkReaped, Reap, RecvLate, RunnerUnlock] tinit = Some s \<and> rpc s = RDone \<and> \<not> badKill s"
proof -
  let ?as = "[StartOk, CtxFires, WatcherWakes, WatcherLock, CheckLive, WatcherKill, LeaderExits, WaitidOk, RunnerKill,
        WatcherUnlock, RunnerLock, MarkReaped, Reap, RecvLate, RunnerUnlock]"
  obtain s where s: "trun ?as tinit = Some s" "rpc s = RDone"
    by (simp add: tinit_def tstep_def kill_group_def)
  then show ?thesis using kill_before_reap [OF trun_reach [OF s(1) reach_init]] by blast
qed

text \<open>
  Claim C16: the two threads can block in one way only.  A reachable state without a step of a thread
  or of the kernel is one where \<open>run\<close> has returned, or one where \<open>run\<close> holds the mutex waiting for the
  watcher's result while the watcher waits for the mutex.
\<close>

theorem only_one_deadlock:
  assumes "reach s" "stuck s"
  shows "rpc s = RDone \<or> (rpc s = RRecv \<and> wpc s = WLock)"
  by (rule stuck_cases [OF reach_tinv [OF assms(1)] assms(2)])

text \<open>The blocked state: the context fires between the lock and the receive of \<open>Cmd.Wait\<close>.\<close>

definition deadlock_actions :: "t_action list" where
  "deadlock_actions = [StartOk, LeaderExits, WaitidOk, RunnerKill, RunnerLock, MarkReaped, CtxFires, WatcherWakes, Reap]"

lemma deadlock_stuck:
  assumes "rpc s = RRecv" "wpc s = WLock" "mu s = Some Runner" "leader s = Reaped"
  shows "stuck s"
  unfolding stuck_def
proof (intro allI impI)
  fix a show "tstep a s = None" if "a \<noteq> CtxFires"
    using assms that by (cases a) (simp_all add: tstep_def)
qed

theorem only_one_deadlock_witness:
  "\<exists>s. trun deadlock_actions tinit = Some s \<and> stuck s \<and> (rpc s = RDone \<or> (rpc s = RRecv \<and> wpc s = WLock))"
proof -
  obtain s where s: "trun deadlock_actions tinit = Some s" "rpc s = RRecv" "wpc s = WLock" "mu s = Some Runner" "leader s = Reaped"
    by (simp add: deadlock_actions_def tinit_def tstep_def kill_group_def)
  have "stuck s" using s by (intro deadlock_stuck)
  then show ?thesis using only_one_deadlock [OF trun_reach [OF s(1) reach_init]] s(1) by blast
qed

text \<open>
  That state is reachable: a timeout or abort that fires while \<open>run\<close> is between taking the mutex and
  the end of \<open>Cmd.Wait\<close> blocks both threads for ever, and the run never returns.
\<close>

lemma run_deadlocks:
  "\<exists>s. reach s \<and> stuck s \<and> rpc s = RRecv \<and> wpc s = WLock \<and> ctxDone s"
proof -
  obtain s where s: "trun deadlock_actions tinit = Some s" "rpc s = RRecv" "wpc s = WLock" "mu s = Some Runner" "leader s = Reaped"
      "ctxDone s"
    by (simp add: deadlock_actions_def tinit_def tstep_def kill_group_def)
  have "stuck s" using s by (intro deadlock_stuck)
  then show ?thesis using trun_reach [OF s(1) reach_init] s by blast
qed

end
