(* ===== verification/AbsPath.thy ===== *)
theory AbsPath
  imports GoPath
begin

text \<open>
  Absolute paths: Go's \<open>filepath.Rel\<close>, \<open>filepath.Abs\<close> (against the working directory \<open>wd\<close>) and
  the test \<open>relativePathInside\<close> of \<open>command/runner.go\<close>.  A cleaned absolute path is the list of its
  plain components; the lemmas turn the string functions into list operations.
\<close>

section \<open>Components\<close>

definition comps :: "string \<Rightarrow> string list" where
  "comps p = filter (\<lambda>c. c \<noteq> []) (SplitChar SLASH p)"

definition abs_of :: "string list \<Rightarrow> string" where
  "abs_of cs = SLASH # Join [SLASH] cs"

fun strip_common :: "string list \<Rightarrow> string list \<Rightarrow> string list \<times> string list" where
  "strip_common (b # bs) (t # ts) = (if b = t then strip_common bs ts else (b # bs, t # ts))"
| "strip_common bs ts = (bs, ts)"

text \<open>\<open>filepath.Rel\<close> on Unix.\<close>

definition Rel :: "string \<Rightarrow> string \<Rightarrow> string option" where
  "Rel base targ =
     (let b0 = Clean base; t = Clean targ in
      if t = b0 then Some ''.''
      else let b = (if b0 = ''.'' then [] else b0) in
        if IsAbs b \<noteq> IsAbs t then None
        else (case strip_common (comps b) (comps t) of
                (br, tr) \<Rightarrow>
                  if br \<noteq> [] \<and> hd br = ''..'' then None
                  else Some (Join [SLASH] (replicate (length br) ''..'' @ tr))))"

definition Abs :: "string \<Rightarrow> string \<Rightarrow> string" where
  "Abs wd p = (if IsAbs p then Clean p else JoinPath [wd, p])"

definition relativePathInside :: "string \<Rightarrow> string \<Rightarrow> bool" where
  "relativePathInside root child =
     (case Rel root child of
        None \<Rightarrow> False
      | Some rel \<Rightarrow> rel \<noteq> ''..'' \<and> \<not> HasPrefix rel ''../'' \<and> \<not> IsAbs rel)"

section \<open>Cleaned absolute paths\<close>

lemma IsAbs_abs_of [simp]: "IsAbs (abs_of cs)"
  by (simp add: IsAbs_def abs_of_def)

lemma abs_of_ne [simp]: "abs_of cs \<noteq> []"
  by (simp add: abs_of_def)

lemma SplitChar_abs_of:
  assumes "list_all plain_comp cs"
  shows "SplitChar SLASH (abs_of cs) = [] # (if cs = [] then [[]] else cs)"
  using assms by (cases "cs = []") (auto simp: abs_of_def below_split)

lemma comps_abs_of [simp]: "list_all plain_comp cs \<Longrightarrow> comps (abs_of cs) = cs"
  by (auto simp: comps_def SplitChar_abs_of list_all_iff plain_comp_def intro!: filter_True)

lemma abs_of_inject:
  "list_all plain_comp cs \<Longrightarrow> list_all plain_comp ds \<Longrightarrow> abs_of cs = abs_of ds \<longleftrightarrow> cs = ds"
  by (metis comps_abs_of)

lemma Clean_abs_of [simp]:
  assumes "list_all plain_comp cs"
  shows "Clean (abs_of cs) = abs_of cs"
  using assms by (cases "cs = []")
    (simp_all add: Clean_def SplitChar_abs_of clean_comps_plain, simp_all add: abs_of_def)

lemma Clean_abs:
  assumes "IsAbs p"
  obtains cs where "list_all plain_comp cs" "Clean p = abs_of cs"
proof -
  obtain n cs where "clean_comps True [] (SplitChar SLASH p) = replicate n ''..'' @ cs"
      "list_all plain_comp cs" "n = 0"
    using clean_comps_split [of True p] by (auto simp: dots_then_plain_def)
  then show thesis using assms that [of cs] by (simp add: Clean_def abs_of_def)
qed

lemma IsAbs_Clean [simp]: "IsAbs p \<Longrightarrow> IsAbs (Clean p)"
  by (metis Clean_abs IsAbs_abs_of)

lemma clean_comps_append:
  "clean_comps r acc (as @ bs) = clean_comps r (rev (clean_comps r acc as)) bs"
  by (induction r acc as rule: clean_comps.induct) auto

lemma Join_append:
  "as \<noteq> [] \<Longrightarrow> bs \<noteq> [] \<Longrightarrow> Join sep (as @ bs) = Join sep as @ sep @ Join sep bs"
  by (induction sep as rule: Join.induct) (auto simp: Join_Cons)

lemma SplitChar_snoc: "SplitChar c (s @ c # t) = SplitChar c s @ SplitChar c t"
proof (induction s)
  case Nil
  then show ?case by simp
next
  case (Cons x xs)
  obtain p ps where "SplitChar c xs = p # ps"
    using SplitChar_ne by (metis list.exhaust)
  with Cons show ?case by auto
qed

text \<open>Joining a cleaned absolute path and any further path: clean the components behind it.\<close>

lemma JoinPath_abs:
  assumes "list_all plain_comp cs" "p \<noteq> []"
  shows "JoinPath [abs_of cs, p] = abs_of (clean_comps True (rev cs) (SplitChar SLASH p))"
proof -
  have "JoinPath [abs_of cs, p] = Clean (abs_of cs @ SLASH # p)"
    using assms(2) by (simp add: JoinPath_def abs_of_def)
  also have "\<dots> = abs_of (clean_comps True [] (SplitChar SLASH (abs_of cs) @ SplitChar SLASH p))"
    by (simp add: Clean_def IsAbs_def SplitChar_snoc abs_of_def)
  also have "clean_comps True [] (SplitChar SLASH (abs_of cs) @ SplitChar SLASH p) =
      clean_comps True (rev cs) (SplitChar SLASH p)"
    using assms(1) by (cases "cs = []")
      (simp_all add: SplitChar_abs_of clean_comps_append clean_comps_plain)
  finally show ?thesis .
qed

lemma JoinPath_abs_plain:
  assumes "list_all plain_comp cs" "list_all plain_comp ds" "ds \<noteq> []"
  shows "JoinPath [abs_of cs, Join [SLASH] ds] = abs_of (cs @ ds)"
proof -
  have "Join [SLASH] ds \<noteq> []"
    using assms(2,3) below_ne [of "Join [SLASH] ds"] by (auto simp: below_def)
  then show ?thesis
    using assms by (simp add: JoinPath_abs below_split clean_comps_plain)
qed

lemma JoinPath_many:
  assumes "list_all plain_comp cs" "list_all plain_comp ds"
  shows "JoinPath (abs_of cs # ds) = abs_of (cs @ ds)"
proof (cases "ds = []")
  case True
  then show ?thesis using assms by (simp add: JoinPath_def abs_of_def [symmetric])
next
  case False
  have "filter (\<lambda>p. p \<noteq> []) (abs_of cs # ds) = abs_of cs # ds"
    using assms(2) by (auto simp: abs_of_def list_all_iff plain_comp_def intro!: filter_True)
  moreover have "Join [SLASH] (abs_of cs # ds) = Join [SLASH] [abs_of cs, Join [SLASH] ds]"
    using False by (simp add: Join_Cons)
  moreover have "Join [SLASH] ds \<noteq> []"
    using assms(2) False below_ne [of "Join [SLASH] ds"] by (auto simp: below_def)
  ultimately have "JoinPath (abs_of cs # ds) = JoinPath [abs_of cs, Join [SLASH] ds]"
    using abs_of_ne [of cs] by (simp add: JoinPath_def)
  then show ?thesis using assms False by (simp add: JoinPath_abs_plain)
qed

lemma Dir_abs_of:
  assumes "list_all plain_comp cs" "plain_comp c"
  shows "Dir (abs_of (cs @ [c])) = abs_of cs"
proof -
  have c: "SLASH \<notin> set c" using assms(2) by (simp add: plain_comp_def)
  show ?thesis
  proof (cases "cs = []")
    case True
    have "split_last (abs_of [c]) = ([SLASH], c)"
      using split_last_append [OF c, of "[]"] by (simp add: abs_of_def)
    then show ?thesis using True by (simp add: Dir_def Clean_def IsAbs_def abs_of_def)
  next
    case False
    have "abs_of (cs @ [c]) = abs_of cs @ SLASH # c"
      using False by (simp add: abs_of_def Join_snoc)
    then have s: "split_last (abs_of (cs @ [c])) = (abs_of cs @ [SLASH], c)"
      using split_last_append [OF c] by simp
    have "clean_comps True [] (SplitChar SLASH (abs_of cs @ SLASH # [])) = cs"
      unfolding SplitChar_snoc
      using assms(1) False by (simp add: SplitChar_abs_of clean_comps_append clean_comps_plain)
    then have "Clean (abs_of cs @ [SLASH]) = abs_of cs"
      by (simp add: Clean_def IsAbs_def abs_of_def)
    then show ?thesis using s by (simp add: Dir_def)
  qed
qed

section \<open>Relative paths\<close>

lemma strip_common_spec:
  "strip_common bs ts = (br, tr) \<Longrightarrow> \<exists>p. bs = p @ br \<and> ts = p @ tr \<and> (br = [] \<or> tr = [] \<or> hd br \<noteq> hd tr)"
proof (induction bs ts rule: strip_common.induct)
  case (1 b bs t ts)
  show ?case
  proof (cases "b = t")
    case True
    with 1 obtain p where "bs = p @ br \<and> ts = p @ tr \<and> (br = [] \<or> tr = [] \<or> hd br \<noteq> hd tr)"
      by auto
    with True show ?thesis by (intro exI [where x = "b # p"]) simp
  next
    case False
    with "1.prems" show ?thesis by (intro exI [where x = "[]"]) auto
  qed
qed auto

lemma Rel_abs_of:
  assumes "list_all plain_comp bs" "list_all plain_comp ts" "bs \<noteq> ts"
  shows "Rel (abs_of bs) (abs_of ts) =
     (case strip_common bs ts of (br, tr) \<Rightarrow> Some (Join [SLASH] (replicate (length br) ''..'' @ tr)))"
proof -
  obtain br tr where s: "strip_common bs ts = (br, tr)" by fastforce
  then obtain p where "bs = p @ br" using strip_common_spec by blast
  then have "list_all plain_comp br" using assms(1) by simp
  then have "\<not> (br \<noteq> [] \<and> hd br = ''..'')" by (cases br) auto
  moreover have "abs_of bs \<noteq> ''.''" by (simp add: abs_of_def)
  moreover have "abs_of ts \<noteq> abs_of bs" using assms by (simp add: abs_of_inject)
  ultimately show ?thesis using assms s by (simp add: Rel_def Let_def)
qed

text \<open>\<open>relativePathInside\<close> on cleaned absolute paths is the prefix order on components.\<close>

lemma inside_abs_of:
  assumes "list_all plain_comp rs" "list_all plain_comp cs"
  shows "relativePathInside (abs_of rs) (abs_of cs) \<longleftrightarrow> prefix rs cs"
proof (cases "rs = cs")
  case True
  then show ?thesis using assms by (simp add: relativePathInside_def Rel_def Let_def IsAbs_def)
next
  case False
  obtain br tr where s: "strip_common rs cs = (br, tr)" by fastforce
  then obtain p where p: "rs = p @ br" "cs = p @ tr" "br = [] \<or> tr = [] \<or> hd br \<noteq> hd tr"
    using strip_common_spec by blast
  have tr: "list_all plain_comp tr" using assms(2) p(2) by simp
  show ?thesis
  proof (cases "br = []")
    case True
    with False p have "tr \<noteq> []" by auto
    then have "below (Join [SLASH] tr)" using tr by (auto simp: below_def)
    then show ?thesis
      using True False p s assms below_not_special below_not_abs
      by (simp add: relativePathInside_def Rel_abs_of)
  next
    case False2: False
    then obtain k where k: "length br = Suc k" by (cases br) auto
    have "\<not> prefix rs cs"
      using p False2 by (auto simp: prefix_def hd_append)
    then show ?thesis
      using Join_replicate_dots [of k tr] k False s assms
      by (auto simp: relativePathInside_def Rel_abs_of)
  qed
qed

lemma inside_Clean:
  assumes "IsAbs root" "IsAbs child"
  shows "relativePathInside root child \<longleftrightarrow> prefix (comps (Clean root)) (comps (Clean child))"
proof -
  obtain rs where rs: "list_all plain_comp rs" "Clean root = abs_of rs"
    using Clean_abs [OF assms(1)] by blast
  obtain cs where cs: "list_all plain_comp cs" "Clean child = abs_of cs"
    using Clean_abs [OF assms(2)] by blast
  have "Rel root child = Rel (abs_of rs) (abs_of cs)"
    using rs cs by (simp add: Rel_def)
  then have "relativePathInside root child = relativePathInside (abs_of rs) (abs_of cs)"
    by (simp add: relativePathInside_def)
  then show ?thesis using rs cs by (simp add: inside_abs_of)
qed

end
