(* ===== verification/Project.thy ===== *)
theory Project
  imports AbsPath
begin

text \<open>
  Package \<open>project\<close> (\<open>project/store.go\<close>): the per-repository storage directories.  The home
  directory, the working directory \<open>wd\<close> and SHA-256 (\<open>sha\<close>, giving the digest bytes) are arguments.
\<close>

record store =
  store_root :: string

definition NewStore :: "(string, string) result \<Rightarrow> string \<Rightarrow> (string, store) result" where
  "NewStore home root =
     (if TrimSpace root = [] then Inl ''project store root is required''
      else if HasPrefix root ''~/'' then
        rbind home (\<lambda>h. Inr \<lparr>store_root = JoinPath [h, TrimPrefix root ''~/'']\<rparr>)
      else Inr \<lparr>store_root = root\<rparr>)"

definition unsafe_char :: "char \<Rightarrow> bool" where
  "unsafe_char c \<longleftrightarrow> \<not> (is_alnum c \<or> c = CHR ''.'' \<or> c = CHR ''_'' \<or> c = CHR ''-'')"

text \<open>\<open>unsafeNameChars.ReplaceAllString(s, "-")\<close>: every maximal run becomes one dash.\<close>

fun replace_unsafe :: "bool \<Rightarrow> string \<Rightarrow> string" where
  "replace_unsafe inrun [] = []"
| "replace_unsafe inrun (c # cs) =
     (if unsafe_char c then (if inrun then replace_unsafe True cs else CHR ''-'' # replace_unsafe True cs)
      else c # replace_unsafe False cs)"

definition hex_digit :: "nat \<Rightarrow> char" where
  "hex_digit d = (if d < 10 then char_of (48 + d) else char_of (87 + d))"

definition hexEncode :: "string \<Rightarrow> string" where
  "hexEncode bs = concat (map (\<lambda>b. [hex_digit (byteval b div 16), hex_digit (byteval b mod 16)]) bs)"

definition Name :: "(string \<Rightarrow> string) \<Rightarrow> string \<Rightarrow> string \<Rightarrow> (string, string) result" where
  "Name sha wd repoPath =
     (if TrimSpace repoPath = [] then Inl ''repo_path is required''
      else let absp = Abs wd repoPath;
               base0 = TrimP (\<lambda>c. c = CHR ''.'' \<or> c = CHR ''-'') (replace_unsafe False (Base absp));
               base = (if base0 = [] then ''repo'' else base0)
           in Inr (base @ ''-'' @ hexEncode (take 4 (sha absp))))"

definition RepoDir :: "(string \<Rightarrow> string) \<Rightarrow> string \<Rightarrow> store \<Rightarrow> string \<Rightarrow> (string, string) result" where
  "RepoDir sha wd s repoPath =
     rbind (Name sha wd repoPath) (\<lambda>n. Inr (JoinPath [store_root s, ''repos'', n]))"

definition LogsDir :: "(string \<Rightarrow> string) \<Rightarrow> string \<Rightarrow> store \<Rightarrow> string \<Rightarrow> (string, string) result" where
  "LogsDir sha wd s repoPath =
     rbind (RepoDir sha wd s repoPath) (\<lambda>d. Inr (JoinPath [d, ''logs'']))"

section \<open>Names are single components\<close>

lemma replace_unsafe_safe: "c \<in> set (replace_unsafe b s) \<Longrightarrow> \<not> unsafe_char c"
  by (induction b s rule: replace_unsafe.induct) (auto simp: unsafe_char_def split: if_splits)

lemma slash_unsafe: "unsafe_char SLASH"
  by (simp add: unsafe_char_def byte_defs)

lemma hex_digit_safe: "d < 16 \<Longrightarrow> \<not> unsafe_char (hex_digit d)"
  by (auto simp: unsafe_char_def hex_digit_def is_alnum_def is_digit_def is_lower_def byteval_char_of)

lemma hexEncode_safe: "c \<in> set (hexEncode bs) \<Longrightarrow> \<not> unsafe_char c"
  using hex_digit_safe [of "byteval b div 16" for b] hex_digit_safe [of "byteval b mod 16" for b]
  by (auto simp: hexEncode_def less_mult_imp_div_less)

lemma Name_safe:
  assumes "Name sha wd p = Inr n"
  shows "plain_comp n \<and> (\<forall>c \<in> set n. \<not> unsafe_char c)"
proof -
  let ?trimmed = "TrimP (\<lambda>c. c = CHR ''.'' \<or> c = CHR ''-'') (replace_unsafe False (Base (Abs wd p)))"
  let ?name = "if ?trimmed = [] then ''repo'' else ?trimmed"
  have n: "n = ?name @ ''-'' @ hexEncode (take 4 (sha (Abs wd p)))"
    using assms by (auto simp: Name_def Let_def split: if_splits)
  have b0: "\<not> unsafe_char c" if "c \<in> set ?trimmed" for c
    using subsetD [OF set_TrimP that] by (rule replace_unsafe_safe)
  have "\<forall>c \<in> set ''repo''. \<not> unsafe_char c" by (simp add: unsafe_char_def byte_defs)
  moreover have "\<not> unsafe_char (CHR ''-'')" by (simp add: unsafe_char_def)
  ultimately have safe: "\<forall>c \<in> set n. \<not> unsafe_char c"
    using b0 hexEncode_safe by (auto simp: n)
  have "CHR ''-'' \<in> set n" by (simp add: n)
  then have "n \<noteq> [] \<and> n \<noteq> ''.'' \<and> n \<noteq> ''..''" by auto
  then show ?thesis using safe slash_unsafe by (auto simp: plain_comp_def)
qed

text \<open>
  Whatever the repository path is, its log directory is \<open>repos/<name>/logs\<close> directly below the
  store root, with a name made of letters, digits, dots, underscores and dashes.
\<close>

lemma LogsDir_below_root:
  assumes "LogsDir sha wd \<lparr>store_root = abs_of rs\<rparr> p = Inr d" "list_all plain_comp rs"
  shows "\<exists>n. Name sha wd p = Inr n \<and> d = abs_of (rs @ [''repos'', n, ''logs''])"
proof -
  obtain n where n: "Name sha wd p = Inr n" "d = JoinPath [JoinPath [abs_of rs, ''repos'', n], ''logs'']"
    using assms(1) by (auto simp: LogsDir_def RepoDir_def result_simps)
  have "plain_comp n" using Name_safe [OF n(1)] by simp
  moreover have "plain_comp ''repos''" "plain_comp ''logs''" by (simp_all add: plain_comp_def)
  ultimately have "d = abs_of (rs @ [''repos'', n, ''logs''])"
    using assms(2) n(2) JoinPath_many [of rs "[''repos'', n]"] JoinPath_many [of "rs @ [''repos'', n]" "[''logs'']"]
    by simp
  with n(1) show ?thesis by blast
qed

end
