(* ===== verification/HistoryIndex.thy ===== *)
theory HistoryIndex
  imports Project
begin

text \<open>
  Package \<open>command\<close>, the durable command index of \<open>history.go\<close>: records and index rows, the bounded
  reader of one \<open>index.jsonl\<close> at the level of bytes and buffered reads, the confinement of record
  paths, and the collapse of an append-only index to one row per command.  The JSON and gzip codecs
  are the fields of \<open>codec\<close>; a time is an integer, zero for Go's zero time.
\<close>

section \<open>Data\<close>

record hist_record =
  r_id :: string
  r_status :: string
  r_repo :: string
  r_command :: string
  r_cwd :: string
  r_exit :: int
  r_duration :: int
  r_truncated :: bool
  r_stdout :: "string list"
  r_stderr :: "string list"
  r_combined :: "string list"
  r_hash :: string
  r_started :: int
  r_completed :: int
  r_created :: int

record indexEntry =
  e_id :: string
  e_status :: string
  e_repo :: string
  e_project :: string
  e_command :: string
  e_cwd :: string
  e_exit :: int
  e_truncated :: bool
  e_hash :: string
  e_created :: int
  e_file :: string
  e_index :: string      \<comment> \<open>the index file a row was read from; not encoded\<close>

record codec =
  enc_record :: "hist_record \<Rightarrow> string"
  dec_record :: "string \<Rightarrow> hist_record option"
  enc_entry :: "indexEntry \<Rightarrow> string"
  dec_entry :: "string \<Rightarrow> indexEntry option"
  gzip :: "string \<Rightarrow> string"
  gunzip :: "string \<Rightarrow> string option"

definition maxIndexLineBytes :: nat where "maxIndexLineBytes = 1048576"
definition maxIndexTotalBytes :: nat where "maxIndexTotalBytes = 67108864"
definition maxHistoryRecordBytes :: nat where "maxHistoryRecordBytes = 16777216"

definition isTerminalStatus :: "string \<Rightarrow> bool" where
  "isTerminalStatus s \<longleftrightarrow> s \<noteq> [] \<and> s \<noteq> ''running''"

section \<open>Record paths\<close>

definition normalizeRecordPath :: "string \<Rightarrow> string \<Rightarrow> (string, string) result" where
  "normalizeRecordPath indexPath recordPath =
     (if TrimSpace recordPath = [] then Inl ''command log record path is empty''
      else let cand0 = (if IsAbs recordPath then recordPath else JoinPath [Dir indexPath, recordPath]);
               cand = Clean cand0;
               recordsDir = JoinPath [Dir indexPath, ''records'']
           in (case Rel recordsDir cand of
                 None \<Rightarrow> Inl ''command log record path escapes records directory''
               | Some rel \<Rightarrow>
                   if rel = ''.'' \<or> rel = ''..'' \<or> HasPrefix rel ''../'' \<or> Dir rel \<noteq> ''.'' then
                     Inl ''command log record path escapes records directory''
                   else if \<not> HasSuffix rel ''.json'' \<and> \<not> HasSuffix rel ''.json.gz'' then
                     Inl ''command log record has unsupported extension''
                   else Inr cand))"

section \<open>Reading one index\<close>

text \<open>\<open>bufio.Reader.ReadSlice('\n')\<close> with a buffer of \<open>bsz\<close> bytes (at least 16, as in Go).\<close>

datatype slice_status = SliceLine | SliceFull | SliceEOF

definition read_slice :: "nat \<Rightarrow> string \<Rightarrow> string \<times> slice_status \<times> string" where
  "read_slice bsz s =
     (let n = max 16 bsz; l = takeWhile (\<lambda>c. c \<noteq> LF) s in
      if length l < n \<and> length l < length s then (l @ [LF], SliceLine, drop (Suc (length l)) s)
      else if n \<le> length s then (take n s, SliceFull, drop n s)
      else (s, SliceEOF, []))"

definition cut_newline :: "string \<Rightarrow> string" where
  "cut_newline line =
     (let r = dropWhile (\<lambda>c. c \<noteq> LF) (rev line) in if r = [] then line else rev (tl r))"

text \<open>One assembled line: empty lines are skipped, others decoded and their path checked.\<close>

definition add_entry :: "codec \<Rightarrow> string \<Rightarrow> string \<Rightarrow> indexEntry list \<Rightarrow> (string, indexEntry list) result" where
  "add_entry cd indexPath l acc =
     (if l = [] then Inr acc
      else (case dec_entry cd l of
              None \<Rightarrow> Inl ''decode command log index''
            | Some e \<Rightarrow> rbind (normalizeRecordPath indexPath (e_file e)) (\<lambda>p.
                Inr (acc @ [e\<lparr>e_index := indexPath, e_file := p\<rparr>]))))"

lemma read_slice_rest:
  "read_slice bsz s = (chunk, st, rest) \<Longrightarrow> s = chunk @ rest \<and> (st \<noteq> SliceEOF \<longrightarrow> length rest < length s)"
proof -
  assume a: "read_slice bsz s = (chunk, st, rest)"
  let ?l = "takeWhile (\<lambda>c. c \<noteq> LF) s"
  show ?thesis
  proof (cases "length ?l < max 16 bsz \<and> length ?l < length s")
    case True
    then have ne: "dropWhile (\<lambda>c. c \<noteq> LF) s \<noteq> []"
      by (simp add: dropWhile_eq_drop)
    then have "hd (dropWhile (\<lambda>c. c \<noteq> LF) s) = LF"
      using hd_dropWhile by blast
    moreover have "tl (dropWhile (\<lambda>c. c \<noteq> LF) s) = drop (Suc (length ?l)) s"
      by (simp add: dropWhile_eq_drop tl_drop drop_Suc)
    ultimately have "dropWhile (\<lambda>c. c \<noteq> LF) s = LF # drop (Suc (length ?l)) s"
      using ne by (metis list.collapse)
    then have "s = ?l @ LF # drop (Suc (length ?l)) s"
      using takeWhile_dropWhile_id [of "\<lambda>c. c \<noteq> LF" s] by simp
    moreover have "chunk = ?l @ [LF]" "rest = drop (Suc (length ?l)) s"
      using True a by (simp_all add: read_slice_def Let_def)
    moreover have "length (drop (Suc (length ?l)) s) < length s"
      using True unfolding length_drop by linarith
    ultimately show ?thesis by simp
  next
    case False
    with a show ?thesis
      by (cases "max 16 bsz \<le> length s") (auto simp: read_slice_def Let_def)
  qed
qed

function index_loop ::
  "codec \<Rightarrow> string \<Rightarrow> nat \<Rightarrow> nat \<Rightarrow> string \<Rightarrow> indexEntry list \<Rightarrow> string \<Rightarrow> (string, indexEntry list) result" where
  "index_loop cd ip lineCap bsz line acc s =
     (case read_slice bsz s of (chunk, st, rest) \<Rightarrow>
        if length (line @ chunk) > lineCap then Inl ''line exceeds byte limit''
        else if st = SliceFull then index_loop cd ip lineCap bsz (line @ chunk) acc rest
        else (case add_entry cd ip (cut_newline (line @ chunk)) acc of
                Inl e \<Rightarrow> Inl e
              | Inr acc' \<Rightarrow>
                  if st = SliceEOF then Inr acc' else index_loop cd ip lineCap bsz [] acc' rest))"
  by pat_completeness auto
termination
  by (relation "measure (\<lambda>(cd, ip, lineCap, bsz, line, acc, s). length s)")
    (auto dest!: sym [of "(_, _, _)"] dest: read_slice_rest)

declare index_loop.simps [simp del]

definition indexBufferBytes :: nat where "indexBufferBytes = 65536"

definition readEntriesFileBounded ::
  "codec \<Rightarrow> string \<Rightarrow> nat \<Rightarrow> nat \<Rightarrow> string option \<Rightarrow> (string, indexEntry list) result" where
  "readEntriesFileBounded cd ip lineCap totalCap content =
     (case content of
        None \<Rightarrow> Inr []
      | Some s \<Rightarrow> rbind (index_loop cd ip lineCap indexBufferBytes [] [] s) (\<lambda>es.
          if length s > totalCap then Inl ''total read exceeds byte limit'' else Inr es))"

definition readEntriesFile :: "codec \<Rightarrow> string \<Rightarrow> string option \<Rightarrow> (string, indexEntry list) result" where
  "readEntriesFile cd ip content = readEntriesFileBounded cd ip maxIndexLineBytes maxIndexTotalBytes content"

section \<open>One row per command\<close>

definition supersedes :: "indexEntry \<Rightarrow> indexEntry \<Rightarrow> bool" where
  "supersedes candidate current =
     (if isTerminalStatus (e_status candidate) \<noteq> isTerminalStatus (e_status current)
      then isTerminalStatus (e_status candidate)
      else e_created current < e_created candidate)"

fun latest_loop ::
  "(string \<Rightarrow> indexEntry option) \<Rightarrow> string list \<Rightarrow> indexEntry list \<Rightarrow> (string \<Rightarrow> indexEntry option) \<times> string list" where
  "latest_loop best order [] = (best, order)"
| "latest_loop best order (e # es) =
     (case best (e_id e) of
        None \<Rightarrow> latest_loop (best(e_id e \<mapsto> e)) (order @ [e_id e]) es
      | Some current \<Rightarrow>
          latest_loop (if supersedes e current then best(e_id e \<mapsto> e) else best) order es)"

definition latestEntries :: "indexEntry list \<Rightarrow> indexEntry list" where
  "latestEntries es = (case latest_loop (\<lambda>k. None) [] es of (best, order) \<Rightarrow> map (\<lambda>k. the (best k)) order)"

text \<open>The row \<open>durableRecord\<close> resolves for one command.\<close>

fun best_row :: "indexEntry option \<Rightarrow> indexEntry list \<Rightarrow> indexEntry option" where
  "best_row best [] = best"
| "best_row best (e # es) =
     (case best of
        None \<Rightarrow> best_row (Some e) es
      | Some b \<Rightarrow> best_row (Some (if supersedes e b then e else b)) es)"

definition durable_row :: "string \<Rightarrow> indexEntry list \<Rightarrow> indexEntry option" where
  "durable_row cid es = best_row None (filter (\<lambda>e. e_id e = cid) es)"

section \<open>The bounded reader\<close>

text \<open>The reference reader: cut at newlines, bound every line, decode one after the other.\<close>

fun parse_lines :: "codec \<Rightarrow> string \<Rightarrow> nat \<Rightarrow> indexEntry list \<Rightarrow> string list \<Rightarrow> (string, indexEntry list) result" where
  "parse_lines cd ip lineCap acc [] = Inr acc"
| "parse_lines cd ip lineCap acc [l] =
     (if length l > lineCap then Inl ''line exceeds byte limit'' else add_entry cd ip l acc)"
| "parse_lines cd ip lineCap acc (l # l' # ls) =
     (if Suc (length l) > lineCap then Inl ''line exceeds byte limit''
      else rbind (add_entry cd ip l acc) (\<lambda>acc'. parse_lines cd ip lineCap acc' (l' # ls)))"

lemma cut_newline_line: "LF \<notin> set l \<Longrightarrow> cut_newline (l @ [LF]) = l"
  by (simp add: cut_newline_def)

lemma cut_newline_none: "LF \<notin> set l \<Longrightarrow> cut_newline l = l"
  by (simp add: cut_newline_def dropWhile_eq_Nil_conv)

lemma read_slice_cases:
  assumes "read_slice bsz s = (chunk, st, rest)"
  shows "(st = SliceLine \<longrightarrow> (\<exists>l. LF \<notin> set l \<and> chunk = l @ [LF] \<and> s = l @ LF # rest))
       \<and> (st = SliceFull \<longrightarrow> LF \<notin> set chunk \<and> s = chunk @ rest \<and> length chunk = max 16 bsz)
       \<and> (st = SliceEOF \<longrightarrow> LF \<notin> set s \<and> chunk = s \<and> rest = [])"
proof -
  let ?l = "takeWhile (\<lambda>c. c \<noteq> LF) s"
  have nl: "LF \<notin> set ?l" using set_takeWhileD by fastforce
  have sp: "s = chunk @ rest" using read_slice_rest [OF assms] by simp
  show ?thesis
  proof (cases "length ?l < max 16 bsz \<and> length ?l < length s")
    case True
    then have "st = SliceLine" "chunk = ?l @ [LF]"
      using assms by (simp_all add: read_slice_def Let_def)
    with nl sp show ?thesis by (metis append.assoc append_Cons append_Nil slice_status.distinct(1,3))
  next
    case False
    show ?thesis
    proof (cases "max 16 bsz \<le> length s")
      case True
      then have c: "st = SliceFull" "chunk = take (max 16 bsz) s" using False assms by (auto simp: read_slice_def Let_def)
      have "max 16 bsz \<le> length ?l" using False True length_takeWhile_le [of "\<lambda>c. c \<noteq> LF" s] by linarith
      then have "take (max 16 bsz) s = take (max 16 bsz) ?l"
        by (metis takeWhile_eq_take take_take min.absorb1)
      then have "LF \<notin> set chunk" using nl c by (metis in_set_takeD)
      moreover have "length chunk = max 16 bsz" using c(2) True by (metis length_take min.absorb2)
      ultimately show ?thesis using c(1) sp by simp
    next
      case False2: False
      then have c: "st = SliceEOF" "chunk = s" "rest = []" using False assms by (auto simp: read_slice_def Let_def)
      have "length ?l = length s" using False False2 length_takeWhile_le [of "\<lambda>c. c \<noteq> LF" s] by linarith
      then have "?l = s" by (metis takeWhile_eq_take take_all order_refl)
      with nl c show ?thesis by simp
    qed
  qed
qed

lemma SplitChar_prefix_length: "LF \<notin> set p \<Longrightarrow> \<exists>l ls. SplitChar LF (p @ s) = l # ls \<and> length p \<le> length l"
proof (induction p)
  case Nil
  then show ?case using SplitChar_ne by (metis append_Nil le0 list.exhaust list.size(3))
next
  case (Cons x p)
  then obtain l ls where "SplitChar LF (p @ s) = l # ls" "length p \<le> length l" by auto
  with Cons.prems show ?case by auto
qed

lemma parse_lines_long:
  "length l > cap \<Longrightarrow> parse_lines cd ip cap acc (l # ls) = Inl ''line exceeds byte limit''"
  by (cases ls) auto

text \<open>How the buffered reads cut a line does not matter: the loop is the reference reader.\<close>

lemma index_loop_lines:
  "LF \<notin> set line \<Longrightarrow>
   index_loop cd ip cap bsz line acc s = parse_lines cd ip cap acc (SplitChar LF (line @ s))"
proof (induction cd ip cap bsz line acc s rule: index_loop.induct)
  case (1 cd ip cap bsz line acc s)
  obtain chunk st rest where r: "read_slice bsz s = (chunk, st, rest)" by (metis prod_cases3)
  note c = read_slice_cases [OF r]
  show ?case
  proof (cases st)
    case SliceLine
    with c obtain l where l: "LF \<notin> set l" "chunk = l @ [LF]" "s = l @ LF # rest" by auto
    have sp: "SplitChar LF (line @ s) = (line @ l) # SplitChar LF rest"
      using l "1.prems" SplitChar_append [of LF "line @ l" rest] by simp
    obtain q qs where q: "SplitChar LF rest = q # qs" using SplitChar_ne by (metis list.exhaust)
    have cl: "cut_newline (line @ chunk) = line @ l"
      using cut_newline_line [of "line @ l"] l "1.prems" by simp
    then have cl': "cut_newline (line @ l @ [LF]) = line @ l" using l(2) by simp
    show ?thesis
    proof (cases "add_entry cd ip (line @ l) acc")
      case (Inl e)
      then show ?thesis
        by (subst index_loop.simps) (simp add: r SliceLine sp q cl' l(2))
    next
      case (Inr acc')
      show ?thesis
      proof (cases "length (line @ chunk) > cap")
        case True
        then show ?thesis by (subst index_loop.simps) (simp add: r SliceLine sp q l(2))
      next
        case False
        have "index_loop cd ip cap bsz [] acc' rest = parse_lines cd ip cap acc' (SplitChar LF rest)"
          using "1.IH"(2) [OF r [symmetric] refl False] SliceLine Inr cl by simp
        with False Inr show ?thesis
          by (subst index_loop.simps) (simp add: r SliceLine sp q cl' l(2))
      qed
    qed
  next
    case SliceFull
    with c have f: "LF \<notin> set chunk" "s = chunk @ rest" by auto
    show ?thesis
    proof (cases "length (line @ chunk) > cap")
      case True
      obtain l ls where "SplitChar LF ((line @ chunk) @ rest) = l # ls" "length (line @ chunk) \<le> length l"
        using SplitChar_prefix_length [of "line @ chunk" rest] f "1.prems" by auto
      with True f(2) have "parse_lines cd ip cap acc (SplitChar LF (line @ s)) = Inl ''line exceeds byte limit''"
        by (simp add: parse_lines_long)
      with True show ?thesis by (subst index_loop.simps) (simp add: r)
    next
      case False
      have "index_loop cd ip cap bsz (line @ chunk) acc rest = parse_lines cd ip cap acc (SplitChar LF ((line @ chunk) @ rest))"
        using "1.IH"(1) [OF r [symmetric] refl False SliceFull] f(1) "1.prems" by simp
      moreover have "index_loop cd ip cap bsz line acc s = index_loop cd ip cap bsz (line @ chunk) acc rest"
        using False SliceFull by (subst index_loop.simps) (simp add: r)
      ultimately show ?thesis using f(2) by simp
    qed
  next
    case SliceEOF
    with c have f: "LF \<notin> set s" "chunk = s" "rest = []" by auto
    then have sp: "SplitChar LF (line @ s) = [line @ s]"
      using "1.prems" by (simp add: SplitChar_single)
    have cl: "cut_newline (line @ s) = line @ s"
      using f(1) "1.prems" by (simp add: cut_newline_none)
    show ?thesis
      by (subst index_loop.simps) (simp add: r SliceEOF sp cl f(2) split: sum.splits)
  qed
qed

lemma readEntriesFileBounded_lines:
  "readEntriesFileBounded cd ip lineCap totalCap (Some s) =
     rbind (parse_lines cd ip lineCap [] (SplitChar LF s)) (\<lambda>es.
       if length s > totalCap then Inl ''total read exceeds byte limit'' else Inr es)"
  by (simp add: readEntriesFileBounded_def index_loop_lines)

text \<open>A row appended behind complete lines is read back behind the rows before it.\<close>

definition row_result ::
  "codec \<Rightarrow> string \<Rightarrow> nat \<Rightarrow> indexEntry list \<Rightarrow> string \<Rightarrow> (string, indexEntry list) result" where
  "row_result cd ip lineCap acc l =
     (if Suc (length l) > lineCap then Inl ''line exceeds byte limit'' else add_entry cd ip l acc)"

fun rows_result ::
  "codec \<Rightarrow> string \<Rightarrow> nat \<Rightarrow> indexEntry list \<Rightarrow> string list \<Rightarrow> (string, indexEntry list) result" where
  "rows_result cd ip lineCap acc [] = Inr acc"
| "rows_result cd ip lineCap acc (l # ls) =
     rbind (row_result cd ip lineCap acc l) (\<lambda>acc'. rows_result cd ip lineCap acc' ls)"

lemma rows_result_append:
  "rows_result cd ip cap acc (ls @ ms) = rbind (rows_result cd ip cap acc ls) (\<lambda>a. rows_result cd ip cap a ms)"
proof (induction ls arbitrary: acc)
  case Nil
  then show ?case by simp
next
  case (Cons l ls)
  then show ?case by (cases "row_result cd ip cap acc l") simp_all
qed

lemma parse_lines_terminated:
  "parse_lines cd ip cap acc (ls @ [[]]) = rows_result cd ip cap acc ls"
proof (induction ls arbitrary: acc)
  case Nil
  then show ?case by (simp add: add_entry_def)
next
  case (Cons l ls)
  obtain x xs where "ls @ [[]] = x # xs" by (cases ls) auto
  then show ?case
    using Cons by (cases "add_entry cd ip l acc") (auto simp: row_result_def)
qed

fun unlines :: "string list \<Rightarrow> string" where
  "unlines [] = []"
| "unlines (l # ls) = l @ LF # unlines ls"

lemma unlines_append: "unlines (ls @ ms) = unlines ls @ unlines ms"
  by (induction ls) auto

lemma SplitChar_unlines: "\<forall>l \<in> set ls. LF \<notin> set l \<Longrightarrow> SplitChar LF (unlines ls) = ls @ [[]]"
  by (induction ls) (auto simp: SplitChar_append)

lemma read_unlines:
  assumes "\<forall>l \<in> set ls. LF \<notin> set l"
  shows "readEntriesFileBounded cd ip lineCap totalCap (Some (unlines ls)) =
     rbind (rows_result cd ip lineCap [] ls) (\<lambda>es.
       if length (unlines ls) > totalCap then Inl ''total read exceeds byte limit'' else Inr es)"
  using assms by (simp add: readEntriesFileBounded_lines SplitChar_unlines parse_lines_terminated)

section \<open>Record paths stay in the records directory\<close>

lemma json_suffix_plain:
  assumes "HasSuffix n ''.json'' \<or> HasSuffix n ''.json.gz''" "SLASH \<notin> set n"
  shows "plain_comp n"
  using assms by (auto simp: plain_comp_def HasSuffix_iff)

lemma Rel_records:
  assumes "list_all plain_comp bs" "list_all plain_comp ts"
    "Rel (abs_of bs) (abs_of ts) = Some rel" "rel \<noteq> ''.''" "rel \<noteq> ''..''" "\<not> HasPrefix rel ''../''" "Dir rel = ''.''"
  shows "plain_comp rel \<and> ts = bs @ [rel]"
proof -
  have ne: "bs \<noteq> ts" using assms(1-4) by (auto simp: Rel_def)
  obtain br tr where s: "strip_common bs ts = (br, tr)" by fastforce
  then obtain p where p: "bs = p @ br" "ts = p @ tr" using strip_common_spec by blast
  have rel: "rel = Join [SLASH] (replicate (length br) ''..'' @ tr)"
    using Rel_abs_of [OF assms(1,2) ne] assms(3) s by simp
  have "br = []"
  proof (rule ccontr)
    assume "br \<noteq> []"
    then obtain k where "length br = Suc k" by (cases br) auto
    then show False using Join_replicate_dots [of k tr] rel assms(5,6) by auto
  qed
  with rel p ne have r: "rel = Join [SLASH] tr" "tr \<noteq> []" "list_all plain_comp tr" "bs = p"
    using assms(2) by auto
  then have "below rel" by (auto simp: below_def)
  then have "tr = [rel]"
  proof (cases rule: below_cases)
    case top
    then show ?thesis using r below_split [of "[rel]"] below_split [of tr] by simp
  next
    case (deep cs c)
    have "Join [SLASH] cs = ''.''" using deep assms(7) by simp
    moreover have "below (Join [SLASH] cs)" using deep by (auto simp: below_def)
    ultimately show ?thesis using below_not_special by metis
  qed
  with r p show ?thesis by auto
qed

lemma records_dir:
  assumes "list_all plain_comp ls"
  shows "JoinPath [Dir (abs_of (ls @ [''index.jsonl''])), ''records''] = abs_of (ls @ [''records''])"
proof -
  have "plain_comp ''index.jsonl''" "plain_comp ''records''" by (simp_all add: plain_comp_def)
  then show ?thesis
    using assms JoinPath_many [of ls "[''records'']"] by (simp add: Dir_abs_of)
qed

text \<open>
  Every path the reader accepts is a file directly inside \<open>records\<close> beside the index, whatever the
  index row says.
\<close>

lemma normalizeRecordPath_file:
  assumes "list_all plain_comp ls" "normalizeRecordPath (abs_of (ls @ [''index.jsonl''])) p = Inr c"
  shows "\<exists>n. plain_comp n \<and> c = abs_of (ls @ [''records'', n]) \<and> (HasSuffix n ''.json'' \<or> HasSuffix n ''.json.gz'')"
proof -
  let ?ip = "abs_of (ls @ [''index.jsonl''])"
  let ?cand = "Clean (if IsAbs p then p else JoinPath [Dir ?ip, p])"
  have pl: "plain_comp ''index.jsonl''" "plain_comp ''records''" by (simp_all add: plain_comp_def)
  have d: "Dir ?ip = abs_of ls" using pl assms(1) by (simp add: Dir_abs_of)
  have pne: "p \<noteq> []" using assms(2) by (auto simp: normalizeRecordPath_def TrimSpace_def TrimP_def TrimRightP_def TrimLeftP_def)
  have "IsAbs (if IsAbs p then p else JoinPath [Dir ?ip, p])"
    using JoinPath_abs [OF assms(1) pne] d by simp
  then obtain ts where ts: "list_all plain_comp ts" "?cand = abs_of ts" by (rule Clean_abs)
  obtain rel where rel: "Rel (abs_of (ls @ [''records''])) (abs_of ts) = Some rel"
      "rel \<noteq> ''.''" "rel \<noteq> ''..''" "\<not> HasPrefix rel ''../''" "Dir rel = ''.''"
      "HasSuffix rel ''.json'' \<or> HasSuffix rel ''.json.gz''" "c = abs_of ts"
    using assms(2) unfolding normalizeRecordPath_def Let_def records_dir [OF assms(1)] ts(2)
    by (auto split: if_splits option.splits)
  have "plain_comp rel \<and> ts = (ls @ [''records'']) @ [rel]"
    using Rel_records [OF _ ts(1) rel(1-5)] assms(1) pl by simp
  with rel(6,7) show ?thesis by auto
qed

text \<open>The path \<open>Put\<close> records is accepted as it stands.\<close>

lemma normalizeRecordPath_own:
  assumes "list_all plain_comp ls" "plain_comp n" "HasSuffix n ''.json'' \<or> HasSuffix n ''.json.gz''"
  shows "normalizeRecordPath (abs_of (ls @ [''index.jsonl''])) (abs_of (ls @ [''records'', n])) =
    Inr (abs_of (ls @ [''records'', n]))"
proof -
  have pl: "plain_comp ''records''" by (simp add: plain_comp_def)
  have sc: "strip_common (xs @ ys) (xs @ zs) = strip_common ys zs" for xs ys zs
    by (induction xs) auto
  have b: "below n" using assms(2) unfolding below_def by (intro exI [where x = "[n]"]) simp
  have r: "Rel (abs_of (ls @ [''records''])) (abs_of (ls @ [''records'', n])) = Some n"
    using assms(1,2) pl sc [of "ls" "[''records'']" "[''records'', n]"] by (simp add: Rel_abs_of)
  have c: "Clean (abs_of (ls @ [''records'', n])) = abs_of (ls @ [''records'', n])"
    using assms(1,2) pl by simp
  have t: "TrimSpace (abs_of (ls @ [''records'', n])) \<noteq> []"
  proof -
    have "\<not> is_space SLASH" by (simp add: byte_defs)
    then show ?thesis by (auto simp: TrimSpace_def TrimP_def TrimRightP_def TrimLeftP_def abs_of_def dropWhile_eq_Nil_conv)
  qed
  show ?thesis
    using below_not_special [OF b] Dir_below_single [OF assms(2)] assms(3) t
    unfolding normalizeRecordPath_def Let_def records_dir [OF assms(1)]
    by (simp add: r c)
qed

section \<open>One row per command\<close>

lemma supersedes_asym: "supersedes a b \<Longrightarrow> \<not> supersedes b a"
  by (auto simp: supersedes_def split: if_splits)

lemma supersedes_irrefl [simp]: "\<not> supersedes a a"
  by (simp add: supersedes_def)

lemma not_supersedes_trans: "\<not> supersedes a b \<Longrightarrow> \<not> supersedes b c \<Longrightarrow> \<not> supersedes a c"
  by (auto simp: supersedes_def split: if_splits)

text \<open>Once a terminal row is known, no running row replaces it, whatever its time.\<close>

lemma supersedes_terminal:
  "isTerminalStatus (e_status b) \<Longrightarrow> supersedes a b \<Longrightarrow> isTerminalStatus (e_status a)"
  by (auto simp: supersedes_def split: if_splits)

lemma best_row_append: "best_row b (es @ fs) = best_row (best_row b es) fs"
  by (induction es arbitrary: b) (auto split: option.splits)

lemma best_row_None: "best_row b es = None \<longleftrightarrow> b = None \<and> es = []"
  by (induction es arbitrary: b) (auto split: option.splits)

lemma best_row_max:
  "best_row (Some b) es = Some m \<Longrightarrow> m \<in> insert b (set es) \<and> (\<forall>e \<in> insert b (set es). \<not> supersedes e m)"
proof (induction es arbitrary: b)
  case Nil
  then show ?case by simp
next
  case (Cons e es)
  let ?b = "if supersedes e b then e else b"
  have IH: "m \<in> insert ?b (set es)" "\<forall>x \<in> insert ?b (set es). \<not> supersedes x m"
    using Cons.IH [of ?b] Cons.prems by auto
  have "\<not> supersedes b ?b" "\<not> supersedes e ?b"
    using supersedes_asym by auto
  then have "\<not> supersedes b m" "\<not> supersedes e m"
    using IH(2) not_supersedes_trans by blast+
  with IH show ?case by (auto split: if_splits)
qed

lemma durable_row_Some:
  assumes "durable_row k es = Some m"
  shows "m \<in> set es \<and> e_id m = k \<and> (\<forall>e \<in> set es. e_id e = k \<longrightarrow> \<not> supersedes e m)"
proof -
  obtain x xs where x: "filter (\<lambda>e. e_id e = k) es = x # xs"
    using assms by (cases "filter (\<lambda>e. e_id e = k) es") (auto simp: durable_row_def)
  have "best_row (Some x) xs = Some m" using assms x by (simp add: durable_row_def)
  from best_row_max [OF this] have m: "m \<in> set (x # xs)" "\<forall>e \<in> set (x # xs). \<not> supersedes e m" by auto
  moreover have "set (x # xs) = {e \<in> set es. e_id e = k}" using x by (metis set_filter)
  ultimately show ?thesis by auto
qed

lemma durable_row_None: "durable_row k es = None \<longleftrightarrow> k \<notin> e_id ` set es"
  by (auto simp: durable_row_def best_row_None filter_empty_conv)

lemma durable_row_snoc:
  "durable_row k (es @ [e]) =
     (if e_id e = k then (case durable_row k es of None \<Rightarrow> Some e | Some b \<Rightarrow> Some (if supersedes e b then e else b))
      else durable_row k es)"
  by (auto simp: durable_row_def best_row_append split: option.splits)

text \<open>A terminal row of the command always beats its running rows.\<close>

lemma durable_row_terminal:
  assumes "e \<in> set es" "isTerminalStatus (e_status e)"
  shows "\<exists>m. durable_row (e_id e) es = Some m \<and> isTerminalStatus (e_status m)"
proof -
  obtain m where m: "durable_row (e_id e) es = Some m"
    using assms(1) durable_row_None [of "e_id e" es] by fastforce
  then have "\<not> supersedes e m" using durable_row_Some assms(1) by blast
  with assms(2) m show ?thesis by (auto simp: supersedes_def split: if_splits)
qed

lemma latest_loop_snoc:
  "latest_loop best order (es @ [e]) =
     (case latest_loop best order es of (b, ids) \<Rightarrow> latest_loop b ids [e])"
proof (induction es arbitrary: best order)
  case Nil
  then show ?case by simp
next
  case (Cons a es)
  show ?case
  proof (cases "best (e_id a)")
    case None
    then show ?thesis using Cons.IH [of "best(e_id a \<mapsto> a)" "order @ [e_id a]"]
      by (simp del: fun_upd_apply)
  next
    case (Some c)
    then show ?thesis using Cons.IH [of "if supersedes a c then best(e_id a \<mapsto> a) else best" order]
      by (simp del: fun_upd_apply)
  qed
qed

lemma latest_loop_inv:
  "latest_loop (\<lambda>k. None) [] es = (\<lambda>k. durable_row k es, rev (remdups (rev (map e_id es))))"
proof (induction es rule: rev_induct)
  case Nil
  then show ?case by (simp add: durable_row_def)
next
  case (snoc e es)
  have "(\<lambda>k. durable_row k (es @ [e])) =
    (\<lambda>k. durable_row k es)(e_id e \<mapsto> (case durable_row (e_id e) es of None \<Rightarrow> e
       | Some b \<Rightarrow> if supersedes e b then e else b))"
    by (auto simp: durable_row_snoc fun_eq_iff split: option.splits)
  then show ?case
    using durable_row_None [of "e_id e" es]
    by (cases "durable_row (e_id e) es") (auto simp: latest_loop_snoc snoc.IH fun_eq_iff)
qed

lemma latestEntries_rows:
  "latestEntries es = map (\<lambda>k. the (durable_row k es)) (rev (remdups (rev (map e_id es))))"
  by (simp add: latestEntries_def latest_loop_inv)

lemma latestEntries_ids: "map e_id (latestEntries es) = rev (remdups (rev (map e_id es)))"
proof -
  have "e_id (the (durable_row k es)) = k" if "k \<in> set (rev (remdups (rev (map e_id es))))" for k
  proof -
    have "durable_row k es \<noteq> None" using that by (simp add: durable_row_None)
    then show ?thesis using durable_row_Some by (metis option.exhaust_sel)
  qed
  then have "map (\<lambda>k. e_id (the (durable_row k es))) (rev (remdups (rev (map e_id es)))) = rev (remdups (rev (map e_id es)))"
    by (intro map_idI)
  then show ?thesis by (simp only: latestEntries_rows map_map comp_def)
qed

lemma latestEntries_distinct: "distinct (map e_id (latestEntries es))"
  by (simp add: latestEntries_ids)

lemma latestEntries_mem: "m \<in> set (latestEntries es) \<longleftrightarrow> durable_row (e_id m) es = Some m"
proof
  assume "m \<in> set (latestEntries es)"
  then obtain k where k: "k \<in> e_id ` set es" "m = the (durable_row k es)"
    by (auto simp: latestEntries_rows)
  then have "durable_row k es \<noteq> None" by (simp add: durable_row_None)
  with k show "durable_row (e_id m) es = Some m" using durable_row_Some by (metis option.exhaust_sel)
next
  assume a: "durable_row (e_id m) es = Some m"
  then have "e_id m \<in> e_id ` set es" using durable_row_None by (metis option.distinct(1))
  then show "m \<in> set (latestEntries es)" using a by (force simp: latestEntries_rows)
qed

lemma latestEntries_subset: "set (latestEntries es) \<subseteq> set es"
  using latestEntries_mem durable_row_Some by fast

section \<open>Properties\<close>

text \<open>
  Claim C13: collapsing an index gives exactly one row per command, in the order the commands first
  appear; a command that ever reported a terminal state is represented by a terminal row, and no
  row of the command supersedes the one that was chosen.
\<close>

theorem latestEntries_spec:
  "map e_id (latestEntries es) = rev (remdups (rev (map e_id es)))
   \<and> (\<forall>m \<in> set (latestEntries es). m \<in> set es
        \<and> \<not> list_ex (\<lambda>e. e_id e = e_id m \<and> (supersedes e m \<or> (isTerminalStatus (e_status e) \<and> \<not> isTerminalStatus (e_status m)))) es)"
proof (intro conjI ballI notI)
  show "map e_id (latestEntries es) = rev (remdups (rev (map e_id es)))"
    by (rule latestEntries_ids)
  fix m assume m: "m \<in> set (latestEntries es)"
  show "m \<in> set es" using m latestEntries_subset by blast
  assume "list_ex (\<lambda>e. e_id e = e_id m \<and> (supersedes e m \<or> (isTerminalStatus (e_status e) \<and> \<not> isTerminalStatus (e_status m)))) es"
  then obtain e where e: "e \<in> set es" "e_id e = e_id m"
      "supersedes e m \<or> (isTerminalStatus (e_status e) \<and> \<not> isTerminalStatus (e_status m))"
    by (auto simp: list_ex_iff)
  have "\<not> supersedes e m" using m e latestEntries_mem durable_row_Some by metis
  with e(3) show False by (auto simp: supersedes_def)
qed

definition row_ex :: "string \<Rightarrow> string \<Rightarrow> int \<Rightarrow> indexEntry" where
  "row_ex i s t = \<lparr>e_id = i, e_status = s, e_repo = [], e_project = [], e_command = [], e_cwd = [], e_exit = 0,
     e_truncated = False, e_hash = [], e_created = t, e_file = [], e_index = []\<rparr>"

theorem latestEntries_spec_witness:
  "latestEntries [row_ex ''a'' ''running'' 9, row_ex ''b'' ''running'' 2, row_ex ''a'' ''ok'' 3] =
     [row_ex ''a'' ''ok'' 3, row_ex ''b'' ''running'' 2]
   \<and> map e_id (latestEntries [row_ex ''a'' ''running'' 9, row_ex ''b'' ''running'' 2, row_ex ''a'' ''ok'' 3]) = [''a'', ''b'']"
  using latestEntries_spec [of "[row_ex ''a'' ''running'' 9, row_ex ''b'' ''running'' 2, row_ex ''a'' ''ok'' 3]"]
  by (simp add: latestEntries_def row_ex_def supersedes_def isTerminalStatus_def)

text \<open>
  The index reader accepts a file exactly when every line fits the line budget, decodes and
  names a record file directly inside the records directory, and the file fits the total budget;
  the boundaries of the buffered reads never change what it returns.
\<close>

theorem readEntriesFileBounded_exact:
  "readEntriesFileBounded cd ip lineCap totalCap content =
     (case content of
        None \<Rightarrow> Inr []
      | Some s \<Rightarrow> rbind (parse_lines cd ip lineCap [] (SplitChar LF s)) (\<lambda>es.
          if length s > totalCap then Inl ''total read exceeds byte limit'' else Inr es))"
  by (cases content) (simp_all add: readEntriesFileBounded_def index_loop_lines)

text \<open>
  A row of an index can only name a file directly inside the \<open>records\<close> directory beside
  that index: the accepted path has exactly one component more than that directory, and a record
  suffix.
\<close>

theorem normalizeRecordPath_confined:
  assumes "list_all plain_comp ls" "normalizeRecordPath (abs_of (ls @ [''index.jsonl''])) p = Inr c"
  shows "\<exists>n. plain_comp n \<and> c = abs_of (ls @ [''records'', n]) \<and> (HasSuffix n ''.json'' \<or> HasSuffix n ''.json.gz'')"
  by (rule normalizeRecordPath_file [OF assms])

theorem normalizeRecordPath_confined_witness:
  "\<exists>n. plain_comp n \<and> abs_of [''l'', ''records'', ''x.json''] = abs_of ([''l''] @ [''records'', n])
     \<and> (HasSuffix n ''.json'' \<or> HasSuffix n ''.json.gz'')"
proof (rule normalizeRecordPath_confined [where p = "abs_of [''l'', ''records'', ''x.json'']"])
  show "list_all plain_comp [''l'']" by (simp add: plain_comp_def)
  have "plain_comp ''x.json''" "HasSuffix ''x.json'' ''.json''" by (simp_all add: plain_comp_def HasSuffix_def)
  then show "normalizeRecordPath (abs_of ([''l''] @ [''index.jsonl''])) (abs_of [''l'', ''records'', ''x.json'']) =
      Inr (abs_of [''l'', ''records'', ''x.json''])"
    using normalizeRecordPath_own [of "[''l'']" "''x.json''"] by (simp add: plain_comp_def)
qed

end
