(* ===== verification/OutputFilter.thy ===== *)
theory OutputFilter
  imports Prelude
begin

text \<open>
  Package \<open>command\<close>, output filtering (\<open>runner.go\<close>: \<open>Filter\<close>, \<open>applyFilter\<close> and its helpers,
  \<open>normalizeLines\<close>, \<open>tailN\<close>) and the failure markers of \<open>failure.go\<close>.  \<open>regexp.Compile\<close> on a
  caller's pattern is the parameter \<open>compile\<close>: it gives an error text or the predicate
  \<open>MatchString\<close>; the fixed marker patterns are written out as predicates.  Go's \<open>int\<close> is 64 bits
  wide; the two context sums are wrapped.
\<close>

record filter_spec =
  f_include :: string
  f_exclude :: string
  f_caseInsensitive :: bool
  f_maxLines :: int
  f_contextBefore :: int
  f_contextAfter :: int
  f_preset :: string
  f_packs :: "string list"
  f_regexes :: "string list"
  f_keywords :: "string list"

definition emptyFilter :: filter_spec where
  "emptyFilter = \<lparr>f_include = [], f_exclude = [], f_caseInsensitive = False, f_maxLines = 0,
     f_contextBefore = 0, f_contextAfter = 0, f_preset = [], f_packs = [], f_regexes = [], f_keywords = []\<rparr>"

section \<open>Packs\<close>

text \<open>A pattern escape: a backslash followed by the given text.\<close>

abbreviation esc :: "string \<Rightarrow> string" where
  "esc s \<equiv> BSLASH # s"

definition pack_errors_only :: string where
  "pack_errors_only = ''(?i)'' @ esc ''b(error|failed|failure|panic|fatal|exception|timeout)'' @ esc ''b''"

definition pack_test_failures :: string where
  "pack_test_failures = ''(?i)(^--- FAIL:|^FAIL'' @ esc ''b|panic:|assert|expected|traceback|not equal|failure|failed|error:)''"

definition pack_compile_errors :: string where
  "pack_compile_errors = ''(?i)(^#'' @ esc ''s|:'' @ esc ''d+:'' @ esc ''d+:|:'' @ esc ''d+:|undefined:|undeclared|syntax error|fatal error:|compilation terminated|build failed|cannot (find|use)|no required module provides package)''"

definition pack_git_status :: string where
  "pack_git_status = ''^(##|[ MADRCU?!]{1,2}'' @ esc ''s+)''"

definition pack_changed_files :: string where
  "pack_changed_files = ''^(?:[ MADRCU?!]{1,2}'' @ esc ''s+'' @ esc ''S|[ACDMRTUXB]'' @ esc ''d*'' @ esc ''s+'' @ esc ''S|(?:'' @
     esc ''./)?['' @ esc ''w./-]+'' @ esc ''.[A-Za-z0-9._-]+$|rename (?:from|to) |create mode |delete mode )''"

definition pack_summary :: string where
  "pack_summary = ''(?i)(^ok'' @ esc ''b|^PASS'' @ esc ''b|^FAIL'' @ esc ''b|^Ran '' @ esc ''d+ tests?|'' @ esc ''bsummary'' @ esc ''b|'' @
     esc ''btotal'' @ esc ''b|'' @ esc ''bfiles changed'' @ esc ''b|'' @ esc ''bchanged files'' @ esc ''b|'' @ esc ''bdone'' @ esc ''b|'' @
     esc ''bfinished'' @ esc ''b)''"

definition builtInRegexPacks :: "string \<Rightarrow> string list option" where
  "builtInRegexPacks = map_of
     [(''errors-only'', [pack_errors_only]), (''test-failures'', [pack_test_failures]),
      (''compile-errors'', [pack_compile_errors]), (''git-status'', [pack_git_status]),
      (''changed-files'', [pack_changed_files]), (''summary-with-context'', [pack_summary])]"

fun append_unseen :: "string list \<Rightarrow> string list \<Rightarrow> string list" where
  "append_unseen out [] = out"
| "append_unseen out (v # vs) = append_unseen (if v \<in> set out then out else out @ [v]) vs"

definition appendUniqueStrings :: "string list \<Rightarrow> string list \<Rightarrow> string list" where
  "appendUniqueStrings b vs = append_unseen (append_unseen [] b) vs"

fun expandRegexPacks :: "string list \<Rightarrow> (string, string list) result" where
  "expandRegexPacks [] = Inr []"
| "expandRegexPacks (p # ps) =
     (if TrimSpace p = [] then expandRegexPacks ps
      else (case builtInRegexPacks p of
              None \<Rightarrow> Inl (''unknown filter pack '' @ p)
            | Some vs \<Rightarrow> rbind (expandRegexPacks ps) (\<lambda>r. Inr (vs @ r))))"

definition hasPositiveSelectors :: "filter_spec \<Rightarrow> bool" where
  "hasPositiveSelectors f \<longleftrightarrow> f_include f \<noteq> [] \<or> f_keywords f \<noteq> [] \<or> f_regexes f \<noteq> [] \<or> f_packs f \<noteq> []"

section \<open>Normalisation\<close>

definition testsPattern :: string where
  "testsPattern = ''(?i)(FAIL|PASS|RUN|panic|error|failed|---)''"

definition rename_preset :: "filter_spec \<Rightarrow> filter_spec" where
  "rename_preset f = (if f_preset f = ''errors'' then f\<lparr>f_preset := ''errors-only''\<rparr> else f)"

definition preset_packs :: "string list" where
  "preset_packs = [''errors-only'', ''test-failures'', ''compile-errors'', ''git-status'', ''changed-files'',
     ''summary-with-context'']"

definition apply_preset :: "filter_spec \<Rightarrow> filter_spec" where
  "apply_preset f =
     (if hasPositiveSelectors f then f
      else if f_preset f = ''tests'' then f\<lparr>f_include := testsPattern\<rparr>
      else if f_preset f \<in> set preset_packs then f\<lparr>f_packs := appendUniqueStrings (f_packs f) [f_preset f]\<rparr>
      else f)"

definition summary_context :: "filter_spec \<Rightarrow> filter_spec" where
  "summary_context f =
     (if f_preset f = ''summary-with-context''
      then f\<lparr>f_contextBefore := (if f_contextBefore f \<le> 0 then 1 else f_contextBefore f),
             f_contextAfter := (if f_contextAfter f \<le> 0 then 1 else f_contextAfter f)\<rparr>
      else f)"

definition normalizeFilter :: "filter_spec \<Rightarrow> (string, filter_spec) result" where
  "normalizeFilter f =
     (let f1 = summary_context (apply_preset (rename_preset f)) in
      rbind (expandRegexPacks (f_packs f1)) (\<lambda>expanded.
        let f2 = f1\<lparr>f_regexes := appendUniqueStrings (f_regexes f1) expanded\<rparr> in
        Inr (if f_maxLines f2 \<le> 0 then f2\<lparr>f_maxLines := 80\<rparr> else f2)))"

section \<open>Compilation and matching\<close>

definition compileFilterPattern :: "compiler \<Rightarrow> string \<Rightarrow> bool \<Rightarrow> (string, regex option) result" where
  "compileFilterPattern compile pat ci =
     (if pat = [] then Inr None
      else rbind (compile (if ci \<and> \<not> HasPrefix pat ''(?i)'' then ''(?i)'' @ pat else pat)) (\<lambda>r. Inr (Some r)))"

fun compileFilterPatterns :: "compiler \<Rightarrow> string list \<Rightarrow> bool \<Rightarrow> (string, regex list) result" where
  "compileFilterPatterns compile [] ci = Inr []"
| "compileFilterPatterns compile (p # ps) ci =
     rbind (compileFilterPattern compile p ci) (\<lambda>r.
       rbind (compileFilterPatterns compile ps ci) (\<lambda>rs.
         Inr (case r of None \<Rightarrow> rs | Some re \<Rightarrow> re # rs)))"

definition matchesKeyword :: "string \<Rightarrow> string list \<Rightarrow> bool \<Rightarrow> bool" where
  "matchesKeyword line keys ci =
     list_ex (\<lambda>k. if ci then Contains (ToLower line) (ToLower k) else Contains line k) keys"

definition matchesRegexPack :: "string \<Rightarrow> regex list \<Rightarrow> bool" where
  "matchesRegexPack line res = list_ex (\<lambda>re. re line) res"

text \<open>The four guards of the selection loop, in the order of the code.\<close>

definition line_hit :: "filter_spec \<Rightarrow> regex option \<Rightarrow> regex option \<Rightarrow> regex list \<Rightarrow> string \<Rightarrow> bool" where
  "line_hit f inc exc res line =
     (if (case exc of None \<Rightarrow> False | Some e \<Rightarrow> e line) then False
      else if (case inc of None \<Rightarrow> False | Some i \<Rightarrow> \<not> i line) then False
      else if f_keywords f \<noteq> [] \<and> \<not> matchesKeyword line (f_keywords f) (f_caseInsensitive f) then False
      else if res \<noteq> [] \<and> \<not> matchesRegexPack line res then False
      else True)"

text \<open>The indices one hit selects, and the set the loop over the lines collects.\<close>

definition hit_window :: "filter_spec \<Rightarrow> int \<Rightarrow> int \<Rightarrow> int list" where
  "hit_window f n i = [max 0 (wrap64 (i - f_contextBefore f)) .. min (n - 1) (wrap64 (i + f_contextAfter f))]"

fun select_lines :: "filter_spec \<Rightarrow> (string \<Rightarrow> bool) \<Rightarrow> int \<Rightarrow> int \<Rightarrow> string list \<Rightarrow> int set \<Rightarrow> int set" where
  "select_lines f hit n i [] sel = sel"
| "select_lines f hit n i (l # ls) sel =
     select_lines f hit n (i + 1) ls (if hit l then sel \<union> set (hit_window f n i) else sel)"

text \<open>The cut at \<open>max_lines\<close> and the selected lines.\<close>

definition cut_lines :: "filter_spec \<Rightarrow> string list \<Rightarrow> int list \<Rightarrow> string list \<times> bool" where
  "cut_lines f ls indexes =
     (let trunc = (f_maxLines f > 0 \<and> int (length indexes) > f_maxLines f);
          kept = (if trunc then take (nat (f_maxLines f)) indexes else indexes)
      in (map (\<lambda>j. ls ! nat j) kept, trunc))"

definition applyFilter :: "compiler \<Rightarrow> string list \<Rightarrow> filter_spec \<Rightarrow> (string, string list \<times> bool) result" where
  "applyFilter compile ls f0 =
     rbind (normalizeFilter f0) (\<lambda>f.
       if f_include f = [] \<and> f_exclude f = [] \<and> f_keywords f = [] \<and> f_regexes f = [] then Inr ([], False)
       else rbind (compileFilterPattern compile (f_include f) (f_caseInsensitive f)) (\<lambda>inc.
         rbind (compileFilterPattern compile (f_exclude f) (f_caseInsensitive f)) (\<lambda>exc.
           rbind (compileFilterPatterns compile (f_regexes f) (f_caseInsensitive f)) (\<lambda>res.
             Inr (cut_lines f ls
                   (sorted_list_of_set (select_lines f (line_hit f inc exc res) (int (length ls)) 0 ls {})))))))"

section \<open>Lines, tails and failure markers\<close>

definition normalizeLines :: "string \<Rightarrow> string list" where
  "normalizeLines text = filter (\<lambda>l. TrimSpace l \<noteq> []) (SplitChar LF (ReplaceAll text CRLF [LF]))"

definition tailN :: "'a list \<Rightarrow> int \<Rightarrow> 'a list" where
  "tailN values limit =
     (if limit \<le> 0 \<or> int (length values) \<le> limit then values
      else drop (nat (int (length values) - limit)) values)"

definition tail80 :: "'a list \<Rightarrow> 'a list" where
  "tail80 values = tailN values 80"

definition maxFailureMarkers :: nat where
  "maxFailureMarkers = 5"

text \<open>The class \<open>s\<close> of Go regular expressions: tab, newline, form feed, return and space.\<close>

definition re_space :: "char \<Rightarrow> bool" where
  "re_space c \<longleftrightarrow> c \<in> {TAB, LF, CHR 0x0C, CR, CHR '' ''}"

text \<open>One or more digits and then a colon: the text after them.\<close>

definition digits_colon :: "string \<Rightarrow> string option" where
  "digits_colon s =
     (let d = takeWhile is_digit s; r = dropWhile is_digit s in
      if d \<noteq> [] \<and> HasPrefix r '':'' then Some (drop 1 r) else None)"

definition file_line_col :: "string \<Rightarrow> string \<Rightarrow> string \<Rightarrow> bool" where
  "file_line_col ext rest line =
     list_ex (\<lambda>i. list_all (\<lambda>c. \<not> re_space c) (take i line) \<and> HasPrefix (drop i line) ext \<and>
        (case digits_colon (drop (i + length ext) line) of
           None \<Rightarrow> False
         | Some r \<Rightarrow> (case digits_colon r of None \<Rightarrow> False | Some r' \<Rightarrow> HasPrefix r' rest)))
       [1..<Suc (length line)]"

definition rustc_error :: "string \<Rightarrow> bool" where
  "rustc_error line =
     (HasPrefix line ''error: '' \<or>
      (HasPrefix line ''error[E'' \<and>
       (let r = drop 7 line in takeWhile is_digit r \<noteq> [] \<and> HasPrefix (dropWhile is_digit r) '']: '')))"

definition isFailureLine :: "string \<Rightarrow> bool" where
  "isFailureLine line =
     (HasPrefix line ''--- FAIL: '' \<or>
      (HasPrefix line ''FAIL'' \<and> drop 4 line \<noteq> [] \<and> re_space (line ! 4)) \<or>
      file_line_col ''.go:'' '' '' line \<or>
      file_line_col ''.lean:'' '' error: '' line \<or>
      rustc_error line \<or>
      (HasPrefix line ''FAILED '' \<and> drop 7 line \<noteq> [] \<and> \<not> re_space (line ! 7)))"

fun marker_loop :: "string list \<Rightarrow> string list \<Rightarrow> string list" where
  "marker_loop found [] = found"
| "marker_loop found (l # ls) =
     (let found' = (if isFailureLine l then found @ [l] else found) in
      if length found' = maxFailureMarkers then found' else marker_loop found' ls)"

definition failureMarkers :: "string list \<Rightarrow> string list" where
  "failureMarkers ls = marker_loop [] ls"

definition maskedFailureMarkers :: "int \<Rightarrow> string list \<Rightarrow> string list" where
  "maskedFailureMarkers exitCode ls = (if exitCode \<noteq> 0 then [] else failureMarkers ls)"

section \<open>Lemmas\<close>

lemma append_unseen_spec:
  "set (append_unseen out vs) = set out \<union> set vs \<and> (distinct out \<longrightarrow> distinct (append_unseen out vs))
   \<and> take (length out) (append_unseen out vs) = out"
proof (induction vs arbitrary: out)
  case Nil
  then show ?case by simp
next
  case (Cons v vs)
  show ?case
  proof (cases "v \<in> set out")
    case True
    then show ?thesis using Cons.IH [of out] by auto
  next
    case False
    have "take (length out) (append_unseen (out @ [v]) vs) = out"
      using Cons.IH [of "out @ [v]"]
      by (metis append_eq_conv_conj append_take_drop_id append.assoc)
    then show ?thesis using False Cons.IH [of "out @ [v]"] by simp
  qed
qed

lemma appendUniqueStrings_distinct: "distinct (appendUniqueStrings b vs)"
  using append_unseen_spec [of "[]" b] append_unseen_spec [of "append_unseen [] b" vs]
  by (simp add: appendUniqueStrings_def)

lemma appendUniqueStrings_set: "set (appendUniqueStrings b vs) = set b \<union> set vs"
  using append_unseen_spec [of "[]" b] append_unseen_spec [of "append_unseen [] b" vs]
  by (simp add: appendUniqueStrings_def)

lemma select_lines_set:
  "select_lines f hit n i ls sel =
     sel \<union> (\<Union>k \<in> {k. k < length ls \<and> hit (ls ! k)}. set (hit_window f n (i + int k)))"
proof (induction ls arbitrary: i sel)
  case Nil
  then show ?case by simp
next
  case (Cons l ls)
  have eq: "{k. k < length (l # ls) \<and> hit ((l # ls) ! k)} =
     (if hit l then {0} else {}) \<union> Suc ` {k. k < length ls \<and> hit (ls ! k)}"
    by (auto simp: less_Suc_eq_0_disj)
  show ?case
    by (simp only: select_lines.simps Cons.IH eq) (auto simp: algebra_simps)
qed

lemma sorted_list_of_range:
  "sorted_list_of_set {j. 0 \<le> j \<and> j < int n \<and> P (nat j)} = map int (filter P [0..<n])"
proof (rule sorted_distinct_set_unique)
  show "sorted (map int (filter P [0..<n]))"
    by (simp add: sorted_map sorted_wrt_filter)
  show "set (sorted_list_of_set {j. 0 \<le> j \<and> j < int n \<and> P (nat j)}) = set (map int (filter P [0..<n]))"
  proof -
    have "{j. 0 \<le> j \<and> j < int n \<and> P (nat j)} = int ` {k. k < n \<and> P k}"
    proof (intro set_eqI iffI)
      fix j assume "j \<in> {j. 0 \<le> j \<and> j < int n \<and> P (nat j)}"
      then have "j = int (nat j)" "nat j \<in> {k. k < n \<and> P k}" by auto
      then show "j \<in> int ` {k. k < n \<and> P k}" by blast
    qed auto
    then show ?thesis by auto
  qed
qed (auto simp: distinct_map)

text \<open>The reference: the lines within the context of some hit, in order.\<close>

definition lines_near :: "filter_spec \<Rightarrow> (string \<Rightarrow> bool) \<Rightarrow> string list \<Rightarrow> nat list" where
  "lines_near f hit ls =
     filter (\<lambda>j. list_ex (\<lambda>i. hit (ls ! i) \<and> int i - f_contextBefore f \<le> int j \<and> int j \<le> int i + f_contextAfter f)
                  [0..<length ls])
       [0..<length ls]"

definition hit_predicate :: "compiler \<Rightarrow> filter_spec \<Rightarrow> (string, string \<Rightarrow> bool) result" where
  "hit_predicate compile f =
     rbind (compileFilterPattern compile (f_include f) (f_caseInsensitive f)) (\<lambda>inc.
       rbind (compileFilterPattern compile (f_exclude f) (f_caseInsensitive f)) (\<lambda>exc.
         rbind (compileFilterPatterns compile (f_regexes f) (f_caseInsensitive f)) (\<lambda>res.
           Inr (line_hit f inc exc res))))"

definition small_context :: "filter_spec \<Rightarrow> bool" where
  "small_context f \<longleftrightarrow> \<bar>f_contextBefore f\<bar> \<le> 2 ^ 62 \<and> \<bar>f_contextAfter f\<bar> \<le> 2 ^ 62"

lemma window_members:
  assumes "small_context f" "i < n" "int n \<le> 2 ^ 62"
  shows "j \<in> set (hit_window f (int n) (int i)) \<longleftrightarrow>
     0 \<le> j \<and> j < int n \<and> int i - f_contextBefore f \<le> j \<and> j \<le> int i + f_contextAfter f"
proof -
  have "wrap64 (int i - f_contextBefore f) = int i - f_contextBefore f"
    using assms by (intro wrap64_id) (auto simp: small_context_def)
  moreover have "wrap64 (int i + f_contextAfter f) = int i + f_contextAfter f"
    using assms by (intro wrap64_id) (auto simp: small_context_def)
  ultimately show ?thesis by (auto simp: hit_window_def)
qed

lemma select_lines_near:
  assumes "small_context f" "int (length ls) \<le> 2 ^ 62"
  shows "sorted_list_of_set (select_lines f hit (int (length ls)) 0 ls {}) = map int (lines_near f hit ls)"
proof -
  have w: "j \<in> set (hit_window f (int (length ls)) (int k)) \<longleftrightarrow> 0 \<le> j \<and> j < int (length ls) \<and>
     int k - f_contextBefore f \<le> int (nat j) \<and> int (nat j) \<le> int k + f_contextAfter f"
    if "k < length ls" for j k
    using window_members [OF assms(1) that assms(2)] by auto
  have "select_lines f hit (int (length ls)) 0 ls {} =
     {j. 0 \<le> j \<and> j < int (length ls) \<and> list_ex (\<lambda>i. hit (ls ! i) \<and> int i - f_contextBefore f \<le> int (nat j)
        \<and> int (nat j) \<le> int i + f_contextAfter f) [0..<length ls]}"
    unfolding select_lines_set using w by (auto simp: list_ex_iff)
  then show ?thesis
    unfolding lines_near_def
    using sorted_list_of_range [of "length ls" "\<lambda>j. list_ex (\<lambda>i. hit (ls ! i) \<and> int i - f_contextBefore f \<le> int j
        \<and> int j \<le> int i + f_contextAfter f) [0..<length ls]"] by (simp only:)
qed

lemma small_context_presets:
  "small_context (rename_preset f) = small_context f" "small_context (apply_preset f) = small_context f"
  "small_context f \<Longrightarrow> small_context (summary_context f)"
  by (simp_all add: small_context_def rename_preset_def apply_preset_def summary_context_def) arith

lemma normalizeFilter_Inr:
  assumes "normalizeFilter f0 = Inr f"
  shows "0 < f_maxLines f \<and> (small_context f0 \<longrightarrow> small_context f)"
proof -
  define f1 where "f1 = summary_context (apply_preset (rename_preset f0))"
  have small: "small_context f0 \<longrightarrow> small_context f1" by (simp add: f1_def small_context_presets)
  from assms obtain rs where
    "f = (let f2 = f1\<lparr>f_regexes := rs\<rparr> in if f_maxLines f2 \<le> 0 then f2\<lparr>f_maxLines := 80\<rparr> else f2)"
    unfolding normalizeFilter_def Let_def f1_def [symmetric] by (cases "expandRegexPacks (f_packs f1)") (force simp: Let_def)+
  then show ?thesis using small by (simp add: Let_def small_context_def)
qed

lemma map_take_int: "map (\<lambda>j. ls ! nat j) (take n (map int js)) = map ((!) ls) (take n js)"
  by (simp add: take_map comp_def)

lemma cut_lines_near:
  assumes "0 < f_maxLines f"
  shows "cut_lines f ls (map int js) =
     (map ((!) ls) (take (nat (f_maxLines f)) js), f_maxLines f < int (length js))"
  using assms by (auto simp: cut_lines_def Let_def map_take_int)

section \<open>Properties\<close>

text \<open>
  Claim C10: the filter keeps exactly the lines that lie within the context of a hit, each once and
  in output order, cut to \<open>max_lines\<close>, and reports truncation exactly when lines were cut; it
  fails exactly when the packs or a pattern do not resolve.
\<close>

theorem applyFilter_windows:
  assumes "small_context f0" "int (length ls) \<le> 2 ^ 62"
  shows "applyFilter compile ls f0 =
     rbind (normalizeFilter f0) (\<lambda>f.
       if f_include f = [] \<and> f_exclude f = [] \<and> f_keywords f = [] \<and> f_regexes f = [] then Inr ([], False)
       else rbind (hit_predicate compile f) (\<lambda>hit.
         Inr (map ((!) ls) (take (nat (f_maxLines f)) (lines_near f hit ls)),
              f_maxLines f < int (length (lines_near f hit ls)))))"
proof (cases "normalizeFilter f0")
  case (Inl e)
  then show ?thesis by (simp add: applyFilter_def)
next
  case (Inr f)
  have f: "small_context f" "0 < f_maxLines f"
    using normalizeFilter_Inr [OF Inr] assms(1) by auto
  note sel = select_lines_near [OF f(1) assms(2)] cut_lines_near [where f = f, OF f(2)]
  show ?thesis
    unfolding applyFilter_def hit_predicate_def Inr rbind.simps
    by (cases "compileFilterPattern compile (f_include f) (f_caseInsensitive f)";
        cases "compileFilterPattern compile (f_exclude f) (f_caseInsensitive f)";
        cases "compileFilterPatterns compile (f_regexes f) (f_caseInsensitive f)")
      (simp_all add: sel)
qed

theorem applyFilter_windows_witness:
  "applyFilter (\<lambda>p. Inl p) [''a'', ''b error'', ''c'', ''d'', ''e error'']
      (emptyFilter\<lparr>f_keywords := [''error''], f_contextBefore := 1, f_maxLines := 3\<rparr>)
   = Inr ([''a'', ''b error'', ''d''], True)"
  by (subst applyFilter_windows)
    (simp_all add: small_context_def emptyFilter_def normalizeFilter_def rename_preset_def apply_preset_def
      summary_context_def hasPositiveSelectors_def appendUniqueStrings_def hit_predicate_def
      compileFilterPattern_def lines_near_def line_hit_def matchesKeyword_def Contains_def numeral_eq_Suc
      upt_rec)

text \<open>
  Whether a filter is rejected does not depend on the output it is applied to, so the
  check \<open>runPreparedWithWait\<close> makes with no lines before it starts a command covers the use after
  the command has ended, and a finished command is never left unrecorded by its filter.
\<close>

theorem applyFilter_rejects_early:
  "map_sum id (\<lambda>r. ()) (applyFilter compile ls f) = map_sum id (\<lambda>r. ()) (applyFilter compile [] f)"
proof (cases "normalizeFilter f")
  case (Inl e)
  then show ?thesis by (simp add: applyFilter_def)
next
  case (Inr g)
  show ?thesis
    unfolding applyFilter_def Inr rbind.simps
    by (cases "compileFilterPattern compile (f_include g) (f_caseInsensitive g)";
        cases "compileFilterPattern compile (f_exclude g) (f_caseInsensitive g)";
        cases "compileFilterPatterns compile (f_regexes g) (f_caseInsensitive g)")
      (simp_all add: Let_def)
qed

text \<open>
  A context as wide as \<open>int\<close> allows wraps: the second line matches, and nothing is selected.
\<close>

lemma applyFilter_context_wraps:
  "applyFilter (\<lambda>p. Inl p) [''a'', ''error'', ''c'']
     (emptyFilter\<lparr>f_keywords := [''error''], f_contextAfter := 2 ^ 63 - 1\<rparr>) = Inr ([], False)"
  by (simp add: applyFilter_def emptyFilter_def normalizeFilter_def rename_preset_def apply_preset_def
      summary_context_def hasPositiveSelectors_def appendUniqueStrings_def
      compileFilterPattern_def line_hit_def matchesKeyword_def Contains_def hit_window_def wrap64_def cut_lines_def)

lemma marker_loop_take:
  "length found < maxFailureMarkers \<Longrightarrow>
     marker_loop found ls = take maxFailureMarkers (found @ filter isFailureLine ls)"
proof (induction ls arbitrary: found)
  case Nil
  then show ?case by simp
next
  case (Cons l ls)
  show ?case
  proof (cases "isFailureLine l \<and> Suc (length found) = maxFailureMarkers")
    case True
    then have l: "length (found @ [l]) = maxFailureMarkers" by simp
    have "take maxFailureMarkers ((found @ [l]) @ filter isFailureLine ls) = found @ [l]"
      by (metis l append_eq_conv_conj)
    with True l show ?thesis by simp
  next
    case False
    with Cons show ?thesis by (auto simp: take_Cons')
  qed
qed

text \<open>A zero exit code is contradicted by the first five failing lines, any other by none.\<close>

lemma maskedFailureMarkers_first_five:
  "maskedFailureMarkers exitCode ls = (if exitCode = 0 then take 5 (filter isFailureLine ls) else [])"
  by (simp add: maskedFailureMarkers_def failureMarkers_def marker_loop_take maxFailureMarkers_def)

lemma tailN_suffix: "0 < n \<Longrightarrow> \<exists>p. values = p @ tailN values n \<and> int (length (tailN values n)) \<le> n"
  by (auto simp: tailN_def intro: exI [where x = "take (nat (int (length values) - n)) values"] exI [where x = "[]"])

lemma normalizeLines_clean: "l \<in> set (normalizeLines t) \<Longrightarrow> LF \<notin> set l \<and> TrimSpace l \<noteq> []"
  by (auto simp: normalizeLines_def dest: SplitChar_no_sep)

end
