(* ===== verification/History.thy ===== *)
theory History
  imports HistoryIndex OutputFilter Evidence "HOL-Library.AList" "HOL-Library.List_Lexorder" "HOL-Library.Char_ord"
begin

text \<open>
  Package \<open>command\<close>, \<open>History\<close> of \<open>history.go\<close>: one helper's memory (\<open>history\<close>) over the log
  directory several helpers share (\<open>disk\<close>).  An operation takes the environment (codec, clock,
  SHA-256, working directory), the faults of its I/O steps and both states, and returns its result
  with the new states; \<open>io st = Some n\<close> makes step \<open>st\<close> fail, a write after \<open>n\<close> bytes.  The
  read-write mutex makes every operation of one helper atomic; between helpers only the index lock
  is shared, so \<open>Put\<close> is two steps, the record file and then the locked append.
\<close>

section \<open>State\<close>

record disk =
  d_files :: "string \<Rightarrow> string option"
  d_names :: "string list"      \<comment> \<open>the directories below \<open>repos\<close> that have a \<open>logs\<close> directory, in listing order\<close>

record history =
  h_root :: string              \<comment> \<open>empty for a volatile history\<close>
  h_retention :: int
  h_maxRecords :: int
  h_compress :: bool
  h_records :: "(string \<times> hist_record) list"

record henv =
  v_codec :: codec
  v_now :: int
  v_wd :: string
  v_sha :: "string \<Rightarrow> string"

record HistoryPolicy =
  hp_dir :: string
  hp_retention :: int
  hp_maxRecords :: int
  hp_compress :: bool

datatype io_step = IoMkdir | IoOpenRecord | IoWriteRecord | IoLock | IoOpenIndex | IoWriteIndex

type_synonym faults = "io_step \<Rightarrow> nat option"

definition normalizeHistoryPolicy :: "HistoryPolicy \<Rightarrow> HistoryPolicy" where
  "normalizeHistoryPolicy p =
     p\<lparr>hp_retention := (if hp_retention p \<le> 0 then 30 else hp_retention p),
       hp_maxRecords := (if hp_maxRecords p \<le> 0 then 2000 else hp_maxRecords p)\<rparr>"

definition NewInMemoryHistory :: history where
  "NewInMemoryHistory = \<lparr>h_root = [], h_retention = 0, h_maxRecords = 0, h_compress = False, h_records = []\<rparr>"

definition get_cached :: "history \<Rightarrow> string \<Rightarrow> hist_record option" where
  "get_cached h cid = map_of (h_records h) cid"

definition set_cached :: "string \<Rightarrow> hist_record \<Rightarrow> history \<Rightarrow> history" where
  "set_cached cid r h = h\<lparr>h_records := AList.update cid r (h_records h)\<rparr>"

definition drop_cached :: "string \<Rightarrow> history \<Rightarrow> history" where
  "drop_cached cid h = h\<lparr>h_records := AList.delete cid (h_records h)\<rparr>"

section \<open>Directories\<close>

definition logs_dir :: "henv \<Rightarrow> history \<Rightarrow> string \<Rightarrow> (string, string \<times> string) result" where
  "logs_dir env h repo =
     (if TrimSpace repo = [] then Inr (JoinPath [h_root h, ''logs''], [])
      else rbind (Name (v_sha env) (v_wd env) repo) (\<lambda>n.
        rbind (LogsDir (v_sha env) (v_wd env) \<lparr>store_root = h_root h\<rparr> repo) (\<lambda>d. Inr (d, n))))"

definition index_of :: "string \<Rightarrow> string" where
  "index_of dir = JoinPath [dir, ''index.jsonl'']"

text \<open>The per-project indexes in the order \<open>filepath.Glob\<close> lists them, then the legacy index.\<close>

definition indexPaths :: "history \<Rightarrow> disk \<Rightarrow> string list" where
  "indexPaths h d =
     filter (\<lambda>p. d_files d p \<noteq> None)
       (map (\<lambda>n. JoinPath [h_root h, ''repos'', n, ''logs'', ''index.jsonl'']) (d_names d)
        @ [JoinPath [h_root h, ''logs'', ''index.jsonl'']])"

fun read_all :: "codec \<Rightarrow> disk \<Rightarrow> string list \<Rightarrow> (string, indexEntry list) result" where
  "read_all cd d [] = Inr []"
| "read_all cd d (p # ps) =
     rbind (readEntriesFile cd p (d_files d p)) (\<lambda>es. rbind (read_all cd d ps) (\<lambda>fs. Inr (es @ fs)))"

definition readEntries :: "codec \<Rightarrow> history \<Rightarrow> disk \<Rightarrow> (string, indexEntry list) result" where
  "readEntries cd h d = read_all cd d (indexPaths h d)"

section \<open>Record files\<close>

definition encode_record :: "codec \<Rightarrow> bool \<Rightarrow> hist_record \<Rightarrow> string" where
  "encode_record cd gz r = (if gz then gzip cd (enc_record cd r @ [LF]) else enc_record cd r @ [LF])"

definition readJSONRecord :: "codec \<Rightarrow> disk \<Rightarrow> string \<Rightarrow> (string, hist_record) result" where
  "readJSONRecord cd d path =
     (case d_files d path of
        None \<Rightarrow> Inl ''open command log record''
      | Some bytes \<Rightarrow>
          (case (if HasSuffix path ''.gz'' then gunzip cd bytes else Some bytes) of
             None \<Rightarrow> Inl ''open compressed command log record''
           | Some s \<Rightarrow>
               if length s > maxHistoryRecordBytes then Inl ''command log record exceeds byte limit''
               else (case dec_record cd s of
                       None \<Rightarrow> Inl ''decode command log record''
                     | Some r \<Rightarrow> Inr r)))"

section \<open>Put\<close>

definition put_file :: "string \<Rightarrow> string \<Rightarrow> disk \<Rightarrow> disk" where
  "put_file p s d = d\<lparr>d_files := (d_files d)(p := Some s)\<rparr>"

definition make_dirs :: "string \<Rightarrow> disk \<Rightarrow> disk" where
  "make_dirs n d = (if n = [] \<or> n \<in> set (d_names d) then d else d\<lparr>d_names := insort n (d_names d)\<rparr>)"

definition record_name :: "history \<Rightarrow> hist_record \<Rightarrow> string" where
  "record_name h r = (if h_compress h then r_id r @ ''.json'' @ ''.gz'' else r_id r @ ''.json'')"

definition row_of :: "hist_record \<Rightarrow> string \<Rightarrow> string \<Rightarrow> indexEntry" where
  "row_of r pname path =
     \<lparr>e_id = r_id r, e_status = r_status r, e_repo = r_repo r, e_project = pname, e_command = r_command r,
      e_cwd = r_cwd r, e_exit = r_exit r, e_truncated = r_truncated r, e_hash = r_hash r,
      e_created = r_created r, e_file = path, e_index = []\<rparr>"

text \<open>\<open>writeJSONRecord\<close>: truncate or create, then write; a failing write leaves a prefix.\<close>

definition writeJSONRecord ::
  "codec \<Rightarrow> faults \<Rightarrow> bool \<Rightarrow> string \<Rightarrow> hist_record \<Rightarrow> disk \<Rightarrow> string option \<times> disk" where
  "writeJSONRecord cd io gz path r d =
     (if io IoOpenRecord \<noteq> None then (Some ''open command log record'', d)
      else (case io IoWriteRecord of
              Some n \<Rightarrow> (Some ''encode command log record'', put_file path (take n (encode_record cd gz r)) d)
            | None \<Rightarrow> (None, put_file path (encode_record cd gz r) d)))"

definition appendIndexEntry :: "codec \<Rightarrow> faults \<Rightarrow> string \<Rightarrow> indexEntry \<Rightarrow> disk \<Rightarrow> string option \<times> disk" where
  "appendIndexEntry cd io path e d =
     (if io IoOpenIndex \<noteq> None then (Some ''open command log index'', d)
      else let old = (case d_files d path of None \<Rightarrow> [] | Some s \<Rightarrow> s);
               d1 = put_file path old d;
               row = enc_entry cd (e\<lparr>e_index := []\<rparr>)
           in if length row + 1 > maxIndexLineBytes then (Some ''command log index entry exceeds byte limit'', d1)
              else (case io IoWriteIndex of
                      Some n \<Rightarrow> (Some ''write command log index'', put_file path (old @ take n (row @ [LF])) d1)
                    | None \<Rightarrow> (None, put_file path (old @ row @ [LF]) d1)))"

text \<open>The checks and the record file: everything \<open>Put\<close> does before it takes the index lock.\<close>

definition put_record ::
  "henv \<Rightarrow> faults \<Rightarrow> hist_record \<Rightarrow> history \<Rightarrow> disk \<Rightarrow> (string, string \<times> indexEntry) result \<times> disk" where
  "put_record env io r h d =
     (case logs_dir env h (r_repo r) of
        Inl e \<Rightarrow> (Inl e, d)
      | Inr (dir, pname) \<Rightarrow>
          if length (enc_record (v_codec env) r) > maxHistoryRecordBytes then
            (Inl ''command log record exceeds byte limit'', d)
          else if io IoMkdir \<noteq> None then (Inl ''create command log record directory'', d)
          else let path = JoinPath [JoinPath [dir, ''records''], record_name h r] in
            (case writeJSONRecord (v_codec env) io (h_compress h) path r (make_dirs pname d) of
               (Some e, d1) \<Rightarrow> (Inl e, d1)
             | (None, d1) \<Rightarrow> (Inr (index_of dir, row_of r pname path), d1)))"

text \<open>The append under the lock, and the record in memory.\<close>

definition put_append ::
  "henv \<Rightarrow> faults \<Rightarrow> hist_record \<Rightarrow> string \<Rightarrow> indexEntry \<Rightarrow> history \<Rightarrow> disk \<Rightarrow> string option \<times> history \<times> disk" where
  "put_append env io r ipath row h d =
     (if io IoLock \<noteq> None then (Some ''lock command log index'', h, d)
      else (case appendIndexEntry (v_codec env) io ipath row d of
              (Some e, d1) \<Rightarrow> (Some e, h, d1)
            | (None, d1) \<Rightarrow> (None, set_cached (r_id r) r h, d1)))"

definition stamped :: "henv \<Rightarrow> hist_record \<Rightarrow> hist_record" where
  "stamped env r = (if r_created r = 0 then r\<lparr>r_created := v_now env\<rparr> else r)"

definition Put ::
  "henv \<Rightarrow> faults \<Rightarrow> hist_record \<Rightarrow> history \<Rightarrow> disk \<Rightarrow> string option \<times> history \<times> disk" where
  "Put env io r0 h d =
     (if TrimSpace (r_id r0) = [] then (Some ''command_id is required'', h, d)
      else let r = stamped env r0 in
        if h_root h = [] then (None, set_cached (r_id r) r h, d)
        else (case put_record env io r h d of
                (Inl e, d1) \<Rightarrow> (Some e, h, d1)
              | (Inr (ipath, row), d1) \<Rightarrow> put_append env io r ipath row h d1))"

section \<open>Lookup\<close>

definition durableRecord :: "henv \<Rightarrow> history \<Rightarrow> disk \<Rightarrow> string \<Rightarrow> (string, hist_record option) result" where
  "durableRecord env h d cid =
     rbind (readEntries (v_codec env) h d) (\<lambda>es.
       case durable_row cid es of
         None \<Rightarrow> Inr None
       | Some best \<Rightarrow>
           (case readJSONRecord (v_codec env) d (e_file best) of Inl e \<Rightarrow> Inr None | Inr r \<Rightarrow> Inr (Some r)))"

definition getRecord ::
  "henv \<Rightarrow> history \<Rightarrow> disk \<Rightarrow> string \<Rightarrow> (string, hist_record option) result \<times> history" where
  "getRecord env h d cid =
     (let cached = get_cached h cid in
      if h_root h = [] \<or> (case cached of None \<Rightarrow> False | Some c \<Rightarrow> isTerminalStatus (r_status c))
      then (Inr cached, h)
      else (case durableRecord env h d cid of
              Inl e \<Rightarrow> (Inl e, h)
            | Inr durable \<Rightarrow>
                (case durable of
                   Some r \<Rightarrow>
                     if isTerminalStatus (r_status r) then (Inr (Some r), set_cached cid r h)
                     else (case cached of Some c \<Rightarrow> (Inr (Some c), h) | None \<Rightarrow> (Inr durable, h))
                 | None \<Rightarrow> (case cached of Some c \<Rightarrow> (Inr (Some c), h) | None \<Rightarrow> (Inr None, h)))))"

definition UpdateRunningOutput ::
  "henv \<Rightarrow> string \<Rightarrow> string list \<Rightarrow> string list \<Rightarrow> string list \<Rightarrow> bool \<Rightarrow> string \<Rightarrow> history \<Rightarrow> string option \<times> history" where
  "UpdateRunningOutput env cid out err comb trunc hash h =
     (case get_cached h cid of
        None \<Rightarrow> (Some ''command not found in history'', h)
      | Some r \<Rightarrow>
          if r_status r \<noteq> ''running'' then (None, h)
          else (None, set_cached cid
                 (r\<lparr>r_stdout := out, r_stderr := err, r_combined := comb, r_truncated := trunc, r_hash := hash,
                    r_duration := (if r_started r \<noteq> 0 then (v_now env - r_started r) div 1000000 else r_duration r)\<rparr>) h))"

definition UpdateStatus :: "string \<Rightarrow> string \<Rightarrow> history \<Rightarrow> string option \<times> history" where
  "UpdateStatus cid st h =
     (case get_cached h cid of
        None \<Rightarrow> (Some ''command not found in history'', h)
      | Some r \<Rightarrow> (None, set_cached cid (r\<lparr>r_status := st\<rparr>) h))"

section \<open>Results\<close>

record NextCall =
  nc_tool :: string
  nc_action :: string
  nc_id :: string
  nc_mode :: string

record PreviousRun =
  pr_id :: string
  pr_status :: string
  pr_exit :: int
  pr_age :: int
  pr_same :: bool

record cmd_result =
  cr_status :: string
  cr_id :: string
  cr_command :: string
  cr_cwd :: string
  cr_exit :: int
  cr_duration :: int
  cr_truncated :: bool
  cr_stdoutTail :: "string list"
  cr_stderrTail :: "string list"
  cr_filtered :: "string list"
  cr_evidence :: "EvLine list"
  cr_hash :: string
  cr_next :: "NextCall option"
  cr_previous :: "PreviousRun option"
  cr_markers :: "string list"
  cr_distilled :: bool

definition nextCallForStatus :: "string \<Rightarrow> string \<Rightarrow> NextCall option" where
  "nextCallForStatus st cid =
     (if st \<noteq> ''running'' \<or> cid = [] then None
      else Some \<lparr>nc_tool = ''command'', nc_action = ''get'', nc_id = cid, nc_mode = ''status''\<rparr>)"

definition filter_result :: "int \<Rightarrow> string \<Rightarrow> hist_record \<Rightarrow> string list \<Rightarrow> bool \<Rightarrow> cmd_result" where
  "filter_result now cid r filtered trunc =
     \<lparr>cr_status = r_status r, cr_id = cid, cr_command = r_command r, cr_cwd = r_cwd r, cr_exit = r_exit r,
      cr_duration = (if r_status r = ''running'' \<and> r_started r \<noteq> 0 then (now - r_started r) div 1000000 else r_duration r),
      cr_truncated = (r_truncated r \<or> trunc), cr_stdoutTail = tail80 (r_stdout r), cr_stderrTail = tail80 (r_stderr r),
      cr_filtered = filtered, cr_evidence = fst (SelectDistilled (r_combined r) 30), cr_hash = r_hash r,
      cr_next = nextCallForStatus (r_status r) cid, cr_previous = None,
      cr_markers = maskedFailureMarkers (r_exit r) (r_combined r),
      cr_distilled = snd (SelectDistilled (r_combined r) 30)\<rparr>"

definition FilterHistory ::
  "compiler \<Rightarrow> henv \<Rightarrow> string \<Rightarrow> filter_spec \<Rightarrow> history \<Rightarrow> disk \<Rightarrow> (string, cmd_result) result \<times> history" where
  "FilterHistory compile env cid f h d =
     (case getRecord env h d cid of
        (Inl e, h1) \<Rightarrow> (Inl e, h1)
      | (Inr None, h1) \<Rightarrow> (Inl (''command history entry not found: '' @ cid), h1)
      | (Inr (Some r), h1) \<Rightarrow>
          (case applyFilter compile (r_combined r) f of
             Inl e \<Rightarrow> (Inl e, h1)
           | Inr (fl, trunc) \<Rightarrow> (Inr (filter_result (v_now env) cid r fl trunc), h1)))"

section \<open>Earlier runs of the same command\<close>

fun newest_run :: "string \<Rightarrow> string \<Rightarrow> indexEntry option \<Rightarrow> indexEntry list \<Rightarrow> indexEntry option" where
  "newest_run command exceptID best [] = best"
| "newest_run command exceptID best (e # es) =
     newest_run command exceptID
       (if e_id e = exceptID \<or> e_command e \<noteq> command then best
        else if \<not> isTerminalStatus (e_status e) then best
        else (case best of
                None \<Rightarrow> Some e
              | Some b \<Rightarrow> if e_created b < e_created e then Some e else best)) es"

definition cached_row :: "hist_record \<Rightarrow> indexEntry" where
  "cached_row r =
     \<lparr>e_id = r_id r, e_status = r_status r, e_repo = r_repo r, e_project = [], e_command = r_command r, e_cwd = [],
      e_exit = r_exit r, e_truncated = False, e_hash = r_hash r, e_created = r_created r, e_file = [], e_index = []\<rparr>"

text \<open>The cached records in the order the map is iterated.\<close>

definition lastIdenticalCached :: "history \<Rightarrow> string \<Rightarrow> string \<Rightarrow> string \<Rightarrow> indexEntry option" where
  "lastIdenticalCached h repo command exceptID =
     newest_run command exceptID None
       (map (\<lambda>(i, r). cached_row r) (filter (\<lambda>(i, r). i \<noteq> exceptID \<and> r_repo r = repo) (h_records h)))"

definition lastIdenticalRun :: "henv \<Rightarrow> history \<Rightarrow> disk \<Rightarrow> string \<Rightarrow> string \<Rightarrow> string \<Rightarrow> indexEntry option" where
  "lastIdenticalRun env h d repo command exceptID =
     (if h_root h = [] then lastIdenticalCached h repo command exceptID
      else (case logs_dir env h repo of
              Inl e \<Rightarrow> None
            | Inr (dir, n) \<Rightarrow>
                (case readEntriesFile (v_codec env) (index_of dir) (d_files d (index_of dir)) of
                   Inl e \<Rightarrow> None
                 | Inr es \<Rightarrow> newest_run command exceptID None (latestEntries es))))"

section \<open>Retention\<close>

definition day_ns :: int where "day_ns = 86400000000000"

text \<open>The rows kept, oldest first, and the rows dropped.\<close>

definition retain :: "int \<Rightarrow> int \<Rightarrow> int \<Rightarrow> indexEntry list \<Rightarrow> indexEntry list \<times> indexEntry list" where
  "retain now days maxRecords commands =
     (let cutoff = now - days * day_ns;
          dropped0 = filter (\<lambda>e. e_created e < cutoff) commands;
          kept0 = sort_key e_created (filter (\<lambda>e. \<not> e_created e < cutoff) commands)
      in if maxRecords > 0 \<and> int (length kept0) > maxRecords
         then (let n = nat (int (length kept0) - maxRecords) in (drop n kept0, dropped0 @ take n kept0))
         else (kept0, dropped0))"

definition removeEntry :: "indexEntry \<Rightarrow> history \<times> disk \<Rightarrow> history \<times> disk" where
  "removeEntry e hd' = (case hd' of (h, d) \<Rightarrow>
     (drop_cached (e_id e) h, d\<lparr>d_files := (d_files d)(e_file e := None)\<rparr>))"

fun removeEntries :: "indexEntry list \<Rightarrow> history \<times> disk \<Rightarrow> history \<times> disk" where
  "removeEntries [] hd' = hd'"
| "removeEntries (e # es) hd' = removeEntries es (removeEntry e hd')"

text \<open>\<open>rewriteIndex\<close>: written aside and renamed, so it takes effect whole or not at all.\<close>

definition index_bytes :: "codec \<Rightarrow> indexEntry list \<Rightarrow> string" where
  "index_bytes cd es = unlines (map (\<lambda>e. enc_entry cd (e\<lparr>e_index := []\<rparr>)) es)"

fun rewrite_groups ::
  "codec \<Rightarrow> (string \<Rightarrow> bool) \<Rightarrow> indexEntry list \<Rightarrow> string list \<Rightarrow> disk \<Rightarrow> string option \<times> disk" where
  "rewrite_groups cd fails kept [] d = (None, d)"
| "rewrite_groups cd fails kept (p # ps) d =
     (if fails p then (Some ''replace command log index'', d)
      else rewrite_groups cd fails kept ps (put_file p (index_bytes cd (filter (\<lambda>e. e_index e = p) kept)) d))"

definition rewriteIndexes ::
  "codec \<Rightarrow> (string \<Rightarrow> bool) \<Rightarrow> indexEntry list \<Rightarrow> indexEntry list \<Rightarrow> disk \<Rightarrow> string option \<times> disk" where
  "rewriteIndexes cd fails old kept d = rewrite_groups cd fails kept (remdups (map e_index old)) d"

definition Cleanup ::
  "henv \<Rightarrow> faults \<Rightarrow> (string \<Rightarrow> bool) \<Rightarrow> history \<Rightarrow> disk \<Rightarrow> string option \<times> history \<times> disk" where
  "Cleanup env io fails h d =
     (if h_root h = [] then (None, h, d)
      else if io IoLock \<noteq> None then (Some ''lock command log index'', h, d)
      else (case readEntries (v_codec env) h d of
              Inl e \<Rightarrow> (Some e, h, d)
            | Inr entries \<Rightarrow>
                (case retain (v_now env) (h_retention h) (h_maxRecords h) (latestEntries entries) of
                   (kept, dropped) \<Rightarrow>
                     (case removeEntries dropped (h, d) of
                        (h1, d1) \<Rightarrow>
                          (case rewriteIndexes (v_codec env) fails entries kept d1 of
                             (err, d2) \<Rightarrow> (err, h1, d2))))))"

section \<open>Listing\<close>

record ListRequest =
  lr_status :: string
  lr_repo :: string
  lr_limit :: int

record ListEntry =
  le_id :: string
  le_status :: string
  le_repo :: string
  le_command :: string
  le_cwd :: string
  le_exit :: int
  le_duration :: int
  le_created :: int

definition list_limit :: "int \<Rightarrow> int" where
  "list_limit n = (let m = (if n \<le> 0 then 50 else n) in if m > 200 then 200 else m)"

definition matchesFilter :: "hist_record \<Rightarrow> ListRequest \<Rightarrow> bool" where
  "matchesFilter r req \<longleftrightarrow>
     \<not> (lr_status req \<noteq> [] \<and> r_status r \<noteq> lr_status req) \<and> \<not> (lr_repo req \<noteq> [] \<and> r_repo r \<noteq> lr_repo req)"

definition row_matches :: "indexEntry \<Rightarrow> ListRequest \<Rightarrow> bool" where
  "row_matches e req \<longleftrightarrow>
     \<not> (lr_status req \<noteq> [] \<and> e_status e \<noteq> lr_status req) \<and> \<not> (lr_repo req \<noteq> [] \<and> e_repo e \<noteq> lr_repo req)"

definition recordToEntry :: "int \<Rightarrow> hist_record \<Rightarrow> ListEntry" where
  "recordToEntry now r =
     \<lparr>le_id = r_id r, le_status = r_status r, le_repo = r_repo r, le_command = r_command r, le_cwd = r_cwd r,
      le_exit = r_exit r,
      le_duration = (if r_status r = ''running'' \<and> r_started r \<noteq> 0 then (now - r_started r) div 1000000 else r_duration r),
      le_created = r_created r\<rparr>"

definition row_entry :: "indexEntry \<Rightarrow> ListEntry" where
  "row_entry e =
     \<lparr>le_id = e_id e, le_status = e_status e, le_repo = e_repo e, le_command = e_command e, le_cwd = e_cwd e,
      le_exit = e_exit e, le_duration = 0, le_created = e_created e\<rparr>"

definition newest_first :: "int \<Rightarrow> ListEntry list \<Rightarrow> ListEntry list \<times> nat" where
  "newest_first limit es =
     (let sorted_es = sort_key (\<lambda>e. - le_created e) es in
      (if int (length sorted_es) > limit then take (nat limit) sorted_es else sorted_es, length sorted_es))"

definition ListHistory :: "henv \<Rightarrow> history \<Rightarrow> disk \<Rightarrow> ListRequest \<Rightarrow> (string, ListEntry list \<times> nat) result" where
  "ListHistory env h d req =
     (let limit = list_limit (lr_limit req) in
      if h_root h = [] then
        Inr (newest_first limit (map (\<lambda>(i, r). recordToEntry (v_now env) r)
          (filter (\<lambda>(i, r). matchesFilter r req) (h_records h))))
      else rbind (readEntries (v_codec env) h d) (\<lambda>es.
        Inr (newest_first limit (map row_entry (filter (\<lambda>e. row_matches e req) (latestEntries es))))))"

section \<open>Opening a history\<close>

fun load_rows :: "codec \<Rightarrow> disk \<Rightarrow> indexEntry list \<Rightarrow> history \<Rightarrow> history" where
  "load_rows cd d [] h = h"
| "load_rows cd d (e # es) h =
     load_rows cd d es
       (case readJSONRecord cd d (e_file e) of
          Inl er \<Rightarrow> h
        | Inr r \<Rightarrow> if get_cached h (e_id e) \<noteq> None \<and> \<not> isTerminalStatus (r_status r) then h
                   else set_cached (e_id e) r h)"

definition loadIndex :: "henv \<Rightarrow> history \<Rightarrow> disk \<Rightarrow> string option \<times> history" where
  "loadIndex env h d =
     (case readEntries (v_codec env) h d of
        Inl e \<Rightarrow> (Some e, h)
      | Inr es \<Rightarrow> (None, load_rows (v_codec env) d (latestEntries es) h))"

definition NewHistory ::
  "henv \<Rightarrow> (string, string) result \<Rightarrow> faults \<Rightarrow> (string \<Rightarrow> bool) \<Rightarrow> HistoryPolicy \<Rightarrow> disk
     \<Rightarrow> (string, history) result \<times> disk" where
  "NewHistory env home io fails policy0 d =
     (let p = normalizeHistoryPolicy policy0 in
      if TrimSpace (hp_dir p) = [] then (Inr NewInMemoryHistory, d)
      else (case NewStore home (hp_dir p) of
              Inl e \<Rightarrow> (Inl e, d)
            | Inr st \<Rightarrow>
                if io IoMkdir \<noteq> None then (Inl ''create helper repo directory'', d)
                else (case loadIndex env \<lparr>h_root = store_root st, h_retention = hp_retention p,
                              h_maxRecords = hp_maxRecords p, h_compress = hp_compress p, h_records = []\<rparr> d of
                        (Some e, h) \<Rightarrow> (Inl e, d)
                      | (None, h) \<Rightarrow>
                          (case Cleanup env io fails h d of
                             (Some e, h1, d1) \<Rightarrow> (Inl e, d1)
                           | (None, h1, d1) \<Rightarrow> (Inr h1, d1)))))"

section \<open>The cache\<close>

lemma get_set_cached [simp]: "get_cached (set_cached c r h) k = (if k = c then Some r else get_cached h k)"
  by (simp add: get_cached_def set_cached_def update_conv')

lemma get_drop_cached [simp]: "get_cached (drop_cached c h) k = (if k = c then None else get_cached h k)"
  by (simp add: get_cached_def drop_cached_def delete_conv')

lemma set_cached_fields [simp]:
  "h_root (set_cached c r h) = h_root h" "h_retention (set_cached c r h) = h_retention h"
  "h_maxRecords (set_cached c r h) = h_maxRecords h" "h_compress (set_cached c r h) = h_compress h"
  by (simp_all add: set_cached_def)

text \<open>The operations of one helper, each on the disk as the others have left it.\<close>

datatype hist_event =
    EvGet disk string
  | EvFilter filter_spec disk string
  | EvUpdate string "string list" "string list" "string list" bool string
  | EvPut faults hist_record disk

fun hist_act :: "compiler \<Rightarrow> henv \<Rightarrow> hist_event \<Rightarrow> history \<Rightarrow> history" where
  "hist_act compile env (EvGet d c) h = snd (getRecord env h d c)"
| "hist_act compile env (EvFilter f d c) h = snd (FilterHistory compile env c f h d)"
| "hist_act compile env (EvUpdate c out er comb t hash) h = snd (UpdateRunningOutput env c out er comb t hash h)"
| "hist_act compile env (EvPut io r d) h = fst (snd (Put env io r h d))"

fun hist_events :: "compiler \<Rightarrow> henv \<Rightarrow> hist_event list \<Rightarrow> history \<Rightarrow> history" where
  "hist_events compile env [] h = h"
| "hist_events compile env (e # es) h = hist_events compile env es (hist_act compile env e h)"

definition puts_id :: "string \<Rightarrow> hist_event \<Rightarrow> bool" where
  "puts_id c e = (case e of EvPut io r d \<Rightarrow> r_id r = c | _ \<Rightarrow> False)"

lemma getRecord_cache:
  "snd (getRecord env h d c) = h \<or>
   (\<exists>r. snd (getRecord env h d c) = set_cached c r h \<and> isTerminalStatus (r_status r)
      \<and> \<not> (case get_cached h c of None \<Rightarrow> False | Some x \<Rightarrow> isTerminalStatus (r_status x)))"
  by (auto simp: getRecord_def Let_def split: option.splits sum.splits)

lemma getRecord_terminal_cached:
  "get_cached h c = Some r \<Longrightarrow> isTerminalStatus (r_status r) \<Longrightarrow> getRecord env h d c = (Inr (Some r), h)"
  by (simp add: getRecord_def)

lemma FilterHistory_cache: "snd (FilterHistory compile env c f h d) = snd (getRecord env h d c)"
  by (auto simp: FilterHistory_def split: prod.splits sum.splits option.splits)

lemma Put_cache:
  "fst (snd (Put env io r h d)) = h \<or> fst (snd (Put env io r h d)) = set_cached (r_id r) (stamped env r) h"
  by (auto simp: Put_def Let_def put_append_def stamped_def split: prod.splits sum.splits option.splits)

lemma hist_act_terminal:
  assumes "get_cached h c = Some r" "isTerminalStatus (r_status r)" "\<not> puts_id c e"
  shows "get_cached (hist_act compile env e h) c = Some r"
proof (cases e)
  case (EvGet d k)
  show ?thesis
  proof (cases "k = c")
    case True
    then show ?thesis using EvGet assms by (simp add: getRecord_terminal_cached)
  next
    case False
    then show ?thesis using EvGet getRecord_cache [of env h d k] assms by auto
  qed
next
  case (EvFilter f d k)
  show ?thesis
  proof (cases "k = c")
    case True
    then show ?thesis using EvFilter assms by (simp add: FilterHistory_cache getRecord_terminal_cached)
  next
    case False
    then show ?thesis using EvFilter getRecord_cache [of env h d k] assms by (auto simp: FilterHistory_cache)
  qed
next
  case (EvUpdate k out er comb t hash)
  then show ?thesis
    using assms by (auto simp: UpdateRunningOutput_def isTerminalStatus_def split: option.splits)
next
  case (EvPut io q d)
  then have "r_id q \<noteq> c" using assms(3) by (simp add: puts_id_def)
  then show ?thesis using EvPut Put_cache [of env io q h d] assms(1) by auto
qed

lemma hist_events_terminal:
  "get_cached h c = Some r \<Longrightarrow> isTerminalStatus (r_status r) \<Longrightarrow> list_all (\<lambda>e. \<not> puts_id c e) es \<Longrightarrow>
   get_cached (hist_events compile env es h) c = Some r"
  by (induction es arbitrary: h) (simp_all add: hist_act_terminal)

section \<open>Reading the indexes\<close>

lemma read_all_Inr:
  "read_all cd d ps = Inr es \<longleftrightarrow>
     (\<exists>f. (\<forall>p \<in> set ps. readEntriesFile cd p (d_files d p) = Inr (f p)) \<and> es = concat (map f ps))"
proof (induction ps arbitrary: es)
  case Nil
  then show ?case by auto
next
  case (Cons p ps)
  show ?case
  proof
    assume "read_all cd d (p # ps) = Inr es"
    then obtain a b where ab: "readEntriesFile cd p (d_files d p) = Inr a" "read_all cd d ps = Inr b" "es = a @ b"
      by (auto simp: result_simps)
    then obtain f where f: "\<forall>q \<in> set ps. readEntriesFile cd q (d_files d q) = Inr (f q)" "b = concat (map f ps)"
      using Cons.IH by blast
    show "\<exists>f. (\<forall>q \<in> set (p # ps). readEntriesFile cd q (d_files d q) = Inr (f q)) \<and> es = concat (map f (p # ps))"
    proof (intro exI conjI)
      let ?g = "\<lambda>q. projr (readEntriesFile cd q (d_files d q))"
      show "\<forall>q \<in> set (p # ps). readEntriesFile cd q (d_files d q) = Inr (?g q)"
        using f(1) ab(1) by auto
      have m: "map ?g ps = map f ps" using f(1) by auto
      show "es = concat (map ?g (p # ps))"
        unfolding list.map concat.simps m using ab f(2) by simp
    qed
  next
    assume "\<exists>f. (\<forall>q \<in> set (p # ps). readEntriesFile cd q (d_files d q) = Inr (f q)) \<and> es = concat (map f (p # ps))"
    then obtain f where f: "\<forall>q \<in> set (p # ps). readEntriesFile cd q (d_files d q) = Inr (f q)"
        "es = concat (map f (p # ps))" by blast
    then have "read_all cd d ps = Inr (concat (map f ps))" using Cons.IH by auto
    with f show "read_all cd d (p # ps) = Inr es" by simp
  qed
qed

text \<open>An index that gains one encoded row is read with that row behind its rows.\<close>

lemma readEntriesFile_append:
  assumes old: "old = (case content of None \<Rightarrow> [] | Some s \<Rightarrow> s)" "old = unlines ls0" "\<forall>l \<in> set ls0. LF \<notin> set l"
    and rd: "readEntriesFile cd ip content = Inr es"
    and row: "LF \<notin> set row" "row \<noteq> []" "Suc (length row) \<le> maxIndexLineBytes" "dec_entry cd row = Some e"
      "normalizeRecordPath ip (e_file e) = Inr p"
    and total: "length (old @ row @ [LF]) \<le> maxIndexTotalBytes"
  shows "readEntriesFile cd ip (Some (old @ row @ [LF])) = Inr (es @ [e\<lparr>e_index := ip, e_file := p\<rparr>])"
proof -
  have app: "old @ row @ [LF] = unlines (ls0 @ [row])" using old(2) by (simp add: unlines_append)
  have no: "\<forall>l \<in> set (ls0 @ [row]). LF \<notin> set l" using old(3) row(1) by auto
  have r0: "rows_result cd ip maxIndexLineBytes [] ls0 = Inr es"
  proof (cases content)
    case None
    then have "ls0 = []" using old by (cases ls0) auto
    then show ?thesis using rd None by (simp add: readEntriesFile_def readEntriesFileBounded_def)
  next
    case (Some s)
    then have "s = unlines ls0" using old by simp
    with rd Some read_unlines [OF old(3), of cd ip] show ?thesis
      by (auto simp: readEntriesFile_def result_simps split: if_splits)
  qed
  have "row_result cd ip maxIndexLineBytes es row = Inr (es @ [e\<lparr>e_index := ip, e_file := p\<rparr>])"
    using row by (simp add: row_result_def add_entry_def)
  then have "rows_result cd ip maxIndexLineBytes [] (ls0 @ [row]) = Inr (es @ [e\<lparr>e_index := ip, e_file := p\<rparr>])"
    by (simp add: rows_result_append r0)
  then show ?thesis
    unfolding app readEntriesFile_def read_unlines [OF no] using total app by simp
qed

section \<open>A record put by one helper is found by every other\<close>

lemma plain_names [simp]:
  "plain_comp ''repos''" "plain_comp ''logs''" "plain_comp ''records''" "plain_comp ''index.jsonl''"
  by (simp_all add: plain_comp_def)

lemma record_name_plain:
  assumes "plain_comp (r_id r)"
  shows "plain_comp (record_name h r) \<and> (HasSuffix (record_name h r) ''.json'' \<or> HasSuffix (record_name h r) ''.json.gz'')
     \<and> record_name h r \<noteq> ''index.jsonl''"
proof -
  have j: "HasSuffix (record_name h r) (if h_compress h then ''.json.gz'' else ''.json'')"
    by (auto simp: record_name_def HasSuffix_iff)
  have s: "SLASH \<notin> set (record_name h r)"
    using assms by (auto simp: record_name_def plain_comp_def)
  have "\<not> HasSuffix ''index.jsonl'' ''.json''" "\<not> HasSuffix ''index.jsonl'' ''.json.gz''"
    by (simp_all add: HasSuffix_def)
  with j s json_suffix_plain [of "record_name h r"] show ?thesis by (auto split: if_splits)
qed

text \<open>Where a repository's log directory lies.\<close>

lemma logs_dir_abs:
  assumes "h_root h = abs_of rs" "list_all plain_comp rs" "logs_dir env h repo = Inr (dir, n)"
  shows "(n = [] \<and> dir = abs_of (rs @ [''logs''])) \<or> (plain_comp n \<and> dir = abs_of (rs @ [''repos'', n, ''logs'']))"
proof (cases "TrimSpace repo = []")
  case True
  then show ?thesis using assms JoinPath_many [of rs "[''logs'']"] by (simp add: logs_dir_def)
next
  case False
  then have "Name (v_sha env) (v_wd env) repo = Inr n" "LogsDir (v_sha env) (v_wd env) \<lparr>store_root = abs_of rs\<rparr> repo = Inr dir"
    using assms by (auto simp: logs_dir_def result_simps)
  with LogsDir_below_root [OF this(2) assms(2)] Name_safe show ?thesis by auto
qed

text \<open>The listing names plain directories and lists every project that has an index.\<close>

definition disk_ok :: "string list \<Rightarrow> disk \<Rightarrow> bool" where
  "disk_ok rs d \<longleftrightarrow> list_all plain_comp (d_names d) \<and>
     (\<forall>n. plain_comp n \<and> d_files d (abs_of (rs @ [''repos'', n, ''logs'', ''index.jsonl''])) \<noteq> None \<longrightarrow> n \<in> set (d_names d))"

lemma indexPaths_abs:
  assumes "h_root h = abs_of rs" "list_all plain_comp rs" "disk_ok rs d"
  shows "set (indexPaths h d) =
    {p. d_files d p \<noteq> None \<and> (p = abs_of (rs @ [''logs'', ''index.jsonl''])
       \<or> (\<exists>n \<in> set (d_names d). p = abs_of (rs @ [''repos'', n, ''logs'', ''index.jsonl''])))}"
proof -
  have "JoinPath [abs_of rs, ''repos'', n, ''logs'', ''index.jsonl''] = abs_of (rs @ [''repos'', n, ''logs'', ''index.jsonl''])"
    if "n \<in> set (d_names d)" for n
    using that assms JoinPath_many [of rs "[''repos'', n, ''logs'', ''index.jsonl'']"]
    by (simp add: disk_ok_def list_all_iff)
  moreover have "JoinPath [abs_of rs, ''logs'', ''index.jsonl''] = abs_of (rs @ [''logs'', ''index.jsonl''])"
    using assms JoinPath_many [of rs "[''logs'', ''index.jsonl'']"] by simp
  ultimately show ?thesis
    unfolding indexPaths_def assms(1) by auto
qed

lemma set_make_dirs: "set (d_names (make_dirs n d)) = (if n = [] then set (d_names d) else insert n (set (d_names d)))"
  by (auto simp: make_dirs_def set_insort_key)

lemma make_dirs_files [simp]: "d_files (make_dirs n d) = d_files d"
  by (simp add: make_dirs_def)

lemma put_file_simps [simp]:
  "d_files (put_file p s d) = (d_files d)(p := Some s)" "d_names (put_file p s d) = d_names d"
  by (simp_all add: put_file_def)

text \<open>What a successful \<open>Put\<close> leaves on the disk, and in memory.\<close>

definition put_disk :: "henv \<Rightarrow> hist_record \<Rightarrow> history \<Rightarrow> string \<Rightarrow> string \<Rightarrow> string \<Rightarrow> string \<Rightarrow> disk \<Rightarrow> disk" where
  "put_disk env r h n ip path old d =
     put_file ip (old @ enc_entry (v_codec env) (row_of r n path) @ [LF])
       (put_file ip old (put_file path (encode_record (v_codec env) (h_compress h) r) (make_dirs n d)))"

lemma Put_success:
  assumes "Put env io r0 h d = (None, h', d')" "h_root h = abs_of rs" "list_all plain_comp rs" "plain_comp (r_id r0)"
  shows "\<exists>dir n ls. logs_dir env h (r_repo r0) = Inr (dir, n) \<and> dir = abs_of ls \<and> list_all plain_comp ls
     \<and> ((n = [] \<and> ls = rs @ [''logs'']) \<or> (plain_comp n \<and> ls = rs @ [''repos'', n, ''logs'']))
     \<and> h' = set_cached (r_id r0) (stamped env r0) h
     \<and> length (enc_record (v_codec env) (stamped env r0)) \<le> maxHistoryRecordBytes
     \<and> Suc (length (enc_entry (v_codec env) (row_of (stamped env r0) n (abs_of (ls @ [''records'', record_name h r0]))))) \<le> maxIndexLineBytes
     \<and> d' = put_disk env (stamped env r0) h n (abs_of (ls @ [''index.jsonl''])) (abs_of (ls @ [''records'', record_name h r0]))
          (case d_files d (abs_of (ls @ [''index.jsonl''])) of None \<Rightarrow> [] | Some s \<Rightarrow> s) d"
proof -
  let ?r = "stamped env r0"
  have st: "r_id ?r = r_id r0" "r_repo ?r = r_repo r0" "record_name h ?r = record_name h r0"
    by (simp_all add: stamped_def record_name_def)
  have root: "h_root h \<noteq> []" "TrimSpace (r_id r0) \<noteq> []"
    using assms(1,2) by (auto simp: Put_def split: if_splits)
  obtain ip row d1 where pr: "put_record env io ?r h d = (Inr (ip, row), d1)"
      "put_append env io ?r ip row h d1 = (None, h', d')"
    using assms(1) root by (auto simp: Put_def Let_def split: prod.splits sum.splits)
  obtain dir n where dn: "logs_dir env h (r_repo r0) = Inr (dir, n)"
    using pr(1) st by (auto simp: put_record_def split: sum.splits prod.splits)
  obtain ls where ls: "dir = abs_of ls" "list_all plain_comp ls"
      "(n = [] \<and> ls = rs @ [''logs'']) \<or> (plain_comp n \<and> ls = rs @ [''repos'', n, ''logs''])"
    using logs_dir_abs [OF assms(2,3) dn] assms(3) by auto
  have nm: "plain_comp (record_name h r0)" using record_name_plain [OF assms(4)] by simp
  have path: "JoinPath [JoinPath [abs_of ls, ''records''], record_name h r0] = abs_of (ls @ [''records'', record_name h r0])"
    using JoinPath_many [of ls "[''records'']"] JoinPath_many [of "ls @ [''records'']" "[record_name h r0]"] ls(2) nm by simp
  have idx: "index_of dir = abs_of (ls @ [''index.jsonl''])"
    using JoinPath_many [of ls "[''index.jsonl'']"] ls by (simp add: index_of_def)
  have R: "length (enc_record (v_codec env) ?r) \<le> maxHistoryRecordBytes" "ip = abs_of (ls @ [''index.jsonl''])"
      "row = row_of ?r n (abs_of (ls @ [''records'', record_name h r0]))"
      "d1 = put_file (abs_of (ls @ [''records'', record_name h r0])) (encode_record (v_codec env) (h_compress h) ?r) (make_dirs n d)"
    using pr(1) dn ls(1) idx st path
    by (auto simp: put_record_def writeJSONRecord_def Let_def split: if_splits option.splits)
  have ne: "abs_of (ls @ [''index.jsonl'']) \<noteq> abs_of (ls @ [''records'', record_name h r0])"
    using ls(2) nm by (simp add: abs_of_inject)
  have rid: "row_of q a b\<lparr>e_index := []\<rparr> = row_of q a b" for q a b by (simp add: row_of_def)
  have A: "Suc (length (enc_entry (v_codec env) row)) \<le> maxIndexLineBytes" "h' = set_cached (r_id ?r) ?r h"
      "d' = put_file ip ((case d_files d1 ip of None \<Rightarrow> [] | Some s \<Rightarrow> s) @ enc_entry (v_codec env) row @ [LF])
              (put_file ip (case d_files d1 ip of None \<Rightarrow> [] | Some s \<Rightarrow> s) d1)"
    using pr(2) R(3) by (auto simp: put_append_def appendIndexEntry_def Let_def rid split: if_splits option.splits prod.splits)
  have f: "d_files d1 ip = d_files d ip" using R ne by simp
  have D: "d' = put_disk env ?r h n (abs_of (ls @ [''index.jsonl''])) (abs_of (ls @ [''records'', record_name h r0]))
          (case d_files d (abs_of (ls @ [''index.jsonl''])) of None \<Rightarrow> [] | Some s \<Rightarrow> s) d"
    unfolding put_disk_def A(3) f using R by simp
  have B: "h' = set_cached (r_id r0) ?r h"
      "Suc (length (enc_entry (v_codec env) (row_of ?r n (abs_of (ls @ [''records'', record_name h r0]))))) \<le> maxIndexLineBytes"
    using A(1,2) R(3) st by simp_all
  show ?thesis
    by (rule exI [where x = dir], rule exI [where x = n], rule exI [where x = ls])
      (simp only: dn ls(1,2) simp_thms B(2) R(1) D [symmetric] B(1) [symmetric] ls(3))
qed

text \<open>The indexes after a successful \<open>Put\<close>: the one it appended to is there, the others are as before.\<close>

lemma put_disk_indexes:
  assumes h: "h_root h = abs_of rs" "h_root h2 = abs_of rs" "list_all plain_comp rs" "disk_ok rs d"
    and ls: "list_all plain_comp ls" "(n = [] \<and> ls = rs @ [''logs'']) \<or> (plain_comp n \<and> ls = rs @ [''repos'', n, ''logs''])"
    and nm: "plain_comp name" "name \<noteq> ''index.jsonl''"
    and d': "d' = put_disk env r h n (abs_of (ls @ [''index.jsonl''])) (abs_of (ls @ [''records'', name])) old d"
  shows "set (indexPaths h2 d') = insert (abs_of (ls @ [''index.jsonl''])) (set (indexPaths h2 d))"
    and "\<forall>p \<in> set (indexPaths h2 d). p \<noteq> abs_of (ls @ [''index.jsonl'']) \<longrightarrow> d_files d' p = d_files d p"
    and "disk_ok rs d'"
proof -
  let ?ip = "abs_of (ls @ [''index.jsonl''])"
  let ?rp = "abs_of (ls @ [''records'', name])"
  have names: "set (d_names d') = (if n = [] then set (d_names d) else insert n (set (d_names d)))"
    by (simp add: d' put_disk_def set_make_dirs)
  have n: "n = [] \<or> plain_comp n" using ls(2) by auto
  have old_name: "m \<in> set (d_names d)"
    if "plain_comp m" "d_files d (abs_of (rs @ [''repos'', m, ''logs'', ''index.jsonl''])) \<noteq> None" for m
    using that h(4) by (simp add: disk_ok_def)
  have files: "d_files d' p = (if p = ?ip then d_files d' ?ip else if p = ?rp then d_files d' ?rp else d_files d p)"
    "d_files d' ?ip \<noteq> None" for p
    by (auto simp: d' put_disk_def)
  have norp: "abs_of (rs @ [''logs'', ''index.jsonl'']) \<noteq> ?rp"
    using h(3) ls(1) nm by (simp add: abs_of_inject)
  have norp2: "abs_of (rs @ [''repos'', m, ''logs'', ''index.jsonl'']) \<noteq> ?rp" if "plain_comp m" for m
    using h(3) ls(1) nm that by (simp add: abs_of_inject)
  have ipc: "?ip = abs_of (rs @ [''logs'', ''index.jsonl'']) \<and> n = [] \<or>
     ?ip = abs_of (rs @ [''repos'', n, ''logs'', ''index.jsonl'']) \<and> n \<noteq> []"
    using ls(2) by auto
  show ok: "disk_ok rs d'"
    unfolding disk_ok_def
  proof (intro conjI allI impI)
    show "list_all plain_comp (d_names d')" using h(4) names n by (auto simp: disk_ok_def list_all_iff)
    fix m assume m: "plain_comp m \<and> d_files d' (abs_of (rs @ [''repos'', m, ''logs'', ''index.jsonl''])) \<noteq> None"
    show "m \<in> set (d_names d')"
    proof (cases "abs_of (rs @ [''repos'', m, ''logs'', ''index.jsonl'']) = ?ip")
      case True
      then have "n = m" "n \<noteq> []" using ipc m h(3) n by (auto simp: abs_of_inject)
      then show ?thesis using names by simp
    next
      case False
      then have "d_files d (abs_of (rs @ [''repos'', m, ''logs'', ''index.jsonl''])) \<noteq> None"
        using m norp2 [of m] files(1) [of "abs_of (rs @ [''repos'', m, ''logs'', ''index.jsonl''])"] by auto
      then show ?thesis using old_name [of m] m names by simp
    qed
  qed
  have names_plain: "plain_comp m" if "m \<in> set (d_names d)" for m
    using that h(4) by (simp add: disk_ok_def list_all_iff)
  have P: "set (indexPaths h2 d) \<subseteq> {p. p \<noteq> ?rp}"
  proof
    fix p assume "p \<in> set (indexPaths h2 d)"
    then have "p = abs_of (rs @ [''logs'', ''index.jsonl'']) \<or>
      (\<exists>m \<in> set (d_names d). p = abs_of (rs @ [''repos'', m, ''logs'', ''index.jsonl'']))"
      unfolding indexPaths_abs [OF h(2,3,4)] by blast
    then show "p \<in> {p. p \<noteq> ?rp}"
      using norp norp2 names_plain by (elim disjE bexE) simp_all
  qed
  show "\<forall>p \<in> set (indexPaths h2 d). p \<noteq> ?ip \<longrightarrow> d_files d' p = d_files d p"
  proof (intro ballI impI)
    fix p assume p: "p \<in> set (indexPaths h2 d)" "p \<noteq> ?ip"
    then have "p \<noteq> ?rp" using P by blast
    with p(2) show "d_files d' p = d_files d p" by (simp add: d' put_disk_def)
  qed
  have cand': "(p = abs_of (rs @ [''logs'', ''index.jsonl'']) \<or>
       (\<exists>m \<in> set (d_names d'). p = abs_of (rs @ [''repos'', m, ''logs'', ''index.jsonl'']))) \<longleftrightarrow>
     (p = ?ip \<or> p = abs_of (rs @ [''logs'', ''index.jsonl'']) \<or>
       (\<exists>m \<in> set (d_names d). p = abs_of (rs @ [''repos'', m, ''logs'', ''index.jsonl''])))" for p
    using ipc names by auto
  have iprp: "?ip \<noteq> ?rp" using ls(1) nm by (simp add: abs_of_inject)
  have norp3: "p \<noteq> ?rp" if "p = ?ip \<or> p = abs_of (rs @ [''logs'', ''index.jsonl'']) \<or>
       (\<exists>m \<in> set (d_names d). p = abs_of (rs @ [''repos'', m, ''logs'', ''index.jsonl'']))" for p
    using that norp norp2 iprp names_plain by (elim disjE bexE) simp_all
  show "set (indexPaths h2 d') = insert ?ip (set (indexPaths h2 d))"
  proof (intro set_eqI)
    fix p
    show "p \<in> set (indexPaths h2 d') \<longleftrightarrow> p \<in> insert ?ip (set (indexPaths h2 d))"
      unfolding indexPaths_abs [OF h(2,3,4)] indexPaths_abs [OF h(2,3) ok] mem_Collect_eq insert_iff cand'
      using files(1) [of p] files(2) norp3 [of p] by (auto split: if_splits)
  qed
qed

text \<open>The rows a helper reads afterwards are the rows it read before and the new one.\<close>

lemma put_disk_rows:
  assumes h: "h_root h = abs_of rs" "h_root h2 = abs_of rs" "list_all plain_comp rs" "disk_ok rs d"
    and ls: "list_all plain_comp ls" "(n = [] \<and> ls = rs @ [''logs'']) \<or> (plain_comp n \<and> ls = rs @ [''repos'', n, ''logs''])"
    and nm: "plain_comp name" "name \<noteq> ''index.jsonl''" "HasSuffix name ''.json'' \<or> HasSuffix name ''.json.gz''"
    and d': "d' = put_disk env r h n (abs_of (ls @ [''index.jsonl''])) (abs_of (ls @ [''records'', name])) old d"
    and old: "old = (case d_files d (abs_of (ls @ [''index.jsonl''])) of None \<Rightarrow> [] | Some s \<Rightarrow> s)"
      "old = unlines ls0" "\<forall>l \<in> set ls0. LF \<notin> set l"
    and row: "row = row_of r n (abs_of (ls @ [''records'', name]))" "line = enc_entry (v_codec env) row"
      "LF \<notin> set line" "line \<noteq> []" "Suc (length line) \<le> maxIndexLineBytes" "dec_entry (v_codec env) line = Some row"
      "length (old @ line @ [LF]) \<le> maxIndexTotalBytes"
    and rd: "readEntries (v_codec env) h2 d = Inr es"
  shows "\<exists>es'. readEntries (v_codec env) h2 d' = Inr es'
     \<and> set es' = insert (row\<lparr>e_index := abs_of (ls @ [''index.jsonl''])\<rparr>) (set es)"
proof -
  let ?cd = "v_codec env"
  let ?ip = "abs_of (ls @ [''index.jsonl''])"
  let ?new = "row\<lparr>e_index := ?ip\<rparr>"
  note I = put_disk_indexes [OF h ls nm(1,2) d']
  obtain f where f: "\<forall>p \<in> set (indexPaths h2 d). readEntriesFile ?cd p (d_files d p) = Inr (f p)"
      "es = concat (map f (indexPaths h2 d))"
    using rd read_all_Inr unfolding readEntries_def by blast
  have path: "normalizeRecordPath ?ip (e_file row) = Inr (e_file row)"
    using normalizeRecordPath_own [OF ls(1) nm(1,3)] by (simp add: row(1) row_of_def)
  have upd: "row\<lparr>e_index := ?ip, e_file := e_file row\<rparr> = ?new" by simp
  have mem: "?ip \<in> set (indexPaths h2 d) \<longleftrightarrow> d_files d ?ip \<noteq> None"
    using ls(2) h(4) unfolding indexPaths_abs [OF h(2,3,4)] disk_ok_def by auto
  have "d_files d' ?ip = Some (old @ line @ [LF])"
    by (simp add: d' put_disk_def row(1,2))
  moreover obtain fs where fs: "readEntriesFile ?cd ?ip (d_files d ?ip) = Inr fs" "?ip \<notin> set (indexPaths h2 d) \<Longrightarrow> fs = []"
  proof (cases "?ip \<in> set (indexPaths h2 d)")
    case True
    then show ?thesis using that f(1) by blast
  next
    case False
    then have "d_files d ?ip = None" using mem by simp
    then show ?thesis using that [of "[]"] by (simp add: readEntriesFile_def readEntriesFileBounded_def)
  qed
  ultimately have new: "readEntriesFile ?cd ?ip (d_files d' ?ip) = Inr (fs @ [?new])"
    using readEntriesFile_append [OF old fs(1) row(3,4,5,6) path row(7)] upd by simp
  let ?g = "\<lambda>p. if p = ?ip then fs @ [?new] else f p"
  have g: "\<forall>p \<in> set (indexPaths h2 d'). readEntriesFile ?cd p (d_files d' p) = Inr (?g p)"
    using new f(1) I(1,2) by auto
  have fip: "?ip \<in> set (indexPaths h2 d) \<Longrightarrow> f ?ip = fs"
    using f(1) fs(1) by auto
  let ?A = "set (indexPaths h2 d)"
  have "set (concat (map ?g (indexPaths h2 d'))) = insert ?new (set fs) \<union> (\<Union>p \<in> ?A - {?ip}. set (f p))"
    unfolding set_concat set_map I(1) by (auto split: if_splits)
  moreover have "set es = set fs \<union> (\<Union>p \<in> ?A - {?ip}. set (f p))"
  proof (cases "?ip \<in> ?A")
    case True
    then have "(\<Union>p \<in> ?A. set (f p)) = set (f ?ip) \<union> (\<Union>p \<in> ?A - {?ip}. set (f p))" by auto
    then show ?thesis using fip [OF True] f(2) by simp
  next
    case False
    then show ?thesis using fs(2) f(2) by simp
  qed
  ultimately have "set (concat (map ?g (indexPaths h2 d'))) = insert ?new (set es)" by simp
  moreover have "readEntries ?cd h2 d' = Inr (concat (map ?g (indexPaths h2 d')))"
    unfolding readEntries_def read_all_Inr by (rule exI [where x = ?g]) (use g in simp)
  ultimately show ?thesis by blast
qed

definition complete_lines :: "string \<Rightarrow> bool" where
  "complete_lines s \<longleftrightarrow> s = [] \<or> last s = LF"

lemma complete_lines_unlines:
  assumes "complete_lines s"
  shows "\<exists>ls. s = unlines ls \<and> (\<forall>l \<in> set ls. LF \<notin> set l)"
proof (cases "s = []")
  case True
  then show ?thesis by (intro exI [where x = "[]"]) simp
next
  case False
  then obtain t where t: "s = t @ LF # []" using assms by (metis append_butlast_last_id complete_lines_def)
  have J: "Join [LF] (xs @ [[]]) = unlines xs" if "xs \<noteq> []" for xs
    using that
  proof (induction xs)
    case Nil
    then show ?case by simp
  next
    case (Cons x xs)
    then show ?case by (cases "xs = []") (auto simp: Join_Cons)
  qed
  have "s = Join [LF] (SplitChar LF s)" by simp
  also have "\<dots> = unlines (SplitChar LF t)" unfolding t SplitChar_snoc using J by simp
  finally have "s = unlines (SplitChar LF t)" .
  then show ?thesis by (intro exI [where x = "SplitChar LF t"] conjI ballI) (auto dest: SplitChar_no_sep)
qed

definition record_path :: "history \<Rightarrow> hist_record \<Rightarrow> string \<Rightarrow> string" where
  "record_path h r dir = JoinPath [JoinPath [dir, ''records''], record_name h r]"

lemma gz_suffix:
  assumes "SLASH \<notin> set (record_name h r)"
  shows "HasSuffix (abs_of (ls @ [''records'', record_name h r])) ''.gz'' \<longleftrightarrow> h_compress h"
proof -
  have "abs_of (ls @ [''records'', record_name h r]) = abs_of (ls @ [''records'']) @ SLASH # record_name h r"
    using Join_snoc [of "ls @ [''records'']" "[SLASH]" "record_name h r"] by (simp add: abs_of_def)
  then have e: "rev (abs_of (ls @ [''records'', record_name h r])) = rev (record_name h r) @ SLASH # rev (abs_of (ls @ [''records'']))"
    by simp
  show ?thesis unfolding HasSuffix_def e by (simp add: record_name_def)
qed

lemma getRecord_other_helper:
  assumes put: "Put env io r0 h d = (None, h', d')"
    and root: "h_root h = abs_of rs" "h_root h2 = abs_of rs" "list_all plain_comp rs" "disk_ok rs d"
    and rec: "plain_comp (r_id r0)" "isTerminalStatus (r_status r0)" "r = stamped env r0"
      "length (enc_record (v_codec env) r) < maxHistoryRecordBytes"
    and cd: "logs_dir env h (r_repo r0) = Inr (dir, n)" "row = row_of r n (record_path h r0 dir)"
      "line = enc_entry (v_codec env) row" "LF \<notin> set line" "line \<noteq> []"
      "dec_entry (v_codec env) line = Some row"
      "dec_record (v_codec env) (enc_record (v_codec env) r @ [LF]) = Some r"
      "gunzip (v_codec env) (gzip (v_codec env) (enc_record (v_codec env) r @ [LF])) = Some (enc_record (v_codec env) r @ [LF])"
    and idx: "old = (case d_files d (index_of dir) of None \<Rightarrow> [] | Some s \<Rightarrow> s)" "complete_lines old"
      "length (old @ line @ [LF]) \<le> maxIndexTotalBytes"
    and other: "v_codec env2 = v_codec env" "readEntries (v_codec env) h2 d = Inr es"
      "\<not> list_ex (\<lambda>e. e_id e = r_id r0 \<and> isTerminalStatus (e_status e)) es"
      "\<not> (case get_cached h2 (r_id r0) of None \<Rightarrow> False | Some c \<Rightarrow> isTerminalStatus (r_status c))"
  shows "getRecord env2 h2 d' (r_id r0) = (Inr (Some r), set_cached (r_id r0) r h2)"
proof -
  let ?cd = "v_codec env"
  obtain dir' n' ls where P: "logs_dir env h (r_repo r0) = Inr (dir', n')" "dir' = abs_of ls" "list_all plain_comp ls"
      "(n' = [] \<and> ls = rs @ [''logs'']) \<or> (plain_comp n' \<and> ls = rs @ [''repos'', n', ''logs''])"
      "Suc (length (enc_entry ?cd (row_of (stamped env r0) n' (abs_of (ls @ [''records'', record_name h r0]))))) \<le> maxIndexLineBytes"
      "d' = put_disk env (stamped env r0) h n' (abs_of (ls @ [''index.jsonl''])) (abs_of (ls @ [''records'', record_name h r0]))
          (case d_files d (abs_of (ls @ [''index.jsonl''])) of None \<Rightarrow> [] | Some s \<Rightarrow> s) d"
    using Put_success [OF put root(1,3) rec(1)] by blast
  then have dn: "dir = abs_of ls" "n' = n" using cd(1) by auto
  note nm = record_name_plain [OF rec(1), of h]
  have path: "record_path h r0 dir = abs_of (ls @ [''records'', record_name h r0])"
    using JoinPath_many [of ls "[''records'']"] JoinPath_many [of "ls @ [''records'']" "[record_name h r0]"] P(3) nm dn
    by (simp add: record_path_def)
  have ip: "index_of dir = abs_of (ls @ [''index.jsonl''])"
    using JoinPath_many [of ls "[''index.jsonl'']"] P(3) dn by (simp add: index_of_def)
  obtain ls0 where ls0: "old = unlines ls0" "\<forall>l \<in> set ls0. LF \<notin> set l"
    using complete_lines_unlines [OF idx(2)] by blast
  have d': "d' = put_disk env r h n (abs_of (ls @ [''index.jsonl''])) (abs_of (ls @ [''records'', record_name h r0])) old d"
    using P(6) dn(2) rec(3) idx(1) ip by simp
  let ?new = "row\<lparr>e_index := abs_of (ls @ [''index.jsonl''])\<rparr>"
  have "\<exists>es'. readEntries ?cd h2 d' = Inr es' \<and> set es' = insert ?new (set es)"
  proof (rule put_disk_rows [OF root P(3) _ _ _ _ d' _ ls0])
    show "Suc (length line) \<le> maxIndexLineBytes" using P(5) cd(2,3) dn(2) path rec(3) by simp
  qed (use P(4) dn(2) nm idx cd path ip other(2) in simp_all)
  then obtain es' where es': "readEntries ?cd h2 d' = Inr es'" "set es' = insert ?new (set es)" by blast
  have new: "e_id ?new = r_id r0" "e_status ?new = r_status r0" "e_file ?new = abs_of (ls @ [''records'', record_name h r0])"
    using rec(3) path by (simp_all add: cd(2) row_of_def stamped_def)
  obtain m where m: "durable_row (r_id r0) es' = Some m" "isTerminalStatus (e_status m)"
    using durable_row_terminal [of ?new es'] es'(2) new rec(2) by auto
  have "m = ?new"
    using durable_row_Some [OF m(1)] m(2) es'(2) other(3) by (auto simp: list_ex_iff)
  then have best: "durable_row (r_id r0) es' = Some ?new" using m(1) by simp
  have stored: "d_files d' (abs_of (ls @ [''records'', record_name h r0])) = Some (encode_record ?cd (h_compress h) r)"
    using P(3) nm by (simp add: d' put_disk_def abs_of_inject)
  have rd: "readJSONRecord ?cd d' (e_file ?new) = Inr r"
    using nm rec(4) cd(7,8) gz_suffix [of h r0 ls] unfolding new(3)
    by (simp add: readJSONRecord_def stored encode_record_def plain_comp_def)
  have dur: "durableRecord env2 h2 d' (r_id r0) = Inr (Some r)"
    unfolding durableRecord_def other(1) es'(1) rbind.simps best option.case rd sum.case ..
  have "isTerminalStatus (r_status r)" using rec by (simp add: stamped_def)
  then show ?thesis
    using other(4) dur root(2) by (simp add: getRecord_def Let_def split: option.splits)
qed

end
