(* ===== verification/HistoryFacts.thy ===== *)
theory HistoryFacts
  imports History "HOL-Library.Multiset"
begin

text \<open>
  The contract of \<open>History\<close>: what lookups promise about finished commands, in one helper and across
  helpers, what retention keeps and removes, what a listing returns, and the cases in which \<open>Put\<close>
  or an interleaving with \<open>Cleanup\<close> loses a record.
\<close>

section \<open>Retention\<close>

lemma retain_split:
  assumes "retain now days maxRecords cmds = (kept, dropped)"
  shows "mset kept + mset dropped = mset cmds"
    and "sorted (map e_created kept)"
    and "\<forall>k \<in> set kept. now - days * day_ns \<le> e_created k"
    and "\<forall>x \<in> set dropped. e_created x < now - days * day_ns \<or> (\<forall>k \<in> set kept. e_created x \<le> e_created k)"
    and "0 < maxRecords \<Longrightarrow> int (length kept) \<le> maxRecords"
proof -
  let ?c = "now - days * day_ns"
  let ?d0 = "filter (\<lambda>e. e_created e < ?c) cmds"
  let ?s = "sort_key e_created (filter (\<lambda>e. \<not> e_created e < ?c) cmds)"
  have parts: "mset ?s + mset ?d0 = mset cmds"
    by (simp add: union_commute)
  have srt: "sorted (map e_created ?s)" by simp
  have low: "\<forall>k \<in> set ?s. ?c \<le> e_created k" by auto
  obtain n where kd: "kept = drop n ?s" "dropped = ?d0 @ take n ?s" "0 < maxRecords \<Longrightarrow> int (length kept) \<le> maxRecords"
  proof (cases "maxRecords > 0 \<and> int (length ?s) > maxRecords")
    case True
    then show ?thesis
      using assms that [of "nat (int (length ?s) - maxRecords)"] by (auto simp: retain_def Let_def)
  next
    case False
    then show ?thesis using assms that [of 0] by (auto simp: retain_def Let_def)
  qed
  have m: "mset (take n ?s) + mset (drop n ?s) = mset ?s"
    by (metis append_take_drop_id mset_append)
  show "mset kept + mset dropped = mset cmds"
    unfolding kd mset_append parts [symmetric] m [symmetric] by (simp only: ac_simps)
  show "sorted (map e_created kept)"
    using srt kd(1) by (metis drop_map sorted_wrt_drop)
  show "\<forall>k \<in> set kept. ?c \<le> e_created k"
    using low kd(1) by (meson in_set_dropD)
  have "\<forall>x \<in> set (take n ?s). \<forall>k \<in> set (drop n ?s). e_created x \<le> e_created k"
  proof -
    have "sorted (map e_created (take n ?s) @ map e_created (drop n ?s))"
      by (metis append_take_drop_id map_append srt)
    then show ?thesis by (auto simp: sorted_append)
  qed
  then show "\<forall>x \<in> set dropped. e_created x < ?c \<or> (\<forall>k \<in> set kept. e_created x \<le> e_created k)"
    using kd by auto
  show "0 < maxRecords \<Longrightarrow> int (length kept) \<le> maxRecords" by (rule kd(3))
qed

text \<open>A recent command is dropped only when the policy's number of commands is kept.\<close>

lemma retain_full:
  assumes "retain now days maxRecords cmds = (kept, dropped)" "x \<in> set dropped" "now - days * day_ns \<le> e_created x"
  shows "0 < maxRecords \<and> int (length kept) = maxRecords"
  using assms by (auto simp: retain_def Let_def split: if_splits)

lemma removeEntries_spec:
  "removeEntries es (h, d) = (h', d') \<Longrightarrow>
     get_cached h' c = (if c \<in> e_id ` set es then None else get_cached h c)
   \<and> d_files d' p = (if p \<in> e_file ` set es then None else d_files d p)
   \<and> d_names d' = d_names d \<and> h_root h' = h_root h"
proof (induction es arbitrary: h d)
  case Nil
  then show ?case by simp
next
  case (Cons e es)
  then show ?case
    by (auto simp: removeEntry_def drop_cached_def get_cached_def delete_conv')
qed

lemma rewrite_groups_spec:
  "rewrite_groups cd fails kept ps d = (err, d') \<Longrightarrow>
     (p \<notin> set ps \<longrightarrow> d_files d' p = d_files d p)
   \<and> (err = None \<longrightarrow> p \<in> set ps \<longrightarrow> d_files d' p = Some (index_bytes cd (filter (\<lambda>e. e_index e = p) kept)))
   \<and> (p \<in> set ps \<longrightarrow> d_files d' p \<in> {d_files d p, Some (index_bytes cd (filter (\<lambda>e. e_index e = p) kept))})"
proof (induction ps arbitrary: d)
  case Nil
  then show ?case by simp
next
  case (Cons q ps)
  show ?case
  proof (cases "fails q")
    case True
    then show ?thesis using Cons.prems by auto
  next
    case False
    let ?d1 = "put_file q (index_bytes cd (filter (\<lambda>e. e_index e = q) kept)) d"
    have "rewrite_groups cd fails kept ps ?d1 = (err, d')" using Cons.prems False by simp
    note IH = Cons.IH [OF this]
    show ?thesis using IH by (cases "p = q"; cases "p \<in> set ps") auto
  qed
qed

lemma index_bytes_concat: "index_bytes cd es = concat (map (\<lambda>e. enc_entry cd (e\<lparr>e_index := []\<rparr>) @ [LF]) es)"
  by (induction es) (simp_all add: index_bytes_def)

lemma Cleanup_cases:
  assumes "Cleanup env io fails h d = (err, h', d')" "h_root h \<noteq> []" "io IoLock = None"
    "readEntries (v_codec env) h d = Inr es"
    "retain (v_now env) (h_retention h) (h_maxRecords h) (latestEntries es) = (kept, dropped)"
  obtains d1 where "removeEntries dropped (h, d) = (h', d1)"
    "rewrite_groups (v_codec env) fails kept (remdups (map e_index es)) d1 = (err, d')"
proof -
  obtain h1 d1 where r: "removeEntries dropped (h, d) = (h1, d1)" by fastforce
  obtain e2 d2 where w: "rewrite_groups (v_codec env) fails kept (remdups (map e_index es)) d1 = (e2, d2)" by fastforce
  have "h1 = h'" "e2 = err" "d2 = d'"
    using assms r w by (simp_all add: Cleanup_def rewriteIndexes_def)
  with r w that show thesis by simp
qed

lemma kept_dropped_ids:
  assumes "mset kept + mset dropped = mset cmds" "distinct (map e_id cmds)" "k \<in> set kept"
  shows "e_id k \<notin> e_id ` set dropped"
proof
  assume "e_id k \<in> e_id ` set dropped"
  moreover have "mset (map e_id (kept @ dropped)) = mset (map e_id cmds)"
    by (metis assms(1) mset_append mset_map)
  then have "distinct (map e_id (kept @ dropped))"
    using assms(2) by (metis mset_eq_imp_distinct_iff)
  ultimately show False using assms(3) by auto
qed

section \<open>Listing\<close>

lemma newest_first_spec:
  assumes "newest_first limit es = (xs, tot)" "0 \<le> limit"
  shows "tot = length es" and "int (length xs) = min limit (int (length es))"
    and "sorted_wrt (\<lambda>a b. le_created b \<le> le_created a) xs"
    and "\<exists>rest. mset es = mset xs + mset rest \<and> (\<forall>x \<in> set xs. \<forall>y \<in> set rest. le_created y \<le> le_created x)"
proof -
  let ?s = "sort_key (\<lambda>e. - le_created e) es"
  have n: "xs = take (nat limit) ?s" "tot = length ?s"
    using assms by (auto simp: newest_first_def Let_def split: if_splits)
  show "tot = length es" "int (length xs) = min limit (int (length es))"
    using n assms(2) by auto
  have "sorted (map (\<lambda>e. - le_created e) ?s)" by simp
  then have s: "sorted_wrt (\<lambda>a b. le_created b \<le> le_created a) ?s"
    by (simp add: sorted_map)
  then show "sorted_wrt (\<lambda>a b. le_created b \<le> le_created a) xs"
    using n(1) sorted_wrt_take by blast
  have "sorted_wrt (\<lambda>a b. le_created b \<le> le_created a) (xs @ drop (nat limit) ?s)"
    using s n(1) by simp
  then have o: "\<forall>x \<in> set xs. \<forall>y \<in> set (drop (nat limit) ?s). le_created y \<le> le_created x"
    by (simp add: sorted_wrt_append)
  have "mset es = mset xs + mset (drop (nat limit) ?s)"
    by (metis append_take_drop_id mset_append mset_sort n(1))
  with o show "\<exists>rest. mset es = mset xs + mset rest \<and> (\<forall>x \<in> set xs. \<forall>y \<in> set rest. le_created y \<le> le_created x)"
    by blast
qed

lemma list_limit_bounds: "1 \<le> list_limit n \<and> list_limit n \<le> 200"
  by (simp add: list_limit_def Let_def)

section \<open>Index round trip\<close>

lemma rows_result_roundtrip:
  "\<forall>e \<in> set rows. e_index e = p \<and> dec_entry cd (enc_entry cd (e\<lparr>e_index := []\<rparr>)) = Some (e\<lparr>e_index := []\<rparr>)
      \<and> enc_entry cd (e\<lparr>e_index := []\<rparr>) \<noteq> [] \<and> Suc (length (enc_entry cd (e\<lparr>e_index := []\<rparr>))) \<le> cap
      \<and> normalizeRecordPath p (e_file e) = Inr (e_file e) \<Longrightarrow>
   rows_result cd p cap acc (map (\<lambda>e. enc_entry cd (e\<lparr>e_index := []\<rparr>)) rows) = Inr (acc @ rows)"
proof (induction rows arbitrary: acc)
  case Nil
  then show ?case by simp
next
  case (Cons e rows)
  have "row_result cd p cap acc (enc_entry cd (e\<lparr>e_index := []\<rparr>)) = Inr (acc @ [e])"
    using Cons.prems by (auto simp: row_result_def add_entry_def)
  with Cons show ?case by simp
qed

section \<open>Losing a record\<close>

text \<open>
  A record whose encoding has exactly the cap is accepted, but the newline of \<open>Encode\<close> makes the
  file one byte too long to be read back.
\<close>

lemma put_at_cap_unreadable:
  assumes "length (enc_record (v_codec env) r) = maxHistoryRecordBytes" "\<not> h_compress h"
    "put_record env (\<lambda>st. None) r h d = (Inr (ip, row), d1)" "\<not> HasSuffix (e_file row) ''.gz''"
  shows "readJSONRecord (v_codec env) d1 (e_file row) = Inl ''command log record exceeds byte limit''"
  using assms
  by (auto simp: put_record_def writeJSONRecord_def Let_def row_of_def readJSONRecord_def encode_record_def
      split: sum.splits if_splits prod.splits)

text \<open>A row over the line cap fails \<open>Put\<close> only after the record file has been written.\<close>

lemma put_long_row_leaves_record:
  assumes "put_record env io r h d = (Inr (ip, row), d1)" "io IoLock = None" "io IoOpenIndex = None"
    "maxIndexLineBytes < length (enc_entry (v_codec env) (row\<lparr>e_index := []\<rparr>)) + 1" "e_file row \<noteq> ip"
  shows "\<exists>d2. put_append env io r ip row h d1 = (Some ''command log index entry exceeds byte limit'', h, d2)
     \<and> d_files d2 (e_file row) = Some (encode_record (v_codec env) (h_compress h) r)"
proof -
  have "d_files d1 (e_file row) = Some (encode_record (v_codec env) (h_compress h) r)"
    using assms(1)
    by (auto simp: put_record_def writeJSONRecord_def Let_def row_of_def split: sum.splits if_splits prod.splits option.splits)
  then show ?thesis using assms by (simp add: put_append_def appendIndexEntry_def Let_def)
qed

text \<open>
  The record file is written before the lock is taken.  A cleanup of another helper that drops the
  command's running row between the two steps removes that file, and the terminal row appended
  afterwards names a record that no longer exists.
\<close>

lemma put_cleanup_race:
  assumes rec: "put_record env io r h d = (Inr (ip, row), d1)"
    and clean: "Cleanup env2 (\<lambda>st. None) (\<lambda>p. False) h2 d1 = (None, h2', d2)" "h_root h2 \<noteq> []"
      "readEntries (v_codec env2) h2 d1 = Inr es"
      "retain (v_now env2) (h_retention h2) (h_maxRecords h2) (latestEntries es) = (kept, dropped)"
      "x \<in> set dropped" "e_file x = e_file row" "e_file row \<notin> e_index ` set es"
    and app: "put_append env io r ip row h d2 = (None, h', d3)" "e_file row \<noteq> ip"
  shows "readJSONRecord (v_codec env) d3 (e_file row) = Inl ''open command log record''"
proof -
  obtain d' where d': "removeEntries dropped (h2, d1) = (h2', d')"
      "rewrite_groups (v_codec env2) (\<lambda>p. False) kept (remdups (map e_index es)) d' = (None, d2)"
    using Cleanup_cases [OF clean(1,2) _ clean(3,4)] by auto
  have "d_files d' (e_file row) = None"
    using removeEntries_spec [OF d'(1), of "[]" "e_file row"] clean(5,6) by (auto simp: image_iff)
  then have "d_files d2 (e_file row) = None"
    using rewrite_groups_spec [OF d'(2), of "e_file row"] clean(7) by auto
  moreover have "d_files d3 (e_file row) = d_files d2 (e_file row)"
    using app by (auto simp: put_append_def appendIndexEntry_def Let_def split: if_splits option.splits prod.splits)
  ultimately show ?thesis by (simp add: readJSONRecord_def)
qed

section \<open>An example log directory\<close>

definition rec_ex :: "string \<Rightarrow> string \<Rightarrow> int \<Rightarrow> hist_record" where
  "rec_ex i s t = \<lparr>r_id = i, r_status = s, r_repo = [], r_command = ''go test'', r_cwd = ''/r'', r_exit = 0,
     r_duration = 0, r_truncated = False, r_stdout = [], r_stderr = [], r_combined = [], r_hash = [],
     r_started = 0, r_completed = 0, r_created = t\<rparr>"

definition env_ex :: "hist_record \<Rightarrow> indexEntry \<Rightarrow> henv" where
  "env_ex r e = \<lparr>v_codec = \<lparr>enc_record = (\<lambda>x. ''r''), dec_record = (\<lambda>s. Some r), enc_entry = (\<lambda>x. ''e''),
     dec_entry = (\<lambda>s. Some e), gzip = (\<lambda>s. s), gunzip = Some\<rparr>, v_now = 5, v_wd = ''/'', v_sha = (\<lambda>s. s)\<rparr>"

definition empty_disk :: disk where
  "empty_disk = \<lparr>d_files = (\<lambda>p. None), d_names = []\<rparr>"

definition helper_ex :: history where
  "helper_ex = \<lparr>h_root = abs_of [''h''], h_retention = 30, h_maxRecords = 2000, h_compress = False, h_records = []\<rparr>"

definition file_ex :: string where
  "file_ex = abs_of [''h'', ''logs'', ''records'', ''a.json'']"

definition kept_ex :: indexEntry where
  "kept_ex = (row_ex ''a'' ''ok'' 3)\<lparr>e_file := file_ex, e_index := abs_of [''h'', ''logs'', ''index.jsonl'']\<rparr>"

definition disk_ex :: disk where
  "disk_ex = \<lparr>d_files = [abs_of [''h'', ''logs'', ''index.jsonl''] \<mapsto> ''e'' @ [LF], file_ex \<mapsto> ''r'' @ [LF]], d_names = []\<rparr>"

lemma paths_ex: "list_all plain_comp [''h'', ''logs'']" "plain_comp ''a.json''"
  by (simp_all add: plain_comp_def)

lemma normalize_ex: "normalizeRecordPath (abs_of [''h'', ''logs'', ''index.jsonl'']) file_ex = Inr file_ex"
proof -
  have "HasSuffix ''a.json'' ''.json''" by (simp add: HasSuffix_def)
  then show ?thesis
    using normalizeRecordPath_own [OF paths_ex(1,2)] by (simp add: file_ex_def)
qed

lemma read_ex:
  assumes "dec_entry (v_codec env) ''e'' = Some (kept_ex\<lparr>e_index := []\<rparr>)"
  shows "readEntries (v_codec env) helper_ex disk_ex = Inr [kept_ex]"
proof -
  have j: "JoinPath [abs_of [''h''], ''logs'', ''index.jsonl''] = abs_of [''h'', ''logs'', ''index.jsonl'']"
    using JoinPath_many [of "[''h'']" "[''logs'', ''index.jsonl'']"] by (simp add: plain_comp_def)
  have ne: "file_ex \<noteq> abs_of [''h'', ''logs'', ''index.jsonl'']"
    by (simp add: file_ex_def abs_of_def)
  have up: "kept_ex\<lparr>e_index := abs_of [''h'', ''logs'', ''index.jsonl''], e_file := file_ex\<rparr> = kept_ex"
      "e_file (kept_ex\<lparr>e_index := []\<rparr>) = file_ex"
    by (simp_all add: kept_ex_def)
  have l: "unlines [''e''] = ''e'' @ [LF]" by simp
  have "readEntriesFile (v_codec env) (abs_of [''h'', ''logs'', ''index.jsonl'']) (Some (unlines [''e''])) = Inr [kept_ex]"
    unfolding readEntriesFile_def
    by (subst read_unlines)
      (simp_all add: row_result_def add_entry_def assms up normalize_ex maxIndexLineBytes_def maxIndexTotalBytes_def)
  then have "readEntriesFile (v_codec env) (abs_of [''h'', ''logs'', ''index.jsonl'']) (Some [CHR ''e'', LF]) = Inr [kept_ex]"
    by simp
  then show ?thesis
    using ne by (simp add: readEntries_def indexPaths_def helper_ex_def disk_ex_def j)
qed

lemma latest_ex: "latestEntries [kept_ex] = [kept_ex]"
  by (simp add: latestEntries_def)

lemma retain_ex: "retain 5 30 2000 [kept_ex] = ([kept_ex], [])"
  by (simp add: retain_def Let_def day_ns_def kept_ex_def row_ex_def)

section \<open>Properties\<close>

text \<open>
  Claim C11: within one helper a finished command stays finished.  Once a terminal record is cached,
  no lookup, filter or late output update, on whatever the other helpers have left on the disk, and
  no \<open>Put\<close> of another command changes it, and every later lookup returns it.
\<close>

theorem terminal_record_final:
  assumes "get_cached h c = Some r" "isTerminalStatus (r_status r)" "list_all (\<lambda>e. \<not> puts_id c e) es"
  shows "getRecord env (hist_events compile env es h) d c = (Inr (Some r), hist_events compile env es h)"
  using hist_events_terminal [OF assms] assms(2) by (simp add: getRecord_def)

theorem terminal_record_final_witness:
  "getRecord (env_ex (rec_ex ''a'' ''running'' 1) (row_ex ''a'' ''running'' 1))
     (hist_events Inl (env_ex (rec_ex ''a'' ''running'' 1) (row_ex ''a'' ''running'' 1))
        [EvGet empty_disk ''a'', EvUpdate ''a'' [''x''] [] [''x''] True ''h'']
        (set_cached ''a'' (rec_ex ''a'' ''ok'' 3) helper_ex)) empty_disk ''a''
   = (Inr (Some (rec_ex ''a'' ''ok'' 3)),
      hist_events Inl (env_ex (rec_ex ''a'' ''running'' 1) (row_ex ''a'' ''running'' 1))
        [EvGet empty_disk ''a'', EvUpdate ''a'' [''x''] [] [''x''] True ''h'']
        (set_cached ''a'' (rec_ex ''a'' ''ok'' 3) helper_ex))"
  by (rule terminal_record_final)
    (simp_all add: rec_ex_def isTerminalStatus_def puts_id_def)

text \<open>
  Claim C12: a finished command is visible to every helper.  When \<open>Put\<close> of a terminal record succeeds,
  any other helper over the same log directory that has no terminal record of the command, whatever
  running snapshot it caches, finds exactly that record at its next lookup, provided the codecs
  invert on it, the encoding is below the record cap and the index stays within its total budget.
\<close>

theorem Put_visible_everywhere:
  assumes "Put env io r0 h d = (None, h', d')"
    and "h_root h = abs_of rs" "h_root h2 = abs_of rs" "list_all plain_comp rs" "disk_ok rs d"
    and "plain_comp (r_id r0)" "isTerminalStatus (r_status r0)" "r = stamped env r0"
      "length (enc_record (v_codec env) r) < maxHistoryRecordBytes"
    and "logs_dir env h (r_repo r0) = Inr (dir, n)" "row = row_of r n (record_path h r0 dir)"
      "line = enc_entry (v_codec env) row" "LF \<notin> set line" "line \<noteq> []"
      "dec_entry (v_codec env) line = Some row"
      "dec_record (v_codec env) (enc_record (v_codec env) r @ [LF]) = Some r"
      "gunzip (v_codec env) (gzip (v_codec env) (enc_record (v_codec env) r @ [LF])) = Some (enc_record (v_codec env) r @ [LF])"
    and "old = (case d_files d (index_of dir) of None \<Rightarrow> [] | Some s \<Rightarrow> s)" "complete_lines old"
      "length (old @ line @ [LF]) \<le> maxIndexTotalBytes"
    and "v_codec env2 = v_codec env" "readEntries (v_codec env) h2 d = Inr es"
      "\<not> list_ex (\<lambda>e. e_id e = r_id r0 \<and> isTerminalStatus (e_status e)) es"
      "\<not> (case get_cached h2 (r_id r0) of None \<Rightarrow> False | Some c \<Rightarrow> isTerminalStatus (r_status c))"
  shows "getRecord env2 h2 d' (r_id r0) = (Inr (Some r), set_cached (r_id r0) r h2)"
  using assms by (rule getRecord_other_helper)

lemma put_ex:
  "\<exists>d'. Put (env_ex (rec_ex ''a'' ''ok'' 3) (row_of (rec_ex ''a'' ''ok'' 3) [] (record_path helper_ex (rec_ex ''a'' ''ok'' 3) (abs_of [''h'', ''logs'']))))
      (\<lambda>st. None) (rec_ex ''a'' ''ok'' 3) helper_ex empty_disk
    = (None, set_cached ''a'' (rec_ex ''a'' ''ok'' 3) helper_ex, d')"
proof -
  have "\<not> is_space (CHR ''a'')" by (simp add: byte_defs)
  then show ?thesis
    by (simp add: Put_def Let_def rec_ex_def env_ex_def helper_ex_def TrimSpace_def TrimP_def TrimRightP_def TrimLeftP_def
        stamped_def put_record_def logs_dir_def writeJSONRecord_def put_append_def appendIndexEntry_def
        maxHistoryRecordBytes_def maxIndexLineBytes_def)
qed

theorem Put_visible_everywhere_witness:
  "\<exists>d'. fst (getRecord (env_ex (rec_ex ''a'' ''ok'' 3) (row_of (rec_ex ''a'' ''ok'' 3) [] (record_path helper_ex (rec_ex ''a'' ''ok'' 3) (abs_of [''h'', ''logs'']))))
      (set_cached ''a'' (rec_ex ''a'' ''running'' 1) helper_ex) d' ''a'') = Inr (Some (rec_ex ''a'' ''ok'' 3))"
proof -
  let ?r = "rec_ex ''a'' ''ok'' 3"
  let ?row = "row_of ?r [] (record_path helper_ex ?r (abs_of [''h'', ''logs'']))"
  let ?env = "env_ex ?r ?row"
  obtain d' where put: "Put ?env (\<lambda>st. None) ?r helper_ex empty_disk = (None, set_cached ''a'' ?r helper_ex, d')"
    using put_ex by blast
  have h: "plain_comp ''h''" "plain_comp ''a''" by (simp_all add: plain_comp_def)
  have dir: "JoinPath [abs_of [''h''], ''logs''] = abs_of [''h'', ''logs'']"
    using h JoinPath_many [of "[''h'']" "[''logs'']"] by simp
  have rd: "readEntries (v_codec ?env) (set_cached ''a'' (rec_ex ''a'' ''running'' 1) helper_ex) empty_disk = Inr []"
    by (simp add: readEntries_def indexPaths_def empty_disk_def)
  have "getRecord ?env (set_cached ''a'' (rec_ex ''a'' ''running'' 1) helper_ex) d' (r_id ?r)
      = (Inr (Some ?r), set_cached (r_id ?r) ?r (set_cached ''a'' (rec_ex ''a'' ''running'' 1) helper_ex))"
    by (rule Put_visible_everywhere [OF put, where rs = "[''h'']" and dir = "abs_of [''h'', ''logs'']" and n = "[]"
          and row = ?row and line = "''e''" and old = "[]" and es = "[]"])
      (use h rd in \<open>simp_all add: helper_ex_def disk_ok_def empty_disk_def rec_ex_def env_ex_def isTerminalStatus_def
          stamped_def maxHistoryRecordBytes_def maxIndexTotalBytes_def logs_dir_def TrimSpace_def TrimP_def
          TrimRightP_def TrimLeftP_def dir complete_lines_def\<close>)
  then show ?thesis by (intro exI [where x = d']) (simp add: rec_ex_def)
qed

text \<open>
  Claim C14: what a cleanup leaves.  The latest row of every command is either kept or dropped; the kept ones are
  inside the retention period and at most \<open>log_max_records\<close>, a dropped one is expired, or that number is reached and
  no kept one is older.  Every index then holds exactly the kept rows that came from it, in order of time, one line
  each; only if rewriting fails, and an error is returned, it may be as before.  The cache and the files of records
  lose exactly what belongs to dropped rows.
\<close>

theorem Cleanup_keeps:
  assumes "Cleanup env io fails h d = (err, h', d')" "h_root h \<noteq> []" "io IoLock = None" "readEntries (v_codec env) h d = Inr es"
  shows "\<exists>kept dropped. mset kept + mset dropped = mset (latestEntries es) \<and> sorted (map e_created kept)
     \<and> (0 < h_maxRecords h \<longrightarrow> int (length kept) \<le> h_maxRecords h)
     \<and> list_all (\<lambda>k. v_now env - h_retention h * day_ns \<le> e_created k) kept
     \<and> list_all (\<lambda>x. e_created x < v_now env - h_retention h * day_ns \<or>
          int (length kept) = h_maxRecords h \<and> list_all (\<lambda>k. e_created x \<le> e_created k) kept) dropped
     \<and> (\<forall>p. let removed = (if p \<in> e_file ` set dropped then None else d_files d p);
            rows = concat (map (\<lambda>e. enc_entry (v_codec env) (e\<lparr>e_index := []\<rparr>) @ [LF]) (filter (\<lambda>e. e_index e = p) kept)) in
          if p \<in> e_index ` set es then d_files d' p = Some rows \<or> err \<noteq> None \<and> d_files d' p = removed
          else d_files d' p = removed)
     \<and> (\<forall>c. get_cached h' c = (if c \<in> e_id ` set dropped then None else get_cached h c))"
proof -
  obtain kept dropped where rt: "retain (v_now env) (h_retention h) (h_maxRecords h) (latestEntries es) = (kept, dropped)"
    by fastforce
  obtain d1 where d1: "removeEntries dropped (h, d) = (h', d1)"
      "rewrite_groups (v_codec env) fails kept (remdups (map e_index es)) d1 = (err, d')"
    using Cleanup_cases [OF assms rt] by blast
  note R = retain_split [OF rt]
  have drop: "e_created x < v_now env - h_retention h * day_ns \<or>
      int (length kept) = h_maxRecords h \<and> list_all (\<lambda>k. e_created x \<le> e_created k) kept" if "x \<in> set dropped" for x
    using R(4) retain_full [OF rt that] that by (force simp: list_all_iff)
  have files: "let removed = (if p \<in> e_file ` set dropped then None else d_files d p);
      rows = concat (map (\<lambda>e. enc_entry (v_codec env) (e\<lparr>e_index := []\<rparr>) @ [LF]) (filter (\<lambda>e. e_index e = p) kept)) in
      if p \<in> e_index ` set es then d_files d' p = Some rows \<or> err \<noteq> None \<and> d_files d' p = removed else d_files d' p = removed" for p
  proof -
    have r: "(if p \<in> e_file ` set dropped then None else d_files d p) = d_files d1 p"
      using removeEntries_spec [OF d1(1), of "[]" p] by simp
    show ?thesis
      using rewrite_groups_spec [OF d1(2), of p] unfolding Let_def index_bytes_concat [symmetric] r by (cases err) auto
  qed
  have cached: "get_cached h' c = (if c \<in> e_id ` set dropped then None else get_cached h c)" for c
    using removeEntries_spec [OF d1(1), of c "[]"] by simp
  show ?thesis
    by (intro exI [of _ kept] exI [of _ dropped] conjI allI impI R files cached) (use R(3) drop in \<open>simp_all add: list_all_iff\<close>)
qed

theorem Cleanup_keeps_witness:
  "\<exists>h' d'. Cleanup (env_ex (rec_ex ''a'' ''ok'' 3) (kept_ex\<lparr>e_index := []\<rparr>)) (\<lambda>st. None) (\<lambda>p. False) helper_ex disk_ex = (None, h', d')
     \<and> d_files d' (e_index kept_ex) = Some (''e'' @ [LF]) \<and> d_files d' (e_file kept_ex) = Some (''r'' @ [LF])"
proof -
  let ?env = "env_ex (rec_ex ''a'' ''ok'' 3) (kept_ex\<lparr>e_index := []\<rparr>)"
  have rd: "readEntries (v_codec ?env) helper_ex disk_ex = Inr [kept_ex]"
    by (rule read_ex) (simp add: env_ex_def)
  obtain h' d' where c: "Cleanup ?env (\<lambda>st. None) (\<lambda>p. False) helper_ex disk_ex = (None, h', d')"
  proof -
    have "retain (v_now ?env) (h_retention helper_ex) (h_maxRecords helper_ex) (latestEntries [kept_ex]) = ([kept_ex], [])"
      using retain_ex by (simp add: latest_ex env_ex_def helper_ex_def)
    then have "fst (Cleanup ?env (\<lambda>st. None) (\<lambda>p. False) helper_ex disk_ex) = None"
      using rd by (simp add: Cleanup_def rewriteIndexes_def helper_ex_def)
    then show thesis using that by (cases "Cleanup ?env (\<lambda>st. None) (\<lambda>p. False) helper_ex disk_ex") auto
  qed
  obtain kept dropped where K: "mset kept + mset dropped = mset (latestEntries [kept_ex])"
      "list_all (\<lambda>x. e_created x < v_now ?env - h_retention helper_ex * day_ns \<or>
          int (length kept) = h_maxRecords helper_ex \<and> list_all (\<lambda>k. e_created x \<le> e_created k) kept) dropped"
    and F: "\<And>p. let removed = (if p \<in> e_file ` set dropped then None else d_files disk_ex p);
            rows = concat (map (\<lambda>e. enc_entry (v_codec ?env) (e\<lparr>e_index := []\<rparr>) @ [LF]) (filter (\<lambda>e. e_index e = p) kept)) in
          if p \<in> e_index ` set [kept_ex] then d_files d' p = Some rows \<or> None \<noteq> (None :: string option) \<and> d_files d' p = removed
          else d_files d' p = removed"
    using Cleanup_keeps [OF c _ _ rd] by (auto simp: helper_ex_def)
  have one: "mset kept + mset dropped = {#kept_ex#}" using K(1) by (simp add: latest_ex)
  have "dropped = []"
  proof (rule ccontr)
    assume "dropped \<noteq> []"
    then have "kept = [] \<and> dropped = [kept_ex]"
      using arg_cong [OF one, of size] one by (cases kept; cases dropped) auto
    then show False using K(2) by (simp add: env_ex_def helper_ex_def day_ns_def kept_ex_def row_ex_def)
  qed
  then have k: "kept = [kept_ex]" "dropped = []" using one by simp_all
  have ne: "e_file kept_ex \<noteq> e_index kept_ex" "e_index kept_ex \<noteq> e_file kept_ex"
    by (simp_all add: kept_ex_def file_ex_def abs_of_def)
  have "d_files d' (e_index kept_ex) = Some (''e'' @ [LF])" using F [of "e_index kept_ex"] k by (simp add: env_ex_def Let_def)
  moreover have "d_files d' (e_file kept_ex) = d_files disk_ex (e_file kept_ex)" using F [of "e_file kept_ex"] k ne by (simp add: Let_def)
  ultimately show ?thesis using c by (simp add: disk_ex_def kept_ex_def)
qed

text \<open>
  An index that a cleanup has rewritten reads back as exactly the rows it kept for that
  index, in order, when the row codec inverts and the rows fit the line and total budgets.
\<close>

theorem index_round_trip:
  assumes "\<forall>e \<in> set rows. e_index e = p \<and> dec_entry cd (enc_entry cd (e\<lparr>e_index := []\<rparr>)) = Some (e\<lparr>e_index := []\<rparr>)
      \<and> LF \<notin> set (enc_entry cd (e\<lparr>e_index := []\<rparr>)) \<and> enc_entry cd (e\<lparr>e_index := []\<rparr>) \<noteq> []
      \<and> Suc (length (enc_entry cd (e\<lparr>e_index := []\<rparr>))) \<le> maxIndexLineBytes
      \<and> normalizeRecordPath p (e_file e) = Inr (e_file e)"
    "length (index_bytes cd rows) \<le> maxIndexTotalBytes"
  shows "readEntriesFile cd p (Some (index_bytes cd rows)) = Inr rows"
proof -
  have "\<forall>l \<in> set (map (\<lambda>e. enc_entry cd (e\<lparr>e_index := []\<rparr>)) rows). LF \<notin> set l"
    using assms(1) by auto
  moreover have "rows_result cd p maxIndexLineBytes [] (map (\<lambda>e. enc_entry cd (e\<lparr>e_index := []\<rparr>)) rows) = Inr ([] @ rows)"
    by (rule rows_result_roundtrip) (use assms(1) in auto)
  ultimately show ?thesis
    using assms(2) by (simp add: readEntriesFile_def index_bytes_def read_unlines)
qed

theorem index_round_trip_witness:
  "readEntriesFile (v_codec (env_ex (rec_ex ''a'' ''ok'' 3) (kept_ex\<lparr>e_index := []\<rparr>))) (abs_of [''h'', ''logs'', ''index.jsonl''])
     (Some (index_bytes (v_codec (env_ex (rec_ex ''a'' ''ok'' 3) (kept_ex\<lparr>e_index := []\<rparr>))) [kept_ex])) = Inr [kept_ex]"
  by (rule index_round_trip)
    (simp_all add: env_ex_def maxIndexLineBytes_def maxIndexTotalBytes_def index_bytes_def normalize_ex kept_ex_def)

text \<open>
  A listing is bounded by 200 entries, newest first, holds one entry per matching command,
  reports how many commands match, and leaves out only commands no newer than every listed one.
\<close>

theorem ListHistory_newest:
  assumes "h_root h \<noteq> []" "readEntries (v_codec env) h d = Inr es"
    "ListHistory env h d req = Inr (xs, tot)"
  shows "tot = length (filter (\<lambda>e. row_matches e req) (latestEntries es))
     \<and> int (length xs) = min (list_limit (lr_limit req)) (int tot) \<and> length xs \<le> 200
     \<and> sorted_wrt (\<lambda>a b. le_created b \<le> le_created a) xs
     \<and> (\<exists>rest. mset (map row_entry (filter (\<lambda>e. row_matches e req) (latestEntries es))) = mset xs + mset rest
          \<and> list_all (\<lambda>x. list_all (\<lambda>y. le_created y \<le> le_created x) rest) xs)"
proof -
  let ?es = "map row_entry (filter (\<lambda>e. row_matches e req) (latestEntries es))"
  have nf: "newest_first (list_limit (lr_limit req)) ?es = (xs, tot)"
    using assms by (simp add: ListHistory_def Let_def)
  have l: "0 \<le> list_limit (lr_limit req)" using list_limit_bounds [of "lr_limit req"] by simp
  note N = newest_first_spec [OF nf l]
  have "length xs \<le> 200" using N(2) list_limit_bounds [of "lr_limit req"] by linarith
  with N show ?thesis by (simp add: list_all_iff)
qed

theorem ListHistory_newest_witness:
  "\<exists>xs tot. ListHistory (env_ex (rec_ex ''a'' ''ok'' 3) (kept_ex\<lparr>e_index := []\<rparr>)) helper_ex disk_ex
       \<lparr>lr_status = ''ok'', lr_repo = [], lr_limit = 900\<rparr> = Inr (xs, tot) \<and> tot = 1 \<and> length xs \<le> 200"
proof -
  let ?env = "env_ex (rec_ex ''a'' ''ok'' 3) (kept_ex\<lparr>e_index := []\<rparr>)"
  let ?req = "\<lparr>lr_status = ''ok'', lr_repo = [], lr_limit = 900\<rparr>"
  have rd: "readEntries (v_codec ?env) helper_ex disk_ex = Inr [kept_ex]"
    by (rule read_ex) (simp add: env_ex_def)
  obtain xs tot where x: "ListHistory ?env helper_ex disk_ex ?req = Inr (xs, tot)"
    using rd by (simp add: ListHistory_def Let_def helper_ex_def) (metis surj_pair)
  have m: "row_matches kept_ex ?req" by (simp add: row_matches_def kept_ex_def row_ex_def)
  have "tot = 1 \<and> length xs \<le> 200"
    using ListHistory_newest [OF _ rd x] m by (simp add: helper_ex_def latest_ex)
  with x show ?thesis by blast
qed

end
