(* ===== verification/CommandGuards.thy ===== *)
theory CommandGuards
  imports AbsPath
begin

text \<open>
  Package \<open>command\<close>, what is checked before a command starts: the execution policy of
  \<open>config/config.go\<close>, the textual guards (\<open>rejectProtectedCommand\<close> of \<open>runner.go\<close>, \<open>rejectShellSourceWrite\<close>
  of \<open>wrongtool.go\<close>, with the regular expressions written out as scanners) and the working-directory
  containment (\<open>safeCWD\<close>, \<open>realInsideDir\<close>, \<open>RunFilteredInRepoWithWait\<close>).  The file system is the record
  \<open>dirs\<close>: \<open>os.Stat\<close> says whether a path is a directory, \<open>filepath.EvalSymlinks\<close> resolves it, \<open>dv_wd\<close> is the
  process directory.
\<close>

section \<open>Policy\<close>

text \<open>A Go slice: \<open>None\<close> for nil.\<close>

type_synonym 'a goslice = "'a list option"

definition elems :: "'a goslice \<Rightarrow> 'a list" where
  "elems s = (case s of None \<Rightarrow> [] | Some xs \<Rightarrow> xs)"

record CommandPolicy =
  cp_timeout :: int
  cp_maxOutput :: int
  cp_maxLines :: int
  cp_cwds :: "string goslice"
  cp_logDir :: string
  cp_logEnabled :: "bool option"
  cp_retention :: int
  cp_maxRecords :: int
  cp_compress :: bool
  cp_protected :: string
  cp_markers :: "string goslice"
  cp_deny :: string

section \<open>Protected paths\<close>

definition normalizeCommandPath :: "string \<Rightarrow> string" where
  "normalizeCommandPath v = ToLower (ReplaceAll v [BSLASH] [SLASH])"

definition neutralDenyMessage :: string where
  "neutralDenyMessage = ''command denied: it references a protected path or marker of the embedding host; perform the change through the host's policy-approved interfaces''"

definition protected_markers :: "CommandPolicy \<Rightarrow> string list" where
  "protected_markers p =
     (if TrimSpace (cp_protected p) \<noteq> [] then [normalizeCommandPath (cp_protected p)] else [])
     @ map normalizeCommandPath (filter (\<lambda>m. TrimSpace m \<noteq> []) (elems (cp_markers p)))"

fun first_marker :: "string \<Rightarrow> string list \<Rightarrow> string option" where
  "first_marker s [] = None"
| "first_marker s (m # ms) = (if Contains s m then Some m else first_marker s ms)"

definition rejectProtectedCommand :: "string \<Rightarrow> CommandPolicy \<Rightarrow> string option" where
  "rejectProtectedCommand cmd p =
     (let markers = protected_markers p in
      if markers = [] then None
      else (case first_marker (normalizeCommandPath cmd) markers of
              None \<Rightarrow> None
            | Some m \<Rightarrow> Some ((if cp_deny p = [] then neutralDenyMessage else cp_deny p) @ '': command references '' @ m)))"

section \<open>Source written through a shell\<close>

definition sh_space :: "char \<Rightarrow> bool" where
  "sh_space c \<longleftrightarrow> c \<in> {TAB, LF, CHR 0x0C, CR, CHR '' ''}"

text \<open>The class \<open>[\s;&|(]\<close> that, like the start of the text, precedes a command word.\<close>

definition before_word :: "char \<Rightarrow> bool" where
  "before_word c \<longleftrightarrow> sh_space c \<or> c \<in> set '';&|(''"

text \<open>The class of a path after a redirection or \<open>tee\<close>.\<close>

definition target_char :: "char \<Rightarrow> bool" where
  "target_char c \<longleftrightarrow> \<not> sh_space c \<and> c \<notin> {SQ, DQ} \<and> c \<notin> set '';|&<>()''"

text \<open>\<open>'?"?([^...]+)\<close>: the captured path, and what follows it.\<close>

definition quoted_target :: "string \<Rightarrow> (string \<times> string) option" where
  "quoted_target s =
     (let s1 = (if HasPrefix s [SQ] then tl s else s);
          s2 = (if HasPrefix s1 [DQ] then tl s1 else s1);
          t = takeWhile target_char s2
      in if t = [] then None else Some (t, dropWhile target_char s2))"

text \<open>A match of \<open>shellRedirectTarget\<close> at the start of the text.\<close>

definition redirect_here :: "string \<Rightarrow> (string \<times> string) option" where
  "redirect_here s =
     (if HasPrefix s ''>'' then
        quoted_target (dropWhile sh_space (if HasPrefix s ''>>'' then drop 2 s else drop 1 s))
      else None)"

lemma quoted_target_shorter: "quoted_target s = Some (t, r) \<Longrightarrow> length r < length s"
proof -
  assume a: "quoted_target s = Some (t, r)"
  let ?s1 = "if HasPrefix s [SQ] then tl s else s"
  let ?s2 = "if HasPrefix ?s1 [DQ] then tl ?s1 else ?s1"
  have r: "r = dropWhile target_char ?s2" "takeWhile target_char ?s2 \<noteq> []"
    using a by (auto simp: quoted_target_def Let_def split: if_splits)
  have "length r < length ?s2"
    using r by (metis append_Nil length_append length_greater_0_conv less_add_same_cancel2 takeWhile_dropWhile_id)
  also have "length ?s2 \<le> length s" by (simp add: le_diff_conv)
  finally show ?thesis .
qed

lemma redirect_here_shorter: "redirect_here s = Some (t, r) \<Longrightarrow> length r < length s"
proof -
  assume a: "redirect_here s = Some (t, r)"
  then have "length r < length (dropWhile sh_space (if HasPrefix s ''>>'' then drop 2 s else drop 1 s))"
    by (auto simp: redirect_here_def dest: quoted_target_shorter split: if_splits)
  also have "\<dots> \<le> length s"
    using length_dropWhile_le [of sh_space "drop 2 s"] length_dropWhile_le [of sh_space "drop 1 s"] by auto
  finally show ?thesis .
qed

function redirect_targets :: "string \<Rightarrow> string list" where
  "redirect_targets s =
     (if s = [] then []
      else (case redirect_here s of
              Some (t, r) \<Rightarrow> t # redirect_targets r
            | None \<Rightarrow> redirect_targets (tl s)))"
  by pat_completeness auto
termination
  by (relation "measure length") (auto dest: redirect_here_shorter simp: neq_Nil_conv)

declare redirect_targets.simps [simp del]

text \<open>
  \<open>(\s+-[a-z]+)*\s+'?"?(...)\<close> behind \<open>tee\<close>: the flags are matched greedily and given back one at a
  time, so the last position at which the rest matches wins.
\<close>

definition tee_flag :: "string \<Rightarrow> string option" where
  "tee_flag s =
     (let r = dropWhile sh_space s in
      if s \<noteq> [] \<and> sh_space (hd s) \<and> HasPrefix r ''-'' \<and> takeWhile is_lower (tl r) \<noteq> []
      then Some (dropWhile is_lower (tl r)) else None)"

lemma tee_flag_shorter: "tee_flag s = Some r \<Longrightarrow> length r < length s"
proof -
  assume a: "tee_flag s = Some r"
  have p: "HasPrefix (dropWhile sh_space s) ''-''" "r = dropWhile is_lower (tl (dropWhile sh_space s))"
    using a unfolding tee_flag_def Let_def by (simp_all split: if_splits)
  then have "dropWhile sh_space s \<noteq> []" by (metis HasPrefix.simps(2))
  then have "length r < length (dropWhile sh_space s)"
    using p(2) length_dropWhile_le [of is_lower "tl (dropWhile sh_space s)"]
    by (cases "dropWhile sh_space s") auto
  then show ?thesis using length_dropWhile_le [of sh_space s] by linarith
qed

definition tee_target_here :: "string \<Rightarrow> (string \<times> string) option" where
  "tee_target_here s = (if s \<noteq> [] \<and> sh_space (hd s) then quoted_target (dropWhile sh_space s) else None)"

function tee_rest :: "string \<Rightarrow> (string \<times> string) option" where
  "tee_rest s =
     (case (case tee_flag s of None \<Rightarrow> None | Some r \<Rightarrow> tee_rest r) of
        Some m \<Rightarrow> Some m
      | None \<Rightarrow> tee_target_here s)"
  by pat_completeness auto
termination
  by (relation "measure length") (auto dest: tee_flag_shorter)

declare tee_rest.simps [simp del]

lemma tee_rest_shorter: "tee_rest s = Some (t, r) \<Longrightarrow> length r < length s"
proof (induction s rule: tee_rest.induct)
  case (1 s)
  show ?case
  proof (cases "case tee_flag s of None \<Rightarrow> None | Some r \<Rightarrow> tee_rest r")
    case None
    then have "quoted_target (dropWhile sh_space s) = Some (t, r)"
      using "1.prems" by (subst (asm) tee_rest.simps) (auto simp: tee_target_here_def split: if_splits)
    then have "length r < length (dropWhile sh_space s)" by (rule quoted_target_shorter)
    then show ?thesis using length_dropWhile_le [of sh_space s] by linarith
  next
    case (Some m)
    then obtain q where q: "tee_flag s = Some q" "tee_rest q = Some m" by (auto split: option.splits)
    then have "m = (t, r)" using "1.prems" by (subst (asm) tee_rest.simps) simp
    then have "length r < length q" using "1.IH" [OF q(1)] q(2) by simp
    then show ?thesis using tee_flag_shorter [OF q(1)] by linarith
  qed
qed

text \<open>A match of \<open>teeTarget\<close>; \<open>start\<close> says that the text begins here.\<close>

definition tee_here :: "bool \<Rightarrow> string \<Rightarrow> (string \<times> string) option" where
  "tee_here start s =
     (case (if start \<and> HasPrefix s ''tee'' then tee_rest (drop 3 s) else None) of
        Some m \<Rightarrow> Some m
      | None \<Rightarrow>
          (if s \<noteq> [] \<and> before_word (hd s) \<and> HasPrefix (tl s) ''tee'' then tee_rest (drop 4 s) else None))"

lemma tee_here_shorter: "tee_here start s = Some (t, r) \<Longrightarrow> length r < length s"
  by (auto simp: tee_here_def split: option.splits if_splits dest!: tee_rest_shorter)

function tee_targets :: "bool \<Rightarrow> string \<Rightarrow> string list" where
  "tee_targets start s =
     (case tee_here start s of
        Some (t, r) \<Rightarrow> t # tee_targets False r
      | None \<Rightarrow> (if s = [] then [] else tee_targets False (tl s)))"
  by pat_completeness auto
termination
  by (relation "measure (\<lambda>(b, s). length s)") (auto dest: tee_here_shorter simp: neq_Nil_conv)

declare tee_targets.simps [simp del]

text \<open>\<open>applyPatchCommand\<close> and \<open>sedInPlaceTarget\<close>: does the text match anywhere?\<close>

fun word_anywhere :: "bool \<Rightarrow> (string \<Rightarrow> bool) \<Rightarrow> string \<Rightarrow> bool" where
  "word_anywhere start p [] = (start \<and> p [])"
| "word_anywhere start p (c # cs) =
     ((start \<and> p (c # cs)) \<or> (before_word c \<and> p cs) \<or> word_anywhere False p cs)"

definition apply_patch_here :: "string \<Rightarrow> bool" where
  "apply_patch_here s \<longleftrightarrow> HasPrefix s ''apply_patch'' \<and> (drop 11 s = [] \<or> sh_space (s ! 11))"

definition is_letter :: "char \<Rightarrow> bool" where
  "is_letter c \<longleftrightarrow> is_lower c \<or> is_upper c"

lemma sed_flag_shorter:
  "HasPrefix s ''-'' \<Longrightarrow> length (dropWhile sh_space (dropWhile is_letter (tl s))) < length s"
  using length_dropWhile_le [of is_letter "tl s"] length_dropWhile_le [of sh_space "dropWhile is_letter (tl s)"]
  by (cases s) auto

function sed_flags :: "string \<Rightarrow> bool" where
  "sed_flags s =
     (if HasPrefix s ''-i'' then True
      else if HasPrefix s ''-'' then
        (let r = dropWhile is_letter (tl s) in
         if r \<noteq> [] \<and> sh_space (hd r) then sed_flags (dropWhile sh_space r) else False)
      else False)"
  by pat_completeness auto
termination
  by (relation "measure length") (auto intro: sed_flag_shorter)

declare sed_flags.simps [simp del]

definition sed_here :: "string \<Rightarrow> bool" where
  "sed_here s \<longleftrightarrow> HasPrefix s ''sed'' \<and>
     (let r = drop 3 s in r \<noteq> [] \<and> sh_space (hd r) \<and> sed_flags (dropWhile sh_space r))"

text \<open>\<open>filepath.Ext\<close>: from the last dot of the last component.\<close>

definition path_ext :: "string \<Rightarrow> string" where
  "path_ext p =
     (let f = snd (split_last p); e = takeWhile (\<lambda>c. c \<noteq> CHR ''.'') (rev f) in
      if length e = length f then [] else CHR ''.'' # rev e)"

definition sourceFileExtensions :: "string list" where
  "sourceFileExtensions = [''.c'', ''.cpp'', ''.go'', ''.h'', ''.hpp'', ''.java'', ''.js'', ''.json'', ''.jsx'', ''.kt'',
     ''.lean'', ''.md'', ''.mod'', ''.py'', ''.rb'', ''.rs'', ''.sh'', ''.sql'', ''.toml'', ''.ts'', ''.tsx'', ''.yaml'', ''.yml'']"

definition insideDir :: "string \<Rightarrow> string \<Rightarrow> string \<Rightarrow> bool" where
  "insideDir wd root child = relativePathInside (Abs wd root) (Abs wd child)"

definition repoSourceTarget :: "string \<Rightarrow> string \<Rightarrow> string \<Rightarrow> string" where
  "repoSourceTarget wd path0 repoPath =
     (let path = TrimSpace path0 in
      if path = [] \<or> HasPrefix path ''$'' \<or> HasPrefix path ''~'' then []
      else if ToLower (path_ext path) \<notin> set sourceFileExtensions then []
      else if \<not> IsAbs path then path
      else if repoPath = [] then []
      else if insideDir wd (Abs wd repoPath) (Clean path) then path
      else [])"

fun first_target :: "string \<Rightarrow> string \<Rightarrow> string list \<Rightarrow> string option" where
  "first_target wd repo [] = None"
| "first_target wd repo (t # ts) =
     (let x = repoSourceTarget wd t repo in if x \<noteq> [] then Some x else first_target wd repo ts)"

datatype write_denial = RunsApplyPatch | RedirectsInto string | TeesInto string | EditsInPlace string

definition rejectShellSourceWrite :: "string \<Rightarrow> string \<Rightarrow> string \<Rightarrow> write_denial option" where
  "rejectShellSourceWrite wd cmd repo =
     (if word_anywhere True apply_patch_here cmd then Some RunsApplyPatch
      else (case first_target wd repo (redirect_targets cmd) of
              Some t \<Rightarrow> Some (RedirectsInto t)
            | None \<Rightarrow>
                (case first_target wd repo (tee_targets True cmd) of
                   Some t \<Rightarrow> Some (TeesInto t)
                 | None \<Rightarrow>
                     (if word_anywhere True sed_here cmd then
                        map_option EditsInPlace
                          (first_target wd repo (map (TrimP (\<lambda>c. c = SQ \<or> c = DQ)) (Fields cmd)))
                      else None))))"

section \<open>Working directories\<close>

record dirs =
  dv_stat :: "string \<Rightarrow> bool option"
  dv_eval :: "string \<Rightarrow> string option"
  dv_wd :: string

definition resolveDir :: "dirs \<Rightarrow> string \<Rightarrow> (string, string) result" where
  "resolveDir fs path0 =
     (let path = (if TrimSpace path0 = [] then ''.'' else path0); a = Abs (dv_wd fs) path in
      case dv_stat fs a of
        None \<Rightarrow> Inl ''stat''
      | Some isdir \<Rightarrow> if isdir then Inr (Clean a) else Inl (''cwd is not a directory: '' @ a))"

definition resolveRealDir :: "dirs \<Rightarrow> string \<Rightarrow> (string, string) result" where
  "resolveRealDir fs path =
     rbind (resolveDir fs path) (\<lambda>a. case dv_eval fs a of None \<Rightarrow> Inl ''eval symlinks'' | Some r \<Rightarrow> Inr (Clean r))"

definition realInsideDir :: "dirs \<Rightarrow> string \<Rightarrow> string \<Rightarrow> bool" where
  "realInsideDir fs root child =
     (case (resolveRealDir fs root, resolveRealDir fs child) of
        (Inr r, Inr c) \<Rightarrow> relativePathInside r c
      | _ \<Rightarrow> False)"

definition safeCWD :: "dirs \<Rightarrow> CommandPolicy \<Rightarrow> string \<Rightarrow> (string, string) result" where
  "safeCWD fs p cwd =
     rbind (resolveDir fs cwd) (\<lambda>a.
       if list_ex (\<lambda>al. realInsideDir fs (if IsAbs al then al else JoinPath [a, al]) a) (elems (cp_cwds p))
       then Inr a else Inl (''cwd is outside allowed_cwds: '' @ a))"

datatype run_error =
    RepoRequired | CommandRequired | Protected string | SourceWrite write_denial | BadDir string | AbsoluteCwd | CwdEscapes string

text \<open>The checks of \<open>RunFilteredInRepoWithWait\<close>: the directory, the timeout and the repository to run with.\<close>

definition repo_checks ::
  "dirs \<Rightarrow> CommandPolicy \<Rightarrow> string \<Rightarrow> string \<Rightarrow> string \<Rightarrow> int \<Rightarrow> run_error + (string \<times> int \<times> string)" where
  "repo_checks fs p cmd repoPath cwd timeout =
     (if TrimSpace repoPath = [] then Inl RepoRequired
      else if TrimSpace cmd = [] then Inl CommandRequired
      else (case rejectProtectedCommand cmd p of
        Some m \<Rightarrow> Inl (Protected m)
      | None \<Rightarrow>
        (case rejectShellSourceWrite (dv_wd fs) cmd repoPath of
          Some w \<Rightarrow> Inl (SourceWrite w)
        | None \<Rightarrow>
          (case resolveDir fs repoPath of
            Inl e \<Rightarrow> Inl (BadDir e)
          | Inr repo \<Rightarrow>
              (case (if TrimSpace cwd = [] then Inr repo
                     else if IsAbs cwd then Inl AbsoluteCwd
                     else let r = JoinPath [repo, Clean cwd] in
                       if realInsideDir fs repo r then Inr r else Inl (CwdEscapes cwd)) of
                 Inl e \<Rightarrow> Inl e
               | Inr runCWD0 \<Rightarrow>
                   (case safeCWD fs p runCWD0 of
                      Inl e \<Rightarrow> Inl (BadDir e)
                    | Inr runCWD \<Rightarrow> Inr (runCWD, (if timeout \<le> 0 then cp_timeout p else timeout), repo)))))))"

text \<open>The checks of \<open>runFilteredWithWait\<close>, outside a repository.\<close>

definition plain_checks :: "dirs \<Rightarrow> CommandPolicy \<Rightarrow> string \<Rightarrow> string \<Rightarrow> int \<Rightarrow> run_error + (string \<times> int)" where
  "plain_checks fs p cmd cwd timeout =
     (if TrimSpace cmd = [] then Inl CommandRequired
      else (case rejectProtectedCommand cmd p of
        Some m \<Rightarrow> Inl (Protected m)
      | None \<Rightarrow>
          (case safeCWD fs p cwd of
             Inl e \<Rightarrow> Inl (BadDir e)
           | Inr runCWD \<Rightarrow> Inr (runCWD, (if timeout \<le> 0 then cp_timeout p else timeout)))))"

section \<open>Every redirection is seen\<close>

abbreviation GT :: char where "GT \<equiv> CHR 0x3E"

lemma quoted_target_split:
  "quoted_target s = Some (t, r) \<Longrightarrow> \<exists>u. s = u @ r \<and> GT \<notin> set u"
proof -
  assume a: "quoted_target s = Some (t, r)"
  obtain q1 s1 where q1: "s = q1 @ s1" "GT \<notin> set q1" "s1 = (if HasPrefix s [SQ] then tl s else s)"
  proof (cases "HasPrefix s [SQ]")
    case True
    then have "s = [SQ] @ tl s" by (cases s) auto
    then show ?thesis using that [of "[SQ]" "tl s"] True by simp
  next
    case False
    then show ?thesis using that [of "[]" s] by simp
  qed
  obtain q2 s2 where q2: "s1 = q2 @ s2" "GT \<notin> set q2" "s2 = (if HasPrefix s1 [DQ] then tl s1 else s1)"
  proof (cases "HasPrefix s1 [DQ]")
    case True
    then have "s1 = [DQ] @ tl s1" by (cases s1) auto
    then show ?thesis using that [of "[DQ]" "tl s1"] True by simp
  next
    case False
    then show ?thesis using that [of "[]" s1] by simp
  qed
  have r: "r = dropWhile target_char s2"
    using a q1(3) q2(3) by (auto simp: quoted_target_def Let_def split: if_splits)
  have "GT \<notin> set (takeWhile target_char s2)"
    by (auto dest!: set_takeWhileD simp: target_char_def)
  then have "GT \<notin> set (q1 @ q2 @ takeWhile target_char s2)" using q1(2) q2(2) by simp
  moreover have "s = (q1 @ q2 @ takeWhile target_char s2) @ r"
    unfolding r append.assoc takeWhile_dropWhile_id q2(1) [symmetric] by (rule q1(1))
  ultimately show ?thesis by blast
qed

lemma after_spaces: "\<exists>u. s = u @ dropWhile sh_space s \<and> GT \<notin> set u"
proof (intro exI conjI)
  show "s = takeWhile sh_space s @ dropWhile sh_space s" by simp
  show "GT \<notin> set (takeWhile sh_space s)" by (auto dest!: set_takeWhileD simp: sh_space_def)
qed

lemma spaces_target_split:
  "quoted_target (dropWhile sh_space s) = Some (t, r) \<Longrightarrow> \<exists>u. s = u @ r \<and> GT \<notin> set u"
proof -
  assume "quoted_target (dropWhile sh_space s) = Some (t, r)"
  then obtain v where v: "dropWhile sh_space s = v @ r" "GT \<notin> set v" using quoted_target_split by blast
  obtain w where w: "s = w @ dropWhile sh_space s" "GT \<notin> set w" using after_spaces by blast
  have "s = (w @ v) @ r" "GT \<notin> set (w @ v)" using v w by auto
  then show ?thesis by blast
qed

lemma split_before_GT: "p @ GT # x = u @ r \<Longrightarrow> GT \<notin> set u \<Longrightarrow> \<exists>p'. r = p' @ GT # x \<and> length p' \<le> length p"
proof (induction u arbitrary: p)
  case Nil
  then show ?case by auto
next
  case (Cons c u)
  then show ?case by (cases p) (auto intro: le_SucI)
qed

text \<open>The target at a redirection: spaces, an unquoted path, and no path character behind it.\<close>

lemma target_here:
  assumes "list_all sh_space sp" "list_all target_char path" "path \<noteq> []" "rest = [] \<or> \<not> target_char (hd rest)"
  shows "quoted_target (dropWhile sh_space (sp @ path @ rest)) = Some (path, rest)"
proof -
  obtain c cs where c: "path = c # cs" "target_char c" using assms(2,3) by (cases path) auto
  then have np: "\<not> sh_space c" "c \<noteq> SQ" "c \<noteq> DQ" by (auto simp: target_char_def)
  have "dropWhile sh_space (sp @ path @ rest) = path @ rest"
    using assms(1) c np by (simp add: dropWhile_append1 list_all_iff)
  moreover have "takeWhile target_char (path @ rest) = path" "dropWhile target_char (path @ rest) = rest"
    using assms(2,4) by (cases rest; simp add: list_all_iff)+
  ultimately show ?thesis using c np by (simp add: quoted_target_def Let_def)
qed

lemma redirect_found:
  assumes "list_all sh_space sp" "list_all target_char path" "path \<noteq> []" "rest = [] \<or> \<not> target_char (hd rest)"
  shows "path \<in> set (redirect_targets (pre @ GT # sp @ path @ rest))"
proof (induction "length pre" arbitrary: pre rule: less_induct)
  case less
  let ?x = "sp @ path @ rest"
  let ?s = "pre @ GT # ?x"
  note here = target_here [OF assms]
  have nx: "\<not> HasPrefix ?x [GT]"
  proof -
    obtain c cs where "path = c # cs" "target_char c" using assms(2,3) by (cases path) auto
    then show ?thesis using assms(1) by (cases sp) (auto simp: target_char_def sh_space_def)
  qed
  show ?case
  proof (cases "redirect_here ?s")
    case None
    have "pre \<noteq> []"
    proof
      assume "pre = []"
      then have "redirect_here ?s = Some (path, rest)"
        using here nx by (auto simp: redirect_here_def)
      with None show False by simp
    qed
    then obtain c p where p: "pre = c # p" by (cases pre) auto
    have "path \<in> set (redirect_targets (p @ GT # ?x))" using less p by simp
    then show ?thesis using None p by (subst redirect_targets.simps) simp
  next
    case (Some m)
    obtain t r where m: "m = (t, r)" by fastforce
    have gt: "HasPrefix ?s ''>''" using Some by (auto simp: redirect_here_def split: if_splits)
    have goal: "t = path \<or> path \<in> set (redirect_targets r)"
    proof (cases pre)
      case Nil
      then show ?thesis using Some m here nx by (auto simp: redirect_here_def)
    next
      case (Cons c p)
      then have c: "c = GT" using gt by simp
      show ?thesis
      proof (cases "HasPrefix ?s ''>>''")
        case True
        then have q: "quoted_target (dropWhile sh_space (drop 2 ?s)) = Some (t, r)"
          using Some m gt by (simp add: redirect_here_def)
        show ?thesis
        proof (cases p)
          case Nil
          then show ?thesis using q Cons here by simp
        next
          case (Cons d p2)
          then have "quoted_target (dropWhile sh_space (p2 @ GT # ?x)) = Some (t, r)" using q \<open>pre = c # p\<close> by simp
          then obtain u where "p2 @ GT # ?x = u @ r" "GT \<notin> set u" using spaces_target_split by blast
          then obtain p' where "r = p' @ GT # ?x" "length p' \<le> length p2" using split_before_GT by blast
          then show ?thesis using less [of p'] \<open>pre = c # p\<close> Cons by simp
        qed
      next
        case False
        then have "quoted_target (dropWhile sh_space (p @ GT # ?x)) = Some (t, r)"
          using Some m gt Cons by (simp add: redirect_here_def)
        then obtain u where "p @ GT # ?x = u @ r" "GT \<notin> set u" using spaces_target_split by blast
        then obtain p' where "r = p' @ GT # ?x" "length p' \<le> length p" using split_before_GT by blast
        then show ?thesis using less [of p'] Cons by simp
      qed
    qed
    then show ?thesis using Some m by (subst redirect_targets.simps) auto
  qed
qed

lemma first_target_Some: "t \<in> set ts \<Longrightarrow> repoSourceTarget wd t repo \<noteq> [] \<Longrightarrow> first_target wd repo ts \<noteq> None"
  by (induction ts) (auto simp: Let_def)

section \<open>Containment\<close>

text \<open>The operating system gives absolute paths: its working directory, and what a link resolves to.\<close>

definition absolute_dirs :: "dirs \<Rightarrow> bool" where
  "absolute_dirs fs \<longleftrightarrow> IsAbs (dv_wd fs) \<and> (\<forall>q. case dv_eval fs q of None \<Rightarrow> True | Some r \<Rightarrow> IsAbs r)"

lemma absolute_dirs_wd: "absolute_dirs fs \<Longrightarrow> IsAbs (dv_wd fs)"
  by (simp add: absolute_dirs_def)

lemma absolute_dirs_eval: "absolute_dirs fs \<Longrightarrow> dv_eval fs q = Some r \<Longrightarrow> IsAbs r"
  unfolding absolute_dirs_def by (metis option.simps(5))

lemma Clean_idem_abs: "IsAbs p \<Longrightarrow> Clean (Clean p) = Clean p"
  by (metis Clean_abs Clean_abs_of)

lemma Abs_absolute: "IsAbs wd \<Longrightarrow> IsAbs (Abs wd p)"
proof (cases "IsAbs p")
  case True
  then show ?thesis by (simp add: Abs_def)
next
  case False
  assume wd: "IsAbs wd"
  then obtain w where "wd = SLASH # w" by (cases wd) (auto simp: IsAbs_def)
  then have "IsAbs (Join [SLASH] (filter (\<lambda>q. q \<noteq> []) [wd, p]))" by (auto simp: IsAbs_def)
  moreover have "filter (\<lambda>q. q \<noteq> []) [wd, p] \<noteq> []" using \<open>wd = SLASH # w\<close> by simp
  ultimately show ?thesis using False by (simp add: Abs_def JoinPath_def Let_def del: filter.simps)
qed

lemma Clean_Abs:
  assumes "IsAbs wd"
  shows "Clean (Abs wd p) = Abs wd p"
proof (cases "IsAbs p")
  case True
  then show ?thesis by (simp add: Abs_def Clean_idem_abs)
next
  case False
  obtain w where w: "wd = SLASH # w" using assms by (cases wd) (auto simp: IsAbs_def)
  let ?j = "Join [SLASH] (filter (\<lambda>q. q \<noteq> []) [wd, p])"
  have "IsAbs ?j" using w by (auto simp: IsAbs_def)
  moreover have "Abs wd p = Clean ?j" using False w by (simp add: Abs_def JoinPath_def)
  ultimately show ?thesis by (simp only: Clean_idem_abs)
qed

lemma Abs_clean: "IsAbs p \<Longrightarrow> Abs wd p = Clean p"
  by (simp add: Abs_def)

lemma TrimSpace_abs: "IsAbs p \<Longrightarrow> TrimSpace p \<noteq> []"
proof -
  assume "IsAbs p"
  then obtain q where "p = SLASH # q" by (cases p) (auto simp: IsAbs_def)
  moreover have "\<not> is_space SLASH" by (simp add: byte_defs)
  ultimately show ?thesis
    by (auto simp: TrimSpace_def TrimP_def TrimRightP_def TrimLeftP_def dropWhile_eq_Nil_conv)
qed

lemma resolveDir_abs:
  assumes "absolute_dirs fs" "resolveDir fs p = Inr a"
  shows "IsAbs a \<and> Clean a = a \<and> resolveDir fs a = Inr a"
proof -
  let ?p = "if TrimSpace p = [] then ''.'' else p"
  let ?a = "Abs (dv_wd fs) ?p"
  have A: "IsAbs ?a" by (rule Abs_absolute [OF absolute_dirs_wd [OF assms(1)]])
  have st: "dv_stat fs ?a = Some True" "a = Clean ?a"
    using assms(2) by (auto simp: resolveDir_def Let_def split: option.splits if_splits)
  have idem: "Clean ?a = ?a" by (rule Clean_Abs [OF absolute_dirs_wd [OF assms(1)]])
  have a: "a = ?a" "IsAbs a" using st(2) idem A by simp_all
  then show ?thesis
    using st idem TrimSpace_abs [of a] by (simp add: resolveDir_def Let_def Abs_clean)
qed

lemma resolveRealDir_abs:
  assumes "absolute_dirs fs" "resolveRealDir fs p = Inr r"
  shows "IsAbs r \<and> Clean r = r"
proof -
  obtain a q where "dv_eval fs a = Some q" "r = Clean q"
    using assms(2) by (auto simp: resolveRealDir_def result_simps split: option.splits)
  then show ?thesis using absolute_dirs_eval [OF assms(1)] by (simp add: Clean_idem_abs)
qed

lemma realInside_prefix:
  assumes "absolute_dirs fs" "realInsideDir fs root child"
  obtains r c where "resolveRealDir fs root = Inr r" "resolveRealDir fs child = Inr c" "prefix (comps r) (comps c)"
proof -
  obtain r c where rc: "resolveRealDir fs root = Inr r" "resolveRealDir fs child = Inr c" "relativePathInside r c"
    using assms(2) by (auto simp: realInsideDir_def split: sum.splits)
  have "IsAbs r \<and> Clean r = r" "IsAbs c \<and> Clean c = c"
    using resolveRealDir_abs [OF assms(1)] rc(1,2) by blast+
  then have "prefix (comps r) (comps c)" using inside_Clean [of r c] rc(3) by simp
  with rc show thesis by (intro that)
qed

lemma resolveRealDir_resolved:
  "absolute_dirs fs \<Longrightarrow> resolveDir fs p = Inr a \<Longrightarrow> resolveRealDir fs a = resolveRealDir fs p"
  using resolveDir_abs by (simp add: resolveRealDir_def)

lemma safeCWD_allowed:
  assumes "absolute_dirs fs" "safeCWD fs p cwd = Inr a"
  shows "resolveDir fs cwd = Inr a \<and> (\<exists>rc. resolveRealDir fs a = Inr rc \<and>
     (\<exists>al \<in> set (elems (cp_cwds p)). \<exists>ra. resolveRealDir fs (if IsAbs al then al else JoinPath [a, al]) = Inr ra
        \<and> prefix (comps ra) (comps rc)))"
proof -
  obtain al where al: "resolveDir fs cwd = Inr a" "al \<in> set (elems (cp_cwds p))"
      "realInsideDir fs (if IsAbs al then al else JoinPath [a, al]) a"
    using assms(2) by (auto simp: safeCWD_def result_simps list_ex_iff split: if_splits)
  from realInside_prefix [OF assms(1) al(3)] obtain ra rc where
    "resolveRealDir fs (if IsAbs al then al else JoinPath [a, al]) = Inr ra" "resolveRealDir fs a = Inr rc"
    "prefix (comps ra) (comps rc)" by blast
  with al show ?thesis by blast
qed

text \<open>
  A relative entry is joined to the directory under test, so the entry \<open>.\<close> allows every directory.
\<close>

lemma relative_entry_allows_any:
  assumes "absolute_dirs fs" "resolveDir fs cwd = Inr a" "dv_eval fs a = Some r" "IsAbs r"
    "cp_cwds p = Some [''.'']"
  shows "safeCWD fs p cwd = Inr a"
proof -
  note A = resolveDir_abs [OF assms(1,2)]
  obtain cs where cs: "list_all plain_comp cs" "a = abs_of cs" using A Clean_abs by metis
  have j: "JoinPath [a, ''.''] = a"
    using cs by (simp add: JoinPath_abs clean_comps_plain)
  have rr: "resolveRealDir fs a = Inr (Clean r)"
    using A assms(3) by (simp add: resolveRealDir_def)
  have "relativePathInside (Clean r) (Clean r)"
    by (simp add: inside_Clean assms(4))
  then have "realInsideDir fs a a" by (simp add: realInsideDir_def rr)
  then show ?thesis
    using assms(2,5) j by (simp add: safeCWD_def elems_def IsAbs_def)
qed

section \<open>Properties\<close>

text \<open>
  Claim C17: a command accepted for a repository starts inside it.  After symbolic links are resolved,
  the directory \<open>RunFilteredInRepoWithWait\<close> runs in is at or below the repository and at or below an
  allowed directory of the policy.
\<close>

theorem repo_cwd_contained:
  assumes "absolute_dirs fs"
    "repo_checks fs p cmd repoPath cwd timeout = Inr (runCWD, t, repo)"
  shows "\<exists>rr rc. resolveRealDir fs repo = Inr rr \<and> resolveRealDir fs runCWD = Inr rc \<and> prefix (comps rr) (comps rc)
     \<and> (\<exists>al \<in> set (elems (cp_cwds p)). \<exists>ra. resolveRealDir fs (if IsAbs al then al else JoinPath [runCWD, al]) = Inr ra
          \<and> prefix (comps ra) (comps rc))"
proof -
  obtain r0 where r0: "resolveDir fs repoPath = Inr repo" "safeCWD fs p r0 = Inr runCWD"
      "r0 = repo \<or> realInsideDir fs repo r0"
    using assms(2) by (auto simp: repo_checks_def Let_def split: if_splits option.splits sum.splits)
  note S = safeCWD_allowed [OF assms(1) r0(2)]
  have same: "resolveRealDir fs runCWD = resolveRealDir fs r0"
    using S resolveRealDir_resolved [OF assms(1)] by blast
  obtain rr rc where "resolveRealDir fs repo = Inr rr" "resolveRealDir fs runCWD = Inr rc" "prefix (comps rr) (comps rc)"
  proof (cases "r0 = repo")
    case True
    then show ?thesis using S same that by auto
  next
    case False
    then have "realInsideDir fs repo r0" using r0(3) by simp
    from realInside_prefix [OF assms(1) this] show ?thesis using that same by metis
  qed
  with S show ?thesis by auto
qed

definition dirs_ex :: dirs where
  "dirs_ex = \<lparr>dv_stat = (\<lambda>p. Some True), dv_eval = (\<lambda>p. if IsAbs p then Some p else None), dv_wd = ''/''\<rparr>"

definition policy_ex :: CommandPolicy where
  "policy_ex = \<lparr>cp_timeout = 60, cp_maxOutput = 0, cp_maxLines = 80, cp_cwds = Some [''/r''], cp_logDir = [], cp_logEnabled = None,
     cp_retention = 0, cp_maxRecords = 0, cp_compress = False, cp_protected = [], cp_markers = None, cp_deny = []\<rparr>"

theorem repo_cwd_contained_witness:
  "\<exists>rr rc. resolveRealDir dirs_ex ''/r'' = Inr rr \<and> resolveRealDir dirs_ex ''/r/a'' = Inr rc \<and> prefix (comps rr) (comps rc)"
proof -
  have c: "repo_checks dirs_ex policy_ex ''ls'' ''/r'' ''a'' 0 = Inr (''/r/a'', 60, ''/r'')"
    by code_simp
  have w: "absolute_dirs dirs_ex" by (simp add: absolute_dirs_def dirs_ex_def IsAbs_def)
  show ?thesis using repo_cwd_contained [OF w c] by blast
qed

text \<open>
  The source guard sees every plain redirection.  Wherever \<open>>\<close> and an unquoted path stand in a
  command, the command is refused when the path names a repository source file.
\<close>

theorem redirect_refused:
  assumes "list_all sh_space sp" "list_all target_char path" "rest = [] \<or> \<not> target_char (hd rest)"
    "repoSourceTarget wd path repo \<noteq> []"
  shows "rejectShellSourceWrite wd (pre @ GT # sp @ path @ rest) repo \<noteq> None"
proof -
  have "path \<noteq> []"
    using assms(4) by (auto simp: repoSourceTarget_def Let_def TrimSpace_def TrimP_def TrimRightP_def TrimLeftP_def)
  from redirect_found [OF assms(1,2) this assms(3)]
  have "first_target wd repo (redirect_targets (pre @ GT # sp @ path @ rest)) \<noteq> None"
    using first_target_Some assms(4) by blast
  then show ?thesis by (auto simp: rejectShellSourceWrite_def)
qed

theorem redirect_refused_witness:
  "rejectShellSourceWrite ''/'' (''2>&1 >>'' @ GT # '' '' @ ''a.go'' @ '' x'') ''/r'' \<noteq> None"
  by (rule redirect_refused) code_simp+

end
