(* ===== verification/Argv.thy ===== *)
theory Argv
  imports Prelude "HOL-Library.List_Lexorder" "HOL-Library.Char_ord"
begin

text \<open>
  Package \<open>command\<close>, the values a process receives: \<open>quoteArgv\<close>, \<open>isPlainArg\<close> and \<open>envSlice\<close> of \<open>argv.go\<close>
  and \<open>mergeEnv\<close> of \<open>runner.go\<close>.  A reference shell word splitter says what the display string of an
  argument vector means.
\<close>

section \<open>Display quoting\<close>

definition plain_arg_char :: "char \<Rightarrow> bool" where
  "plain_arg_char c \<longleftrightarrow> is_alnum c \<or> c \<in> set ''._-/:=,''"

definition isPlainArg :: "string \<Rightarrow> bool" where
  "isPlainArg arg \<longleftrightarrow> list_all plain_arg_char arg"

text \<open>The replacement for a single quote: close, escaped quote, reopen.\<close>

definition quote_escape :: string where
  "quote_escape = [SQ, BSLASH, SQ, SQ]"

definition quote_one :: "string \<Rightarrow> string" where
  "quote_one arg =
     (if arg = [] then [SQ, SQ]
      else if isPlainArg arg then arg
      else [SQ] @ ReplaceAll arg [SQ] quote_escape @ [SQ])"

definition quoteArgv :: "string list \<Rightarrow> string" where
  "quoteArgv argv = Join '' '' (map quote_one argv)"

section \<open>Environments\<close>

definition envSlice :: "(string \<times> string) list \<Rightarrow> string list" where
  "envSlice env = map (\<lambda>k. k @ ''='' @ the (map_of env k)) (sort (remdups (map fst env)))"

text \<open>\<open>strings.Cut(pair, "=")\<close>.\<close>

definition cut_pair :: "string \<Rightarrow> string \<times> string" where
  "cut_pair pair = (let k = takeWhile (\<lambda>c. c \<noteq> CHR ''='') pair in (k, drop (Suc (length k)) pair))"

text \<open>One \<open>put\<close>: the order of first appearances and the latest value of each key.\<close>

definition put_pair :: "string \<Rightarrow> string list \<times> (string \<Rightarrow> string option) \<Rightarrow> string list \<times> (string \<Rightarrow> string option)" where
  "put_pair pair st =
     (case cut_pair pair of (k, v) \<Rightarrow>
        if k = [] then st
        else (case st of (order, vals) \<Rightarrow>
          ((if vals k = None then order @ [k] else order), vals(k \<mapsto> v))))"

fun put_pairs :: "string list \<Rightarrow> string list \<times> (string \<Rightarrow> string option) \<Rightarrow> string list \<times> (string \<Rightarrow> string option)" where
  "put_pairs [] st = st"
| "put_pairs (p # ps) st = put_pairs ps (put_pair p st)"

definition mergeEnv :: "string list \<Rightarrow> string list list \<Rightarrow> string list" where
  "mergeEnv base overlays =
     (case put_pairs (base @ concat overlays) ([], \<lambda>k. None) of
        (order, vals) \<Rightarrow> map (\<lambda>k. k @ ''='' @ the (vals k)) order)"

section \<open>A reference word splitter\<close>

text \<open>
  POSIX shell words of plain characters, single quotes and backslash escapes outside quotes.  The
  state is the current word (none between words) and whether a single quote is open.
\<close>

fun shell_split :: "string option \<Rightarrow> bool \<Rightarrow> string \<Rightarrow> string list option" where
  "shell_split w True [] = None"
| "shell_split w False [] = Some (case w of None \<Rightarrow> [] | Some x \<Rightarrow> [x])"
| "shell_split w True (c # cs) =
     (if c = SQ then shell_split w False cs else shell_split (Some ((case w of None \<Rightarrow> [] | Some x \<Rightarrow> x) @ [c])) True cs)"
| "shell_split w False (c # cs) =
     (if c = SQ then shell_split (Some (case w of None \<Rightarrow> [] | Some x \<Rightarrow> x)) True cs
      else if c = CHR '' '' then
        (case w of None \<Rightarrow> shell_split None False cs
         | Some x \<Rightarrow> map_option (\<lambda>ws. x # ws) (shell_split None False cs))
      else if c = BSLASH then
        (case cs of [] \<Rightarrow> None
         | d # ds \<Rightarrow> shell_split (Some ((case w of None \<Rightarrow> [] | Some x \<Rightarrow> x) @ [d])) False ds)
      else shell_split (Some ((case w of None \<Rightarrow> [] | Some x \<Rightarrow> x) @ [c])) False cs)"

lemma plain_arg_not_special: "plain_arg_char c \<Longrightarrow> c \<noteq> SQ \<and> c \<noteq> CHR '' '' \<and> c \<noteq> BSLASH"
  by (auto simp: plain_arg_char_def byte_defs)

lemma split_plain:
  "list_all plain_arg_char a \<Longrightarrow> a \<noteq> [] \<or> w \<noteq> None \<Longrightarrow>
   shell_split w False (a @ rest) = shell_split (Some ((case w of None \<Rightarrow> [] | Some x \<Rightarrow> x) @ a)) False rest"
proof (induction a arbitrary: w)
  case Nil
  then show ?case by auto
next
  case (Cons c a)
  then show ?case using plain_arg_not_special [of c] by simp
qed

lemma split_quoted:
  "shell_split (Some w) True (ReplaceAll a [SQ] quote_escape @ SQ # rest) = shell_split (Some (w @ a)) False rest"
proof (induction a arbitrary: w)
  case Nil
  then show ?case by simp
next
  case (Cons c a)
  show ?case
  proof (cases "c = SQ")
    case True
    then have r: "ReplaceAll (c # a) [SQ] quote_escape = quote_escape @ ReplaceAll a [SQ] quote_escape"
      by (simp add: ReplaceAll_Cons)
    show ?thesis
      unfolding r using Cons.IH [of "w @ [SQ]"] True by (simp add: quote_escape_def)
  next
    case False
    then have r: "ReplaceAll (c # a) [SQ] quote_escape = c # ReplaceAll a [SQ] quote_escape"
      by (simp add: ReplaceAll_Cons)
    show ?thesis unfolding r using Cons.IH [of "w @ [c]"] False by simp
  qed
qed

lemma split_quote_one: "shell_split None False (quote_one a @ rest) = shell_split (Some a) False rest"
proof (cases "a = []")
  case True
  then show ?thesis by (simp add: quote_one_def)
next
  case False
  show ?thesis
  proof (cases "isPlainArg a")
    case True
    then show ?thesis using False split_plain [of a None rest] by (simp add: quote_one_def isPlainArg_def)
  next
    case False2: False
    then show ?thesis using False split_quoted [of "[]" a rest] by (simp add: quote_one_def)
  qed
qed

section \<open>Merging\<close>

definition pair_key :: "string \<Rightarrow> string" where
  "pair_key p = fst (cut_pair p)"

lemma put_pairs_vals:
  "snd (put_pairs ps (order, vals)) k =
     (case filter (\<lambda>p. pair_key p = k \<and> k \<noteq> []) ps of [] \<Rightarrow> vals k | q # qs \<Rightarrow> Some (snd (cut_pair (last (q # qs)))))"
proof (induction ps arbitrary: order vals)
  case Nil
  then show ?case by simp
next
  case (Cons p ps)
  obtain a v where a: "cut_pair p = (a, v)" by fastforce
  show ?case
  proof (cases "a = []")
    case True
    then show ?thesis using Cons.IH a by (auto simp: put_pair_def pair_key_def)
  next
    case False
    then show ?thesis
      using Cons.IH a by (auto simp: put_pair_def pair_key_def split: list.splits)
  qed
qed

lemma put_pairs_order:
  "distinct order \<Longrightarrow> (\<forall>k. (vals k \<noteq> None) = (k \<in> set order)) \<Longrightarrow>
   put_pairs ps (order, vals) = (order', vals') \<Longrightarrow>
   distinct order' \<and> (\<forall>k. (vals' k \<noteq> None) = (k \<in> set order')) \<and> take (length order) order' = order
   \<and> set order' = set order \<union> {k \<in> pair_key ` set ps. k \<noteq> []}"
proof (induction ps arbitrary: order vals)
  case Nil
  then show ?case by auto
next
  case (Cons p ps)
  obtain a v where a: "cut_pair p = (a, v)" by fastforce
  show ?case
  proof (cases "a = []")
    case True
    then show ?thesis using Cons.IH [OF Cons.prems(1,2)] Cons.prems(3) a
      by (auto simp: put_pair_def pair_key_def)
  next
    case False
    let ?o = "if vals a = None then order @ [a] else order"
    have A: "put_pairs ps (?o, vals(a \<mapsto> v)) = (order', vals')"
      using Cons.prems(3) a False by (simp add: put_pair_def)
    have na: "a \<notin> set order" if "vals a = None" using Cons.prems(2) that by metis
    have B: "distinct ?o" using Cons.prems(1) na by auto
    have C: "\<forall>k. ((vals(a \<mapsto> v)) k \<noteq> None) = (k \<in> set ?o)"
    proof
      fix k show "((vals(a \<mapsto> v)) k \<noteq> None) = (k \<in> set ?o)"
        using Cons.prems(2) [rule_format, of k] Cons.prems(2) [rule_format, of a] by (cases "k = a") auto
    qed
    note IH = Cons.IH [OF B C A]
    have "take (length order) order' = order"
    proof -
      have "take (length order) (take (length ?o) order') = order"
        unfolding IH [THEN conjunct2, THEN conjunct2, THEN conjunct1] by simp
      then show ?thesis by (simp split: if_splits)
    qed
    moreover have "set order' = set order \<union> {k \<in> pair_key ` set (p # ps). k \<noteq> []}"
    proof -
      have "set ?o = insert a (set order)" using Cons.prems(2) [rule_format, of a] by auto
      moreover have "pair_key p = a" using a by (simp add: pair_key_def)
      ultimately show ?thesis
        using IH [THEN conjunct2, THEN conjunct2, THEN conjunct2] False by auto
    qed
    ultimately show ?thesis
      using IH [THEN conjunct1] IH [THEN conjunct2, THEN conjunct1] by (intro conjI)
  qed
qed

lemma cut_pair_join: "CHR ''='' \<notin> set k \<Longrightarrow> cut_pair (k @ ''='' @ v) = (k, v)"
  by (simp add: cut_pair_def Let_def takeWhile_append)

lemma pair_key_noeq: "CHR ''='' \<notin> set (pair_key p)"
  by (auto simp: pair_key_def cut_pair_def Let_def dest: set_takeWhileD)

lemma quoteArgv_faithful:
  "shell_split None False (quoteArgv argv) = Some argv"
proof (induction argv)
  case Nil
  then show ?case by (simp add: quoteArgv_def)
next
  case (Cons a argv)
  show ?case
  proof (cases "argv = []")
    case True
    then show ?thesis using split_quote_one [of a "[]"] by (simp add: quoteArgv_def)
  next
    case False
    then have "quoteArgv (a # argv) = quote_one a @ '' '' @ quoteArgv argv"
      by (simp add: quoteArgv_def Join_Cons)
    then show ?thesis using Cons split_quote_one [of a "'' '' @ quoteArgv argv"] by simp
  qed
qed

section \<open>Properties\<close>

text \<open>
  The display of an argument vector is faithful.  Whatever the arguments contain, splitting
  \<open>quoteArgv argv\<close> as a shell does gives back exactly \<open>argv\<close>; so two vectors never share a display.
\<close>

theorem quoteArgv_round_trip:
  "shell_split None False (quoteArgv argv) = Some argv"
  by (rule quoteArgv_faithful)

text \<open>
  A merged environment has exactly one entry per key, and the entry carries the value of
  the last pair that sets the key, whether it stands in the base or an overlay; keys come from the
  pairs given and no other entry appears.
\<close>

theorem mergeEnv_last_wins:
  "distinct (map pair_key (mergeEnv base overlays))
   \<and> set (map pair_key (mergeEnv base overlays)) = {k \<in> pair_key ` set (base @ concat overlays). k \<noteq> []}
   \<and> list_all (\<lambda>e. snd (cut_pair e) =
        snd (cut_pair (last (filter (\<lambda>p. pair_key p = pair_key e) (base @ concat overlays))))) (mergeEnv base overlays)"
proof -
  let ?ps = "base @ concat overlays"
  obtain order vals where pv: "put_pairs ?ps ([], \<lambda>k. None) = (order, vals)" by fastforce
  have O: "distinct order" "\<forall>k. (vals k \<noteq> None) = (k \<in> set order)" "set order = {k \<in> pair_key ` set ?ps. k \<noteq> []}"
    using put_pairs_order [OF _ _ pv] by auto
  have m: "mergeEnv base overlays = map (\<lambda>k. k @ ''='' @ the (vals k)) order"
    using pv by (simp add: mergeEnv_def)
  have noeq: "CHR ''='' \<notin> set k" if "k \<in> set order" for k
    using that O(3) pair_key_noeq by auto
  have keys: "map pair_key (mergeEnv base overlays) = order"
    unfolding m by (simp add: map_idI noeq pair_key_def cut_pair_join [simplified])
  have vals: "snd (cut_pair (k @ ''='' @ the (vals k))) = snd (cut_pair (last (filter (\<lambda>p. pair_key p = k) ?ps)))"
    if k: "k \<in> set order" for k
  proof -
    have "k \<noteq> []" "k \<in> pair_key ` set ?ps" using k O(3) by auto
    then have "filter (\<lambda>p. pair_key p = k) ?ps \<noteq> []" by (auto simp: filter_empty_conv)
    moreover have "vals k = (case filter (\<lambda>p. pair_key p = k) ?ps of [] \<Rightarrow> None
        | q # qs \<Rightarrow> Some (snd (cut_pair (last (q # qs)))))"
      using put_pairs_vals [of ?ps "[]" "\<lambda>k. None" k] pv \<open>k \<noteq> []\<close> by simp
    ultimately have "the (vals k) = snd (cut_pair (last (filter (\<lambda>p. pair_key p = k) ?ps)))"
      by (cases "filter (\<lambda>p. pair_key p = k) ?ps") auto
    then show ?thesis using cut_pair_join [OF noeq [OF k]] by simp
  qed
  show ?thesis
  proof (intro conjI)
    show "list_all (\<lambda>e. snd (cut_pair e) =
        snd (cut_pair (last (filter (\<lambda>p. pair_key p = pair_key e) ?ps)))) (mergeEnv base overlays)"
      unfolding m list_all_iff using vals noeq cut_pair_join by (auto simp: pair_key_def)
  qed (use keys O in simp_all)
qed

end
