(* ===== verification/TailOutput.thy ===== *)
theory TailOutput
  imports Prelude
begin

text \<open>
  Package \<open>command\<close>, captured output: the ordered bounded tail of \<open>tail_output.go\<close> and the
  older prefix buffers and \<open>TruncateUTF8\<close> of \<open>runner.go\<close>.  A chunk carries its stream and its
  bytes.  Redaction is an argument; the digests are kept as the bytes they have consumed,
  \<open>sha\<close> (SHA-256 of the standard library) is a parameter.  The mutex makes every operation
  one step.
\<close>

datatype stream = Stdout | Stderr

type_synonym streamChunk = "stream \<times> string"

record tailOutput =
  budget :: nat
  chunks :: "streamChunk list"
  keptBytes :: nat
  truncated :: bool
  hashed :: "stream \<Rightarrow> string"      \<comment> \<open>bytes the stream's digest has consumed\<close>

definition defaultOutputBudget :: nat where
  "defaultOutputBudget = 200000"

definition newTailOutput :: "int \<Rightarrow> tailOutput" where
  "newTailOutput b = \<lparr>budget = (if b \<le> 0 then defaultOutputBudget else nat b), chunks = [], keptBytes = 0,
     truncated = False, hashed = (\<lambda>s. [])\<rparr>"

text \<open>\<open>utf8.RuneStart\<close>: not a continuation byte.\<close>

definition RuneStart :: "char \<Rightarrow> bool" where
  "RuneStart c \<longleftrightarrow> \<not> (0x80 \<le> byteval c \<and> byteval c \<le> 0xBF)"

function headRuneCut :: "string \<Rightarrow> nat \<Rightarrow> nat" where
  "headRuneCut b pos = (if pos < length b \<and> \<not> RuneStart (b ! pos) then headRuneCut b (pos + 1) else pos)"
  by pat_completeness auto
termination by (relation "measure (\<lambda>(b, pos). length b - pos)") auto

declare headRuneCut.simps [simp del]

fun evict :: "nat \<Rightarrow> streamChunk list \<Rightarrow> nat \<Rightarrow> bool \<Rightarrow> streamChunk list \<times> nat \<times> bool" where
  "evict bud [] kept trunc = ([], kept, trunc)"
| "evict bud ((s, d) # cs) kept trunc =
     (if kept \<le> bud then ((s, d) # cs, kept, trunc)
      else let over = kept - bud in
        if over < length d then (let pos = headRuneCut d over in ((s, drop pos d) # cs, kept - pos, True))
        else evict bud cs (kept - length d) True)"

definition evictLocked :: "tailOutput \<Rightarrow> tailOutput" where
  "evictLocked o' =
     (case evict (budget o') (chunks o') (keptBytes o') (truncated o') of
        (cs, k, t) \<Rightarrow> o'\<lparr>chunks := cs, keptBytes := k, truncated := t\<rparr>)"

definition tail_write :: "stream \<Rightarrow> string \<Rightarrow> tailOutput \<Rightarrow> tailOutput" where
  "tail_write s p o' =
     (let o1 = o'\<lparr>hashed := (hashed o')(s := hashed o' s @ p)\<rparr> in
      if p = [] then o1
      else evictLocked (o1\<lparr>chunks := chunks o1 @ [(s, p)], keptBytes := keptBytes o1 + length p\<rparr>))"

fun tail_writes :: "(stream \<times> string) list \<Rightarrow> tailOutput \<Rightarrow> tailOutput" where
  "tail_writes [] o' = o'"
| "tail_writes ((s, p) # ws) o' = tail_writes ws (tail_write s p o')"

definition stream_text :: "stream \<Rightarrow> streamChunk list \<Rightarrow> string" where
  "stream_text s cs = concat (map snd (filter (\<lambda>c. fst c = s) cs))"

definition snapshotLocked :: "(string \<Rightarrow> string) \<Rightarrow> tailOutput \<Rightarrow> string \<times> string \<times> bool" where
  "snapshotLocked redact o' = (redact (stream_text Stdout (chunks o')), redact (stream_text Stderr (chunks o')), truncated o')"

text \<open>Redaction of each contiguous same-stream run; \<open>run\<close> is what has been collected of it.\<close>

fun combine_runs :: "(string \<Rightarrow> string) \<Rightarrow> stream option \<Rightarrow> string \<Rightarrow> streamChunk list \<Rightarrow> string" where
  "combine_runs redact cur run [] = (if run = [] then [] else redact run)"
| "combine_runs redact cur run ((s, d) # cs) =
     (if cur \<noteq> Some s then (if run = [] then [] else redact run) @ combine_runs redact (Some s) d cs
      else combine_runs redact cur (run @ d) cs)"

definition combinedText :: "(string \<Rightarrow> string) \<Rightarrow> tailOutput \<Rightarrow> string" where
  "combinedText redact o' = combine_runs redact None [] (chunks o')"

definition composedSum :: "(string \<Rightarrow> string) \<Rightarrow> tailOutput \<Rightarrow> string" where
  "composedSum sha o' = sha (sha (hashed o' Stdout) @ [LF] @ sha (hashed o' Stderr))"

section \<open>Prefix buffers (\<open>runner.go\<close>)\<close>

fun runeSafeCut :: "string \<Rightarrow> nat \<Rightarrow> nat" where
  "runeSafeCut b 0 = 0"
| "runeSafeCut b (Suc pos) = (if Suc pos < length b \<and> \<not> RuneStart (b ! Suc pos) then runeSafeCut b pos else Suc pos)"

record limitBuffer =
  lb_buf :: string
  lb_max :: nat
  lb_truncated :: bool

definition newLimitBuffer :: "int \<Rightarrow> limitBuffer" where
  "newLimitBuffer m = \<lparr>lb_buf = [], lb_max = (if m \<le> 0 then 200000 else nat m), lb_truncated = False\<rparr>"

definition limit_write :: "string \<Rightarrow> limitBuffer \<Rightarrow> limitBuffer" where
  "limit_write p b =
     (if length (lb_buf b) + length p \<le> lb_max b then b\<lparr>lb_buf := lb_buf b @ p\<rparr>
      else let remaining = lb_max b - length (lb_buf b) in
        b\<lparr>lb_truncated := True,
          lb_buf := lb_buf b @ (if remaining > 0 then take (runeSafeCut p remaining) p else [])\<rparr>)"

record liveOutput =
  lo_stdout :: limitBuffer
  lo_stderr :: limitBuffer

definition newLiveOutput :: "int \<Rightarrow> liveOutput" where
  "newLiveOutput m = \<lparr>lo_stdout = newLimitBuffer m, lo_stderr = newLimitBuffer m\<rparr>"

definition live_write :: "stream \<Rightarrow> string \<Rightarrow> liveOutput \<Rightarrow> liveOutput" where
  "live_write s p o' =
     (case s of
        Stderr \<Rightarrow> o'\<lparr>lo_stderr := limit_write p (lo_stderr o')\<rparr>
      | Stdout \<Rightarrow> o'\<lparr>lo_stdout := limit_write p (lo_stdout o')\<rparr>)"

definition live_snapshot :: "liveOutput \<Rightarrow> string \<times> string \<times> bool" where
  "live_snapshot o' = (lb_buf (lo_stdout o'), lb_buf (lo_stderr o'), lb_truncated (lo_stdout o') \<or> lb_truncated (lo_stderr o'))"

text \<open>The loop of \<open>TruncateUTF8\<close> and its entry checks.\<close>

fun truncate_cut :: "string \<Rightarrow> nat \<Rightarrow> nat" where
  "truncate_cut s 0 = 0"
| "truncate_cut s (Suc pos) = (if \<not> RuneStart (s ! Suc pos) then truncate_cut s pos else Suc pos)"

definition TruncateUTF8 :: "string \<Rightarrow> int \<Rightarrow> string" where
  "TruncateUTF8 s limit =
     (if limit \<le> 0 then [] else if int (length s) \<le> limit then s else take (truncate_cut s (nat limit)) s)"

section \<open>Lemmas\<close>

text \<open>The history of a tail: every byte that arrived, tagged with its stream.\<close>

definition tagged :: "streamChunk list \<Rightarrow> (stream \<times> char) list" where
  "tagged cs = concat (map (\<lambda>(s, d). map (Pair s) d) cs)"

lemma tagged_simps [simp]:
  "tagged [] = []" "tagged ((s, d) # cs) = map (Pair s) d @ tagged cs" "tagged (xs @ ys) = tagged xs @ tagged ys"
  by (simp_all add: tagged_def)

definition sum_len :: "streamChunk list \<Rightarrow> nat" where
  "sum_len cs = length (tagged cs)"

lemma headRuneCut_ge: "pos \<le> headRuneCut b pos"
  by (induction b pos rule: headRuneCut.induct) (subst headRuneCut.simps, auto)

lemma headRuneCut_le: "pos \<le> length b \<Longrightarrow> headRuneCut b pos \<le> length b"
proof (induction b pos rule: headRuneCut.induct)
  case (1 b pos)
  then show ?case by (subst headRuneCut.simps) auto
qed

lemma headRuneCut_start: "headRuneCut b pos < length b \<Longrightarrow> RuneStart (b ! headRuneCut b pos)"
proof (induction b pos rule: headRuneCut.induct)
  case (1 b pos)
  show ?case
  proof (cases "pos < length b \<and> \<not> RuneStart (b ! pos)")
    case True
    then show ?thesis using 1 by (metis headRuneCut.simps)
  next
    case False
    then have "headRuneCut b pos = pos" by (subst headRuneCut.simps) auto
    then show ?thesis using False 1 by auto
  qed
qed

lemma evict_spec:
  "evict bud cs kept trunc = (cs', k', t') \<Longrightarrow> kept = sum_len cs \<Longrightarrow>
   k' = sum_len cs' \<and> k' \<le> bud \<and> (\<exists>dropped. tagged cs = dropped @ tagged cs' \<and>
     t' = (trunc \<or> dropped \<noteq> []) \<and> (kept \<le> bud \<longrightarrow> dropped = []))"
proof (induction bud cs kept trunc arbitrary: cs' k' t' rule: evict.induct)
  case (1 bud kept trunc)
  then show ?case by (auto simp: sum_len_def)
next
  case (2 bud s d cs kept trunc)
  show ?case
  proof (cases "kept \<le> bud")
    case True
    then show ?thesis using "2.prems" by (auto intro: exI [of _ "[]"])
  next
    case False
    let ?over = "kept - bud"
    show ?thesis
    proof (cases "?over < length d")
      case True
      let ?pos = "headRuneCut d ?over"
      have c: "?over \<le> ?pos" "?pos \<le> length d"
        using headRuneCut_ge headRuneCut_le [of ?over d] True by auto
      have e: "cs' = (s, drop ?pos d) # cs" "k' = kept - ?pos" "t'"
        using "2.prems"(1) False True by (auto simp: Let_def)
      have t: "tagged ((s, d) # cs) = map (Pair s) (take ?pos d) @ tagged cs'"
        unfolding e(1) tagged_simps by (metis append.assoc append_take_drop_id map_append)
      have "k' = sum_len cs'" using e "2.prems"(2) c by (simp add: sum_len_def)
      moreover have "k' \<le> bud" using e(2) c(1) by simp
      moreover have "map (Pair s) (take ?pos d) \<noteq> []"
        using c False True by (auto simp: take_eq_Nil)
      ultimately show ?thesis using t e(3) False by blast
    next
      case nt: False
      have k: "kept - length d = sum_len cs" using "2.prems"(2) by (simp add: sum_len_def)
      have r: "evict bud cs (kept - length d) True = (cs', k', t')"
        using "2.prems"(1) False nt by (simp add: Let_def)
      from "2.IH" [OF False refl nt r k] obtain dr where
        "k' = sum_len cs'" "k' \<le> bud" "tagged cs = dr @ tagged cs'" "t'" by auto
      moreover from this have "map (Pair s) d @ dr \<noteq> []"
        using False k by (auto simp: sum_len_def)
      ultimately show ?thesis
        using False nt by (intro conjI exI [of _ "map (Pair s) d @ dr"]) auto
    qed
  qed
qed

text \<open>The invariant after a sequence of writes \<open>ws\<close>, kept by every write.\<close>

definition tail_inv :: "(stream \<times> string) list \<Rightarrow> tailOutput \<Rightarrow> bool" where
  "tail_inv ws o' \<longleftrightarrow>
     keptBytes o' = sum_len (chunks o') \<and> keptBytes o' \<le> budget o' \<and>
     (\<exists>dropped. tagged ws = dropped @ tagged (chunks o') \<and> (truncated o' \<longleftrightarrow> dropped \<noteq> [])) \<and>
     (\<forall>s. hashed o' s = stream_text s ws)"

lemma stream_text_snoc: "stream_text s (ws @ [(t, p)]) = stream_text s ws @ (if t = s then p else [])"
  by (simp add: stream_text_def)

lemma tail_inv_init: "tail_inv [] (newTailOutput b)"
  by (simp add: tail_inv_def newTailOutput_def sum_len_def stream_text_def)

lemma tail_inv_write:
  assumes "tail_inv ws o'"
  shows "tail_inv (ws @ [(s, p)]) (tail_write s p o') \<and> budget (tail_write s p o') = budget o'"
proof (cases "p = []")
  case True
  then show ?thesis using assms by (auto simp: tail_write_def tail_inv_def Let_def stream_text_snoc)
next
  case False
  obtain cs k t where e: "evict (budget o') (chunks o' @ [(s, p)]) (keptBytes o' + length p) (truncated o') = (cs, k, t)"
    by (metis prod_cases3)
  have kept: "keptBytes o' + length p = sum_len (chunks o' @ [(s, p)])"
    using assms by (simp add: tail_inv_def sum_len_def)
  obtain dr where dr: "k = sum_len cs" "k \<le> budget o'" "tagged (chunks o' @ [(s, p)]) = dr @ tagged cs"
      "t = (truncated o' \<or> dr \<noteq> [])"
    using evict_spec [OF e kept] by blast
  obtain d0 where d0: "tagged ws = d0 @ tagged (chunks o')" "truncated o' \<longleftrightarrow> d0 \<noteq> []"
    using assms by (auto simp: tail_inv_def)
  have w: "tail_write s p o' = o'\<lparr>hashed := (hashed o')(s := hashed o' s @ p), chunks := cs, keptBytes := k, truncated := t\<rparr>"
    using False e by (simp add: tail_write_def evictLocked_def Let_def)
  have "tagged (ws @ [(s, p)]) = (d0 @ dr) @ tagged cs"
    using d0(1) dr(3) by simp
  moreover have "t \<longleftrightarrow> d0 @ dr \<noteq> []" using dr(4) d0(2) by simp
  ultimately have "\<exists>dropped. tagged (ws @ [(s, p)]) = dropped @ tagged cs \<and> (t \<longleftrightarrow> dropped \<noteq> [])" by blast
  then show ?thesis
    unfolding w using dr(1,2) assms by (simp add: tail_inv_def stream_text_snoc)
qed

lemma tail_inv_writes:
  "tail_inv pre o' \<Longrightarrow> tail_inv (pre @ ws) (tail_writes ws o') \<and> budget (tail_writes ws o') = budget o'"
proof (induction ws arbitrary: pre o')
  case Nil
  then show ?case by simp
next
  case (Cons w ws)
  obtain s p where w: "w = (s, p)" by (cases w)
  have "tail_inv (pre @ [(s, p)]) (tail_write s p o')" "budget (tail_write s p o') = budget o'"
    using tail_inv_write [OF Cons.prems] by simp_all
  from Cons.IH [OF this(1)] this(2) show ?case by (simp add: w)
qed

lemma stream_text_tagged: "stream_text s cs = map snd (filter (\<lambda>x. fst x = s) (tagged cs))"
proof (induction cs)
  case (Cons c cs)
  obtain t d where "c = (t, d)" by (cases c)
  moreover have "map snd (filter (\<lambda>x. fst x = s) (map (Pair t) d)) = (if t = s then d else [])"
    by (induction d) auto
  ultimately show ?case using Cons by (simp add: stream_text_def)
qed (simp add: stream_text_def)

lemma runeSafeCut_le: "runeSafeCut b n \<le> n"
  by (induction b n rule: runeSafeCut.induct) auto

lemma runeSafeCut_boundary: "runeSafeCut b n = 0 \<or> length b \<le> runeSafeCut b n \<or> RuneStart (b ! runeSafeCut b n)"
  by (induction b n rule: runeSafeCut.induct) auto

lemma truncate_cut_le: "truncate_cut s n \<le> n"
  by (induction s n rule: truncate_cut.induct) auto

lemma truncate_cut_boundary: "truncate_cut s n = 0 \<or> RuneStart (s ! truncate_cut s n)"
  by (induction s n rule: truncate_cut.induct) auto

section \<open>Properties\<close>

text \<open>
  Claim C9: the tail is bounded, in order and honest about truncation.  After any writes to
  both streams the retained bytes, with their stream tags and in arrival order, are a
  suffix of everything that arrived; they fit the one shared budget; the truncation flag is
  set exactly when something was dropped; each stream's text is a suffix of what that
  stream wrote.
\<close>

theorem tailOutput_suffix:
  "(let o' = tail_writes ws (newTailOutput b) in
     keptBytes o' = length (tagged (chunks o')) \<and>
     length (tagged (chunks o')) \<le> (if b \<le> 0 then 200000 else nat b) \<and>
     (\<exists>dropped. tagged ws = dropped @ tagged (chunks o') \<and> (truncated o' \<longleftrightarrow> dropped \<noteq> [])) \<and>
     (\<forall>s. \<exists>d. stream_text s ws = d @ stream_text s (chunks o')))"
proof -
  let ?o = "tail_writes ws (newTailOutput b)"
  have i: "tail_inv ws ?o" "budget ?o = budget (newTailOutput b)"
    using tail_inv_writes [OF tail_inv_init, of ws b] by simp_all
  then obtain dr where dr: "tagged ws = dr @ tagged (chunks ?o)" "truncated ?o \<longleftrightarrow> dr \<noteq> []"
    by (auto simp: tail_inv_def)
  have "stream_text s ws = map snd (filter (\<lambda>x. fst x = s) dr) @ stream_text s (chunks ?o)" for s
    by (simp add: stream_text_tagged dr(1))
  then show ?thesis
    using i dr by (auto simp: Let_def tail_inv_def sum_len_def newTailOutput_def defaultOutputBudget_def)
qed

text \<open>
  The output hash covers the complete output and does not depend on how it was
  chunked or interleaved: two sequences of writes with the same text per stream have the
  same hash, whatever their budgets.
\<close>

theorem composedSum_chunking:
  assumes "\<forall>s. stream_text s ws = stream_text s ws'"
  shows "composedSum sha (tail_writes ws (newTailOutput b)) = composedSum sha (tail_writes ws' (newTailOutput b'))"
  using tail_inv_writes [OF tail_inv_init, of ws b] tail_inv_writes [OF tail_inv_init, of ws' b'] assms
  by (simp add: composedSum_def tail_inv_def)

theorem composedSum_chunking_witness:
  "composedSum rev (tail_writes [(Stdout, ''ab''), (Stderr, ''e''), (Stdout, ''c'')] (newTailOutput 2))
   = composedSum rev (tail_writes [(Stderr, ''e''), (Stdout, ''abc'')] (newTailOutput 50))"
proof (rule composedSum_chunking)
  show "\<forall>s. stream_text s [(Stdout, ''ab''), (Stderr, ''e''), (Stdout, ''c'')] =
      stream_text s [(Stderr, ''e''), (Stdout, ''abc'')]"
    by (rule allI, case_tac s) (simp_all add: stream_text_def)
qed

text \<open>
  Eviction does not always keep whole runes at the head: when a rune is split
  across two writes and the first of them is dropped as a whole chunk, the retained tail
  begins with the rune's continuation byte.
\<close>

theorem evict_splits_rune:
  "(let o' = tail_writes [(Stdout, [CHR 0xC3]), (Stdout, [CHR 0xA9, CHR ''x''])] (newTailOutput 2) in
     stream_text Stdout (chunks o') = [CHR 0xA9, CHR ''x''] \<and> \<not> RuneStart (hd (stream_text Stdout (chunks o'))))"
  by code_simp

text \<open>
  \<open>TruncateUTF8\<close> returns a prefix no longer than the limit that ends at a rune
  boundary: it is the whole text, or empty, or followed by the start of a rune.
\<close>

theorem TruncateUTF8_prefix:
  "(let t = TruncateUTF8 s limit in
     HasPrefix s t \<and> (int (length t) \<le> limit \<or> t = []) \<and>
     (t = s \<or> t = [] \<or> RuneStart (s ! length t)))"
proof -
  consider "limit \<le> 0" | "0 < limit" "int (length s) \<le> limit" | "0 < limit" "limit < int (length s)" by linarith
  then show ?thesis
  proof cases
    case 3
    let ?n = "truncate_cut s (nat limit)"
    have "?n \<le> nat limit" by (rule truncate_cut_le)
    then have "length (take ?n s) = ?n" "int ?n \<le> limit" using 3 by auto
    then show ?thesis
      using 3 truncate_cut_boundary [of s "nat limit"]
      by (auto simp: TruncateUTF8_def Let_def HasPrefix_take)
  qed (auto simp: TruncateUTF8_def Let_def HasPrefix_take)
qed

end
