(* ===== verification/Runner.thy ===== *)
theory Runner
  imports HistoryFacts CommandGuards Argv TailOutput Vars Security
begin

text \<open>
  Package \<open>command\<close>, the run of one command (\<open>runner.go\<close>, \<open>argv.go\<close>): the value channels and
  \<open>PrepareExec\<close>, what is started, how captured output, exit status and history are put together, the
  repeat report and \<open>Abort\<close>.  The process is the argument \<open>proc\<close>, which answers a launch with what was written, how it ended and
  what its context said then.  \<open>redact\<close> (the fixed patterns of \<open>secretPatterns\<close>), the texts of
  template errors and the regular-expression compiler are arguments.
\<close>

section \<open>Value channels\<close>

record Exec =
  ex_vars :: "(string \<times> string) list"
  ex_argv :: "string list"
  ex_env :: "(string \<times> string) list"
  ex_stdin :: string

definition emptyExec :: Exec where
  "emptyExec = \<lparr>ex_vars = [], ex_argv = [], ex_env = [], ex_stdin = []\<rparr>"

record run_ctx =
  rx_envs :: "string list"
  rx_mask :: "Mask option"
  rx_exec :: "Exec option"

definition execFromContext :: "run_ctx \<Rightarrow> Exec" where
  "execFromContext ctx = (case rx_exec ctx of None \<Rightarrow> emptyExec | Some e \<Rightarrow> e)"

record ResolvedValues =
  rv_vars :: "(string \<times> string) list"
  rv_env :: "string list"
  rv_mask :: "Mask option"

type_synonym resolver = "string list \<Rightarrow> (string \<times> string) list \<Rightarrow> (string \<times> string) list \<Rightarrow> (string, ResolvedValues) result"

definition PrepareExec ::
  "run_ctx \<Rightarrow> resolver option \<Rightarrow> string list \<Rightarrow> (string \<times> string) list \<Rightarrow> (string \<times> string) list \<Rightarrow> string \<Rightarrow> string
     \<Rightarrow> (string, run_ctx) result" where
  "PrepareExec ctx res handles vars env stdin0 stdinVar =
     (if stdin0 \<noteq> [] \<and> stdinVar \<noteq> [] then Inl ''stdin and stdin_var are mutually exclusive''
      else (case res of
        None \<Rightarrow> Inl ''resolver is required''
      | Some resolve \<Rightarrow>
          rbind (resolve handles vars env) (\<lambda>r.
            rbind (if stdinVar = [] then Inr stdin0
                   else (case map_of (rv_vars r) stdinVar of
                           None \<Rightarrow> Inl ''stdin_var has no value''
                         | Some v \<Rightarrow> Inr v)) (\<lambda>stdin1.
              let ctx1 = (if rv_mask r \<noteq> None \<or> rv_env r \<noteq> [] then ctx\<lparr>rx_envs := rv_env r, rx_mask := rv_mask r\<rparr> else ctx)
              in Inr (if rv_vars r \<noteq> [] \<or> stdin1 \<noteq> []
                      then ctx1\<lparr>rx_exec := Some \<lparr>ex_vars = rv_vars r, ex_argv = [], ex_env = [], ex_stdin = stdin1\<rparr>\<rparr>
                      else ctx1)))))"

section \<open>What is started\<close>

datatype program = Direct "string list" | Shell string

definition values_of :: "(string \<times> string) list \<Rightarrow> values_map" where
  "values_of vs = \<lparr>lookup = map_of vs, keys = map fst vs\<rparr>"

text \<open>The template step of \<open>executePrepared\<close>: the program and its standard input.\<close>

definition resolve_program ::
  "(vars_error \<Rightarrow> string) \<Rightarrow> run_ctx \<Rightarrow> string \<Rightarrow> (string, program \<times> string) result" where
  "resolve_program show_err ctx cmd =
     (let e = execFromContext ctx in
      if ex_argv e \<noteq> [] then
        (if ex_vars e \<noteq> [] then Inl ''argv execution does not support template variables''
         else Inr (Direct (ex_argv e), ex_stdin e))
      else if ex_vars e \<noteq> [] then
        (case Substitute cmd (values_of (ex_vars e)) of
           Inl er \<Rightarrow> Inl (show_err er)
         | Inr c \<Rightarrow>
             (if ex_stdin e = [] then Inr (Shell c, [])
              else (case Substitute (ex_stdin e) (values_of (ex_vars e)) of
                      Inl er \<Rightarrow> Inl (show_err er)
                    | Inr i \<Rightarrow> Inr (Shell c, i))))
      else Inr (Shell cmd, ex_stdin e))"

text \<open>The environment the process gets: \<open>None\<close> inherits the parent's unchanged.\<close>

definition process_env :: "string list \<Rightarrow> run_ctx \<Rightarrow> string list option" where
  "process_env os_env ctx =
     (if rx_envs ctx \<noteq> [] \<or> ex_env (execFromContext ctx) \<noteq> []
      then Some (mergeEnv os_env [rx_envs ctx, envSlice (ex_env (execFromContext ctx))]) else None)"

definition bad_env_key :: "string \<Rightarrow> bool" where
  "bad_env_key k \<longleftrightarrow> k = [] \<or> list_ex (\<lambda>c. c \<in> {CHR ''='', NUL, LF}) k"

text \<open>\<open>RunArgv\<close>: the context and the display command it hands to \<open>RunFiltered\<close>.\<close>

definition argv_request :: "run_ctx \<Rightarrow> string list \<Rightarrow> (string, run_ctx \<times> string) result" where
  "argv_request ctx argv =
     (if argv = [] \<or> TrimSpace (hd argv) = [] then Inl ''argv must name a program to run''
      else let e = execFromContext ctx in
        if list_ex (\<lambda>(k, v). bad_env_key k) (ex_env e) then Inl ''execution env keys must be non-empty''
        else Inr (ctx\<lparr>rx_exec := Some (e\<lparr>ex_argv := argv\<rparr>)\<rparr>, quoteArgv argv))"

section \<open>Redaction\<close>

definition apply_opt :: "Mask option \<Rightarrow> string \<Rightarrow> string" where
  "apply_opt m s = (case m of None \<Rightarrow> s | Some ss \<Rightarrow> ApplyMask ss s)"

definition maskText :: "Mask option \<Rightarrow> run_ctx \<Rightarrow> string \<Rightarrow> string" where
  "maskText base ctx text = apply_opt (rx_mask ctx) (apply_opt base text)"

definition redactOutput :: "(string \<Rightarrow> string) \<Rightarrow> Mask option \<Rightarrow> run_ctx \<Rightarrow> string \<Rightarrow> string" where
  "redactOutput redact base ctx text = apply_opt (rx_mask ctx) (apply_opt base (redact text))"

section \<open>The outcome of a process\<close>

text \<open>What the operating system is asked to start.\<close>

record launch =
  lc_program :: program
  lc_stdin :: string
  lc_env :: "string list option"
  lc_dir :: string

datatype proc_error = ExitErr int | OtherErr string

datatype ctx_state = CtxLive | CtxDeadline | CtxCanceled

record outcome =
  oc_writes :: "(stream \<times> string) list"
  oc_error :: "proc_error option"
  oc_ctx :: ctx_state
  oc_completed :: int

type_synonym proc = "launch \<Rightarrow> outcome"

text \<open>Exit code, status and the text of an execution error.\<close>

definition classify :: "(string \<Rightarrow> string) \<Rightarrow> outcome \<Rightarrow> int \<times> string \<times> string" where
  "classify red oc =
     (let (code, st, er) =
        (case oc_error oc of
           None \<Rightarrow> (0, ''ok'', [])
         | Some e \<Rightarrow>
             (case oc_ctx oc of
                CtxDeadline \<Rightarrow> (124, ''timeout'', [])
              | CtxCanceled \<Rightarrow> (130, ''aborted'', [])
              | CtxLive \<Rightarrow>
                  (case e of
                     ExitErr n \<Rightarrow> (n, ''failed'', [])
                   | OtherErr t \<Rightarrow> (1, ''failed'', red t))))
      in (code, (if code \<noteq> 0 \<and> st = ''ok'' then ''failed'' else st), er))"

text \<open>The writes of the process, each followed by the update of the running record.\<close>

fun feed_output ::
  "henv \<Rightarrow> (string \<Rightarrow> string) \<Rightarrow> string \<Rightarrow> (stream \<times> string) list \<Rightarrow> tailOutput \<Rightarrow> history \<Rightarrow> tailOutput \<times> history" where
  "feed_output env red cid [] o1 h = (o1, h)"
| "feed_output env red cid ((s, p) # ws) o1 h =
     (let o2 = tail_write s p o1 in
      case snapshotLocked red o2 of
        (out, err, trunc) \<Rightarrow>
          feed_output env red cid ws o2
            (snd (UpdateRunningOutput env cid (normalizeLines out) (normalizeLines err)
               (normalizeLines (combinedText red o2)) trunc (hexEncode (composedSum (v_sha env) o2)) h)))"

section \<open>One run\<close>

definition prev_window :: int where "prev_window = 3600000000000"

definition previousRun ::
  "henv \<Rightarrow> history \<Rightarrow> disk \<Rightarrow> string \<Rightarrow> string \<Rightarrow> string \<Rightarrow> string \<Rightarrow> int \<Rightarrow> PreviousRun option" where
  "previousRun env h d repo command exceptID hash now =
     (if TrimSpace repo = [] then None
      else (case lastIdenticalRun env h d repo command exceptID of
        None \<Rightarrow> None
      | Some e \<Rightarrow>
          (let age = max 0 (now - e_created e) in
           if age > prev_window then None
           else Some \<lparr>pr_id = e_id e, pr_status = e_status e, pr_exit = e_exit e, pr_age = age div 1000000000,
                      pr_same = (hash \<noteq> [] \<and> e_hash e = hash)\<rparr>)))"

record run_cfg =
  rg_env :: henv
  rg_compile :: compiler
  rg_redact :: "string \<Rightarrow> string"
  rg_showErr :: "vars_error \<Rightarrow> string"
  rg_osEnv :: "string list"
  rg_policy :: CommandPolicy
  rg_mask :: "Mask option"

definition run_redact :: "run_cfg \<Rightarrow> run_ctx \<Rightarrow> string \<Rightarrow> string" where
  "run_redact g ctx = redactOutput (rg_redact g) (rg_mask g) ctx"

definition failed_record ::
  "string \<Rightarrow> string \<Rightarrow> string \<Rightarrow> string \<Rightarrow> int \<Rightarrow> int \<Rightarrow> string \<Rightarrow> hist_record" where
  "failed_record cid command cwd repo started now cause =
     \<lparr>r_id = cid, r_status = ''failed'', r_repo = repo, r_command = command, r_cwd = cwd, r_exit = 1,
      r_duration = (now - started) div 1000000, r_truncated = False, r_stdout = [], r_stderr = [cause],
      r_combined = [cause], r_hash = [], r_started = started, r_completed = now, r_created = now\<rparr>"

text \<open>The record of a completed run.\<close>

definition run_record ::
  "run_cfg \<Rightarrow> run_ctx \<Rightarrow> string \<Rightarrow> string \<Rightarrow> string \<Rightarrow> string \<Rightarrow> int \<Rightarrow> outcome \<Rightarrow> tailOutput \<Rightarrow> hist_record" where
  "run_record g ctx cid cmd cwd repo started oc o1 =
     (case (classify (run_redact g ctx) oc, snapshotLocked (run_redact g ctx) o1) of
        ((code, st, er), (out, err, trunc)) \<Rightarrow>
          (let extra = (if er \<noteq> [] then [er] else []);
               combined = normalizeLines (combinedText (run_redact g ctx) o1) @ extra
           in \<lparr>r_id = cid, r_status = st, r_repo = repo, r_command = maskText (rg_mask g) ctx cmd, r_cwd = cwd, r_exit = code,
               r_duration = (oc_completed oc - started) div 1000000,
               r_truncated = (trunc \<or> int (length combined) > cp_maxLines (rg_policy g)),
               r_stdout = normalizeLines (run_redact g ctx out),
               r_stderr = normalizeLines (run_redact g ctx err) @ extra,
               r_combined = combined, r_hash = hexEncode (composedSum (v_sha (rg_env g)) o1),
               r_started = started, r_completed = oc_completed oc, r_created = 0\<rparr>))"

definition evidence_lines :: "CommandPolicy \<Rightarrow> string list \<Rightarrow> string list" where
  "evidence_lines p combined =
     (if int (length combined) > cp_maxLines p then tailN combined (cp_maxLines p) else combined)"

definition run_result ::
  "run_cfg \<Rightarrow> hist_record \<Rightarrow> string list \<Rightarrow> bool \<Rightarrow> history \<Rightarrow> disk \<Rightarrow> cmd_result" where
  "run_result g r filtered ftrunc h d =
     (let ev = SelectDistilled (evidence_lines (rg_policy g) (r_combined r)) 30 in
      \<lparr>cr_status = r_status r, cr_id = r_id r, cr_command = r_command r, cr_cwd = r_cwd r, cr_exit = r_exit r,
       cr_duration = r_duration r, cr_truncated = (r_truncated r \<or> ftrunc), cr_stdoutTail = tail80 (r_stdout r),
       cr_stderrTail = tail80 (r_stderr r), cr_filtered = filtered, cr_evidence = fst ev, cr_hash = r_hash r,
       cr_next = None,
       cr_previous = previousRun (rg_env g) h d (r_repo r) (r_command r) (r_id r) (r_hash r) (r_completed r),
       cr_markers = maskedFailureMarkers (r_exit r) (r_combined r), cr_distilled = snd ev\<rparr>)"

definition executePrepared ::
  "run_cfg \<Rightarrow> faults \<Rightarrow> run_ctx \<Rightarrow> string \<Rightarrow> string \<Rightarrow> string \<Rightarrow> filter_spec \<Rightarrow> string \<Rightarrow> int \<Rightarrow> proc \<Rightarrow> history \<Rightarrow> disk
     \<Rightarrow> (string, cmd_result) result \<times> history \<times> disk" where
  "executePrepared g io ctx cid cmd cwd flt repo started proc h d =
     (case resolve_program (\<lambda>e. run_redact g ctx (rg_showErr g e)) ctx cmd of
        Inl cause \<Rightarrow>
          (case Put (rg_env g) io (failed_record cid (maskText (rg_mask g) ctx cmd) cwd repo started (v_now (rg_env g)) cause) h d of
             (er, h1, d1) \<Rightarrow> (Inl cause, h1, d1))
      | Inr (prog, stdin) \<Rightarrow>
          (let oc = proc \<lparr>lc_program = prog, lc_stdin = stdin, lc_env = process_env (rg_osEnv g) ctx, lc_dir = cwd\<rparr> in
           case feed_output (rg_env g) (run_redact g ctx) cid (oc_writes oc) (newTailOutput (cp_maxOutput (rg_policy g))) h of
             (o1, h1) \<Rightarrow>
               (let r = run_record g ctx cid cmd cwd repo started oc o1 in
                case applyFilter (rg_compile g) (r_combined r) flt of
                  Inl e \<Rightarrow> (Inl e, h1, d)
                | Inr (fl, ft) \<Rightarrow>
                    (case Put (rg_env g) io r h1 d of
                       (Some e, h2, d2) \<Rightarrow> (Inl e, h2, d2)
                     | (None, h2, d2) \<Rightarrow> (Inr (run_result g r fl ft h2 d2), h2, d2)))))"

text \<open>The running record put before a run that the caller waits for only a while.\<close>

definition running_record :: "run_cfg \<Rightarrow> run_ctx \<Rightarrow> string \<Rightarrow> string \<Rightarrow> string \<Rightarrow> string \<Rightarrow> int \<Rightarrow> hist_record" where
  "running_record g ctx cid cmd cwd repo started =
     \<lparr>r_id = cid, r_status = ''running'', r_repo = repo, r_command = maskText (rg_mask g) ctx cmd, r_cwd = cwd, r_exit = - 1,
      r_duration = 0, r_truncated = False, r_stdout = [], r_stderr = [], r_combined = [], r_hash = [],
      r_started = started, r_completed = 0, r_created = started\<rparr>"

definition running_result :: "run_cfg \<Rightarrow> run_ctx \<Rightarrow> string \<Rightarrow> string \<Rightarrow> string \<Rightarrow> int \<Rightarrow> cmd_result" where
  "running_result g ctx cid cmd cwd elapsed =
     \<lparr>cr_status = ''running'', cr_id = cid, cr_command = maskText (rg_mask g) ctx cmd, cr_cwd = cwd, cr_exit = - 1,
      cr_duration = elapsed, cr_truncated = False, cr_stdoutTail = [], cr_stderrTail = [], cr_filtered = [], cr_evidence = [],
      cr_hash = [], cr_next = nextCallForStatus ''running'' cid, cr_previous = None, cr_markers = [], cr_distilled = False\<rparr>"

text \<open>
  \<open>runPreparedWithWait\<close>: \<open>inTime\<close> says whether the worker finished before the wait ran out; if not, the
  answer is the running result and the worker's effects come later.
\<close>

definition runPreparedWithWait ::
  "run_cfg \<Rightarrow> faults \<Rightarrow> run_ctx \<Rightarrow> string \<Rightarrow> string \<Rightarrow> string \<Rightarrow> int \<Rightarrow> filter_spec \<Rightarrow> string \<Rightarrow> int \<Rightarrow> bool \<Rightarrow> proc
     \<Rightarrow> history \<Rightarrow> disk \<Rightarrow> (string, cmd_result) result \<times> history \<times> disk" where
  "runPreparedWithWait g io ctx cid cmd cwd waitS flt repo started inTime proc h d =
     (case applyFilter (rg_compile g) [] flt of
        Inl e \<Rightarrow> (Inl e, h, d)
      | Inr fl \<Rightarrow>
          (if waitS \<le> 0 then executePrepared g io ctx cid cmd cwd flt repo started proc h d
           else (case Put (rg_env g) io (running_record g ctx cid cmd cwd repo started) h d of
                   (Some e, h1, d1) \<Rightarrow> (Inl e, h1, d1)
                 | (None, h1, d1) \<Rightarrow>
                     (if inTime then executePrepared g io ctx cid cmd cwd flt repo started proc h1 d1
                      else (Inr (running_result g ctx cid cmd cwd (waitS * 1000)), h1, d1)))))"

section \<open>Abort\<close>

record AbortResult =
  ab_status :: string
  ab_id :: string
  ab_reason :: string

definition record_status :: "(string, hist_record option) result \<Rightarrow> string option" where
  "record_status q = (case q of Inr (Some r) \<Rightarrow> Some (r_status r) | _ \<Rightarrow> None)"

text \<open>
  \<open>tracked\<close>: the runner still has the process; \<open>published\<close>: its worker closed \<open>done\<close> before
  \<open>abortStatusWait\<close> ran out.  The lookup happens after that, on the history and disk of that moment.
\<close>

definition Abort ::
  "henv \<Rightarrow> bool \<Rightarrow> bool \<Rightarrow> history \<Rightarrow> disk \<Rightarrow> string \<Rightarrow> (string, AbortResult) result \<times> history" where
  "Abort env tracked published h d cid =
     (if TrimSpace cid = [] then (Inl ''command_id is required'', h)
      else if \<not> tracked then
        (case getRecord env h d cid of
           (Inl e, h1) \<Rightarrow> (Inl e, h1)
         | (Inr None, h1) \<Rightarrow> (Inr \<lparr>ab_status = ''not_found'', ab_id = cid, ab_reason = ''no such command''\<rparr>, h1)
         | (Inr (Some r), h1) \<Rightarrow>
             (if r_status r = ''running''
              then (Inr \<lparr>ab_status = ''running'', ab_id = cid, ab_reason = ''terminal state publication is pending''\<rparr>, h1)
              else (Inr \<lparr>ab_status = ''already_completed'', ab_id = cid, ab_reason = ''command already finished''\<rparr>, h1)))
      else if published then
        (case getRecord env h d cid of
           (Inl e, h1) \<Rightarrow> (Inl e, h1)
         | (Inr q, h1) \<Rightarrow>
             (if record_status (Inr q) = Some ''running''
              then (Inr \<lparr>ab_status = ''running'', ab_id = cid, ab_reason = ''terminal state publication is pending''\<rparr>, h1)
              else (Inr \<lparr>ab_status = ''ok'', ab_id = cid, ab_reason = []\<rparr>, h1)))
      else (Inr \<lparr>ab_status = ''running'', ab_id = cid,
              ab_reason = ''cancellation requested; terminal state publication is pending''\<rparr>, h))"

section \<open>Runners\<close>

text \<open>\<open>NewRunnerWithMask\<close>: the history a runner of this policy keeps.\<close>

definition policy_history ::
  "henv \<Rightarrow> (string, string) result \<Rightarrow> faults \<Rightarrow> (string \<Rightarrow> bool) \<Rightarrow> CommandPolicy \<Rightarrow> disk \<Rightarrow> history \<times> disk" where
  "policy_history env home io fails p d =
     (if cp_logEnabled p = Some False then (NewInMemoryHistory, d)
      else (case NewHistory env home io fails
                   \<lparr>hp_dir = cp_logDir p, hp_retention = cp_retention p, hp_maxRecords = cp_maxRecords p, hp_compress = cp_compress p\<rparr> d of
              (Inl e, d1) \<Rightarrow> (NewInMemoryHistory, d1)
            | (Inr h, d1) \<Rightarrow> (h, d1)))"

section \<open>Facts\<close>

lemma classify_terminal: "isTerminalStatus (fst (snd (classify red oc)))"
  by (auto simp: classify_def isTerminalStatus_def split: option.splits ctx_state.splits proc_error.splits)

lemma run_record_simps [simp]:
  "r_id (run_record g ctx cid cmd cwd repo started oc o1) = cid"
  "r_status (run_record g ctx cid cmd cwd repo started oc o1) = fst (snd (classify (run_redact g ctx) oc))"
  "r_exit (run_record g ctx cid cmd cwd repo started oc o1) = fst (classify (run_redact g ctx) oc)"
  "r_command (run_record g ctx cid cmd cwd repo started oc o1) = maskText (rg_mask g) ctx cmd"
  "r_created (run_record g ctx cid cmd cwd repo started oc o1) = 0"
  by (simp_all add: run_record_def Let_def split: prod.splits)

lemma run_result_simps [simp]:
  "cr_status (run_result g r fl ft h d) = r_status r"
  "cr_exit (run_result g r fl ft h d) = r_exit r"
  "cr_id (run_result g r fl ft h d) = r_id r"
  "cr_markers (run_result g r fl ft h d) = maskedFailureMarkers (r_exit r) (r_combined r)"
  "cr_stdoutTail (run_result g r fl ft h d) = tail80 (r_stdout r)"
  "cr_stderrTail (run_result g r fl ft h d) = tail80 (r_stderr r)"
  by (simp_all add: run_result_def Let_def)

lemma stamped_simps [simp]:
  "r_id (stamped env r) = r_id r" "r_status (stamped env r) = r_status r" "r_exit (stamped env r) = r_exit r"
  "r_combined (stamped env r) = r_combined r" "r_stdout (stamped env r) = r_stdout r" "r_stderr (stamped env r) = r_stderr r"
  "r_hash (stamped env r) = r_hash r" "r_command (stamped env r) = r_command r"
  by (simp_all add: stamped_def)

lemma Put_ok_cached: "Put env io r h d = (None, h1, d1) \<Longrightarrow> h1 = set_cached (r_id r) (stamped env r) h"
  by (auto simp: Put_def Let_def put_append_def split: if_splits prod.splits sum.splits option.splits)

definition started_process :: "run_cfg \<Rightarrow> run_ctx \<Rightarrow> string \<Rightarrow> string \<Rightarrow> (string, launch) result" where
  "started_process g ctx cmd cwd =
     (case resolve_program (\<lambda>e. run_redact g ctx (rg_showErr g e)) ctx cmd of
        Inl e \<Rightarrow> Inl e
      | Inr (prog, stdin) \<Rightarrow> Inr \<lparr>lc_program = prog, lc_stdin = stdin, lc_env = process_env (rg_osEnv g) ctx, lc_dir = cwd\<rparr>)"

lemma executePrepared_ok:
  assumes "executePrepared g io ctx cid cmd cwd flt repo started proc h d = (Inr res, h2, d2)"
  obtains lc oc o1 h1 r fl ft where
    "started_process g ctx cmd cwd = Inr lc" "oc = proc lc"
    "feed_output (rg_env g) (run_redact g ctx) cid (oc_writes oc) (newTailOutput (cp_maxOutput (rg_policy g))) h = (o1, h1)"
    "r = run_record g ctx cid cmd cwd repo started oc o1"
    "applyFilter (rg_compile g) (r_combined r) flt = Inr (fl, ft)"
    "h2 = set_cached cid (stamped (rg_env g) r) h1" "res = run_result g r fl ft h2 d2"
proof -
  obtain prog stdin where p: "resolve_program (\<lambda>e. run_redact g ctx (rg_showErr g e)) ctx cmd = Inr (prog, stdin)"
    using assms by (auto simp: executePrepared_def split: sum.splits prod.splits)
  let ?lc = "\<lparr>lc_program = prog, lc_stdin = stdin, lc_env = process_env (rg_osEnv g) ctx, lc_dir = cwd\<rparr>"
  let ?oc = "proc ?lc"
  obtain o1 h1 where f: "feed_output (rg_env g) (run_redact g ctx) cid (oc_writes ?oc) (newTailOutput (cp_maxOutput (rg_policy g))) h = (o1, h1)"
    by fastforce
  let ?r = "run_record g ctx cid cmd cwd repo started ?oc o1"
  obtain fl ft where a: "applyFilter (rg_compile g) (r_combined ?r) flt = Inr (fl, ft)"
    using assms p f by (auto simp: executePrepared_def Let_def split: sum.splits prod.splits)
  have pu: "Put (rg_env g) io ?r h1 d = (None, h2, d2)" "res = run_result g ?r fl ft h2 d2"
    using assms p f a by (auto simp: executePrepared_def Let_def split: prod.splits option.splits)
  have l: "started_process g ctx cmd cwd = Inr ?lc" using p by (simp add: started_process_def)
  show thesis
    using that [OF l refl f refl a _ pu(2)] Put_ok_cached [OF pu(1)] by simp
qed

lemma feed_output_tail:
  "fst (feed_output env red cid ws o1 h) = tail_writes ws o1"
  by (induction ws arbitrary: o1 h) (auto simp: Let_def split: prod.splits)

section \<open>Redaction of lines\<close>

lemma Contains_trans: "Contains a b \<Longrightarrow> Contains b c \<Longrightarrow> Contains a c"
  by (meson Contains_sublist sublist_order.order.trans)

lemma Contains_Cons: "Contains s v \<Longrightarrow> Contains (c # s) v"
  by (metis Contains_iff append_Cons)

lemma crlf_lines:
  "SplitChar LF (ReplaceAll t CRLF [LF]) = p # ps \<Longrightarrow> HasPrefix t p \<and> (\<forall>q \<in> set ps. Contains t q)"
proof (induction "length t" arbitrary: t p ps rule: less_induct)
  case less
  show ?case
  proof (cases t)
    case Nil
    then show ?thesis using less.prems by simp
  next
    case (Cons c u)
    show ?thesis
    proof (cases "HasPrefix t CRLF")
      case True
      then obtain w where w: "t = CR # LF # w" by (auto simp: HasPrefix_iff)
      obtain q qs where q: "SplitChar LF (ReplaceAll w CRLF [LF]) = q # qs"
        using SplitChar_ne by (metis list.exhaust)
      have IH: "HasPrefix w q \<and> (\<forall>x \<in> set qs. Contains w x)" using less.hyps [OF _ q] w by simp
      have "p = [] \<and> ps = q # qs"
        using less.prems q by (simp add: w ReplaceAll_Cons)
      moreover have "Contains w q" using IH by (metis Contains_iff HasPrefix_iff append_Nil)
      ultimately show ?thesis using IH w by (auto intro: Contains_Cons)
    next
      case False
      obtain q qs where q: "SplitChar LF (ReplaceAll u CRLF [LF]) = q # qs"
        using SplitChar_ne by (metis list.exhaust)
      have IH: "HasPrefix u q \<and> (\<forall>x \<in> set qs. Contains u x)" using less.hyps [OF _ q] Cons by simp
      have r: "ReplaceAll t CRLF [LF] = c # ReplaceAll u CRLF [LF]"
        using False Cons by (simp add: ReplaceAll_Cons)
      have uq: "Contains u q" using IH by (metis Contains_iff HasPrefix_iff append_Nil)
      show ?thesis
      proof (cases "c = LF")
        case True
        then have "p = [] \<and> ps = q # qs" using less.prems q unfolding r by simp
        then show ?thesis using IH uq Cons by (auto intro: Contains_Cons)
      next
        case False
        then have "p = c # q \<and> ps = qs" using less.prems q unfolding r by simp
        then show ?thesis using IH Cons by (auto intro: Contains_Cons)
      qed
    qed
  qed
qed

lemma normalizeLines_contained: "l \<in> set (normalizeLines t) \<Longrightarrow> Contains t l"
proof -
  assume "l \<in> set (normalizeLines t)"
  then have l: "l \<in> set (SplitChar LF (ReplaceAll t CRLF [LF]))" by (simp add: normalizeLines_def)
  then obtain p ps where p: "SplitChar LF (ReplaceAll t CRLF [LF]) = p # ps"
    by (metis list.exhaust SplitChar_ne)
  have "HasPrefix t p \<and> (\<forall>q \<in> set ps. Contains t q)" by (rule crlf_lines [OF p])
  moreover have "HasPrefix t p \<Longrightarrow> Contains t p" by (metis Contains_iff HasPrefix_iff append_Nil)
  ultimately show ?thesis using l p by auto
qed

definition all_secrets :: "run_cfg \<Rightarrow> run_ctx \<Rightarrow> Mask" where
  "all_secrets g ctx = snapshot (rg_mask g) @ snapshot (rx_mask ctx)"

lemma apply_opt_snapshot: "apply_opt m s = ApplyMask (snapshot m) s"
  by (cases m) (simp_all add: apply_opt_def snapshot_def ApplyMask_def)

lemma masks_compose: "apply_opt (rx_mask ctx) (apply_opt (rg_mask g) s) = ApplyMask (all_secrets g ctx) s"
  by (simp add: apply_opt_snapshot all_secrets_def ApplyMask_def)

lemma masked_hides:
  assumes "maskable (all_secrets g ctx)" "sec \<in> set (all_secrets g ctx)"
  shows "\<not> Contains (run_redact g ctx t) (ns_value sec)" "\<not> Contains (maskText (rg_mask g) ctx t) (ns_value sec)"
  using ApplyMask_hides [OF maskable_isolated [OF assms(1)] assms(2)]
  by (simp_all add: run_redact_def redactOutput_def maskText_def masks_compose)

lemma masked_lines:
  assumes "maskable (all_secrets g ctx)" "sec \<in> set (all_secrets g ctx)" "l \<in> set (normalizeLines (run_redact g ctx t))"
  shows "\<not> Contains l (ns_value sec)"
  using masked_hides(1) [OF assms(1,2), of t] normalizeLines_contained [OF assms(3)] Contains_trans by blast

lemma set_tail80: "set (tail80 xs) \<subseteq> set xs"
  using set_drop_subset by (auto simp: tail80_def tailN_def dest: in_set_dropD)

lemma run_record_lines:
  "\<exists>out err er. r_stdout (run_record g ctx cid cmd cwd repo started oc o1) = normalizeLines (run_redact g ctx out)
     \<and> set (r_stderr (run_record g ctx cid cmd cwd repo started oc o1)) \<subseteq> insert (run_redact g ctx er) (set (normalizeLines (run_redact g ctx err)))"
proof -
  have "snd (snd (classify (run_redact g ctx) oc)) = [] \<or> (\<exists>t. snd (snd (classify (run_redact g ctx) oc)) = run_redact g ctx t)"
    by (auto simp: classify_def split: option.splits ctx_state.splits proc_error.splits)
  then obtain t where t: "snd (snd (classify (run_redact g ctx) oc)) = [] \<or> snd (snd (classify (run_redact g ctx) oc)) = run_redact g ctx t"
    by blast
  obtain code st er where c: "classify (run_redact g ctx) oc = (code, st, er)" by (metis prod_cases3)
  obtain out err trunc where s: "snapshotLocked (run_redact g ctx) o1 = (out, err, trunc)" by (metis prod_cases3)
  show ?thesis
    using t by (intro exI [where x = out] exI [where x = err] exI [where x = t])
      (auto simp: run_record_def Let_def c s)
qed

section \<open>Properties\<close>

text \<open>
  Claim C18: the status a run reports is final and is the truth about the process.  A run that returns
  a result has a terminal status, \<open>ok\<close> exactly when the process it started ended without an error; and every
  later lookup of the command in this helper, whatever other operations and late output updates come
  in between, returns a record with that same status and exit code.
\<close>

theorem run_status_final:
  assumes "executePrepared g io ctx cid cmd cwd flt repo started proc h d = (Inr res, h2, d2)"
    "list_all (\<lambda>e. \<not> puts_id cid e) es"
  shows "isTerminalStatus (cr_status res)
     \<and> (\<exists>lc. started_process g ctx cmd cwd = Inr lc \<and> (cr_status res = ''ok'') = (oc_error (proc lc) = None))
     \<and> (case getRecord env (hist_events compile env es h2) d3 cid of
          (Inr (Some r), h3) \<Rightarrow> r_status r = cr_status res \<and> r_exit r = cr_exit res
        | _ \<Rightarrow> False)"
proof -
  obtain lc oc o1 h1 r fl ft where E: "r = run_record g ctx cid cmd cwd repo started oc o1"
      "h2 = set_cached cid (stamped (rg_env g) r) h1" "res = run_result g r fl ft h2 d2"
      and L: "started_process g ctx cmd cwd = Inr lc" "oc = proc lc"
    using executePrepared_ok [OF assms(1)] by metis
  have t: "isTerminalStatus (r_status (stamped (rg_env g) r))"
    by (simp add: E(1) classify_terminal)
  have c: "get_cached h2 cid = Some (stamped (rg_env g) r)" by (simp add: E(2))
  have "get_cached (hist_events compile env es h2) cid = Some (stamped (rg_env g) r)"
    by (rule hist_events_terminal [OF c t assms(2)])
  then have "getRecord env (hist_events compile env es h2) d3 cid
      = (Inr (Some (stamped (rg_env g) r)), hist_events compile env es h2)"
    using t by (rule getRecord_terminal_cached)
  moreover have "(fst (snd (classify (run_redact g ctx) oc)) = ''ok'') = (oc_error oc = None)"
    by (auto simp: classify_def split: option.splits ctx_state.splits proc_error.splits)
  ultimately show ?thesis using t by (simp add: E(1,3) L)
qed

definition cfg_ex :: run_cfg where
  "cfg_ex = \<lparr>rg_env = env_ex (rec_ex ''a'' ''ok'' 3) kept_ex, rg_compile = Inl, rg_redact = (\<lambda>s. s), rg_showErr = (\<lambda>e. []), rg_osEnv = [],
     rg_policy = policy_ex, rg_mask = Some [\<lparr>ns_value = ''hunter2'', ns_name = ''db''\<rparr>]\<rparr>"

definition ctx_ex :: run_ctx where
  "ctx_ex = \<lparr>rx_envs = [], rx_mask = None, rx_exec = None\<rparr>"

definition outcome_ex :: outcome where
  "outcome_ex = \<lparr>oc_writes = [], oc_error = Some (ExitErr 2), oc_ctx = CtxLive, oc_completed = 9\<rparr>"

lemma execute_ex:
  "\<exists>res h2 d2. executePrepared cfg_ex (\<lambda>st. None) ctx_ex ''a'' ''true'' ''/r'' emptyFilter [] 1 (\<lambda>lc. outcome_ex) NewInMemoryHistory empty_disk
     = (Inr res, h2, d2)"
proof -
  have "\<not> is_space (CHR ''a'')" by (simp add: byte_defs)
  then have p: "Put env io (run_record g ctx ''a'' cmd cwd repo started oc o1) NewInMemoryHistory d
      = (None, set_cached ''a'' (stamped env (run_record g ctx ''a'' cmd cwd repo started oc o1)) NewInMemoryHistory, d)"
    for env io g ctx cmd cwd repo started oc o1 d
    by (simp add: Put_def Let_def TrimSpace_def TrimP_def TrimRightP_def TrimLeftP_def NewInMemoryHistory_def)
  have f: "applyFilter c ls emptyFilter = Inr ([], False)" for c ls
    by (simp add: applyFilter_def normalizeFilter_def rename_preset_def apply_preset_def summary_context_def emptyFilter_def
        hasPositiveSelectors_def appendUniqueStrings_def preset_packs_def)
  show ?thesis
    by (simp add: executePrepared_def resolve_program_def ctx_ex_def execFromContext_def emptyExec_def outcome_ex_def p f Let_def)
qed

theorem run_status_final_witness:
  "\<exists>res h2 d2. executePrepared cfg_ex (\<lambda>st. None) ctx_ex ''a'' ''true'' ''/r'' emptyFilter [] 1 (\<lambda>lc. outcome_ex) NewInMemoryHistory empty_disk
     = (Inr res, h2, d2) \<and> isTerminalStatus (cr_status res) \<and> cr_status res \<noteq> ''ok''"
proof -
  obtain res h2 d2 where e: "executePrepared cfg_ex (\<lambda>st. None) ctx_ex ''a'' ''true'' ''/r'' emptyFilter [] 1 (\<lambda>lc. outcome_ex) NewInMemoryHistory empty_disk
     = (Inr res, h2, d2)"
    using execute_ex by blast
  have "isTerminalStatus (cr_status res) \<and> (cr_status res = ''ok'') = (oc_error outcome_ex = None)"
    using run_status_final [OF e, of "[]"] by auto
  with e show ?thesis by (auto simp: outcome_ex_def)
qed

text \<open>
  Claim C19: no registered secret reaches the retained streams or the command text of a result.  With
  secrets that avoid the token brackets and are no part of a token, in the runner's mask or the
  request's, no line of the two tails and no part of the recorded command contains a secret value,
  however the output was chunked.
\<close>

theorem run_hides_secrets:
  assumes "executePrepared g io ctx cid cmd cwd flt repo started proc h d = (Inr res, h2, d2)"
    "maskable (all_secrets g ctx)" "sec \<in> set (all_secrets g ctx)"
  shows "list_all (\<lambda>l. \<not> Contains l (ns_value sec)) (cr_stdoutTail res @ cr_stderrTail res)
     \<and> \<not> Contains (cr_command res) (ns_value sec)"
proof -
  obtain lc oc o1 h1 r fl ft where E: "r = run_record g ctx cid cmd cwd repo started oc o1" "res = run_result g r fl ft h2 d2"
    using executePrepared_ok [OF assms(1)] by metis
  obtain out err er where L: "r_stdout r = normalizeLines (run_redact g ctx out)"
      "set (r_stderr r) \<subseteq> insert (run_redact g ctx er) (set (normalizeLines (run_redact g ctx err)))"
    using run_record_lines E(1) by metis
  have "\<forall>l \<in> set (cr_stdoutTail res) \<union> set (cr_stderrTail res). \<not> Contains l (ns_value sec)"
    using L set_tail80 masked_lines [OF assms(2,3)] masked_hides(1) [OF assms(2,3)] E(2) by fastforce
  moreover have "cr_command res = maskText (rg_mask g) ctx cmd"
    using E by (simp add: run_result_def Let_def)
  ultimately show ?thesis using masked_hides(2) [OF assms(2,3)] by (auto simp: list_all_iff)
qed

theorem run_hides_secrets_witness:
  "\<exists>res h2 d2. executePrepared cfg_ex (\<lambda>st. None) ctx_ex ''a'' ''true'' ''/r'' emptyFilter [] 1 (\<lambda>lc. outcome_ex) NewInMemoryHistory empty_disk
     = (Inr res, h2, d2) \<and> \<not> Contains (cr_command res) ''hunter2''"
proof -
  obtain res h2 d2 where e: "executePrepared cfg_ex (\<lambda>st. None) ctx_ex ''a'' ''true'' ''/r'' emptyFilter [] 1 (\<lambda>lc. outcome_ex) NewInMemoryHistory empty_disk
     = (Inr res, h2, d2)"
    using execute_ex by blast
  have s: "all_secrets cfg_ex ctx_ex = [\<lparr>ns_value = ''hunter2'', ns_name = ''db''\<rparr>]"
    by (simp add: all_secrets_def cfg_ex_def ctx_ex_def snapshot_def)
  have "maskable (all_secrets cfg_ex ctx_ex)"
    unfolding s by (simp add: maskable_def mask_token_def Contains_def)
  then show ?thesis using run_hides_secrets [OF e, of "\<lparr>ns_value = ''hunter2'', ns_name = ''db''\<rparr>"] e s by auto
qed

text \<open>
  Claim C20: an abort that answers \<open>ok\<close> is final.  Once \<open>Abort\<close> has reported \<open>ok\<close> for a command that has a
  record with a status, no later lookup in this helper reports the command as running.
\<close>

theorem abort_ok_final:
  assumes "Abort env tracked published h d cid = (Inr a, h1)" "ab_status a = ''ok''"
    "fst (getRecord env h d cid) = Inr (Some r)" "r_status r \<noteq> []" "h_root h \<noteq> []"
    "list_all (\<lambda>e. \<not> puts_id cid e) es"
  shows "record_status (fst (getRecord env2 (hist_events compile env2 es h1) d2 cid)) = Some (r_status r) \<and> r_status r \<noteq> ''running''"
proof -
  have g: "getRecord env h d cid = (Inr (Some r), h1)" "r_status r \<noteq> ''running''"
    using assms(1,2,3) by (auto simp: Abort_def record_status_def split: if_splits prod.splits sum.splits option.splits)
  have t: "isTerminalStatus (r_status r)" using g(2) assms(4) by (simp add: isTerminalStatus_def)
  have "get_cached h1 cid = Some r"
    using g(1) t by (auto simp: getRecord_def Let_def split: if_splits option.splits sum.splits)
  from getRecord_terminal_cached [OF hist_events_terminal [OF this t assms(6)] t]
  show ?thesis using g(2) by (simp add: record_status_def)
qed

theorem abort_ok_final_witness:
  "record_status (fst (getRecord (env_ex (rec_ex ''a'' ''aborted'' 3) kept_ex)
     (snd (Abort (env_ex (rec_ex ''a'' ''aborted'' 3) kept_ex) True True (set_cached ''a'' (rec_ex ''a'' ''aborted'' 3) helper_ex) empty_disk ''a''))
     empty_disk ''a'')) = Some ''aborted''"
proof -
  let ?env = "env_ex (rec_ex ''a'' ''aborted'' 3) kept_ex"
  let ?h = "set_cached ''a'' (rec_ex ''a'' ''aborted'' 3) helper_ex"
  have g: "getRecord ?env ?h empty_disk ''a'' = (Inr (Some (rec_ex ''a'' ''aborted'' 3)), ?h)"
    by (rule getRecord_terminal_cached) (simp_all add: rec_ex_def isTerminalStatus_def)
  have "\<not> is_space (CHR ''a'')" by (simp add: byte_defs)
  then have a: "Abort ?env True True ?h empty_disk ''a'' = (Inr \<lparr>ab_status = ''ok'', ab_id = ''a'', ab_reason = []\<rparr>, ?h)"
    by (simp add: Abort_def g record_status_def TrimSpace_def TrimP_def TrimRightP_def TrimLeftP_def) (simp add: rec_ex_def)
  show ?thesis
    using abort_ok_final [OF a, of "rec_ex ''a'' ''aborted'' 3" "[]" ?env undefined empty_disk]
    by (simp add: a g) (simp add: rec_ex_def helper_ex_def)
qed

text \<open>
  Claim C21: argument vectors never become shell source.  A request \<open>RunArgv\<close> accepts starts exactly
  the given vector, byte for byte and without a shell, whatever display command it is recorded
  under, or, when template variables are set too, starts nothing.
\<close>

theorem argv_never_shell:
  "case argv_request ctx argv of
     Inl e \<Rightarrow> True
   | Inr (ctx', display) \<Rightarrow>
       shell_split None False display = Some argv
       \<and> resolve_program show_err ctx' cmd \<in> {Inr (Direct argv, ex_stdin (execFromContext ctx)),
             Inl ''argv execution does not support template variables''}"
  by (auto simp: argv_request_def Let_def resolve_program_def execFromContext_def quoteArgv_faithful split: if_splits)

text \<open>
  The recorded display is masked after quoting, and quoting rewrites a quote inside a secret: such a
  secret is not found by its mask.
\<close>

lemma quoted_secret_not_masked:
  "ApplyMask [\<lparr>ns_value = ''pa'ss'', ns_name = ''db''\<rparr>] (quoteArgv [''login'', ''pa'ss''])
   = quoteArgv [''login'', ''pa'ss'']"
  by code_simp

end
