(* ===== verification/Coordinator.thy ===== *)
theory Coordinator
  imports Runner
begin

text \<open>
  Package \<open>command\<close>, \<open>coordinator.go\<close>: one coordinator owns a base runner, the current runner of each
  repository and the retired runners.  Runners are shared by pointer, so they live in a store and the
  coordinator holds their indices; a command may start or end on any of them while others resolve.
  The coordinator's mutex makes \<open>ForRepo\<close>, \<open>Reset\<close> and \<open>snapshot\<close> atomic.  The order in which Go iterates
  a map is an argument.
\<close>

section \<open>Runners\<close>

text \<open>\<open>rn_running\<close> are the keys of the process tracker \<open>running\<close>.\<close>

record crunner =
  rn_policy :: CommandPolicy
  rn_mask :: "Mask option"
  rn_history :: history
  rn_running :: "string list"

text \<open>What the operating system gives a new runner.\<close>

record helper_env =
  he_env :: henv
  he_home :: "(string, string) result"
  he_io :: faults
  he_fails :: "string \<Rightarrow> bool"

definition emptyPolicy :: CommandPolicy where
  "emptyPolicy = \<lparr>cp_timeout = 0, cp_maxOutput = 0, cp_maxLines = 0, cp_cwds = None, cp_logDir = [], cp_logEnabled = None,
     cp_retention = 0, cp_maxRecords = 0, cp_compress = False, cp_protected = [], cp_markers = None, cp_deny = []\<rparr>"

record coordinator =
  co_base :: nat
  co_current :: "(string \<times> nat) list"
  co_retired :: "nat list"

record cworld =
  w_runners :: "crunner list"
  w_disk :: disk
  w_coord :: coordinator

definition NewRunnerWithMask ::
  "helper_env \<Rightarrow> CommandPolicy \<Rightarrow> Mask option \<Rightarrow> crunner list \<times> disk \<Rightarrow> nat \<times> crunner list \<times> disk" where
  "NewRunnerWithMask b p m s =
     (case s of (rs, d) \<Rightarrow>
       (case policy_history (he_env b) (he_home b) (he_io b) (he_fails b) p d of
          (h, d1) \<Rightarrow> (length rs, rs @ [\<lparr>rn_policy = p, rn_mask = m, rn_history = h, rn_running = []\<rparr>], d1)))"

definition runner_tracks :: "string \<Rightarrow> crunner \<Rightarrow> bool" where
  "runner_tracks cid r \<longleftrightarrow> cid \<in> set (rn_running r)"

text \<open>\<open>knowsCommand\<close>: the lookup may put a terminal record in the runner's cache.\<close>

definition runner_knows :: "henv \<Rightarrow> disk \<Rightarrow> string \<Rightarrow> crunner \<Rightarrow> bool \<times> crunner" where
  "runner_knows env d cid r =
     (case getRecord env (rn_history r) d cid of
        (q, h) \<Rightarrow> ((case q of Inr (Some x) \<Rightarrow> True | _ \<Rightarrow> False), r\<lparr>rn_history := h\<rparr>))"

section \<open>The registry\<close>

definition NewCoordinator :: "helper_env \<Rightarrow> nat option \<Rightarrow> crunner list \<times> disk \<Rightarrow> cworld" where
  "NewCoordinator b base s =
     (case (case base of Some i \<Rightarrow> (i, s) | None \<Rightarrow> NewRunnerWithMask b emptyPolicy None s) of
        (i, rs, d) \<Rightarrow> \<lparr>w_runners = rs, w_disk = d, w_coord = \<lparr>co_base = i, co_current = [], co_retired = []\<rparr>\<rparr>)"

definition ForRepo :: "helper_env \<Rightarrow> string \<Rightarrow> CommandPolicy \<Rightarrow> Mask option \<Rightarrow> cworld \<Rightarrow> nat \<times> cworld" where
  "ForRepo b repoPath p m w =
     (let key = Clean repoPath; c = w_coord w; old = map_of (co_current c) key;
          create = (case NewRunnerWithMask b p m (w_runners w, w_disk w) of
                      (i, rs, d) \<Rightarrow>
                        (i, w\<lparr>w_runners := rs, w_disk := d,
                              w_coord := c\<lparr>co_retired := (case old of Some j \<Rightarrow> co_retired c @ [j] | None \<Rightarrow> co_retired c),
                                           co_current := AList.update key i (co_current c)\<rparr>\<rparr>))
      in case old of
           Some j \<Rightarrow> (if rn_policy (w_runners w ! j) = p \<and> MaskEqual (rn_mask (w_runners w ! j)) m then (j, w) else create)
         | None \<Rightarrow> create)"

text \<open>\<open>order\<close>: the current runners in the order in which the loop meets them.\<close>

definition Reset :: "helper_env \<Rightarrow> nat option \<Rightarrow> nat list \<Rightarrow> cworld \<Rightarrow> cworld" where
  "Reset b base order w =
     (case (case base of Some i \<Rightarrow> (i, w_runners w, w_disk w) | None \<Rightarrow> NewRunnerWithMask b emptyPolicy None (w_runners w, w_disk w)) of
        (i, rs, d) \<Rightarrow>
          w\<lparr>w_runners := rs, w_disk := d,
            w_coord := \<lparr>co_base = i, co_current = [],
                        co_retired = co_base (w_coord w) # order @ co_retired (w_coord w)\<rparr>\<rparr>)"

definition coord_snapshot :: "coordinator \<Rightarrow> nat list" where
  "coord_snapshot c =
     co_base c # map (\<lambda>k. the (map_of (co_current c) k)) (sort (map fst (co_current c))) @ co_retired c"

section \<open>Resolution\<close>

text \<open>Ask one runner after the other until one answers yes; each may change its own state.\<close>

fun ask :: "('r \<Rightarrow> bool \<times> 'r) \<Rightarrow> nat list \<Rightarrow> 'r list \<Rightarrow> nat option \<times> 'r list" where
  "ask knows [] rs = (None, rs)"
| "ask knows (i # is) rs =
     (case knows (rs ! i) of
        (yes, r) \<Rightarrow> (if yes then (Some i, rs[i := r]) else ask knows is (rs[i := r])))"

definition Resolve :: "henv \<Rightarrow> string \<Rightarrow> cworld \<Rightarrow> nat \<times> cworld" where
  "Resolve env cid w =
     (let ids = coord_snapshot (w_coord w) in
      case find (\<lambda>i. runner_tracks cid (w_runners w ! i)) ids of
        Some i \<Rightarrow> (i, w)
      | None \<Rightarrow>
          (case ask (runner_knows env (w_disk w) cid) ids (w_runners w) of
             (Some i, rs) \<Rightarrow> (i, w\<lparr>w_runners := rs\<rparr>)
           | (None, rs) \<Rightarrow> (hd ids, w\<lparr>w_runners := rs\<rparr>)))"

section \<open>Everything that can happen to a coordinator\<close>

datatype cop =
    OForRepo string CommandPolicy "Mask option"
  | OReset "nat option"
  | ONewRunner CommandPolicy "Mask option"
  | OResolve string
  | OHistory nat hist_event
  | OStart nat string
  | OEnd nat string
  | ODisk

definition upd_runner :: "nat \<Rightarrow> (crunner \<Rightarrow> crunner) \<Rightarrow> cworld \<Rightarrow> cworld" where
  "upd_runner i f w = w\<lparr>w_runners := (w_runners w)[i := f (w_runners w ! i)]\<rparr>"

inductive cstep :: "cworld \<Rightarrow> cop \<Rightarrow> cworld \<Rightarrow> bool" where
  for_repo: "cstep w (OForRepo repo p m) (snd (ForRepo b repo p m w))"
| reset: "mset order = mset (map snd (co_current (w_coord w))) \<Longrightarrow> (\<And>i. base = Some i \<Longrightarrow> i < length (w_runners w)) \<Longrightarrow>
    cstep w (OReset base) (Reset b base order w)"
| new_runner: "NewRunnerWithMask b p m (w_runners w, w_disk w) = (i, rs, d) \<Longrightarrow>
    cstep w (ONewRunner p m) (w\<lparr>w_runners := rs, w_disk := d\<rparr>)"
| resolve: "cstep w (OResolve cid) (snd (Resolve env cid w))"
| history: "i < length (w_runners w) \<Longrightarrow>
    cstep w (OHistory i e) (upd_runner i (\<lambda>r. r\<lparr>rn_history := hist_act compile env e (rn_history r)\<rparr>) w)"
| start: "i < length (w_runners w) \<Longrightarrow>
    cstep w (OStart i cid) (upd_runner i (\<lambda>r. r\<lparr>rn_running := List.insert cid (rn_running r)\<rparr>) w)"
| finish: "i < length (w_runners w) \<Longrightarrow>
    cstep w (OEnd i cid) (upd_runner i (\<lambda>r. r\<lparr>rn_running := removeAll cid (rn_running r)\<rparr>) w)"
| other_helper: "cstep w ODisk (w\<lparr>w_disk := d\<rparr>)"

inductive csteps :: "cworld \<Rightarrow> cop list \<Rightarrow> cworld \<Rightarrow> bool" where
  csteps_nil: "csteps w [] w"
| csteps_cons: "cstep w op v \<Longrightarrow> csteps v ops u \<Longrightarrow> csteps w (op # ops) u"

inductive_cases cstep_E: "cstep w op v"
inductive_simps csteps_Nil [simp]: "csteps w [] v"
inductive_simps csteps_Cons: "csteps w (op # ops) v"

section \<open>Asking\<close>

text \<open>
  What the coordinator relies on when it asks a runner for a record: a lookup that finds nothing
  leaves the runner as it was, and one that found something finds it again.
\<close>

locale record_lookup =
  fixes knows :: "'r \<Rightarrow> bool \<times> 'r"
  assumes miss: "\<not> fst (knows r) \<Longrightarrow> snd (knows r) = r"
    and again: "fst (knows r) \<Longrightarrow> fst (knows (snd (knows r)))"
begin

lemma ask_find:
  "ask knows is rs =
     (case find (\<lambda>i. fst (knows (rs ! i))) is of
        None \<Rightarrow> (None, rs)
      | Some i \<Rightarrow> (Some i, rs[i := snd (knows (rs ! i))]))"
proof (induction "is" arbitrary: rs)
  case (Cons i "is")
  show ?case
  proof (cases "fst (knows (rs ! i))")
    case True
    then show ?thesis by (simp add: case_prod_beta)
  next
    case False
    then have "snd (knows (rs ! i)) = rs ! i" by (rule miss)
    with False show ?thesis by (simp add: case_prod_beta Cons.IH split: option.split)
  qed
qed simp

lemma ask_stable:
  assumes "ask knows is rs = (Some i, rs')" "i < length rs"
  shows "fst (ask knows is rs') = Some i"
proof -
  have f: "find (\<lambda>i. fst (knows (rs ! i))) is = Some i" "rs' = rs[i := snd (knows (rs ! i))]"
    using assms(1) by (auto simp: ask_find split: option.splits)
  have "find (\<lambda>j. fst (knows (rs' ! j))) is = find (\<lambda>j. fst (knows (rs ! j))) is"
  proof (rule find_cong)
    fix j
    show "fst (knows (rs' ! j)) = fst (knows (rs ! j))"
      using f again [of "rs ! i"] assms(2) by (cases "j = i") (auto simp: find_Some_iff)
  qed simp
  with f show ?thesis by (simp add: ask_find)
qed

end

text \<open>A lookup that finds nothing caches nothing.\<close>

lemma getRecord_miss:
  assumes "getRecord env h d cid = (q, h')" "\<And>x. q \<noteq> Inr (Some x)"
  shows "h' = h"
proof (cases "h_root h = [] \<or> (case get_cached h cid of None \<Rightarrow> False | Some c \<Rightarrow> isTerminalStatus (r_status c))")
  case True
  then show ?thesis using assms(1) by (simp add: getRecord_def Let_def)
next
  case False
  note run = assms(1) [unfolded getRecord_def Let_def if_not_P [OF False]]
  obtain found where found: "durableRecord env h d cid = found" by blast
  show ?thesis
    using run [unfolded found] assms(2) by (cases found; cases "projr found"; cases "get_cached h cid") (auto split: if_splits)
qed

interpretation lookup: record_lookup "runner_knows env d cid" for env d cid
proof
  show "\<not> fst (runner_knows env d cid r) \<Longrightarrow> snd (runner_knows env d cid r) = r" for r
    using getRecord_miss [of env "rn_history r" d cid]
    by (cases "getRecord env (rn_history r) d cid") (auto simp: runner_knows_def split: option.splits sum.splits)
next
  show "fst (runner_knows env d cid r) \<Longrightarrow> fst (runner_knows env d cid (snd (runner_knows env d cid r)))" for r
    by (auto simp: runner_knows_def getRecord_def Let_def split: option.splits sum.splits if_splits prod.splits)
qed

section \<open>What stays\<close>

definition registered :: "coordinator \<Rightarrow> nat \<Rightarrow> bool" where
  "registered c i \<longleftrightarrow> i = co_base c \<or> i \<in> ran (map_of (co_current c)) \<or> i \<in> set (co_retired c)"

lemma set_snapshot: "set (coord_snapshot c) = {i. registered c i}"
proof -
  have "(\<lambda>k. the (map_of (co_current c) k)) ` fst ` set (co_current c) = ran (map_of (co_current c))"
  proof (rule set_eqI, rule iffI)
    fix i assume "i \<in> (\<lambda>k. the (map_of (co_current c) k)) ` fst ` set (co_current c)"
    then obtain k where "k \<in> fst ` set (co_current c)" "i = the (map_of (co_current c) k)" by auto
    moreover from this obtain j where "map_of (co_current c) k = Some j"
      by (metis domD dom_map_of_conv_image_fst)
    ultimately show "i \<in> ran (map_of (co_current c))" by (auto simp: ran_def)
  next
    fix i assume "i \<in> ran (map_of (co_current c))"
    then obtain k where k: "map_of (co_current c) k = Some i" by (auto simp: ran_def)
    then have "k \<in> fst ` set (co_current c)" by (metis domI dom_map_of_conv_image_fst)
    with k show "i \<in> (\<lambda>k. the (map_of (co_current c) k)) ` fst ` set (co_current c)"
      by (metis image_eqI option.sel)
  qed
  then show ?thesis by (auto simp: coord_snapshot_def registered_def)
qed

definition coord_ok :: "cworld \<Rightarrow> bool" where
  "coord_ok w \<longleftrightarrow> distinct (map fst (co_current (w_coord w))) \<and> (\<forall>i. registered (w_coord w) i \<longrightarrow> i < length (w_runners w))"

lemma NewRunner_shape:
  "NewRunnerWithMask b p m (rs, d) = (i, rs', d') \<Longrightarrow>
   i = length rs \<and> (\<exists>h. rs' = rs @ [\<lparr>rn_policy = p, rn_mask = m, rn_history = h, rn_running = []\<rparr>])"
  by (auto simp: NewRunnerWithMask_def split: prod.splits)

text \<open>What a new runner or a new base does to the store: at most one runner without commands is added.\<close>

definition grows :: "crunner list \<Rightarrow> crunner list \<Rightarrow> bool" where
  "grows rs rs' \<longleftrightarrow> rs' = rs \<or> (\<exists>r. rs' = rs @ [r] \<and> rn_running r = [])"

lemma ForRepo_cases:
  obtains (reuse) j where "map_of (co_current (w_coord w)) (Clean repo) = Some j"
      "rn_policy (w_runners w ! j) = p" "MaskEqual (rn_mask (w_runners w ! j)) m" "ForRepo b repo p m w = (j, w)"
  | (create) h d where
      "\<not> (\<exists>j. map_of (co_current (w_coord w)) (Clean repo) = Some j \<and> rn_policy (w_runners w ! j) = p
            \<and> MaskEqual (rn_mask (w_runners w ! j)) m)"
      "ForRepo b repo p m w = (length (w_runners w),
         w\<lparr>w_runners := w_runners w @ [\<lparr>rn_policy = p, rn_mask = m, rn_history = h, rn_running = []\<rparr>], w_disk := d,
           w_coord := (w_coord w)\<lparr>
             co_retired := (case map_of (co_current (w_coord w)) (Clean repo) of Some j \<Rightarrow> co_retired (w_coord w) @ [j]
                            | None \<Rightarrow> co_retired (w_coord w)),
             co_current := AList.update (Clean repo) (length (w_runners w)) (co_current (w_coord w))\<rparr>\<rparr>)"
proof (cases "\<exists>j. map_of (co_current (w_coord w)) (Clean repo) = Some j \<and> rn_policy (w_runners w ! j) = p
            \<and> MaskEqual (rn_mask (w_runners w ! j)) m")
  case True
  then show thesis using reuse by (auto simp: ForRepo_def Let_def)
next
  case False
  obtain i rs d where n: "NewRunnerWithMask b p m (w_runners w, w_disk w) = (i, rs, d)" by (metis prod_cases3)
  then obtain h where h: "i = length (w_runners w)"
      "rs = w_runners w @ [\<lparr>rn_policy = p, rn_mask = m, rn_history = h, rn_running = []\<rparr>]"
    using NewRunner_shape by blast
  show thesis
    using False n h by (intro create [OF False]) (cases "map_of (co_current (w_coord w)) (Clean repo)"; auto simp: ForRepo_def Let_def)
qed

lemma ForRepo_grows:
  "grows (w_runners w) (w_runners (snd (ForRepo b repo p m w)))"
  by (rule ForRepo_cases [of w repo p m b]) (auto simp: grows_def)

lemma ran_update: "ran (map_of (AList.update k i c)) \<subseteq> insert i (ran (map_of c))"
  by (auto simp: update_conv' ran_def split: if_splits)

lemma ran_update_keeps: "j \<in> ran (map_of c) \<Longrightarrow> map_of c k = Some j \<or> j \<in> ran (map_of (AList.update k i c))"
  by (auto simp: update_conv' ran_def)

lemma ForRepo_registered:
  "registered (w_coord w) j \<Longrightarrow> registered (w_coord (snd (ForRepo b repo p m w))) j"
proof (rule ForRepo_cases [of w repo p m b], goal_cases)
  case (2 h d)
  then show ?case
    using ran_update_keeps [of j "co_current (w_coord w)" "Clean repo" "length (w_runners w)"]
    by (auto simp: registered_def split: option.splits)
qed simp

lemma ForRepo_ok: "coord_ok w \<Longrightarrow> coord_ok (snd (ForRepo b repo p m w))"
proof (rule ForRepo_cases [of w repo p m b], goal_cases)
  case (2 h d)
  let ?v = "snd (ForRepo b repo p m w)" and ?n = "length (w_runners w)"
  have old: "map_of (co_current (w_coord w)) (Clean repo) = Some j \<Longrightarrow> registered (w_coord w) j" for j
    by (auto simp: registered_def ran_def)
  have "registered (w_coord ?v) j \<Longrightarrow> j = ?n \<or> registered (w_coord w) j" for j
    using 2(3) ran_update [of "Clean repo" ?n "co_current (w_coord w)"] old [of j]
    by (cases "map_of (co_current (w_coord w)) (Clean repo)") (auto simp: registered_def)
  moreover have "length (w_runners ?v) = Suc ?n" "distinct (map fst (co_current (w_coord ?v)))"
    using 2 by (simp_all add: coord_ok_def distinct_update)
  ultimately show ?case using 2(1) unfolding coord_ok_def by (metis less_Suc_eq)
qed simp


section \<open>Steps keep runners and commands\<close>

lemma running_update:
  "rn_running x = rn_running (rs ! i) \<Longrightarrow> rn_running (rs[i := x] ! j) = rn_running (rs ! j)"
  by (cases "i < length rs") (auto simp: nth_list_update list_update_beyond)

lemma Resolve_world:
  assumes "Resolve env cid w = (i, w')"
  shows "w_coord w' = w_coord w" "length (w_runners w') = length (w_runners w)"
    "rn_running (w_runners w' ! j) = rn_running (w_runners w ! j)"
proof -
  let ?ids = "coord_snapshot (w_coord w)"
  let ?k = "\<lambda>i. fst (runner_knows env (w_disk w) cid (w_runners w ! i))"
  have r: "rn_running (snd (runner_knows env (w_disk w) cid r)) = rn_running r" for r
    by (simp add: runner_knows_def split: prod.splits)
  have "w' = w \<or> (\<exists>i. w' = w\<lparr>w_runners := (w_runners w)[i := snd (runner_knows env (w_disk w) cid (w_runners w ! i))]\<rparr>)"
    using assms by (auto simp: Resolve_def Let_def lookup.ask_find split: option.splits)
  then show "w_coord w' = w_coord w" "length (w_runners w') = length (w_runners w)"
    "rn_running (w_runners w' ! j) = rn_running (w_runners w ! j)"
    using r by (auto simp: running_update)
qed

text \<open>Does an operation start \<open>cid\<close> on another runner than \<open>i\<close>, or end it on \<open>i\<close>?\<close>

fun leaves :: "nat \<Rightarrow> string \<Rightarrow> cop \<Rightarrow> bool" where
  "leaves i cid (OEnd j c) = (\<not> (j = i \<and> c = cid))"
| "leaves i cid (OStart j c) = (c = cid \<longrightarrow> j = i)"
| "leaves i cid op = True"

definition owned_by :: "cworld \<Rightarrow> nat \<Rightarrow> string \<Rightarrow> bool" where
  "owned_by w i cid \<longleftrightarrow> i < length (w_runners w) \<and> registered (w_coord w) i \<and>
     (\<forall>j < length (w_runners w). runner_tracks cid (w_runners w ! j) = (j = i))"

lemma grows_owned:
  assumes "owned_by w i cid" "grows (w_runners w) (w_runners v)" "registered (w_coord v) i"
  shows "owned_by v i cid"
  using assms by (auto simp: owned_by_def grows_def runner_tracks_def nth_append less_Suc_eq)

lemma Reset_shape:
  assumes "mset order = mset (map snd (co_current (w_coord w)))" "registered (w_coord w) j"
  shows "registered (w_coord (Reset b base order w)) j" "grows (w_runners w) (w_runners (Reset b base order w))"
proof -
  have "ran (map_of (co_current (w_coord w))) \<subseteq> set order"
    using mset_eq_setD [OF assms(1)] by (force simp: ran_def dest!: map_of_SomeD)
  with assms(2) show "registered (w_coord (Reset b base order w)) j"
    by (auto simp: Reset_def registered_def split: prod.splits)
  show "grows (w_runners w) (w_runners (Reset b base order w))"
    by (auto simp: Reset_def grows_def split: prod.splits option.splits dest!: NewRunner_shape)
qed


lemma cstep_owned:
  assumes "cstep w op v" "owned_by w i cid" "leaves i cid op"
  shows "owned_by v i cid"
  using assms(1)
proof (cases rule: cstep.cases)
  case (for_repo repo p m b)
  then show ?thesis
    using assms(2) grows_owned [OF assms(2) ForRepo_grows] ForRepo_registered by (auto simp: owned_by_def)
next
  case (reset order base b)
  have "registered (w_coord w) i" using assms(2) by (simp add: owned_by_def)
  from Reset_shape [OF reset(3) this] show ?thesis
    unfolding reset(2) by (intro grows_owned [OF assms(2)])
next
  case (new_runner b p m j rs d)
  then have "grows (w_runners w) (w_runners v)" using NewRunner_shape [OF new_runner(3)] by (auto simp: grows_def)
  then show ?thesis using assms(2) new_runner by (intro grows_owned [OF assms(2)]) (simp_all add: owned_by_def)
next
  case (resolve c env)
  then show ?thesis
    using assms(2) Resolve_world [of env c w "fst (Resolve env c w)" v] by (simp add: owned_by_def runner_tracks_def)
next
  case (history j compile env e)
  then show ?thesis
    using assms(2) by (simp add: owned_by_def runner_tracks_def upd_runner_def running_update)
next
  case (start j c)
  then show ?thesis
    using assms(2,3) by (auto simp: owned_by_def runner_tracks_def upd_runner_def nth_list_update)
next
  case (finish j c)
  then show ?thesis
    using assms(2,3) by (auto simp: owned_by_def runner_tracks_def upd_runner_def nth_list_update)
next
  case (other_helper d)
  then show ?thesis using assms(2) by (simp add: owned_by_def)
qed

lemma csteps_owned:
  "csteps w ops v \<Longrightarrow> owned_by w i cid \<Longrightarrow> list_all (leaves i cid) ops \<Longrightarrow> owned_by v i cid"
  by (induction rule: csteps.induct) (auto intro: cstep_owned)

lemma owned_find:
  assumes "owned_by w i cid" "coord_ok w"
  shows "find (\<lambda>i. runner_tracks cid (w_runners w ! i)) (coord_snapshot (w_coord w)) = Some i"
proof -
  have "j \<in> set (coord_snapshot (w_coord w)) \<Longrightarrow> runner_tracks cid (w_runners w ! j) = (j = i)" for j
    using assms by (simp add: set_snapshot coord_ok_def owned_by_def)
  moreover have "i \<in> set (coord_snapshot (w_coord w))" using assms(1) by (simp add: set_snapshot owned_by_def)
  ultimately have "find (\<lambda>i. runner_tracks cid (w_runners w ! i)) (coord_snapshot (w_coord w))
      = find (\<lambda>j. j = i) (coord_snapshot (w_coord w))" by (intro find_cong) auto
  moreover have "i \<in> set is \<Longrightarrow> find (\<lambda>j. j = i) is = Some i" for "is" by (induction "is") auto
  ultimately show ?thesis using \<open>i \<in> set (coord_snapshot (w_coord w))\<close> by simp
qed

lemma cstep_ok:
  assumes "cstep w op v" "coord_ok w"
  shows "coord_ok v"
  using assms(1)
proof (cases rule: cstep.cases)
  case (for_repo repo p m b)
  then show ?thesis using assms(2) by (simp add: ForRepo_ok)
next
  case (reset order base b)
  let ?v = "Reset b base order w"
  have n: "length (w_runners w) \<le> length (w_runners ?v)" "co_base (w_coord ?v) < length (w_runners ?v)"
    using reset(4) by (auto simp: Reset_def split: prod.splits option.splits dest!: NewRunner_shape)
  have "set order = ran (map_of (co_current (w_coord w)))"
    using mset_eq_setD [OF reset(3)] assms(2) by (simp add: coord_ok_def ran_distinct)
  then have "registered (w_coord ?v) i \<Longrightarrow> i = co_base (w_coord ?v) \<or> registered (w_coord w) i" for i
    by (auto simp: Reset_def registered_def split: prod.splits)
  with n assms(2) show ?thesis
    unfolding reset(2) coord_ok_def by (fastforce simp: Reset_def split: prod.splits)
next
  case (new_runner b p m j rs d)
  then have "grows (w_runners w) (w_runners v)" using NewRunner_shape [OF new_runner(3)] by (auto simp: grows_def)
  then show ?thesis using assms(2) new_runner by (auto simp: coord_ok_def grows_def)
next
  case (resolve c env)
  then show ?thesis
    using assms(2) Resolve_world [of env c w "fst (Resolve env c w)" v] by (simp add: coord_ok_def)
qed (use assms(2) in \<open>simp_all add: coord_ok_def upd_runner_def\<close>)

definition valid_base :: "nat option \<Rightarrow> crunner list \<times> disk \<Rightarrow> bool" where
  "valid_base base s \<longleftrightarrow> (case base of None \<Rightarrow> True | Some i \<Rightarrow> i < length (fst s))"

lemma NewCoordinator_ok: "valid_base base s \<Longrightarrow> coord_ok (NewCoordinator b base s)"
  by (cases s) (auto simp: NewCoordinator_def coord_ok_def registered_def valid_base_def
      split: option.splits prod.splits dest!: NewRunner_shape)

lemma csteps_ok: "csteps w ops v \<Longrightarrow> coord_ok w \<Longrightarrow> coord_ok v"
  by (induction rule: csteps.induct) (auto intro: cstep_ok)

lemma MaskEqual_refl [simp]: "MaskEqual m m"
  by (simp add: MaskEqual_iff)

lemma find_SomeD: "find P xs = Some x \<Longrightarrow> x \<in> set xs \<and> P x"
  by (auto simp: find_Some_iff)

lemma find_list_ex: "find P xs = None \<longleftrightarrow> \<not> list_ex P xs"
  by (auto simp: find_None_iff list_ex_iff)

lemma runner_knows_hit:
  assumes "ask (runner_knows env d cid) ids rs = (Some i, rs')"
  shows "i \<in> set ids" "fst (runner_knows env d cid (rs ! i))"
  using assms by (auto simp: lookup.ask_find find_Some_iff split: option.splits)

section \<open>Properties\<close>

text \<open>
  \<open>ForRepo\<close> hands out exactly one current runner per cleaned path.  The runner it returns
  works under the given policy and an equal mask and is the current one of the path; it is the old one
  exactly when that already did, and a replaced runner stays registered, as do all others.
\<close>

theorem ForRepo_spec:
  "case ForRepo b repo p m w of (i, v) \<Rightarrow>
     rn_policy (w_runners v ! i) = p \<and> MaskEqual (rn_mask (w_runners v ! i)) m
     \<and> map_of (co_current (w_coord v)) (Clean repo) = Some i
     \<and> (if \<exists>j. map_of (co_current (w_coord w)) (Clean repo) = Some j \<and> rn_policy (w_runners w ! j) = p
            \<and> MaskEqual (rn_mask (w_runners w ! j)) m
         then v = w else i = length (w_runners w) \<and> rn_running (w_runners v ! i) = [])
     \<and> {j. registered (w_coord w) j} \<subseteq> {j. registered (w_coord v) j}"
proof -
  have r: "{j. registered (w_coord w) j} \<subseteq> {j. registered (w_coord (snd (ForRepo b repo p m w))) j}"
    using ForRepo_registered by auto
  show ?thesis
  proof (rule ForRepo_cases [of w repo p m b], goal_cases)
    case (1 j)
    then show ?case using r by simp
  next
    case (2 h d)
    show ?case
      using r unfolding 2(2) prod.case if_not_P [OF 2(1)] by (simp add: update_conv')
  qed
qed

text \<open>
  Claim C22: a running command keeps one owner.  From the moment a registered runner starts it until it
  ends there, whatever else happens in between, policy changes that retire the runner, a reset of the
  whole registry, other commands, lookups and other helpers, \<open>Resolve\<close> returns that runner.
\<close>

theorem owner_stays_resolvable:
  assumes "valid_base base s" "csteps (NewCoordinator b base s) before w"
    "i \<in> set (coord_snapshot (w_coord w))"
    "\<And>j. j < length (w_runners w) \<Longrightarrow> \<not> runner_tracks cid (w_runners w ! j)"
    "cstep w (OStart i cid) w1" "csteps w1 after w2" "list_all (leaves i cid) after"
  shows "fst (Resolve env cid w2) = i"
proof -
  have ok: "coord_ok w" using csteps_ok [OF assms(2) NewCoordinator_ok [OF assms(1)]] .
  have i: "registered (w_coord w) i" "i < length (w_runners w)"
    using assms(3) ok by (auto simp: set_snapshot coord_ok_def)
  have "w1 = upd_runner i (\<lambda>r. r\<lparr>rn_running := List.insert cid (rn_running r)\<rparr>) w"
    using assms(5) by (auto elim: cstep_E)
  then have "owned_by w1 i cid"
    using i assms(4) by (auto simp: owned_by_def upd_runner_def runner_tracks_def nth_list_update)
  then have "owned_by w2 i cid" using csteps_owned [OF assms(6)] assms(7) by blast
  moreover have "coord_ok w2" using csteps_ok [OF assms(6)] cstep_ok [OF assms(5) ok] by blast
  ultimately show ?thesis by (simp add: Resolve_def owned_find)
qed

definition runner_ex :: crunner where
  "runner_ex = \<lparr>rn_policy = emptyPolicy, rn_mask = None, rn_history = NewInMemoryHistory, rn_running = []\<rparr>"

definition boot_ex :: helper_env where
  "boot_ex = \<lparr>he_env = env_ex (rec_ex ''a'' ''ok'' 3) kept_ex, he_home = Inl [], he_io = (\<lambda>st. None), he_fails = (\<lambda>p. False)\<rparr>"

theorem owner_stays_resolvable_witness:
  "\<exists>w2. fst (Resolve (he_env boot_ex) ''c'' w2) = 0 \<and> co_base (w_coord w2) = 1"
proof -
  let ?s = "([runner_ex, runner_ex], empty_disk)"
  let ?w = "NewCoordinator boot_ex (Some 0) ?s"
  let ?w1 = "upd_runner 0 (\<lambda>r. r\<lparr>rn_running := List.insert ''c'' (rn_running r)\<rparr>) ?w"
  let ?w2 = "Reset boot_ex (Some 1) [] ?w1"
  have n: "w_runners ?w = [runner_ex, runner_ex]" "w_coord ?w = \<lparr>co_base = 0, co_current = [], co_retired = []\<rparr>"
    by (simp_all add: NewCoordinator_def)
  have "cstep ?w (OStart 0 ''c'') ?w1" by (rule cstep.start) (simp add: n)
  moreover have "cstep ?w1 (OReset (Some 1)) ?w2"
    by (rule cstep.reset) (simp_all add: n upd_runner_def)
  then have "csteps ?w1 [OReset (Some 1)] ?w2" by (blast intro: csteps.intros)
  moreover have "j < length (w_runners ?w) \<Longrightarrow> \<not> runner_tracks ''c'' (w_runners ?w ! j)" for j
    by (simp add: n runner_tracks_def less_Suc_eq) (auto simp: runner_ex_def)
  ultimately have "fst (Resolve (he_env boot_ex) ''c'' ?w2) = 0"
    using owner_stays_resolvable [of "Some 0" ?s boot_ex "[]" ?w 0 "''c''" ?w1 "[OReset (Some 1)]" ?w2]
    by (simp add: valid_base_def n coord_snapshot_def)
  moreover have "co_base (w_coord ?w2) = 1" by (simp add: Reset_def)
  ultimately show ?thesis by blast
qed

text \<open>
  Where \<open>Resolve\<close> sends a command.  In every state a coordinator can reach it returns a
  registered runner: one that has the command as an active process if there is one, else one that
  finds a record of it, and that answer is stable, else the base runner.
\<close>

theorem Resolve_routes:
  assumes "valid_base base s" "csteps (NewCoordinator b base s) ops w"
  shows "case Resolve env cid w of (i, v) \<Rightarrow>
     i \<in> set (coord_snapshot (w_coord w))
     \<and> (if list_ex (\<lambda>j. runner_tracks cid (w_runners w ! j)) (coord_snapshot (w_coord w))
         then runner_tracks cid (w_runners w ! i) \<and> v = w
         else if list_ex (\<lambda>j. fst (runner_knows env (w_disk w) cid (w_runners w ! j))) (coord_snapshot (w_coord w))
         then fst (runner_knows env (w_disk w) cid (w_runners w ! i)) \<and> fst (Resolve env cid v) = i
         else i = co_base (w_coord w) \<and> v = w)"
proof -
  let ?ids = "coord_snapshot (w_coord w)"
  let ?t = "\<lambda>j. runner_tracks cid (w_runners w ! j)"
  let ?k = "\<lambda>j. fst (runner_knows env (w_disk w) cid (w_runners w ! j))"
  have ok: "coord_ok w" using csteps_ok [OF assms(2) NewCoordinator_ok [OF assms(1)]] .
  show ?thesis
  proof (cases "find ?t ?ids")
    case (Some i)
    then have "Resolve env cid w = (i, w)" "list_ex ?t ?ids"
      using find_list_ex [of ?t ?ids] by (auto simp: Resolve_def)
    then show ?thesis using find_SomeD [OF Some] by simp
  next
    case None
    show ?thesis
    proof (cases "find ?k ?ids")
      case None' : None
      have "hd ?ids = co_base (w_coord w)" "co_base (w_coord w) \<in> set ?ids" by (simp_all add: coord_snapshot_def)
      then show ?thesis
        using None None' find_list_ex [of ?t ?ids] find_list_ex [of ?k ?ids]
        by (simp add: Resolve_def lookup.ask_find)
    next
      case (Some i)
      let ?rs = "(w_runners w)[i := snd (runner_knows env (w_disk w) cid (w_runners w ! i))]"
      have a: "ask (runner_knows env (w_disk w) cid) ?ids (w_runners w) = (Some i, ?rs)"
        using Some by (simp add: lookup.ask_find)
      have i: "i \<in> set ?ids" "?k i" using runner_knows_hit [OF a] by auto
      then have "i < length (w_runners w)" using ok by (simp add: set_snapshot coord_ok_def)
      then have st: "fst (ask (runner_knows env (w_disk w) cid) ?ids ?rs) = Some i"
        using lookup.ask_stable [OF a] by simp
      have w': "Resolve env cid w = (i, w\<lparr>w_runners := ?rs\<rparr>)" using None a by (simp add: Resolve_def)
      have t: "(\<lambda>j. runner_tracks cid (?rs ! j)) = ?t"
        using Resolve_world(3) [OF w'] by (simp add: runner_tracks_def)
      have "fst (Resolve env cid (w\<lparr>w_runners := ?rs\<rparr>)) = i"
        using None st by (cases "ask (runner_knows env (w_disk w) cid) ?ids ?rs") (simp add: Resolve_def Let_def t)
      then show ?thesis
        using None Some find_list_ex [of ?t ?ids] find_list_ex [of ?k ?ids] i by (simp add: w')
    qed
  qed
qed

theorem Resolve_routes_witness:
  "fst (Resolve (he_env boot_ex) ''c'' (NewCoordinator boot_ex (Some 0) ([runner_ex], empty_disk))) = 0"
  using Resolve_routes [of "Some 0" "([runner_ex], empty_disk)" boot_ex "[]" _ "''c''" "he_env boot_ex"]
  by (auto simp: coord_snapshot_def valid_base_def NewCoordinator_def split: prod.splits)

end
