(* ===== verification/GitText.thy ===== *)
theory GitText
  imports Project "HOL-Library.AList"
begin

text \<open>
  Package \<open>gitops\<close>, names and parsers: \<open>naming.go\<close>, the helpers of \<open>git_common.go\<close>, and the read-only
  queries of \<open>git_status.go\<close>, \<open>git_blame.go\<close>, \<open>git_branch.go\<close>, \<open>git_diff.go\<close>, \<open>git_log.go\<close> and
  \<open>git_untracked.go\<close>.  The git program is the argument \<open>git\<close>: the output, or the error, of \<open>runGit\<close> for
  an argument vector in the repository.  An index out of range panics in Go; such a branch is \<open>None\<close>.
\<close>

type_synonym git_query = "string list \<Rightarrow> (string, string) result"

section \<open>Names\<close>

definition dot_dash :: "char \<Rightarrow> bool" where
  "dot_dash c \<longleftrightarrow> c = CHR ''.'' \<or> c = CHR ''-''"

definition cleanTaskID :: "string \<Rightarrow> string" where
  "cleanTaskID v = TrimP dot_dash (replace_unsafe False (ToLower (TrimSpace v)))"

definition cleanTaskType :: "string \<Rightarrow> string" where
  "cleanTaskType v = TrimP dot_dash (replace_unsafe False (ToLower (TrimSpace v)))"

definition WorktreePathForID :: "string \<Rightarrow> string" where
  "WorktreePathForID taskID =
     (let i = cleanTaskID taskID in if i = [] then [] else JoinPath [''.worktrees'', i])"

text \<open>\<open>branchTypePattern\<close>.\<close>

definition branch_type_ok :: "string \<Rightarrow> bool" where
  "branch_type_ok t \<longleftrightarrow> t \<noteq> [] \<and> is_lower (hd t) \<and> list_all (\<lambda>c. is_lower c \<or> is_digit c \<or> c = CHR ''-'') (tl t)"

datatype branch_error = NoTaskType | NoTaskID | BadTaskType string

definition BranchForTask :: "string \<Rightarrow> string \<Rightarrow> (branch_error, string) result" where
  "BranchForTask taskType taskID =
     (let t = cleanTaskType taskType; i = cleanTaskID taskID in
      if t = [] then Inl NoTaskType
      else if i = [] then Inl NoTaskID
      else if \<not> branch_type_ok t then Inl (BadTaskType t)
      else Inr (t @ ''/'' @ i))"

section \<open>Lines and owned files\<close>

definition splitLines :: "string \<Rightarrow> string list" where
  "splitLines text =
     (let raw = SplitChar LF (TrimSpace text) in
      if raw = [[]] then [] else map TrimSpace (filter (\<lambda>l. TrimSpace l \<noteq> []) raw))"

fun owned_loop :: "string list \<Rightarrow> string list \<Rightarrow> (string, string list) result" where
  "owned_loop owned [] = Inr owned"
| "owned_loop owned (f # fs) =
     (let clean = Clean (TrimSpace f) in
      if clean = [] \<or> clean = ''.'' then owned_loop owned fs
      else if IsAbs clean \<or> HasPrefix clean ''../'' \<or> clean = ''..'' then Inl (''owned file must be repo-relative: '' @ f)
      else if clean \<in> set owned then owned_loop owned fs
      else owned_loop (owned @ [clean]) fs)"

definition normalizeOwnedFiles :: "string list \<Rightarrow> (string, string list) result" where
  "normalizeOwnedFiles fs = owned_loop [] fs"

definition literalOwnedPathspecs :: "string list \<Rightarrow> string list" where
  "literalOwnedPathspecs fs = map (\<lambda>f. ''./'' @ f) fs"

section \<open>Status\<close>

record FileStatus =
  fs_Path :: string
  fs_Status :: string
  fs_XY :: string

record StatusResult =
  st_Branch :: string
  st_Upstream :: string
  st_Ahead :: int
  st_Behind :: int
  st_Staged :: "FileStatus list"
  st_Modified :: "FileStatus list"
  st_Untracked :: "FileStatus list"
  st_Deleted :: "FileStatus list"
  st_IsClean :: bool

definition emptyStatus :: StatusResult where
  "emptyStatus = \<lparr>st_Branch = [], st_Upstream = [], st_Ahead = 0, st_Behind = 0, st_Staged = [], st_Modified = [],
     st_Untracked = [], st_Deleted = [], st_IsClean = True\<rparr>"

text \<open>The path after a tab, where the line has one.\<close>

definition tab_path :: "string \<Rightarrow> string \<Rightarrow> string" where
  "tab_path line path = (case Index line [TAB] of None \<Rightarrow> path | Some i \<Rightarrow> drop (i + 1) line)"

definition changed_entry :: "string \<Rightarrow> string list \<Rightarrow> StatusResult \<Rightarrow> StatusResult option" where
  "changed_entry line parts r =
     (let xy = parts ! 1; path = tab_path line (parts ! 8) in
      if length xy < 2 then None
      else let x = xy ! 0; y = xy ! 1;
        r1 = (if x \<noteq> CHR ''.'' \<and> x \<noteq> CHR ''?''
              then r\<lparr>st_Staged := st_Staged r @ [\<lparr>fs_Path = path, fs_Status = ''staged'', fs_XY = xy\<rparr>], st_IsClean := False\<rparr>
              else r)
      in Some (if y = CHR ''M'' then
                 r1\<lparr>st_Modified := st_Modified r1 @ [\<lparr>fs_Path = path, fs_Status = ''modified'', fs_XY = xy\<rparr>], st_IsClean := False\<rparr>
               else if y = CHR ''D'' then
                 r1\<lparr>st_Deleted := st_Deleted r1 @ [\<lparr>fs_Path = path, fs_Status = ''deleted'', fs_XY = xy\<rparr>], st_IsClean := False\<rparr>
               else r1))"

definition status_line :: "string \<Rightarrow> StatusResult \<Rightarrow> StatusResult option" where
  "status_line line r =
     (if length line < 2 then Some r
      else if hd line = CHR ''#'' then Some r
      else if hd line = CHR ''?'' then
        Some (r\<lparr>st_Untracked := st_Untracked r @ [\<lparr>fs_Path = TrimSpace (drop 2 line), fs_Status = ''untracked'', fs_XY = ''??''\<rparr>],
                st_IsClean := False\<rparr>)
      else if hd line = CHR ''1'' \<or> hd line = CHR ''2'' then
        (let parts = Fields line in if length parts < 9 then Some r else changed_entry line parts r)
      else if hd line = CHR ''u'' then
        (let parts = Fields line in
         if length parts \<ge> 11 then
           Some (r\<lparr>st_Modified := st_Modified r @
                     [\<lparr>fs_Path = tab_path line (Join '' '' (drop 10 parts)), fs_Status = ''conflict'', fs_XY = parts ! 1\<rparr>],
                   st_IsClean := False\<rparr>)
         else Some r)
      else Some r)"

fun status_lines :: "string list \<Rightarrow> StatusResult \<Rightarrow> StatusResult option" where
  "status_lines [] r = Some r"
| "status_lines (l # ls) r = (case status_line l r of None \<Rightarrow> None | Some r1 \<Rightarrow> status_lines ls r1)"

definition output_or_empty :: "(string, string) result \<Rightarrow> string" where
  "output_or_empty q = (case q of Inl e \<Rightarrow> [] | Inr s \<Rightarrow> s)"

text \<open>\<open>strconv.Atoi\<close> with the error dropped, for the values in range.\<close>

definition atoi_or_zero :: "string \<Rightarrow> int" where
  "atoi_or_zero s = (case Atoi s of None \<Rightarrow> 0 | Some i \<Rightarrow> i)"

definition with_divergence :: "git_query \<Rightarrow> StatusResult \<Rightarrow> StatusResult" where
  "with_divergence git r =
     (if st_Upstream r = [] then r
      else let parts = Fields (TrimSpace (output_or_empty (git [''rev-list'', ''--left-right'', ''--count'', ''HEAD...@'' @ ''{upstream}''])))
           in if length parts = 2
              then r\<lparr>st_Ahead := atoi_or_zero (parts ! 0), st_Behind := atoi_or_zero (parts ! 1)\<rparr> else r)"

definition Status :: "git_query \<Rightarrow> string \<Rightarrow> (string, StatusResult option) result" where
  "Status git repoPath =
     (if TrimSpace repoPath = [] then Inl ''repo_path is required''
      else rbind (git [''rev-parse'', ''--show-toplevel'']) (\<lambda>_.
        let r0 = with_divergence git
              (emptyStatus\<lparr>st_Branch := TrimSpace (output_or_empty (git [''rev-parse'', ''--abbrev-ref'', ''HEAD''])),
                            st_Upstream := TrimSpace (output_or_empty (git [''rev-parse'', ''--abbrev-ref'', ''@'' @ ''{upstream}'']))\<rparr>)
        in rbind (git [''status'', ''--porcelain=v2'', ''--branch'', ''--untracked-files=normal'']) (\<lambda>porcelain.
             Inr (status_lines (splitLines porcelain) r0))))"

definition UntrackedCount :: "git_query \<Rightarrow> nat \<times> bool" where
  "UntrackedCount git =
     (case git [''rev-parse'', ''--show-toplevel''] of
        Inl e \<Rightarrow> (0, False)
      | Inr _ \<Rightarrow>
          (case git [''ls-files'', ''--others'', ''--exclude-standard'', ''--'', ''.''] of
             Inl e \<Rightarrow> (0, False)
           | Inr out \<Rightarrow> (length (splitLines out), True)))"

section \<open>Blame\<close>

record BlameLine =
  bl_Hash :: string
  bl_Author :: string
  bl_Date :: string
  bl_Line :: int
  bl_Content :: string

definition emptyBlame :: BlameLine where
  "emptyBlame = \<lparr>bl_Hash = [], bl_Author = [], bl_Date = [], bl_Line = 0, bl_Content = []\<rparr>"

definition cur_or_new :: "BlameLine option \<Rightarrow> BlameLine" where
  "cur_or_new c = (case c of None \<Rightarrow> emptyBlame | Some b \<Rightarrow> b)"

definition blame_header :: "string \<Rightarrow> string \<Rightarrow> BlameLine option \<Rightarrow> BlameLine option" where
  "blame_header key val cur =
     (if key = ''author'' then Some ((cur_or_new cur)\<lparr>bl_Author := val\<rparr>)
      else if key = ''author-time'' then Some ((cur_or_new cur)\<lparr>bl_Date := val\<rparr>)
      else if key = ''summary'' then cur
      else if length key = 40 then
        (let b = (cur_or_new cur)\<lparr>bl_Hash := take 8 key\<rparr> in
         Some (case Atoi val of None \<Rightarrow> b | Some n \<Rightarrow> b\<lparr>bl_Line := n\<rparr>))
      else cur)"

fun blame_loop :: "string list \<Rightarrow> BlameLine option \<Rightarrow> BlameLine list \<Rightarrow> BlameLine list" where
  "blame_loop [] cur out = out"
| "blame_loop (l # ls) cur out =
     (if HasPrefix l [TAB] then
        blame_loop ls None (case cur of None \<Rightarrow> out | Some b \<Rightarrow> out @ [b\<lparr>bl_Content := drop 1 l\<rparr>])
      else let parts = SplitN 2 (CHR '' '') l in
        if length parts < 2 then blame_loop ls cur out
        else blame_loop ls (blame_header (parts ! 0) (parts ! 1) cur) out)"

definition Blame :: "git_query \<Rightarrow> string \<Rightarrow> string \<Rightarrow> (string, BlameLine list) result" where
  "Blame git repoPath file =
     (if TrimSpace repoPath = [] then Inl ''repo_path is required''
      else if TrimSpace file = [] then Inl ''file is required''
      else rbind (git [''rev-parse'', ''--show-toplevel'']) (\<lambda>_.
        rbind (git [''blame'', ''--porcelain'', ''--'', file]) (\<lambda>raw. Inr (blame_loop (SplitChar LF raw) None []))))"

section \<open>Stashes, branches, remotes, tags\<close>

definition repo_query :: "git_query \<Rightarrow> string \<Rightarrow> string list \<Rightarrow> (string \<Rightarrow> 'a) \<Rightarrow> (string, 'a) result" where
  "repo_query git repoPath args parse =
     (if TrimSpace repoPath = [] then Inl ''repo_path is required''
      else rbind (git [''rev-parse'', ''--show-toplevel'']) (\<lambda>_. rbind (git args) (\<lambda>raw. Inr (parse raw))))"

record StashEntry =
  se_Index :: int
  se_Hash :: string
  se_Message :: string

text \<open>\<open>fmt.Sscanf(s, "stash@" followed by "{%d}", &n)\<close>: blanks before the number, text after the brace ignored.\<close>

definition scan_stash :: "string \<Rightarrow> int option" where
  "scan_stash s =
     (if \<not> HasPrefix s (''stash@'' @ ''{'') then None
      else let t = dropWhile is_space (drop 7 s);
               sign = (if HasPrefix t ''-'' \<or> HasPrefix t ''+'' then take 1 t else []);
               digits = takeWhile is_digit (drop (length sign) t)
           in if HasPrefix (drop (length sign + length digits) t) ''}'' then Atoi (sign @ digits) else None)"

definition stash_entry :: "string \<Rightarrow> StashEntry option" where
  "stash_entry line =
     (let parts = SplitN 3 (CHR ''|'') line in
      if length parts < 3 then None
      else (case scan_stash (parts ! 1) of
              None \<Rightarrow> None
            | Some i \<Rightarrow> Some \<lparr>se_Index = i, se_Hash = parts ! 0, se_Message = parts ! 2\<rparr>))"

definition StashList :: "git_query \<Rightarrow> string \<Rightarrow> (string, StashEntry list) result" where
  "StashList git repoPath =
     repo_query git repoPath [''stash'', ''list'', ''--format=%H|%gd|%s''] (\<lambda>raw. List.map_filter stash_entry (splitLines raw))"

record Branch =
  br_Name :: string
  br_IsCurrent :: bool
  br_IsRemote :: bool
  br_Hash :: string

definition branch_entry :: "string \<Rightarrow> Branch option" where
  "branch_entry line =
     (let parts = SplitN 3 (CHR ''|'') line in
      if length parts < 3 then None
      else Some \<lparr>br_Name = parts ! 0, br_IsCurrent = (parts ! 2 = ''*''), br_IsRemote = Contains (parts ! 0) ''/'', br_Hash = parts ! 1\<rparr>)"

fun current_of :: "Branch list \<Rightarrow> string \<Rightarrow> string" where
  "current_of [] c = c"
| "current_of (b # bs) c = current_of bs (if br_IsCurrent b then br_Name b else c)"

definition BranchList :: "git_query \<Rightarrow> string \<Rightarrow> bool \<Rightarrow> (string, Branch list \<times> string) result" where
  "BranchList git repoPath all =
     repo_query git repoPath
       ([''branch'', ''--format=%(refname:short)|%(objectname:short)|%(HEAD)''] @ (if all then [''-a''] else []))
       (\<lambda>raw. let bs = List.map_filter branch_entry (splitLines raw) in (bs, current_of bs []))"

record Remote =
  rm_Name :: string
  rm_URL :: string
  rm_Fetch :: string

definition remote_line :: "string \<Rightarrow> (string \<times> Remote) list \<Rightarrow> (string \<times> Remote) list" where
  "remote_line line rs =
     (let parts = Fields line in
      if length parts < 3 then rs
      else let name = parts ! 0; url = parts ! 1;
               r = (case map_of rs name of None \<Rightarrow> \<lparr>rm_Name = name, rm_URL = [], rm_Fetch = []\<rparr> | Some r \<Rightarrow> r);
               r1 = (if parts ! 2 = ''(fetch)'' then r\<lparr>rm_URL := url, rm_Fetch := url\<rparr>
                     else if parts ! 2 = ''(push)'' then r\<lparr>rm_URL := url\<rparr> else r)
           in AList.update name r1 rs)"

text \<open>The listing is in the order Go iterates the map: \<open>order\<close>.\<close>

definition RemoteList :: "(Remote list \<Rightarrow> Remote list) \<Rightarrow> git_query \<Rightarrow> string \<Rightarrow> (string, Remote list) result" where
  "RemoteList order git repoPath =
     repo_query git repoPath [''remote'', ''-v''] (\<lambda>raw. order (map snd (fold remote_line (splitLines raw) [])))"

record Tag =
  tg_Name :: string
  tg_Hash :: string
  tg_IsAnnotated :: bool
  tg_Message :: string

definition tag_entry :: "string \<Rightarrow> Tag option" where
  "tag_entry line =
     (let parts = SplitN 4 (CHR ''|'') line in
      if length parts < 3 then None
      else Some \<lparr>tg_Name = parts ! 0, tg_Hash = parts ! 1, tg_IsAnnotated = (parts ! 2 = ''tag''),
                 tg_Message = (if length parts > 3 then parts ! 3 else [])\<rparr>)"

definition TagList :: "git_query \<Rightarrow> string \<Rightarrow> string \<Rightarrow> (string, Tag list) result" where
  "TagList git repoPath pat =
     repo_query git repoPath
       ([''tag'', ''--format=%(refname:short)|%(objectname:short)|%(objecttype)|%(contents)''] @ (if pat \<noteq> [] then [''-l'', pat] else []))
       (\<lambda>raw. List.map_filter tag_entry (splitLines raw))"

section \<open>Diffs\<close>

record DiffHunk =
  dh_Header :: string
  dh_Lines :: "string list"

record DiffFile =
  df_Path :: string
  df_OldPath :: string
  df_Status :: string
  df_Hunks :: "DiffHunk list"
  df_IsBinary :: bool

record diff_state =
  ds_done :: "DiffFile list"
  ds_file :: "DiffFile option"
  ds_hunk :: "DiffHunk option"

definition newDiffFile :: DiffFile where
  "newDiffFile = \<lparr>df_Path = [], df_OldPath = [], df_Status = ''modified'', df_Hunks = [], df_IsBinary = False\<rparr>"

text \<open>Close the open hunk; close the open file.\<close>

definition flush_hunk :: "DiffFile \<Rightarrow> DiffHunk option \<Rightarrow> DiffFile" where
  "flush_hunk f h = (case h of None \<Rightarrow> f | Some x \<Rightarrow> f\<lparr>df_Hunks := df_Hunks f @ [x]\<rparr>)"

definition flush_file :: "diff_state \<Rightarrow> DiffFile list" where
  "flush_file s = (case ds_file s of None \<Rightarrow> ds_done s | Some f \<Rightarrow> ds_done s @ [flush_hunk f (ds_hunk s)])"

definition on_file :: "(DiffFile \<Rightarrow> DiffFile) \<Rightarrow> diff_state \<Rightarrow> diff_state" where
  "on_file g s = s\<lparr>ds_file := map_option g (ds_file s)\<rparr>"

definition hunk_start :: "string \<Rightarrow> diff_state \<Rightarrow> diff_state" where
  "hunk_start line s =
     (case ds_file s of
        None \<Rightarrow> s
      | Some f \<Rightarrow> s\<lparr>ds_file := Some (flush_hunk f (ds_hunk s)), ds_hunk := Some \<lparr>dh_Header = line, dh_Lines = []\<rparr>\<rparr>)"

definition body_line :: "string \<Rightarrow> diff_state \<Rightarrow> diff_state" where
  "body_line line s = s\<lparr>ds_hunk := map_option (\<lambda>h. h\<lparr>dh_Lines := dh_Lines h @ [line]\<rparr>) (ds_hunk s)\<rparr>"

definition rename_from :: "string \<Rightarrow> DiffFile \<Rightarrow> DiffFile" where
  "rename_from line f = f\<lparr>df_OldPath := TrimPrefix line ''rename from '', df_Status := ''renamed''\<rparr>"

definition old_name :: "string \<Rightarrow> DiffFile \<Rightarrow> DiffFile" where
  "old_name line f = (if df_Path f = [] then f\<lparr>df_Path := TrimPrefix line ''--- a/''\<rparr> else f)"

text \<open>The switch of \<open>Diff\<close>.\<close>

definition diff_line :: "string \<Rightarrow> diff_state \<Rightarrow> diff_state" where
  "diff_line line s =
     (if HasPrefix line ''diff --git'' then \<lparr>ds_done = flush_file s, ds_file = Some newDiffFile, ds_hunk = None\<rparr>
      else if HasPrefix line ''rename from'' then on_file (rename_from line) s
      else if HasPrefix line ''rename to'' then on_file (\<lambda>f. f\<lparr>df_Path := TrimPrefix line ''rename to ''\<rparr>) s
      else if HasPrefix line ''new file'' then on_file (\<lambda>f. f\<lparr>df_Status := ''added''\<rparr>) s
      else if HasPrefix line ''deleted file'' then on_file (\<lambda>f. f\<lparr>df_Status := ''deleted''\<rparr>) s
      else if HasPrefix line ''--- a/'' then on_file (old_name line) s
      else if HasPrefix line ''+++ b/'' then on_file (\<lambda>f. f\<lparr>df_Path := TrimPrefix line ''+++ b/''\<rparr>) s
      else if HasPrefix line ''@@'' then hunk_start line s
      else if HasPrefix line ''Binary'' then on_file (\<lambda>f. f\<lparr>df_IsBinary := True\<rparr>) s
      else body_line line s)"

text \<open>The switch of \<open>LogDiff\<close>: the same cases in another order.\<close>

definition show_line :: "string \<Rightarrow> diff_state \<Rightarrow> diff_state" where
  "show_line line s =
     (if HasPrefix line ''diff --git'' then \<lparr>ds_done = flush_file s, ds_file = Some newDiffFile, ds_hunk = None\<rparr>
      else if HasPrefix line ''rename from'' then on_file (rename_from line) s
      else if HasPrefix line ''rename to'' then on_file (\<lambda>f. f\<lparr>df_Path := TrimPrefix line ''rename to ''\<rparr>) s
      else if HasPrefix line ''new file'' then on_file (\<lambda>f. f\<lparr>df_Status := ''added''\<rparr>) s
      else if HasPrefix line ''deleted file'' then on_file (\<lambda>f. f\<lparr>df_Status := ''deleted''\<rparr>) s
      else if HasPrefix line ''Binary files'' then on_file (\<lambda>f. f\<lparr>df_IsBinary := True\<rparr>) s
      else if HasPrefix line ''--- a/'' then on_file (old_name line) s
      else if HasPrefix line ''+++ b/'' then on_file (\<lambda>f. f\<lparr>df_Path := TrimPrefix line ''+++ b/''\<rparr>) s
      else if HasPrefix line ''@@'' then hunk_start line s
      else body_line line s)"

definition diff_start :: diff_state where
  "diff_start = \<lparr>ds_done = [], ds_file = None, ds_hunk = None\<rparr>"

definition parse_diff :: "string \<Rightarrow> DiffFile list" where
  "parse_diff raw = flush_file (fold diff_line (SplitChar LF raw) diff_start)"

definition Diff :: "git_query \<Rightarrow> string \<Rightarrow> bool \<Rightarrow> string \<Rightarrow> (string, DiffFile list \<times> bool) result" where
  "Diff git repoPath cached path =
     repo_query git repoPath
       ([''diff'', ''--no-color'', ''-U3''] @ (if cached then [''--cached''] else []) @ (if path \<noteq> [] then [''--'', path] else []))
       (\<lambda>raw. if TrimSpace raw = [] then ([], True) else (parse_diff raw, False))"

section \<open>Logs\<close>

record LogCommit =
  lc_Hash :: string
  lc_ShortHash :: string
  lc_Author :: string
  lc_Date :: string
  lc_Message :: string

record LogRequest =
  lr_RepoPath :: string
  lr_Limit :: int
  lr_Path :: string
  lr_Author :: string
  lr_Since :: string
  lr_Until :: string
  lr_Grep :: string

definition US :: char where
  "US = CHR 0x1F"

definition five_fields :: "char \<Rightarrow> string \<Rightarrow> LogCommit option" where
  "five_fields sep line =
     (let parts = SplitN 5 sep line in
      if length parts < 5 then None
      else Some \<lparr>lc_Hash = parts ! 0, lc_ShortHash = parts ! 1, lc_Author = parts ! 2, lc_Date = parts ! 3, lc_Message = parts ! 4\<rparr>)"

definition flag :: "string \<Rightarrow> string \<Rightarrow> string list" where
  "flag name v = (if v \<noteq> [] then [name @ v] else [])"

definition log_args :: "LogRequest \<Rightarrow> string list" where
  "log_args rq =
     [''log'', ''--format=%H%x1f%h%x1f%an%x1f%ai%x1f%s'', ''--no-color'']
     @ [if lr_Limit rq > 0 then ''-'' @ Itoa (lr_Limit rq) else ''-20'']
     @ flag ''--author='' (lr_Author rq) @ flag ''--since='' (lr_Since rq) @ flag ''--until='' (lr_Until rq)
     @ flag ''--grep='' (lr_Grep rq) @ (if lr_Path rq \<noteq> [] then [''--'', lr_Path rq] else [])"

definition Log :: "git_query \<Rightarrow> LogRequest \<Rightarrow> (string, LogCommit list) result" where
  "Log git rq = repo_query git (lr_RepoPath rq) (log_args rq) (\<lambda>raw. List.map_filter (five_fields US) (splitLines raw))"

record FileStat =
  sf_Path :: string
  sf_Additions :: int
  sf_Deletions :: int

definition file_stat :: "string \<Rightarrow> FileStat option" where
  "file_stat line =
     (if Contains line ''|'' then
        (let parts = SplitN 2 (CHR ''|'') line in
         if length parts = 2
         then Some \<lparr>sf_Path = TrimSpace (parts ! 0), sf_Additions = int (CountSub (TrimSpace (parts ! 1)) ''+''),
                    sf_Deletions = int (CountSub (TrimSpace (parts ! 1)) ''-'')\<rparr>
         else None)
      else None)"

definition emptyCommit :: LogCommit where
  "emptyCommit = \<lparr>lc_Hash = [], lc_ShortHash = [], lc_Author = [], lc_Date = [], lc_Message = []\<rparr>"

definition LogDiff :: "git_query \<Rightarrow> string \<Rightarrow> string \<Rightarrow> (string, LogCommit \<times> DiffFile list \<times> FileStat list) result" where
  "LogDiff git repoPath hash =
     (if TrimSpace repoPath = [] then Inl ''repo_path is required''
      else if TrimSpace hash = [] then Inl ''hash is required''
      else rbind (git [''rev-parse'', ''--show-toplevel'']) (\<lambda>_.
        rbind (git [''show'', ''--format=%H|%h|%an|%ai|%s'', ''--no-color'', ''-U3'', hash]) (\<lambda>raw.
          let ls = SplitChar LF raw;
              c = (case five_fields (CHR ''|'') (hd ls) of None \<Rightarrow> emptyCommit | Some c \<Rightarrow> c);
              files = flush_file (fold show_line (tl ls) diff_start);
              stats = (case git [''show'', ''--stat'', ''--format='', ''--no-color'', hash] of
                         Inl e \<Rightarrow> [] | Inr st \<Rightarrow> List.map_filter file_stat (splitLines st))
          in Inr (c, files, stats))))"

end
