(* ===== verification/GitTextFacts.thy ===== *)
theory GitTextFacts
  imports GitText
begin

text \<open>
  What the names and parsers of \<open>GitText\<close> promise: task names are single safe components, owned files
  stay below the repository, structured diffs and logs are read back exactly as git prints them, and
  the cleanliness flag of a status agrees with its lists.
\<close>

section \<open>Names\<close>

lemma TrimP_ends: "TrimP p s = [] \<or> \<not> p (hd (TrimP p s)) \<and> \<not> p (last (TrimP p s))"
  using TrimP_idem_ends by blast

lemma lower_char_range: "\<not> is_upper (lower_char c)"
  by (auto simp: lower_char_def is_upper_def byteval_char_of)

definition id_char :: "char \<Rightarrow> bool" where
  "id_char c \<longleftrightarrow> is_lower c \<or> is_digit c \<or> c = CHR ''.'' \<or> c = CHR ''_'' \<or> c = CHR ''-''"

lemma set_replace_unsafe: "set (replace_unsafe b s) \<subseteq> insert (CHR ''-'') (set s)"
proof (induction s arbitrary: b)
  case (Cons c cs)
  have i: "x \<in> set (replace_unsafe b cs) \<Longrightarrow> x = CHR ''-'' \<or> x \<in> set cs" for x b
    using Cons.IH by blast
  show ?case
  proof
    fix x assume "x \<in> set (replace_unsafe b (c # cs))"
    then have "x = CHR ''-'' \<or> x = c \<or> x \<in> set (replace_unsafe True cs) \<or> x \<in> set (replace_unsafe False cs)"
      by (simp split: if_splits) (elim disjE; simp)+
    then show "x \<in> insert (CHR ''-'') (set (c # cs))" using i by (elim disjE) (force dest: i)+
  qed
qed simp

lemma cleanTaskID_chars: "list_all id_char (cleanTaskID v)"
proof -
  have "id_char c" if "c \<in> set (cleanTaskID v)" for c
  proof -
    have c: "c \<in> set (replace_unsafe False (ToLower (TrimSpace v)))"
      using that subsetD [OF set_TrimP] unfolding cleanTaskID_def by fast
    then have "is_alnum c \<or> c = CHR ''.'' \<or> c = CHR ''_'' \<or> c = CHR ''-''"
      using replace_unsafe_safe unfolding unsafe_char_def by blast
    moreover have "\<not> is_upper c"
    proof (cases "c = CHR ''-''")
      case True
      then show ?thesis by (simp add: byte_defs)
    next
      case False
      then have "c \<in> set (ToLower (TrimSpace v))" using set_replace_unsafe c by blast
      then show ?thesis unfolding ToLower_def using lower_char_range by auto
    qed
    ultimately show ?thesis unfolding id_char_def is_alnum_def by blast
  qed
  then show ?thesis by (simp add: list_all_iff)
qed

lemma cleanTaskID_plain: "cleanTaskID v \<noteq> [] \<Longrightarrow> plain_comp (cleanTaskID v)"
proof -
  assume ne: "cleanTaskID v \<noteq> []"
  have h: "\<not> dot_dash (hd (cleanTaskID v))"
    using ne TrimP_ends unfolding cleanTaskID_def by blast
  have "SLASH \<notin> set (cleanTaskID v)"
    using cleanTaskID_chars [of v] by (auto simp: list_all_iff id_char_def byte_defs)
  with ne h show ?thesis by (auto simp: plain_comp_def dot_dash_def)
qed

lemma JoinPath_two: "plain_comp a \<Longrightarrow> plain_comp b \<Longrightarrow> JoinPath [a, b] = a @ [SLASH] @ b \<and> below (a @ [SLASH] @ b)"
proof -
  assume p: "plain_comp a" "plain_comp b"
  have "below (Join [SLASH] [a, b])" unfolding below_def by (rule exI [of _ "[a, b]"]) (simp add: p)
  then have "below (a @ [SLASH] @ b)" by simp
  moreover have "a \<noteq> []" "b \<noteq> []" using p by (auto simp: plain_comp_def)
  ultimately show ?thesis by (simp add: JoinPath_def Clean_below_id)
qed

lemma WorktreePath_shape:
  "cleanTaskID i \<noteq> [] \<Longrightarrow>
   WorktreePathForID i = ''.worktrees/'' @ cleanTaskID i \<and> below (WorktreePathForID i)"
proof -
  assume ne: "cleanTaskID i \<noteq> []"
  have "plain_comp ''.worktrees''" by (simp add: plain_comp_def)
  from JoinPath_two [OF this cleanTaskID_plain [OF ne]] ne show ?thesis
    by (simp add: WorktreePathForID_def Let_def)
qed

section \<open>Owned files\<close>

definition escapes :: "string \<Rightarrow> bool" where
  "escapes f \<longleftrightarrow> (let c = Clean (TrimSpace f) in IsAbs c \<or> HasPrefix c ''../'' \<or> c = ''..'')"

lemma Clean_ne [simp]: "Clean p \<noteq> []"
proof (cases "IsAbs p")
  case True
  then show ?thesis using IsAbs_Clean by (fastforce simp: IsAbs_def)
next
  case False
  then show ?thesis using Clean_below [OF False] below_ne by force
qed

lemma owned_loop_spec:
  "case owned_loop owned fs of
     Inl e \<Rightarrow> list_ex escapes fs
   | Inr out \<Rightarrow> \<not> list_ex escapes fs \<and> (distinct owned \<longrightarrow> distinct out)
        \<and> set out = set owned \<union> {c \<in> (\<lambda>f. Clean (TrimSpace f)) ` set fs. c \<noteq> ''.''}"
proof (induction fs arbitrary: owned)
  case Nil
  then show ?case by simp
next
  case (Cons f fs)
  let ?c = "Clean (TrimSpace f)"
  have d: "\<not> escapes f" if "?c = ''.''" using that by (simp add: escapes_def Let_def IsAbs_def)
  consider "?c = ''.''" | "escapes f" | "?c \<noteq> ''.''" "\<not> escapes f" "?c \<in> set owned" | "?c \<noteq> ''.''" "\<not> escapes f" "?c \<notin> set owned"
    by blast
  then show ?case
  proof cases
    case 1
    then show ?thesis using Cons.IH [of owned] d by (auto simp: Let_def split: sum.splits)
  next
    case 2
    then have "?c \<noteq> ''.''" using d by blast
    with 2 show ?thesis by (auto simp: Let_def escapes_def)
  next
    case 3
    then have "owned_loop owned (f # fs) = owned_loop owned fs" by (auto simp: Let_def escapes_def)
    with 3 show ?thesis using Cons.IH [of owned] by (auto split: sum.splits)
  next
    case 4
    then have "owned_loop owned (f # fs) = owned_loop (owned @ [?c]) fs" by (auto simp: Let_def escapes_def)
    with 4 show ?thesis using Cons.IH [of "owned @ [?c]"] by (auto split: sum.splits)
  qed
qed

lemma not_escapes_below: "\<not> escapes f \<Longrightarrow> Clean (TrimSpace f) \<noteq> ''.'' \<Longrightarrow> below (Clean (TrimSpace f))"
  unfolding escapes_def Let_def using Clean_below IsAbs_Clean by blast

section \<open>Splitting fields\<close>

lemma SplitN_last:
  assumes "list_all (\<lambda>p. c \<notin> set p) ps" "length ps = n" "c \<in> set t \<or> True"
  shows "SplitN (Suc n) c (concat (map (\<lambda>p. p @ [c]) ps) @ t) = ps @ [t]"
proof -
  have sp: "SplitChar c (concat (map (\<lambda>p. p @ [c]) ps) @ t) = ps @ SplitChar c t"
    using assms(1) by (induction ps) (simp_all add: SplitChar_append)
  show ?thesis
  proof (cases "c \<in> set t")
    case False
    then show ?thesis using assms(2) by (simp add: sp SplitChar_single Let_def)
  next
    case True
    then have "count_list t c \<noteq> 0" by (simp add: count_list_0_iff)
    then have "1 < length (SplitChar c t)" by (simp add: length_SplitChar)
    then show ?thesis using assms(2) by (simp add: sp Let_def)
  qed
qed

section \<open>Diffs as git prints them\<close>





text \<open>After a name with a blank git puts a tab in the lines of the two files, and in these lines only.\<close>

definition tabbed :: "string \<Rightarrow> string" where
  "tabbed p = (if CHR '' '' \<in> set p then p @ [CHR 9] else p)"

definition git_header :: "DiffFile \<Rightarrow> string list" where
  "git_header f =
     (let old = (if df_Status f = ''renamed'' then df_OldPath f else df_Path f) in
      [''diff --git a/'' @ old @ '' b/'' @ df_Path f]
      @ (if df_Status f = ''added'' then [''new file mode 100644'']
         else if df_Status f = ''deleted'' then [''deleted file mode 100644'']
         else if df_Status f = ''renamed''
         then [if df_Hunks f = [] then ''similarity index 100%'' else ''similarity index 90%'',
               ''rename from '' @ df_OldPath f, ''rename to '' @ df_Path f] else [])
      @ (if df_Hunks f = [] then []
         else [if df_Status f = ''added'' then ''index 0000000..bf269f4'' else if df_Status f = ''deleted'' then ''index 83db48f..0000000''
               else ''index 83db48f..bf269f4 100644'',
               if df_Status f = ''added'' then ''--- /dev/null'' else ''--- a/'' @ tabbed old,
               if df_Status f = ''deleted'' then ''+++ /dev/null'' else ''+++ b/'' @ tabbed (df_Path f)]))"





definition git_diff_file :: "DiffFile \<Rightarrow> string list" where
  "git_diff_file f = git_header f @ concat (map (\<lambda>h. dh_Header h # dh_Lines h) (df_Hunks f))"

definition git_diff :: "DiffFile list \<Rightarrow> string" where
  "git_diff fs = concat (map (\<lambda>l. l @ [LF]) (concat (map git_diff_file fs)))"

















section \<open>Lines\<close>

definition line_ok :: "string \<Rightarrow> bool" where
  "line_ok l \<longleftrightarrow> l \<noteq> [] \<and> \<not> is_space (hd l) \<and> \<not> is_space (last l) \<and> LF \<notin> set l"

definition unlines :: "string list \<Rightarrow> string" where
  "unlines ls = concat (map (\<lambda>l. l @ [LF]) ls)"

lemma TrimP_fixed: "s = [] \<or> \<not> p (hd s) \<and> \<not> p (last s) \<Longrightarrow> TrimP p s = s"
proof -
  assume a: "s = [] \<or> \<not> p (hd s) \<and> \<not> p (last s)"
  have "dropWhile p s = s" using a by (cases s) auto
  moreover have "dropWhile p (rev s) = rev s" using a by (cases s rule: rev_cases) auto
  ultimately show ?thesis by (simp add: TrimP_def TrimRightP_def TrimLeftP_def)
qed

lemma TrimSpace_line: "line_ok l \<Longrightarrow> TrimSpace l = l"
  unfolding TrimSpace_def by (rule TrimP_fixed) (simp add: line_ok_def)

lemma TrimSpace_newline: "s \<noteq> [] \<Longrightarrow> \<not> is_space (hd s) \<Longrightarrow> \<not> is_space (last s) \<Longrightarrow> TrimSpace (s @ [LF]) = s"
proof -
  assume s: "s \<noteq> []" "\<not> is_space (hd s)" "\<not> is_space (last s)"
  have l: "is_space LF" by (simp add: byte_defs)
  have "dropWhile is_space (s @ [LF]) = s @ [LF]" using s by (cases s) simp_all
  moreover have "dropWhile is_space (rev (s @ [LF])) = rev s"
    using s l by (cases s rule: rev_cases) simp_all
  ultimately show ?thesis by (simp add: TrimSpace_def TrimP_def TrimRightP_def TrimLeftP_def)
qed

lemma unlines_Join: "ls \<noteq> [] \<Longrightarrow> unlines ls = Join [LF] ls @ [LF]"
  unfolding unlines_def
proof (induction ls)
  case (Cons l ls)
  then show ?case by (cases "ls = []") (simp_all add: Join_Cons)
qed simp

lemma hd_Join: "ls \<noteq> [] \<Longrightarrow> hd ls \<noteq> [] \<Longrightarrow> hd (Join sep ls) = hd (hd ls)"
  by (induction sep ls rule: Join.induct) simp_all

lemma last_Join: "ls \<noteq> [] \<Longrightarrow> last ls \<noteq> [] \<Longrightarrow> last (Join sep ls) = last (last ls) \<and> Join sep ls \<noteq> []"
  by (induction sep ls rule: Join.induct) auto

lemma splitLines_unlines:
  assumes "list_all line_ok ls"
  shows "splitLines (unlines ls) = ls"
proof (cases "ls = []")
  case True
  then show ?thesis by (simp add: splitLines_def unlines_def TrimSpace_def TrimP_fixed)
next
  case False
  have ok: "line_ok (hd ls)" "line_ok (last ls)" using assms False by (simp_all add: list_all_iff)
  then have j: "Join [LF] ls \<noteq> []" "\<not> is_space (hd (Join [LF] ls))" "\<not> is_space (last (Join [LF] ls))"
    using False last_Join [of ls "[LF]"] hd_Join [of ls "[LF]"] by (simp_all add: line_ok_def)
  have "TrimSpace (unlines ls) = Join [LF] ls"
    unfolding unlines_Join [OF False] using j by (rule TrimSpace_newline)
  moreover have "SplitChar LF (Join [LF] ls) = ls"
    using assms False by (intro SplitChar_Join) (auto simp: list_all_iff line_ok_def)
  moreover have "filter (\<lambda>l. TrimSpace l \<noteq> []) ls = ls" "map TrimSpace ls = ls"
    using assms by (auto simp: filter_id_conv list_all_iff TrimSpace_line line_ok_def intro!: map_idI)
  moreover have "ls \<noteq> [[]]" using ok by (auto simp: line_ok_def)
  ultimately show ?thesis by (simp add: splitLines_def Let_def)
qed

lemma map_filter_Some: "(\<And>x. x \<in> set xs \<Longrightarrow> f (g x) = Some x) \<Longrightarrow> List.map_filter f (map g xs) = xs"
  by (induction xs) (simp_all add: List.map_filter_simps)

section \<open>Logs as git prints them\<close>

definition commit_ok :: "LogCommit \<Rightarrow> bool" where
  "commit_ok c \<longleftrightarrow> lc_Hash c \<noteq> [] \<and> \<not> is_space (hd (lc_Hash c)) \<and> (lc_Message c = [] \<or> \<not> is_space (last (lc_Message c)))
     \<and> US \<notin> set (lc_Hash c @ lc_ShortHash c @ lc_Author c @ lc_Date c)
     \<and> LF \<notin> set (lc_Hash c @ lc_ShortHash c @ lc_Author c @ lc_Date c @ lc_Message c)"

definition log_line :: "LogCommit \<Rightarrow> string" where
  "log_line c = lc_Hash c @ [US] @ lc_ShortHash c @ [US] @ lc_Author c @ [US] @ lc_Date c @ [US] @ lc_Message c"

lemma log_line_ok: "commit_ok c \<Longrightarrow> line_ok (log_line c)"
proof -
  assume c: "commit_ok c"
  have u: "\<not> is_space US" "US \<noteq> LF" by (simp_all add: US_def byte_defs)
  have "\<not> is_space (last (log_line c))"
    using c u by (cases "lc_Message c = []") (simp_all add: log_line_def commit_ok_def)
  with c u show ?thesis by (simp add: line_ok_def log_line_def commit_ok_def)
qed

lemma five_fields_log: "commit_ok c \<Longrightarrow> five_fields US (log_line c) = Some c"
proof -
  assume c: "commit_ok c"
  let ?ps = "[lc_Hash c, lc_ShortHash c, lc_Author c, lc_Date c]"
  have "list_all (\<lambda>p. US \<notin> set p) ?ps" using c by (simp add: commit_ok_def)
  from SplitN_last [OF this, of 4 "lc_Message c"]
  have "SplitN 5 US (log_line c) = ?ps @ [lc_Message c]" by (simp add: log_line_def del: SplitN.simps)
  then show ?thesis by (cases c) (simp add: five_fields_def del: SplitN.simps)
qed

section \<open>Status as git prints it\<close>

datatype porcelain =
    PHeader string
  | PChanged char char "string list" string
  | PUnmerged char char "string list" string
  | PUntracked string

definition word_ok :: "string \<Rightarrow> bool" where
  "word_ok w \<longleftrightarrow> w \<noteq> [] \<and> list_all (\<lambda>c. \<not> is_space c) w"

fun porcelain_ok :: "porcelain \<Rightarrow> bool" where
  "porcelain_ok (PHeader h) \<longleftrightarrow> line_ok h"
| "porcelain_ok (PChanged x y mid path) \<longleftrightarrow> word_ok [x, y] \<and> length mid = 6 \<and> list_all word_ok mid \<and> word_ok path"
| "porcelain_ok (PUnmerged x y mid path) \<longleftrightarrow> word_ok [x, y] \<and> length mid = 8 \<and> list_all word_ok mid \<and> word_ok path"
| "porcelain_ok (PUntracked path) \<longleftrightarrow> line_ok path"

fun porcelain_line :: "porcelain \<Rightarrow> string" where
  "porcelain_line (PHeader h) = ''# '' @ h"
| "porcelain_line (PChanged x y mid path) = Join '' '' (''1'' # [x, y] # mid @ [path])"
| "porcelain_line (PUnmerged x y mid path) = Join '' '' (''u'' # [x, y] # mid @ [path])"
| "porcelain_line (PUntracked path) = ''? '' @ path"

definition staged_of :: "porcelain \<Rightarrow> FileStatus option" where
  "staged_of e = (case e of PChanged x y m p \<Rightarrow>
     (if x \<noteq> CHR ''.'' \<and> x \<noteq> CHR ''?'' then Some \<lparr>fs_Path = p, fs_Status = ''staged'', fs_XY = [x, y]\<rparr> else None) | _ \<Rightarrow> None)"

definition modified_of :: "porcelain \<Rightarrow> FileStatus option" where
  "modified_of e = (case e of
     PChanged x y m p \<Rightarrow> (if y = CHR ''M'' then Some \<lparr>fs_Path = p, fs_Status = ''modified'', fs_XY = [x, y]\<rparr> else None)
   | PUnmerged x y m p \<Rightarrow> Some \<lparr>fs_Path = p, fs_Status = ''conflict'', fs_XY = [x, y]\<rparr> | _ \<Rightarrow> None)"

definition deleted_of :: "porcelain \<Rightarrow> FileStatus option" where
  "deleted_of e = (case e of PChanged x y m p \<Rightarrow>
     (if y = CHR ''D'' then Some \<lparr>fs_Path = p, fs_Status = ''deleted'', fs_XY = [x, y]\<rparr> else None) | _ \<Rightarrow> None)"

definition untracked_of :: "porcelain \<Rightarrow> FileStatus option" where
  "untracked_of e = (case e of PUntracked p \<Rightarrow> Some \<lparr>fs_Path = p, fs_Status = ''untracked'', fs_XY = ''??''\<rparr> | _ \<Rightarrow> None)"

definition add_entry :: "porcelain \<Rightarrow> StatusResult \<Rightarrow> StatusResult" where
  "add_entry e r =
     r\<lparr>st_Staged := st_Staged r @ List.map_filter staged_of [e], st_Modified := st_Modified r @ List.map_filter modified_of [e],
       st_Deleted := st_Deleted r @ List.map_filter deleted_of [e], st_Untracked := st_Untracked r @ List.map_filter untracked_of [e],
       st_IsClean := (st_IsClean r \<and> staged_of e = None \<and> modified_of e = None \<and> deleted_of e = None \<and> untracked_of e = None)\<rparr>"

lemma Fields_Join: "list_all word_ok ws \<Longrightarrow> Fields (Join '' '' ws) = ws"
proof (induction ws rule: induct_list012)
  case 1
  then show ?case by (simp add: Fields.simps)
next
  case (2 w)
  then have w: "\<forall>c \<in> set w. \<not> is_space c" "w \<noteq> []" by (auto simp: word_ok_def list_all_iff)
  then have "dropWhile is_space w = w" by (cases w) simp_all
  moreover have "takeWhile (\<lambda>c. \<not> is_space c) w = w" "dropWhile (\<lambda>c. \<not> is_space c) w = []"
    using w(1) by (simp_all add: takeWhile_eq_all_conv)
  ultimately show ?case
    using w by (simp add: Fields.simps [of w] Fields.simps [of "[]"] dropWhile_eq_Nil_conv [THEN iffD2])
next
  case (3 w v ws)
  let ?r = "Join '' '' (v # ws)"
  have sp: "is_space (CHR '' '')" by (simp add: byte_defs)
  have w: "list_all (\<lambda>c. \<not> is_space c) w" "w \<noteq> []" "\<not> is_space (hd w)" using 3(3) by (auto simp: word_ok_def list_all_iff)
  have "dropWhile is_space (w @ '' '' @ ?r) = w @ '' '' @ ?r" using w by (cases w) auto
  moreover have "takeWhile (\<lambda>c. \<not> is_space c) (w @ '' '' @ ?r) = w" "dropWhile (\<lambda>c. \<not> is_space c) (w @ '' '' @ ?r) = '' '' @ ?r"
    using w sp by (simp_all add: takeWhile_append dropWhile_append list_all_iff)
  moreover have "Fields ('' '' @ ?r) = Fields ?r"
    using sp by (simp add: Fields.simps [of "CHR '' '' # ?r"] Fields.simps [of ?r])
  ultimately have "Fields (w @ '' '' @ ?r) = w # Fields ?r" using w(2) by (subst Fields.simps) (simp add: Let_def)
  then show ?case using 3 by simp
qed

lemma word_no: "word_ok w \<Longrightarrow> is_space c \<Longrightarrow> c \<notin> set w"
  by (auto simp: word_ok_def list_all_iff)

lemma Index_absent: "c \<notin> set s \<Longrightarrow> Index s [c] = None"
  by (induction s) auto

lemma words_no: "list_all word_ok ws \<Longrightarrow> is_space c \<Longrightarrow> c \<noteq> CHR '' '' \<Longrightarrow> c \<notin> set (Join '' '' ws)"
  using set_Join [of "'' ''" ws] by (fastforce simp: list_all_iff dest: word_no)

lemma words_line_ok: "list_all word_ok (w # ws) \<Longrightarrow> line_ok (Join '' '' (w # ws))"
proof -
  assume w: "list_all word_ok (w # ws)"
  let ?l = "last (w # ws)"
  have "word_ok w" "word_ok ?l" using w by (simp_all add: list_all_iff)
  then have ne: "w \<noteq> []" "?l \<noteq> []" "\<not> is_space (hd w)" "\<not> is_space (last ?l)"
    by (simp_all add: word_ok_def list_all_iff)
  have "is_space LF" by (simp add: byte_defs)
  then have "LF \<notin> set (Join '' '' (w # ws))" using words_no [OF w, of LF] by simp
  then show ?thesis
    using ne hd_Join [of "w # ws" "'' ''"] last_Join [of "w # ws" "'' ''"] by (simp add: line_ok_def)
qed

lemma changed_words:
  "porcelain_ok (PChanged x y mid path) \<Longrightarrow> list_all word_ok (''1'' # [x, y] # mid @ [path])"
  "porcelain_ok (PUnmerged x y mid path) \<Longrightarrow> list_all word_ok (''u'' # [x, y] # mid @ [path])"
  by (simp_all add: word_ok_def byte_defs)

lemma porcelain_line_ok: "porcelain_ok e \<Longrightarrow> line_ok (porcelain_line e)"
proof (cases e)
  case (PChanged x y mid path)
  assume "porcelain_ok e"
  then show ?thesis using words_line_ok [OF changed_words(1)] PChanged by simp
next
  case (PUnmerged x y mid path)
  assume "porcelain_ok e"
  then show ?thesis using words_line_ok [OF changed_words(2)] PUnmerged by simp
qed (simp_all add: line_ok_def byte_defs)

lemma status_line_spec:
  assumes "porcelain_ok e"
  shows "status_line (porcelain_line e) r = Some (add_entry e r)"
proof (cases e)
  case (PHeader h)
  then show ?thesis
    using assms by (cases h) (simp_all add: status_line_def add_entry_def line_ok_def List.map_filter_simps staged_of_def modified_of_def
        deleted_of_def untracked_of_def)
next
  case (PUntracked p)
  then have "TrimSpace p = p" "p \<noteq> []" using assms TrimSpace_line by (auto simp: line_ok_def)
  then show ?thesis using PUntracked
    by (cases p) (simp_all add: status_line_def add_entry_def List.map_filter_simps staged_of_def modified_of_def deleted_of_def untracked_of_def)
next
  case (PChanged x y mid path)
  let ?ws = "''1'' # [x, y] # mid @ [path]" and ?l = "porcelain_line e"
  have ws: "list_all word_ok ?ws" "length mid = 6" using assms PChanged changed_words(1) [of x y mid path] by simp_all
  have f: "Fields ?l = ?ws" using Fields_Join [OF ws(1)] PChanged by simp
  have "is_space TAB" by (simp add: byte_defs)
  then have t: "tab_path ?l p = p" for p
    using words_no [OF ws(1), of TAB] PChanged by (simp add: tab_path_def Index_absent)
  have h: "hd ?l = CHR ''1''" "\<not> length ?l < 2" using PChanged by (auto simp: Join_Cons)
  have n: "?ws ! 1 = [x, y]" "?ws ! 8 = path" "\<not> length ?ws < 9" using ws(2) by (simp_all add: nth_append)
  have "status_line ?l r = changed_entry ?l ?ws r" using h n(3) by (simp add: status_line_def f Let_def)
  also have "\<dots> = Some (add_entry e r)"
    unfolding changed_entry_def Let_def n(1,2) t using PChanged
    by (simp add: add_entry_def List.map_filter_simps staged_of_def modified_of_def deleted_of_def untracked_of_def)
  finally show ?thesis .
next
  case (PUnmerged x y mid path)
  let ?ws = "''u'' # [x, y] # mid @ [path]" and ?l = "porcelain_line e"
  have ws: "list_all word_ok ?ws" "length mid = 8" using assms PUnmerged changed_words(2) [of x y mid path] by simp_all
  have f: "Fields ?l = ?ws" using Fields_Join [OF ws(1)] PUnmerged by simp
  have "is_space TAB" by (simp add: byte_defs)
  then have t: "tab_path ?l p = p" for p
    using words_no [OF ws(1), of TAB] PUnmerged by (simp add: tab_path_def Index_absent)
  have h: "hd ?l = CHR ''u''" "\<not> length ?l < 2" using PUnmerged by (auto simp: Join_Cons)
  have n: "?ws ! 1 = [x, y]" "drop 10 ?ws = [path]" "11 \<le> length ?ws" using ws(2) by simp_all
  show ?thesis
    unfolding status_line_def Let_def f n(1,2) t using h n(3) PUnmerged
    by (simp add: add_entry_def List.map_filter_simps staged_of_def modified_of_def deleted_of_def untracked_of_def)
qed

definition summary :: "porcelain list \<Rightarrow> StatusResult \<Rightarrow> StatusResult" where
  "summary es r =
     r\<lparr>st_Staged := st_Staged r @ List.map_filter staged_of es, st_Modified := st_Modified r @ List.map_filter modified_of es,
       st_Deleted := st_Deleted r @ List.map_filter deleted_of es, st_Untracked := st_Untracked r @ List.map_filter untracked_of es,
       st_IsClean := (st_IsClean r \<and> list_all (\<lambda>e. staged_of e = None \<and> modified_of e = None \<and> deleted_of e = None \<and> untracked_of e = None) es)\<rparr>"

lemma status_lines_spec:
  "list_all porcelain_ok es \<Longrightarrow> status_lines (map porcelain_line es) r = Some (summary es r)"
proof (induction es arbitrary: r)
  case Nil
  then show ?case by (cases r) (simp add: summary_def List.map_filter_simps)
next
  case (Cons e es)
  then show ?case
    by (simp add: status_line_spec) (simp add: summary_def add_entry_def List.map_filter_simps conj_ac split: option.split)
qed

section \<open>What the parsers get wrong\<close>

text \<open>A change of the file type in the worktree leaves the status clean.\<close>

lemma status_typechange_clean:
  "map_option st_IsClean (status_lines [''1 .T N... 100644 100644 120000 aa bb link''] emptyStatus) = Some True"
  by code_simp

text \<open>A rename is reported under its original path, and a path with a blank is cut.\<close>

lemma status_rename_original:
  "map_option st_Staged (status_lines [''2 R. N... 100644 100644 100644 aa bb R100 new.txt'' @ [TAB] @ ''old.txt''] emptyStatus)
     = Some [\<lparr>fs_Path = ''old.txt'', fs_Status = ''staged'', fs_XY = ''R.''\<rparr>]"
  by code_simp

lemma status_blank_cut:
  "map_option st_Modified (status_lines [''1 .M N... 100644 100644 100644 aa bb my file.txt''] emptyStatus)
     = Some [\<lparr>fs_Path = ''my'', fs_Status = ''modified'', fs_XY = ''.M''\<rparr>]"
  by code_simp

text \<open>
  The header line of a blame block is the hash and two or three numbers, so the line number is never
  read.
\<close>

lemma blame_header_no_line:
  assumes "length key = 40" "CHR '' '' \<in> set val" "\<not> HasPrefix val '' ''"
  shows "map_option bl_Line (blame_header key val cur) = Some (bl_Line (cur_or_new cur))"
proof -
  have "\<not> is_digit (CHR '' '')" by (simp add: byte_defs)
  moreover have "CHR '' '' \<in> set (if HasPrefix val ''-'' \<or> HasPrefix val ''+'' then drop 1 val else val)"
    using assms(2,3) by (cases val) auto
  ultimately have "Atoi val = None" unfolding Atoi_def Let_def list_all_iff by auto
  moreover have "key \<noteq> ''author''" "key \<noteq> ''author-time''" "key \<noteq> ''summary''" using assms(1) by auto
  ultimately show ?thesis using assms(1) by (simp add: blame_header_def Let_def)
qed

text \<open>An added line that begins with \<open>++ b/\<close> is taken for a file marker; a binary file has no path.\<close>

lemma diff_added_marker:
  "parse_diff (unlines [''diff --git a/f b/f'', ''index 1..2 100644'', ''--- a/f'', ''+++ b/f'', ''@@ -1 +1,2 @@'', '' x'', ''+++ b/other''])
   = [\<lparr>df_Path = ''other'', df_OldPath = [], df_Status = ''modified'',
       df_Hunks = [\<lparr>dh_Header = ''@@ -1 +1,2 @@'', dh_Lines = ['' x'', []]\<rparr>], df_IsBinary = False\<rparr>]"
  by code_simp

lemma diff_binary_no_path:
  "map df_Path (parse_diff (unlines [''diff --git a/x.png b/x.png'', ''index 1..2 100644'', ''Binary files a/x.png and b/x.png differ''])) = [[]]"
  by code_simp

text \<open>A local branch with a slash, as \<open>BranchForTask\<close> names them, is listed as remote.\<close>

lemma branch_slash_remote:
  "map_option br_IsRemote (branch_entry ''feature/t-1|abc1234|*'') = Some True"
  by code_simp

text \<open>A tag message of several lines gives an entry per line that has two bars.\<close>

lemma tag_message_lines:
  "map tg_Name (List.map_filter tag_entry (splitLines (unlines [''v1|abc|tag|notes'', ''a | b | c'']))) = [''v1'', ''a '']"
  by code_simp

section \<open>Properties\<close>

lemma replace_safe: "list_all id_char s \<Longrightarrow> replace_unsafe b s = s"
  by (induction s arbitrary: b) (auto simp: id_char_def unsafe_char_def is_alnum_def)

lemma ToLower_id_chars: "list_all id_char s \<Longrightarrow> ToLower s = s"
proof -
  assume "list_all id_char s"
  then have "lower_char c = c" if "c \<in> set s" for c
    using that by (auto simp: list_all_iff id_char_def lower_char_def byte_defs)
  then show ?thesis unfolding ToLower_def by (intro map_idI)
qed

lemma cleanTaskID_idem: "cleanTaskID (cleanTaskID v) = cleanTaskID v"
proof -
  let ?s = "cleanTaskID v"
  have c: "list_all id_char ?s" by (rule cleanTaskID_chars)
  then have n: "\<not> is_space x" if "x \<in> set ?s" for x
    using that by (auto simp: list_all_iff id_char_def byte_defs)
  have "TrimSpace ?s = ?s" unfolding TrimSpace_def
    by (rule TrimP_fixed) (use n in \<open>cases "?s = []"; simp\<close>)
  moreover have "TrimP dot_dash ?s = ?s"
    using TrimP_ends [of dot_dash "replace_unsafe False (ToLower (TrimSpace v))"]
    unfolding cleanTaskID_def [of v] by (rule TrimP_fixed)
  ultimately show ?thesis using c by (subst cleanTaskID_def) (simp add: ToLower_id_chars replace_safe)
qed

text \<open>
  Task names are safe.  An accepted branch name is a valid type, a slash and a single
  component of lower-case letters, digits, dots, underscores and dashes; the worktree of the task is
  that component directly below \<open>.worktrees\<close>, whatever the task id was, and cleaning it again changes nothing.
\<close>

theorem task_names_safe:
  "case BranchForTask ty i of
     Inl e \<Rightarrow> cleanTaskType ty = [] \<or> cleanTaskID i = [] \<or> branch_type_ok (cleanTaskType ty) = False
   | Inr b \<Rightarrow> b = cleanTaskType ty @ ''/'' @ cleanTaskID i \<and> branch_type_ok (cleanTaskType ty)
       \<and> list_all id_char (cleanTaskID i) \<and> plain_comp (cleanTaskID i)
       \<and> WorktreePathForID i = ''.worktrees/'' @ cleanTaskID i \<and> below (WorktreePathForID i)
       \<and> WorktreePathForID (cleanTaskID i) = WorktreePathForID i"
proof (cases "BranchForTask ty i")
  case (Inl e)
  then show ?thesis by (auto simp: BranchForTask_def Let_def split: if_splits)
next
  case (Inr b)
  then have b: "b = cleanTaskType ty @ ''/'' @ cleanTaskID i" "branch_type_ok (cleanTaskType ty)" "cleanTaskID i \<noteq> []"
    by (auto simp: BranchForTask_def Let_def split: if_splits)
  have "WorktreePathForID (cleanTaskID i) = WorktreePathForID i" by (simp add: WorktreePathForID_def cleanTaskID_idem)
  moreover have "WorktreePathForID i = ''.worktrees/'' @ cleanTaskID i" "below (WorktreePathForID i)"
    using WorktreePath_shape [OF b(3)] by blast+
  moreover have "list_all id_char (cleanTaskID i)" "plain_comp (cleanTaskID i)"
    using cleanTaskID_chars cleanTaskID_plain b(3) by blast+
  ultimately show ?thesis unfolding Inr using b by (simp only: sum.case simp_thms)
qed

text \<open>
  Owned files stay inside the repository.  The list is refused exactly when some entry names
  something outside; otherwise it holds, once each, the cleaned names, all of them strictly below the
  repository.
\<close>

theorem owned_files_confined:
  "case normalizeOwnedFiles fs of
     Inl e \<Rightarrow> list_ex escapes fs
   | Inr owned \<Rightarrow> list_ex escapes fs = False \<and> distinct owned \<and> list_all below owned
       \<and> set owned = {c \<in> (\<lambda>f. Clean (TrimSpace f)) ` set fs. c \<noteq> ''.''}"
proof (cases "owned_loop [] fs")
  case (Inl e)
  then show ?thesis using owned_loop_spec [where owned = "[]" and fs = fs] by (simp add: normalizeOwnedFiles_def)
next
  case (Inr out)
  then have o: "\<not> list_ex escapes fs" "distinct out" "set out = {c \<in> (\<lambda>f. Clean (TrimSpace f)) ` set fs. c \<noteq> ''.''}"
    using owned_loop_spec [where owned = "[]" and fs = fs] by simp_all
  then have "list_all below out" using not_escapes_below by (auto simp: list_all_iff list_ex_iff)
  with o Inr show ?thesis by (simp add: normalizeOwnedFiles_def)
qed


definition diff_ex :: "string \<Rightarrow> string list \<Rightarrow> DiffFile" where
  "diff_ex p ls = \<lparr>df_Path = p, df_OldPath = [], df_Status = ''modified'',
     df_Hunks = [\<lparr>dh_Header = ''@@ -1 +1 @@'', dh_Lines = ls\<rparr>], df_IsBinary = False\<rparr>"


text \<open>The two additions on one file.\<close>

lemma diff_blank_path_tab:
  "parse_diff (git_diff [diff_ex ''a b'' [''-a'', ''+b'']]) = [diff_ex (''a b'' @ [CHR 9]) [''-a'', ''+b'', []]]"
  by code_simp

text \<open>
  A log is read back as it was printed: whatever is in the author and the subject, except
  the unit separator in the fields before the subject, \<open>Log\<close> returns exactly the commits git listed.
\<close>

theorem log_round_trip:
  assumes "list_all commit_ok cs" "TrimSpace (lr_RepoPath rq) \<noteq> []" "git [''rev-parse'', ''--show-toplevel''] = Inr topdir"
    "git (log_args rq) = Inr (unlines (map log_line cs))"
  shows "Log git rq = Inr cs"
proof -
  have "splitLines (unlines (map log_line cs)) = map log_line cs"
    using assms(1) by (intro splitLines_unlines) (simp add: list_all_iff log_line_ok)
  moreover have "List.map_filter (five_fields US) (map log_line cs) = cs"
    using assms(1) by (intro map_filter_Some) (simp add: list_all_iff five_fields_log)
  ultimately show ?thesis using assms by (simp add: Log_def repo_query_def)
qed

theorem log_round_trip_witness:
  "Log (\<lambda>args. if args = [''rev-parse'', ''--show-toplevel''] then Inr ''/r''
          else Inr (unlines [log_line \<lparr>lc_Hash = ''abc'', lc_ShortHash = ''a'', lc_Author = ''Ann | Bob'', lc_Date = ''d'', lc_Message = ''fix: x''\<rparr>]))
     \<lparr>lr_RepoPath = ''/r'', lr_Limit = 5, lr_Path = [], lr_Author = [], lr_Since = [], lr_Until = [], lr_Grep = []\<rparr>
   = Inr [\<lparr>lc_Hash = ''abc'', lc_ShortHash = ''a'', lc_Author = ''Ann | Bob'', lc_Date = ''d'', lc_Message = ''fix: x''\<rparr>]"
proof -
  have "TrimSpace ''/r'' \<noteq> []" by code_simp
  then show ?thesis
    using log_round_trip [of "[\<lparr>lc_Hash = ''abc'', lc_ShortHash = ''a'', lc_Author = ''Ann | Bob'', lc_Date = ''d'', lc_Message = ''fix: x''\<rparr>]"
      "\<lparr>lr_RepoPath = ''/r'', lr_Limit = 5, lr_Path = [], lr_Author = [], lr_Since = [], lr_Until = [], lr_Grep = []\<rparr>"
      "\<lambda>args. if args = [''rev-parse'', ''--show-toplevel''] then Inr ''/r''
          else Inr (unlines [log_line \<lparr>lc_Hash = ''abc'', lc_ShortHash = ''a'', lc_Author = ''Ann | Bob'', lc_Date = ''d'', lc_Message = ''fix: x''\<rparr>])" "''/r''"]
    by (simp add: commit_ok_def US_def byte_defs log_args_def)
qed

text \<open>
  What a status says.  For a porcelain listing whose paths have no white space the four
  lists are exactly the staged, modified or conflicting, deleted and untracked entries in order, and
  the result is clean exactly when there is none.
\<close>

theorem status_reads_porcelain:
  assumes "list_all porcelain_ok es" "TrimSpace repo \<noteq> []" "git [''rev-parse'', ''--show-toplevel''] = Inr topdir"
    "git [''status'', ''--porcelain=v2'', ''--branch'', ''--untracked-files=normal''] = Inr (unlines (map porcelain_line es))"
  shows "\<exists>r. Status git repo = Inr (Some r) \<and> st_Staged r = List.map_filter staged_of es
     \<and> st_Modified r = List.map_filter modified_of es \<and> st_Deleted r = List.map_filter deleted_of es
     \<and> st_Untracked r = List.map_filter untracked_of es
     \<and> st_IsClean r = (st_Staged r = [] \<and> st_Modified r = [] \<and> st_Deleted r = [] \<and> st_Untracked r = [])"
proof -
  have s: "splitLines (unlines (map porcelain_line es)) = map porcelain_line es"
    using assms(1) by (intro splitLines_unlines) (simp add: list_all_iff porcelain_line_ok)
  have d: "st_Staged (with_divergence git x) = st_Staged x" "st_Modified (with_divergence git x) = st_Modified x"
    "st_Deleted (with_divergence git x) = st_Deleted x" "st_Untracked (with_divergence git x) = st_Untracked x"
    "st_IsClean (with_divergence git x) = st_IsClean x" for x
    by (simp_all add: with_divergence_def Let_def)
  have n: "List.map_filter f es = [] \<longleftrightarrow> list_all (\<lambda>e. f e = None) es" for f :: "porcelain \<Rightarrow> FileStatus option"
    by (induction es) (simp_all add: List.map_filter_simps split: option.split)
  show ?thesis
    using assms by (simp add: Status_def Let_def s status_lines_spec [OF assms(1)])
      (auto simp: summary_def d emptyStatus_def n list_all_iff)
qed

theorem status_reads_porcelain_witness:
  "\<exists>r. Status (\<lambda>args. if args = [''status'', ''--porcelain=v2'', ''--branch'', ''--untracked-files=normal'']
                 then Inr (unlines [porcelain_line (PUntracked ''new file'')]) else Inr []) ''/r'' = Inr (Some r)
     \<and> st_Untracked r = [\<lparr>fs_Path = ''new file'', fs_Status = ''untracked'', fs_XY = ''??''\<rparr>] \<and> \<not> st_IsClean r"
proof -
  have "TrimSpace ''/r'' \<noteq> []" by code_simp
  then show ?thesis
    using status_reads_porcelain [of "[PUntracked ''new file'']" "''/r''"
      "\<lambda>args. if args = [''status'', ''--porcelain=v2'', ''--branch'', ''--untracked-files=normal'']
                 then Inr (unlines [porcelain_line (PUntracked ''new file'')]) else Inr []" "[]"]
    by (auto simp: line_ok_def byte_defs List.map_filter_simps untracked_of_def)
qed

end
