(* ===== verification/GitCommit.thy ===== *)
theory GitCommit
  imports GitTextFacts "HOL-Library.List_Lexorder" "HOL-Library.Char_ord"
begin

text \<open>
  Package \<open>gitops\<close>, the guarded changes: \<open>preflight.go\<close>, \<open>git_commit.go\<close>, \<open>git_commitlock.go\<close> and
  \<open>git_worktree.go\<close>.  A commit acts on a world \<open>'w\<close> through the calls of \<open>git_ops\<close>: the git program with
  or without \<open>GIT_INDEX_FILE\<close>, \<open>os.Stat\<close>, the lock file, the copy of the index and its removal.
\<close>

section \<open>Preflight\<close>

record PreflightResult =
  pf_Status :: string
  pf_Branch :: string
  pf_OwnedNew :: "string list"
  pf_OwnedModified :: "string list"
  pf_OwnedDeleted :: "string list"
  pf_UnownedModified :: "string list"
  pf_StagedOutsideOwned :: "string list"
  pf_UntrackedFiles :: "string list"

definition emptyPreflight :: PreflightResult where
  "emptyPreflight = \<lparr>pf_Status = ''ok'', pf_Branch = [], pf_OwnedNew = [], pf_OwnedModified = [], pf_OwnedDeleted = [],
     pf_UnownedModified = [], pf_StagedOutsideOwned = [], pf_UntrackedFiles = []\<rparr>"

definition staged_args :: "string list" where
  "staged_args = [''diff'', ''--cached'', ''--name-only'']"

definition tracked_args :: "string list \<Rightarrow> string list" where
  "tracked_args owned = [''ls-files'', ''--''] @ literalOwnedPathspecs owned"

definition isFileModified :: "git_query \<Rightarrow> string \<Rightarrow> (string, bool) result" where
  "isFileModified git f = rbind (git [''diff'', ''--name-only'', ''--'', f]) (\<lambda>out. Inr (TrimSpace out \<noteq> []))"

text \<open>\<open>exists\<close>: does \<open>EvalSymlinks\<close> of the file in the repository succeed?\<close>

fun classify_loop ::
  "git_query \<Rightarrow> (string \<Rightarrow> bool) \<Rightarrow> string list \<Rightarrow> string list \<Rightarrow> PreflightResult \<Rightarrow> (string, PreflightResult) result" where
  "classify_loop git exists tracked [] r = Inr r"
| "classify_loop git exists tracked (f # fs) r =
     (if \<not> exists f then
        classify_loop git exists tracked fs
          (if f \<in> set tracked then r\<lparr>pf_OwnedDeleted := pf_OwnedDeleted r @ [f]\<rparr> else r)
      else if f \<notin> set tracked then classify_loop git exists tracked fs (r\<lparr>pf_OwnedNew := pf_OwnedNew r @ [f]\<rparr>)
      else rbind (isFileModified git f) (\<lambda>m.
        classify_loop git exists tracked fs (if m then r\<lparr>pf_OwnedModified := pf_OwnedModified r @ [f]\<rparr> else r)))"

definition classifyOwnedFiles ::
  "git_query \<Rightarrow> (string \<Rightarrow> bool) \<Rightarrow> string list \<Rightarrow> PreflightResult \<Rightarrow> (string, PreflightResult) result" where
  "classifyOwnedFiles git exists owned r =
     rbind (git (tracked_args owned)) (\<lambda>out.
       rbind (classify_loop git exists (splitLines out) owned r) (\<lambda>r1.
         Inr (r1\<lparr>pf_OwnedNew := sort (pf_OwnedNew r1), pf_OwnedModified := sort (pf_OwnedModified r1),
                 pf_OwnedDeleted := sort (pf_OwnedDeleted r1)\<rparr>)))"

definition detectStagedOutsideOwned :: "git_query \<Rightarrow> string list \<Rightarrow> PreflightResult \<Rightarrow> (string, PreflightResult) result" where
  "detectStagedOutsideOwned git owned r =
     rbind (git staged_args) (\<lambda>out. Inr (r\<lparr>pf_StagedOutsideOwned := sort (filter (\<lambda>f. f \<notin> set owned) (splitLines out))\<rparr>))"

definition detectUnownedModified :: "git_query \<Rightarrow> string list \<Rightarrow> PreflightResult \<Rightarrow> (string, PreflightResult) result" where
  "detectUnownedModified git owned r =
     rbind (git [''diff'', ''--name-only'']) (\<lambda>out.
       Inr (r\<lparr>pf_UnownedModified := sort (filter (\<lambda>f. f \<notin> set owned) (splitLines out))\<rparr>))"

definition detectUntrackedFiles :: "git_query \<Rightarrow> string list \<Rightarrow> PreflightResult \<Rightarrow> (string, PreflightResult) result" where
  "detectUntrackedFiles git owned r =
     rbind (git [''ls-files'', ''--others'', ''--exclude-standard'']) (\<lambda>out.
       Inr (r\<lparr>pf_UntrackedFiles := sort (filter (\<lambda>f. f \<noteq> ''.git'' \<and> f \<notin> set owned) (splitLines out))\<rparr>))"

definition computeStatus :: "PreflightResult \<Rightarrow> string" where
  "computeStatus r =
     (if pf_StagedOutsideOwned r \<noteq> [] then ''conflict''
      else if pf_UnownedModified r \<noteq> [] \<or> pf_UntrackedFiles r \<noteq> [] then ''dirty'' else ''ok'')"

definition PreflightCommit :: "git_query \<Rightarrow> (string \<Rightarrow> bool) \<Rightarrow> string \<Rightarrow> string list \<Rightarrow> (string, PreflightResult) result" where
  "PreflightCommit git exists repoPath files =
     (if TrimSpace repoPath = [] then Inl ''repo_path is required''
      else if files = [] then Inl ''files must not be empty''
      else rbind (git [''rev-parse'', ''--show-toplevel'']) (\<lambda>_.
        rbind (normalizeOwnedFiles files) (\<lambda>owned.
          rbind (classifyOwnedFiles git exists owned
                   (emptyPreflight\<lparr>pf_Branch := TrimSpace (output_or_empty (git [''rev-parse'', ''--abbrev-ref'', ''HEAD'']))\<rparr>)) (\<lambda>r1.
            rbind (detectStagedOutsideOwned git owned r1) (\<lambda>r2.
              rbind (detectUnownedModified git owned r2) (\<lambda>r3.
                rbind (detectUntrackedFiles git owned r3) (\<lambda>r4. Inr (r4\<lparr>pf_Status := computeStatus r4\<rparr>))))))))"

section \<open>The world of a commit\<close>

datatype stat_result = StatDir | StatFile | StatNotExist | StatError string

datatype file_read = FileBytes string | FileMissing | FileError string

record 'w git_ops =
  op_git :: "string \<Rightarrow> string option \<Rightarrow> string list \<Rightarrow> 'w \<Rightarrow> (string, string) result \<times> 'w"
  op_stat :: "string \<Rightarrow> 'w \<Rightarrow> stat_result"
  op_lock :: "string \<Rightarrow> 'w \<Rightarrow> string option \<times> 'w"
  op_unlock :: "string \<Rightarrow> 'w \<Rightarrow> 'w"
  op_readIndex :: "string \<Rightarrow> 'w \<Rightarrow> file_read"
  op_writeScratch :: "string \<Rightarrow> string \<Rightarrow> 'w \<Rightarrow> string option \<times> 'w"
  op_remove :: "string \<Rightarrow> 'w \<Rightarrow> 'w"

type_synonym ('w, 'a) act = "'w \<Rightarrow> (string, 'a) result \<times> 'w"

definition abind :: "('w, 'a) act \<Rightarrow> ('a \<Rightarrow> ('w, 'b) act) \<Rightarrow> ('w, 'b) act" where
  "abind m f w = (case m w of (Inl e, w1) \<Rightarrow> (Inl e, w1) | (Inr x, w1) \<Rightarrow> f x w1)"

definition areturn :: "'a \<Rightarrow> ('w, 'a) act" where
  "areturn x w = (Inr x, w)"

definition afail :: "string \<Rightarrow> ('w, 'a) act" where
  "afail e w = (Inl e, w)"

text \<open>\<open>runGit\<close>, \<open>runGitIn\<close> and \<open>runGitPlain\<close> all add \<open>GIT_INDEX_FILE\<close> when the context has an isolated index.\<close>

definition runGit :: "('w, 'x) git_ops_scheme \<Rightarrow> string \<Rightarrow> string option \<Rightarrow> string list \<Rightarrow> ('w, string) act" where
  "runGit ops dir idx args = op_git ops dir idx args"

definition stagedFiles :: "('w, 'x) git_ops_scheme \<Rightarrow> string \<Rightarrow> string option \<Rightarrow> ('w, string list) act" where
  "stagedFiles ops repo idx = abind (runGit ops repo idx staged_args) (\<lambda>out. areturn (splitLines out))"

definition trackedOwnedFiles :: "('w, 'x) git_ops_scheme \<Rightarrow> string \<Rightarrow> string option \<Rightarrow> string list \<Rightarrow> ('w, string list) act" where
  "trackedOwnedFiles ops repo idx owned = abind (runGit ops repo idx (tracked_args owned)) (\<lambda>out. areturn (splitLines out))"

definition ignoredOwnedFiles :: "('w, 'x) git_ops_scheme \<Rightarrow> string \<Rightarrow> string option \<Rightarrow> string list \<Rightarrow> ('w, string list) act" where
  "ignoredOwnedFiles ops repo idx fs w =
     (if fs = [] then (Inr [], w)
      else (case runGit ops repo idx ([''check-ignore'', ''--''] @ literalOwnedPathspecs fs) w of
              (Inl e, w1) \<Rightarrow> (Inr [], w1)
            | (Inr out, w1) \<Rightarrow> (Inr (map (\<lambda>l. TrimPrefix l ''./'') (splitLines out)), w1)))"

section \<open>Commit\<close>

record CommitResult =
  cm_Status :: string
  cm_Commit :: string
  cm_StagedFiles :: "string list"
  cm_Reason :: string

definition commit_result :: "string \<Rightarrow> string list \<Rightarrow> string \<Rightarrow> CommitResult" where
  "commit_result st staged reason = \<lparr>cm_Status = st, cm_Commit = [], cm_StagedFiles = staged, cm_Reason = reason\<rparr>"

definition foreign :: "string list \<Rightarrow> string list \<Rightarrow> string option" where
  "foreign owned fs = find (\<lambda>f. f \<notin> set owned) fs"

text \<open>The owned files that are untracked and exist.\<close>

fun new_files :: "(string \<Rightarrow> stat_result) \<Rightarrow> string \<Rightarrow> string list \<Rightarrow> string list \<Rightarrow> (string, string list) result" where
  "new_files st repo tracked [] = Inr []"
| "new_files st repo tracked (f # fs) =
     (if f \<in> set tracked then new_files st repo tracked fs
      else (case st (JoinPath [repo, f]) of
              StatNotExist \<Rightarrow> new_files st repo tracked fs
            | StatError e \<Rightarrow> Inl e
            | _ \<Rightarrow> rbind (new_files st repo tracked fs) (\<lambda>r. Inr (f # r))))"

definition add_files :: "('w, 'x) git_ops_scheme \<Rightarrow> string \<Rightarrow> string option \<Rightarrow> string list \<Rightarrow> string list \<Rightarrow> ('w, unit) act" where
  "add_files ops repo idx args fs =
     (if fs = [] then areturn () else abind (runGit ops repo idx (args @ literalOwnedPathspecs fs)) (\<lambda>_. areturn ()))"

definition add_new :: "('w, 'x) git_ops_scheme \<Rightarrow> string \<Rightarrow> string option \<Rightarrow> string list \<Rightarrow> ('w, unit) act" where
  "add_new ops repo idx fs =
     (if fs = [] then areturn ()
      else abind (ignoredOwnedFiles ops repo idx fs) (\<lambda>ignored.
        abind (add_files ops repo idx [''add'', ''--''] (filter (\<lambda>f. f \<notin> set ignored) fs)) (\<lambda>_.
          add_files ops repo idx [''add'', ''-f'', ''--''] (filter (\<lambda>f. f \<in> set ignored) fs))))"

definition commit_staged ::
  "('w, 'x) git_ops_scheme \<Rightarrow> string \<Rightarrow> string option \<Rightarrow> string \<Rightarrow> string list \<Rightarrow> ('w, CommitResult) act" where
  "commit_staged ops repo idx message owned =
     abind (stagedFiles ops repo idx) (\<lambda>staged.
       if staged = [] then areturn (commit_result ''skipped'' [] ''no staged diff'')
       else (case foreign owned staged of
           Some f \<Rightarrow> areturn (commit_result ''conflict'' staged (''staged diff contains file outside owned set: '' @ f))
         | None \<Rightarrow>
             abind (runGit ops repo idx [''commit'', ''-m'', message]) (\<lambda>_.
               abind (runGit ops repo idx [''rev-parse'', ''--short'', ''HEAD'']) (\<lambda>c.
                 areturn ((commit_result ''ok'' staged [])\<lparr>cm_Commit := TrimSpace c\<rparr>)))))"

definition commitOwnedLocked ::
  "('w, 'x) git_ops_scheme \<Rightarrow> string \<Rightarrow> string option \<Rightarrow> string \<Rightarrow> string list \<Rightarrow> ('w, CommitResult) act" where
  "commitOwnedLocked ops repo idx message owned =
     abind (stagedFiles ops repo idx) (\<lambda>pre.
       case foreign owned pre of
         Some f \<Rightarrow> areturn (commit_result ''conflict'' pre (''index already contains file outside owned set: '' @ f))
       | None \<Rightarrow>
           abind (trackedOwnedFiles ops repo idx owned) (\<lambda>tracked.
             abind (add_files ops repo idx [''add'', ''-u'', ''--''] tracked) (\<lambda>_ w.
               case new_files (\<lambda>p. op_stat ops p w) repo tracked owned of
                 Inl e \<Rightarrow> (Inl e, w)
               | Inr fresh \<Rightarrow> abind (add_new ops repo idx fresh) (\<lambda>_. commit_staged ops repo idx message owned) w)))"

definition wrapped :: "string \<Rightarrow> ('w, 'a) act \<Rightarrow> ('w, 'a) act" where
  "wrapped what m w = (case m w of (Inl e, w1) \<Rightarrow> (Inl (what @ '': '' @ e), w1) | (Inr x, w1) \<Rightarrow> (Inr x, w1))"

definition gitDirOf :: "('w, 'x) git_ops_scheme \<Rightarrow> string \<Rightarrow> ('w, string) act" where
  "gitDirOf ops repo =
     abind (wrapped ''resolve git dir'' (runGit ops repo None [''rev-parse'', ''--path-format=absolute'', ''--git-dir''])) (\<lambda>out.
       if TrimSpace out = [] then afail ''resolve git dir: empty result'' else areturn (TrimSpace out))"

definition snapshotIndex :: "('w, 'x) git_ops_scheme \<Rightarrow> string \<Rightarrow> string \<Rightarrow> string \<Rightarrow> ('w, unit) act" where
  "snapshotIndex ops emptyIndex gitDir scratch w =
     (case op_readIndex ops (JoinPath [gitDir, ''index'']) w of
        FileError e \<Rightarrow> (Inl (''read index: '' @ e), w)
      | q \<Rightarrow>
          (case op_writeScratch ops scratch (case q of FileBytes s \<Rightarrow> s | _ \<Rightarrow> emptyIndex) w of
             (Some e, w1) \<Rightarrow> (Inl (''write isolated index: '' @ e), w1)
           | (None, w1) \<Rightarrow> (Inr (), w1)))"

text \<open>The scratch index in the git directory is named after the process and the time, the argument \<open>stamp\<close>.\<close>

definition scratchName :: "int \<times> int \<Rightarrow> string" where
  "scratchName stamp = ''cozy-index-'' @ Itoa (fst stamp) @ ''-'' @ Itoa (snd stamp)"

definition withIsolatedIndex ::
  "('w, 'x) git_ops_scheme \<Rightarrow> string \<Rightarrow> string \<Rightarrow> int \<times> int \<Rightarrow> (string \<Rightarrow> ('w, 'a) act) \<Rightarrow> ('w, 'a) act" where
  "withIsolatedIndex ops repo emptyIndex stamp body =
     abind (gitDirOf ops repo) (\<lambda>gitDir w.
       let scratch = JoinPath [gitDir, scratchName stamp];
           q = abind (snapshotIndex ops emptyIndex gitDir scratch) (\<lambda>_. body scratch) w
       in (fst q, op_remove ops scratch (snd q)))"

record CommitRequest =
  cq_RepoPath :: string
  cq_Repo :: string
  cq_Files :: "string list"
  cq_Message :: string

definition noCommit :: CommitResult where
  "noCommit = commit_result [] [] []"

text \<open>What happens under the lock: the transaction, then the real index is moved to the new commit.\<close>

definition commit_under_lock ::
  "('w, 'x) git_ops_scheme \<Rightarrow> string \<Rightarrow> string \<Rightarrow> int \<times> int \<Rightarrow> string \<Rightarrow> string list \<Rightarrow> 'w \<Rightarrow> (CommitResult \<times> string option) \<times> 'w" where
  "commit_under_lock ops repo emptyIndex stamp message owned w =
     (case withIsolatedIndex ops repo emptyIndex stamp (\<lambda>scratch. commitOwnedLocked ops repo (Some scratch) message owned) w of
        (Inl e, w1) \<Rightarrow> ((noCommit, Some e), w1)
      | (Inr r, w1) \<Rightarrow>
          (if cm_Status r \<noteq> ''ok'' then ((r, None), w1)
           else (case runGit ops repo None [''reset'', ''--quiet'', ''--mixed''] w1 of
                   (Inl e, w2) \<Rightarrow> ((r, Some (''sync index after commit: '' @ e)), w2)
                 | (Inr _, w2) \<Rightarrow> ((r, None), w2))))"

definition CommitOwned ::
  "('w, 'x) git_ops_scheme \<Rightarrow> string \<Rightarrow> string \<Rightarrow> int \<times> int \<Rightarrow> CommitRequest \<Rightarrow> 'w \<Rightarrow> (CommitResult \<times> string option) \<times> 'w" where
  "CommitOwned ops wd emptyIndex stamp rq w =
     (if TrimSpace (if cq_RepoPath rq = [] then cq_Repo rq else cq_RepoPath rq) = [] then ((noCommit, Some ''repo_path is required''), w)
      else if cq_Files rq = [] then ((commit_result ''skipped'' [] ''no files to commit'', None), w)
      else if TrimSpace (cq_Message rq) = [] then ((noCommit, Some ''message is required''), w)
      else (case runGit ops (Abs wd (if cq_RepoPath rq = [] then cq_Repo rq else cq_RepoPath rq)) None [''rev-parse'', ''--show-toplevel''] w of
        (Inl e, w1) \<Rightarrow> ((noCommit, Some (''not a git repo: '' @ e)), w1)
      | (Inr topdir, w1) \<Rightarrow>
          (case normalizeOwnedFiles (cq_Files rq) of
             Inl e \<Rightarrow> ((noCommit, Some e), w1)
           | Inr owned \<Rightarrow>
               (if owned = [] then ((commit_result ''skipped'' [] ''no non-empty files to commit'', None), w1)
                else (case gitDirOf ops (TrimSpace topdir) w1 of
                  (Inl e, w2) \<Rightarrow> ((noCommit, Some e), w2)
                | (Inr gitDir, w2) \<Rightarrow>
                    (case op_lock ops (JoinPath [gitDir, ''cozy-commit.lock'']) w2 of
                       (Some e, w3) \<Rightarrow> ((noCommit, Some e), w3)
                     | (None, w3) \<Rightarrow>
                         (case commit_under_lock ops (TrimSpace topdir) emptyIndex stamp (cq_Message rq) owned w3 of
                            (r, w4) \<Rightarrow> (r, op_unlock ops (JoinPath [gitDir, ''cozy-commit.lock'']) w4))))))))"

section \<open>Task worktrees\<close>

record 'w wt_ops =
  wo_git :: "string \<Rightarrow> string list \<Rightarrow> 'w \<Rightarrow> (string, string) result \<times> 'w"
  wo_stat :: "string \<Rightarrow> 'w \<Rightarrow> stat_result"
  wo_mkdirAll :: "string \<Rightarrow> 'w \<Rightarrow> string option \<times> 'w"

record WorktreeResult =
  wt_Status :: string
  wt_Branch :: string
  wt_Path :: string
  wt_CodePath :: string
  wt_Created :: bool
  wt_Reason :: string

definition wt_result :: "string \<Rightarrow> string \<Rightarrow> string \<Rightarrow> string \<Rightarrow> bool \<Rightarrow> string \<Rightarrow> WorktreeResult" where
  "wt_result st branch path code created reason =
     \<lparr>wt_Status = st, wt_Branch = branch, wt_Path = path, wt_CodePath = code, wt_Created = created, wt_Reason = reason\<rparr>"

text \<open>The checks on an existing path, in order; \<open>None\<close> when all of them pass.\<close>

definition reuse_conflict ::
  "('w, 'x) wt_ops_scheme \<Rightarrow> string \<Rightarrow> string \<Rightarrow> string \<Rightarrow> 'w \<Rightarrow> string option \<times> 'w" where
  "reuse_conflict ops repo code branch w =
     (case wo_git ops code [''rev-parse'', ''--abbrev-ref'', ''HEAD''] w of
        (Inl e, w1) \<Rightarrow> (Some ''worktree path is not a git checkout'', w1)
      | (Inr current, w1) \<Rightarrow>
          (if TrimSpace current \<noteq> branch then (Some (''worktree path is on branch '' @ TrimSpace current), w1)
           else (case wo_git ops code [''status'', ''--porcelain''] w1 of
             (Inl e, w2) \<Rightarrow> (Some ''worktree status cannot be verified'', w2)
           | (Inr st, w2) \<Rightarrow>
               (if TrimSpace st \<noteq> [] then (Some ''worktree has uncommitted changes'', w2)
                else (case wo_git ops code [''rev-parse'', ''--path-format=absolute'', ''--git-common-dir''] w2 of
                  (Inl e, w3) \<Rightarrow> (Some ''worktree does not belong to this repository'', w3)
                | (Inr common, w3) \<Rightarrow>
                    (if TrimSpace common \<noteq> JoinPath [repo, ''.git''] then (Some ''worktree does not belong to this repository'', w3)
                     else (None, w3)))))))"

definition gitBranchExists :: "('w, 'x) wt_ops_scheme \<Rightarrow> string \<Rightarrow> string \<Rightarrow> 'w \<Rightarrow> bool \<times> 'w" where
  "gitBranchExists ops repo branch w =
     (case wo_git ops repo [''show-ref'', ''--verify'', ''--quiet'', ''refs/heads/'' @ branch] w of (q, w1) \<Rightarrow> (isOk q, w1))"

definition add_worktree ::
  "('w, 'x) wt_ops_scheme \<Rightarrow> string \<Rightarrow> string \<Rightarrow> string \<Rightarrow> string \<Rightarrow> ('w, WorktreeResult) act" where
  "add_worktree ops repo branch path code w =
     (case wo_mkdirAll ops (JoinPath [repo, ''.worktrees'']) w of
        (Some e, w1) \<Rightarrow> (Inl e, w1)
      | (None, w1) \<Rightarrow>
          (case gitBranchExists ops repo branch w1 of
             (found, w2) \<Rightarrow>
               (case wo_git ops repo ([''worktree'', ''add''] @
                        (if found then [code, branch] else [''-b'', branch, code, ''HEAD''])) w2 of
                  (Inl e, w3) \<Rightarrow> (Inl e, w3)
                | (Inr _, w3) \<Rightarrow> (Inr (wt_result ''ok'' branch path code True []), w3))))"

definition escapes_worktrees :: "string \<Rightarrow> string \<Rightarrow> bool" where
  "escapes_worktrees dir code =
     (case Rel dir code of None \<Rightarrow> True | Some rel \<Rightarrow> rel = ''..'' \<or> HasPrefix rel ''../'')"

definition branch_message :: "branch_error \<Rightarrow> string" where
  "branch_message e =
     (case e of
        NoTaskType \<Rightarrow> ''task_type is required for task worktree branch''
      | NoTaskID \<Rightarrow> ''task id is required for task worktree branch''
      | BadTaskType t \<Rightarrow> ''task_type '' @ CHR 0x22 # t @ CHR 0x22 # '' is not a valid branch type'')"

definition PrepareTaskWorktree ::
  "('w, 'x) wt_ops_scheme \<Rightarrow> string \<Rightarrow> string \<Rightarrow> string \<Rightarrow> string \<Rightarrow> ('w, WorktreeResult) act" where
  "PrepareTaskWorktree ops wd repoPath taskID taskType w =
     (if TrimSpace repoPath = [] then (Inl ''repo_path is required'', w)
      else (case BranchForTask taskType taskID of
        Inl e \<Rightarrow> (Inl (branch_message e), w)
      | Inr branch \<Rightarrow>
        (let path = WorktreePathForID taskID in
         if path = [] then (Inl ''task_id is required'', w)
         else (case wo_git ops (Abs wd repoPath) [''rev-parse'', ''--show-toplevel''] w of
           (Inl e, w1) \<Rightarrow> (Inl (''not a git repo: '' @ e), w1)
         | (Inr topdir, w1) \<Rightarrow>
           (let repo = TrimSpace topdir; code = JoinPath [repo, path] in
            if escapes_worktrees (JoinPath [repo, ''.worktrees'']) code then (Inl (''worktree path escapes .worktrees: '' @ path), w1)
            else (case wo_stat ops code w1 of
              StatFile \<Rightarrow> (Inr (wt_result ''conflict'' branch path code False ''worktree path exists and is not a directory''), w1)
            | StatDir \<Rightarrow>
                (case reuse_conflict ops repo code branch w1 of
                   (Some reason, w2) \<Rightarrow> (Inr (wt_result ''conflict'' branch path code False reason), w2)
                 | (None, w2) \<Rightarrow> (Inr (wt_result ''ok'' branch path code False ''worktree already exists''), w2))
            | StatError e \<Rightarrow> (Inl e, w1)
            | StatNotExist \<Rightarrow> add_worktree ops repo branch path code w1))))))"

section \<open>What a transaction leaves alone\<close>

text \<open>A view of the world, the real index for instance, that an action does not change.\<close>

definition keeps :: "('w \<Rightarrow> 'v) \<Rightarrow> ('w, 'a) act \<Rightarrow> bool" where
  "keeps view m \<longleftrightarrow> (\<forall>w. view (snd (m w)) = view w)"

lemma quietD: "keeps view m \<Longrightarrow> m w = (q, w1) \<Longrightarrow> view w1 = view w"
  by (metis keeps_def snd_conv)

lemma quiet_abind [intro]: "keeps view m \<Longrightarrow> (\<And>x. keeps view (f x)) \<Longrightarrow> keeps view (abind m f)"
  by (auto simp: keeps_def abind_def split: prod.split sum.split) (metis snd_conv)+

lemma quiet_return [simp, intro]: "keeps view (areturn x)" "keeps view (afail e)"
  by (simp_all add: keeps_def areturn_def afail_def)

text \<open>
  What the code relies on.  Git with \<open>GIT_INDEX_FILE\<close> naming the scratch file, which is never called \<open>index\<close>, works on
  that file and leaves the view, the real index, alone; so do \<open>rev-parse\<close>, the lock, and writing and removing the
  scratch file itself.  Nothing is said of git calls with another index.
\<close>

definition scratch_path :: "int \<times> int \<Rightarrow> string \<Rightarrow> bool" where
  "scratch_path stamp s \<longleftrightarrow> (\<exists>dir. s = JoinPath [dir, scratchName stamp])"

lemma scratch_path_Join [simp]: "scratch_path stamp (JoinPath [dir, scratchName stamp])"
  by (auto simp: scratch_path_def)

definition index_private :: "('w, 'x) git_ops_scheme \<Rightarrow> int \<times> int \<Rightarrow> ('w \<Rightarrow> 'v) \<Rightarrow> bool" where
  "index_private ops stamp view \<longleftrightarrow>
     (\<forall>dir s args. scratch_path stamp s \<longrightarrow> keeps view (op_git ops dir (Some s) args)) \<and>
     (\<forall>dir args. keeps view (op_git ops dir None (''rev-parse'' # args))) \<and>
     (\<forall>p w. view (snd (op_lock ops p w)) = view w \<and> view (op_unlock ops p w) = view w) \<and>
     (\<forall>p s w. scratch_path stamp p \<longrightarrow> view (snd (op_writeScratch ops p s w)) = view w \<and> view (op_remove ops p w) = view w)"

text \<open>The scratch file is not the index of any absolute git directory.\<close>

lemma scratchName_plain: "plain_comp (scratchName stamp)" "scratchName stamp \<noteq> ''index''"
proof -
  have d: "SLASH \<notin> set (nat_digits n)" for n
    using nat_digits_digits [of n] by (auto simp: list_all_iff byte_defs)
  then have "SLASH \<notin> set (Itoa i)" for i by (simp add: Itoa_def)
  then show "plain_comp (scratchName stamp)" by (auto simp: plain_comp_def scratchName_def)
qed (simp add: scratchName_def)

lemma IsAbs_append: "IsAbs p \<Longrightarrow> IsAbs (p @ q)"
  by (cases p) (auto simp: IsAbs_def)

lemma JoinPath_below_abs:
  assumes "IsAbs p" "list_all plain_comp ds" "ds \<noteq> []"
  obtains cs where "list_all plain_comp cs" "Clean p = abs_of cs" "JoinPath [p, Join [SLASH] ds] = abs_of (cs @ ds)"
proof -
  obtain cs where cs: "list_all plain_comp cs" "Clean p = abs_of cs" using assms(1) Clean_abs by blast
  obtain n cs' where c: "clean_comps True [] (SplitChar SLASH p) = replicate n ''..'' @ cs'" "list_all plain_comp cs'" "n = 0"
    using clean_comps_split [of True p] by (auto simp: dots_then_plain_def)
  then have "Clean p = abs_of cs'" using assms(1) by (simp add: Clean_def abs_of_def)
  then have split: "clean_comps True [] (SplitChar SLASH p) = cs" using c cs by (simp add: abs_of_inject)
  have ne: "Join [SLASH] ds \<noteq> []" "p \<noteq> []"
    using assms below_ne [of "Join [SLASH] ds"] by (auto simp: below_def IsAbs_def)
  then have "JoinPath [p, Join [SLASH] ds] = Clean (p @ SLASH # Join [SLASH] ds)" by (simp add: JoinPath_def)
  also have "\<dots> = abs_of (clean_comps True [] (SplitChar SLASH p @ SplitChar SLASH (Join [SLASH] ds)))"
    using assms(1) by (simp add: Clean_def IsAbs_append SplitChar_snoc abs_of_def)
  also have "\<dots> = abs_of (cs @ ds)"
    using assms(2,3) cs(1) by (simp add: clean_comps_append split below_split clean_comps_plain)
  finally show thesis using that cs by blast
qed

lemma scratch_not_index:
  assumes "IsAbs gitDir"
  shows "JoinPath [gitDir, scratchName stamp] \<noteq> JoinPath [gitDir, ''index'']"
proof -
  have i: "plain_comp ''index''" by (simp add: plain_comp_def)
  obtain cs where cs: "list_all plain_comp cs" "Clean gitDir = abs_of cs" "JoinPath [gitDir, scratchName stamp] = abs_of (cs @ [scratchName stamp])"
    using JoinPath_below_abs [OF assms, of "[scratchName stamp]"] scratchName_plain by auto
  obtain ds where "list_all plain_comp ds" "Clean gitDir = abs_of ds" "JoinPath [gitDir, ''index''] = abs_of (ds @ [''index''])"
    using JoinPath_below_abs [OF assms, of "[''index'']"] i by auto
  then show ?thesis using scratchName_plain [of stamp] i cs by (simp add: abs_of_inject)
qed

lemma quiet_git:
  assumes "index_private ops stamp view"
  shows "scratch_path stamp s \<Longrightarrow> keeps view (runGit ops dir (Some s) args)" "keeps view (runGit ops dir None (''rev-parse'' # args))"
proof -
  have "runGit ops = op_git ops" by (intro ext) (simp add: runGit_def)
  then show "scratch_path stamp s \<Longrightarrow> keeps view (runGit ops dir (Some s) args)" "keeps view (runGit ops dir None (''rev-parse'' # args))"
    using assms by (simp_all add: index_private_def)
qed

section \<open>The calls of a transaction\<close>

text \<open>
  From one world to another by git calls on the index \<open>scratch\<close> in the repository.  Whatever such calls keep, the
  whole transaction keeps.
\<close>

definition scratch_step :: "('w, 'x) git_ops_scheme \<Rightarrow> string \<Rightarrow> string \<Rightarrow> 'w \<Rightarrow> 'w \<Rightarrow> bool" where
  "scratch_step ops repo scratch w w' \<longleftrightarrow> (\<exists>args. w' = snd (op_git ops repo (Some scratch) args w))"

definition on_scratch :: "('w, 'x) git_ops_scheme \<Rightarrow> string \<Rightarrow> string \<Rightarrow> ('w, 'a) act \<Rightarrow> bool" where
  "on_scratch ops repo scratch m \<longleftrightarrow> (\<forall>w. (scratch_step ops repo scratch)\<^sup>*\<^sup>* w (snd (m w)))"

lemma on_scratchD: "on_scratch ops repo scratch m \<Longrightarrow> m w = (q, w') \<Longrightarrow> (scratch_step ops repo scratch)\<^sup>*\<^sup>* w w'"
  by (metis on_scratch_def snd_conv)

lemma on_scratch_git [intro]: "on_scratch ops repo scratch (runGit ops repo (Some scratch) args)"
  by (auto simp: on_scratch_def runGit_def scratch_step_def intro!: r_into_rtranclp)

lemma on_scratch_return [simp, intro]: "on_scratch ops repo scratch (areturn x)"
  by (simp add: on_scratch_def areturn_def)

lemma on_scratch_abind [intro]:
  assumes "on_scratch ops repo scratch m" "\<And>x. on_scratch ops repo scratch (f x)"
  shows "on_scratch ops repo scratch (abind m f)"
proof -
  have "(scratch_step ops repo scratch)\<^sup>*\<^sup>* w (snd (abind m f w))" for w
  proof (cases "m w")
    case (Pair q w1)
    with on_scratchD [OF assms(1)] have w1: "(scratch_step ops repo scratch)\<^sup>*\<^sup>* w w1" by blast
    show ?thesis
    proof (cases q)
      case (Inr x)
      have "(scratch_step ops repo scratch)\<^sup>*\<^sup>* w1 (snd (f x w1))" using assms(2) by (simp add: on_scratch_def)
      with w1 show ?thesis using Pair Inr by (simp add: abind_def)
    qed (use w1 Pair in \<open>simp add: abind_def\<close>)
  qed
  then show ?thesis by (simp add: on_scratch_def)
qed

lemma on_scratch_add_files [intro]: "on_scratch ops repo s (add_files ops repo (Some s) args fs)"
  by (auto simp: add_files_def)

lemma on_scratch_ignored [intro]: "on_scratch ops repo s (ignoredOwnedFiles ops repo (Some s) fs)"
proof -
  have "(scratch_step ops repo s)\<^sup>*\<^sup>* w (snd (ignoredOwnedFiles ops repo (Some s) fs w))" for w
  proof (cases "runGit ops repo (Some s) ([''check-ignore'', ''--''] @ literalOwnedPathspecs fs) w")
    case (Pair q w1)
    from on_scratchD [OF on_scratch_git this] Pair show ?thesis
      by (cases q) (simp_all add: ignoredOwnedFiles_def)
  qed
  then show ?thesis by (simp add: on_scratch_def)
qed

lemma on_scratch_add_new [intro]: "on_scratch ops repo s (add_new ops repo (Some s) fs)"
  by (auto simp: add_new_def intro!: on_scratch_abind)

lemma on_scratch_commit_staged [intro]: "on_scratch ops repo s (commit_staged ops repo (Some s) message owned)"
  by (auto simp: commit_staged_def stagedFiles_def intro!: on_scratch_abind split: option.split)

lemma on_scratch_locked: "on_scratch ops repo s (commitOwnedLocked ops repo (Some s) message owned)"
proof -
  have n: "on_scratch ops repo s (\<lambda>w. case new_files (\<lambda>p. op_stat ops p w) repo tracked owned of
                 Inl e \<Rightarrow> (Inl e, w)
               | Inr fresh \<Rightarrow> abind (add_new ops repo (Some s) fresh) (\<lambda>_. commit_staged ops repo (Some s) message owned) w)" for tracked
  proof -
    have "on_scratch ops repo s (abind (add_new ops repo (Some s) fresh) (\<lambda>_. commit_staged ops repo (Some s) message owned))" for fresh
      by blast
    then show ?thesis by (simp add: on_scratch_def split: sum.split)
  qed
  show ?thesis
    unfolding commitOwnedLocked_def stagedFiles_def trackedOwnedFiles_def
    by (auto intro!: on_scratch_abind n split: option.split)
qed

lemma scratch_keeps:
  assumes "index_private ops stamp view" "scratch_path stamp s"
  shows "(scratch_step ops repo s)\<^sup>*\<^sup>* w w' \<Longrightarrow> view w' = view w"
proof (induction rule: rtranclp_induct)
  case (step w1 w2)
  then show ?case using assms by (auto simp: scratch_step_def index_private_def keeps_def)
qed simp

lemma quiet_locked:
  assumes "index_private ops stamp view" "scratch_path stamp s"
  shows "keeps view (commitOwnedLocked ops repo (Some s) message owned)"
  using scratch_keeps [OF assms] on_scratch_locked [of ops repo s message owned]
  by (simp add: keeps_def on_scratch_def) blast

lemma quiet_wrapped:
  assumes "keeps view m"
  shows "keeps view (wrapped what m)"
proof -
  have "view (snd (wrapped what m w)) = view w" for w
  proof (cases "m w")
    case (Pair q w1)
    from quietD [OF assms this] Pair show ?thesis by (cases q) (simp_all add: wrapped_def)
  qed
  then show ?thesis by (simp add: keeps_def)
qed

lemma quiet_gitDir: "index_private ops stamp view \<Longrightarrow> keeps view (gitDirOf ops repo)"
  by (auto simp: gitDirOf_def intro!: quiet_abind quiet_wrapped quiet_git)

lemma quiet_snapshot: "index_private ops stamp view \<Longrightarrow> scratch_path stamp p \<Longrightarrow> keeps view (snapshotIndex ops e gitDir p)"
  by (auto simp: keeps_def snapshotIndex_def index_private_def split: prod.split file_read.split option.split) (metis snd_conv)+

lemma quiet_isolated:
  assumes "index_private ops stamp view" "\<And>s. scratch_path stamp s \<Longrightarrow> keeps view (body s)"
  shows "keeps view (withIsolatedIndex ops repo e stamp body)"
proof -
  have r: "view (op_remove ops (JoinPath [dir, scratchName stamp]) w) = view w" for dir w
    using assms(1) by (simp add: index_private_def)
  have "keeps view (abind (snapshotIndex ops e gitDir (JoinPath [gitDir, scratchName stamp])) (\<lambda>_. body (JoinPath [gitDir, scratchName stamp])))" for gitDir
    using quiet_snapshot [OF assms(1)] assms(2) by (intro quiet_abind) simp_all
  then have "keeps view (\<lambda>w. let scratch = JoinPath [gitDir, scratchName stamp];
           q = abind (snapshotIndex ops e gitDir scratch) (\<lambda>_. body scratch) w in (fst q, op_remove ops scratch (snd q)))" for gitDir
    by (simp add: keeps_def Let_def r)
  then show ?thesis unfolding withIsolatedIndex_def by (intro quiet_abind quiet_gitDir [OF assms(1)])
qed

text \<open>The view after a commit: untouched, or what one mixed reset makes of it.\<close>

definition reset_view :: "('w, 'x) git_ops_scheme \<Rightarrow> string \<Rightarrow> ('w \<Rightarrow> 'v) \<Rightarrow> 'w \<Rightarrow> 'w \<Rightarrow> bool" where
  "reset_view ops repo view w w' \<longleftrightarrow>
     (\<exists>w1. view w1 = view w \<and> view w' = view (snd (op_git ops repo None [''reset'', ''--quiet'', ''--mixed''] w1)))"

lemma under_lock_view:
  assumes "index_private ops stamp view" "commit_under_lock ops repo e stamp message owned w = ((r, er), w')"
  shows "if cm_Status r = ''ok'' then reset_view ops repo view w w' else view w' = view w"
proof -
  let ?m = "withIsolatedIndex ops repo e stamp (\<lambda>scratch. commitOwnedLocked ops repo (Some scratch) message owned)"
  obtain q w1 where m: "?m w = (q, w1)" by fastforce
  have v: "view w1 = view w" using quietD [OF quiet_isolated [OF assms(1) quiet_locked [OF assms(1)]] m] .
  show ?thesis
  proof (cases q)
    case (Inl x)
    then show ?thesis using assms m v by (auto simp: commit_under_lock_def noCommit_def commit_result_def)
  next
    case (Inr x)
    obtain q2 w2 where g: "op_git ops repo None [''reset'', ''--quiet'', ''--mixed''] w1 = (q2, w2)" by fastforce
    then have "reset_view ops repo view w w2" using v unfolding reset_view_def by (intro exI [of _ w1]) simp
    then show ?thesis using assms(2) m v Inr g
      by (cases q2) (auto simp: commit_under_lock_def runGit_def split: if_splits)
  qed
qed

text \<open>The two ways \<open>CommitOwned\<close> ends: before the lock is held, or with the locked part.\<close>

definition toplevel :: "('w, 'x) git_ops_scheme \<Rightarrow> string \<Rightarrow> CommitRequest \<Rightarrow> ('w, string) act" where
  "toplevel ops wd rq =
     op_git ops (Abs wd (if cq_RepoPath rq = [] then cq_Repo rq else cq_RepoPath rq)) None [''rev-parse'', ''--show-toplevel'']"

definition lock_file :: "string \<Rightarrow> string" where
  "lock_file gitDir = JoinPath [gitDir, ''cozy-commit.lock'']"

lemma CommitOwned_cases:
  assumes "CommitOwned ops wd e stamp rq w = ((r, er), w')" "index_private ops stamp view"
  obtains (early) "cm_Status r \<noteq> ''ok''" "view w' = view w"
  | (locked) topdir owned gitDir w1 w2 w3 w4 where "toplevel ops wd rq w = (Inr topdir, w1)" "normalizeOwnedFiles (cq_Files rq) = Inr owned"
      "gitDirOf ops (TrimSpace topdir) w1 = (Inr gitDir, w2)" "op_lock ops (lock_file gitDir) w2 = (None, w3)" "view w3 = view w"
      "commit_under_lock ops (TrimSpace topdir) e stamp (cq_Message rq) owned w3 = ((r, er), w4)" "w' = op_unlock ops (lock_file gitDir) w4"
proof -
  have l: "view (snd (op_lock ops p x)) = view x" for p x using assms(2) by (simp add: index_private_def)
  have no: "cm_Status noCommit \<noteq> ''ok''" "cm_Status (commit_result ''skipped'' [] m) \<noteq> ''ok''" for m
    by (simp_all add: noCommit_def commit_result_def)
  obtain q1 w1 where q1: "runGit ops (Abs wd (if cq_RepoPath rq = [] then cq_Repo rq else cq_RepoPath rq)) None [''rev-parse'', ''--show-toplevel''] w = (q1, w1)" by fastforce
  have v1: "view w1 = view w" using quietD [OF quiet_git(2) [OF assms(2)] q1] .
  obtain q2 w2 where q2: "gitDirOf ops (TrimSpace (case q1 of Inr t \<Rightarrow> t | Inl _ \<Rightarrow> [])) w1 = (q2, w2)" by fastforce
  have v2: "view w2 = view w" using quietD [OF quiet_gitDir [OF assms(2)] q2] v1 by simp
  show thesis
  proof (cases "\<exists>topdir owned gitDir. q1 = Inr topdir \<and> normalizeOwnedFiles (cq_Files rq) = Inr owned \<and> owned \<noteq> [] \<and> q2 = Inr gitDir
      \<and> TrimSpace (if cq_RepoPath rq = [] then cq_Repo rq else cq_RepoPath rq) \<noteq> [] \<and> cq_Files rq \<noteq> [] \<and> TrimSpace (cq_Message rq) \<noteq> []")
    case False
    then show thesis using early assms(1) q1 q2 v1 v2 no
      by (auto simp: CommitOwned_def split: if_splits sum.splits)
  next
    case True
    then obtain topdir owned gitDir where t: "q1 = Inr topdir" "normalizeOwnedFiles (cq_Files rq) = Inr owned" "owned \<noteq> []"
        "q2 = Inr gitDir" "TrimSpace (if cq_RepoPath rq = [] then cq_Repo rq else cq_RepoPath rq) \<noteq> []" "cq_Files rq \<noteq> []"
        "TrimSpace (cq_Message rq) \<noteq> []" by blast
    have td: "toplevel ops wd rq w = (Inr topdir, w1)" using q1 t(1) by (simp add: toplevel_def runGit_def)
    have gd: "gitDirOf ops (TrimSpace topdir) w1 = (Inr gitDir, w2)" using q2 t(1,4) by simp
    obtain q3 w3 where q3: "op_lock ops (lock_file gitDir) w2 = (q3, w3)" by fastforce
    have v3: "view w3 = view w" using l [of "lock_file gitDir" w2] q3 v2 by simp
    obtain p w4 where u: "commit_under_lock ops (TrimSpace topdir) e stamp (cq_Message rq) owned w3 = (p, w4)" by fastforce
    have e: "CommitOwned ops wd e stamp rq w = (case q3 of Some x \<Rightarrow> ((noCommit, Some x), w3) | None \<Rightarrow> (p, op_unlock ops (lock_file gitDir) w4))"
      using t q1 q2 q3 u by (simp add: CommitOwned_def lock_file_def split: option.split)
    show thesis
    proof (cases q3)
      case None
      then have "p = (r, er)" "w' = op_unlock ops (lock_file gitDir) w4" using e assms(1) by simp_all
      then show thesis using locked [OF td t(2) gd _ v3, of w4] q3 None u by simp
    next
      case (Some x)
      then show thesis using early e v3 no assms(1) by simp
    qed
  qed
qed

section \<open>What is committed\<close>

lemma abind_Inr: "abind m f w = (Inr y, w') \<longleftrightarrow> (\<exists>x w1. m w = (Inr x, w1) \<and> f x w1 = (Inr y, w'))"
  by (auto simp: abind_def split: prod.splits sum.splits)

lemma foreign_None: "foreign owned fs = None \<longleftrightarrow> list_all (\<lambda>f. f \<in> set owned) fs"
  by (auto simp: foreign_def find_None_iff list_all_iff)

text \<open>The commit itself: the listing, the very next call is the commit, then its name is asked for.\<close>

definition commits :: "('w, 'x) git_ops_scheme \<Rightarrow> string \<Rightarrow> string \<Rightarrow> string \<Rightarrow> string list \<Rightarrow> string list \<Rightarrow> 'w \<Rightarrow> 'w \<Rightarrow> bool" where
  "commits ops repo scratch message owned staged w w' \<longleftrightarrow>
     (\<exists>out w1 c w2 h. op_git ops repo (Some scratch) staged_args w = (Inr out, w1) \<and> splitLines out = staged
        \<and> staged \<noteq> [] \<and> list_all (\<lambda>f. f \<in> set owned) staged
        \<and> op_git ops repo (Some scratch) [''commit'', ''-m'', message] w1 = (Inr c, w2)
        \<and> op_git ops repo (Some scratch) [''rev-parse'', ''--short'', ''HEAD''] w2 = (Inr h, w'))"

text \<open>
  A whole transaction: the scratch file in git's directory gets the bytes of the real index, or of an empty one; then
  there are git calls on that file only; then the commit; the scratch file is removed and the real index is reset.
\<close>

definition seeded :: "('w, 'x) git_ops_scheme \<Rightarrow> string \<Rightarrow> string \<Rightarrow> string \<Rightarrow> 'w \<Rightarrow> 'w \<Rightarrow> bool" where
  "seeded ops e gitDir scratch w w' \<longleftrightarrow>
     (\<exists>bytes. (op_readIndex ops (JoinPath [gitDir, ''index'']) w = FileBytes bytes
          \<or> op_readIndex ops (JoinPath [gitDir, ''index'']) w = FileMissing \<and> bytes = e)
        \<and> op_writeScratch ops scratch bytes w = (None, w'))"

definition git_dir_args :: "string list" where
  "git_dir_args = [''rev-parse'', ''--path-format=absolute'', ''--git-dir'']"

definition transaction ::
  "('w, 'x) git_ops_scheme \<Rightarrow> string \<Rightarrow> string \<Rightarrow> int \<times> int \<Rightarrow> string \<Rightarrow> string list \<Rightarrow> string list \<Rightarrow> 'w \<Rightarrow> 'w \<Rightarrow> bool" where
  "transaction ops repo e stamp message owned staged w w' \<longleftrightarrow>
     (\<exists>out scratch w1 w2 w3 w4. op_git ops repo None git_dir_args w = (Inr out, w1)
        \<and> scratch = JoinPath [TrimSpace out, scratchName stamp]
        \<and> (IsAbs (TrimSpace out) \<longrightarrow> scratch \<noteq> JoinPath [TrimSpace out, ''index''])
        \<and> seeded ops e (TrimSpace out) scratch w1 w2
        \<and> (scratch_step ops repo scratch)\<^sup>*\<^sup>* w2 w3
        \<and> commits ops repo scratch message owned staged w3 w4
        \<and> w' = snd (op_git ops repo None [''reset'', ''--quiet'', ''--mixed''] (op_remove ops scratch w4)))"

lemma commit_staged_ok:
  assumes "commit_staged ops repo (Some s) message owned w = (Inr r, w')" "cm_Status r = ''ok''"
  shows "commits ops repo s message owned (cm_StagedFiles r) w w'"
proof -
  obtain staged w1 where s: "stagedFiles ops repo (Some s) w = (Inr staged, w1)"
    using assms(1) by (auto simp: commit_staged_def abind_Inr)
  then obtain out where o: "op_git ops repo (Some s) staged_args w = (Inr out, w1)" "splitLines out = staged"
    by (auto simp: stagedFiles_def abind_Inr areturn_def runGit_def)
  have f: "staged \<noteq> []" "foreign owned staged = None"
    using assms s by (auto simp: commit_staged_def abind_def areturn_def commit_result_def split: if_splits option.splits)
  then obtain c w2 h where "op_git ops repo (Some s) [''commit'', ''-m'', message] w1 = (Inr c, w2)"
      "op_git ops repo (Some s) [''rev-parse'', ''--short'', ''HEAD''] w2 = (Inr h, w')" "cm_StagedFiles r = staged"
    using assms s by (auto simp: commit_staged_def abind_def areturn_def runGit_def commit_result_def split: prod.splits sum.splits)
  with f o show ?thesis unfolding commits_def foreign_None
    by (intro exI [of _ out] exI [of _ w1] exI [of _ c] exI [of _ w2] exI [of _ h]) simp
qed

lemma abind_scratch:
  assumes "abind m f w = (Inr y, w')" "on_scratch ops repo s m"
  obtains x w1 where "(scratch_step ops repo s)\<^sup>*\<^sup>* w w1" "m w = (Inr x, w1)" "f x w1 = (Inr y, w')"
  using assms on_scratchD [OF assms(2)] by (auto simp: abind_Inr)

lemma locked_ok:
  assumes "commitOwnedLocked ops repo (Some s) message owned w = (Inr r, w')" "cm_Status r = ''ok''"
  shows "\<exists>w1. (scratch_step ops repo s)\<^sup>*\<^sup>* w w1 \<and> commits ops repo s message owned (cm_StagedFiles r) w1 w'"
proof -
  have st: "on_scratch ops repo s (stagedFiles ops repo (Some s))" "on_scratch ops repo s (trackedOwnedFiles ops repo (Some s) owned)"
    by (auto simp: stagedFiles_def trackedOwnedFiles_def intro!: on_scratch_abind)
  obtain pre w1 where p: "(scratch_step ops repo s)\<^sup>*\<^sup>* w w1" "stagedFiles ops repo (Some s) w = (Inr pre, w1)"
    using abind_scratch [OF assms(1) [unfolded commitOwnedLocked_def] st(1)] by blast
  have "foreign owned pre = None"
    using assms p by (auto simp: commitOwnedLocked_def abind_def areturn_def commit_result_def split: option.splits)
  then have "abind (trackedOwnedFiles ops repo (Some s) owned) (\<lambda>tracked.
             abind (add_files ops repo (Some s) [''add'', ''-u'', ''--''] tracked) (\<lambda>_ w.
               case new_files (\<lambda>p. op_stat ops p w) repo tracked owned of
                 Inl e \<Rightarrow> (Inl e, w)
               | Inr fresh \<Rightarrow> abind (add_new ops repo (Some s) fresh) (\<lambda>_. commit_staged ops repo (Some s) message owned) w)) w1 = (Inr r, w')"
    using assms(1) p by (simp add: commitOwnedLocked_def abind_def)
  from abind_scratch [OF this st(2)] obtain tracked w2 where t: "(scratch_step ops repo s)\<^sup>*\<^sup>* w1 w2"
      "abind (add_files ops repo (Some s) [''add'', ''-u'', ''--''] tracked) (\<lambda>_ w.
               case new_files (\<lambda>p. op_stat ops p w) repo tracked owned of
                 Inl e \<Rightarrow> (Inl e, w)
               | Inr fresh \<Rightarrow> abind (add_new ops repo (Some s) fresh) (\<lambda>_. commit_staged ops repo (Some s) message owned) w) w2 = (Inr r, w')"
    by blast
  from abind_scratch [OF t(2) on_scratch_add_files] obtain w3 where n: "(scratch_step ops repo s)\<^sup>*\<^sup>* w2 w3"
      "(case new_files (\<lambda>p. op_stat ops p w3) repo tracked owned of
          Inl e \<Rightarrow> (Inl e, w3)
        | Inr fresh \<Rightarrow> abind (add_new ops repo (Some s) fresh) (\<lambda>_. commit_staged ops repo (Some s) message owned) w3) = (Inr r, w')"
    by blast
  then obtain fresh where "abind (add_new ops repo (Some s) fresh) (\<lambda>_. commit_staged ops repo (Some s) message owned) w3 = (Inr r, w')"
    by (cases "new_files (\<lambda>p. op_stat ops p w3) repo tracked owned") auto
  from abind_scratch [OF this on_scratch_add_new] obtain w4 where "(scratch_step ops repo s)\<^sup>*\<^sup>* w3 w4"
      "commit_staged ops repo (Some s) message owned w4 = (Inr r, w')" by blast
  with p(1) t(1) n(1) commit_staged_ok [OF _ assms(2)] show ?thesis by (meson rtranclp_trans)
qed

lemma snapshot_ok: "snapshotIndex ops e gitDir scratch w = (Inr x, w') \<Longrightarrow> seeded ops e gitDir scratch w w'"
  by (auto simp: snapshotIndex_def seeded_def split: file_read.splits prod.splits option.splits)

lemma gitDirOf_ok: "gitDirOf ops repo w = (Inr gitDir, w') \<Longrightarrow>
    \<exists>out. op_git ops repo None git_dir_args w = (Inr out, w') \<and> gitDir = TrimSpace out"
  by (auto simp: gitDirOf_def git_dir_args_def abind_def wrapped_def runGit_def areturn_def afail_def split: prod.splits sum.splits if_splits)

lemma isolated_ok:
  assumes "withIsolatedIndex ops repo e stamp body w = (Inr r, w')"
  obtains out scratch w1 w2 w3 where "op_git ops repo None git_dir_args w = (Inr out, w1)" "scratch = JoinPath [TrimSpace out, scratchName stamp]"
    "seeded ops e (TrimSpace out) scratch w1 w2" "body scratch w2 = (Inr r, w3)" "w' = op_remove ops scratch w3"
proof -
  obtain gitDir w1 where g: "gitDirOf ops repo w = (Inr gitDir, w1)"
      "fst (abind (snapshotIndex ops e gitDir (JoinPath [gitDir, scratchName stamp])) (\<lambda>_. body (JoinPath [gitDir, scratchName stamp])) w1) = Inr r"
      "w' = op_remove ops (JoinPath [gitDir, scratchName stamp])
         (snd (abind (snapshotIndex ops e gitDir (JoinPath [gitDir, scratchName stamp])) (\<lambda>_. body (JoinPath [gitDir, scratchName stamp])) w1))"
    using assms by (auto simp: withIsolatedIndex_def abind_Inr Let_def)
  then obtain w3 where b: "abind (snapshotIndex ops e gitDir (JoinPath [gitDir, scratchName stamp])) (\<lambda>_. body (JoinPath [gitDir, scratchName stamp])) w1 = (Inr r, w3)"
    by (metis prod.collapse)
  then obtain x w2 where s: "snapshotIndex ops e gitDir (JoinPath [gitDir, scratchName stamp]) w1 = (Inr x, w2)"
      "body (JoinPath [gitDir, scratchName stamp]) w2 = (Inr r, w3)" by (auto simp: abind_Inr)
  obtain out where o: "op_git ops repo None git_dir_args w = (Inr out, w1)" "gitDir = TrimSpace out" using gitDirOf_ok [OF g(1)] by blast
  have "w' = op_remove ops (JoinPath [gitDir, scratchName stamp]) w3" using g(3) b by simp
  from that [OF o(1) refl _ _ this [unfolded o(2)]] snapshot_ok [OF s(1)] s(2) show thesis unfolding o(2) by blast
qed

lemma under_lock_ok:
  assumes "commit_under_lock ops repo e stamp message owned w = ((r, er), w')" "cm_Status r = ''ok''"
  shows "transaction ops repo e stamp message owned (cm_StagedFiles r) w w'"
proof -
  obtain w1 where i: "withIsolatedIndex ops repo e stamp (\<lambda>scratch. commitOwnedLocked ops repo (Some scratch) message owned) w = (Inr r, w1)"
      and w': "w' = snd (op_git ops repo None [''reset'', ''--quiet'', ''--mixed''] w1)"
    using assms by (auto simp: commit_under_lock_def noCommit_def commit_result_def runGit_def split: prod.splits sum.splits if_splits)
  from isolated_ok [OF i] obtain out scratch w2 w3 w4 where t: "op_git ops repo None git_dir_args w = (Inr out, w2)"
      "scratch = JoinPath [TrimSpace out, scratchName stamp]" "seeded ops e (TrimSpace out) scratch w2 w3"
      "commitOwnedLocked ops repo (Some scratch) message owned w3 = (Inr r, w4)" "w1 = op_remove ops scratch w4" .
  from locked_ok [OF t(4) assms(2)] obtain w5 where "(scratch_step ops repo scratch)\<^sup>*\<^sup>* w3 w5"
      "commits ops repo scratch message owned (cm_StagedFiles r) w5 w4" by blast
  with t w' show ?thesis unfolding transaction_def using scratch_not_index by blast
qed

lemma index_private_unit: "index_private ops stamp (\<lambda>_. ())"
  by (simp add: index_private_def keeps_def)

text \<open>
  Claim C23: what a commit reported as \<open>ok\<close> did.  In the repository git named, under the lock in its git directory, a
  scratch file there that is not the index got the bytes of the real index; from then on git ran on that file only; at
  last it listed exactly the staged files that are reported, not none and all of them in the normalized owned set; the
  very next call was the commit, on that very file and with the message of the request; then the scratch file was removed, the
  real index reset and the lock released.
\<close>

theorem commit_only_owned:
  assumes "CommitOwned ops wd e stamp rq w = ((r, er), w')" "cm_Status r = ''ok''"
  shows "\<exists>topdir owned out w1 w2 w3 w4. toplevel ops wd rq w = (Inr topdir, w1) \<and> normalizeOwnedFiles (cq_Files rq) = Inr owned
     \<and> op_git ops (TrimSpace topdir) None git_dir_args w1 = (Inr out, w2) \<and> op_lock ops (lock_file (TrimSpace out)) w2 = (None, w3)
     \<and> transaction ops (TrimSpace topdir) e stamp (cq_Message rq) owned (cm_StagedFiles r) w3 w4
     \<and> w' = op_unlock ops (lock_file (TrimSpace out)) w4"
  using assms(1) index_private_unit [of ops stamp]
proof (cases rule: CommitOwned_cases)
  case early
  then show ?thesis using assms(2) by simp
next
  case (locked topdir owned gitDir w1 w2 w3 w4)
  from gitDirOf_ok [OF locked(3)] obtain out where "op_git ops (TrimSpace topdir) None git_dir_args w1 = (Inr out, w2)" "gitDir = TrimSpace out"
    by blast
  with locked under_lock_ok [OF locked(6) assms(2)] show ?thesis by blast
qed

text \<open>
  Claim C24: the real index, any view of the world that git calls on the scratch file leave alone, is untouched by every
  run of \<open>CommitOwned\<close> that does not commit, errors included; after a commit it is what one mixed reset of the
  repository makes of it.
\<close>

theorem commit_failure_keeps_index:
  assumes "index_private ops stamp view" "CommitOwned ops wd e stamp rq w = ((r, er), w')"
  shows "if cm_Status r = ''ok'' then \<exists>topdir w1. toplevel ops wd rq w = (Inr topdir, w1) \<and> reset_view ops (TrimSpace topdir) view w w'
     else view w' = view w"
  using assms(2,1)
proof (cases rule: CommitOwned_cases)
  case early
  then show ?thesis by simp
next
  case (locked topdir owned gitDir w1 w2 w3 w4)
  have "view w' = view w4" using assms(1) locked(7) by (simp add: index_private_def)
  then show ?thesis using under_lock_view [OF assms(1) locked(6)] locked(1,5) by (auto simp: reset_view_def split: if_splits)
qed

text \<open>A small git: the real index, the scratch index, the commits.  The repository is \<open>/r\<close>, \<open>a\<close> is tracked and modified.\<close>

definition git_ex :: "string \<Rightarrow> string option \<Rightarrow> string list \<Rightarrow> string list \<times> string list \<times> string list list \<Rightarrow>
    (string, string) result \<times> string list \<times> string list \<times> string list list" where
  "git_ex dir idx args = (\<lambda>(real, scratch, commits).
     (if args = [''rev-parse'', ''--show-toplevel''] then (Inr (''/r'' @ [LF]), real, scratch, commits)
      else if hd args = ''rev-parse'' then (Inr (''/r/.git'' @ [LF]), real, scratch, commits)
      else if args = staged_args then (Inr (concat (map (\<lambda>f. f @ [LF]) (if idx = None then real else scratch))), real, scratch, commits)
      else if hd args = ''ls-files'' then (Inr (''a'' @ [LF]), real, scratch, commits)
      else if hd args = ''reset'' \<and> idx = None then (Inr [], [], scratch, commits)
      else if idx = None then (Inl ''unexpected'', real, scratch, commits)
      else if hd args = ''add'' then (Inr [], real, scratch @ [''a''], commits)
      else if hd args = ''commit'' then (Inr [], real, [], scratch # commits)
      else (Inl ''unknown'', real, scratch, commits)))"

definition ops_ex :: "(string list \<times> string list \<times> string list list) git_ops" where
  "ops_ex = \<lparr>op_git = git_ex, op_stat = (\<lambda>p w. StatNotExist), op_lock = (\<lambda>p w. (None, w)), op_unlock = (\<lambda>p w. w),
     op_readIndex = (\<lambda>p w. FileMissing), op_writeScratch = (\<lambda>p s w. (None, fst w, [], snd (snd w))),
     op_remove = (\<lambda>p w. (fst w, [], snd (snd w)))\<rparr>"

definition rq_ex :: CommitRequest where
  "rq_ex = \<lparr>cq_RepoPath = ''/r'', cq_Repo = [], cq_Files = [''a''], cq_Message = ''m''\<rparr>"

lemma index_private_ex: "index_private ops_ex stamp fst"
  by (auto simp: index_private_def keeps_def ops_ex_def git_ex_def)

definition run_ex :: "(CommitResult \<times> string option) \<times> string list \<times> string list \<times> string list list" where
  "run_ex = ((\<lparr>cm_Status = ''ok'', cm_Commit = ''/r/.git'', cm_StagedFiles = [''a''], cm_Reason = []\<rparr>, None), [], [], [[''a'']])"

lemma commit_ex: "CommitOwned ops_ex ''/'' [] (7, 8) rq_ex ([''x''], [], []) = run_ex"
  by code_simp

theorem commit_only_owned_witness:
  "\<exists>topdir owned w1 w2. toplevel ops_ex ''/'' rq_ex ([''x''], [], []) = (Inr topdir, w1) \<and> normalizeOwnedFiles (cq_Files rq_ex) = Inr owned
     \<and> transaction ops_ex (TrimSpace topdir) [] (7, 8) (cq_Message rq_ex) owned [''a''] w1 w2"
proof -
  have "w3 = w1" if "op_git ops_ex d None git_dir_args w1 = (Inr out, w2)" "op_lock ops_ex l w2 = (None, w3)" for d l out w1 w2 w3
    using that by (auto simp: ops_ex_def git_ex_def git_dir_args_def split: prod.splits)
  then show ?thesis using commit_only_owned [OF commit_ex [unfolded run_ex_def]] by auto blast
qed

theorem commit_failure_keeps_index_witness:
  "\<exists>topdir w1. toplevel ops_ex ''/'' rq_ex ([''x''], [], []) = (Inr topdir, w1)
     \<and> reset_view ops_ex (TrimSpace topdir) fst ([''x''], [], []) ([], [], [[''a'']])"
  using commit_failure_keeps_index [OF index_private_ex commit_ex [unfolded run_ex_def]] by simp

section \<open>Preflight and commit agree\<close>

lemma classify_keeps_staged: "classify_loop git exists tracked fs r = Inr q \<Longrightarrow> pf_StagedOutsideOwned q = pf_StagedOutsideOwned r"
  by (induction fs arbitrary: r) (auto simp: rbind_eq_Inr split: if_splits)

lemma Preflight_conflict:
  assumes "PreflightCommit git exists rp files = Inr p" "normalizeOwnedFiles files = Inr owned" "git staged_args = Inr out"
  shows "pf_Status p = ''conflict'' \<longleftrightarrow> foreign owned (splitLines out) \<noteq> None"
proof -
  obtain r1 where p: "pf_StagedOutsideOwned p = sort (filter (\<lambda>f. f \<notin> set owned) (splitLines out))"
      "pf_Status p = computeStatus r1" "pf_StagedOutsideOwned r1 = pf_StagedOutsideOwned p"
    using assms by (auto simp: PreflightCommit_def rbind_eq_Inr detectStagedOutsideOwned_def detectUnownedModified_def
        detectUntrackedFiles_def split: if_splits)
  have "pf_StagedOutsideOwned p \<noteq> [] \<longleftrightarrow> filter (\<lambda>f. f \<notin> set owned) (splitLines out) \<noteq> []"
    unfolding p(1) by (metis set_sort set_empty)
  then show ?thesis using p(2,3) by (auto simp: computeStatus_def foreign_def find_None_iff filter_empty_conv)
qed

text \<open>
  Preflight reports \<open>conflict\<close> exactly when the commit transaction, seeing the same staged files, refuses
  at its first check: it then reports the conflict without another git call.
\<close>

theorem preflight_predicts_conflict:
  assumes "PreflightCommit git exists rp files = Inr p" "normalizeOwnedFiles files = Inr owned"
    "git staged_args = Inr out" "op_git ops repo idx staged_args w = (Inr out, w1)"
  shows "pf_Status p = ''conflict'' \<longleftrightarrow>
     (\<exists>f. foreign owned (splitLines out) = Some f \<and> commitOwnedLocked ops repo idx message owned w =
        (Inr (commit_result ''conflict'' (splitLines out) (''index already contains file outside owned set: '' @ f)), w1))"
proof -
  have "stagedFiles ops repo idx w = (Inr (splitLines out), w1)"
    using assms(4) by (simp add: stagedFiles_def runGit_def abind_def areturn_def)
  then have "commitOwnedLocked ops repo idx message owned w =
        (Inr (commit_result ''conflict'' (splitLines out) (''index already contains file outside owned set: '' @ f)), w1)"
    if "foreign owned (splitLines out) = Some f" for f
    using that by (simp add: commitOwnedLocked_def abind_def areturn_def)
  then show ?thesis using Preflight_conflict [OF assms(1-3)] by blast
qed

definition preflight_ex :: git_query where
  "preflight_ex args = (if args = staged_args then Inr (''x'' @ [LF]) else Inr [])"

lemma preflight_run: "PreflightCommit preflight_ex (\<lambda>_. True) ''/r'' [''a''] =
    Inr (emptyPreflight\<lparr>pf_Status := ''conflict'', pf_OwnedNew := [''a''], pf_StagedOutsideOwned := [''x'']\<rparr>)"
  by code_simp

theorem preflight_predicts_conflict_witness:
  "\<exists>f. foreign [''a''] (splitLines (''x'' @ [LF])) = Some f \<and> commitOwnedLocked ops_ex ''/r'' None ''m'' [''a''] ([''x''], [], []) =
        (Inr (commit_result ''conflict'' (splitLines (''x'' @ [LF])) (''index already contains file outside owned set: '' @ f)), [''x''], [], [])"
proof -
  have n: "normalizeOwnedFiles [''a''] = Inr [''a'']" by code_simp
  have g: "preflight_ex staged_args = Inr (''x'' @ [LF])" by (simp add: preflight_ex_def)
  have o: "op_git ops_ex ''/r'' None staged_args ([''x''], [], []) = (Inr (''x'' @ [LF]), [''x''], [], [])" by code_simp
  show ?thesis using preflight_predicts_conflict [OF preflight_run n g o] by simp
qed

section \<open>Which worktree is handed out\<close>

text \<open>The calls that verify an existing worktree, and those that make one, from world to world.\<close>

definition wt_reusable :: "('w, 'x) wt_ops_scheme \<Rightarrow> string \<Rightarrow> string \<Rightarrow> string \<Rightarrow> 'w \<Rightarrow> 'w \<Rightarrow> bool" where
  "wt_reusable ops repo code branch w w' \<longleftrightarrow>
     (\<exists>w1 w2 current st common.
        wo_git ops code [''rev-parse'', ''--abbrev-ref'', ''HEAD''] w = (Inr current, w1) \<and> TrimSpace current = branch \<and>
        wo_git ops code [''status'', ''--porcelain''] w1 = (Inr st, w2) \<and> TrimSpace st = [] \<and>
        wo_git ops code [''rev-parse'', ''--path-format=absolute'', ''--git-common-dir''] w2 = (Inr common, w') \<and>
        TrimSpace common = JoinPath [repo, ''.git''])"

definition wt_created :: "('w, 'x) wt_ops_scheme \<Rightarrow> string \<Rightarrow> string \<Rightarrow> string \<Rightarrow> 'w \<Rightarrow> 'w \<Rightarrow> bool" where
  "wt_created ops repo code branch w w' \<longleftrightarrow>
     (\<exists>w1 w2 q out. wo_mkdirAll ops (JoinPath [repo, ''.worktrees'']) w = (None, w1) \<and>
        wo_git ops repo [''show-ref'', ''--verify'', ''--quiet'', ''refs/heads/'' @ branch] w1 = (q, w2) \<and>
        wo_git ops repo ([''worktree'', ''add''] @ (if isOk q then [code, branch] else [''-b'', branch, code, ''HEAD''])) w2 = (Inr out, w'))"

lemma reuse_conflict_None: "reuse_conflict ops repo code branch w = (None, w') \<Longrightarrow> wt_reusable ops repo code branch w w'"
  unfolding wt_reusable_def by (auto simp: reuse_conflict_def split: prod.splits sum.splits if_splits)

lemma add_worktree_ok:
  assumes "add_worktree ops repo branch path code w = (Inr r, w')"
  shows "r = wt_result ''ok'' branch path code True [] \<and> wt_created ops repo code branch w w'"
proof -
  obtain w1 where m: "wo_mkdirAll ops (JoinPath [repo, ''.worktrees'']) w = (None, w1)"
    using assms by (auto simp: add_worktree_def split: prod.splits option.splits)
  obtain q w2 where g: "wo_git ops repo [''show-ref'', ''--verify'', ''--quiet'', ''refs/heads/'' @ branch] w1 = (q, w2)" by fastforce
  obtain a w3 where a: "wo_git ops repo ([''worktree'', ''add''] @ (if isOk q then [code, branch] else [''-b'', branch, code, ''HEAD''])) w2 = (a, w3)"
    by fastforce
  have "(case a of Inl e \<Rightarrow> (Inl e, w3) | Inr _ \<Rightarrow> (Inr (wt_result ''ok'' branch path code True []), w3)) = (Inr r, w')"
    using assms m g a by (simp add: add_worktree_def gitBranchExists_def)
  with m g a show ?thesis unfolding wt_created_def by (cases a) auto
qed

text \<open>The check before a path is used, on cleaned absolute paths, refuses exactly what is not below \<open>.worktrees\<close>.\<close>

lemma escapes_abs_of:
  assumes "list_all plain_comp rs" "list_all plain_comp cs"
  shows "escapes_worktrees (abs_of rs) (abs_of cs) \<longleftrightarrow> \<not> prefix rs cs"
proof (cases "prefix rs cs")
  case True
  then have "relativePathInside (abs_of rs) (abs_of cs)" using assms by (simp add: inside_abs_of)
  then show ?thesis using True by (auto simp: escapes_worktrees_def relativePathInside_def split: option.splits)
next
  case False
  obtain br tr where s: "strip_common rs cs = (br, tr)" by fastforce
  then obtain p where p: "rs = p @ br" "cs = p @ tr" using strip_common_spec by blast
  with False have "br \<noteq> []" by auto
  then obtain k where k: "length br = Suc k" by (cases br) auto
  have "rs \<noteq> cs" using False by auto
  then show ?thesis
    using False Join_replicate_dots [of k tr] k s assms by (auto simp: escapes_worktrees_def Rel_abs_of)
qed

text \<open>Where a worktree lies: one plain component below \<open>.worktrees\<close> of the repository.\<close>

definition wt_place :: "string \<Rightarrow> string \<Rightarrow> string \<Rightarrow> bool" where
  "wt_place repo leaf code \<longleftrightarrow>
     (\<exists>cs. list_all plain_comp cs \<and> Clean repo = abs_of cs \<and> code = abs_of (cs @ [''.worktrees'', leaf]) \<and>
        (\<forall>ts. list_all plain_comp ts \<longrightarrow>
           (escapes_worktrees (JoinPath [repo, ''.worktrees'']) (abs_of ts) \<longleftrightarrow> \<not> prefix (cs @ [''.worktrees'']) ts)))"

lemma wt_place_ok:
  assumes "IsAbs repo" "plain_comp leaf"
  shows "wt_place repo leaf (JoinPath [repo, ''.worktrees/'' @ leaf])"
proof -
  have w: "plain_comp ''.worktrees''" by (simp add: plain_comp_def)
  obtain cs where cs: "list_all plain_comp cs" "Clean repo = abs_of cs" "JoinPath [repo, ''.worktrees/'' @ leaf] = abs_of (cs @ [''.worktrees'', leaf])"
    using JoinPath_below_abs [OF assms(1), of "[''.worktrees'', leaf]"] assms(2) w by auto
  obtain ds where ds: "list_all plain_comp ds" "Clean repo = abs_of ds" "JoinPath [repo, ''.worktrees''] = abs_of (ds @ [''.worktrees''])"
    using JoinPath_below_abs [OF assms(1), of "[''.worktrees'']"] w by auto
  have "ds = cs" using cs(1,2) ds(1,2) by (simp add: abs_of_inject)
  then show ?thesis unfolding wt_place_def using cs ds w by (intro exI [of _ cs]) (simp add: escapes_abs_of)
qed

lemma branch_leaf: "BranchForTask ty i = Inr b \<Longrightarrow> cleanTaskID i \<noteq> []"
  by (auto simp: BranchForTask_def Let_def split: if_splits)

text \<open>
  Claim C25: a worktree handed out as \<open>ok\<close> belongs to the repository git named for the request.  Its branch is the
  canonical one of the task and its path is one component directly below \<open>.worktrees\<close>, made of lower-case letters, digits,
  dots, underscores and dashes and neither \<open>.\<close> nor \<open>..\<close>, whatever the task was called; if the repository is absolute, the code
  path lies exactly there, and the check the code makes first refuses exactly the paths that are not below
  \<open>.worktrees\<close>.  It was either made by \<open>git worktree add\<close> where nothing existed, on the branch or with a new one, or it is a
  directory that git, asked in this order, found on that branch, without changes and with the repository's own git directory.
\<close>

theorem worktree_safe:
  assumes "PrepareTaskWorktree ops wd rp taskID taskType w = (Inr r, w')" "wt_Status r = ''ok''"
  shows "\<exists>topdir w1 leaf. wo_git ops (Abs wd rp) [''rev-parse'', ''--show-toplevel''] w = (Inr topdir, w1)
     \<and> BranchForTask taskType taskID = Inr (wt_Branch r) \<and> plain_comp leaf \<and> list_all id_char leaf \<and> wt_Path r = ''.worktrees/'' @ leaf
     \<and> wt_CodePath r = JoinPath [TrimSpace topdir, wt_Path r] \<and> (IsAbs (TrimSpace topdir) \<longrightarrow> wt_place (TrimSpace topdir) leaf (wt_CodePath r))
     \<and> (if wt_Created r
        then wo_stat ops (wt_CodePath r) w1 = StatNotExist \<and> wt_created ops (TrimSpace topdir) (wt_CodePath r) (wt_Branch r) w1 w'
        else wo_stat ops (wt_CodePath r) w1 = StatDir \<and> wt_reusable ops (TrimSpace topdir) (wt_CodePath r) (wt_Branch r) w1 w')"
proof -
  let ?path = "WorktreePathForID taskID" and ?leaf = "cleanTaskID taskID"
  obtain branch topdir w1 where b: "BranchForTask taskType taskID = Inr branch" "?path \<noteq> []"
      "wo_git ops (Abs wd rp) [''rev-parse'', ''--show-toplevel''] w = (Inr topdir, w1)"
    using assms(1) by (auto simp: PrepareTaskWorktree_def Let_def split: if_splits sum.splits prod.splits)
  define repo where "repo = TrimSpace topdir"
  define code where "code = JoinPath [repo, ?path]"
  have leaf: "plain_comp ?leaf" "list_all id_char ?leaf" "?path = ''.worktrees/'' @ ?leaf"
    using cleanTaskID_plain cleanTaskID_chars WorktreePath_shape branch_leaf [OF b(1)] by blast+
  have rest: "(case wo_stat ops code w1 of
              StatFile \<Rightarrow> (Inr (wt_result ''conflict'' branch ?path code False ''worktree path exists and is not a directory''), w1)
            | StatDir \<Rightarrow>
                (case reuse_conflict ops repo code branch w1 of
                   (Some reason, w2) \<Rightarrow> (Inr (wt_result ''conflict'' branch ?path code False reason), w2)
                 | (None, w2) \<Rightarrow> (Inr (wt_result ''ok'' branch ?path code False ''worktree already exists''), w2))
            | StatError e \<Rightarrow> (Inl e, w1)
            | StatNotExist \<Rightarrow> add_worktree ops repo branch ?path code w1) = (Inr r, w')"
    using assms(1) b unfolding repo_def code_def by (simp add: PrepareTaskWorktree_def Let_def split: if_splits)
  have R: "wt_Branch r = branch \<and> wt_Path r = ?path \<and> wt_CodePath r = code \<and>
      (if wt_Created r then wo_stat ops code w1 = StatNotExist \<and> wt_created ops repo code branch w1 w'
       else wo_stat ops code w1 = StatDir \<and> wt_reusable ops repo code branch w1 w')"
  proof (cases "wo_stat ops code w1")
    case StatDir
    then show ?thesis using rest assms(2) reuse_conflict_None [of ops repo code branch w1]
      by (auto simp: wt_result_def split: prod.splits option.splits)
  next
    case StatNotExist
    then show ?thesis using rest add_worktree_ok [of ops repo branch ?path code w1 r w'] by (simp add: wt_result_def)
  qed (use rest assms(2) in \<open>auto simp: wt_result_def\<close>)
  have place: "IsAbs repo \<longrightarrow> wt_place repo ?leaf code" using wt_place_ok leaf by (simp add: code_def)
  have eqs: "wt_Branch r = branch" "wt_CodePath r = code" "wt_Path r = ''.worktrees/'' @ ?leaf" "code = JoinPath [repo, ''.worktrees/'' @ ?leaf]"
    using R leaf(3) by (simp_all only: code_def simp_thms)
  show ?thesis
    unfolding eqs(1-3)
  proof (intro exI conjI)
    show "wo_git ops (Abs wd rp) [''rev-parse'', ''--show-toplevel''] w = (Inr topdir, w1)" by (rule b(3))
    show "BranchForTask taskType taskID = Inr branch" by (rule b(1))
    show "plain_comp ?leaf" "list_all id_char ?leaf" by (rule leaf)+
    show "code = JoinPath [TrimSpace topdir, ''.worktrees/'' @ ?leaf]" using eqs(4) by (simp only: repo_def)
    show "IsAbs (TrimSpace topdir) \<longrightarrow> wt_place (TrimSpace topdir) ?leaf code" using place by (simp only: repo_def)
    show "if wt_Created r then wo_stat ops code w1 = StatNotExist \<and> wt_created ops (TrimSpace topdir) code branch w1 w'
        else wo_stat ops code w1 = StatDir \<and> wt_reusable ops (TrimSpace topdir) code branch w1 w'"
      using conjunct2 [OF conjunct2 [OF conjunct2 [OF R]]] by (simp only: repo_def)
  qed (rule refl)
qed

definition wt_ex :: "bool wt_ops" where
  "wt_ex = \<lparr>wo_git = (\<lambda>dir args w. if hd args = ''show-ref'' then (Inl ''no'', w) else (Inr ''/r'', w)),
     wo_stat = (\<lambda>p w. StatNotExist), wo_mkdirAll = (\<lambda>p w. (None, w))\<rparr>"

lemma worktree_run: "PrepareTaskWorktree wt_ex ''/'' ''/r'' ''T-1'' ''feat'' True =
    (Inr (wt_result ''ok'' ''feat/t-1'' ''.worktrees/t-1'' ''/r/.worktrees/t-1'' True []), True)"
  by code_simp

theorem worktree_safe_witness:
  "\<exists>topdir w1 leaf. wo_git wt_ex (Abs ''/'' ''/r'') [''rev-parse'', ''--show-toplevel''] True = (Inr topdir, w1)
     \<and> BranchForTask ''feat'' ''T-1'' = Inr ''feat/t-1'' \<and> ''.worktrees/t-1'' = ''.worktrees/'' @ leaf
     \<and> wt_place (TrimSpace topdir) leaf ''/r/.worktrees/t-1'' \<and> wt_created wt_ex (TrimSpace topdir) ''/r/.worktrees/t-1'' ''feat/t-1'' w1 True"
proof -
  have a: "IsAbs (TrimSpace ''/r'')" by code_simp
  have "wo_git wt_ex (Abs ''/'' ''/r'') [''rev-parse'', ''--show-toplevel''] True = (Inr ''/r'', True)" by (simp add: wt_ex_def)
  with worktree_safe [OF worktree_run] a show ?thesis by (auto simp: wt_result_def)
qed

section \<open>A commit that is reported as a failure\<close>

text \<open>If only the \<open>rev-parse\<close> after the commit fails, the caller sees an error although the commit exists.\<close>

lemma commit_hidden_by_rev_parse:
  assumes "op_git ops repo idx staged_args w = (Inr out, w1)" "splitLines out \<noteq> []" "foreign owned (splitLines out) = None"
    "op_git ops repo idx [''commit'', ''-m'', message] w1 = (Inr c, w2)"
    "op_git ops repo idx [''rev-parse'', ''--short'', ''HEAD''] w2 = (Inl e, w3)"
  shows "commit_staged ops repo idx message owned w = (Inl e, w3)"
  using assms by (simp add: commit_staged_def stagedFiles_def abind_def areturn_def runGit_def)

end
