(* ===== verification/Glob.thy ===== *)
theory Glob
  imports GoPath
begin

text \<open>
  Globs and ignore rules of \<open>filesystem/ignore.go\<close>.  The code writes a regular expression and compiles it;
  here the expression its its syntax tree, a list of \<open>glob_item\<close>s, and matching its what Go's engine does
  with it on names of ASCII characters.  A class whose text its empty or has an inverted range does not
  compile.  (\<open>[]\<close> and \<open>[!]\<close> are refused here; Go refuses them unless a bracket of a later item closes the
  class, a text this model does not follow.)
\<close>

section \<open>Expressions\<close>

datatype glob_item =
    GLit char                \<comment> \<open>a quoted character\<close>
  | GRun                     \<comment> \<open>\<open>[^/]*\<close>\<close>
  | GAll                     \<comment> \<open>\<open>.*\<close>\<close>
  | GDirs                    \<comment> \<open>\<open>(?:.*/)?\<close>\<close>
  | GOne                     \<comment> \<open>\<open>[^/]\<close>\<close>
  | GClass bool string       \<comment> \<open>\<open>[...]\<close>, negated or not, and its text\<close>

text \<open>The members of a class text: characters and ranges, in order.\<close>

fun class_ranges :: "string \<Rightarrow> (char \<times> char) list option" where
  "class_ranges [] = Some []"
| "class_ranges (a # CHR ''-'' # b # cs) =
     (if byteval b < byteval a then None else map_option (\<lambda>r. (a, b) # r) (class_ranges cs))"
| "class_ranges (a # cs) = map_option (\<lambda>r. (a, a) # r) (class_ranges cs)"

definition class_has :: "bool \<Rightarrow> string \<Rightarrow> char \<Rightarrow> bool" where
  "class_has negated cs c \<longleftrightarrow>
     (case class_ranges cs of
        None \<Rightarrow> False
      | Some rs \<Rightarrow> list_ex (\<lambda>(a, b). byteval a \<le> byteval c \<and> byteval c \<le> byteval b) rs \<noteq> negated)"

text \<open>The rests of a text after all ways an item matches at its start.\<close>

fun rests_run :: "(char \<Rightarrow> bool) \<Rightarrow> string \<Rightarrow> string list" where
  "rests_run p [] = [[]]"
| "rests_run p (c # cs) = (c # cs) # (if p c then rests_run p cs else [])"

text \<open>The rests after each slash that only \<open>p\<close> characters precede.\<close>

fun rests_slash :: "(char \<Rightarrow> bool) \<Rightarrow> string \<Rightarrow> string list" where
  "rests_slash p [] = []"
| "rests_slash p (c # cs) = (if c = SLASH then [cs] else []) @ (if p c then rests_slash p cs else [])"

definition rests_one :: "(char \<Rightarrow> bool) \<Rightarrow> string \<Rightarrow> string list" where
  "rests_one p s = (case s of [] \<Rightarrow> [] | c # cs \<Rightarrow> if p c then [cs] else [])"

fun rests :: "glob_item \<Rightarrow> string \<Rightarrow> string list" where
  "rests (GLit c) s = rests_one (\<lambda>x. x = c) s"
| "rests GRun s = rests_run (\<lambda>x. x \<noteq> SLASH) s"
| "rests GAll s = rests_run (\<lambda>x. x \<noteq> LF) s"
| "rests GDirs s = s # rests_slash (\<lambda>x. x \<noteq> LF) s"
| "rests GOne s = rests_one (\<lambda>x. x \<noteq> SLASH) s"
| "rests (GClass negated cs) s = rests_one (class_has negated cs) s"

text \<open>A match of the items from the start of a text up to a rest that \<open>fin\<close> accepts.\<close>

fun gmatch :: "(string \<Rightarrow> bool) \<Rightarrow> glob_item list \<Rightarrow> string \<Rightarrow> bool" where
  "gmatch fin [] s = fin s"
| "gmatch fin (i # its) s = list_ex (gmatch fin its) (rests i s)"

text \<open>
  \<open>regexp.QuoteMeta(string(b))\<close> for a byte \<open>b\<close>: the conversion makes a rune of the byte, so a byte beyond
  ASCII becomes the two bytes that encode that rune.
\<close>

definition quoted :: "char \<Rightarrow> glob_item list" where
  "quoted c =
     (if byteval c < 128 then [GLit c]
      else [GLit (char_of (192 + byteval c div 64)), GLit (char_of (128 + byteval c mod 64))])"

text \<open>\<open>globBody\<close>; \<open>None\<close>: an unterminated class.\<close>

function globBody :: "string \<Rightarrow> glob_item list option" where
  "globBody [] = Some []"
| "globBody (c # cs) =
     (if c = CHR ''*'' then
        (if HasPrefix cs ''*'' then
           (if HasPrefix (drop 1 cs) ''/'' then map_option (\<lambda>r. GDirs # r) (globBody (drop 2 cs))
            else map_option (\<lambda>r. GAll # r) (globBody (drop 1 cs)))
         else map_option (\<lambda>r. GRun # r) (globBody cs))
      else if c = CHR ''?'' then map_option (\<lambda>r. GOne # r) (globBody cs)
      else if c = CHR ''['' then
        (case Index cs '']'' of
           None \<Rightarrow> None
         | Some e \<Rightarrow>
             (let cl = take e cs in
              map_option (\<lambda>r. (if HasPrefix cl ''!'' then GClass True (drop 1 cl) else GClass False cl) # r)
                (globBody (drop (Suc e) cs))))
      else if c = BSLASH then
        (case cs of
           [] \<Rightarrow> Some [GLit BSLASH]
         | d # ds \<Rightarrow> map_option (\<lambda>r. quoted d @ r) (globBody ds))
      else map_option (\<lambda>r. quoted c @ r) (globBody cs))"
  by pat_completeness auto
termination
  by (relation "measure length") auto

text \<open>Does the expression compile?\<close>

fun item_ok :: "glob_item \<Rightarrow> bool" where
  "item_ok (GClass negated cs) \<longleftrightarrow> cs \<noteq> [] \<and> class_ranges cs \<noteq> None"
| "item_ok _ \<longleftrightarrow> True"

definition compile :: "glob_item list option \<Rightarrow> glob_item list option" where
  "compile body = (case body of None \<Rightarrow> None | Some its \<Rightarrow> if list_all item_ok its then Some its else None)"

text \<open>\<open>compileGlob\<close>: the expression \<open>^body$\<close>.\<close>

definition compileGlob :: "string \<Rightarrow> glob_item list option" where
  "compileGlob pattern = (if pattern = [] then None else compile (globBody (TrimPrefix pattern ''./'')))"

definition glob_full :: "glob_item list \<Rightarrow> string \<Rightarrow> bool" where
  "glob_full its s \<longleftrightarrow> gmatch (\<lambda>r. r = []) its s"

section \<open>Ignore rules\<close>

record ignoreRule =
  ir_negate :: bool
  ir_dirOnly :: bool
  ir_free :: bool                  \<comment> \<open>no slash: may start after any slash\<close>
  ir_body :: "glob_item list"

definition parseIgnoreRule :: "string \<Rightarrow> ignoreRule option" where
  "parseIgnoreRule line0 =
     (if line0 = [] \<or> HasPrefix line0 ''#'' then None
      else let negate = HasPrefix line0 ''!'';
               line1 = TrimSpace (if negate then TrimPrefix line0 ''!''
                 else if HasPrefix line0 [BSLASH, CHR ''!''] \<or> HasPrefix line0 [BSLASH, CHR ''#''] then drop 1 line0 else line0)
           in if line1 = [] then None
              else let dirOnly = HasSuffix line1 ''/''; line2 = TrimSuffix line1 ''/'';
                       anchored = HasPrefix line2 ''/''; line3 = TrimPrefix line2 ''/'' in
                map_option (\<lambda>its. \<lparr>ir_negate = negate, ir_dirOnly = dirOnly, ir_free = (\<not> anchored \<and> \<not> Contains line3 ''/''), ir_body = its\<rparr>)
                  (compile (globBody line3)))"

text \<open>Where a match may start: \<open>^\<close> or \<open>(?:^|/)\<close>.\<close>

definition starts :: "ignoreRule \<Rightarrow> string \<Rightarrow> string list" where
  "starts r s = (if ir_free r then s # rests_slash (\<lambda>_. True) s else [s])"

text \<open>\<open>direct\<close> ends with \<open>$\<close>; \<open>re\<close> with \<open>(?:/.*)?$\<close> for a directory rule, else \<open>(?:$|/.*)\<close> or \<open>(?:$|/)\<close>.\<close>

definition ends_below :: "bool \<Rightarrow> string \<Rightarrow> bool" where
  "ends_below dirOnly r \<longleftrightarrow> r = [] \<or> (hd r = SLASH \<and> (dirOnly \<longrightarrow> LF \<notin> set (tl r)))"

definition rule_direct :: "ignoreRule \<Rightarrow> string \<Rightarrow> bool" where
  "rule_direct r s \<longleftrightarrow> list_ex (gmatch (\<lambda>x. x = []) (ir_body r)) (starts r s)"

definition rule_re :: "ignoreRule \<Rightarrow> string \<Rightarrow> bool" where
  "rule_re r s \<longleftrightarrow> list_ex (gmatch (ends_below (ir_dirOnly r)) (ir_body r)) (starts r s)"

text \<open>One turn of the loop of \<open>ignored\<close>.\<close>

definition rule_applies :: "ignoreRule \<Rightarrow> string \<Rightarrow> bool \<Rightarrow> bool" where
  "rule_applies r name isDir \<longleftrightarrow> rule_re r name \<and> \<not> (ir_dirOnly r \<and> \<not> isDir \<and> rule_direct r name)"

fun ignored_loop :: "ignoreRule list \<Rightarrow> string \<Rightarrow> bool \<Rightarrow> bool \<Rightarrow> bool" where
  "ignored_loop [] name isDir ig = ig"
| "ignored_loop (r # rs) name isDir ig =
     ignored_loop rs name isDir (if rule_applies r name isDir then \<not> ir_negate r else ig)"

definition ignored :: "ignoreRule list \<Rightarrow> string \<Rightarrow> bool \<Rightarrow> bool" where
  "ignored rs name isDir = ignored_loop rs name isDir False"

text \<open>\<open>loadIgnoreMatcher\<close>: the first MiB of \<open>.gitignore\<close>, line by line, up to ten thousand rules.\<close>

fun rules_loop :: "string list \<Rightarrow> ignoreRule list \<Rightarrow> ignoreRule list" where
  "rules_loop [] rs = rs"
| "rules_loop (l # ls) rs =
     (if 10000 \<le> length rs then rs
      else rules_loop ls (case parseIgnoreRule (TrimSuffix l [CR]) of None \<Rightarrow> rs | Some r \<Rightarrow> rs @ [r]))"

definition loadIgnoreMatcher :: "string option \<Rightarrow> ignoreRule list" where
  "loadIgnoreMatcher content =
     (case content of None \<Rightarrow> [] | Some text \<Rightarrow> rules_loop (SplitChar LF (take (2 ^ 20) text)) [])"

section \<open>The last rule decides\<close>

lemma ignored_loop_last:
  "ignored_loop rs name isDir ig =
     (case find (\<lambda>r. rule_applies r name isDir) (rev rs) of None \<Rightarrow> ig | Some r \<Rightarrow> \<not> ir_negate r)"
proof (induction rs arbitrary: ig)
  case Nil
  then show ?case by simp
next
  case (Cons r rs)
  have "find P (xs @ [x]) = (case find P xs of Some y \<Rightarrow> Some y | None \<Rightarrow> if P x then Some x else None)" for P xs and x :: ignoreRule
    by (induction xs) auto
  then show ?case using Cons by (simp split: option.split)
qed

section \<open>Stars stay within a segment\<close>

text \<open>Items that no \<open>**\<close> and no class made.\<close>

fun within :: "glob_item \<Rightarrow> bool" where
  "within (GLit c) \<longleftrightarrow> c \<noteq> SLASH"
| "within GRun \<longleftrightarrow> True"
| "within GOne \<longleftrightarrow> True"
| "within _ \<longleftrightarrow> False"

lemma rests_one_append: "SLASH \<notin> set s \<Longrightarrow> (s = [] \<Longrightarrow> t \<noteq> [] \<Longrightarrow> \<not> p (hd t)) \<Longrightarrow>
    rests_one p (s @ t) = map (\<lambda>r. r @ t) (rests_one p s)"
  by (cases s; cases t) (auto simp: rests_one_def)

lemma rests_run_append:
  "t = [] \<or> \<not> p (hd t) \<Longrightarrow> rests_run p (s @ t) = map (\<lambda>r. r @ t) (rests_run p s)"
proof (induction s)
  case Nil
  then show ?case by (cases t) auto
qed auto

lemma rests_within:
  assumes "within i" "SLASH \<notin> set s" "t = [] \<or> hd t = SLASH"
  shows "rests i (s @ t) = map (\<lambda>r. r @ t) (rests i s)"
  using assms by (cases i) (auto intro!: rests_one_append rests_run_append)

lemma set_rests_within: "within i \<Longrightarrow> r \<in> set (rests i s) \<Longrightarrow> set r \<subseteq> set s"
proof -
  have run: "r \<in> set (rests_run p s) \<Longrightarrow> set r \<subseteq> set s" for p r s
    by (induction s) (auto split: if_splits)
  have one: "r \<in> set (rests_one p s) \<Longrightarrow> set r \<subseteq> set s" for p r s
    by (cases s) (auto simp: rests_one_def split: if_splits)
  show "within i \<Longrightarrow> r \<in> set (rests i s) \<Longrightarrow> set r \<subseteq> set s"
    using run one by (cases i) auto
qed

lemma gmatch_segment:
  assumes "list_all within its" "SLASH \<notin> set seg" "t = [] \<or> hd t = SLASH"
  shows "gmatch fin (its @ js) (seg @ t) \<longleftrightarrow> gmatch (\<lambda>r. gmatch fin js (r @ t)) its seg"
  using assms
proof (induction its arbitrary: seg)
  case Nil
  then show ?case by simp
next
  case (Cons i its)
  have "SLASH \<notin> set r" if "r \<in> set (rests i seg)" for r using set_rests_within that Cons.prems by fastforce
  then show ?case using Cons by (simp add: rests_within list_ex_iff)
qed

lemma gmatch_cong: "(\<And>r. set r \<subseteq> set s \<Longrightarrow> fin r = fin' r) \<Longrightarrow> list_all within its \<Longrightarrow> gmatch fin its s = gmatch fin' its s"
proof (induction its arbitrary: s)
  case Nil
  then show ?case by simp
next
  case (Cons i its)
  have "gmatch fin its r = gmatch fin' its r" if "r \<in> set (rests i s)" for r
    using Cons.IH [of r] Cons.prems that set_rests_within [of i r s] by auto
  then show ?case by (auto simp: list_ex_iff)
qed

lemma gmatch_conj: "gmatch (\<lambda>r. fin r \<and> q) its s \<longleftrightarrow> gmatch fin its s \<and> q"
  by (induction its arbitrary: s) (auto simp: list_ex_iff)

lemma glob_full_Join:
  assumes "list_all (list_all within) gs" "gs \<noteq> []" "list_all (\<lambda>n. SLASH \<notin> set n) ns" "ns \<noteq> []"
  shows "glob_full (Join [GLit SLASH] gs) (Join [SLASH] ns) \<longleftrightarrow> list_all2 glob_full gs ns"
  using assms
proof (induction gs arbitrary: ns)
  case Nil
  then show ?case by simp
next
  case (Cons g gs)
  then obtain n ns' where ns: "ns = n # ns'" "SLASH \<notin> set n" "list_all (\<lambda>n. SLASH \<notin> set n) ns'" by (cases ns) auto
  define t where "t = (if ns' = [] then [] else SLASH # Join [SLASH] ns')"
  have j: "Join [SLASH] ns = n @ t" using ns by (auto simp: t_def Join_Cons)
  have g: "list_all within g" using Cons.prems by simp
  have t: "t = [] \<or> hd t = SLASH" by (simp add: t_def)
  show ?case
  proof (cases "gs = []")
    case True
    have "gmatch (\<lambda>r. r = []) (g @ []) (n @ t) \<longleftrightarrow> gmatch (\<lambda>r. r = [] \<and> t = []) g n"
      unfolding gmatch_segment [OF g ns(2) t] by (rule gmatch_cong [OF _ g]) auto
    then show ?thesis using True ns j by (auto simp: glob_full_def gmatch_conj t_def)
  next
    case False
    let ?fin = "\<lambda>r. r = []"
    have "gmatch ?fin (GLit SLASH # Join [GLit SLASH] gs) (r @ t) \<longleftrightarrow> r = [] \<and> t \<noteq> [] \<and> glob_full (Join [GLit SLASH] gs) (tl t)"
      if "set r \<subseteq> set n" for r
      using that ns(2) t by (cases r; cases t) (auto simp: rests_one_def glob_full_def)
    then have "gmatch ?fin (g @ GLit SLASH # Join [GLit SLASH] gs) (n @ t) \<longleftrightarrow>
        gmatch (\<lambda>r. r = [] \<and> (t \<noteq> [] \<and> glob_full (Join [GLit SLASH] gs) (tl t))) g n"
      unfolding gmatch_segment [OF g ns(2) t] by (intro gmatch_cong [OF _ g]) auto
    then have "glob_full (Join [GLit SLASH] (g # gs)) (n @ t) \<longleftrightarrow> glob_full g n \<and> t \<noteq> [] \<and> glob_full (Join [GLit SLASH] gs) (tl t)"
      using False by (simp add: Join_Cons glob_full_def gmatch_conj)
    then show ?thesis using Cons.IH [of ns'] Cons.prems False ns j by (auto simp: t_def list_all2_Cons1)
  qed
qed

lemma globBody_within:
  "globBody p = Some its \<Longrightarrow> \<not> Contains p ''**'' \<Longrightarrow> CHR ''['' \<notin> set p \<Longrightarrow>
   list_all (\<lambda>i. within i \<or> i = GLit SLASH) its"
proof (induction p arbitrary: its rule: globBody.induct)
  case 1
  then show ?case by simp
next
  case (2 c cs)
  have tail: "\<not> Contains ys ''**''" if "\<not> Contains (y # ys) ''**''" for y ys
    using that Index.simps(2) [of y ys "''**''"] by (auto simp: Contains_def split: if_splits)
  have nc: "\<not> Contains cs ''**''" using "2.prems"(2) by (rule tail)
  have nd: "\<not> Contains ds ''**''" if "cs = d # ds" for d ds
    using nc that tail by blast
  have ok: "list_all (\<lambda>i. within i \<or> i = GLit SLASH) its" if "its = quoted x @ r" "list_all (\<lambda>i. within i \<or> i = GLit SLASH) r" for x r
    using that by (simp add: quoted_def)
  show ?case
  proof (cases "c = CHR ''*''")
    case True
    have "\<not> HasPrefix cs ''*''"
    proof
      assume "HasPrefix cs ''*''"
      then obtain r where "c # cs = [] @ ''**'' @ r" using True by (auto simp: HasPrefix_iff)
      then show False using "2.prems"(2) unfolding Contains_iff by blast
    qed
    then obtain r where r: "globBody cs = Some r" "its = GRun # r" using "2.prems"(1) True by auto
    then show ?thesis using "2.IH"(3) [OF True \<open>\<not> HasPrefix cs ''*''\<close> r(1) nc] "2.prems"(3) by simp
  next
    case star: False
    show ?thesis
    proof (cases "c = CHR ''?''")
      case True
      then obtain r where r: "globBody cs = Some r" "its = GOne # r" using "2.prems"(1) by auto
      then show ?thesis using "2.IH"(4) [OF star True r(1) nc] "2.prems"(3) by simp
    next
      case ques: False
      have br: "c \<noteq> CHR ''[''" "CHR ''['' \<notin> set cs" using "2.prems"(3) by auto
      show ?thesis
      proof (cases "c = BSLASH")
        case True
        show ?thesis
        proof (cases cs)
          case Nil
          then have "its = [GLit BSLASH]" using "2.prems"(1) True star ques br by simp
          then show ?thesis by simp
        next
          case (Cons d ds)
          then obtain r where r: "globBody ds = Some r" "its = quoted d @ r" using "2.prems"(1) True star ques br by auto
          have "CHR ''['' \<notin> set ds" using br(2) Cons by simp
          from "2.IH"(6) [OF star ques br(1) True Cons r(1) nd [OF Cons] this] show ?thesis by (rule ok [OF r(2)])
        qed
      next
        case False
        then obtain r where r: "globBody cs = Some r" "its = quoted c @ r" using "2.prems"(1) star ques br by auto
        from "2.IH"(7) [OF star ques br(1) False r(1) nc br(2)] show ?thesis by (rule ok [OF r(2)])
      qed
    qed
  qed
qed

text \<open>
  In a glob without \<open>**\<close> and without classes, \<open>*\<close> and \<open>?\<close> stay within a path segment: the glob
  matches a name exactly when both have the same number of segments and each segment matches its own.
\<close>

theorem glob_segments:
  assumes "compileGlob p = Some its" "\<not> Contains p ''**''" "CHR ''['' \<notin> set p"
  shows "glob_full its name \<longleftrightarrow> list_all2 glob_full (SplitChar (GLit SLASH) its) (SplitChar SLASH name)"
proof -
  have b: "globBody (TrimPrefix p ''./'') = Some its"
    using assms(1) by (auto simp: compileGlob_def compile_def split: if_splits option.splits)
  have "set (TrimPrefix p ''./'') \<subseteq> set p" by (auto simp: TrimPrefix_def dest: in_set_dropD)
  moreover have "\<not> Contains (TrimPrefix p ''./'') ''**''"
  proof
    assume "Contains (TrimPrefix p ''./'') ''**''"
    then obtain l r where "TrimPrefix p ''./'' = l @ ''**'' @ r" by (auto simp: Contains_iff)
    then have "\<exists>l. p = l @ ''**'' @ r"
      by (cases "HasPrefix p ''./''") (auto simp: TrimPrefix_def HasPrefix_iff intro: exI [of _ "''./'' @ l"])
    then show False using assms(2) unfolding Contains_iff by blast
  qed
  ultimately have w: "list_all (\<lambda>i. within i \<or> i = GLit SLASH) its" using globBody_within [OF b] assms(3) by blast
  have "list_all within g" if "g \<in> set (SplitChar (GLit SLASH) its)" for g
    using SplitChar_no_sep [OF that] SplitChar_chars [OF that] w by (fastforce simp: list_all_iff)
  then have "list_all (list_all within) (SplitChar (GLit SLASH) its)" by (simp add: list_all_iff)
  moreover have "list_all (\<lambda>n. SLASH \<notin> set n) (SplitChar SLASH name)" by (auto simp: list_all_iff dest: SplitChar_no_sep)
  ultimately show ?thesis using glob_full_Join [of "SplitChar (GLit SLASH) its" "SplitChar SLASH name"] by simp
qed

theorem glob_segments_witness:
  "glob_full [GLit (CHR ''a''), GLit SLASH, GRun] ''a/bc'' \<and>
   (glob_full [GLit (CHR ''a''), GLit SLASH, GRun] ''a/b/c'' = list_all2 glob_full [[GLit (CHR ''a'')], [GRun]] [''a'', ''b'', ''c''])"
proof -
  have c: "compileGlob ''a/*'' = Some [GLit (CHR ''a''), GLit SLASH, GRun]" by code_simp
  have n: "\<not> Contains ''a/*'' ''**''" "CHR ''['' \<notin> set ''a/*''" by code_simp+
  show ?thesis
    using glob_segments [OF c n, of "''a/bc''"] glob_segments [OF c n, of "''a/b/c''"] by (auto simp: glob_full_def rests_one_def)
qed

text \<open>
  Ignore rules are decided by the last rule that applies: a name is ignored exactly when there is one
  and it is not negated.
\<close>

theorem ignored_last_rule:
  "ignored rs name isDir \<longleftrightarrow>
     (case find (\<lambda>r. rule_applies r name isDir) (rev rs) of None \<Rightarrow> False | Some r \<Rightarrow> \<not> ir_negate r)"
  by (simp add: ignored_def ignored_loop_last)

section \<open>Where globs differ from git's\<close>

text \<open>A negated class matches the separator, which git's never does.\<close>

lemma class_matches_slash: "compileGlob ''a[!b]c'' = Some its \<Longrightarrow> glob_full its ''a/c''"
proof -
  have "compileGlob ''a[!b]c'' = Some [GLit (CHR ''a''), GClass True ''b'', GLit (CHR ''c'')]" by code_simp
  moreover have "glob_full [GLit (CHR ''a''), GClass True ''b'', GLit (CHR ''c'')] ''a/c''" by code_simp
  ultimately show "compileGlob ''a[!b]c'' = Some its \<Longrightarrow> glob_full its ''a/c''" by simp
qed

text \<open>A glob with a character beyond ASCII does not match the name that consists of that character.\<close>

lemma non_ascii_glob:
  "compileGlob [CHR 0xC3, CHR 0xA9] = Some (map GLit [CHR 0xC3, CHR 0x83, CHR 0xC2, CHR 0xA9])
   \<and> \<not> glob_full (map GLit [CHR 0xC3, CHR 0x83, CHR 0xC2, CHR 0xA9]) [CHR 0xC3, CHR 0xA9]"
  by code_simp

end
