(* ===== verification/Walk.thy ===== *)
theory Walk
  imports Service Glob "HOL-Library.Char_ord" "HOL-Library.List_Lexorder"
begin

text \<open>
  \<open>filesystem/walk.go\<close>: the bounded directory walk that listing, finding and searching share.  The file
  system is the argument \<open>tree\<close>: what each call of the walk answers, and when the context is done.  It may be
  any function, so the tree may be infinite, change between calls with different arguments, or fail anywhere.
\<close>

section \<open>What the walk reads\<close>

text \<open>An I/O error: its text and the error it wraps.\<close>

type_synonym io_error = "string \<times> os_error"

definition ModeType :: FileMode where
  "ModeType = ModeDir OR ModeSymlink OR push_bit 26 1 OR push_bit 25 1 OR push_bit 24 1 OR push_bit 21 1 OR push_bit 19 1"

definition IsDir :: "FileMode \<Rightarrow> bool" where
  "IsDir m \<longleftrightarrow> m AND ModeDir \<noteq> 0"

definition IsSymlink :: "FileMode \<Rightarrow> bool" where
  "IsSymlink m \<longleftrightarrow> m AND ModeSymlink \<noteq> 0"

definition IsRegular :: "FileMode \<Rightarrow> bool" where
  "IsRegular m \<longleftrightarrow> m AND ModeType = 0"

record walk_info =
  wi_mode :: FileMode
  wi_size :: int

record dirent =
  de_name :: string
  de_info :: "(io_error, walk_info) result"

text \<open>
  \<open>t_done b p\<close>: is the context done when it is checked before directory (\<open>b\<close>) or entry \<open>p\<close>?  The last three
  are for searching: the content of a file, and the context before a file and before a line of it.
\<close>

record tree =
  t_ctx :: bool
  t_lstat :: "string \<Rightarrow> (io_error, walk_info) result"
  t_open :: "string \<Rightarrow> io_error option"
  t_readDir :: "string \<Rightarrow> (io_error, dirent list) result"   \<comment> \<open>in directory order\<close>
  t_done :: "bool \<Rightarrow> string \<Rightarrow> bool"
  t_gitignore :: "string option"
  t_read :: "string \<Rightarrow> (io_error, string) result"
  t_fileDone :: "string \<Rightarrow> bool"
  t_lineDone :: "string \<Rightarrow> nat \<Rightarrow> bool"

section \<open>The walk\<close>

record walkOptions =
  wk_start :: string
  wk_maxDepth :: int
  wk_showHidden :: bool
  wk_scanFiles :: int
  wk_scanBytes :: int
  wk_explicit :: bool
  wk_ignore :: "ignoreRule list"

record walkItem =
  it_name :: string
  it_rel :: string
  it_depth :: int
  it_info :: walk_info

record walkState =
  ws_items :: "walkItem list"
  ws_truncated :: bool
  ws_reason :: string
  ws_scanned :: int
  ws_bytes :: int

definition emptyWalk :: walkState where
  "emptyWalk = \<lparr>ws_items = [], ws_truncated = False, ws_reason = [], ws_scanned = 0, ws_bytes = 0\<rparr>"

definition defaultSkippedDirectories :: "string list" where
  "defaultSkippedDirectories =
     [''.git'', ''.hg'', ''.svn'', ''.cache'', ''.mypy_cache'', ''.pytest_cache'', ''.ruff_cache'', ''.venv'', ''__pycache__'',
      ''build'', ''dist'', ''node_modules'', ''target'', ''vendor'', ''venv'']"

definition cut_at :: "string \<Rightarrow> walkState \<Rightarrow> walkState" where
  "cut_at reason st = st\<lparr>ws_truncated := True, ws_reason := reason\<rparr>"

definition walk_size :: "walk_info \<Rightarrow> int" where
  "walk_size i = (if IsRegular (wi_mode i) then max (wi_size i) 0 else 0)"

text \<open>Hidden names and the directories that are skipped unless addressed.\<close>

definition skipped :: "walkOptions \<Rightarrow> string \<Rightarrow> walk_info \<Rightarrow> bool" where
  "skipped opt base i \<longleftrightarrow>
     (\<not> wk_showHidden opt \<and> HasPrefix base ''.'') \<or>
     (IsDir (wi_mode i) \<and> \<not> wk_explicit opt \<and> base \<in> set defaultSkippedDirectories)"

definition descends :: "walkOptions \<Rightarrow> int \<Rightarrow> walk_info \<Rightarrow> bool" where
  "descends opt depth i \<longleftrightarrow> IsDir (wi_mode i) \<and> \<not> IsSymlink (wi_mode i) \<and> depth + 1 < wk_maxDepth opt"

definition rel_child :: "string \<Rightarrow> string \<Rightarrow> string" where
  "rel_child rel base = (if rel = [] then base else JoinPath [rel, base])"

definition entry_items :: "walkOptions \<Rightarrow> string \<Rightarrow> string \<Rightarrow> int \<Rightarrow> string \<Rightarrow> walk_info \<Rightarrow> walkItem list" where
  "entry_items opt dir rel depth base i =
     (if ignored (wk_ignore opt) (JoinPath [dir, base]) (IsDir (wi_mode i)) then []
      else [\<lparr>it_name = JoinPath [dir, base], it_rel = rel_child rel base, it_depth = depth + 1, it_info = i\<rparr>])"

text \<open>\<open>None\<close>: the recursion was cut off.\<close>

type_synonym walk_result = "(call_error, walkState) result option"

text \<open>What one entry does: end the visit, go on with the next entry, or visit a subdirectory first.\<close>

datatype entry_step =
    Stop "(call_error, walkState) result"
  | Next walkState
  | Sub string string walkState

definition entry_step :: "tree \<Rightarrow> walkOptions \<Rightarrow> string \<Rightarrow> string \<Rightarrow> int \<Rightarrow> dirent \<Rightarrow> walkState \<Rightarrow> entry_step" where
  "entry_step t opt dir rel depth e st =
     (if ws_scanned st \<ge> wk_scanFiles opt then Stop (Inr (cut_at ''scan file limit'' st))
      else let base = de_name e; child = JoinPath [dir, base] in
        if t_done t False child then Stop (Inl ContextErr)
        else (case de_info e of
            Inl (text, er) \<Rightarrow> Stop (Inl (FsErr (rootError ''walk'' child text er)))
          | Inr i \<Rightarrow>
              (let st1 = st\<lparr>ws_scanned := ws_scanned st + 1\<rparr>; sum = wrap64 (ws_bytes st + walk_size i) in
               if sum > wk_scanBytes opt then Stop (Inr (cut_at ''scan byte limit'' st1))
               else let st2 = st1\<lparr>ws_bytes := sum\<rparr> in
                 if skipped opt base i then Next st2
                 else let st3 = st2\<lparr>ws_items := ws_items st2 @ entry_items opt dir rel depth base i\<rparr> in
                   if descends opt depth i then Sub child (rel_child rel base) st3 else Next st3)))"

text \<open>The loop over the entries of one directory; \<open>rec\<close> visits a subdirectory.\<close>

fun walk_entries ::
  "(string \<Rightarrow> string \<Rightarrow> int \<Rightarrow> walkState \<Rightarrow> walk_result) \<Rightarrow> tree \<Rightarrow> walkOptions \<Rightarrow> string \<Rightarrow> string \<Rightarrow> int \<Rightarrow>
   dirent list \<Rightarrow> walkState \<Rightarrow> walk_result" where
  "walk_entries rec t opt dir rel depth [] st = Some (Inr st)"
| "walk_entries rec t opt dir rel depth (e # es) st =
     (case entry_step t opt dir rel depth e st of
        Stop r \<Rightarrow> Some r
      | Next st1 \<Rightarrow> walk_entries rec t opt dir rel depth es st1
      | Sub child childRel st1 \<Rightarrow>
          (case rec child childRel (depth + 1) st1 of
             None \<Rightarrow> None
           | Some (Inl er) \<Rightarrow> Some (Inl er)
           | Some (Inr st2) \<Rightarrow>
               if ws_truncated st2 then Some (Inr st2) else walk_entries rec t opt dir rel depth es st2))"

text \<open>The start of \<open>visit\<close>: the end of the visit, or the entries in name order and whether there are more.\<close>

definition open_dir :: "tree \<Rightarrow> walkOptions \<Rightarrow> string \<Rightarrow> walkState \<Rightarrow> (call_error, walkState) result + (dirent list \<times> bool)" where
  "open_dir t opt dir st =
     (if t_done t True dir then Inl (Inl ContextErr)
      else (case t_open t dir of
          Some (text, er) \<Rightarrow> Inl (Inl (FsErr (rootError ''walk'' dir text er)))
        | None \<Rightarrow>
            (let remaining = wk_scanFiles opt - ws_scanned st in
             if remaining < 1 then Inl (Inr (cut_at ''scan file limit'' st))
             else (case t_readDir t dir of
                 Inl (text, er) \<Rightarrow> Inl (Inl (FsErr (rootError ''walk'' dir text er)))
               | Inr listing \<Rightarrow>
                   (let entries = sort_key de_name (take (nat (remaining + 1)) listing) in
                    Inr (take (nat remaining) entries, int (length entries) > remaining))))))"

definition after_entries :: "bool \<Rightarrow> walkState \<Rightarrow> walkState" where
  "after_entries overflow st = (if overflow \<and> \<not> ws_truncated st then cut_at ''scan file limit'' st else st)"

text \<open>\<open>visit\<close>; the fuel bounds the depth of the recursion.\<close>

fun visit :: "nat \<Rightarrow> tree \<Rightarrow> walkOptions \<Rightarrow> string \<Rightarrow> string \<Rightarrow> int \<Rightarrow> walkState \<Rightarrow> walk_result" where
  "visit 0 t opt dir rel depth st = None"
| "visit (Suc n) t opt dir rel depth st =
     (case open_dir t opt dir st of
        Inl r \<Rightarrow> Some r
      | Inr (entries, overflow) \<Rightarrow>
          map_option (map_sum id (after_entries overflow)) (walk_entries (visit n t opt) t opt dir rel depth entries st))"

definition walk_fuel :: "walkOptions \<Rightarrow> nat" where
  "walk_fuel opt = Suc (nat (wk_scanFiles opt))"

definition walk :: "tree \<Rightarrow> walkOptions \<Rightarrow> walk_result" where
  "walk t opt =
     (case t_lstat t (wk_start opt) of
        Inl (text, er) \<Rightarrow> Some (Inl (FsErr (rootError ''walk'' (wk_start opt) text er)))
      | Inr i \<Rightarrow>
          (if \<not> IsDir (wi_mode i) \<or> IsSymlink (wi_mode i) then
             (let st = emptyWalk\<lparr>ws_scanned := 1\<rparr> in
              Some (Inr (if walk_size i > wk_scanBytes opt then cut_at ''scan byte limit'' st
                         else st\<lparr>ws_bytes := walk_size i,
                                 ws_items := [\<lparr>it_name = wk_start opt, it_rel = Base (wk_start opt), it_depth = 0, it_info = i\<rparr>]\<rparr>)))
           else if wk_maxDepth opt > 0 then visit (walk_fuel opt) t opt (wk_start opt) [] 0 emptyWalk
           else Some (Inr emptyWalk)))"

section \<open>The walk returns\<close>

lemma cut_at_simps [simp]:
  "ws_items (cut_at m st) = ws_items st" "ws_truncated (cut_at m st)" "ws_scanned (cut_at m st) = ws_scanned st"
  "ws_bytes (cut_at m st) = ws_bytes st"
  by (simp_all add: cut_at_def)

text \<open>What one entry does to the state; the steps of the walk are known by these facts.\<close>

lemma entry_step_scanned:
  "entry_step t opt dir rel depth e st = Next st1 \<Longrightarrow> ws_scanned st1 = ws_scanned st + 1 \<and> ws_scanned st < wk_scanFiles opt"
  "entry_step t opt dir rel depth e st = Sub c r st1 \<Longrightarrow> ws_scanned st1 = ws_scanned st + 1 \<and> ws_scanned st < wk_scanFiles opt"
  "entry_step t opt dir rel depth e st = Stop (Inr st1) \<Longrightarrow> ws_truncated st1 \<and> ws_scanned st \<le> ws_scanned st1"
  by (auto simp: entry_step_def Let_def split: if_splits prod.splits sum.splits)

lemma open_dir_Inl: "open_dir t opt dir st = Inl (Inr st1) \<Longrightarrow> st1 = cut_at ''scan file limit'' st"
  by (auto simp: open_dir_def Let_def split: if_splits option.splits sum.splits)

lemma after_entries_simps [simp]:
  "ws_scanned (after_entries b st) = ws_scanned st" "ws_items (after_entries b st) = ws_items st"
  "ws_bytes (after_entries b st) = ws_bytes st" "ws_truncated (after_entries b st) \<longleftrightarrow> b \<or> ws_truncated st"
  by (auto simp: after_entries_def)

text \<open>Rule induction in the shape of the loop: what holds along every run of it that returns a state.\<close>

lemma walk_entries_induct [consumes 1, case_names finish stop skip into]:
  assumes "walk_entries rec t opt dir rel depth es st = Some (Inr st')"
    "\<And>st. P [] st st"
    "\<And>e es st st1. entry_step t opt dir rel depth e st = Stop (Inr st1) \<Longrightarrow> P (e # es) st st1"
    "\<And>e es st st1 st'. entry_step t opt dir rel depth e st = Next st1 \<Longrightarrow> P es st1 st' \<Longrightarrow> P (e # es) st st'"
    "\<And>e es st c r st1 st2 st'. entry_step t opt dir rel depth e st = Sub c r st1 \<Longrightarrow> rec c r (depth + 1) st1 = Some (Inr st2) \<Longrightarrow>
       (if ws_truncated st2 then st' = st2 else P es st2 st') \<Longrightarrow> P (e # es) st st'"
  shows "P es st st'"
  using assms(1)
proof (induction es arbitrary: st)
  case Nil
  then show ?case using assms(2) by simp
next
  case (Cons e es)
  show ?case
  proof (cases "entry_step t opt dir rel depth e st")
    case (Stop r)
    then show ?thesis using Cons.prems assms(3) by simp
  next
    case (Next st1)
    then show ?thesis using Cons assms(4) by simp
  next
    case (Sub c r st1)
    then obtain st2 where "rec c r (depth + 1) st1 = Some (Inr st2)"
        "if ws_truncated st2 then st' = st2 else walk_entries rec t opt dir rel depth es st2 = Some (Inr st')"
      using Cons.prems by (auto split: option.splits sum.splits if_splits)
    then show ?thesis using Sub Cons.IH assms(5) by (metis (full_types))
  qed
qed

lemma visit_SucE:
  assumes "visit (Suc n) t opt dir rel depth st = Some (Inr st')"
  obtains "open_dir t opt dir st = Inl (Inr st')"
  | es overflow st1 where "open_dir t opt dir st = Inr (es, overflow)"
      "walk_entries (visit n t opt) t opt dir rel depth es st = Some (Inr st1)" "st' = after_entries overflow st1"
proof (cases "open_dir t opt dir st")
  case (Inl r)
  then show thesis using assms that(1) by simp
next
  case (Inr x)
  obtain es overflow where x: "x = (es, overflow)" by fastforce
  then obtain q where q: "walk_entries (visit n t opt) t opt dir rel depth es st = Some q" "map_sum id (after_entries overflow) q = Inr st'"
    using assms Inr by auto
  then show thesis using Inr x that(2) by (cases q) auto
qed

lemma walk_entries_scanned:
  assumes "walk_entries rec t opt dir rel depth es st = Some (Inr st')"
    "\<And>c r d st st'. rec c r d st = Some (Inr st') \<Longrightarrow> ws_scanned st \<le> ws_scanned st'"
  shows "ws_scanned st \<le> ws_scanned st'"
  using assms(1)
proof (induction rule: walk_entries_induct)
  case (into e es st c r st1 st2 st')
  from entry_step_scanned(2) [OF into(1)] assms(2) [OF into(2)] into(3) show ?case by (simp split: if_splits)
qed (auto dest: entry_step_scanned)

lemma visit_scanned: "visit n t opt dir rel depth st = Some (Inr st') \<Longrightarrow> ws_scanned st \<le> ws_scanned st'"
proof (induction n arbitrary: dir rel depth st st')
  case 0
  then show ?case by simp
next
  case (Suc n)
  from Suc.prems show ?case
  proof (cases rule: visit_SucE)
    case 1
    then show ?thesis using open_dir_Inl by fastforce
  next
    case (2 es overflow st1)
    then show ?thesis using walk_entries_scanned [OF 2(2) Suc.IH] by simp
  qed
qed

text \<open>A visited subdirectory is counted before it is visited, so the budget left bounds the depth.\<close>

lemma walk_entries_total:
  assumes "\<And>c r d st'. ws_scanned st < ws_scanned st' \<Longrightarrow> rec c r d st' \<noteq> None"
    "\<And>c r d st st'. rec c r d st = Some (Inr st') \<Longrightarrow> ws_scanned st \<le> ws_scanned st'"
  shows "walk_entries rec t opt dir rel depth es st \<noteq> None"
  using assms(1)
proof (induction es arbitrary: st)
  case Nil
  then show ?case by simp
next
  case (Cons e es)
  have IH: "walk_entries rec t opt dir rel depth es st' \<noteq> None" if "ws_scanned st < ws_scanned st'" for st'
    using Cons.IH [of st'] Cons.prems that by simp
  show ?case
  proof (cases "entry_step t opt dir rel depth e st")
    case (Next st1)
    then show ?thesis using IH [of st1] entry_step_scanned(1) [OF Next] by simp
  next
    case (Sub c r st1)
    have s: "ws_scanned st < ws_scanned st1" using entry_step_scanned(2) [OF Sub] by simp
    then obtain x where x: "rec c r (depth + 1) st1 = Some x" using Cons.prems by blast
    show ?thesis
    proof (cases x)
      case (Inr st2)
      then show ?thesis using Sub x s IH [of st2] assms(2) [of c r "depth + 1" st1 st2] by simp
    qed (use Sub x in simp)
  qed simp
qed

lemma visit_total: "wk_scanFiles opt - ws_scanned st < int n \<Longrightarrow> 0 < n \<Longrightarrow> visit n t opt dir rel depth st \<noteq> None"
proof (induction n arbitrary: dir rel depth st)
  case 0
  then show ?case by simp
next
  case (Suc n)
  show ?case
  proof (cases "open_dir t opt dir st")
    case (Inr x)
    have "ws_scanned st < wk_scanFiles opt"
      using Inr by (auto simp: open_dir_def Let_def split: if_splits option.splits sum.splits)
    then have "walk_entries (visit n t opt) t opt dir rel depth (fst x) st \<noteq> None"
      using Suc.prems by (intro walk_entries_total Suc.IH visit_scanned) auto
    then show ?thesis using Inr by (cases x) auto
  qed simp
qed

lemma walk_entries_more:
  assumes "\<And>c r d st x. rec c r d st = Some x \<Longrightarrow> rec' c r d st = Some x"
  shows "walk_entries rec t opt dir rel depth es st = Some x \<Longrightarrow> walk_entries rec' t opt dir rel depth es st = Some x"
proof (induction es arbitrary: st)
  case Nil
  then show ?case by simp
next
  case (Cons e es)
  show ?case
  proof (cases "entry_step t opt dir rel depth e st")
    case (Sub c r st1)
    then obtain y where y: "rec c r (depth + 1) st1 = Some y" using Cons.prems by (auto split: option.splits)
    then show ?thesis using Sub Cons assms [OF y] by (auto split: sum.splits)
  qed (use Cons in simp_all)
qed

lemma visit_more: "visit n t opt dir rel depth st = Some x \<Longrightarrow> n \<le> m \<Longrightarrow> visit m t opt dir rel depth st = Some x"
proof (induction n arbitrary: m dir rel depth st x)
  case 0
  then show ?case by simp
next
  case (Suc n)
  then obtain k where m: "m = Suc k" "n \<le> k" by (cases m) auto
  have more: "walk_entries (visit n t opt) t opt dir rel depth es st = Some y \<Longrightarrow>
      walk_entries (visit k t opt) t opt dir rel depth es st = Some y" for es y
    by (rule walk_entries_more) (auto intro: Suc.IH m(2))
  from Suc.prems(1) show ?case unfolding m(1) by (auto dest: more split: sum.splits prod.splits)
qed

text \<open>
  Claim C27: the walk always returns, whatever the file system is, also one whose directories contain each other
  without end and whatever depth is asked for: the fuel of the model, one more than the file budget, is
  never used up, and more of it changes nothing.
\<close>

theorem walk_terminates:
  "walk t opt \<noteq> None \<and> visit (walk_fuel opt + k) t opt dir rel depth emptyWalk = visit (walk_fuel opt) t opt dir rel depth emptyWalk"
proof -
  have v: "visit (walk_fuel opt) t opt dir rel depth emptyWalk \<noteq> None" for dir rel depth
    by (rule visit_total) (simp_all add: walk_fuel_def emptyWalk_def)
  then have "walk t opt \<noteq> None" by (auto simp: walk_def Let_def split: sum.split)
  moreover obtain x where "visit (walk_fuel opt) t opt dir rel depth emptyWalk = Some x" using v by blast
  ultimately show ?thesis using visit_more [of "walk_fuel opt" t opt dir rel depth emptyWalk x "walk_fuel opt + k"] by simp
qed

section \<open>What the walk finds\<close>

text \<open>Bounds: the budgets, and what an item may be.\<close>

definition item_ok :: "walkOptions \<Rightarrow> walkItem \<Rightarrow> bool" where
  "item_ok opt it \<longleftrightarrow> 1 \<le> it_depth it \<and> it_depth it \<le> wk_maxDepth opt \<and>
     ignored (wk_ignore opt) (it_name it) (IsDir (wi_mode (it_info it))) = False"

definition within_budget :: "walkOptions \<Rightarrow> walkState \<Rightarrow> bool" where
  "within_budget opt st \<longleftrightarrow> ws_scanned st \<le> wk_scanFiles opt \<and> ws_bytes st \<le> wk_scanBytes opt \<and>
     int (length (ws_items st)) \<le> ws_scanned st \<and> list_all (item_ok opt) (ws_items st)"

lemma entry_items_ok: "0 \<le> depth \<Longrightarrow> depth < wk_maxDepth opt \<Longrightarrow> list_all (item_ok opt) (entry_items opt dir rel depth base i)"
  by (simp add: entry_items_def item_ok_def)

lemma entry_items_length: "a \<le> b \<Longrightarrow> a + int (length (entry_items opt dir rel depth base i)) \<le> b + 1"
  by (simp add: entry_items_def)

lemma entry_step_budget:
  assumes "within_budget opt st" "0 \<le> depth" "depth < wk_maxDepth opt"
  shows "entry_step t opt dir rel depth e st = Stop (Inr st1) \<Longrightarrow> within_budget opt st1"
    "entry_step t opt dir rel depth e st = Next st1 \<Longrightarrow> within_budget opt st1"
    "entry_step t opt dir rel depth e st = Sub c r st1 \<Longrightarrow> within_budget opt st1 \<and> depth + 1 < wk_maxDepth opt"
  using assms entry_items_ok [of depth opt dir rel "de_name e"] 
  by (auto simp: entry_step_def Let_def within_budget_def cut_at_def descends_def intro: entry_items_length
      split: if_splits prod.splits sum.splits)

lemma visit_budget:
  "visit n t opt dir rel depth st = Some (Inr st') \<Longrightarrow> within_budget opt st \<Longrightarrow> 0 \<le> depth \<Longrightarrow> depth < wk_maxDepth opt \<Longrightarrow>
   within_budget opt st'"
proof (induction n arbitrary: dir rel depth st st')
  case 0
  then show ?case by simp
next
  case (Suc n)
  from Suc.prems(1) show ?case
  proof (cases rule: visit_SucE)
    case 1
    then show ?thesis using Suc.prems(2) open_dir_Inl [OF 1] by (simp add: within_budget_def)
  next
    case (2 es overflow st1)
    from 2(2) Suc.prems(2) have "within_budget opt st1"
    proof (induction rule: walk_entries_induct)
      case (stop e es st st1)
      then show ?case using entry_step_budget(1) Suc.prems by blast
    next
      case (skip e es st st1 st')
      then show ?case using entry_step_budget(2) Suc.prems by blast
    next
      case (into e es st c r st1 st2 st')
      have s: "within_budget opt st1" "depth + 1 < wk_maxDepth opt" using entry_step_budget(3) [OF into(4) _ _ into(1)] Suc.prems by auto
      then have "within_budget opt st2" using Suc.IH [OF into(2)] Suc.prems(3) by simp
      then show ?case using into(3) by (auto split: if_splits)
    qed simp
    then show ?thesis using 2(3) by (simp add: within_budget_def)
  qed
qed

text \<open>
  The reference: the whole tree below a directory in preorder and name order, without budgets and errors.
  The fuel is the depth looked at.
\<close>

definition listing :: "tree \<Rightarrow> string \<Rightarrow> dirent list" where
  "listing t dir = (case t_readDir t dir of Inl e \<Rightarrow> [] | Inr es \<Rightarrow> sort_key de_name es)"

fun items_below :: "nat \<Rightarrow> tree \<Rightarrow> walkOptions \<Rightarrow> string \<Rightarrow> string \<Rightarrow> int \<Rightarrow> walkItem list" where
  "items_below 0 t opt dir rel depth = []"
| "items_below (Suc n) t opt dir rel depth =
     concat (map (\<lambda>e. case de_info e of
         Inl er \<Rightarrow> []
       | Inr i \<Rightarrow>
           if skipped opt (de_name e) i then []
           else entry_items opt dir rel depth (de_name e) i @
             (if descends opt depth i then items_below n t opt (JoinPath [dir, de_name e]) (rel_child rel (de_name e)) (depth + 1) else []))
       (listing t dir))"

lemma entry_step_items:
  "entry_step t opt dir rel depth e st = Next st1 \<Longrightarrow> \<exists>i. de_info e = Inr i \<and>
     ws_items st1 = ws_items st @ (if skipped opt (de_name e) i then [] else entry_items opt dir rel depth (de_name e) i) \<and>
     (skipped opt (de_name e) i \<or> \<not> descends opt depth i)"
  "entry_step t opt dir rel depth e st = Sub c r st1 \<Longrightarrow> \<exists>i. de_info e = Inr i \<and> \<not> skipped opt (de_name e) i \<and> descends opt depth i \<and>
     ws_items st1 = ws_items st @ entry_items opt dir rel depth (de_name e) i \<and> c = JoinPath [dir, de_name e] \<and> r = rel_child rel (de_name e)"
  by (auto simp: entry_step_def Let_def split: if_splits prod.splits sum.splits)

lemma open_dir_whole:
  assumes "open_dir t opt dir st = Inr (es, False)"
  shows "es = listing t dir"
proof -
  let ?r = "wk_scanFiles opt - ws_scanned st"
  obtain all where a: "\<not> ?r < 1" "t_readDir t dir = Inr all" "es = take (nat ?r) (sort_key de_name (take (nat (?r + 1)) all))"
      "\<not> int (length (take (nat (?r + 1)) all)) > ?r"
    using assms by (auto simp: open_dir_def Let_def split: if_splits option.splits sum.splits)
  then have "length all \<le> nat ?r" by (auto simp: min_def split: if_splits)
  then show ?thesis using a by (simp add: listing_def)
qed

lemma visit_complete:
  "visit n t opt dir rel depth st = Some (Inr st') \<Longrightarrow> \<not> ws_truncated st' \<Longrightarrow>
   ws_items st' = ws_items st @ items_below n t opt dir rel depth"
proof (induction n arbitrary: dir rel depth st st')
  case 0
  then show ?case by simp
next
  case (Suc n)
  let ?f = "\<lambda>e. case de_info e of
         Inl er \<Rightarrow> []
       | Inr i \<Rightarrow>
           if skipped opt (de_name e) i then []
           else entry_items opt dir rel depth (de_name e) i @
             (if descends opt depth i then items_below n t opt (JoinPath [dir, de_name e]) (rel_child rel (de_name e)) (depth + 1) else [])"
  from Suc.prems(1) show ?case
  proof (cases rule: visit_SucE)
    case 1
    then show ?thesis using Suc.prems(2) open_dir_Inl [OF 1] by simp
  next
    case (2 es overflow st1)
    then have o: "\<not> overflow" "\<not> ws_truncated st1" using Suc.prems(2) by simp_all
    from 2(2) o(2) have "ws_items st1 = ws_items st @ concat (map ?f es)"
    proof (induction rule: walk_entries_induct)
      case (stop e es st st1)
      then show ?case using entry_step_scanned(3) by blast
    next
      case (skip e es st st1 st')
      then show ?case using entry_step_items(1) [OF skip(1)] by (auto split: if_splits)
    next
      case (into e es st c r st1 st2 st')
      have "\<not> ws_truncated st2" using into(3,4) by (auto split: if_splits)
      then show ?case using entry_step_items(2) [OF into(1)] Suc.IH [OF into(2)] into(3,4) by auto
    qed simp
    then show ?thesis using open_dir_whole 2(1,3) o(1) by simp
  qed
qed

section \<open>The order of directories\<close>

text \<open>Two file systems that differ in the order in which directories list their entries only.\<close>

definition same_tree :: "tree \<Rightarrow> tree \<Rightarrow> bool" where
  "same_tree t t' \<longleftrightarrow> t_ctx t = t_ctx t' \<and> t_lstat t = t_lstat t' \<and> t_open t = t_open t' \<and> t_done t = t_done t' \<and> t_gitignore t = t_gitignore t' \<and>
     t_read t = t_read t' \<and> t_fileDone t = t_fileDone t' \<and> t_lineDone t = t_lineDone t' \<and>
     (\<forall>dir. case (t_readDir t dir, t_readDir t' dir) of
        (Inl e, Inl e') \<Rightarrow> e = e'
      | (Inr es, Inr es') \<Rightarrow> mset es = mset es' \<and> distinct (map de_name es)
      | _ \<Rightarrow> False)"

lemma distinct_filter_one: "distinct zs \<Longrightarrow> k \<in> set zs \<Longrightarrow> filter (\<lambda>x. x = k) zs = [k]"
  by (induction zs) (auto simp: filter_empty_conv)

lemma sort_key_unique:
  assumes "mset xs = mset ys" "distinct (map f xs)"
  shows "sort_key f xs = sort_key f ys"
proof (rule sym, rule properties_for_sort_key)
  show "mset (sort_key f xs) = mset ys" using assms(1) by simp
  show "sorted (map f (sort_key f xs))" by simp
  fix k assume "k \<in> set (sort_key f xs)"
  have d: "distinct xs" "inj_on f (set xs)" using assms(2) by (simp_all add: distinct_map)
  have s: "set xs = set ys" using assms(1) by (metis set_mset_mset)
  have "filter (\<lambda>x. f k = f x) zs = [k]" if "distinct zs" "set zs = set xs" for zs
  proof -
    have "k \<in> set xs" using \<open>k \<in> set (sort_key f xs)\<close> by simp
    then have "\<And>x. x \<in> set zs \<Longrightarrow> f k = f x \<longleftrightarrow> x = k" using d(2) that(2) by (auto dest: inj_onD)
    then have "filter (\<lambda>x. f k = f x) zs = filter (\<lambda>x. x = k) zs" by (intro filter_cong) auto
    also have "\<dots> = [k]" using distinct_filter_one [OF that(1)] that(2) \<open>k \<in> set xs\<close> by simp
    finally show ?thesis .
  qed
  moreover have "distinct ys" using d(1) assms(1) by (metis mset_eq_imp_distinct_iff)
  ultimately show "filter (\<lambda>x. f k = f x) (sort_key f xs) = filter (\<lambda>x. f k = f x) ys" using d(1) s by simp
qed

lemma open_dir_same:
  assumes "same_tree t t'"
  shows "(case open_dir t opt dir st of Inl r \<Rightarrow> open_dir t' opt dir st = Inl r
    | Inr (es, overflow) \<Rightarrow> overflow \<or> open_dir t' opt dir st = Inr (es, False))"
proof -
  have t: "t_open t = t_open t'" "t_done t = t_done t'" using assms by (simp_all add: same_tree_def)
  let ?r = "wk_scanFiles opt - ws_scanned st"
  have d: "case (t_readDir t dir, t_readDir t' dir) of
        (Inl e, Inl e') \<Rightarrow> e = e'
      | (Inr es, Inr es') \<Rightarrow> mset es = mset es' \<and> distinct (map de_name es)
      | _ \<Rightarrow> False"
    using assms by (auto simp: same_tree_def)
  show ?thesis
  proof (cases "t_readDir t dir")
    case (Inl e)
    then show ?thesis using d t by (auto simp: open_dir_def Let_def split: option.splits sum.splits)
  next
    case (Inr es)
    then obtain es' where es': "t_readDir t' dir = Inr es'" "mset es = mset es'" "distinct (map de_name es)"
      using d by (cases "t_readDir t' dir") auto
    have l: "length es = length es'" using es'(2) by (metis size_mset)
    show ?thesis
    proof (cases "t_done t True dir \<or> t_open t dir \<noteq> None \<or> ?r < 1")
      case True
      then show ?thesis using t Inr es' by (auto simp: open_dir_def Let_def split: option.splits)
    next
      case False
      then have o: "open_dir u opt dir st = Inr (take (nat ?r) (sort_key de_name (take (nat (?r + 1)) xs)), int (length (take (nat (?r + 1)) xs)) > ?r)"
        if "t_readDir u dir = Inr xs" "t_open u = t_open t" "t_done u = t_done t" for u xs
        using that False by (auto simp: open_dir_def Let_def split: option.split)
      show ?thesis
      proof (cases "int (length es) \<le> ?r")
        case True
        then have "take (nat (?r + 1)) es = es" "take (nat (?r + 1)) es' = es'" using l by auto
        moreover have "sort_key de_name es = sort_key de_name es'" using es'(2,3) by (rule sort_key_unique)
        ultimately show ?thesis using True l o [OF Inr] o [OF es'(1)] t by simp
      next
        case more: False
        then have "int (length (take (nat (?r + 1)) es)) > ?r" using False by (auto simp: min_def)
        then show ?thesis using o [OF Inr] by simp
      qed
    qed
  qed
qed

lemma walk_entries_same:
  assumes "walk_entries rec t opt dir rel depth es st = Some (Inr st')" "\<not> ws_truncated st'" "t_done t = t_done t'"
    "\<And>c r d st st'. rec c r d st = Some (Inr st') \<Longrightarrow> \<not> ws_truncated st' \<Longrightarrow> rec' c r d st = Some (Inr st')"
  shows "walk_entries rec' t' opt dir rel depth es st = Some (Inr st')"
proof -
  have "entry_step t' opt dir rel depth e st = entry_step t opt dir rel depth e st" for e st
    by (simp add: entry_step_def assms(3))
  note step = this
  from assms(1,2) show ?thesis
  proof (induction rule: walk_entries_induct)
    case (stop e es st st1)
    then show ?case using entry_step_scanned(3) by blast
  next
    case (into e es st c r st1 st2 st')
    have "\<not> ws_truncated st2" using into(3,4) by (auto split: if_splits)
    then show ?case using into assms(4) [OF into(2)] by (simp add: step)
  qed (simp_all add: step)
qed

lemma visit_same:
  assumes "same_tree t t'"
  shows "visit n t opt dir rel depth st = Some (Inr st') \<Longrightarrow> \<not> ws_truncated st' \<Longrightarrow> visit n t' opt dir rel depth st = Some (Inr st')"
proof (induction n arbitrary: dir rel depth st st')
  case 0
  then show ?case by simp
next
  case (Suc n)
  from Suc.prems(1) show ?case
  proof (cases rule: visit_SucE)
    case 1
    then show ?thesis using Suc.prems(2) open_dir_Inl [OF 1] by simp
  next
    case (2 es overflow st1)
    then have o: "\<not> overflow" "\<not> ws_truncated st1" "st' = st1" using Suc.prems(2) by (auto simp: after_entries_def split: if_splits)
    have d: "open_dir t' opt dir st = Inr (es, False)" using open_dir_same [OF assms, of opt dir st] 2(1) o(1) by simp
    have t: "t_done t = t_done t'" using assms by (simp add: same_tree_def)
    have "walk_entries (visit n t' opt) t' opt dir rel depth es st = Some (Inr st1)"
      using walk_entries_same [OF 2(2) o(2) t] Suc.IH by blast
    then show ?thesis using d o by (simp add: after_entries_def)
  qed
qed

lemma walk_same:
  assumes "same_tree t t'" "walk t opt = Some (Inr st)" "\<not> ws_truncated st"
  shows "walk t' opt = Some (Inr st)"
proof -
  have l: "t_lstat t' = t_lstat t" using assms(1) by (simp add: same_tree_def)
  show ?thesis
    using assms(2,3) visit_same [OF assms(1)]
    by (auto simp: walk_def Let_def l split: sum.splits if_splits prod.splits)
qed

end
