(* ===== verification/Listing.thy ===== *)
theory Listing
  imports Walk
begin

text \<open>
  \<open>filesystem/list_find.go\<close> and \<open>filesystem/search.go\<close>: listing, finding and searching on top of the walk, and
  the rendering helpers of \<open>walk.go\<close>.  \<open>sha\<close> is SHA-256; \<open>re\<close> is \<open>regexp.Compile\<close> on a caller's pattern.
\<close>

section \<open>Results\<close>

record Truncation =
  tr_Truncated :: bool
  tr_Reason :: string
  tr_Continuation :: string
  tr_ReturnedItems :: int
  tr_ReturnedBytes :: int
  tr_ScannedFiles :: int
  tr_ScannedBytes :: int

record Entry =
  en_Path :: string
  en_Name :: string
  en_Type :: string
  en_Depth :: int
  en_Size :: int
  en_Mode :: FileMode

definition itemEntry :: "walkItem \<Rightarrow> Entry" where
  "itemEntry it =
     (let m = wi_mode (it_info it) in
      \<lparr>en_Path = it_name it, en_Name = Base (it_name it),
       en_Type = (if IsSymlink m then ''symlink'' else if IsDir m then ''directory'' else if \<not> IsRegular m then ''other'' else ''file''),
       en_Depth = it_depth it, en_Size = wi_size (it_info it), en_Mode = m\<rparr>)"

definition explicitSkipAddress :: "string \<Rightarrow> string \<Rightarrow> bool" where
  "explicitSkipAddress root pattern =
     list_ex (\<lambda>name. name \<in> set (SplitChar SLASH (TrimP (\<lambda>c. c = SLASH) (root @ [SLASH] @ pattern))) \<or> Contains pattern name)
       defaultSkippedDirectories"

definition walkTruncation :: "walkState \<Rightarrow> Truncation" where
  "walkTruncation st = \<lparr>tr_Truncated = ws_truncated st, tr_Reason = ws_reason st, tr_Continuation = [], tr_ReturnedItems = 0,
     tr_ReturnedBytes = 0, tr_ScannedFiles = ws_scanned st, tr_ScannedBytes = ws_bytes st\<rparr>"

definition tree_line :: "Entry \<Rightarrow> string" where
  "tree_line e = concat (replicate (nat (max (en_Depth e) 1 - 1)) ''|   '') @ ''|-- '' @ en_Name e
     @ (if en_Type e = ''directory'' then ''/'' else []) @ [LF]"

definition renderTree :: "string \<Rightarrow> Entry list \<Rightarrow> string" where
  "renderTree root entries = TrimSuffix (root @ [LF] @ concat (map tree_line entries)) [LF]"

definition continuationFor :: "string \<Rightarrow> nat \<Rightarrow> string" where
  "continuationFor kind n = kind @ ''_after='' @ Itoa (int n)"

section \<open>List\<close>

record ListRequest =
  lq_Path :: string
  lq_MaxDepth :: int
  lq_ShowHidden :: bool
  lq_MaxEntries :: int
  lq_ScanFiles :: int
  lq_ScanBytes :: int

record ListResult =
  lr_Root :: string
  lr_Entries :: "Entry list"
  lr_Tree :: string
  lr_Truncation :: Truncation

text \<open>The checks before the walk: its options and the bound on entries.\<close>

definition list_setup :: "svc \<Rightarrow> tree \<Rightarrow> ListRequest \<Rightarrow> (call_error, walkOptions \<times> int) result" where
  "list_setup s t rq =
     (case begin_op s (\<lambda>_. t_ctx t) 0 ''list'' of
        Some e \<Rightarrow> Inl e
      | None \<Rightarrow>
          (case rbind (cleanPath (lq_Path rq) True) (\<lambda>root.
             let maxDepth = (if lq_MaxDepth rq = 0 then 3 else lq_MaxDepth rq) in
             if maxDepth < 0 then Inl (FsError CodeInvalidInput ''list'' root ''max_depth must not be negative'')
             else rbind (lowerInt ''max_entries'' (ListEntries (limits s)) (lq_MaxEntries rq)) (\<lambda>maxEntries.
               rbind (lowerInt ''scan_files'' (ScanFiles (limits s)) (lq_ScanFiles rq)) (\<lambda>scanFiles.
                 rbind (lowerInt ''scan_bytes'' (ScanBytes (limits s)) (lq_ScanBytes rq)) (\<lambda>scanBytes.
                   Inr (\<lparr>wk_start = root, wk_maxDepth = maxDepth, wk_showHidden = lq_ShowHidden rq, wk_scanFiles = scanFiles,
                          wk_scanBytes = scanBytes, wk_explicit = explicitSkipAddress root [],
                          wk_ignore = loadIgnoreMatcher (t_gitignore t)\<rparr>, maxEntries))))) of
             Inl e \<Rightarrow> Inl (FsErr e) | Inr x \<Rightarrow> Inr x))"

definition list_result :: "string \<Rightarrow> int \<Rightarrow> walkState \<Rightarrow> ListResult" where
  "list_result root maxEntries st =
     (let entries = map itemEntry (take (nat maxEntries) (ws_items st));
          tr = (walkTruncation st)\<lparr>tr_ReturnedItems := int (length entries)\<rparr>
      in \<lparr>lr_Root = root, lr_Entries = entries, lr_Tree = renderTree root entries,
          lr_Truncation =
            (if int (length (ws_items st)) > maxEntries
             then tr\<lparr>tr_Truncated := True, tr_Reason := ''list entry limit'', tr_Continuation := continuationFor ''entry'' (length entries)\<rparr>
             else tr)\<rparr>)"

definition List_files :: "svc \<Rightarrow> tree \<Rightarrow> ListRequest \<Rightarrow> (call_error, ListResult) result option" where
  "List_files s t rq =
     (case list_setup s t rq of
        Inl e \<Rightarrow> Some (Inl e)
      | Inr (opt, maxEntries) \<Rightarrow> map_option (map_sum id (list_result (wk_start opt) maxEntries)) (walk t opt))"

section \<open>Find\<close>

record FindRequest =
  fq_Path :: string
  fq_Pattern :: string
  fq_ShowHidden :: bool
  fq_Limit :: int
  fq_ScanFiles :: int
  fq_ScanBytes :: int

record FindResult =
  fr_Paths :: "string list"
  fr_Entries :: "Entry list"
  fr_Truncation :: Truncation

definition MaxInt :: int where "MaxInt = 2 ^ 63 - 1"

definition find_setup :: "svc \<Rightarrow> tree \<Rightarrow> FindRequest \<Rightarrow> (call_error, walkOptions \<times> glob_item list \<times> int) result" where
  "find_setup s t rq =
     (case begin_op s (\<lambda>_. t_ctx t) 0 ''find'' of
        Some e \<Rightarrow> Inl e
      | None \<Rightarrow>
          (case rbind (cleanPath (fq_Path rq) True) (\<lambda>root.
             case compileGlob (fq_Pattern rq) of
               None \<Rightarrow> Inl (FsError CodeInvalidInput ''find'' (fq_Pattern rq) ''invalid glob'')
             | Some g \<Rightarrow>
                 rbind (lowerInt ''limit'' (FindMatches (limits s)) (fq_Limit rq)) (\<lambda>limit.
                   rbind (lowerInt ''scan_files'' (ScanFiles (limits s)) (fq_ScanFiles rq)) (\<lambda>scanFiles.
                     rbind (lowerInt ''scan_bytes'' (ScanBytes (limits s)) (fq_ScanBytes rq)) (\<lambda>scanBytes.
                       Inr (\<lparr>wk_start = root, wk_maxDepth = MaxInt, wk_showHidden = fq_ShowHidden rq, wk_scanFiles = scanFiles,
                              wk_scanBytes = scanBytes, wk_explicit = explicitSkipAddress root (fq_Pattern rq),
                              wk_ignore = loadIgnoreMatcher (t_gitignore t)\<rparr>, g, limit))))) of
             Inl e \<Rightarrow> Inl (FsErr e) | Inr x \<Rightarrow> Inr x))"

definition find_hit :: "glob_item list \<Rightarrow> walkItem \<Rightarrow> bool" where
  "find_hit g it \<longleftrightarrow> glob_full g (it_rel it) \<or> glob_full g (it_name it) \<or> glob_full g (Base (it_name it))"

definition find_result :: "glob_item list \<Rightarrow> int \<Rightarrow> walkState \<Rightarrow> FindResult" where
  "find_result g limit st =
     (let matches = sort_key it_name (filter (find_hit g) (ws_items st));
          n = min (length matches) (nat limit);
          found = take n matches;
          tr = (walkTruncation st)\<lparr>tr_ReturnedItems := int n\<rparr>
      in \<lparr>fr_Paths = map it_name found, fr_Entries = map itemEntry found,
          fr_Truncation =
            (if int (length matches) > limit
             then tr\<lparr>tr_Truncated := True, tr_Reason := ''find match limit'', tr_Continuation := continuationFor ''match'' n\<rparr>
             else tr)\<rparr>)"

definition Find_files :: "svc \<Rightarrow> tree \<Rightarrow> FindRequest \<Rightarrow> (call_error, FindResult) result option" where
  "Find_files s t rq =
     (case find_setup s t rq of
        Inl e \<Rightarrow> Some (Inl e)
      | Inr (opt, g, limit) \<Rightarrow> map_option (map_sum id (find_result g limit)) (walk t opt))"

section \<open>Search\<close>

record SearchRequest =
  sq_Path :: string
  sq_Pattern :: string
  sq_Literal :: bool
  sq_CaseInsensitive :: bool
  sq_Glob :: string
  sq_Globs :: "string list"
  sq_ShowHidden :: bool
  sq_Before :: int
  sq_After :: int
  sq_Limit :: int
  sq_MaxBytes :: int
  sq_ScanFiles :: int
  sq_ScanBytes :: int

record ContextLine =
  cl_Number :: nat
  cl_Anchor :: string
  cl_Text :: string

record SearchMatch =
  sm_Path :: string
  sm_SHA256 :: string
  sm_Line :: nat
  sm_Anchor :: string
  sm_Text :: string
  sm_Before :: "ContextLine list"
  sm_After :: "ContextLine list"

record SearchResult =
  sr_Matches :: "SearchMatch list"
  sr_SkippedFiles :: nat
  sr_Truncation :: Truncation

definition searchPredicate :: "compiler \<Rightarrow> SearchRequest \<Rightarrow> regex option" where
  "searchPredicate re rq =
     (if sq_Literal rq then
        (let needle = (if sq_CaseInsensitive rq then ToLower (sq_Pattern rq) else sq_Pattern rq) in
         Some (\<lambda>line. Contains (if sq_CaseInsensitive rq then ToLower line else line) needle))
      else (case re ((if sq_CaseInsensitive rq then ''(?i)'' else []) @ sq_Pattern rq) of Inl e \<Rightarrow> None | Inr m \<Rightarrow> Some m))"

fun compile_globs :: "string list \<Rightarrow> glob_item list list option" where
  "compile_globs [] = Some []"
| "compile_globs (p # ps) = (case compileGlob p of None \<Rightarrow> None | Some g \<Rightarrow> map_option (\<lambda>gs. g # gs) (compile_globs ps))"

definition searchGlobs :: "SearchRequest \<Rightarrow> glob_item list list option" where
  "searchGlobs rq = compile_globs (sq_Globs rq @ (if sq_Glob rq \<noteq> [] then [sq_Glob rq] else []))"

definition matchAnyGlob :: "glob_item list list \<Rightarrow> string \<Rightarrow> string \<Rightarrow> bool" where
  "matchAnyGlob gs relative rooted \<longleftrightarrow> gs = [] \<or> list_ex (\<lambda>g. glob_full g relative \<or> glob_full g rooted) gs"

definition context_line :: "string list \<Rightarrow> nat \<Rightarrow> ContextLine" where
  "context_line ls i = \<lparr>cl_Number = i + 1, cl_Anchor = lineAnchor (ls ! i), cl_Text = ls ! i\<rparr>"

definition makeSearchMatch :: "string \<Rightarrow> string \<Rightarrow> string list \<Rightarrow> nat \<Rightarrow> int \<Rightarrow> int \<Rightarrow> SearchMatch" where
  "makeSearchMatch name hash ls i before after =
     \<lparr>sm_Path = name, sm_SHA256 = hash, sm_Line = i + 1, sm_Anchor = lineAnchor (ls ! i), sm_Text = ls ! i,
      sm_Before = map (context_line ls) [(if before < int i then i - nat before else 0)..<i],
      sm_After = map (context_line ls) [i + 1..<(if after < int (length ls) - int i - 1 then i + nat after + 1 else length ls)]\<rparr>"

definition searchMatchBytes :: "SearchMatch \<Rightarrow> int" where
  "searchMatchBytes m = int (length (sm_Path m) + length (sm_Text m) + 1)
     + sum_list (map (\<lambda>l. int (length (cl_Text l) + 1)) (sm_Before m)) + sum_list (map (\<lambda>l. int (length (cl_Text l) + 1)) (sm_After m))"

record search_setup =
  su_walk :: walkOptions
  su_hit :: regex
  su_globs :: "glob_item list list"
  su_limit :: int
  su_maxBytes :: int
  su_before :: int
  su_after :: int
  su_whole :: int

definition search_checks :: "compiler \<Rightarrow> svc \<Rightarrow> tree \<Rightarrow> SearchRequest \<Rightarrow> (call_error, search_setup) result" where
  "search_checks re s t rq =
     (case begin_op s (\<lambda>_. t_ctx t) 0 ''search'' of
        Some e \<Rightarrow> Inl e
      | None \<Rightarrow>
          (case rbind (cleanPath (sq_Path rq) True) (\<lambda>root.
             if sq_Pattern rq = [] then Inl (FsError CodeInvalidInput ''search'' root ''pattern is required'')
             else if sq_Before rq < 0 \<or> sq_After rq < 0 then Inl (FsError CodeInvalidInput ''search'' root ''context counts must not be negative'')
             else rbind (lowerInt ''limit'' (SearchMatches (limits s)) (sq_Limit rq)) (\<lambda>lim.
               rbind (lowerInt ''max_bytes'' (SearchBytes (limits s)) (sq_MaxBytes rq)) (\<lambda>maxBytes.
                 rbind (lowerInt ''scan_files'' (ScanFiles (limits s)) (sq_ScanFiles rq)) (\<lambda>scanFiles.
                   rbind (lowerInt ''scan_bytes'' (ScanBytes (limits s)) (sq_ScanBytes rq)) (\<lambda>scanBytes.
                     case searchPredicate re rq of
                       None \<Rightarrow> Inl (FsError CodeInvalidInput ''search'' (sq_Pattern rq) ''invalid regular expression'')
                     | Some hit \<Rightarrow>
                         (case searchGlobs rq of
                            None \<Rightarrow> Inl (FsError CodeInvalidInput ''search'' (sq_Glob rq) ''invalid path glob'')
                          | Some gs \<Rightarrow>
                              Inr \<lparr>su_walk = \<lparr>wk_start = root, wk_maxDepth = MaxInt, wk_showHidden = sq_ShowHidden rq,
                                     wk_scanFiles = scanFiles, wk_scanBytes = scanBytes,
                                     wk_explicit = explicitSkipAddress root (sq_Glob rq @ Join '','' (sq_Globs rq)),
                                     wk_ignore = loadIgnoreMatcher (t_gitignore t)\<rparr>,
                                   su_hit = hit, su_globs = gs, su_limit = lim, su_maxBytes = maxBytes,
                                   su_before = sq_Before rq, su_after = sq_After rq, su_whole = WholeFileBytes (limits s)\<rparr>)))))) of
             Inl e \<Rightarrow> Inl (FsErr e) | Inr x \<Rightarrow> Inr x))"

text \<open>The state of the loops: \<open>ss_cut\<close> is the reason the result was cut, \<open>ss_stop\<close> that the file loop ends.\<close>

record search_state =
  ss_matches :: "SearchMatch list"
  ss_used :: int
  ss_skipped :: nat
  ss_cut :: "string option"
  ss_stop :: bool
  ss_walk :: walkState

fun search_lines ::
  "search_setup \<Rightarrow> (nat \<Rightarrow> bool) \<Rightarrow> (nat \<Rightarrow> SearchMatch) \<Rightarrow> string list \<Rightarrow> nat \<Rightarrow> search_state \<Rightarrow> (call_error, search_state) result" where
  "search_lines su lineDone mk [] i st = Inr st"
| "search_lines su lineDone mk (line # ls) i st =
     (if i mod 256 = 0 \<and> lineDone i then Inl ContextErr
      else if \<not> su_hit su line then search_lines su lineDone mk ls (i + 1) st
      else if int (length (ss_matches st)) \<ge> su_limit su then Inr (st\<lparr>ss_cut := Some ''search match limit'', ss_stop := True\<rparr>)
      else if ss_used st + searchMatchBytes (mk i) > su_maxBytes su then
        Inr (st\<lparr>ss_cut := Some ''search result byte limit'', ss_stop := True\<rparr>)
      else search_lines su lineDone mk ls (i + 1)
             (st\<lparr>ss_matches := ss_matches st @ [mk i], ss_used := ss_used st + searchMatchBytes (mk i)\<rparr>))"

definition search_text :: "(string \<Rightarrow> string) \<Rightarrow> search_setup \<Rightarrow> tree \<Rightarrow> string \<Rightarrow> string \<Rightarrow> search_state \<Rightarrow> (call_error, search_state) result" where
  "search_text sha su t name raw st =
     (let ls = splitTextLines (normalizeLF raw) in
      search_lines su (t_lineDone t name) (\<lambda>i. makeSearchMatch name (sha raw) ls i (su_before su) (su_after su)) ls 0 st)"

definition wanted :: "search_setup \<Rightarrow> walkItem \<Rightarrow> bool" where
  "wanted su it \<longleftrightarrow> IsRegular (wi_mode (it_info it)) \<and> matchAnyGlob (su_globs su) (it_rel it) (it_name it)"

definition search_file :: "(string \<Rightarrow> string) \<Rightarrow> search_setup \<Rightarrow> tree \<Rightarrow> walkItem \<Rightarrow> search_state \<Rightarrow> (call_error, search_state) result" where
  "search_file sha su t it st =
     (if t_fileDone t (it_name it) then Inl ContextErr
      else if \<not> wanted su it then Inr st
      else if wi_size (it_info it) > su_whole su then Inr (st\<lparr>ss_skipped := ss_skipped st + 1\<rparr>)
      else (case t_read t (it_name it) of
          Inl (text, e) \<Rightarrow> Inl (FsErr (rootError ''search'' (it_name it) text e))
        | Inr data \<Rightarrow>
            (let raw = take (nat (su_whole su + 1)) data; growth = int (length raw) - wi_size (it_info it); w = ss_walk st in
             if growth > 0 \<and> ws_bytes w + growth > wk_scanBytes (su_walk su) then
               Inr (st\<lparr>ss_walk := cut_at ''scan byte limit'' w, ss_stop := True\<rparr>)
             else let st1 = (if growth > 0 then st\<lparr>ss_walk := w\<lparr>ws_bytes := ws_bytes w + growth\<rparr>\<rparr> else st) in
               if int (length raw) > su_whole su \<or> isBinary raw then Inr (st1\<lparr>ss_skipped := ss_skipped st1 + 1\<rparr>)
               else search_text sha su t (it_name it) raw st1)))"

fun search_files :: "(string \<Rightarrow> string) \<Rightarrow> search_setup \<Rightarrow> tree \<Rightarrow> walkItem list \<Rightarrow> search_state \<Rightarrow> (call_error, search_state) result" where
  "search_files sha su t [] st = Inr st"
| "search_files sha su t (it # its) st =
     (if ss_stop st then Inr st else rbind (search_file sha su t it st) (search_files sha su t its))"

definition search_result :: "search_state \<Rightarrow> SearchResult" where
  "search_result st =
     (let w = ss_walk st;
          tr0 = (if ss_cut st = None \<and> ws_truncated w then walkTruncation w
                 else \<lparr>tr_Truncated = (ss_cut st \<noteq> None), tr_Reason = (case ss_cut st of None \<Rightarrow> [] | Some r \<Rightarrow> r), tr_Continuation = [],
                       tr_ReturnedItems = 0, tr_ReturnedBytes = 0, tr_ScannedFiles = ws_scanned w, tr_ScannedBytes = ws_bytes w\<rparr>);
          n = length (ss_matches st);
          tr1 = tr0\<lparr>tr_ReturnedItems := int n, tr_ReturnedBytes := ss_used st\<rparr>
      in \<lparr>sr_Matches = ss_matches st, sr_SkippedFiles = ss_skipped st,
          sr_Truncation = (if tr_Truncated tr1 then tr1\<lparr>tr_Continuation := continuationFor ''match'' n\<rparr> else tr1)\<rparr>)"

definition search_start :: "walkState \<Rightarrow> search_state" where
  "search_start w = \<lparr>ss_matches = [], ss_used = 0, ss_skipped = 0, ss_cut = None, ss_stop = False, ss_walk = w\<rparr>"

definition Search_files ::
  "(string \<Rightarrow> string) \<Rightarrow> compiler \<Rightarrow> svc \<Rightarrow> tree \<Rightarrow> SearchRequest \<Rightarrow> (call_error, SearchResult) result option" where
  "Search_files sha re s t rq =
     (case search_checks re s t rq of
        Inl e \<Rightarrow> Some (Inl e)
      | Inr su \<Rightarrow>
          (case walk t (su_walk su) of
             None \<Rightarrow> None
           | Some (Inl e) \<Rightarrow> Some (Inl e)
           | Some (Inr w) \<Rightarrow>
               Some (rbind (search_files sha su t (ws_items w) (search_start w)) (\<lambda>st. Inr (search_result st)))))"

section \<open>Search returns the first matches in walk order\<close>

text \<open>The reference: every matching line of every file that is searched.\<close>

definition line_hits :: "search_setup \<Rightarrow> (nat \<Rightarrow> SearchMatch) \<Rightarrow> nat \<Rightarrow> string list \<Rightarrow> SearchMatch list" where
  "line_hits su mk i ls = map (\<lambda>(j, line). mk j) (filter (\<lambda>(j, line). su_hit su line) (enumerate i ls))"

definition file_matches :: "(string \<Rightarrow> string) \<Rightarrow> search_setup \<Rightarrow> tree \<Rightarrow> walkItem \<Rightarrow> SearchMatch list" where
  "file_matches sha su t it =
     (case t_read t (it_name it) of
        Inl e \<Rightarrow> []
      | Inr data \<Rightarrow>
          (let raw = take (nat (su_whole su + 1)) data; ls = splitTextLines (normalizeLF raw) in
           if wanted su it \<and> wi_size (it_info it) \<le> su_whole su \<and> int (length raw) \<le> su_whole su \<and> \<not> isBinary raw
           then line_hits su (\<lambda>i. makeSearchMatch (it_name it) (sha raw) ls i (su_before su) (su_after su)) 0 ls
           else []))"

text \<open>
  What a part of the search does with the matches \<open>hits\<close> it meets: it appends a prefix of them within the
  budgets, all of them unless it stops, and it stops only with a reason that the result reports.
\<close>

definition budgets :: "search_setup \<Rightarrow> search_state \<Rightarrow> bool" where
  "budgets su st \<longleftrightarrow> int (length (ss_matches st)) \<le> max 0 (su_limit su) \<and> ss_used st \<le> max 0 (su_maxBytes su) \<and>
     ss_used st = sum_list (map searchMatchBytes (ss_matches st))"

definition appends :: "search_setup \<Rightarrow> SearchMatch list \<Rightarrow> search_state \<Rightarrow> search_state \<Rightarrow> bool" where
  "appends su hits st st' \<longleftrightarrow> budgets su st' \<and> prefix (ss_matches st) (ss_matches st') \<and> prefix (ss_matches st') (ss_matches st @ hits) \<and>
     (ss_matches st' = ss_matches st @ hits \<and> ss_cut st' = ss_cut st \<and> ss_stop st' = ss_stop st \<or>
      ss_stop st' \<and> (ss_cut st' \<noteq> None \<or> ws_truncated (ss_walk st'))) \<and>
     (ws_truncated (ss_walk st) \<longrightarrow> ws_truncated (ss_walk st'))"

lemma appends_refl: "budgets su st \<Longrightarrow> appends su [] st st"
  by (simp add: appends_def)

lemma appends_stop: "budgets su st' \<Longrightarrow> ss_matches st' = ss_matches st \<Longrightarrow> ss_stop st' \<Longrightarrow> ss_cut st' \<noteq> None \<or> ws_truncated (ss_walk st') \<Longrightarrow>
    (ws_truncated (ss_walk st) \<Longrightarrow> ws_truncated (ss_walk st')) \<Longrightarrow> appends su hits st st'"
  by (simp add: appends_def)

lemma appends_trans:
  assumes "appends su xs st st1" "\<not> ss_stop st1" "appends su ys st1 st'"
  shows "appends su (xs @ ys) st st'"
proof -
  have m: "ss_matches st1 = ss_matches st @ xs" "ss_cut st1 = ss_cut st" "\<not> ss_stop st" using assms(1,2) by (auto simp: appends_def)
  then show ?thesis using assms by (auto simp: appends_def dest: append_prefixD)
qed

lemma appends_more:
  assumes "appends su xs st st1" "ss_stop st1" "\<not> ss_stop st"
  shows "appends su (xs @ ys) st st1"
  using assms by (auto simp: appends_def intro: prefix_order.trans)

lemma line_hits_simps [simp]:
  "line_hits su mk i [] = []"
  "line_hits su mk i (l # ls) = (if su_hit su l then [mk i] else []) @ line_hits su mk (i + 1) ls"
  by (simp_all add: line_hits_def)

lemma search_lines_appends:
  "search_lines su lineDone mk ls i st = Inr st' \<Longrightarrow> budgets su st \<Longrightarrow> \<not> ss_stop st \<Longrightarrow> appends su (line_hits su mk i ls) st st'"
proof (induction ls arbitrary: i st)
  case Nil
  then show ?case by (simp add: appends_refl)
next
  case (Cons l ls)
  show ?case
  proof (cases "su_hit su l")
    case False
    then show ?thesis using Cons by (simp split: if_splits)
  next
    case True
    let ?st1 = "st\<lparr>ss_matches := ss_matches st @ [mk i], ss_used := ss_used st + searchMatchBytes (mk i)\<rparr>"
    show ?thesis
    proof (cases "int (length (ss_matches st)) \<ge> su_limit su \<or> ss_used st + searchMatchBytes (mk i) > su_maxBytes su")
      case full: True
      have "appends su hits st (st\<lparr>ss_cut := Some m, ss_stop := True\<rparr>)" for hits m
        using Cons.prems(2) by (intro appends_stop) (simp_all add: budgets_def)
      then show ?thesis using Cons.prems(1) True full by (auto split: if_splits)
    next
      case False
      then have "budgets su ?st1" using Cons.prems(2) by (auto simp: budgets_def)
      moreover from this have "appends su [mk i] st ?st1" using Cons.prems(2) by (simp add: appends_def)
      moreover have "search_lines su lineDone mk ls (i + 1) ?st1 = Inr st'" using Cons.prems(1) True False by (simp split: if_splits)
      ultimately have "appends su ([mk i] @ line_hits su mk (i + 1) ls) st st'"
        using Cons.IH [of "i + 1" ?st1] Cons.prems(3) by (intro appends_trans [of su "[mk i]" st ?st1]) auto
      then show ?thesis using True by simp
    qed
  qed
qed

lemma search_file_appends:
  assumes "search_file sha su t it st = Inr st'" "budgets su st" "\<not> ss_stop st"
  shows "appends su (file_matches sha su t it) st st'"
proof -
  have none: "appends su [] st (st\<lparr>ss_skipped := n\<rparr>)" for n using assms(2,3) by (simp add: appends_def budgets_def)
  show ?thesis
  proof (cases "wanted su it \<and> wi_size (it_info it) \<le> su_whole su")
    case False
    then have "file_matches sha su t it = []" by (auto simp: file_matches_def Let_def split: sum.split)
    moreover have "st' = st \<or> (\<exists>n. st' = st\<lparr>ss_skipped := n\<rparr>)" using assms(1) False by (auto simp: search_file_def split: if_splits)
    ultimately show ?thesis using none appends_refl [OF assms(2)] by auto
  next
    case True
    then obtain data where d: "t_read t (it_name it) = Inr data" using assms(1) by (auto simp: search_file_def split: if_splits sum.splits prod.splits)
    have nd: "\<not> t_fileDone t (it_name it)" using assms(1) by (auto simp: search_file_def)
    define raw where "raw = take (nat (su_whole su + 1)) data"
    define growth where "growth = int (length raw) - wi_size (it_info it)"
    let ?w = "ss_walk st"
    let ?st1 = "if growth > 0 then st\<lparr>ss_walk := ?w\<lparr>ws_bytes := ws_bytes ?w + growth\<rparr>\<rparr> else st"
    have run: "(if growth > 0 \<and> ws_bytes ?w + growth > wk_scanBytes (su_walk su) then Inr (st\<lparr>ss_walk := cut_at ''scan byte limit'' ?w, ss_stop := True\<rparr>)
        else if int (length raw) > su_whole su \<or> isBinary raw then Inr (?st1\<lparr>ss_skipped := ss_skipped ?st1 + 1\<rparr>)
        else search_text sha su t (it_name it) raw ?st1) = Inr st'"
      using assms(1) True d nd unfolding raw_def growth_def search_file_def Let_def by (simp del: length_take)
    have f: "file_matches sha su t it =
        (if int (length raw) \<le> su_whole su \<and> \<not> isBinary raw
         then line_hits su (\<lambda>i. makeSearchMatch (it_name it) (sha raw) (splitTextLines (normalizeLF raw)) i (su_before su) (su_after su)) 0
                (splitTextLines (normalizeLF raw)) else [])"
      using True d unfolding file_matches_def Let_def raw_def by (simp del: length_take take_all)
    have st1: "budgets su ?st1" "\<not> ss_stop ?st1" using assms(2,3) by (simp_all add: budgets_def)
    have shift: "appends su hits st s'" if "appends su hits ?st1 s'" for hits s'
      using that by (auto simp: appends_def split: if_splits)
    show ?thesis
    proof (cases "growth > 0 \<and> ws_bytes ?w + growth > wk_scanBytes (su_walk su)")
      case True
      then have "st' = st\<lparr>ss_walk := cut_at ''scan byte limit'' ?w, ss_stop := True\<rparr>" using run by simp
      then show ?thesis using assms(2) by (intro appends_stop) (simp_all add: budgets_def)
    next
      case room: False
      show ?thesis
      proof (cases "int (length raw) > su_whole su \<or> isBinary raw")
        case True
        then have "st' = ?st1\<lparr>ss_skipped := ss_skipped ?st1 + 1\<rparr>" using run room by simp
        moreover have "appends su [] ?st1 (?st1\<lparr>ss_skipped := ss_skipped ?st1 + 1\<rparr>)" using st1 by (auto simp: appends_def budgets_def)
        moreover have "file_matches sha su t it = []" using f True by auto
        ultimately show ?thesis using shift by metis
      next
        case False
        then have "search_text sha su t (it_name it) raw ?st1 = Inr st'" using run room by simp
        then show ?thesis using f False search_lines_appends [OF _ st1] unfolding search_text_def Let_def by (intro shift) auto
      qed
    qed
  qed
qed

lemma search_files_appends:
  "search_files sha su t its st = Inr st' \<Longrightarrow> budgets su st \<Longrightarrow> \<not> ss_stop st \<Longrightarrow>
   appends su (concat (map (file_matches sha su t) its)) st st'"
proof (induction its arbitrary: st)
  case Nil
  then show ?case by (simp add: appends_refl)
next
  case (Cons it its)
  then obtain st1 where s: "search_file sha su t it st = Inr st1" "search_files sha su t its st1 = Inr st'"
    by (auto simp: rbind_eq_Inr)
  have a: "appends su (file_matches sha su t it) st st1" using search_file_appends [OF s(1)] Cons.prems by simp
  show ?case
  proof (cases "ss_stop st1")
    case True
    then have "st' = st1" using s(2) by (cases its) auto
    then show ?thesis using appends_more [OF a True Cons.prems(3)] by simp
  next
    case False
    have "budgets su st1" using a by (simp add: appends_def)
    from appends_trans [OF a False Cons.IH [OF s(2) this False]] show ?thesis by simp
  qed
qed

lemma map_result: "map_sum id f z = Inr r \<longleftrightarrow> (\<exists>w. z = Inr w \<and> r = f w)"
  by (cases z) auto

text \<open>
  Claim C29: a search returns the matches in walk order, line order within a file: what it returns is a prefix of all
  matching lines of all files searched, within the limits on matches and bytes, and all of them, over the whole
  visible tree, unless it says that it was truncated.
\<close>

theorem search_returns_prefix:
  assumes "Search_files sha re s t rq = Some (Inr r)"
  shows "\<exists>su w. search_checks re s t rq = Inr su \<and> walk t (su_walk su) = Some (Inr w)
     \<and> prefix (sr_Matches r) (concat (map (file_matches sha su t) (ws_items w)))
     \<and> int (length (sr_Matches r)) \<le> max 0 (su_limit su)
     \<and> tr_ReturnedBytes (sr_Truncation r) = sum_list (map searchMatchBytes (sr_Matches r))
     \<and> tr_ReturnedBytes (sr_Truncation r) \<le> max 0 (su_maxBytes su)
     \<and> (tr_Truncated (sr_Truncation r)
        \<or> sr_Matches r = concat (map (file_matches sha su t) (ws_items w)) \<and> ws_truncated w = False)"
proof -
  obtain su w st where c: "search_checks re s t rq = Inr su" "walk t (su_walk su) = Some (Inr w)"
      "search_files sha su t (ws_items w) (search_start w) = Inr st" "r = search_result st"
    using assms by (auto simp: Search_files_def rbind_eq_Inr split: sum.splits option.splits)
  have "budgets su (search_start w)" by (simp add: search_start_def budgets_def)
  from search_files_appends [OF c(3) this] have a: "appends su (concat (map (file_matches sha su t) (ws_items w))) (search_start w) st"
    by (simp add: search_start_def)
  have b: "budgets su st" using a by (simp add: appends_def)
  have m: "sr_Matches r = ss_matches st" "tr_ReturnedBytes (sr_Truncation r) = ss_used st"
      "tr_Truncated (sr_Truncation r) \<longleftrightarrow> ss_cut st \<noteq> None \<or> ws_truncated (ss_walk st)"
    by (cases "ss_cut st"; simp add: c(4) search_result_def walkTruncation_def Let_def)+
  from a have "tr_Truncated (sr_Truncation r) \<or> sr_Matches r = concat (map (file_matches sha su t) (ws_items w)) \<and> \<not> ws_truncated w"
    unfolding m by (auto simp: appends_def search_start_def)
  moreover have "prefix (sr_Matches r) (concat (map (file_matches sha su t) (ws_items w)))"
    using a m(1) by (simp add: appends_def search_start_def)
  ultimately show ?thesis using b c(1,2) m by (auto simp: budgets_def)
qed

section \<open>Listings and finds are complete\<close>

text \<open>
  Claim C28: a listing of a directory that is not marked truncated is the whole visible tree below it down to
  the depth asked for, in preorder and name order; it never has more entries than the limit.
\<close>

theorem listing_complete:
  assumes "List_files s t rq = Some (Inr r)" "list_setup s t rq = Inr (opt, maxEntries)" "0 \<le> maxEntries"
    "t_lstat t (wk_start opt) = Inr i" "IsDir (wi_mode i)" "IsSymlink (wi_mode i) = False" "0 < wk_maxDepth opt"
  shows "int (length (lr_Entries r)) \<le> maxEntries
     \<and> (tr_Truncated (lr_Truncation r) \<or>
        lr_Entries r = map itemEntry (items_below (walk_fuel opt) t opt (wk_start opt) [] 0))"
proof -
  obtain w where w: "walk t opt = Some (Inr w)" "r = list_result (wk_start opt) maxEntries w"
    using assms(1,2) by (auto simp: List_files_def map_result split: sum.splits)
  have v: "visit (walk_fuel opt) t opt (wk_start opt) [] 0 emptyWalk = Some (Inr w)"
    using w(1) assms(4-7) by (simp add: walk_def)
  have all: "ws_items w = items_below (walk_fuel opt) t opt (wk_start opt) [] 0" if "\<not> ws_truncated w"
    using visit_complete [OF v that] by (simp add: emptyWalk_def)
  show ?thesis
  proof (cases "int (length (ws_items w)) > maxEntries")
    case True
    then show ?thesis using assms(3) by (simp add: w(2) list_result_def Let_def)
  next
    case False
    then have "take (nat maxEntries) (ws_items w) = ws_items w" using assms(3) by simp
    then show ?thesis using False all by (cases "ws_truncated w") (simp_all add: w(2) list_result_def Let_def walkTruncation_def)
  qed
qed

text \<open>
  A listing that is not marked truncated does not depend on the order in which the file system lists
  directories.
\<close>

theorem listing_order_irrelevant:
  assumes "same_tree t t'" "List_files s t rq = Some (Inr r)" "tr_Truncated (lr_Truncation r) = False"
  shows "List_files s t' rq = Some (Inr r)"
proof -
  have e: "list_setup s t' rq = list_setup s t rq" 
  proof -
    have "t_ctx t' = t_ctx t" "t_gitignore t' = t_gitignore t" using assms(1) by (simp_all add: same_tree_def)
    then show ?thesis by (simp only: list_setup_def)
  qed
  obtain opt maxEntries w where w: "list_setup s t rq = Inr (opt, maxEntries)" "walk t opt = Some (Inr w)"
      "r = list_result (wk_start opt) maxEntries w"
    using assms(2) by (auto simp: List_files_def map_result split: sum.splits)
  have "\<not> ws_truncated w" using assms(3) by (auto simp: w(3) list_result_def walkTruncation_def Let_def split: if_splits)
  then have "walk t' opt = Some (Inr w)" using walk_same [OF assms(1) w(2)] by simp
  then show ?thesis using e w by (simp add: List_files_def)
qed

text \<open>
  A find returns paths in ascending order, each of an item of the walk that the glob matches; it returns
  all of them unless it says that it was truncated, and then still the first ones of those the walk found.
\<close>

theorem find_sorted_matches:
  assumes "Find_files s t rq = Some (Inr r)"
  shows "\<exists>opt g limit w. find_setup s t rq = Inr (opt, g, limit) \<and> walk t opt = Some (Inr w)
     \<and> sorted (fr_Paths r) \<and> prefix (fr_Paths r) (sort (map it_name (filter (find_hit g) (ws_items w))))
     \<and> int (length (fr_Paths r)) \<le> max 0 limit \<and> fr_Paths r = map en_Path (fr_Entries r)
     \<and> (tr_Truncated (fr_Truncation r) \<or> mset (fr_Paths r) = mset (map it_name (filter (find_hit g) (ws_items w))) \<and> ws_truncated w = False)"
proof -
  obtain opt g lim w where w: "find_setup s t rq = Inr (opt, g, lim)" "walk t opt = Some (Inr w)" "r = find_result g lim w"
    using assms by (auto simp: Find_files_def map_result split: sum.splits)
  let ?hits = "filter (find_hit g) (ws_items w)"
  let ?n = "min (length ?hits) (nat lim)"
  have p: "fr_Paths r = take ?n (map it_name (sort_key it_name ?hits))"
    by (simp add: w(3) find_result_def Let_def take_map)
  have k: "map it_name (sort_key it_name ?hits) = sort (map it_name ?hits)"
    by (rule properties_for_sort [symmetric]) simp_all
  have q: "fr_Paths r = map en_Path (fr_Entries r)"
    by (simp add: w(3) find_result_def Let_def itemEntry_def comp_def)
  have "tr_Truncated (fr_Truncation r) \<or> int (length ?hits) \<le> lim \<and> \<not> ws_truncated w"
    by (auto simp: w(3) find_result_def Let_def walkTruncation_def)
  moreover have "mset (fr_Paths r) = mset (map it_name ?hits)" if "int (length ?hits) \<le> lim"
  proof -
    have "?n = length ?hits" using that by simp
    then have "fr_Paths r = map it_name (sort_key it_name ?hits)" unfolding p by simp
    then show ?thesis by (simp only: k mset_sort)
  qed
  moreover have "sorted (fr_Paths r)" unfolding p k by (simp add: sorted_wrt_take)
  moreover have "prefix (fr_Paths r) (sort (map it_name ?hits))" unfolding p k by (rule take_is_prefix)
  moreover have "int (length (fr_Paths r)) \<le> max 0 lim" unfolding p by simp
  ultimately show ?thesis using w(1,2) q by auto
qed

section \<open>An example, and what the limits miss\<close>

definition file_ex :: "int \<Rightarrow> walk_info" where "file_ex n = \<lparr>wi_mode = 0x1A4, wi_size = n\<rparr>"

definition dir_ex :: walk_info where "dir_ex = \<lparr>wi_mode = ModeDir OR 0x1ED, wi_size = 0\<rparr>"

text \<open>A root with the files \<open>b\<close> and \<open>a\<close>, in the given order.\<close>

definition tree_ex :: "string list \<Rightarrow> tree" where
  "tree_ex ns = \<lparr>t_ctx = False, t_lstat = (\<lambda>p. Inr dir_ex), t_open = (\<lambda>p. None),
     t_readDir = (\<lambda>p. Inr (map (\<lambda>n. \<lparr>de_name = n, de_info = Inr (file_ex 2)\<rparr>) ns)), t_done = (\<lambda>b p. False), t_gitignore = None,
     t_read = (\<lambda>p. Inr (p @ [LF])), t_fileDone = (\<lambda>p. False), t_lineDone = (\<lambda>p i. False)\<rparr>"

definition listing_ex :: ListRequest where
  "listing_ex = \<lparr>lq_Path = [], lq_MaxDepth = 0, lq_ShowHidden = False, lq_MaxEntries = 0, lq_ScanFiles = 0, lq_ScanBytes = 0\<rparr>"

definition names_of :: "(call_error, ListResult) result option \<Rightarrow> string list \<times> bool" where
  "names_of q = (case q of Some (Inr r) \<Rightarrow> (map en_Path (lr_Entries r), tr_Truncated (lr_Truncation r)) | _ \<Rightarrow> ([], False))"

definition search_ex :: SearchRequest where
  "search_ex = \<lparr>sq_Path = [], sq_Pattern = ''b'', sq_Literal = True, sq_CaseInsensitive = False, sq_Glob = [], sq_Globs = [],
     sq_ShowHidden = False, sq_Before = 0, sq_After = 0, sq_Limit = 0, sq_MaxBytes = 0, sq_ScanFiles = 0, sq_ScanBytes = 0\<rparr>"

text \<open>With a smaller file budget the entries depend on the order of the directory.\<close>

lemma truncated_listing_order:
  "names_of (List_files example_svc (tree_ex [''b'', ''a'', ''c'']) (listing_ex\<lparr>lq_ScanFiles := 1\<rparr>)) = ([''a''], True)
   \<and> names_of (List_files example_svc (tree_ex [''b'', ''c'', ''a'']) (listing_ex\<lparr>lq_ScanFiles := 1\<rparr>)) = ([''b''], True)"
  by code_simp

text \<open>A pattern that merely contains the name of a skipped directory turns the skipping off everywhere.\<close>

lemma explicit_by_substring: "explicitSkipAddress ''.'' ''rebuild.go''"
  by code_simp

text \<open>A huge file wraps the byte count round, and nothing is over the budget any more.\<close>

lemma scan_bytes_wrap: "wrap64 (1 + walk_size (file_ex (2 ^ 63 - 1))) = - (2 ^ 63)"
  by code_simp

definition options_ex :: walkOptions where
  "options_ex = \<lparr>wk_start = ''.'', wk_maxDepth = 3, wk_showHidden = False, wk_scanFiles = 10000, wk_scanBytes = 67108864,
     wk_explicit = False, wk_ignore = []\<rparr>"

lemma setup_ex: "list_setup example_svc (tree_ex ns) listing_ex = Inr (options_ex, 500)"
proof -
  have "cleanPath [] True = Inr ''.''" "explicitSkipAddress ''.'' [] = False" by code_simp+
  then show ?thesis
    by (simp add: list_setup_def begin_op_def tree_ex_def listing_ex_def example_svc_facts lowerInt_def DefaultLimits_def options_ex_def
        loadIgnoreMatcher_def)
qed

lemma result_of: "(case q of Some (Inr r) \<Rightarrow> P r | _ \<Rightarrow> False) \<Longrightarrow> \<exists>r. q = Some (Inr r) \<and> P r"
  by (auto split: option.splits sum.splits)

lemma list_ok: "\<exists>r. List_files example_svc (tree_ex [''b'', ''a'']) listing_ex = Some (Inr r) \<and>
    tr_Truncated (lr_Truncation r) = False \<and> map en_Path (lr_Entries r) = [''a'', ''b'']"
proof -
  have "case List_files example_svc (tree_ex [''b'', ''a'']) listing_ex of
      Some (Inr r) \<Rightarrow> tr_Truncated (lr_Truncation r) = False \<and> map en_Path (lr_Entries r) = [''a'', ''b''] | _ \<Rightarrow> False"
    by code_simp
  then show ?thesis by (rule result_of)
qed

theorem listing_complete_witness:
  "\<exists>r. List_files example_svc (tree_ex [''b'', ''a'']) listing_ex = Some (Inr r) \<and>
     lr_Entries r = map itemEntry (items_below (walk_fuel options_ex) (tree_ex [''b'', ''a'']) options_ex ''.'' [] 0)"
proof -
  obtain r where r: "List_files example_svc (tree_ex [''b'', ''a'']) listing_ex = Some (Inr r)" "tr_Truncated (lr_Truncation r) = False"
    using list_ok by (elim exE conjE)
  have "t_lstat (tree_ex [''b'', ''a'']) (wk_start options_ex) = Inr dir_ex" "IsDir (wi_mode dir_ex)" "IsSymlink (wi_mode dir_ex) = False"
      "0 < wk_maxDepth options_ex" "wk_start options_ex = ''.''"
    by code_simp+
  then show ?thesis using listing_complete [OF r(1) setup_ex] r by simp
qed

theorem listing_order_irrelevant_witness:
  "\<exists>r. List_files example_svc (tree_ex [''a'', ''b'']) listing_ex = Some (Inr r) \<and> map en_Path (lr_Entries r) = [''a'', ''b'']"
proof -
  have "same_tree (tree_ex [''b'', ''a'']) (tree_ex [''a'', ''b''])" by (simp add: same_tree_def tree_ex_def add_mset_commute)
  moreover obtain r where r: "List_files example_svc (tree_ex [''b'', ''a'']) listing_ex = Some (Inr r)"
      "tr_Truncated (lr_Truncation r) = False" "map en_Path (lr_Entries r) = [''a'', ''b'']"
    using list_ok by (elim exE conjE)
  ultimately have "List_files example_svc (tree_ex [''a'', ''b'']) listing_ex = Some (Inr r)" using listing_order_irrelevant by simp
  then show ?thesis using r(3) by (intro exI [of _ r] conjI)
qed

definition search_setup_ex :: search_setup where
  "search_setup_ex = \<lparr>su_walk = options_ex\<lparr>wk_maxDepth := MaxInt\<rparr>, su_hit = (\<lambda>line. Contains line ''b''), su_globs = [], su_limit = 100,
     su_maxBytes = 51200, su_before = 0, su_after = 0, su_whole = 8388608\<rparr>"

definition walk_ex :: walkState where
  "walk_ex = \<lparr>ws_items = map (\<lambda>n. \<lparr>it_name = n, it_rel = n, it_depth = 1, it_info = file_ex 2\<rparr>) [''a'', ''b''],
     ws_truncated = False, ws_reason = [], ws_scanned = 2, ws_bytes = 4\<rparr>"

lemma search_parts:
  "search_checks (\<lambda>p. Inl []) example_svc (tree_ex [''b'', ''a'']) search_ex = Inr search_setup_ex"
  "walk (tree_ex [''b'', ''a'']) (su_walk search_setup_ex) = Some (Inr walk_ex)"
proof -
  have "cleanPath [] True = Inr ''.''" "explicitSkipAddress ''.'' [] = False" by code_simp+
  then show "search_checks (\<lambda>p. Inl []) example_svc (tree_ex [''b'', ''a'']) search_ex = Inr search_setup_ex"
    by (simp add: search_checks_def begin_op_def tree_ex_def search_ex_def example_svc_facts lowerInt_def DefaultLimits_def options_ex_def
        loadIgnoreMatcher_def searchPredicate_def searchGlobs_def search_setup_ex_def)
  show "walk (tree_ex [''b'', ''a'']) (su_walk search_setup_ex) = Some (Inr walk_ex)" by code_simp
qed

lemma search_texts:
  "isBinary [CHR ''a'', LF] = False" "isBinary [CHR ''b'', LF] = False" "splitTextLines (normalizeLF [CHR ''a'', LF]) = [''a'']"
  "splitTextLines (normalizeLF [CHR ''b'', LF]) = [''b'']" "Contains ''a'' ''b'' = False" "Contains ''b'' ''b''" "IsRegular 0x1A4"
  by code_simp+

lemma search_ok: "\<exists>r. Search_files example_sha (\<lambda>p. Inl []) example_svc (tree_ex [''b'', ''a'']) search_ex = Some (Inr r) \<and>
    map sm_Path (sr_Matches r) = [''b''] \<and> tr_Truncated (sr_Truncation r) = False"
proof -
  have "Search_files example_sha (\<lambda>p. Inl []) example_svc (tree_ex [''b'', ''a'']) search_ex =
      Some (rbind (search_files example_sha search_setup_ex (tree_ex [''b'', ''a'']) (ws_items walk_ex) (search_start walk_ex)) (\<lambda>st. Inr (search_result st)))"
    by (simp add: Search_files_def search_parts)
  moreover have "\<exists>st. search_files example_sha search_setup_ex (tree_ex [''b'', ''a'']) (ws_items walk_ex) (search_start walk_ex) = Inr st \<and>
      map sm_Path (ss_matches st) = [''b''] \<and> ss_cut st = None \<and> \<not> ws_truncated (ss_walk st)"
    by (simp add: walk_ex_def search_file_def search_setup_ex_def wanted_def matchAnyGlob_def file_ex_def tree_ex_def search_start_def
        search_text_def search_texts makeSearchMatch_def searchMatchBytes_def options_ex_def)
  ultimately show ?thesis by (auto simp: search_result_def Let_def)
qed

theorem search_returns_prefix_witness:
  "\<exists>su w (r :: SearchResult). walk (tree_ex [''b'', ''a'']) (su_walk su) = Some (Inr w) \<and> map sm_Path (sr_Matches r) = [''b''] \<and>
     sr_Matches r = concat (map (file_matches example_sha su (tree_ex [''b'', ''a''])) (ws_items w))"
proof -
  obtain r where r: "Search_files example_sha (\<lambda>p. Inl []) example_svc (tree_ex [''b'', ''a'']) search_ex = Some (Inr r)"
      "map sm_Path (sr_Matches r) = [''b'']" "tr_Truncated (sr_Truncation r) = False"
    using search_ok by (elim exE conjE)
  obtain su w where "walk (tree_ex [''b'', ''a'']) (su_walk su) = Some (Inr w)"
      "tr_Truncated (sr_Truncation r) \<or> sr_Matches r = concat (map (file_matches example_sha su (tree_ex [''b'', ''a''])) (ws_items w)) \<and> ws_truncated w = False"
    using search_returns_prefix [OF r(1)] by (elim exE conjE)
  then have "walk (tree_ex [''b'', ''a'']) (su_walk su) = Some (Inr w) \<and> map sm_Path (sr_Matches r) = [''b''] \<and>
      sr_Matches r = concat (map (file_matches example_sha su (tree_ex [''b'', ''a''])) (ws_items w))"
    using r(2,3) by (elim disjE) (simp, intro conjI, simp_all only: conj_ac)
  then have "\<exists>r :: SearchResult. walk (tree_ex [''b'', ''a'']) (su_walk su) = Some (Inr w) \<and> map sm_Path (sr_Matches r) = [''b''] \<and>
      sr_Matches r = concat (map (file_matches example_sha su (tree_ex [''b'', ''a''])) (ws_items w))" by (rule exI [of _ r])
  then show ?thesis by (rule exI [of _ w, THEN exI [of _ su]])
qed

end
