(* ===== verification/Roots.thy ===== *)
theory Roots
  imports Safefs AbsPath
begin

text \<open>
  Opening a directory as a boundary (\<open>safefs/root.go\<close>: \<open>Open\<close>, \<open>Ensure\<close>, \<open>cleanRootPath\<close>, and the
  calls the machine of \<open>Safefs\<close> does not cover).  The host outside the opened directory is a record of
  answers: what \<open>os.OpenRoot\<close> says of an absolute directory, what happens when directories are made in an
  ancestor.  The directory that was opened is then the file-system machine the following calls run on.
  An absolute path that was cleaned is handled as its list of components, so going to the parent drops the
  last one (\<open>Dir_abs_of\<close>).
\<close>

record DirEnt =
  de_name :: string
  de_dir :: bool
  de_symlink :: bool
  de_info :: "(nat \<times> string) option"    \<comment> \<open>size and modification time, when \<open>Info\<close> succeeds\<close>

record host =
  h_wd :: string
  h_open :: "string \<Rightarrow> os_error option"                   \<comment> \<open>\<open>os.OpenRoot\<close>: the error, if any\<close>
  h_mkdirs :: "string \<Rightarrow> string \<Rightarrow> os_error option"        \<comment> \<open>\<open>MkdirAll\<close> of a relative name in a directory\<close>
  h_open_in :: "string \<Rightarrow> string \<Rightarrow> os_error option"       \<comment> \<open>\<open>OpenRoot\<close> of a relative name in a directory\<close>
  h_close :: "string \<Rightarrow> os_error option"
  h_read :: "string \<Rightarrow> os_error + string"                \<comment> \<open>\<open>os.ReadFile\<close> of an absolute path\<close>
  h_readdir :: "string \<Rightarrow> string \<Rightarrow> os_error + DirEnt list"   \<comment> \<open>entries of a relative name in a directory\<close>

datatype root_error =
    RootPathRequired | OpenRootFailed string os_error | OpenAncestorFailed string os_error | NoAncestor string os_error
  | CreateRootFailed string os_error | OpenCreatedFailed string os_error | CloseParentFailed string os_error

text \<open>\<open>errors.Is(err, os.ErrNotExist)\<close> and \<open>os.ErrExist\<close>: the wrapped system error decides.\<close>

fun root_cause :: "root_error \<Rightarrow> os_error option" where
  "root_cause RootPathRequired = None"
| "root_cause (OpenRootFailed p e) = Some e"
| "root_cause (OpenAncestorFailed p e) = Some e"
| "root_cause (NoAncestor p e) = Some e"
| "root_cause (CreateRootFailed p e) = Some e"
| "root_cause (OpenCreatedFailed p e) = Some e"
| "root_cause (CloseParentFailed p e) = Some e"

fun safe_cause :: "safefs_error \<Rightarrow> os_error option" where
  "safe_cause (OsError e) = Some e"
| "safe_cause (CreateParent e) = Some e"
| "safe_cause _ = None"

section \<open>Open and Ensure\<close>

definition cleanRootPath :: "string \<Rightarrow> string \<Rightarrow> root_error + string" where
  "cleanRootPath wd path =
     (if TrimSpace path = [] then Inl RootPathRequired else Inr (Clean (Abs wd path)))"

text \<open>The path of the root that was opened.\<close>

definition OpenRoot :: "host \<Rightarrow> string \<Rightarrow> root_error + string" where
  "OpenRoot h path =
     rbind (cleanRootPath (h_wd h) path) (\<lambda>clean.
       case h_open h clean of Some e \<Rightarrow> Inl (OpenRootFailed clean e) | None \<Rightarrow> Inr clean)"

text \<open>The search for an ancestor that can be opened: \<open>up\<close> are the components of the ancestor, last one
  first, \<open>missing\<close> the components below it.\<close>

fun ensure_loop :: "host \<Rightarrow> string \<Rightarrow> string list \<Rightarrow> string list \<Rightarrow> root_error + string" where
  "ensure_loop h clean up missing =
     (let ancestor = abs_of (rev up) in
      case h_open h ancestor of
        None \<Rightarrow>
          (let relative = JoinPath missing in
           case h_mkdirs h ancestor relative of
             Some e \<Rightarrow> Inl (CreateRootFailed clean e)
           | None \<Rightarrow>
               (case h_open_in h ancestor relative of
                  Some e \<Rightarrow> Inl (OpenCreatedFailed clean e)
                | None \<Rightarrow> (case h_close h ancestor of
                      Some e \<Rightarrow> Inl (CloseParentFailed ancestor e) | None \<Rightarrow> Inr clean)))
      | Some e \<Rightarrow>
          if e \<noteq> ErrNotExist then Inl (OpenAncestorFailed ancestor e)
          else (case up of
              [] \<Rightarrow> Inl (NoAncestor clean e)
            | c # up' \<Rightarrow> ensure_loop h clean up' (c # missing)))"

declare ensure_loop.simps [simp del]

text \<open>For a root path that is \<open>/\<close> itself, the ancestor is \<open>/\<close> and the missing name is \<open>/\<close>.\<close>

definition EnsureRoot :: "host \<Rightarrow> string \<Rightarrow> root_error + string" where
  "EnsureRoot h path =
     rbind (cleanRootPath (h_wd h) path) (\<lambda>clean.
       case OpenRoot h clean of
         Inr root \<Rightarrow> Inr root
       | Inl e \<Rightarrow>
           if root_cause e \<noteq> Some ErrNotExist then Inl e
           else ensure_loop h clean (tl (rev (comps clean))) [Base clean])"

text \<open>\<open>ReadDir\<close> of a root: the name is checked, the listing is the host's.\<close>

definition ReadDir :: "host \<Rightarrow> string \<Rightarrow> string \<Rightarrow> safefs_error + DirEnt list" where
  "ReadDir h root name =
     (case cleanRelative name True of
        Inl e \<Rightarrow> Inl e
      | Inr clean \<Rightarrow> (case h_readdir h root clean of Inl e \<Rightarrow> Inl (OsError e) | Inr es \<Rightarrow> Inr es))"

section \<open>What an ensured root is\<close>

lemma abs_of_snoc: "abs_of (ds @ [d]) = (if ds = [] then [] else abs_of ds) @ SLASH # d"
  by (cases "ds = []") (simp_all add: abs_of_def Join_snoc)

lemma Base_abs_of:
  assumes "plain_comp d"
  shows "Base (abs_of (ds @ [d])) = d"
proof -
  let ?p = "if ds = [] then [] else abs_of ds"
  have d: "d \<noteq> []" "SLASH \<notin> set d" using assms by (auto simp: plain_comp_def)
  then have "last d \<noteq> SLASH" using last_in_set by metis
  then have "dropWhile (\<lambda>c. c = SLASH) (rev (?p @ SLASH # d)) = rev (?p @ SLASH # d)"
    using d(1) by (cases d rule: rev_cases) auto
  then have "TrimRightP (\<lambda>c. c = SLASH) (?p @ SLASH # d) = ?p @ SLASH # d"
    by (simp only: TrimRightP_def rev_rev_ident)
  then show ?thesis
    using d by (simp add: Base_def abs_of_snoc split_last_append Let_def)
qed

lemma cleanRootPath_shape:
  assumes "cleanRootPath w p = Inr c" "IsAbs w"
  obtains cs where "list_all plain_comp cs" "c = abs_of cs"
proof -
  have "IsAbs (Abs w p)"
  proof (cases "IsAbs p")
    case True
    then show ?thesis by (simp add: Abs_def)
  next
    case False
    have "p \<noteq> []" using assms(1) by (auto simp: cleanRootPath_def TrimSpace_def TrimP_def TrimLeftP_def TrimRightP_def)
    moreover have "IsAbs (JoinPath [w, p])"
    proof -
      have "w \<noteq> []" using assms(2) by (auto simp: IsAbs_def)
      then have "JoinPath [w, p] = Clean (w @ SLASH # p)" using \<open>p \<noteq> []\<close> by (simp add: JoinPath_def)
      moreover have "IsAbs (w @ SLASH # p)" using assms(2) by (cases w) (auto simp: IsAbs_def)
      ultimately show ?thesis by simp
    qed
    ultimately show ?thesis using False by (simp add: Abs_def)
  qed
  then obtain cs where "list_all plain_comp cs" "Clean (Abs w p) = abs_of cs" by (rule Clean_abs)
  then show thesis using assms(1) that by (auto simp: cleanRootPath_def split: if_splits)
qed

lemma OpenRoot_clean:
  "list_all plain_comp cs \<Longrightarrow> OpenRoot h (abs_of cs) =
     (case h_open h (abs_of cs) of Some e \<Rightarrow> Inl (OpenRootFailed (abs_of cs) e) | None \<Rightarrow> Inr (abs_of cs))"
proof -
  assume cs: "list_all plain_comp cs"
  have "TrimSpace (abs_of cs) \<noteq> []"
  proof
    assume "TrimSpace (abs_of cs) = []"
    moreover have "\<not> is_space SLASH" by code_simp
    ultimately have "dropWhile is_space (rev (abs_of cs)) = []"
      by (simp add: TrimSpace_def TrimP_def TrimLeftP_def TrimRightP_def abs_of_def)
    then have "\<forall>x \<in> set (abs_of cs). is_space x" by (simp add: dropWhile_eq_Nil_conv)
    then show False using \<open>\<not> is_space SLASH\<close> by (simp add: abs_of_def)
  qed
  then show ?thesis
    using cs by (simp add: OpenRoot_def cleanRootPath_def Abs_def)
qed

text \<open>What the search did: it opened the ancestor with components \<open>as\<close>, after every longer one turned out
  missing, and made and opened the rest in it.\<close>

definition made_below :: "host \<Rightarrow> string list \<Rightarrow> string list \<Rightarrow> bool" where
  "made_below h as ms \<longleftrightarrow> h_open h (abs_of as) = None \<and> h_mkdirs h (abs_of as) (JoinPath ms) = None \<and>
     h_open_in h (abs_of as) (JoinPath ms) = None \<and>
     (\<forall>k < length ms. 0 < k \<longrightarrow> h_open h (abs_of (as @ take k ms)) = Some ErrNotExist)"

lemma ensure_loop_made:
  "ensure_loop h clean up missing = Inr r \<Longrightarrow> missing \<noteq> [] \<Longrightarrow>
   \<exists>as ms. r = clean \<and> as @ ms = rev up @ missing \<and> length missing \<le> length ms \<and>
     h_open h (abs_of as) = None \<and> h_mkdirs h (abs_of as) (JoinPath ms) = None \<and>
     h_open_in h (abs_of as) (JoinPath ms) = None \<and>
     (\<forall>k. length as < k \<and> k \<le> length up \<longrightarrow> h_open h (abs_of (take k (rev up))) = Some ErrNotExist)"
proof (induction h clean up missing rule: ensure_loop.induct)
  case (1 h clean up missing)
  show ?case
  proof (cases "h_open h (abs_of (rev up))")
    case None
    then show ?thesis
      using "1.prems" by (intro exI [of _ "rev up"] exI [of _ missing])
        (auto simp: ensure_loop.simps [of h clean up] Let_def split: option.splits)
  next
    case (Some e)
    then obtain c up' where up: "up = c # up'" "e = ErrNotExist" and rec: "ensure_loop h clean up' (c # missing) = Inr r"
      using "1.prems" by (auto simp: ensure_loop.simps [of h clean up] Let_def split: if_splits list.splits)
    obtain as ms where IH: "r = clean" "as @ ms = rev up' @ c # missing" "length (c # missing) \<le> length ms"
        "h_open h (abs_of as) = None" "h_mkdirs h (abs_of as) (JoinPath ms) = None"
        "h_open_in h (abs_of as) (JoinPath ms) = None"
        "\<And>k. length as < k \<Longrightarrow> k \<le> length up' \<Longrightarrow> h_open h (abs_of (take k (rev up'))) = Some ErrNotExist"
      using "1.IH" [OF refl Some _ up(1) rec] up(2) by auto
    have "h_open h (abs_of (take k (rev up))) = Some ErrNotExist" if "length as < k" "k \<le> length up" for k
      using IH(7) [of k] that Some up by (cases "k = length up") auto
    with IH show ?thesis using up(1) by (intro exI [of _ as] exI [of _ ms]) auto
  qed
qed

lemma Ensure_made:
  assumes "EnsureRoot h path = Inr root" "IsAbs (h_wd h)"
  shows "\<exists>cs. list_all plain_comp cs \<and> root = abs_of cs \<and>
    (h_open h root = None \<or>
     (\<exists>as ms. as @ ms = (if cs = [] then [[SLASH]] else cs) \<and> ms \<noteq> [] \<and> made_below h as ms))"
proof -
  obtain c where c: "cleanRootPath (h_wd h) path = Inr c" using assms(1) by (auto simp: EnsureRoot_def result_simps)
  obtain cs where cs: "list_all plain_comp cs" "c = abs_of cs" by (rule cleanRootPath_shape [OF c assms(2)])
  show ?thesis
  proof (cases "h_open h (abs_of cs)")
    case None
    then show ?thesis using assms(1) c cs by (auto simp: EnsureRoot_def OpenRoot_clean)
  next
    case (Some e)
    then have *: "ensure_loop h c (tl (rev cs)) [Base c] = Inr root"
      using assms(1) c cs by (auto simp: EnsureRoot_def OpenRoot_clean split: if_splits)
    obtain as ms where L: "root = c" "as @ ms = rev (tl (rev cs)) @ [Base c]" "length [Base c] \<le> length ms"
        "h_open h (abs_of as) = None" "h_mkdirs h (abs_of as) (JoinPath ms) = None"
        "h_open_in h (abs_of as) (JoinPath ms) = None"
        "\<forall>k. length as < k \<and> k \<le> length (tl (rev cs)) \<longrightarrow> h_open h (abs_of (take k (rev (tl (rev cs))))) = Some ErrNotExist"
      using ensure_loop_made [OF *] by blast
    have ne: "ms \<noteq> []" using L(3) by auto
    have B: "rev (tl (rev cs)) @ [Base c] = (if cs = [] then [[SLASH]] else cs)"
    proof (cases cs rule: rev_cases)
      case Nil
      have "Base (abs_of []) = [SLASH]" by code_simp
      then show ?thesis using Nil cs(2) by simp
    next
      case (snoc ds d)
      then show ?thesis using cs by (simp add: Base_abs_of)
    qed
    have "h_open h (abs_of (as @ take k ms)) = Some ErrNotExist" if "k < length ms" "0 < k" for k
    proof -
      have "length as + length ms = Suc (length (tl (rev cs)))" using arg_cong [OF L(2), of length] by simp
      then have le: "length as + k \<le> length (tl (rev cs))" using that by simp
      have "as @ take k ms = take (length as + k) (as @ ms)" by simp
      also have "\<dots> = take (length as + k) (rev (tl (rev cs)))" using L(2) le by simp
      finally show ?thesis using L(7) that le by simp
    qed
    then have "made_below h as ms" using L(4-6) by (simp add: made_below_def)
    moreover have "as @ ms = (if cs = [] then [[SLASH]] else cs)" using L(2) B by (simp only:)
    ultimately have "\<exists>as ms. as @ ms = (if cs = [] then [[SLASH]] else cs) \<and> ms \<noteq> [] \<and> made_below h as ms"
      using ne by blast
    then show ?thesis using L(1) cs by blast
  qed
qed

end
