(* ===== verification/FileEdits.thy ===== *)
theory FileEdits
  imports Roots TextEdit
begin

text \<open>
  Package \<open>fileops\<close>, the path-based edit layer (\<open>fileops/safe_edit.go\<close>, \<open>fileops/file_state.go\<close>).  A request
  names a repository and a path below it, or only a path; \<open>openScopedFile\<close> checks the path and opens the
  directory it is relative to, and the state is the machine of that directory.  SHA-256 in hex is the
  argument \<open>sha\<close>.  The English text of reasons and errors is replaced by constructors that carry the values
  the text quotes; the status strings are kept.
\<close>

datatype edit_error =
    PathIsRequired | RepoPathRequired | ExpectedHashRequired | OldTextRequired | ContentRequired | BlockRequired
  | MustBeRepoRelative string | EscapesRepo string | PolicyDenied string | InvalidPath string
  | BadBase64 string | HashChunksInvalid | HashesDisagree string | BadMode int | NotRegular string
  | ParentsFailed string safefs_error | FsFailed safefs_error | RootFailed root_error | OsFailed os_error
  | ListMissing string string string | PathsEmpty | TooManyPaths nat | DoesNotExist

text \<open>\<open>errors.Is(err, os.ErrNotExist)\<close> on a call of the opened root.\<close>

definition missing_error :: "safefs_error \<Rightarrow> bool" where
  "missing_error e \<longleftrightarrow> safe_cause e = Some ErrNotExist"

section \<open>Paths\<close>

definition isProtectedLeanPath :: "string \<Rightarrow> bool" where
  "isProtectedLeanPath path =
     (let clean = ToLower (Clean (TrimSpace path)) in
      clean = ''mcpaihelperproject/activetasks.lean'' \<or>
      (HasPrefix clean ''mcpaihelperproject/taskregistry'' \<and> HasSuffix clean ''.lean'') \<or>
      (HasPrefix clean ''tasks/'' \<and> HasSuffix clean ''.lean''))"

definition rejectProtectedLeanPath :: "string \<Rightarrow> edit_error + unit" where
  "rejectProtectedLeanPath path =
     (if isProtectedLeanPath path then Inl (PolicyDenied (Clean path)) else Inr ())"

text \<open>\<open>path.Clean\<close> and \<open>filepath.Clean\<close> are one function on Unix.\<close>

definition isTaskRegistryRelative :: "string \<Rightarrow> bool" where
  "isTaskRegistryRelative relative =
     (let clean = ToLower (Clean relative) in
      clean = ''obsidian-tasks'' \<or> clean = ''tasks'' \<or> clean = ''mcpaihelperproject'')"

definition cleanPath :: "string \<Rightarrow> string \<Rightarrow> edit_error + string" where
  "cleanPath wd path =
     (if TrimSpace path = [] then Inl PathIsRequired
      else rbind (rejectProtectedLeanPath path) (\<lambda>_.
        let clean = Abs wd path in
        if Contains clean ''/../'' then Inl (InvalidPath path) else Inr clean))"

text \<open>The display path and the cleaned relative path.\<close>

definition repoRelativePath :: "string \<Rightarrow> string \<Rightarrow> string \<Rightarrow> edit_error + string \<times> string" where
  "repoRelativePath wd repoPath filePath =
     (if TrimSpace repoPath = [] then Inl RepoPathRequired
      else if TrimSpace filePath = [] then Inl PathIsRequired
      else if IsAbs filePath then Inl (MustBeRepoRelative filePath)
      else let repoAbs = Abs wd repoPath; rel = Clean filePath in
        if rel = ''.'' \<or> rel = ''..'' \<or> HasPrefix rel ''../'' then Inl (EscapesRepo filePath)
        else rbind (rejectProtectedLeanPath rel) (\<lambda>_. Inr (JoinPath [repoAbs, rel], rel)))"

record scopedFile =
  sf_root :: string       \<comment> \<open>path of the opened root\<close>
  sf_name :: string
  sf_display :: string
  sf_relative :: string

definition openScopedFile :: "host \<Rightarrow> string \<Rightarrow> string \<Rightarrow> bool \<Rightarrow> os \<Rightarrow> (edit_error + scopedFile) \<times> os" where
  "openScopedFile h repoPath filePath createParents st =
     (if TrimSpace repoPath \<noteq> [] then
        (case repoRelativePath (h_wd h) repoPath filePath of
           Inl e \<Rightarrow> (Inl e, st)
         | Inr (display, relative) \<Rightarrow>
             (case OpenRoot h repoPath of
                Inl e \<Rightarrow> (Inl (RootFailed e), st)
              | Inr root \<Rightarrow>
                  (let scoped = \<lparr>sf_root = root, sf_name = relative, sf_display = display, sf_relative = relative\<rparr> in
                   if createParents \<and> Dir relative \<noteq> ''.'' then
                     (case MkdirAll (Dir relative) st of
                        (Inl e, st1) \<Rightarrow> (Inl (ParentsFailed relative e), st1)
                      | (Inr _, st1) \<Rightarrow> (Inr scoped, st1))
                   else (Inr scoped, st))))
      else
        (case cleanPath (h_wd h) filePath of
           Inl e \<Rightarrow> (Inl e, st)
         | Inr clean \<Rightarrow>
             (case (if createParents then EnsureRoot h (Dir clean) else OpenRoot h (Dir clean)) of
                Inl e \<Rightarrow> (Inl (RootFailed e), st)
              | Inr root \<Rightarrow>
                  (Inr \<lparr>sf_root = root, sf_name = Base clean, sf_display = clean, sf_relative = []\<rparr>, st))))"

section \<open>Transport encodings\<close>

text \<open>\<open>base64.StdEncoding.DecodeString\<close>: newlines are skipped, the padding is required, trailing bits are
  not checked.\<close>

definition b64_value :: "char \<Rightarrow> nat option" where
  "b64_value c =
     (if is_upper c then Some (byteval c - 65)
      else if is_lower c then Some (byteval c - 71)
      else if is_digit c then Some (byteval c + 4)
      else if c = CHR ''+'' then Some 62
      else if c = SLASH then Some 63
      else None)"

definition b64_bytes :: "nat \<Rightarrow> nat \<Rightarrow> nat \<Rightarrow> nat \<Rightarrow> string" where
  "b64_bytes a b c d =
     [char_of (4 * a + b div 16), char_of (16 * (b mod 16) + c div 4), char_of (64 * (c mod 4) + d)]"

fun b64_quanta :: "string \<Rightarrow> string option" where
  "b64_quanta [] = Some []"
| "b64_quanta (a # b # c # d # rest) =
     (case (b64_value a, b64_value b) of
        (Some x, Some y) \<Rightarrow>
          (if c = CHR ''='' then (if d = CHR ''='' \<and> rest = [] then Some (take 1 (b64_bytes x y 0 0)) else None)
           else (case b64_value c of
              None \<Rightarrow> None
            | Some z \<Rightarrow>
                if d = CHR ''='' then (if rest = [] then Some (take 2 (b64_bytes x y z 0)) else None)
                else (case (b64_value d, b64_quanta rest) of
                    (Some w, Some out) \<Rightarrow> Some (b64_bytes x y z w @ out)
                  | _ \<Rightarrow> None)))
      | _ \<Rightarrow> None)"
| "b64_quanta _ = None"

definition DecodeString :: "string \<Rightarrow> string option" where
  "DecodeString s = b64_quanta (filter (\<lambda>c. c \<noteq> LF \<and> c \<noteq> CR) s)"

definition resolveContent :: "string \<Rightarrow> string \<Rightarrow> edit_error + string" where
  "resolveContent plain b64 =
     (if b64 \<noteq> [] then (case DecodeString b64 of None \<Rightarrow> Inl (BadBase64 ''content_b64'') | Some d \<Rightarrow> Inr d)
      else Inr plain)"

record ReplaceRequest =
  rp_RepoPath :: string
  rp_Path :: string
  rp_ExpectedHash :: string
  rp_ExpectedHashChunks :: "string list"
  rp_Old :: string
  rp_New :: string
  rp_OldB64 :: string
  rp_NewB64 :: string

definition resolveText :: "ReplaceRequest \<Rightarrow> edit_error + string \<times> string" where
  "resolveText req =
     rbind (if rp_OldB64 req \<noteq> []
            then (case DecodeString (rp_OldB64 req) of None \<Rightarrow> Inl (BadBase64 ''old_b64'') | Some d \<Rightarrow> Inr d)
            else Inr (rp_Old req)) (\<lambda>oldText.
     rbind (if rp_NewB64 req \<noteq> []
            then (case DecodeString (rp_NewB64 req) of None \<Rightarrow> Inl (BadBase64 ''new_b64'') | Some d \<Rightarrow> Inr d)
            else Inr (rp_New req)) (\<lambda>newText. Inr (oldText, newText)))"

text \<open>Groups of eight; a length that is no multiple of eight has no groups.\<close>

fun groups8 :: "string \<Rightarrow> string list" where
  "groups8 (a # b # c # d # e # f # g # h # rest) = [a, b, c, d, e, f, g, h] # groups8 rest"
| "groups8 _ = []"

definition hashChunks :: "string \<Rightarrow> string list" where
  "hashChunks hash = (if hash = [] \<or> length hash mod 8 \<noteq> 0 then [] else groups8 hash)"

definition hexDigest :: "string \<Rightarrow> bool" where
  "hexDigest s \<longleftrightarrow> length s = 64 \<and> list_all is_hex s"

definition resolveExpectedHash :: "string \<Rightarrow> string list \<Rightarrow> edit_error + string" where
  "resolveExpectedHash expected chunks =
     (if chunks = [] then Inr expected
      else let joined = ToLower (concat chunks) in
        if \<not> hexDigest joined then Inl HashChunksInvalid
        else if expected \<noteq> [] \<and> expected \<noteq> joined then Inl (HashesDisagree expected)
        else Inr joined)"

definition ValidateReplaceEncoding :: "ReplaceRequest \<Rightarrow> edit_error + unit" where
  "ValidateReplaceEncoding req =
     rbind (resolveExpectedHash (rp_ExpectedHash req) (rp_ExpectedHashChunks req)) (\<lambda>_.
     rbind (resolveText req) (\<lambda>_. Inr ()))"

definition validatedFileMode :: "int \<Rightarrow> FileMode \<Rightarrow> edit_error + FileMode" where
  "validatedFileMode requested fallback =
     (if requested = 0 then Inr fallback
      else if requested < 0 \<or> requested > 0x1FF then Inl (BadMode requested)
      else Inr (word_of_int requested))"

section \<open>Replacing a span of text\<close>

datatype reason =
    NoReason | DesiredPresent | OldNotFound string | OldNotUnique | HashChanged | FileExists | FileMissing
  | ContentPresent | BlockAbsent | BlockNotUnique | ContentMatches

text \<open>\<open>strings.Count\<close>: for an empty substring one more than the runes, an invalid byte being one.\<close>

function rune_count :: "string \<Rightarrow> nat" where
  "rune_count s = (if s = [] then 0 else Suc (rune_count (drop (max 1 (rune_len s)) s)))"
  by pat_completeness auto
termination by (relation "measure length") (auto simp: neq_Nil_conv simp del: rune_len.simps)

declare rune_count.simps [simp del]

definition Count :: "string \<Rightarrow> string \<Rightarrow> nat" where
  "Count s sub = (if sub = [] then rune_count s + 1 else CountSub s sub)"

fun common_len :: "string \<Rightarrow> string \<Rightarrow> nat" where
  "common_len (a # s) (b # t) = (if a = b then Suc (common_len s t) else 0)"
| "common_len _ _ = 0"

text \<open>The loop over positions: the longest match so far and where it starts.\<close>

fun best_loop :: "nat \<Rightarrow> string \<Rightarrow> string \<Rightarrow> nat \<Rightarrow> nat \<Rightarrow> nat \<times> nat" where
  "best_loop i [] old best bestPos = (best, bestPos)"
| "best_loop i (c # s) old best bestPos =
     (let j = common_len (c # s) old in
      if j > best then best_loop (i + 1) s old j i else best_loop (i + 1) s old best bestPos)"

definition findBestPartialMatch :: "string \<Rightarrow> string \<Rightarrow> string" where
  "findBestPartialMatch text old =
     (case best_loop 0 text old 0 0 of (best, bestPos) \<Rightarrow>
        if best = 0 then []
        else let lo = (if bestPos > 20 then bestPos - 20 else bestPos);
                 hi = min (bestPos + best + 40) (length text) in
          take (hi - lo) (drop lo text))"

record SpanEdit =
  sp_Text :: string
  sp_Status :: string
  sp_Changed :: bool
  sp_Reason :: reason

definition ReplaceUniqueSpan :: "string \<Rightarrow> string \<Rightarrow> string \<Rightarrow> SpanEdit" where
  "ReplaceUniqueSpan text oldText newText =
     (if Contains text newText \<and> \<not> Contains text oldText then
        \<lparr>sp_Text = text, sp_Status = ''ok'', sp_Changed = False, sp_Reason = DesiredPresent\<rparr>
      else let count = Count text oldText in
        if count = 0 then
          \<lparr>sp_Text = [], sp_Status = ''conflict'', sp_Changed = False,
           sp_Reason = OldNotFound (findBestPartialMatch text oldText)\<rparr>
        else if count > 1 then
          \<lparr>sp_Text = [], sp_Status = ''conflict'', sp_Changed = False, sp_Reason = OldNotUnique\<rparr>
        else let nxt = Replace1 text oldText newText in
          \<lparr>sp_Text = nxt, sp_Status = ''ok'', sp_Changed = (nxt \<noteq> text), sp_Reason = NoReason\<rparr>)"

definition fileUsesCRLF :: "string \<Rightarrow> bool" where
  "fileUsesCRLF data = Contains data CRLF"

section \<open>Guarded operations\<close>

record ReplaceResult =
  re_Status :: string
  re_Path :: string
  re_Changed :: bool
  re_OldHash :: string
  re_NewHash :: string
  re_Reason :: reason

definition conflict :: "string \<Rightarrow> string \<Rightarrow> reason \<Rightarrow> ReplaceResult" where
  "conflict path oldHash why =
     \<lparr>re_Status = ''conflict'', re_Path = path, re_Changed = False, re_OldHash = oldHash, re_NewHash = [], re_Reason = why\<rparr>"

definition untouched :: "string \<Rightarrow> string \<Rightarrow> reason \<Rightarrow> ReplaceResult" where
  "untouched path oldHash why =
     \<lparr>re_Status = ''ok'', re_Path = path, re_Changed = False, re_OldHash = oldHash, re_NewHash = oldHash, re_Reason = why\<rparr>"

definition changed :: "string \<Rightarrow> string \<Rightarrow> string \<Rightarrow> ReplaceResult" where
  "changed path oldHash newHash =
     \<lparr>re_Status = ''ok'', re_Path = path, re_Changed = True, re_OldHash = oldHash, re_NewHash = newHash, re_Reason = NoReason\<rparr>"

definition already_present :: "string \<Rightarrow> ReplaceResult" where
  "already_present path =
     \<lparr>re_Status = ''already_present'', re_Path = path, re_Changed = False, re_OldHash = [], re_NewHash = [], re_Reason = FileExists\<rparr>"

text \<open>The write every operation ends with.\<close>

definition store ::
  "scopedFile \<Rightarrow> string \<Rightarrow> FileMode \<Rightarrow> string option list \<Rightarrow> ReplaceResult \<Rightarrow> os \<Rightarrow> (edit_error + ReplaceResult) \<times> os" where
  "store scoped data perm noises result st =
     (case WriteFileAtomic (sf_name scoped) data perm noises st of
        (Inl e, st1) \<Rightarrow> (Inl (FsFailed e), st1) | (Inr _, st1) \<Rightarrow> (Inr result, st1))"

text \<open>What a replacement does with the text it read: a finished result, or the next content.\<close>

definition plan_replace :: "(string \<Rightarrow> string) \<Rightarrow> string \<Rightarrow> string \<Rightarrow> string \<Rightarrow> string \<Rightarrow> string \<Rightarrow> ReplaceResult + string" where
  "plan_replace sha clean expectedHash oldText0 newText0 data =
     (let oldHash = sha data in
      if oldHash \<noteq> expectedHash then Inl (conflict clean oldHash HashChanged)
      else
        let adapt = fileUsesCRLF data \<and> \<not> Contains oldText0 CRLF;
            oldText = (if adapt then ReplaceAll oldText0 [LF] CRLF else oldText0);
            newText = (if adapt then ReplaceAll newText0 [LF] CRLF else newText0);
            edit = ReplaceUniqueSpan data oldText newText in
        if sp_Status edit \<noteq> ''ok'' then
          Inl \<lparr>re_Status = sp_Status edit, re_Path = clean, re_Changed = False, re_OldHash = oldHash,
            re_NewHash = [], re_Reason = sp_Reason edit\<rparr>
        else if \<not> sp_Changed edit then Inl (untouched clean oldHash (sp_Reason edit))
        else Inr (sp_Text edit))"

definition ApplyGuardedReplace ::
  "(string \<Rightarrow> string) \<Rightarrow> host \<Rightarrow> string option list \<Rightarrow> ReplaceRequest \<Rightarrow> os \<Rightarrow> (edit_error + ReplaceResult) \<times> os" where
  "ApplyGuardedReplace sha h noises req st =
     (if TrimSpace (rp_Path req) = [] then (Inl PathIsRequired, st)
      else case openScopedFile h (rp_RepoPath req) (rp_Path req) False st of
        (Inl e, st1) \<Rightarrow> (Inl e, st1)
      | (Inr scoped, st1) \<Rightarrow>
     (case resolveExpectedHash (rp_ExpectedHash req) (rp_ExpectedHashChunks req) of
        Inl e \<Rightarrow> (Inl e, st1)
      | Inr expectedHash \<Rightarrow>
     (if expectedHash = [] then (Inl ExpectedHashRequired, st1)
      else case resolveText req of
        Inl e \<Rightarrow> (Inl e, st1)
      | Inr (oldText, newText) \<Rightarrow>
     (if oldText = [] then (Inl OldTextRequired, st1)
      else case ReadFile (sf_name scoped) st1 of
        (Inl e, st2) \<Rightarrow> (Inl (FsFailed e), st2)
      | (Inr data, st2) \<Rightarrow>
          (case plan_replace sha (sf_display scoped) expectedHash oldText newText data of
             Inl result \<Rightarrow> (Inr result, st2)
           | Inr nxt \<Rightarrow> store scoped nxt 0x180 noises (changed (sf_display scoped) (sha data) (sha nxt)) st2)))))"

record CreateIfAbsentRequest =
  ca_Path :: string
  ca_RepoPath :: string
  ca_Content :: string
  ca_ContentB64 :: string
  ca_Mode :: int

definition CreateIfAbsent ::
  "(string \<Rightarrow> string) \<Rightarrow> host \<Rightarrow> CreateIfAbsentRequest \<Rightarrow> os \<Rightarrow> (edit_error + ReplaceResult) \<times> os" where
  "CreateIfAbsent sha h req st =
     (if TrimSpace (ca_Path req) = [] then (Inl PathIsRequired, st)
      else case resolveContent (ca_Content req) (ca_ContentB64 req) of
        Inl e \<Rightarrow> (Inl e, st)
      | Inr body \<Rightarrow>
     (if body = [] then (Inl ContentRequired, st)
      else case validatedFileMode (ca_Mode req) 0x1A4 of
        Inl e \<Rightarrow> (Inl e, st)
      | Inr perm \<Rightarrow>
     (case openScopedFile h (ca_RepoPath req) (ca_Path req) False st of
        (Inl e, st1) \<Rightarrow> (Inl e, st1)
      | (Inr scoped, st1) \<Rightarrow>
     (case Stat (sf_name scoped) st1 of
        (Inr _, st2) \<Rightarrow> (Inr (already_present (sf_display scoped)), st2)
      | (Inl statErr, st2) \<Rightarrow>
          if \<not> missing_error statErr then (Inl (FsFailed statErr), st2)
          else (case CreateExclusive (sf_name scoped) body perm st2 of
             (Inl e, st3) \<Rightarrow>
               if safe_cause e = Some ErrExist then (Inr (already_present (sf_display scoped)), st3)
               else (Inl (FsFailed e), st3)
           | (Inr _, st3) \<Rightarrow> (Inr (changed (sf_display scoped) [] (sha body)), st3))))))"

record AppendUniqueRequest =
  au_Path :: string
  au_RepoPath :: string
  au_ExpectedHash :: string
  au_Content :: string
  au_ContentB64 :: string
  au_Separator :: string

definition plan_append :: "(string \<Rightarrow> string) \<Rightarrow> string \<Rightarrow> string \<Rightarrow> string \<Rightarrow> string \<Rightarrow> string \<Rightarrow> ReplaceResult + string" where
  "plan_append sha clean expectedHash separator0 body data =
     (let oldHash = sha data in
      if oldHash \<noteq> expectedHash then Inl (conflict clean oldHash HashChanged)
      else if Contains data body then Inl (untouched clean oldHash ContentPresent)
      else let separator = (if separator0 = [] then [LF] else separator0) in
        Inr (if data = [] then body
             else if HasSuffix data separator then data @ body
             else data @ separator @ body))"

definition AppendUnique ::
  "(string \<Rightarrow> string) \<Rightarrow> host \<Rightarrow> string option list \<Rightarrow> AppendUniqueRequest \<Rightarrow> os \<Rightarrow> (edit_error + ReplaceResult) \<times> os" where
  "AppendUnique sha h noises req st =
     (if TrimSpace (au_Path req) = [] then (Inl PathIsRequired, st)
      else if au_ExpectedHash req = [] then (Inl ExpectedHashRequired, st)
      else case openScopedFile h (au_RepoPath req) (au_Path req) False st of
        (Inl e, st1) \<Rightarrow> (Inl e, st1)
      | (Inr scoped, st1) \<Rightarrow>
     (case resolveContent (au_Content req) (au_ContentB64 req) of
        Inl e \<Rightarrow> (Inl e, st1)
      | Inr body \<Rightarrow>
     (if body = [] then (Inl ContentRequired, st1)
      else case ReadFile (sf_name scoped) st1 of
        (Inl e, st2) \<Rightarrow>
          if missing_error e then (Inr (conflict (sf_display scoped) [] FileMissing), st2) else (Inl (FsFailed e), st2)
      | (Inr data, st2) \<Rightarrow>
          (case plan_append sha (sf_display scoped) (au_ExpectedHash req) (au_Separator req) body data of
             Inl result \<Rightarrow> (Inr result, st2)
           | Inr nxt \<Rightarrow> store scoped nxt 0x180 noises (changed (sf_display scoped) (sha data) (sha nxt)) st2))))"

record DeleteExactBlockRequest =
  db_Path :: string
  db_RepoPath :: string
  db_ExpectedHash :: string
  db_Block :: string
  db_BlockB64 :: string

text \<open>The loop that drops newlines at the seam; \<open>left\<close> does not change in it.\<close>

fun collapse :: "string \<Rightarrow> string \<Rightarrow> string" where
  "collapse left [] = []"
| "collapse left (c # right) = (if HasSuffix left [LF, LF] \<and> c = LF then collapse left right else c # right)"

definition plan_delete :: "(string \<Rightarrow> string) \<Rightarrow> string \<Rightarrow> string \<Rightarrow> string \<Rightarrow> string \<Rightarrow> ReplaceResult + string" where
  "plan_delete sha clean expectedHash block data =
     (let oldHash = sha data in
      if oldHash \<noteq> expectedHash then Inl (conflict clean oldHash HashChanged)
      else let count = CountSub data block in
        if count = 0 then Inl (untouched clean oldHash BlockAbsent)
        else if count > 1 then Inl (conflict clean oldHash BlockNotUnique)
        else (case Index data block of
            None \<Rightarrow> Inl (untouched clean oldHash BlockAbsent)
          | Some removedAt \<Rightarrow>
              let left = take removedAt data; right = drop (removedAt + length block) data in
              Inr (left @ collapse left right)))"

definition DeleteExactBlock ::
  "(string \<Rightarrow> string) \<Rightarrow> host \<Rightarrow> string option list \<Rightarrow> DeleteExactBlockRequest \<Rightarrow> os \<Rightarrow> (edit_error + ReplaceResult) \<times> os" where
  "DeleteExactBlock sha h noises req st =
     (if TrimSpace (db_Path req) = [] then (Inl PathIsRequired, st)
      else if db_ExpectedHash req = [] then (Inl ExpectedHashRequired, st)
      else case openScopedFile h (db_RepoPath req) (db_Path req) False st of
        (Inl e, st1) \<Rightarrow> (Inl e, st1)
      | (Inr scoped, st1) \<Rightarrow>
     (case resolveContent (db_Block req) (db_BlockB64 req) of
        Inl e \<Rightarrow> (Inl e, st1)
      | Inr block \<Rightarrow>
     (if block = [] then (Inl BlockRequired, st1)
      else case ReadFile (sf_name scoped) st1 of
        (Inl e, st2) \<Rightarrow>
          if missing_error e then (Inr (conflict (sf_display scoped) [] FileMissing), st2) else (Inl (FsFailed e), st2)
      | (Inr data, st2) \<Rightarrow>
          (case plan_delete sha (sf_display scoped) (db_ExpectedHash req) block data of
             Inl result \<Rightarrow> (Inr result, st2)
           | Inr nxt \<Rightarrow> store scoped nxt 0x180 noises (changed (sf_display scoped) (sha data) (sha nxt)) st2))))"

record WriteFileRequest =
  wf_RepoPath :: string
  wf_Path :: string
  wf_Content :: string
  wf_ContentB64 :: string
  wf_ExpectedHash :: string
  wf_Mode :: int

definition ValidateWriteFileEncoding :: "WriteFileRequest \<Rightarrow> edit_error + unit" where
  "ValidateWriteFileEncoding req = rbind (resolveContent (wf_Content req) (wf_ContentB64 req)) (\<lambda>_. Inr ())"

definition WriteFile ::
  "(string \<Rightarrow> string) \<Rightarrow> host \<Rightarrow> string option list \<Rightarrow> WriteFileRequest \<Rightarrow> os \<Rightarrow> (edit_error + ReplaceResult) \<times> os" where
  "WriteFile sha h noises req st =
     (if TrimSpace (wf_Path req) = [] then (Inl PathIsRequired, st)
      else case resolveContent (wf_Content req) (wf_ContentB64 req) of
        Inl e \<Rightarrow> (Inl e, st)
      | Inr body \<Rightarrow>
     (if body = [] then (Inl ContentRequired, st)
      else case validatedFileMode (wf_Mode req) 0x1A4 of
        Inl e \<Rightarrow> (Inl e, st)
      | Inr perm \<Rightarrow>
     (case openScopedFile h (wf_RepoPath req) (wf_Path req) True st of
        (Inl e, st1) \<Rightarrow> (Inl e, st1)
      | (Inr scoped, st1) \<Rightarrow>
     (case ReadFile (sf_name scoped) st1 of
        (Inr existing, st2) \<Rightarrow>
          (let oldHash = sha existing; newHash = sha body in
           if wf_ExpectedHash req \<noteq> [] \<and> oldHash \<noteq> wf_ExpectedHash req then
             (Inr (conflict (sf_display scoped) oldHash HashChanged), st2)
           else if oldHash = newHash then (Inr (untouched (sf_display scoped) oldHash ContentMatches), st2)
           else store scoped body 0x180 noises (changed (sf_display scoped) oldHash newHash) st2)
      | (Inl e, st2) \<Rightarrow>
          if \<not> missing_error e then (Inl (FsFailed e), st2)
          else store scoped body perm noises (changed (sf_display scoped) [] (sha body)) st2))))"

section \<open>Captured state\<close>

text \<open>\<open>FileState\<close>: the content, or absence.\<close>

definition CaptureFileStateInRepo :: "host \<Rightarrow> string \<Rightarrow> string \<Rightarrow> os \<Rightarrow> (edit_error + string option) \<times> os" where
  "CaptureFileStateInRepo h repoPath filePath st =
     (case openScopedFile h repoPath filePath False st of
        (Inl e, st1) \<Rightarrow> (Inl e, st1)
      | (Inr scoped, st1) \<Rightarrow>
          (case ReadFile (sf_name scoped) st1 of
             (Inl e, st2) \<Rightarrow> if missing_error e then (Inr None, st2) else (Inl (FsFailed e), st2)
           | (Inr data, st2) \<Rightarrow> (Inr (Some data), st2)))"

definition RestoreFileStateInRepo ::
  "host \<Rightarrow> string option list \<Rightarrow> string \<Rightarrow> string \<Rightarrow> string option \<Rightarrow> os \<Rightarrow> (edit_error + unit) \<times> os" where
  "RestoreFileStateInRepo h noises repoPath filePath state st =
     (case openScopedFile h repoPath filePath False st of
        (Inl e, st1) \<Rightarrow> (Inl e, st1)
      | (Inr scoped, st1) \<Rightarrow>
          (case state of
             None \<Rightarrow>
               (case Remove (sf_name scoped) st1 of
                  (Inl e, st2) \<Rightarrow> (if missing_error e then Inr () else Inl (FsFailed e), st2)
                | (Inr _, st2) \<Rightarrow> (Inr (), st2))
           | Some body \<Rightarrow>
               (case WriteFileAtomic (sf_name scoped) body 0x180 noises st1 of
                  (Inl e, st2) \<Rightarrow> (Inl (FsFailed e), st2) | (Inr _, st2) \<Rightarrow> (Inr (), st2))))"

section \<open>Reading\<close>

record Snapshot =
  ss_Path :: string
  ss_RepoPath :: string
  ss_RelativePath :: string
  ss_Hash :: string
  ss_HashChunks :: "string list"
  ss_Size :: nat
  ss_Exists :: bool

definition absent_snapshot :: "string \<Rightarrow> string \<Rightarrow> string \<Rightarrow> Snapshot" where
  "absent_snapshot path repo rel =
     \<lparr>ss_Path = path, ss_RepoPath = repo, ss_RelativePath = rel, ss_Hash = [], ss_HashChunks = [], ss_Size = 0, ss_Exists = False\<rparr>"

definition present_snapshot :: "(string \<Rightarrow> string) \<Rightarrow> string \<Rightarrow> string \<Rightarrow> string \<Rightarrow> string \<Rightarrow> Snapshot" where
  "present_snapshot sha path repo rel data =
     \<lparr>ss_Path = path, ss_RepoPath = repo, ss_RelativePath = rel, ss_Hash = sha data, ss_HashChunks = hashChunks (sha data),
      ss_Size = length data, ss_Exists = True\<rparr>"

definition ReadSnapshot :: "(string \<Rightarrow> string) \<Rightarrow> host \<Rightarrow> string \<Rightarrow> edit_error + Snapshot" where
  "ReadSnapshot sha h path =
     rbind (cleanPath (h_wd h) path) (\<lambda>clean.
       case h_read h clean of
         Inl e \<Rightarrow> if e = ErrNotExist then Inr (absent_snapshot clean [] []) else Inl (OsFailed e)
       | Inr data \<Rightarrow> Inr (present_snapshot sha clean [] [] data))"

definition ReadSnapshotInRepo :: "(string \<Rightarrow> string) \<Rightarrow> host \<Rightarrow> string \<Rightarrow> string \<Rightarrow> os \<Rightarrow> (edit_error + Snapshot) \<times> os" where
  "ReadSnapshotInRepo sha h repoPath filePath st =
     (case openScopedFile h repoPath filePath False st of
        (Inl e, st1) \<Rightarrow> (Inl e, st1)
      | (Inr scoped, st1) \<Rightarrow>
          (case ReadFile (sf_name scoped) st1 of
             (Inl e, st2) \<Rightarrow>
               (if missing_error e then Inr (absent_snapshot (sf_display scoped) repoPath (sf_relative scoped))
                else Inl (FsFailed e), st2)
           | (Inr data, st2) \<Rightarrow>
               (Inr (present_snapshot sha (sf_display scoped) repoPath (sf_relative scoped) data), st2)))"

record FileLine =
  fl_Number :: nat
  fl_Text :: string

record FileContent =
  fc_Path :: string
  fc_RepoPath :: string
  fc_RelativePath :: string
  fc_Hash :: string
  fc_HashChunks :: "string list"
  fc_Size :: nat
  fc_Exists :: bool
  fc_Lines :: "FileLine list"

definition raw_lines :: "string \<Rightarrow> string list" where
  "raw_lines text =
     (let raw = SplitChar LF (ReplaceAll text CRLF [LF]) in
      if length raw > 0 \<and> last raw = [] then butlast raw else raw)"

definition file_lines :: "string \<Rightarrow> FileLine list" where
  "file_lines text = map (\<lambda>(i, line). \<lparr>fl_Number = i + 1, fl_Text = line\<rparr>) (enumerate 0 (raw_lines text))"

definition empty_content :: "string \<Rightarrow> string \<Rightarrow> string \<Rightarrow> nat \<Rightarrow> bool \<Rightarrow> FileContent" where
  "empty_content path repo rel bytes present =
     \<lparr>fc_Path = path, fc_RepoPath = repo, fc_RelativePath = rel, fc_Hash = [], fc_HashChunks = [], fc_Size = bytes,
      fc_Exists = present, fc_Lines = []\<rparr>"

definition full_content :: "(string \<Rightarrow> string) \<Rightarrow> string \<Rightarrow> string \<Rightarrow> string \<Rightarrow> string \<Rightarrow> FileContent" where
  "full_content sha path repo rel data =
     (empty_content path repo rel (length data) True)
       \<lparr>fc_Hash := sha data, fc_HashChunks := hashChunks (sha data), fc_Lines := file_lines data\<rparr>"

definition ReadFileContent :: "(string \<Rightarrow> string) \<Rightarrow> host \<Rightarrow> string \<Rightarrow> os \<Rightarrow> (edit_error + FileContent) \<times> os" where
  "ReadFileContent sha h path st =
     (case cleanPath (h_wd h) path of
        Inl e \<Rightarrow> (Inl e, st)
      | Inr clean \<Rightarrow>
          (case split_last clean of (dir, name) \<Rightarrow>
            (case h_open h (Clean dir) of
               Some e \<Rightarrow> (if e = ErrNotExist then Inr (empty_content clean [] [] 0 False) else Inl (OsFailed e), st)
             | None \<Rightarrow>
                 if name = [] then (Inl (OsFailed ErrInvalid), st)
                 else (case os_read_file name st of
                    (Inl e, st1) \<Rightarrow>
                      (if e = ErrNotExist then Inr (empty_content clean [] [] 0 False) else Inl (OsFailed e), st1)
                  | (Inr data, st1) \<Rightarrow> (Inr (full_content sha clean [] [] data), st1)))))"

definition ReadFileContentInRepo ::
  "(string \<Rightarrow> string) \<Rightarrow> host \<Rightarrow> string \<Rightarrow> string \<Rightarrow> os \<Rightarrow> (edit_error + FileContent) \<times> os" where
  "ReadFileContentInRepo sha h repoPath filePath st =
     (case openScopedFile h repoPath filePath False st of
        (Inl e, st1) \<Rightarrow> (Inl e, st1)
      | (Inr scoped, st1) \<Rightarrow>
          (case ReadFile (sf_name scoped) st1 of
             (Inl e, st2) \<Rightarrow>
               (if missing_error e then Inr (empty_content (sf_display scoped) repoPath (sf_relative scoped) 0 False)
                else Inl (FsFailed e), st2)
           | (Inr data, st2) \<Rightarrow>
               (Inr (full_content sha (sf_display scoped) repoPath (sf_relative scoped) data), st2)))"

text \<open>The content, and whether the file was too large to return.\<close>

definition readFileContentInRepoLimited ::
  "(string \<Rightarrow> string) \<Rightarrow> host \<Rightarrow> string \<Rightarrow> string \<Rightarrow> nat \<Rightarrow> os \<Rightarrow> (edit_error + FileContent \<times> bool) \<times> os" where
  "readFileContentInRepoLimited sha h repoPath filePath maxBytes st =
     (case openScopedFile h repoPath filePath False st of
        (Inl e, st1) \<Rightarrow> (Inl e, st1)
      | (Inr scoped, st1) \<Rightarrow>
     (let shown = empty_content (sf_display scoped) repoPath (sf_relative scoped) in
      case Stat (sf_name scoped) st1 of
        (Inl e, st2) \<Rightarrow> (if missing_error e then Inr (shown 0 False, False) else Inl (FsFailed e), st2)
      | (Inr info, st2) \<Rightarrow>
     (if (case fi_node info of File _ \<Rightarrow> False | _ \<Rightarrow> True) then (Inl (NotRegular (sf_relative scoped)), st2)
      else if fi_size info > maxBytes then (Inr (shown (fi_size info) True, True), st2)
      else case confined False os_open (sf_name scoped) st2 of
        (Inl e, st3) \<Rightarrow> (Inl (FsFailed e), st3)
      | (Inr fd, st3) \<Rightarrow>
          (case os_read fd (maxBytes + 1) st3 of (readR, st4) \<Rightarrow>
            (let st5 = snd (os_close fd st4) in
             case readR of
               Inl e \<Rightarrow> (Inl (OsFailed e), st5)
             | Inr data \<Rightarrow>
                 (if length data > maxBytes then (Inr (shown (length data) True, True), st5)
                  else (Inr (full_content sha (sf_display scoped) repoPath (sf_relative scoped) data, False), st5)))))))"

record ReadFilesFileResult =
  rf_RelativePath :: string
  rf_Hash :: string
  rf_Size :: nat
  rf_Exists :: bool
  rf_Lines :: "FileLine list"
  rf_Error :: "edit_error option"
  rf_Truncated :: bool
  rf_OmittedReason :: "(nat \<times> nat) option"    \<comment> \<open>the size and the limit it exceeds\<close>

record ReadFilesResult =
  rs_RepoPath :: string
  rs_Files :: "ReadFilesFileResult list"
  rs_TotalFiles :: nat
  rs_ReturnedFiles :: nat
  rs_ReturnedBytes :: nat
  rs_Truncated :: bool

definition maxReadFilesPaths :: nat where "maxReadFilesPaths = 8"
definition maxReadFileBytes :: nat where "maxReadFileBytes = 64 * 1024"
definition maxReadFilesTotalBytes :: nat where "maxReadFilesTotalBytes = 128 * 1024"

text \<open>One path of the batch: its result and, when its lines are returned, their bytes.\<close>

definition read_one :: "string \<Rightarrow> nat \<Rightarrow> edit_error + FileContent \<times> bool \<Rightarrow> ReadFilesFileResult \<times> nat option" where
  "read_one path totalBytes r =
     (case r of
        Inl e \<Rightarrow> (\<lparr>rf_RelativePath = Clean path, rf_Hash = [], rf_Size = 0, rf_Exists = False, rf_Lines = [],
            rf_Error = Some e, rf_Truncated = False, rf_OmittedReason = None\<rparr>, None)
      | Inr (fc, oversized) \<Rightarrow>
          (let fr = \<lparr>rf_RelativePath = fc_RelativePath fc, rf_Hash = fc_Hash fc, rf_Size = fc_Size fc,
                 rf_Exists = fc_Exists fc, rf_Lines = [], rf_Error = None, rf_Truncated = False, rf_OmittedReason = None\<rparr> in
           if \<not> fc_Exists fc then (fr\<lparr>rf_Error := Some DoesNotExist\<rparr>, None)
           else if oversized then (fr\<lparr>rf_Truncated := True, rf_OmittedReason := Some (fc_Size fc, maxReadFileBytes)\<rparr>, None)
           else if totalBytes + fc_Size fc > maxReadFilesTotalBytes then
             (fr\<lparr>rf_Truncated := True, rf_OmittedReason := Some (fc_Size fc, maxReadFilesTotalBytes)\<rparr>, None)
           else (fr\<lparr>rf_Lines := fc_Lines fc\<rparr>, Some (fc_Size fc))))"

fun read_loop :: "(string \<Rightarrow> string) \<Rightarrow> host \<Rightarrow> string \<Rightarrow> string list \<Rightarrow> ReadFilesResult \<Rightarrow> os \<Rightarrow> ReadFilesResult \<times> os" where
  "read_loop sha h repoPath [] result st = (result, st)"
| "read_loop sha h repoPath (path # paths) result st =
     (case readFileContentInRepoLimited sha h repoPath path maxReadFileBytes st of (r, st1) \<Rightarrow>
       (case read_one path (rs_ReturnedBytes result) r of (fr, bytes) \<Rightarrow>
         read_loop sha h repoPath paths
           (result\<lparr>rs_Files := rs_Files result @ [fr],
              rs_Truncated := (rs_Truncated result \<or> rf_Truncated fr),
              rs_ReturnedFiles := rs_ReturnedFiles result + (if bytes = None then 0 else 1),
              rs_ReturnedBytes := rs_ReturnedBytes result + (case bytes of None \<Rightarrow> 0 | Some n \<Rightarrow> n)\<rparr>) st1))"

definition ReadFilesInRepo ::
  "(string \<Rightarrow> string) \<Rightarrow> host \<Rightarrow> string \<Rightarrow> string list \<Rightarrow> os \<Rightarrow> (edit_error + ReadFilesResult) \<times> os" where
  "ReadFilesInRepo sha h repoPath paths st =
     (if paths = [] then (Inl PathsEmpty, st)
      else if length paths > maxReadFilesPaths then (Inl (TooManyPaths (length paths)), st)
      else (case read_loop sha h repoPath paths
               \<lparr>rs_RepoPath = repoPath, rs_Files = [], rs_TotalFiles = length paths, rs_ReturnedFiles = 0,
                rs_ReturnedBytes = 0, rs_Truncated = False\<rparr> st of
          (result, st1) \<Rightarrow> (Inr result, st1)))"

section \<open>Listing a directory\<close>

record DirEntry =
  le_Name :: string
  le_IsDir :: bool
  le_Size :: nat
  le_ModifiedAt :: string
  le_IsSymlink :: bool

record ListDirResult =
  ld_Path :: string
  ld_RepoPath :: string
  ld_RelativePath :: string
  ld_Entries :: "DirEntry list"
  ld_Total :: nat

text \<open>The candidate is given by its components, last one first.\<close>

fun nearest_loop :: "string list \<Rightarrow> os \<Rightarrow> string \<times> os" where
  "nearest_loop [] st = (''.'', st)"
| "nearest_loop (c # up) st =
     (let candidate = Join [SLASH] (rev (c # up)) in
      case Stat candidate st of
        (Inr _, st1) \<Rightarrow> (candidate, st1)
      | (Inl _, st1) \<Rightarrow> nearest_loop up st1)"

definition nearestExistingDir :: "string \<Rightarrow> os \<Rightarrow> string \<times> os" where
  "nearestExistingDir relative st =
     (let candidate = Clean relative in
      if candidate = ''.'' then (''.'', st) else nearest_loop (rev (SplitChar SLASH candidate)) st)"

definition dir_entry :: "DirEnt \<Rightarrow> DirEntry" where
  "dir_entry e =
     \<lparr>le_Name = de_name e, le_IsDir = de_dir e,
      le_Size = (case de_info e of None \<Rightarrow> 0 | Some (n, t) \<Rightarrow> n),
      le_ModifiedAt = (case de_info e of None \<Rightarrow> [] | Some (n, t) \<Rightarrow> t), le_IsSymlink = de_symlink e\<rparr>"

text \<open>The opened root, the name listed in it, the display path and the repository-relative path.\<close>

definition list_target :: "host \<Rightarrow> string \<Rightarrow> string \<Rightarrow> edit_error + string \<times> string \<times> string \<times> string" where
  "list_target h repoPath path =
     (if TrimSpace repoPath \<noteq> [] then
        (case OpenRoot h repoPath of
           Inl e \<Rightarrow> Inl (RootFailed e)
         | Inr root \<Rightarrow>
             if TrimSpace path = [] then Inr (root, ''.'', root, [])
             else rbind (repoRelativePath (h_wd h) repoPath path) (\<lambda>(display, rel). Inr (root, rel, display, rel)))
      else
        rbind (cleanPath (h_wd h) (if TrimSpace path = [] then ''.'' else path)) (\<lambda>display.
          case OpenRoot h display of
            Inl e \<Rightarrow> Inl (RootFailed e) | Inr root \<Rightarrow> Inr (root, ''.'', display, [])))"

definition ListDir :: "host \<Rightarrow> string \<Rightarrow> string \<Rightarrow> os \<Rightarrow> (edit_error + ListDirResult) \<times> os" where
  "ListDir h repoPath path st =
     (case list_target h repoPath path of
        Inl e \<Rightarrow> (Inl e, st)
      | Inr (root, relative, display, repoRel) \<Rightarrow>
          (case ReadDir h root relative of
             Inl e \<Rightarrow>
               if missing_error e then
                 (case nearestExistingDir relative st of (nearest, st1) \<Rightarrow> (Inl (ListMissing relative root nearest), st1))
               else (Inl (FsFailed e), st)
           | Inr entries \<Rightarrow>
               (Inr \<lparr>ld_Path = display, ld_RepoPath = TrimSpace repoPath, ld_RelativePath = repoRel,
                  ld_Entries = map dir_entry entries, ld_Total = length entries\<rparr>, st)))"

end
