(* ===== verification/FileEditFacts.thy ===== *)
theory FileEditFacts
  imports FileEdits
begin

text \<open>
  What the edit layer of \<open>fileops\<close> promises.  Paths accepted for a repository are below it and not
  protected.  The three guarded operations that change a file (replace, append, delete) read the file, plan
  the next content and store it with the atomic writer; the locale \<open>planned_edit\<close> says so, and what a crash or
  a caller can see of such an operation is proved once in it.
\<close>

section \<open>Paths\<close>

lemma Abs_shape:
  assumes "IsAbs w" "p \<noteq> []"
  obtains cs where "list_all plain_comp cs" "Abs w p = abs_of cs"
proof (cases "IsAbs p")
  case True
  then show thesis using that Clean_abs by (metis Abs_def)
next
  case False
  have w: "w \<noteq> []" using assms(1) by (auto simp: IsAbs_def)
  then have "Abs w p = Clean (w @ SLASH # p)" using False assms(2) by (simp add: Abs_def JoinPath_def)
  moreover have "IsAbs (w @ SLASH # p)" using assms(1) w by (cases w) (auto simp: IsAbs_def)
  ultimately show thesis using that Clean_abs by metis
qed

lemma blank_Nil [simp]: "TrimSpace [] = []"
  by (simp add: TrimSpace_def TrimP_def TrimLeftP_def TrimRightP_def)

lemma repoRelativePath_ok:
  assumes "repoRelativePath w repo f = Inr (display, rel)"
  shows "below rel" "rel = Clean f" "\<not> isProtectedLeanPath rel" "display = JoinPath [Abs w repo, rel]"
    "TrimSpace repo \<noteq> []" "TrimSpace f \<noteq> []"
proof -
  have a: "rel = Clean f" "\<not> IsAbs f" "Clean f \<noteq> ''.''" "Clean f \<noteq> ''..''" "\<not> HasPrefix (Clean f) ''../''"
    "\<not> isProtectedLeanPath rel" "display = JoinPath [Abs w repo, rel]" "TrimSpace repo \<noteq> []" "TrimSpace f \<noteq> []"
    using assms by (auto simp: repoRelativePath_def Let_def result_simps rejectProtectedLeanPath_def split: if_splits)
  then show "below rel" using Clean_below by simp
  show "rel = Clean f" "\<not> isProtectedLeanPath rel" "display = JoinPath [Abs w repo, rel]"
    "TrimSpace repo \<noteq> []" "TrimSpace f \<noteq> []" using a by simp_all
qed

text \<open>The name an operation works on inside the opened directory.\<close>

definition edit_target :: "host \<Rightarrow> string \<Rightarrow> string \<Rightarrow> string" where
  "edit_target h repoPath filePath =
     (if TrimSpace repoPath \<noteq> [] then Clean filePath else Clean (Base (Abs (h_wd h) filePath)))"

lemma openScoped_state: "openScopedFile h repo f False st = (r, st') \<Longrightarrow> st' = st"
  by (auto simp: openScopedFile_def Let_def split: if_splits sum.splits prod.splits)

lemma openScoped_target:
  assumes "openScopedFile h repo f p st = (Inr scoped, st')"
  shows "Clean (sf_name scoped) = edit_target h repo f"
proof (cases "TrimSpace repo = []")
  case True
  then show ?thesis using assms
    by (auto simp: openScopedFile_def edit_target_def cleanPath_def Let_def result_simps split: if_splits sum.splits)
next
  case False
  then obtain d rel where r: "repoRelativePath (h_wd h) repo f = Inr (d, rel)" "sf_name scoped = rel"
    using assms by (auto simp: openScopedFile_def Let_def split: if_splits sum.splits prod.splits)
  then show ?thesis using repoRelativePath_ok [OF r(1)] Clean_below_id False by (simp add: edit_target_def)
qed

section \<open>Reading\<close>

text \<open>The content a read of a name returns: links are followed.\<close>

definition content_at :: "disk \<Rightarrow> string \<Rightarrow> string option" where
  "content_at d p =
     (case follow 41 d p of
        Inl e \<Rightarrow> None
      | Inr t \<Rightarrow> (case root_node d t of Some (File i) \<Rightarrow> map_option content (inodes d i) | _ \<Rightarrow> None))"

lemma content_at_file: "see d p = AFile c m \<Longrightarrow> p \<noteq> ''.'' \<Longrightarrow> content_at d p = Some c"
proof -
  assume a: "see d p = AFile c m" "p \<noteq> ''.''"
  then obtain i x where n: "names d p = Some (File i)" "inodes d i = Some x" "content x = c"
    by (auto simp: see_def split: option.splits node.splits)
  then have "follow 41 d p = Inr p" by (simp add: eval_nat_numeral)
  then show ?thesis using n a(2)
    by (auto simp: content_at_def root_node_def)
qed

lemma os_open_ok:
  "os_open p st = (Inr fd, st') \<Longrightarrow>
   \<not> IsAbs p \<and> (\<exists>t. follow 41 (dsk st) p = Inr t \<and> root_node (dsk st) t = Some (File fd)) \<and> dsk st' = dsk st"
  using os_open_same [of p st "Inr fd" st']
  by (auto simp: os_open_def syscall_def split: option.splits if_splits sum.splits node.splits)

lemma os_read_file_quiet:
  assumes "os_read_file p st = (r, st')"
  shows "quiet st st'"
proof -
  obtain r1 s1 where a: "os_open p st = (r1, s1)" by (metis surj_pair)
  have q1: "quiet st s1" using os_open_same [OF a] by (rule quiet_commit)
  show ?thesis
  proof (cases r1)
    case (Inl e)
    then show ?thesis using assms a q1 by (simp add: os_read_file_def)
  next
    case (Inr fd)
    let ?n = "length (case inodes (dsk s1) fd of None \<Rightarrow> [] | Some x \<Rightarrow> content x)"
    obtain r2 s2 where b: "os_read fd ?n s1 = (r2, s2)" by (metis surj_pair)
    obtain r3 s3 where c: "os_close fd s2 = (r3, s3)" by (metis surj_pair)
    have "st' = s3" using assms a b c Inr by (simp add: os_read_file_def)
    moreover have "quiet s1 s2" "quiet s2 s3"
      using os_read_same [OF b] os_close_same [OF c] by (auto intro: quiet_commit)
    ultimately show ?thesis using q1 quiet_trans by blast
  qed
qed

lemma os_read_file_content:
  assumes "os_read_file p st = (Inr data, st')"
  shows "content_at (dsk st) p = Some data"
proof -
  obtain r1 s1 where a: "os_open p st = (r1, s1)" by (metis surj_pair)
  then obtain fd where fd: "r1 = Inr fd" using assms by (cases r1) (auto simp: os_read_file_def)
  obtain t where t: "follow 41 (dsk st) p = Inr t" "root_node (dsk st) t = Some (File fd)" "dsk s1 = dsk st"
    using os_open_ok a fd by blast
  have "fst (os_read fd (length (case inodes (dsk s1) fd of None \<Rightarrow> [] | Some x \<Rightarrow> content x)) s1) = Inr data"
    using assms a fd by (simp add: os_read_file_def split: prod.splits)
  then obtain x where "inodes (dsk s1) fd = Some x" "data = content x"
    by (auto simp: os_read_def syscall_def split: option.splits)
  then show ?thesis using t by (simp add: content_at_def)
qed

lemma ReadFile_facts:
  assumes "ReadFile p st = (r, st')"
  shows "quiet st st'" "r = Inr data \<Longrightarrow> cleanRelative p False = Inr (Clean p) \<and> content_at (dsk st) (Clean p) = Some data"
proof -
  show "quiet st st'"
    using assms by (auto simp: ReadFile_def confined_def dest: os_read_file_quiet split: sum.splits prod.splits)
  assume r: "r = Inr data"
  then obtain c where c: "cleanRelative p False = Inr c" using assms by (auto simp: ReadFile_def confined_def split: sum.splits)
  then have "c = Clean p" by (auto simp: cleanRelative_def Let_def split: if_splits)
  moreover have "os_read_file c st = (Inr data, st')"
    using assms r c by (auto simp: ReadFile_def confined_def split: sum.splits prod.splits)
  ultimately show "cleanRelative p False = Inr (Clean p) \<and> content_at (dsk st) (Clean p) = Some data"
    using os_read_file_content c by blast
qed

section \<open>Planned edits\<close>

lemma store_facts:
  assumes "store scoped data perm noises res st = (r, st')" "disk_ok (next_ino st) (dsk st)"
    "cleanRelative (sf_name scoped) False = Inr T" "T \<notin> temps_plain (perm, noises) T"
  shows "\<exists>m. write_view (temps_plain (perm, noises) T) T data m (dsk st) (dsk st') \<and>
    logged (write_view (temps_plain (perm, noises) T) T data m (dsk st)) st st' \<and> disk_ok (next_ino st') (dsk st') \<and>
    (\<forall>x. r = Inr x \<longrightarrow> x = res \<and> see (dsk st') T = AFile data m)"
proof -
  obtain w where w: "WriteFileAtomic (sf_name scoped) data perm noises st = (w, st')"
    using assms(1) by (auto simp: store_def split: prod.splits sum.splits)
  have r: "r = (case w of Inl e \<Rightarrow> Inl (FsFailed e) | Inr _ \<Rightarrow> Inr res)"
    using assms(1) w by (auto simp: store_def split: prod.splits sum.splits)
  obtain m where "disk_ok (next_ino st') (dsk st')"
    "write_view (temps_plain (perm, noises) T) T data m (dsk st) (dsk st')"
    "logged (write_view (temps_plain (perm, noises) T) T data m (dsk st)) st st'"
    "isOk w \<longrightarrow> see (dsk st') T = AFile data m"
    using write_plain_atomic [OF w assms(2-4)] by blast
  then show ?thesis unfolding r by (intro exI [of _ m]) (simp split: sum.split)
qed

text \<open>What an operation promises that reads, plans and stores: \<open>plan\<close> gives the next content, if there is one.\<close>

locale planned_edit =
  fixes run :: "string option list \<Rightarrow> os \<Rightarrow> (edit_error + ReplaceResult) \<times> os"
    and T :: string
    and plan :: "string \<Rightarrow> string option"
  assumes steps: "run noises st = (r, st') \<Longrightarrow>
    (quiet st st' \<and> (\<forall>res. r = Inr res \<longrightarrow> \<not> re_Changed res)) \<or>
    (\<exists>scoped data nxt res s1. quiet st s1 \<and> cleanRelative (sf_name scoped) False = Inr T \<and>
       content_at (dsk st) T = Some data \<and> plan data = Some nxt \<and> re_Changed res \<and>
       store scoped nxt 0x180 noises res s1 = (r, st'))"

text \<open>What a disk may show while such an operation runs.\<close>

definition planned_view :: "(string \<Rightarrow> string option) \<Rightarrow> string set \<Rightarrow> string \<Rightarrow> disk \<Rightarrow> disk \<Rightarrow> bool" where
  "planned_view plan tmps T d0 d \<longleftrightarrow> (\<forall>p. p \<notin> tmps \<longrightarrow>
     see d p = see d0 p \<or> (p \<noteq> T \<and> see d0 p = Absent \<and> see d p = ADirectory) \<or>
     (p = T \<and> (\<exists>data nxt m. content_at d0 T = Some data \<and> plan data = Some nxt \<and> see d T = AFile nxt m)))"

lemma planned_view_refl [simp]: "planned_view plan tmps T d d"
  by (simp add: planned_view_def)

lemma write_view_planned:
  "write_view tmps T nxt m d0 d \<Longrightarrow> content_at d0 T = Some data \<Longrightarrow> plan data = Some nxt \<Longrightarrow> planned_view plan tmps T d0 d"
  unfolding write_view_def planned_view_def by blast

context planned_edit
begin

lemma edit_atomic:
  assumes "run noises st = (r, st')" "disk_ok (next_ino st) (dsk st)" "T \<notin> temps_plain (0x180, noises) T"
  shows "logged (planned_view plan (temps_plain (0x180, noises) T) T (dsk st)) st st' \<and>
    planned_view plan (temps_plain (0x180, noises) T) T (dsk st) (dsk st') \<and> disk_ok (next_ino st') (dsk st') \<and>
    (\<forall>res. r = Inr res \<longrightarrow>
       (if re_Changed res
        then \<exists>data nxt m. content_at (dsk st) T = Some data \<and> plan data = Some nxt \<and> see (dsk st') T = AFile nxt m
        else dsk st' = dsk st))"
  using steps [OF assms(1)]
proof (elim disjE exE conjE)
  assume q: "quiet st st'" "\<forall>res. r = Inr res \<longrightarrow> \<not> re_Changed res"
  then have "dsk st' = dsk st" "disk_ok (next_ino st') (dsk st')"
    using quiet_ok [OF q(1) assms(2)] by (simp_all add: quiet_def)
  with q show ?thesis by (auto intro: logged_quiet)
next
  fix scoped data nxt res s1
  assume a: "quiet st s1" "cleanRelative (sf_name scoped) False = Inr T" "content_at (dsk st) T = Some data"
    "plan data = Some nxt" "re_Changed res" "store scoped nxt 0x180 noises res s1 = (r, st')"
  have s1: "dsk s1 = dsk st" "disk_ok (next_ino s1) (dsk s1)" using a(1) assms(2) quiet_ok by (auto simp: quiet_def)
  obtain m where m: "write_view (temps_plain (0x180, noises) T) T nxt m (dsk st) (dsk st')"
    "logged (write_view (temps_plain (0x180, noises) T) T nxt m (dsk st)) s1 st'" "disk_ok (next_ino st') (dsk st')"
    "\<forall>x. r = Inr x \<longrightarrow> x = res \<and> see (dsk st') T = AFile nxt m"
    using store_facts [OF a(6) s1(2) a(2) assms(3)] s1(1) by auto
  have "logged (planned_view plan (temps_plain (0x180, noises) T) T (dsk st)) s1 st'"
    using m(2) by (rule logged_mono) (erule write_view_planned [where data = data], use a(3,4) in simp_all)
  moreover have "logged (planned_view plan (temps_plain (0x180, noises) T) T (dsk st)) st s1"
    by (rule logged_quiet [OF a(1)]) simp
  ultimately show ?thesis
    using m a(3-5) write_view_planned [where data = data, OF m(1)] by (auto intro: logged_trans)
qed

end

section \<open>Replace, append and delete are planned edits\<close>

text \<open>The next content each of them plans for the content it reads.\<close>

definition replace_next :: "(string \<Rightarrow> string) \<Rightarrow> ReplaceRequest \<Rightarrow> string \<Rightarrow> string option" where
  "replace_next sha req data =
     (case (resolveExpectedHash (rp_ExpectedHash req) (rp_ExpectedHashChunks req), resolveText req) of
        (Inr expectedHash, Inr (oldText, newText)) \<Rightarrow>
          if oldText = [] then None
          else (case plan_replace sha [] expectedHash oldText newText data of Inl _ \<Rightarrow> None | Inr nxt \<Rightarrow> Some nxt)
      | _ \<Rightarrow> None)"

definition append_next :: "(string \<Rightarrow> string) \<Rightarrow> AppendUniqueRequest \<Rightarrow> string \<Rightarrow> string option" where
  "append_next sha req data =
     (case resolveContent (au_Content req) (au_ContentB64 req) of
        Inl _ \<Rightarrow> None
      | Inr body \<Rightarrow>
          if body = [] then None
          else (case plan_append sha [] (au_ExpectedHash req) (au_Separator req) body data of
                  Inl _ \<Rightarrow> None | Inr nxt \<Rightarrow> Some nxt))"

definition delete_next :: "(string \<Rightarrow> string) \<Rightarrow> DeleteExactBlockRequest \<Rightarrow> string \<Rightarrow> string option" where
  "delete_next sha req data =
     (case resolveContent (db_Block req) (db_BlockB64 req) of
        Inl _ \<Rightarrow> None
      | Inr block \<Rightarrow>
          if block = [] then None
          else (case plan_delete sha [] (db_ExpectedHash req) block data of Inl _ \<Rightarrow> None | Inr nxt \<Rightarrow> Some nxt))"

lemmas result_defs = conflict_def untouched_def changed_def already_present_def

lemma changed_Changed: "re_Changed (changed p a b)"
  by (simp add: changed_def)

text \<open>The path in a result does not influence the plan.\<close>

lemma plan_paths:
  "plan_replace sha p eh old new data = Inr nxt \<longleftrightarrow> plan_replace sha q eh old new data = Inr nxt"
  "plan_append sha p eh sep body data = Inr nxt \<longleftrightarrow> plan_append sha q eh sep body data = Inr nxt"
  "plan_delete sha p eh block data = Inr nxt \<longleftrightarrow> plan_delete sha q eh block data = Inr nxt"
  by (auto simp: plan_replace_def plan_append_def plan_delete_def Let_def split: if_splits option.splits)

lemma plan_unchanged:
  "plan_replace sha p eh old new data = Inl res \<Longrightarrow> \<not> re_Changed res"
  "plan_append sha p eh sep body data = Inl res \<Longrightarrow> \<not> re_Changed res"
  "plan_delete sha p eh block data = Inl res \<Longrightarrow> \<not> re_Changed res"
  by (auto simp: plan_replace_def plan_append_def plan_delete_def result_defs Let_def split: if_splits option.splits)

text \<open>The common end of the three: read, plan, store.\<close>

lemma read_plan_store:
  assumes open_: "openScopedFile h repo f False st = (Inr scoped, st1)"
    and read: "ReadFile (sf_name scoped) st1 = (rd, st2)"
    and missing: "\<And>e. rd = Inl e \<Longrightarrow> st' = st2 \<and> (\<forall>res. r = Inr res \<longrightarrow> \<not> re_Changed res)"
    and unchanged: "\<And>data res. rd = Inr data \<Longrightarrow> plan data = Inl res \<Longrightarrow> (r, st') = (Inr res, st2) \<and> \<not> re_Changed res"
    and changes: "\<And>data nxt. rd = Inr data \<Longrightarrow> plan data = Inr nxt \<Longrightarrow>
       next' data = Some nxt \<and> (\<exists>res. re_Changed res \<and> store scoped nxt 0x180 noises res st2 = (r, st'))"
  shows "(quiet st st' \<and> (\<forall>res. r = Inr res \<longrightarrow> \<not> re_Changed res)) \<or>
    (\<exists>scoped data nxt res s1. quiet st s1 \<and> cleanRelative (sf_name scoped) False = Inr (edit_target h repo f) \<and>
       content_at (dsk st) (edit_target h repo f) = Some data \<and> next' data = Some nxt \<and> re_Changed res \<and>
       store scoped nxt 0x180 noises res s1 = (r, st'))"
proof -
  have st1: "st1 = st" using openScoped_state [OF open_] .
  note q = ReadFile_facts(1) [OF read [unfolded st1]]
  show ?thesis
  proof (cases rd)
    case (Inl e)
    then show ?thesis using missing q by blast
  next
    case (Inr data)
    note c = ReadFile_facts(2) [OF read [unfolded st1] Inr, unfolded openScoped_target [OF open_]]
    show ?thesis
    proof (cases "plan data")
      case p: (Inl res)
      then show ?thesis using unchanged [OF Inr] q by blast
    next
      case p: (Inr nxt)
      show ?thesis using changes [OF Inr p] q c by blast
    qed
  qed
qed


interpretation replacing: planned_edit
  "\<lambda>noises. ApplyGuardedReplace sha h noises req" "edit_target h (rp_RepoPath req) (rp_Path req)" "replace_next sha req"
  for sha h req
proof
  fix noises st r st'
  assume run: "ApplyGuardedReplace sha h noises req st = (r, st')"
  let ?goal = "(quiet st st' \<and> (\<forall>res. r = Inr res \<longrightarrow> \<not> re_Changed res)) \<or>
    (\<exists>scoped data nxt res s1. quiet st s1 \<and>
       cleanRelative (sf_name scoped) False = Inr (edit_target h (rp_RepoPath req) (rp_Path req)) \<and>
       content_at (dsk st) (edit_target h (rp_RepoPath req) (rp_Path req)) = Some data \<and>
       replace_next sha req data = Some nxt \<and> re_Changed res \<and> store scoped nxt 0x180 noises res s1 = (r, st'))"
  obtain o1 st1 where op: "openScopedFile h (rp_RepoPath req) (rp_Path req) False st = (o1, st1)" by (metis surj_pair)
  have st1: "st1 = st" using openScoped_state [OF op] .
  show ?goal
  proof (cases "\<exists>scoped expectedHash oldText newText. TrimSpace (rp_Path req) \<noteq> [] \<and> o1 = Inr scoped \<and>
      resolveExpectedHash (rp_ExpectedHash req) (rp_ExpectedHashChunks req) = Inr expectedHash \<and> expectedHash \<noteq> [] \<and>
      resolveText req = Inr (oldText, newText) \<and> oldText \<noteq> []")
    case False
    then have "\<not> isOk r \<and> st' = st"
      using run op st1 by (auto simp: ApplyGuardedReplace_def split: if_splits sum.splits)
    then show ?thesis by (cases r) auto
  next
    case True
    then obtain scoped expectedHash oldText newText where
      g: "TrimSpace (rp_Path req) \<noteq> []" "o1 = Inr scoped"
        "resolveExpectedHash (rp_ExpectedHash req) (rp_ExpectedHashChunks req) = Inr expectedHash" "expectedHash \<noteq> []"
        "resolveText req = Inr (oldText, newText)" "oldText \<noteq> []" by blast
    obtain rd st2 where rd: "ReadFile (sf_name scoped) st1 = (rd, st2)" by (metis surj_pair)
    have run': "(case rd of Inl e \<Rightarrow> (Inl (FsFailed e), st2)
      | Inr data \<Rightarrow> (case plan_replace sha (sf_display scoped) expectedHash oldText newText data of
             Inl result \<Rightarrow> (Inr result, st2)
           | Inr nxt \<Rightarrow> store scoped nxt 0x180 noises (changed (sf_display scoped) (sha data) (sha nxt)) st2)) = (r, st')"
      using run op g rd by (simp add: ApplyGuardedReplace_def)
    show ?thesis
    proof (rule read_plan_store [OF op [unfolded g(2)] rd,
          where plan = "plan_replace sha (sf_display scoped) expectedHash oldText newText"])
      fix data nxt assume "rd = Inr data" and p: "plan_replace sha (sf_display scoped) expectedHash oldText newText data = Inr nxt"
      then have "store scoped nxt 0x180 noises (changed (sf_display scoped) (sha data) (sha nxt)) st2 = (r, st')"
        using run' by simp
      moreover have "replace_next sha req data = Some nxt"
        using g p plan_paths(1) [of sha "sf_display scoped" _ _ _ data nxt "[]"] by (simp add: replace_next_def)
      ultimately show "replace_next sha req data = Some nxt \<and>
          (\<exists>res. re_Changed res \<and> store scoped nxt 0x180 noises res st2 = (r, st'))"
        using changed_Changed by blast
    qed (use run' plan_unchanged(1) in auto)
  qed
qed

interpretation appending: planned_edit
  "\<lambda>noises. AppendUnique sha h noises req" "edit_target h (au_RepoPath req) (au_Path req)" "append_next sha req"
  for sha h req
proof
  fix noises st r st'
  assume run: "AppendUnique sha h noises req st = (r, st')"
  let ?goal = "(quiet st st' \<and> (\<forall>res. r = Inr res \<longrightarrow> \<not> re_Changed res)) \<or>
    (\<exists>scoped data nxt res s1. quiet st s1 \<and>
       cleanRelative (sf_name scoped) False = Inr (edit_target h (au_RepoPath req) (au_Path req)) \<and>
       content_at (dsk st) (edit_target h (au_RepoPath req) (au_Path req)) = Some data \<and>
       append_next sha req data = Some nxt \<and> re_Changed res \<and> store scoped nxt 0x180 noises res s1 = (r, st'))"
  obtain o1 st1 where op: "openScopedFile h (au_RepoPath req) (au_Path req) False st = (o1, st1)" by (metis surj_pair)
  have st1: "st1 = st" using openScoped_state [OF op] .
  show ?goal
  proof (cases "\<exists>scoped body. TrimSpace (au_Path req) \<noteq> [] \<and> o1 = Inr scoped \<and> au_ExpectedHash req \<noteq> [] \<and>
      resolveContent (au_Content req) (au_ContentB64 req) = Inr body \<and> body \<noteq> []")
    case False
    then have "\<not> isOk r \<and> st' = st"
      using run op st1 by (auto simp: AppendUnique_def split: if_splits sum.splits)
    then show ?thesis by (cases r) auto
  next
    case True
    then obtain scoped body where
      g: "TrimSpace (au_Path req) \<noteq> []" "o1 = Inr scoped" "au_ExpectedHash req \<noteq> []"
        "resolveContent (au_Content req) (au_ContentB64 req) = Inr body" "body \<noteq> []" by blast
    obtain rd st2 where rd: "ReadFile (sf_name scoped) st1 = (rd, st2)" by (metis surj_pair)
    have run': "(case rd of Inl e \<Rightarrow>
          if missing_error e then (Inr (conflict (sf_display scoped) [] FileMissing), st2) else (Inl (FsFailed e), st2)
      | Inr data \<Rightarrow> (case plan_append sha (sf_display scoped) (au_ExpectedHash req) (au_Separator req) body data of
             Inl result \<Rightarrow> (Inr result, st2)
           | Inr nxt \<Rightarrow> store scoped nxt 0x180 noises (changed (sf_display scoped) (sha data) (sha nxt)) st2)) = (r, st')"
      using run op g rd by (simp add: AppendUnique_def)
    show ?thesis
    proof (rule read_plan_store [OF op [unfolded g(2)] rd,
          where plan = "plan_append sha (sf_display scoped) (au_ExpectedHash req) (au_Separator req) body"])
      fix data nxt assume "rd = Inr data"
        and p: "plan_append sha (sf_display scoped) (au_ExpectedHash req) (au_Separator req) body data = Inr nxt"
      then have "store scoped nxt 0x180 noises (changed (sf_display scoped) (sha data) (sha nxt)) st2 = (r, st')"
        using run' by simp
      moreover have "append_next sha req data = Some nxt"
        using g p plan_paths(2) [of sha "sf_display scoped" _ _ _ data nxt "[]"] by (simp add: append_next_def)
      ultimately show "append_next sha req data = Some nxt \<and>
          (\<exists>res. re_Changed res \<and> store scoped nxt 0x180 noises res st2 = (r, st'))"
        using changed_Changed by blast
    qed (use run' plan_unchanged(2) in \<open>auto simp: conflict_def split: if_splits\<close>)
  qed
qed

interpretation deleting: planned_edit
  "\<lambda>noises. DeleteExactBlock sha h noises req" "edit_target h (db_RepoPath req) (db_Path req)" "delete_next sha req"
  for sha h req
proof
  fix noises st r st'
  assume run: "DeleteExactBlock sha h noises req st = (r, st')"
  let ?goal = "(quiet st st' \<and> (\<forall>res. r = Inr res \<longrightarrow> \<not> re_Changed res)) \<or>
    (\<exists>scoped data nxt res s1. quiet st s1 \<and>
       cleanRelative (sf_name scoped) False = Inr (edit_target h (db_RepoPath req) (db_Path req)) \<and>
       content_at (dsk st) (edit_target h (db_RepoPath req) (db_Path req)) = Some data \<and>
       delete_next sha req data = Some nxt \<and> re_Changed res \<and> store scoped nxt 0x180 noises res s1 = (r, st'))"
  obtain o1 st1 where op: "openScopedFile h (db_RepoPath req) (db_Path req) False st = (o1, st1)" by (metis surj_pair)
  have st1: "st1 = st" using openScoped_state [OF op] .
  show ?goal
  proof (cases "\<exists>scoped block. TrimSpace (db_Path req) \<noteq> [] \<and> o1 = Inr scoped \<and> db_ExpectedHash req \<noteq> [] \<and>
      resolveContent (db_Block req) (db_BlockB64 req) = Inr block \<and> block \<noteq> []")
    case False
    then have "\<not> isOk r \<and> st' = st"
      using run op st1 by (auto simp: DeleteExactBlock_def split: if_splits sum.splits)
    then show ?thesis by (cases r) auto
  next
    case True
    then obtain scoped block where
      g: "TrimSpace (db_Path req) \<noteq> []" "o1 = Inr scoped" "db_ExpectedHash req \<noteq> []"
        "resolveContent (db_Block req) (db_BlockB64 req) = Inr block" "block \<noteq> []" by blast
    obtain rd st2 where rd: "ReadFile (sf_name scoped) st1 = (rd, st2)" by (metis surj_pair)
    have run': "(case rd of Inl e \<Rightarrow>
          if missing_error e then (Inr (conflict (sf_display scoped) [] FileMissing), st2) else (Inl (FsFailed e), st2)
      | Inr data \<Rightarrow> (case plan_delete sha (sf_display scoped) (db_ExpectedHash req) block data of
             Inl result \<Rightarrow> (Inr result, st2)
           | Inr nxt \<Rightarrow> store scoped nxt 0x180 noises (changed (sf_display scoped) (sha data) (sha nxt)) st2)) = (r, st')"
      using run op g rd by (simp add: DeleteExactBlock_def)
    show ?thesis
    proof (rule read_plan_store [OF op [unfolded g(2)] rd,
          where plan = "plan_delete sha (sf_display scoped) (db_ExpectedHash req) block"])
      fix data nxt assume "rd = Inr data"
        and p: "plan_delete sha (sf_display scoped) (db_ExpectedHash req) block data = Inr nxt"
      then have "store scoped nxt 0x180 noises (changed (sf_display scoped) (sha data) (sha nxt)) st2 = (r, st')"
        using run' by simp
      moreover have "delete_next sha req data = Some nxt"
        using g p plan_paths(3) [of sha "sf_display scoped" _ _ data nxt "[]"] by (simp add: delete_next_def)
      ultimately show "delete_next sha req data = Some nxt \<and>
          (\<exists>res. re_Changed res \<and> store scoped nxt 0x180 noises res st2 = (r, st'))"
        using changed_Changed by blast
    qed (use run' plan_unchanged(3) in \<open>auto simp: conflict_def split: if_splits\<close>)
  qed
qed


section \<open>What the plans are\<close>

lemma Replace1_split:
  assumes "Index doc old = Some i"
  shows "doc = take i doc @ old @ drop (i + length old) doc"
    "Replace1 doc old new = take i doc @ new @ drop (i + length old) doc"
  using Index_split [OF assms] by (simp_all add: Replace1_def assms)

lemma ReplaceUniqueSpan_changed:
  assumes "sp_Status (ReplaceUniqueSpan doc old new) = ''ok''" "sp_Changed (ReplaceUniqueSpan doc old new)" "old \<noteq> []"
  shows "CountSub doc old = 1 \<and>
    (\<exists>l r. doc = l @ old @ r \<and> sp_Text (ReplaceUniqueSpan doc old new) = l @ new @ r \<and> doc \<noteq> l @ new @ r)"
proof -
  have c: "CountSub doc old = 1" "sp_Text (ReplaceUniqueSpan doc old new) = Replace1 doc old new"
      "Replace1 doc old new \<noteq> doc"
    using assms by (auto simp: ReplaceUniqueSpan_def Count_def Let_def split: if_splits)
  then have "Contains doc old" using CountSub_0_iff [OF assms(3), of doc] by simp
  then obtain i where i: "Index doc old = Some i" by (auto simp: Contains_def)
  show ?thesis using c Replace1_split(1) [OF i] Replace1_split(2) [OF i, of new] by metis
qed

text \<open>The text in the line endings of the file.\<close>

definition in_file_style :: "string \<Rightarrow> string \<Rightarrow> string \<Rightarrow> string" where
  "in_file_style data oldText t =
     (if fileUsesCRLF data \<and> \<not> Contains oldText CRLF then ReplaceAll t [LF] CRLF else t)"

lemma ReplaceAll_ne: "old \<noteq> [] \<Longrightarrow> new \<noteq> [] \<Longrightarrow> s \<noteq> [] \<Longrightarrow> ReplaceAll s old new \<noteq> []"
  by (cases s) (auto simp: ReplaceAll_Cons)

lemma in_file_style_ne: "t \<noteq> [] \<Longrightarrow> in_file_style data old t \<noteq> []"
  by (simp add: in_file_style_def ReplaceAll_ne)

lemma replace_next_exact:
  assumes "replace_next sha req data = Some nxt"
  shows "\<exists>old new l r. resolveExpectedHash (rp_ExpectedHash req) (rp_ExpectedHashChunks req) = Inr (sha data) \<and>
    resolveText req = Inr (old, new) \<and> CountSub data (in_file_style data old old) = 1 \<and>
    data = l @ in_file_style data old old @ r \<and> nxt = l @ in_file_style data old new @ r"
proof -
  obtain eh old new where g: "resolveExpectedHash (rp_ExpectedHash req) (rp_ExpectedHashChunks req) = Inr eh"
      "resolveText req = Inr (old, new)" "old \<noteq> []" "plan_replace sha [] eh old new data = Inr nxt"
    using assms by (auto simp: replace_next_def split: sum.splits if_splits prod.splits)
  let ?e = "ReplaceUniqueSpan data (in_file_style data old old) (in_file_style data old new)"
  have e: "sha data = eh" "sp_Status ?e = ''ok''" "sp_Changed ?e" "sp_Text ?e = nxt"
    using g(4) by (auto simp: plan_replace_def in_file_style_def Let_def split: if_splits)
  show ?thesis
    using ReplaceUniqueSpan_changed [OF e(2,3) in_file_style_ne [OF g(3)]] g e(1,4) by metis
qed

section \<open>Properties of the guarded edits\<close>

text \<open>
  Claim C30: a guarded replacement is atomic and changes only what it was allowed to.  Whichever system
  calls fail, every disk exposed while it runs shows at each name, temporary files aside, what was there
  before, or a parent directory just made, or at the target the complete planned content.  A result that
  reports a change means that the file held \<open>l\<close>, the old text, \<open>r\<close>, that its hash was the expected one and the
  old text occurred once, and that it now holds \<open>l\<close>, the new text, \<open>r\<close> (both in the file's line endings).  A
  result that reports none leaves the disk as it was.
\<close>

theorem ApplyGuardedReplace_safe:
  assumes "ApplyGuardedReplace sha h noises req st = (r, st')" "disk_ok (next_ino st) (dsk st)"
    "T = edit_target h (rp_RepoPath req) (rp_Path req)" "T \<notin> temps_plain (0x180, noises) T"
  shows "logged (planned_view (replace_next sha req) (temps_plain (0x180, noises) T) T (dsk st)) st st' \<and>
    planned_view (replace_next sha req) (temps_plain (0x180, noises) T) T (dsk st) (dsk st') \<and>
    (\<forall>res. r = Inr res \<longrightarrow>
       (if re_Changed res
        then \<exists>old new lhs rhs m data.
          content_at (dsk st) T = Some data \<and>
          resolveExpectedHash (rp_ExpectedHash req) (rp_ExpectedHashChunks req) = Inr (sha data) \<and>
          resolveText req = Inr (old, new) \<and> CountSub data (in_file_style data old old) = 1 \<and>
          data = lhs @ in_file_style data old old @ rhs \<and>
          see (dsk st') T = AFile (lhs @ in_file_style data old new @ rhs) m
        else dsk st' = dsk st))"
proof -
  note E = replacing.edit_atomic [OF assms(1,2), folded assms(3), OF assms(4)]
  have "\<exists>old new lhs rhs m data.
          content_at (dsk st) T = Some data \<and>
          resolveExpectedHash (rp_ExpectedHash req) (rp_ExpectedHashChunks req) = Inr (sha data) \<and>
          resolveText req = Inr (old, new) \<and> CountSub data (in_file_style data old old) = 1 \<and>
          data = lhs @ in_file_style data old old @ rhs \<and>
          see (dsk st') T = AFile (lhs @ in_file_style data old new @ rhs) m"
    if "r = Inr res" "re_Changed res" for res
  proof -
    note c = that
    obtain data nxt m where n: "content_at (dsk st) T = Some data" "replace_next sha req data = Some nxt"
        "see (dsk st') T = AFile nxt m"
      using conjunct2 [OF conjunct2 [OF conjunct2 [OF E]], rule_format, OF c(1)] c(2) by (auto simp: if_True)
    show ?thesis using replace_next_exact [OF n(2)] n(1,3) by blast
  qed
  then show ?thesis using E by simp
qed

definition example_host :: host where
  "example_host = \<lparr>h_wd = ''/w'', h_open = (\<lambda>d. None), h_mkdirs = (\<lambda>d n. None), h_open_in = (\<lambda>d n. None),
     h_close = (\<lambda>d. None), h_read = (\<lambda>p. Inl ErrNotExist), h_readdir = (\<lambda>d n. Inr [])\<rparr>"

definition example_digest :: "string \<Rightarrow> string" where
  "example_digest x = Itoa (int (length x) + 1000)"

definition example_replace :: ReplaceRequest where
  "example_replace = \<lparr>rp_RepoPath = ''/r'', rp_Path = ''./f'', rp_ExpectedHash = ''1003'', rp_ExpectedHashChunks = [],
     rp_Old = ''l'', rp_New = ''i'', rp_OldB64 = [], rp_NewB64 = []\<rparr>"

lemma example_edit_target: "edit_target example_host ''/r'' ''./f'' = ''f''"
  by code_simp

lemma example_plain_temps: "''f'' \<notin> temps_plain (p, [Some ''00'']) ''f''"
  by (simp add: temps_plain_def path_facts)

lemma example_opened: "openScopedFile example_host ''/r'' ''./f'' False st =
    (Inr \<lparr>sf_root = ''/r'', sf_name = ''f'', sf_display = ''/r/f'', sf_relative = ''f''\<rparr>, st)"
proof -
  have "repoRelativePath ''/w'' ''/r'' ''./f'' = Inr (''/r/f'', ''f'')" "TrimSpace ''/r'' \<noteq> []"
    "cleanRootPath ''/w'' ''/r'' = Inr ''/r''" by code_simp+
  then show ?thesis by (simp add: openScopedFile_def OpenRoot_def example_host_def)
qed

lemma example_read: "ReadFile ''f'' (machine no_faults um) = (Inr ''old'', snd (ReadFile ''f'' (machine no_faults um)))"
  "snd (ReadFile ''f'' (machine no_faults um)) = (machine no_faults um)\<lparr>clock := 3, log := replicate 3 (dsk (machine no_faults um))\<rparr>"
  by (simp_all add: ReadFile_def confined_def clean_f os_read_file_def os_open_def os_read_def os_close_def syscall_def
      faulty_def commit_def machine_def no_faults_def abs_f root_node_def eval_nat_numeral)


lemma example_store:
  "\<exists>st'. store \<lparr>sf_root = ''/r'', sf_name = ''f'', sf_display = ''/r/f'', sf_relative = ''f''\<rparr> doc p [Some ''00''] res
     (snd (ReadFile ''f'' (machine no_faults 0x12))) = (Inr res, st')"
proof -
  obtain w st' where w: "WriteFileAtomic ''f'' doc p [Some ''00''] (snd (ReadFile ''f'' (machine no_faults 0x12))) = (w, st')"
    by (metis surj_pair)
  then have "w = Inr ()"
    unfolding example_read(2)
    by (auto simp: Let_def run_defs eval_nat_numeral clean_f abs_f path_facts machine_def no_faults_def)
  then show ?thesis using w by (simp add: store_def)
qed

lemma example_content: "content_at (dsk (machine fs um)) ''f'' = Some ''old''"
  by (rule content_at_file [where m = "0x1B6"]) (simp_all add: machine_def see_def)

lemma example_replace_run:
  "\<exists>res st'. ApplyGuardedReplace example_digest example_host [Some ''00''] example_replace (machine no_faults 0x12) = (Inr res, st') \<and>
     re_Changed res"
proof -
  have f: "resolveExpectedHash ''1003'' [] = Inr ''1003''" "resolveText example_replace = Inr (''l'', ''i'')" "TrimSpace ''./f'' \<noteq> []"
    "plan_replace example_digest ''/r/f'' ''1003'' ''l'' ''i'' ''old'' = Inr ''oid''" by code_simp+
  define s2 where "s2 = snd (ReadFile ''f'' (machine no_faults 0x12))"
  have rd: "ReadFile ''f'' (machine no_faults 0x12) = (Inr ''old'', s2)"
    using example_read(1) [of "0x12"] by (simp add: s2_def)
  obtain st' where "store \<lparr>sf_root = ''/r'', sf_name = ''f'', sf_display = ''/r/f'', sf_relative = ''f''\<rparr> ''oid'' 0x180 [Some ''00'']
     (changed ''/r/f'' (example_digest ''old'') (example_digest ''oid'')) s2 =
     (Inr (changed ''/r/f'' (example_digest ''old'') (example_digest ''oid'')), st')"
    using example_store unfolding s2_def by blast
  then show ?thesis
    using f example_opened [of "machine no_faults 0x12"]
    by (simp add: ApplyGuardedReplace_def example_replace_def changed_Changed rd)
qed

theorem ApplyGuardedReplace_safe_witness:
  "\<exists>st' lhs rhs m. ''old'' = lhs @ ''l'' @ rhs \<and> see (dsk st') ''f'' = AFile (lhs @ ''i'' @ rhs) m \<and>
     logged (planned_view (replace_next example_digest example_replace) (temps_plain (0x180, [Some ''00'']) ''f'') ''f''
       (dsk (machine no_faults 0x12))) (machine no_faults 0x12) st'"
proof -
  obtain res st' where r: "ApplyGuardedReplace example_digest example_host [Some ''00''] example_replace (machine no_faults 0x12) =
      (Inr res, st')" "re_Changed res" using example_replace_run by blast
  have f: "''f'' = edit_target example_host (rp_RepoPath example_replace) (rp_Path example_replace)"
    "resolveText example_replace = Inr (''l'', ''i'')" "\<And>t. in_file_style ''old'' ''l'' t = t"
    by (code_simp, code_simp) (simp add: in_file_style_def fileUsesCRLF_def Contains_def)
  from ApplyGuardedReplace_safe [OF r(1) machine_ok f(1) example_plain_temps]
  show ?thesis using r(2) f(2) by (auto simp: example_content f(3))
qed


text \<open>
  The two edit layers make the same decision about text.  For an old text that is not empty and
  texts without carriage returns, \<open>ReplaceUniqueSpan\<close> of \<open>fileops\<close> succeeds exactly when
  \<open>applyUniqueReplacement\<close> of \<open>filesystem\<close> does, and returns the same text.
\<close>

theorem ReplaceUniqueSpan_agrees:
  assumes "old \<noteq> []" "CR \<notin> set old" "CR \<notin> set new"
  shows "case applyUniqueReplacement doc old new of
      Inr out \<Rightarrow> sp_Status (ReplaceUniqueSpan doc old new) = ''ok'' \<and> sp_Text (ReplaceUniqueSpan doc old new) = out \<and>
        sp_Changed (ReplaceUniqueSpan doc old new) = (out \<noteq> doc)
    | Inl e \<Rightarrow> sp_Status (ReplaceUniqueSpan doc old new) = ''conflict'' \<and> sp_Text (ReplaceUniqueSpan doc old new) = [] \<and>
        \<not> sp_Changed (ReplaceUniqueSpan doc old new)"
proof -
  have n: "normalizeLF old = old" "normalizeLF new = new" using assms(2,3) by (simp_all add: normalizeLF_no_CRLF)
  note z = CountSub_0_iff [OF assms(1), of doc]
  consider "CountSub doc old = 1" | "CountSub doc old = 0" "Contains doc new" | "CountSub doc old = 0" "\<not> Contains doc new"
    | "CountSub doc old \<ge> 2" by linarith
  then show ?thesis
    by cases (use assms(1) z in \<open>auto simp: applyUniqueReplacement_def ReplaceUniqueSpan_def n Count_def Let_def\<close>)
qed

theorem ReplaceUniqueSpan_agrees_witness:
  "sp_Text (ReplaceUniqueSpan ''one two'' ''two'' ''2'') = ''one 2''"
proof -
  have "applyUniqueReplacement ''one two'' ''two'' ''2'' = Inr ''one 2''" by code_simp
  then show ?thesis using ReplaceUniqueSpan_agrees [of "''two''" "''2''" "''one two''"] by simp
qed

text \<open>The hint of a failed replacement is an excerpt of the text around the longest prefix of the old text.\<close>

lemma common_len_take: "common_len s t \<le> length s \<and> take (common_len s t) s = take (common_len s t) t"
  by (induction s t rule: common_len.induct) auto

lemma best_loop_spec:
  "best_loop i s old best pos = (b, p) \<Longrightarrow>
   (\<forall>k < length s. common_len (drop k s) old \<le> b) \<and> best \<le> b \<and>
   ((b = best \<and> p = pos) \<or> (\<exists>k < length s. p = i + k \<and> b = common_len (drop k s) old))"
proof (induction i s old best pos rule: best_loop.induct)
  case (1 i old best pos)
  then show ?case by simp
next
  case (2 i c s old best pos)
  let ?j = "common_len (c # s) old"
  have all: "(\<forall>k < length (c # s). common_len (drop k (c # s)) old \<le> b) \<longleftrightarrow>
      ?j \<le> b \<and> (\<forall>k < length s. common_len (drop k s) old \<le> b)"
    by (auto simp: less_Suc_eq_0_disj all_simps)
  have ex: "\<exists>k < length (c # s). p = i + k \<and> b = common_len (drop k (c # s)) old"
    if "\<exists>k < length s. p = i + 1 + k \<and> b = common_len (drop k s) old"
  proof -
    from that obtain k where "k < length s" "p = i + 1 + k" "b = common_len (drop k s) old" by blast
    then show ?thesis by (intro exI [of _ "Suc k"]) simp
  qed
  have here: "\<exists>k < length (c # s). p = i + k \<and> b = common_len (drop k (c # s)) old" if "b = ?j \<and> p = i"
    using that by (intro exI [of _ 0]) simp
  show ?case
  proof (cases "?j > best")
    case True
    then have "best_loop (i + 1) s old ?j i = (b, p)" using "2.prems" by (simp add: Let_def)
    note I = "2.IH"(1) [OF refl True this]
    have "?j \<le> b" "best \<le> b" using I True by linarith+
    then show ?thesis unfolding all using I ex here by blast
  next
    case False
    then have "best_loop (i + 1) s old best pos = (b, p)" using "2.prems" by (simp add: Let_def)
    note I = "2.IH"(2) [OF refl False this]
    have "?j \<le> b" using I False by linarith
    then show ?thesis unfolding all using I ex by blast
  qed
qed

lemma findBestPartialMatch_excerpt:
  assumes "best_loop 0 doc old 0 0 = (b, p)"
  shows "Contains doc (findBestPartialMatch doc old) \<and> Contains (findBestPartialMatch doc old) (take b old) \<and>
    (\<forall>k < length doc. common_len (drop k doc) old \<le> b)"
proof (cases "b = 0")
  case True
  then show ?thesis using assms best_loop_spec [OF assms] by (simp add: findBestPartialMatch_def)
next
  case False
  then have p: "p < length doc" "b = common_len (drop p doc) old" using best_loop_spec [OF assms] by auto
  define lo hi where "lo = (if p > 20 then p - 20 else p)" and "hi = min (p + b + 40) (length doc)"
  have f: "findBestPartialMatch doc old = take (hi - lo) (drop lo doc)"
    using assms False by (simp add: findBestPartialMatch_def lo_def hi_def Let_def)
  have le: "lo \<le> p" "p + b \<le> hi" "hi \<le> length doc"
    using common_len_take [of "drop p doc" old] p by (auto simp: lo_def hi_def)
  have "doc = take lo doc @ take (hi - lo) (drop lo doc) @ drop hi doc"
    using le by (metis append_take_drop_id drop_drop le_add_diff_inverse2 le_trans le_add1)
  moreover have "take (hi - lo) (drop lo doc) =
      take (p - lo) (drop lo doc) @ take b (drop p doc) @ take (hi - (p + b)) (drop (p + b) doc)"
  proof -
    have e: "hi - lo = (p - lo) + (b + (hi - (p + b)))" "p - lo + lo = p" "b + p = p + b" using le by simp_all
    show ?thesis unfolding e(1) take_add drop_drop e(2,3) by simp
  qed
  moreover have "take b (drop p doc) = take b old" using common_len_take [of "drop p doc" old] p(2) by simp
  ultimately show ?thesis using f best_loop_spec [OF assms] by (metis Contains_iff)
qed


section \<open>Appending and deleting\<close>

lemma append_next_exact:
  assumes "append_next sha req data = Some nxt"
  shows "\<exists>body sep. resolveContent (au_Content req) (au_ContentB64 req) = Inr body \<and> body \<noteq> [] \<and>
    sha data = au_ExpectedHash req \<and> \<not> Contains data body \<and> nxt = data @ sep @ body \<and>
    sep \<in> {[], if au_Separator req = [] then [LF] else au_Separator req}"
  using assms by (auto simp: append_next_def plan_append_def Let_def split: sum.splits if_splits)

lemma AppendUnique_ok:
  assumes "AppendUnique sha h noises req st = (Inr res, st')" "re_Status res = ''ok''"
  shows "re_Changed res \<or> (\<exists>body data. resolveContent (au_Content req) (au_ContentB64 req) = Inr body \<and>
    content_at (dsk st) (edit_target h (au_RepoPath req) (au_Path req)) = Some data \<and> Contains data body \<and> dsk st' = dsk st)"
proof -
  obtain scoped st1 where op: "openScopedFile h (au_RepoPath req) (au_Path req) False st = (Inr scoped, st1)"
    using assms by (auto simp: AppendUnique_def split: if_splits sum.splits prod.splits)
  then have st1: "st1 = st" by (rule openScoped_state)
  obtain body where b: "resolveContent (au_Content req) (au_ContentB64 req) = Inr body" "body \<noteq> []"
    using assms op by (auto simp: AppendUnique_def split: if_splits sum.splits prod.splits)
  obtain rd st2 where rd: "ReadFile (sf_name scoped) st = (rd, st2)" by (metis surj_pair)
  have run: "(case rd of Inl e \<Rightarrow>
          if missing_error e then (Inr (conflict (sf_display scoped) [] FileMissing), st2) else (Inl (FsFailed e), st2)
      | Inr data \<Rightarrow> (case plan_append sha (sf_display scoped) (au_ExpectedHash req) (au_Separator req) body data of
             Inl result \<Rightarrow> (Inr result, st2)
           | Inr nxt \<Rightarrow> store scoped nxt 0x180 noises (changed (sf_display scoped) (sha data) (sha nxt)) st2)) = (Inr res, st')"
    using assms(1) op b rd st1 by (auto simp: AppendUnique_def split: if_splits)
  show ?thesis
  proof (cases rd)
    case (Inl e)
    then show ?thesis using run assms(2) by (auto simp: conflict_def split: if_splits)
  next
    case (Inr data)
    note c = ReadFile_facts(2) [OF rd Inr, unfolded openScoped_target [OF op]]
    have d: "dsk st2 = dsk st" using ReadFile_facts(1) [OF rd] by (simp add: quiet_def)
    show ?thesis
    proof (cases "plan_append sha (sf_display scoped) (au_ExpectedHash req) (au_Separator req) body data")
      case p: (Inl result)
      then have "Contains data body" using run Inr assms(2)
        by (auto simp: plan_append_def Let_def conflict_def split: if_splits)
      then show ?thesis using run Inr p b c d by auto
    next
      case p: (Inr nxt)
      then have "res = changed (sf_display scoped) (sha data) (sha nxt)"
        using run Inr by (auto simp: store_def split: prod.splits sum.splits)
      then show ?thesis by (simp add: changed_Changed)
    qed
  qed
qed

text \<open>
  Appending is exact and can be repeated.  A reported change means that the file had the expected
  hash, did not contain the content and now holds its old text, at most one separator, and the content.  After
  a result with status ok, appending the same content once more, under whatever hash, changes nothing.
\<close>

theorem AppendUnique_repeats:
  assumes "AppendUnique sha h noises req st = (Inr res, st')" "disk_ok (next_ino st) (dsk st)"
    "T = edit_target h (au_RepoPath req) (au_Path req)" "T \<notin> temps_plain (0x180, noises) T" "T \<noteq> ''.''"
    "re_Status res = ''ok''"
    "AppendUnique sha h noises2 (req\<lparr>au_ExpectedHash := e2\<rparr>) st' = (r2, st2)"
  shows "(if re_Changed res
      then \<exists>data body sep m. content_at (dsk st) T = Some data \<and> sha data = au_ExpectedHash req \<and>
        resolveContent (au_Content req) (au_ContentB64 req) = Inr body \<and> \<not> Contains data body \<and>
        see (dsk st') T = AFile (data @ sep @ body) m \<and>
        sep \<in> {[], if au_Separator req = [] then [LF] else au_Separator req}
      else dsk st' = dsk st) \<and>
    dsk st2 = dsk st' \<and> (\<forall>res2. r2 = Inr res2 \<longrightarrow> \<not> re_Changed res2)"
proof -
  note E = appending.edit_atomic [OF assms(1,2), folded assms(3), OF assms(4)]
  have c1: "\<exists>data nxt m. content_at (dsk st) T = Some data \<and> append_next sha req data = Some nxt \<and> see (dsk st') T = AFile nxt m"
    if "re_Changed res"
    using E that by auto
  have c2: "dsk st' = dsk st" if "\<not> re_Changed res" using E that by auto
  have has: "\<exists>body data. resolveContent (au_Content req) (au_ContentB64 req) = Inr body \<and>
      content_at (dsk st') T = Some data \<and> Contains data body"
  proof (cases "re_Changed res")
    case True
    then obtain data nxt m where n: "append_next sha req data = Some nxt" "see (dsk st') T = AFile nxt m" using c1 by blast
    then obtain body sep where "resolveContent (au_Content req) (au_ContentB64 req) = Inr body" "nxt = data @ sep @ body"
      using append_next_exact by blast
    moreover from this have "Contains nxt body" by (metis Contains_iff append.right_neutral append_assoc)
    ultimately show ?thesis using content_at_file [OF n(2) assms(5)] by blast
  next
    case False
    then show ?thesis using AppendUnique_ok [OF assms(1,6)] c2 assms(3) by auto
  qed
  have "quiet st' st2 \<and> (\<forall>res. r2 = Inr res \<longrightarrow> \<not> re_Changed res)"
  proof -
    have "append_next sha (req\<lparr>au_ExpectedHash := e2\<rparr>) data = None" if "content_at (dsk st') T = Some data" for data
    proof (rule ccontr)
      assume "append_next sha (req\<lparr>au_ExpectedHash := e2\<rparr>) data \<noteq> None"
      then obtain nxt where "append_next sha (req\<lparr>au_ExpectedHash := e2\<rparr>) data = Some nxt" by blast
      from append_next_exact [OF this] show False using has that by auto
    qed
    then show ?thesis
      using appending.steps [OF assms(7)] assms(3) by auto
  qed
  then have "dsk st2 = dsk st' \<and> (\<forall>res2. r2 = Inr res2 \<longrightarrow> \<not> re_Changed res2)" by (simp add: quiet_def)
  moreover have "\<exists>data body sep m. content_at (dsk st) T = Some data \<and> sha data = au_ExpectedHash req \<and>
        resolveContent (au_Content req) (au_ContentB64 req) = Inr body \<and> \<not> Contains data body \<and>
        see (dsk st') T = AFile (data @ sep @ body) m \<and>
        sep \<in> {[], if au_Separator req = [] then [LF] else au_Separator req}" if ch: "re_Changed res"
  proof -
    obtain data nxt m where n: "content_at (dsk st) T = Some data" "append_next sha req data = Some nxt"
      "see (dsk st') T = AFile nxt m" using c1 [OF ch] by blast
    show ?thesis using append_next_exact [OF n(2)] n(1,3) by metis
  qed
  ultimately show ?thesis using c2 by simp
qed


definition example_append :: AppendUniqueRequest where
  "example_append = \<lparr>au_Path = ''./f'', au_RepoPath = ''/r'', au_ExpectedHash = ''1003'', au_Content = ''new'',
     au_ContentB64 = [], au_Separator = [SLASH]\<rparr>"

lemma example_append_run:
  "\<exists>st'. AppendUnique example_digest example_host [Some ''00''] example_append (machine no_faults 0x12) =
     (Inr (changed ''/r/f'' ''1003'' ''1007''), st')"
proof -
  have f: "resolveContent ''new'' [] = Inr ''new''" "TrimSpace ''./f'' \<noteq> []" "example_digest ''old'' = ''1003''"
    "plan_append example_digest ''/r/f'' ''1003'' [SLASH] ''new'' ''old'' = Inr ''old/new''" "example_digest ''old/new'' = ''1007''"
    by code_simp+
  define s2 where "s2 = snd (ReadFile ''f'' (machine no_faults 0x12))"
  have rd: "ReadFile ''f'' (machine no_faults 0x12) = (Inr ''old'', s2)"
    using example_read(1) [of "0x12"] by (simp add: s2_def)
  obtain st' where "store \<lparr>sf_root = ''/r'', sf_name = ''f'', sf_display = ''/r/f'', sf_relative = ''f''\<rparr> ''old/new'' 0x180 [Some ''00'']
     (changed ''/r/f'' ''1003'' ''1007'') s2 = (Inr (changed ''/r/f'' ''1003'' ''1007''), st')"
    using example_store unfolding s2_def by blast
  then show ?thesis
    using f example_opened [of "machine no_faults 0x12"]
    by (simp add: AppendUnique_def example_append_def rd)
qed

theorem AppendUnique_repeats_witness:
  "\<exists>st' r2 st2 sep m. see (dsk st') ''f'' = AFile (''old'' @ sep @ ''new'') m \<and>
     AppendUnique example_digest example_host [] (example_append\<lparr>au_ExpectedHash := ''1007''\<rparr>) st' = (r2, st2) \<and>
     dsk st2 = dsk st'"
proof -
  obtain st' where r: "AppendUnique example_digest example_host [Some ''00''] example_append (machine no_faults 0x12) =
     (Inr (changed ''/r/f'' ''1003'' ''1007''), st')" using example_append_run by blast
  obtain r2 st2 where r2: "AppendUnique example_digest example_host [] (example_append\<lparr>au_ExpectedHash := ''1007''\<rparr>) st' = (r2, st2)"
    by (metis surj_pair)
  have f: "''f'' = edit_target example_host (au_RepoPath example_append) (au_Path example_append)"
    "re_Status (changed ''/r/f'' ''1003'' ''1007'') = ''ok''" "''f'' \<noteq> ''.''"
    "resolveContent (au_Content example_append) (au_ContentB64 example_append) = Inr ''new''" by code_simp+
  from AppendUnique_repeats [OF r machine_ok f(1) example_plain_temps f(3,2) r2] f(4)
  show ?thesis using r2 by (auto simp: example_content changed_Changed)
qed

lemma collapse_split:
  "\<exists>k. right = replicate k LF @ collapse left right \<and> (0 < k \<longrightarrow> HasSuffix left [LF, LF]) \<and>
     \<not> (HasSuffix left [LF, LF] \<and> HasPrefix (collapse left right) [LF])"
proof (induction left right rule: collapse.induct)
  case (1 left)
  then show ?case by (intro exI [of _ 0]) simp
next
  case (2 left c right)
  show ?case
  proof (cases "HasSuffix left [LF, LF] \<and> c = LF")
    case True
    then obtain k where "right = replicate k LF @ collapse left right"
        "\<not> HasPrefix (collapse left right) [LF]" using 2 by auto
    with True show ?thesis by (intro exI [of _ "Suc k"]) (simp del: HasPrefix.simps)
  next
    case False
    then have "collapse left (c # right) = c # right" by auto
    with False show ?thesis by (intro exI [of _ 0]) (auto simp: HasPrefix_iff)
  qed
qed

lemma delete_next_exact:
  assumes "delete_next sha req data = Some nxt"
  shows "\<exists>block lhs k rhs. resolveContent (db_Block req) (db_BlockB64 req) = Inr block \<and> sha data = db_ExpectedHash req \<and>
    CountSub data block = 1 \<and> data = lhs @ block @ replicate k LF @ rhs \<and> nxt = lhs @ rhs \<and>
    (0 < k \<longrightarrow> HasSuffix lhs [LF, LF]) \<and> \<not> (HasSuffix lhs [LF, LF] \<and> HasPrefix rhs [LF])"
proof -
  obtain block i where b: "resolveContent (db_Block req) (db_BlockB64 req) = Inr block" "sha data = db_ExpectedHash req"
      "CountSub data block = 1" "Index data block = Some i"
      "nxt = take i data @ collapse (take i data) (drop (i + length block) data)"
    using assms by (auto simp: delete_next_def plan_delete_def Let_def split: sum.splits if_splits option.splits)
  obtain k where k: "drop (i + length block) data = replicate k LF @ collapse (take i data) (drop (i + length block) data)"
      "0 < k \<longrightarrow> HasSuffix (take i data) [LF, LF]"
      "\<not> (HasSuffix (take i data) [LF, LF] \<and> HasPrefix (collapse (take i data) (drop (i + length block) data)) [LF])"
    using collapse_split by blast
  have "data = take i data @ block @ replicate k LF @ collapse (take i data) (drop (i + length block) data)"
    using Index_split [OF b(4)] k(1) by simp
  then show ?thesis using b k(2,3) by blast
qed

text \<open>
  Deleting a block is atomic and exact.  Under any faults every exposed disk shows at each name,
  temporary files aside, what was there before, or a parent directory just made, or at the target the planned
  content.  A reported change means that the file had the expected hash and held the block once, and that it
  now holds the text before the block followed by the text behind it, from which only the newlines directly at
  the seam are dropped, and only if the text before ends in an empty line.
\<close>

theorem DeleteExactBlock_exact:
  assumes "DeleteExactBlock sha h noises req st = (r, st')" "disk_ok (next_ino st) (dsk st)"
    "T = edit_target h (db_RepoPath req) (db_Path req)" "T \<notin> temps_plain (0x180, noises) T"
  shows "logged (planned_view (delete_next sha req) (temps_plain (0x180, noises) T) T (dsk st)) st st' \<and>
    (\<forall>res. r = Inr res \<longrightarrow>
       (if re_Changed res
        then \<exists>block lhs k rhs m data.
          content_at (dsk st) T = Some data \<and> resolveContent (db_Block req) (db_BlockB64 req) = Inr block \<and>
          sha data = db_ExpectedHash req \<and> CountSub data block = 1 \<and>
          data = lhs @ block @ replicate k LF @ rhs \<and> see (dsk st') T = AFile (lhs @ rhs) m \<and>
          (0 < k \<longrightarrow> HasSuffix lhs [LF, LF]) \<and> \<not> (HasSuffix lhs [LF, LF] \<and> HasPrefix rhs [LF])
        else dsk st' = dsk st))"
proof -
  note E = deleting.edit_atomic [OF assms(1,2), folded assms(3), OF assms(4)]
  have "\<exists>block lhs k rhs m data.
          content_at (dsk st) T = Some data \<and> resolveContent (db_Block req) (db_BlockB64 req) = Inr block \<and>
          sha data = db_ExpectedHash req \<and> CountSub data block = 1 \<and>
          data = lhs @ block @ replicate k LF @ rhs \<and> see (dsk st') T = AFile (lhs @ rhs) m \<and>
          (0 < k \<longrightarrow> HasSuffix lhs [LF, LF]) \<and> \<not> (HasSuffix lhs [LF, LF] \<and> HasPrefix rhs [LF])"
    if "r = Inr res" "re_Changed res" for res
  proof -
    note c = that
    obtain data nxt m where n: "content_at (dsk st) T = Some data" "delete_next sha req data = Some nxt"
        "see (dsk st') T = AFile nxt m"
      using conjunct2 [OF conjunct2 [OF conjunct2 [OF E]], rule_format, OF c(1)] c(2) by (auto simp: if_True)
    show ?thesis using delete_next_exact [OF n(2)] n(1,3) by blast
  qed
  then show ?thesis using E by simp
qed

definition example_delete :: DeleteExactBlockRequest where
  "example_delete = \<lparr>db_Path = ''./f'', db_RepoPath = ''/r'', db_ExpectedHash = ''1003'', db_Block = ''l'', db_BlockB64 = []\<rparr>"

lemma example_delete_run:
  "\<exists>st'. DeleteExactBlock example_digest example_host [Some ''00''] example_delete (machine no_faults 0x12) =
     (Inr (changed ''/r/f'' ''1003'' ''1002''), st')"
proof -
  have f: "resolveContent ''l'' [] = Inr ''l''" "TrimSpace ''./f'' \<noteq> []" "example_digest ''old'' = ''1003''"
    "plan_delete example_digest ''/r/f'' ''1003'' ''l'' ''old'' = Inr ''od''" "example_digest ''od'' = ''1002''"
    by code_simp+
  define s2 where "s2 = snd (ReadFile ''f'' (machine no_faults 0x12))"
  have rd: "ReadFile ''f'' (machine no_faults 0x12) = (Inr ''old'', s2)"
    using example_read(1) [of "0x12"] by (simp add: s2_def)
  obtain st' where "store \<lparr>sf_root = ''/r'', sf_name = ''f'', sf_display = ''/r/f'', sf_relative = ''f''\<rparr> ''od'' 0x180 [Some ''00'']
     (changed ''/r/f'' ''1003'' ''1002'') s2 = (Inr (changed ''/r/f'' ''1003'' ''1002''), st')"
    using example_store unfolding s2_def by blast
  then show ?thesis
    using f example_opened [of "machine no_faults 0x12"]
    by (simp add: DeleteExactBlock_def example_delete_def rd)
qed

theorem DeleteExactBlock_exact_witness:
  "\<exists>(st' :: os) lhs k rhs m. ''old'' = lhs @ ''l'' @ replicate k LF @ rhs \<and> see (dsk st') ''f'' = AFile (lhs @ rhs) m"
proof -
  obtain st' where r: "DeleteExactBlock example_digest example_host [Some ''00''] example_delete (machine no_faults 0x12) =
     (Inr (changed ''/r/f'' ''1003'' ''1002''), st')" using example_delete_run by blast
  have f: "''f'' = edit_target example_host (db_RepoPath example_delete) (db_Path example_delete)"
    "resolveContent (db_Block example_delete) (db_BlockB64 example_delete) = Inr ''l''" by code_simp+
  note D = conjunct2 [OF DeleteExactBlock_exact [OF r machine_ok f(1) example_plain_temps], rule_format, OF refl]
  obtain block lhs k rhs m data where "content_at (dsk (machine no_faults 0x12)) ''f'' = Some data"
    "resolveContent (db_Block example_delete) (db_BlockB64 example_delete) = Inr block"
    "data = lhs @ block @ replicate k LF @ rhs" "see (dsk st') ''f'' = AFile (lhs @ rhs) m"
    using D [unfolded eqTrueI [OF changed_Changed] if_True] by blast
  moreover from this have "data = ''old''" "block = ''l''" using f(2) example_content [of no_faults "0x12"] by simp_all
  ultimately have "''old'' = lhs @ ''l'' @ replicate k LF @ rhs" by (simp only:)
  then show ?thesis using \<open>see (dsk st') ''f'' = AFile (lhs @ rhs) m\<close> by blast
qed

end
