(* ===== verification/FileStates.thy ===== *)
theory FileStates
  imports FileEditFacts
begin

text \<open>
  Properties of the rest of the edit layer of \<open>fileops\<close>: captured states and their restoration, exclusive creation,
  whole-file writes, batch reads, paths and transport encodings.
\<close>

section \<open>Captured states\<close>

text \<open>The operating system does not report a file as missing that is there.\<close>

definition honest :: "os \<Rightarrow> bool" where
  "honest st \<longleftrightarrow> (\<forall>n k. faults st n \<noteq> Some (Fault ErrNotExist k))"

lemma honest_faulty: "honest st \<Longrightarrow> faulty st \<noteq> Some ErrNotExist"
  by (auto simp: honest_def faulty_def split: option.splits fault.splits)

lemma honest_quiet: "quiet a b \<Longrightarrow> honest a \<Longrightarrow> honest b"
  by (simp add: quiet_def honest_def)

lemma follow_not_missing: "follow n d p \<noteq> Inl ErrNotExist"
  by (induction n d p rule: follow.induct) (auto split: option.splits node.splits)

lemma follow_end: "follow n d p = Inr t \<Longrightarrow> names d t \<noteq> Some (Symlink x)"
  by (induction n d p rule: follow.induct) (auto split: option.splits node.splits)

text \<open>A read that reports a missing file found nothing at the end of the links.\<close>

lemma ReadFile_missing:
  assumes "ReadFile p st = (Inl e, st')" "missing_error e" "honest st"
  shows "cleanRelative p False = Inr (Clean p) \<and> content_at (dsk st) (Clean p) = None"
proof -
  obtain c where c: "cleanRelative p False = Inr c"
    using assms(1,2) by (cases "cleanRelative p False")
      (auto simp: ReadFile_def confined_def missing_error_def cleanRelative_def Let_def split: if_splits)
  then have C: "c = Clean p" by (auto simp: cleanRelative_def Let_def split: if_splits)
  have r: "os_read_file c st = (Inl ErrNotExist, st')"
    using assms(1,2) c by (auto simp: ReadFile_def confined_def missing_error_def split: sum.splits prod.splits)
  obtain r1 s1 where o1: "os_open c st = (r1, s1)" by (metis surj_pair)
  have h1: "honest s1" using assms(3) quiet_commit [OF os_open_same [OF o1]] honest_quiet by blast
  show ?thesis
  proof (cases r1)
    case (Inl x)
    then have "os_open c st = (Inl ErrNotExist, s1)" using r o1 by (simp add: os_read_file_def)
    then have "\<exists>t. follow 41 (dsk st) c = Inr t \<and> (\<forall>i. root_node (dsk st) t \<noteq> Some (File i))"
      using honest_faulty [OF assms(3)] follow_not_missing
      by (auto simp: os_open_def syscall_def split: option.splits if_splits sum.splits node.splits)
    then show ?thesis using c C by (auto simp: content_at_def split: option.splits node.splits)
  next
    case (Inr fd)
    let ?n = "length (case inodes (dsk s1) fd of None \<Rightarrow> [] | Some x \<Rightarrow> content x)"
    have "fst (os_read fd ?n s1) = Inl ErrNotExist"
      using r o1 Inr by (simp add: os_read_file_def split: prod.splits)
    then show ?thesis using honest_faulty [OF h1] by (auto simp: os_read_def syscall_def split: option.splits)
  qed
qed

lemma Remove_absent:
  assumes "Remove p st = (r, st')" "honest st" "case r of Inl e \<Rightarrow> missing_error e | Inr _ \<Rightarrow> True"
  shows "cleanRelative p False = Inr (Clean p) \<and> see (dsk st') (Clean p) = Absent \<and>
    (\<forall>q. q \<noteq> Clean p \<longrightarrow> see (dsk st') q = see (dsk st) q)"
proof -
  obtain c where c: "cleanRelative p False = Inr c"
    using assms(1,3) by (cases "cleanRelative p False")
      (auto simp: Remove_def confined_def missing_error_def cleanRelative_def Let_def split: if_splits)
  then have C: "c = Clean p" by (auto simp: cleanRelative_def Let_def split: if_splits)
  obtain r1 where r: "os_remove c st = (r1, st')" "case r1 of Inl e \<Rightarrow> e = ErrNotExist | Inr _ \<Rightarrow> True"
    using assms(1,3) c by (auto simp: Remove_def confined_def missing_error_def split: sum.splits prod.splits)
  have "see (dsk st') c = Absent \<and> (\<forall>q. q \<noteq> c \<longrightarrow> see (dsk st') q = see (dsk st) q)"
    using r honest_faulty [OF assms(2)]
    by (auto simp: os_remove_def syscall_def see_None split: option.splits node.splits if_splits sum.splits)
  then show ?thesis using c C by simp
qed

text \<open>
  Claim C31: a captured state can be restored.  Take the state of a file, let anything happen, and restore
  it: if the restoration reports success, the file holds the captured content or is absent again, whatever
  happened in between, and nothing else has changed but temporary files and missing parent directories.
\<close>

theorem Restore_captured:
  assumes "CaptureFileStateInRepo h repo f st = (Inr state, st1)" "honest st"
    "RestoreFileStateInRepo h noises repo f state st2 = (Inr (), st3)" "honest st2" "disk_ok (next_ino st2) (dsk st2)"
    "T = edit_target h repo f" "T \<notin> temps_plain (0x180, noises) T"
  shows "dsk st1 = dsk st \<and> content_at (dsk st) T = state \<and>
    (case state of
       None \<Rightarrow> see (dsk st3) T = Absent \<and> (\<forall>q. q \<noteq> T \<longrightarrow> see (dsk st3) q = see (dsk st2) q)
     | Some data \<Rightarrow> \<exists>m. see (dsk st3) T = AFile data m \<and>
         write_view (temps_plain (0x180, noises) T) T data m (dsk st2) (dsk st3))"
proof -
  obtain scoped s1 where op: "openScopedFile h repo f False st = (Inr scoped, s1)"
    using assms(1) by (auto simp: CaptureFileStateInRepo_def split: sum.splits prod.splits)
  then have s1: "s1 = st" by (rule openScoped_state)
  have op2: "openScopedFile h repo f False st2 = (Inr scoped, st2)"
    using op by (auto simp: openScopedFile_def Let_def split: if_splits sum.splits prod.splits)
  note T = openScoped_target [OF op, folded assms(6)]
  obtain rd s2 where rd: "ReadFile (sf_name scoped) st = (rd, s2)" by (metis surj_pair)
  have cap: "dsk s2 = dsk st" "st1 = s2" "state = (case rd of Inl e \<Rightarrow> None | Inr data \<Rightarrow> Some data)"
      "\<And>e. rd = Inl e \<Longrightarrow> missing_error e"
    using assms(1) op rd s1 ReadFile_facts(1) [OF rd]
    by (auto simp: CaptureFileStateInRepo_def quiet_def split: sum.splits if_splits)
  show ?thesis
  proof (cases rd)
    case (Inl e)
    then have st: "state = None" using cap by simp
    have "content_at (dsk st) T = None" using ReadFile_missing rd Inl cap(4) assms(2) T by metis
    moreover obtain rm where rm: "Remove (sf_name scoped) st2 = (rm, st3)" "case rm of Inl e \<Rightarrow> missing_error e | Inr _ \<Rightarrow> True"
      using assms(3) op2 st by (auto simp: RestoreFileStateInRepo_def split: sum.splits prod.splits if_splits)
    ultimately show ?thesis using Remove_absent [OF rm(1) assms(4) rm(2)] st cap T by simp
  next
    case (Inr data)
    then have st: "state = Some data" using cap by simp
    note c = ReadFile_facts(2) [OF rd Inr, unfolded T]
    obtain u where w: "WriteFileAtomic (sf_name scoped) data 0x180 noises st2 = (Inr u, st3)"
      using assms(3) op2 st by (auto simp: RestoreFileStateInRepo_def split: sum.splits prod.splits)
    obtain m where "see (dsk st3) T = AFile data m" "write_view (temps_plain (0x180, noises) T) T data m (dsk st2) (dsk st3)"
      using write_plain_atomic [OF w assms(5) conjunct1 [OF c] assms(7)] by auto
    then show ?thesis using st c cap by auto
  qed
qed


lemma example_captured:
  "CaptureFileStateInRepo example_host ''/r'' ''./f'' (machine no_faults 0x12) =
     (Inr (Some ''old''), snd (ReadFile ''f'' (machine no_faults 0x12)))"
proof -
  define s2 where "s2 = snd (ReadFile ''f'' (machine no_faults 0x12))"
  have "ReadFile ''f'' (machine no_faults 0x12) = (Inr ''old'', s2)"
    using example_read(1) [of "0x12"] by (simp add: s2_def)
  then have "CaptureFileStateInRepo example_host ''/r'' ''./f'' (machine no_faults 0x12) = (Inr (Some ''old''), s2)"
    by (simp add: CaptureFileStateInRepo_def example_opened)
  then show ?thesis by (simp add: s2_def)
qed

lemma honest_machine: "honest (machine no_faults um)" "honest (snd (ReadFile ''f'' (machine no_faults um)))"
  by (simp_all add: honest_def example_read(2)) (simp_all add: machine_def no_faults_def)

text \<open>The state after a file was overwritten: the machine with another content in its inode.\<close>

definition example_overwritten :: os where
  "example_overwritten = (machine no_faults 0x12)
     \<lparr>dsk := \<lparr>names = [''f'' \<mapsto> File 0], inodes = [0 \<mapsto> \<lparr>content = ''lost'', mode = 0x1B6\<rparr>]\<rparr>\<rparr>"

theorem Restore_captured_witness:
  "\<exists>st3 m. RestoreFileStateInRepo example_host [Some ''00''] ''/r'' ''./f'' (Some ''old'') example_overwritten = (Inr (), st3) \<and>
     see (dsk st3) ''f'' = AFile ''old'' m"
proof -
  obtain w st3 where w: "WriteFileAtomic ''f'' ''old'' 0x180 [Some ''00''] example_overwritten = (w, st3)" by (metis surj_pair)
  then have "w = Inr ()"
    by (auto simp: Let_def run_defs eval_nat_numeral clean_f abs_f path_facts example_overwritten_def machine_def no_faults_def)
  then have r: "RestoreFileStateInRepo example_host [Some ''00''] ''/r'' ''./f'' (Some ''old'') example_overwritten = (Inr (), st3)"
    using w by (simp add: RestoreFileStateInRepo_def example_opened)
  have h: "honest example_overwritten" "disk_ok (next_ino example_overwritten) (dsk example_overwritten)"
    by (simp_all add: honest_def example_overwritten_def machine_def no_faults_def disk_ok_def)
  from Restore_captured [OF example_captured honest_machine(1) r h example_edit_target [symmetric] example_plain_temps]
  show ?thesis using r by auto
qed

text \<open>The mode of a file that was removed does not come back: the restored file gets mode 0600.\<close>

lemma restore_loses_mode:
  "\<exists>st3. RestoreFileStateInRepo example_host [Some ''00''] ''/r'' ''./f'' (Some ''old'')
       ((machine no_faults 0)\<lparr>dsk := \<lparr>names = Map.empty, inodes = Map.empty\<rparr>\<rparr>) = (Inr (), st3) \<and>
     see (dsk (machine no_faults 0)) ''f'' = AFile ''old'' 0x1B6 \<and> see (dsk st3) ''f'' = AFile ''old'' 0x180"
proof -
  obtain w st3 where w: "WriteFileAtomic ''f'' ''old'' 0x180 [Some ''00'']
      ((machine no_faults 0)\<lparr>dsk := \<lparr>names = Map.empty, inodes = Map.empty\<rparr>\<rparr>) = (w, st3)" by (metis surj_pair)
  then have "w = Inr () \<and> see (dsk st3) ''f'' = AFile ''old'' 0x180"
    by (auto simp: Let_def run_defs eval_nat_numeral clean_f abs_f path_facts machine_def no_faults_def Perm_def ModePerm_def see_def)
  then show ?thesis using w by (auto simp: RestoreFileStateInRepo_def example_opened machine_def see_def)
qed

section \<open>Exclusive creation\<close>

text \<open>Nothing that was there has changed.\<close>

definition preserves :: "disk \<Rightarrow> disk \<Rightarrow> bool" where
  "preserves d0 d \<longleftrightarrow> (\<forall>p. see d0 p = Absent \<or> see d p = see d0 p)"

lemma preserves_refl [simp]: "preserves d d"
  by (simp add: preserves_def)

lemma preserves_grown: "grown d0 d \<Longrightarrow> preserves d0 d"
  using grown_see by (auto simp: preserves_def)

lemma preserves_trans: "preserves a b \<Longrightarrow> preserves b c \<Longrightarrow> preserves a c"
  by (metis preserves_def)

lemma preserves_frame: "names d0 T = None \<Longrightarrow> frame T d0 d \<Longrightarrow> preserves d0 d"
  by (metis frame_def preserves_def see_None)

lemma CreateExclusive_preserves:
  assumes "CreateExclusive name data perm st = (r, st')" "disk_ok (next_ino st) (dsk st)"
  shows "logged (preserves (dsk st)) st st' \<and> preserves (dsk st) (dsk st') \<and>
    (\<forall>u. r = Inr u \<longrightarrow> cleanRelative name False = Inr (Clean name) \<and> see (dsk st) (Clean name) = Absent \<and>
       (\<exists>m. see (dsk st') (Clean name) = AFile data m))"
proof (cases "cleanRelative name False")
  case (Inl e)
  then show ?thesis using assms(1) by (auto simp: CreateExclusive_def)
next
  case (Inr c)
  have C: "c = Clean name" using Inr by (auto simp: cleanRelative_def Let_def split: if_splits)
  obtain r1 s1 where e: "ensureParent c st = (r1, s1)" by (metis surj_pair)
  note E = ensureParent_grown [OF e cleanRelative_below [OF Inr]]
  have P1: "preserves (dsk st) (dsk s1)" "logged (preserves (dsk st)) st s1" "disk_ok (next_ino s1) (dsk s1)"
  proof -
    show "preserves (dsk st) (dsk s1)" using E preserves_grown by blast
    show "disk_ok (next_ino s1) (dsk s1)" using E assms(2) grown_disk_ok by metis
    have "logged (\<lambda>d. grown (dsk st) d \<and> names d c = names (dsk st) c) st s1" using E by blast
    then show "logged (preserves (dsk st)) st s1" by (rule logged_mono) (simp add: preserves_grown)
  qed
  show ?thesis
  proof (cases r1)
    case r1: (Inl x)
    then have "r = Inl x" "st' = s1" using assms(1) Inr e by (simp_all add: CreateExclusive_def)
    then show ?thesis using P1 by simp
  next
    case r1: (Inr u)
    obtain r2 s2 where k: "os_create_excl c perm s1 = (r2, s2)" by (metis surj_pair)
    show ?thesis
    proof (cases r2)
      case r2: (Inl x)
      then have "r = Inl (OsError x)" "st' = s2" using assms(1) Inr e r1 k by (simp_all add: CreateExclusive_def)
      moreover have "s2 = commit (dsk s1) s1" using os_create_excl_cases [OF k] r2 by auto
      moreover have "logged (preserves (dsk st)) s1 (commit (dsk s1) s1)" by (rule logged_commit) (rule P1(1))
      ultimately show ?thesis using P1 logged_trans [OF P1(2)] by simp
    next
      case r2: (Inr fd)
      note W = create_working [OF k [unfolded r2] P1(3)]
      have n: "names (dsk s1) c = None" using W by blast
      have absent: "see (dsk st) c = Absent" using n E see_None by simp
      have fr: "preserves (dsk st) d" if "frame c (dsk s1) d" for d
        using preserves_trans [OF P1(1) preserves_frame [OF n that]] .
      obtain r3 s3 where w: "os_write fd data s2 = (r3, s3)" by (metis surj_pair)
      have W3: "working c fd (dsk s1) s3" "logged (frame c (dsk s1)) s2 s3"
        "isOk r3 \<longrightarrow> (\<exists>x. inodes (dsk s3) fd = Some x \<and> content x = data)"
        using write_working [OF w] W by auto
      obtain r4 s4 where cl: "os_close fd s3 = (r4, s4)" by (metis surj_pair)
      note W4 = same_working [OF os_close_same [OF cl] W3(1)]
      have st': "st' = s4" "isOk r \<longrightarrow> isOk r3"
        using assms(1) Inr e r1 k r2 w cl by (auto simp: CreateExclusive_def split: sum.splits)
      have "logged (frame c (dsk s1)) s1 s4"
        using W W3(2) W4(2) by (blast intro: logged_trans)
      then have "logged (preserves (dsk st)) s1 s4" by (rule logged_mono) (rule fr)
      then have L: "logged (preserves (dsk st)) st s4" by (rule logged_trans [OF P1(2)])
      have "see (dsk s4) c = AFile data m" if "inodes (dsk s3) fd = Some x" "content x = data" "mode x = m" for x m
        using W4 that by (auto simp: working_def sole_name_def see_def)
      then show ?thesis
        using L st' fr W4(1) W3(3) absent Inr C by (auto simp: working_def)
    qed
  qed
qed


text \<open>
  Claim C32: \<open>CreateIfAbsent\<close> never overwrites.  Whichever system calls fail, on every disk exposed while it
  runs everything that was there is unchanged.  Status ok means that the file did not exist and now holds
  exactly the given content; every other result reports that the file already exists.
\<close>

theorem CreateIfAbsent_never_overwrites:
  assumes "CreateIfAbsent sha h req st = (r, st')" "disk_ok (next_ino st) (dsk st)"
    "T = edit_target h (ca_RepoPath req) (ca_Path req)"
  shows "logged (preserves (dsk st)) st st' \<and> preserves (dsk st) (dsk st') \<and>
    (\<forall>res. r = Inr res \<longrightarrow>
       (if re_Status res = ''ok''
        then see (dsk st) T = Absent \<and>
          (\<exists>body m. resolveContent (ca_Content req) (ca_ContentB64 req) = Inr body \<and> see (dsk st') T = AFile body m)
        else re_Status res = ''already_present'' \<and> \<not> re_Changed res))"
proof (cases "\<exists>body perm scoped. TrimSpace (ca_Path req) \<noteq> [] \<and>
    resolveContent (ca_Content req) (ca_ContentB64 req) = Inr body \<and> body \<noteq> [] \<and>
    validatedFileMode (ca_Mode req) 0x1A4 = Inr perm \<and>
    openScopedFile h (ca_RepoPath req) (ca_Path req) False st = (Inr scoped, st)")
  case False
  obtain o1 s1 where op: "openScopedFile h (ca_RepoPath req) (ca_Path req) False st = (o1, s1)" by (metis surj_pair)
  then have "s1 = st" by (rule openScoped_state)
  then have "\<not> isOk r \<and> st' = st"
    using False assms(1) op by (auto simp: CreateIfAbsent_def split: if_splits sum.splits)
  then show ?thesis by (cases r) auto
next
  case True
  then obtain body perm scoped where g: "TrimSpace (ca_Path req) \<noteq> []"
    "resolveContent (ca_Content req) (ca_ContentB64 req) = Inr body" "body \<noteq> []"
    "validatedFileMode (ca_Mode req) 0x1A4 = Inr perm"
    "openScopedFile h (ca_RepoPath req) (ca_Path req) False st = (Inr scoped, st)" by blast
  obtain r2 s2 where s: "Stat (sf_name scoped) st = (r2, s2)" by (metis surj_pair)
  have q: "quiet st s2"
    using s by (auto simp: Stat_def confined_def dest: os_stat_same intro: quiet_commit split: sum.splits prod.splits)
  have q': "logged (preserves (dsk st)) st s2" "dsk s2 = dsk st" "disk_ok (next_ino s2) (dsk s2)"
    using logged_quiet [OF q, of "preserves (dsk st)"] q quiet_ok [OF q assms(2)] by (simp_all add: quiet_def)
  have run: "(case r2 of
        Inr _ \<Rightarrow> (Inr (already_present (sf_display scoped)), s2)
      | Inl statErr \<Rightarrow>
          if \<not> missing_error statErr then (Inl (FsFailed statErr), s2)
          else (case CreateExclusive (sf_name scoped) body perm s2 of
             (Inl e, st3) \<Rightarrow>
               if safe_cause e = Some ErrExist then (Inr (already_present (sf_display scoped)), st3)
               else (Inl (FsFailed e), st3)
           | (Inr _, st3) \<Rightarrow> (Inr (changed (sf_display scoped) [] (sha body)), st3))) = (r, st')"
    using assms(1) g s by (simp add: CreateIfAbsent_def)
  show ?thesis
  proof (cases "\<exists>e. r2 = Inl e \<and> missing_error e")
    case False
    then have "st' = s2 \<and> (r = Inr (already_present (sf_display scoped)) \<or> \<not> isOk r)"
      using run by (auto split: sum.splits if_splits)
    then show ?thesis using q' by (cases r) (auto simp: already_present_def)
  next
    case True
    obtain r3 s3 where c: "CreateExclusive (sf_name scoped) body perm s2 = (r3, s3)" by (metis surj_pair)
    note X = CreateExclusive_preserves [OF c q'(3), unfolded q'(2) openScoped_target [OF g(5), folded assms(3)]]
    have L: "logged (preserves (dsk st)) st s3" using logged_trans [OF q'(1)] X by blast
    show ?thesis
    proof (cases r3)
      case (Inl e)
      then have "st' = s3 \<and> (r = Inr (already_present (sf_display scoped)) \<or> \<not> isOk r)"
        using run True c by (auto split: if_splits)
      then show ?thesis using X L by (cases r) (auto simp: already_present_def)
    next
      case (Inr u)
      then have "st' = s3" "r = Inr (changed (sf_display scoped) [] (sha body))" using run True c by auto
      then show ?thesis using X L g(2) Inr by (auto simp: changed_def)
    qed
  qed
qed

definition example_create :: CreateIfAbsentRequest where
  "example_create = \<lparr>ca_Path = ''./f'', ca_RepoPath = ''/r'', ca_Content = ''new'', ca_ContentB64 = [], ca_Mode = 0\<rparr>"

definition empty_machine :: "(nat \<Rightarrow> fault option) \<Rightarrow> os" where
  "empty_machine fs = (machine fs 0)\<lparr>dsk := \<lparr>names = Map.empty, inodes = Map.empty\<rparr>\<rparr>"

lemma empty_machine_ok: "disk_ok (next_ino (empty_machine fs)) (dsk (empty_machine fs))"
  by (simp add: empty_machine_def disk_ok_def)

lemma example_create_facts: "resolveContent ''new'' [] = Inr ''new''" "TrimSpace ''./f'' \<noteq> []"
  "validatedFileMode 0 0x1A4 = Inr 0x1A4" "cleanRelative ''f'' True = Inr ''f''"
  by code_simp+

theorem CreateIfAbsent_never_overwrites_witness:
  "\<exists>st' m. CreateIfAbsent example_digest example_host example_create (empty_machine no_faults) =
      (Inr (changed ''/r/f'' [] (example_digest ''new'')), st') \<and> see (dsk st') ''f'' = AFile ''new'' m"
proof -
  obtain r st' where run: "CreateIfAbsent example_digest example_host example_create (empty_machine no_faults) = (r, st')"
    by (metis surj_pair)
  then have r: "r = Inr (changed ''/r/f'' [] (example_digest ''new''))"
    using example_create_facts
    by (auto simp: CreateIfAbsent_def example_create_def example_opened Stat_def confined_def CreateExclusive_def
        run_defs eval_nat_numeral clean_f abs_f path_facts empty_machine_def machine_def no_faults_def missing_error_def)
  have f: "''f'' = edit_target example_host (ca_RepoPath example_create) (ca_Path example_create)"
    "resolveContent (ca_Content example_create) (ca_ContentB64 example_create) = Inr ''new''" by code_simp+
  have "re_Status (changed ''/r/f'' [] (example_digest ''new'')) = ''ok''" by (simp add: changed_def)
  with CreateIfAbsent_never_overwrites [OF run empty_machine_ok f(1)] show ?thesis
    using run r f(2) by auto
qed

text \<open>A write that fails after the file was created leaves the part that was written, and the next attempt
  reports the file as already present.\<close>

lemma failed_create_leaves_part:
  "\<exists>st' st2 e. CreateIfAbsent example_digest example_host example_create (empty_machine (fault_at 2)) = (Inl e, st') \<and>
     see (dsk st') ''f'' = AFile ''n'' 0x1A4 \<and>
     CreateIfAbsent example_digest example_host example_create st' = (Inr (already_present ''/r/f''), st2)"
proof -
  obtain r st' where run: "CreateIfAbsent example_digest example_host example_create (empty_machine (fault_at 2)) = (r, st')"
    by (metis surj_pair)
  obtain r2 st2 where run2: "CreateIfAbsent example_digest example_host example_create st' = (r2, st2)"
    by (metis surj_pair)
  have one: "(\<exists>e. r = Inl e) \<and> names (dsk st') = [''f'' \<mapsto> File 1] \<and> inodes (dsk st') = [1 \<mapsto> \<lparr>content = ''n'', mode = 0x1A4\<rparr>] \<and>
      clock st' = 4 \<and> faults st' = fault_at 2"
    using run example_create_facts
    by (auto simp: CreateIfAbsent_def example_create_def example_opened Stat_def confined_def CreateExclusive_def
        run_defs eval_nat_numeral clean_f abs_f path_facts empty_machine_def machine_def fault_at_def missing_error_def Perm_def)
  then have "r2 = Inr (already_present ''/r/f'')"
    using run2 example_create_facts
    by (auto simp: CreateIfAbsent_def example_create_def example_opened Stat_def confined_def
        os_stat_def syscall_def faulty_def eval_nat_numeral abs_f root_node_def file_info_def fault_at_def)
  then show ?thesis using run run2 one by (auto simp: see_def)
qed


section \<open>Whole-file writes\<close>

lemma follow_grown:
  "follow n d p = Inr t \<Longrightarrow> names d t = Some (File i) \<Longrightarrow> grown d d' \<Longrightarrow> follow n d' p = Inr t \<and> names d' t = Some (File i)"
proof (induction n d p rule: follow.induct)
  case (1 d name)
  then show ?case by simp
next
  case (2 n d name)
  have same: "names d' q = names d q" if "names d q \<noteq> None" for q
    using 2(4) that by (auto simp: grown_def)
  show ?case
  proof (cases "names d name")
    case None
    then show ?thesis using 2(2,3) by simp
  next
    case (Some x)
    then show ?thesis using 2 same [of name] by (auto split: node.splits option.splits)
  qed
qed

lemma content_at_iff: "content_at d p = Some c \<longleftrightarrow>
   (\<exists>t i x. follow 41 d p = Inr t \<and> t \<noteq> ''.'' \<and> names d t = Some (File i) \<and> inodes d i = Some x \<and> c = content x)"
  by (cases "follow 41 d p") (auto simp: content_at_def root_node_def split: option.splits node.splits)

lemma content_at_grown: "grown d d' \<Longrightarrow> content_at d p = Some c \<Longrightarrow> content_at d' p = Some c"
proof -
  assume g: "grown d d'" "content_at d p = Some c"
  then obtain t i x where "follow 41 d p = Inr t" "t \<noteq> ''.''" "names d t = Some (File i)" "inodes d i = Some x" "c = content x"
    unfolding content_at_iff by blast
  then show ?thesis
    using follow_grown [OF _ _ g(1)] g(1) unfolding content_at_iff grown_def by metis
qed

definition same_at :: "string \<Rightarrow> disk \<Rightarrow> disk \<Rightarrow> bool" where
  "same_at T d0 d \<longleftrightarrow> grown d0 d \<and> names d T = names d0 T"

lemma openScoped_grows:
  assumes "openScopedFile h repo f p st = (Inr scoped, st1)" "T = edit_target h repo f"
  shows "same_at T (dsk st) (dsk st1) \<and> next_ino st1 = next_ino st \<and> faults st1 = faults st \<and>
    logged (same_at T (dsk st)) st st1"
proof (cases "st1 = st")
  case True
  then show ?thesis by (simp add: same_at_def)
next
  case False
  then have repo: "TrimSpace repo \<noteq> []" using assms(1)
    by (auto simp: openScopedFile_def split: if_splits sum.splits)
  then obtain d rel where r: "repoRelativePath (h_wd h) repo f = Inr (d, rel)"
    using assms(1) by (auto simp: openScopedFile_def split: sum.splits prod.splits)
  note R = repoRelativePath_ok [OF r]
  have T: "T = rel" using assms(2) repo R(2) by (simp add: edit_target_def)
  obtain u where m: "Dir rel \<noteq> ''.''" "MkdirAll (Dir rel) st = (Inr u, st1)"
    using assms(1) False repo r by (auto simp: openScopedFile_def Let_def split: sum.splits prod.splits if_splits)
  have "Clean (Dir rel) = Dir rel"
    using R(1)
  proof (cases rule: below_cases)
    case top
    with m(1) show ?thesis by simp
  next
    case (deep cs c)
    then show ?thesis using Clean_below_id [of "Join [SLASH] cs"] Dir_below by (auto simp: below_def)
  qed
  then have k: "os_mkdir_all (Dir rel) st = (Inr u, st1)"
    using m(2) by (auto simp: MkdirAll_def confined_def cleanRelative_def Let_def split: if_splits sum.splits prod.splits)
  obtain dd where d: "mkdirs (prefixes_of [] (SplitChar SLASH (Dir rel))) (dsk st) = Inr dd" "st1 = commit dd st"
    using k unfolding os_mkdir_all_def by (auto simp: syscall_def split: option.splits sum.splits)
  have "same_at rel (dsk st) dd"
    using mkdirs_grown [OF d(1)] below_not_own_parent [OF R(1) m(1)] by (auto simp: same_at_def)
  then show ?thesis using d(2) T by (simp add: logged_commit)
qed

lemma openScoped_failed:
  assumes "openScopedFile h repo f p st = (Inl e, st1)"
  shows "dsk st1 = dsk st \<and> logged (\<lambda>d. d = dsk st) st st1"
  using assms
  by (auto simp: openScopedFile_def Let_def MkdirAll_def confined_def os_mkdir_all_def syscall_def logged_def
      split: if_splits sum.splits prod.splits option.splits)

lemma temps_plain_mode: "temps_plain (a, noises) T = temps_plain (b, noises) T"
  by (simp add: temps_plain_def)

lemma write_view_grown:
  assumes "same_at T d0 d1" "write_view tmps T data m d1 d"
  shows "write_view tmps T data m d0 d"
  unfolding write_view_def
proof (intro allI impI)
  fix p assume p: "p \<notin> tmps"
  have T: "see d1 T = see d0 T" using assms(1) by (auto simp: same_at_def grown_def intro: see_cong)
  have "see d p = see d1 p \<or> (p \<noteq> T \<and> see d1 p = Absent \<and> see d p = ADirectory) \<or> (p = T \<and> see d p = AFile data m)"
    using assms(2) p by (simp add: write_view_def)
  then show "see d p = see d0 p \<or> (p \<noteq> T \<and> see d0 p = Absent \<and> see d p = ADirectory) \<or> (p = T \<and> see d p = AFile data m)"
    using grown_see [of d0 d1 p] assms(1) T by (cases "p = T") (auto simp: same_at_def)
qed

lemma same_at_view: "same_at T d0 d \<Longrightarrow> write_view tmps T data m d0 d"
  by (auto simp: same_at_def intro: grown_view)

lemma same_at_see: "same_at T d0 d \<Longrightarrow> see d T = see d0 T"
  by (auto simp: same_at_def grown_def intro: see_cong)

text \<open>What a disk may show while a file is written.\<close>

definition file_view :: "string set \<Rightarrow> string \<Rightarrow> string option \<Rightarrow> disk \<Rightarrow> disk \<Rightarrow> bool" where
  "file_view tmps T body d0 d \<longleftrightarrow> (\<forall>p. p \<notin> tmps \<longrightarrow>
     see d p = see d0 p \<or> (p \<noteq> T \<and> see d0 p = Absent \<and> see d p = ADirectory) \<or>
     (p = T \<and> (\<exists>b m. body = Some b \<and> see d T = AFile b m)))"

lemma write_file_view: "write_view tmps T b m d0 d \<Longrightarrow> file_view tmps T (Some b) d0 d"
  unfolding write_view_def file_view_def by blast

lemma same_at_file_view: "same_at T d0 d \<Longrightarrow> file_view tmps T body d0 d"
proof -
  assume a: "same_at T d0 d"
  have "see d p = see d0 p \<or> (p \<noteq> T \<and> see d0 p = Absent \<and> see d p = ADirectory)" for p
    using same_at_see [OF a] grown_see [of d0 d p] a by (cases "p = T") (auto simp: same_at_def)
  then show ?thesis unfolding file_view_def by blast
qed

end
