(* ===== verification/FileReads.thy ===== *)
theory FileReads
  imports FileStates
begin

text \<open>
  Whole-file writes, batch reads and transport encodings of \<open>fileops\<close>, and paths of a repository.
\<close>

section \<open>WriteFile\<close>

text \<open>The promise of a whole-file write of \<open>body\<close> with the expected hash \<open>expected\<close>.\<close>

definition write_promise ::
  "(string \<Rightarrow> string) \<Rightarrow> string option list \<Rightarrow> string \<Rightarrow> string option \<Rightarrow> string \<Rightarrow> os \<Rightarrow> 'e + ReplaceResult \<Rightarrow> os \<Rightarrow> bool" where
  "write_promise sha noises T body expected st r st' \<longleftrightarrow>
     logged (file_view (temps_plain (0x180, noises) T) T body (dsk st)) st st' \<and>
     (\<forall>res. r = Inr res \<longrightarrow> re_Changed res \<longrightarrow> (\<exists>b m. body = Some b \<and> see (dsk st') T = AFile b m)) \<and>
     (\<forall>data. content_at (dsk st) T = Some data \<and> expected \<noteq> [] \<and> sha data \<noteq> expected \<longrightarrow>
        logged (\<lambda>d. see d T = see (dsk st) T) st st' \<and> (\<forall>res. r = Inr res \<longrightarrow> \<not> re_Changed res))"

lemma promise_quiet:
  assumes "logged (same_at T (dsk st)) st st'" "\<And>res. r = Inr res \<Longrightarrow> \<not> re_Changed res"
  shows "write_promise sha noises T body expected st r st'"
proof -
  have "logged (file_view (temps_plain (0x180, noises) T) T body (dsk st)) st st'"
    using assms(1) by (rule logged_mono) (rule same_at_file_view)
  moreover have "logged (\<lambda>d. see d T = see (dsk st) T) st st'" using assms(1) by (rule logged_mono) (rule same_at_see)
  ultimately show ?thesis using assms(2) by (auto simp: write_promise_def)
qed

text \<open>Storing the content after the target was read, when no expected hash contradicts what is there.\<close>

lemma promise_stored:
  assumes s: "store scoped b p noises res s2 = (r, st')" and c: "cleanRelative (sf_name scoped) False = Inr T"
    and same: "same_at T (dsk st) (dsk s2)" "logged (same_at T (dsk st)) st s2"
    and ok: "disk_ok (next_ino s2) (dsk s2)" and fresh: "T \<notin> temps_plain (0x180, noises) T"
    and agrees: "\<And>data. content_at (dsk st) T = Some data \<Longrightarrow> expected = [] \<or> sha data = expected"
  shows "write_promise sha noises T (Some b) expected st r st'"
proof -
  let ?V = "file_view (temps_plain (0x180, noises) T) T (Some b) (dsk st)"
  have t: "T \<notin> temps_plain (p, noises) T" using fresh temps_plain_mode by blast
  obtain m where m: "logged (write_view (temps_plain (p, noises) T) T b m (dsk s2)) s2 st'"
      "\<forall>x. r = Inr x \<longrightarrow> x = res \<and> see (dsk st') T = AFile b m"
    using store_facts [OF s ok c t] by blast
  have "logged ?V s2 st'"
    using m(1)
  proof (rule logged_mono)
    fix d assume "write_view (temps_plain (p, noises) T) T b m (dsk s2) d"
    then have "write_view (temps_plain (0x180, noises) T) T b m (dsk st) d"
      using write_view_grown [OF same(1)] temps_plain_mode [of p noises T "0x180"] by simp
    then show "?V d" by (rule write_file_view)
  qed
  moreover have "logged ?V st s2" using same(2) by (rule logged_mono) (rule same_at_file_view)
  ultimately have "logged ?V st st'" using logged_trans by blast
  then show ?thesis using m(2) agrees by (auto simp: write_promise_def)
qed

text \<open>What a write does once the file is opened and read.\<close>

lemma write_opened:
  assumes run: "(case rd of
        Inr existing \<Rightarrow>
          (let oldHash = sha existing; newHash = sha b in
           if expected \<noteq> [] \<and> oldHash \<noteq> expected then (Inr (conflict (sf_display scoped) oldHash HashChanged), s2)
           else if oldHash = newHash then (Inr (untouched (sf_display scoped) oldHash ContentMatches), s2)
           else store scoped b 0x180 noises (changed (sf_display scoped) oldHash newHash) s2)
      | Inl e \<Rightarrow>
          if \<not> missing_error e then (Inl (FsFailed e), s2)
          else store scoped b perm noises (changed (sf_display scoped) [] (sha b)) s2) = (r, st')"
    and rd: "ReadFile (sf_name scoped) s1 = (rd, s2)" and T: "Clean (sf_name scoped) = T"
    and same: "same_at T (dsk st) (dsk s1)" "logged (same_at T (dsk st)) st s2" "dsk s2 = dsk s1"
    and ok: "disk_ok (next_ino s2) (dsk s2)" and fresh: "T \<notin> temps_plain (0x180, noises) T" and h: "honest s1"
  shows "write_promise sha noises T (Some b) expected st r st'"
proof (cases rd)
  case (Inl e)
  show ?thesis
  proof (cases "missing_error e")
    case False
    then have "st' = s2" "r = Inl (FsFailed e)" using run Inl by auto
    then show ?thesis using same(2) by (intro promise_quiet) auto
  next
    case True
    note M = ReadFile_missing [OF rd [unfolded Inl] True h, unfolded T]
    then have none: "content_at (dsk st) T = None"
      using content_at_grown [of "dsk st" "dsk s1"] same(1) by (cases "content_at (dsk st) T") (auto simp: same_at_def)
    have "store scoped b perm noises (changed (sf_display scoped) [] (sha b)) s2 = (r, st')" using run Inl True by simp
    from promise_stored [OF this conjunct1 [OF M] _ same(2) ok fresh] show ?thesis using none same by simp
  qed
next
  case (Inr existing)
  note C = ReadFile_facts(2) [OF rd Inr, unfolded T]
  have ex: "data = existing" if "content_at (dsk st) T = Some data" for data
    using content_at_grown [of "dsk st" "dsk s1" T data] same(1) that C by (auto simp: same_at_def)
  show ?thesis
  proof (cases "(expected \<noteq> [] \<and> sha existing \<noteq> expected) \<or> sha existing = sha b")
    case True
    then have "st' = s2 \<and> (r = Inr (conflict (sf_display scoped) (sha existing) HashChanged) \<or>
        r = Inr (untouched (sf_display scoped) (sha existing) ContentMatches))"
      using run Inr by (auto simp: Let_def split: if_splits)
    then show ?thesis using same(2) by (intro promise_quiet) (auto simp: conflict_def untouched_def)
  next
    case False
    then have "store scoped b 0x180 noises (changed (sf_display scoped) (sha existing) (sha b)) s2 = (r, st')"
      using run Inr by (auto simp: Let_def split: if_splits)
    from promise_stored [OF this conjunct1 [OF C] _ same(2) ok fresh] show ?thesis using ex False same by auto
  qed
qed

text \<open>
  Claim C35: a whole-file write is atomic and honours the expected hash.  Under any faults every disk exposed
  while it runs shows at each name, temporary files aside, what was there before, or a parent directory just
  made, or at the target the complete given content; a reported change means the target holds it.  If an
  expected hash is given and the file has another one, the target shows what it showed on every one of these
  disks, and no result reports a change.
\<close>

theorem WriteFile_guarded:
  assumes "WriteFile sha h noises req st = (r, st')" "disk_ok (next_ino st) (dsk st)"
    "T = edit_target h (wf_RepoPath req) (wf_Path req)" "T \<notin> temps_plain (0x180, noises) T" "honest st"
    "body = (case resolveContent (wf_Content req) (wf_ContentB64 req) of Inl e \<Rightarrow> None | Inr b \<Rightarrow> Some b)"
  shows "logged (file_view (temps_plain (0x180, noises) T) T body (dsk st)) st st' \<and>
    (\<forall>res. r = Inr res \<longrightarrow> re_Changed res \<longrightarrow> (\<exists>b m. body = Some b \<and> see (dsk st') T = AFile b m)) \<and>
    (\<forall>data. content_at (dsk st) T = Some data \<and> wf_ExpectedHash req \<noteq> [] \<and> sha data \<noteq> wf_ExpectedHash req \<longrightarrow>
       logged (\<lambda>d. see d T = see (dsk st) T) st st' \<and> (\<forall>res. r = Inr res \<longrightarrow> \<not> re_Changed res))"
proof -
  let ?P = "write_promise sha noises T body (wf_ExpectedHash req) st r st'"
  obtain o1 s1 where op: "openScopedFile h (wf_RepoPath req) (wf_Path req) True st = (o1, s1)" by (metis surj_pair)
  have ?P
  proof (cases "\<exists>b perm scoped. TrimSpace (wf_Path req) \<noteq> [] \<and> body = Some b \<and> b \<noteq> [] \<and>
      validatedFileMode (wf_Mode req) 0x1A4 = Inr perm \<and> o1 = Inr scoped")
    case False
    have r: "\<not> isOk r \<and> (st' = st \<or> (\<exists>e. o1 = Inl e \<and> st' = s1))"
      using False assms(1,6) op by (auto simp: WriteFile_def split: if_splits sum.splits)
    then have "logged (\<lambda>d. d = dsk st) st st'"
      using openScoped_failed [of h "wf_RepoPath req" "wf_Path req" True st _ s1] op by auto
    then have "logged (same_at T (dsk st)) st st'" by (rule logged_mono) (simp add: same_at_def)
    then show ?thesis using r by (intro promise_quiet) auto
  next
    case True
    then obtain b perm scoped where g: "TrimSpace (wf_Path req) \<noteq> []" "body = Some b" "b \<noteq> []"
      "validatedFileMode (wf_Mode req) 0x1A4 = Inr perm" "o1 = Inr scoped" by blast
    have rb: "resolveContent (wf_Content req) (wf_ContentB64 req) = Inr b"
      using assms(6) g(2) by (auto split: sum.splits)
    note G = openScoped_grows [OF op [unfolded g(5)] assms(3)]
    note T = openScoped_target [OF op [unfolded g(5)], folded assms(3)]
    obtain rd s2 where rd: "ReadFile (sf_name scoped) s1 = (rd, s2)" by (metis surj_pair)
    have q: "dsk s2 = dsk s1" "next_ino s2 = next_ino s1" "logged (\<lambda>d. d = dsk s1) s1 s2"
      using ReadFile_facts(1) [OF rd] by (simp_all add: quiet_def)
    have sm: "same_at T (dsk st) (dsk s1)" using G by blast
    have "logged (same_at T (dsk st)) s1 s2" using q(3) by (rule logged_mono) (simp add: sm)
    then have same: "logged (same_at T (dsk st)) st s2" using G logged_trans by blast
    have ok: "disk_ok (next_ino s2) (dsk s2)" using G assms(2) sm q grown_disk_ok by (auto simp: same_at_def)
    have "honest s1" using G assms(5) by (simp add: honest_def)
    from write_opened [OF _ rd T sm same q(1) ok assms(4) this] show ?thesis
      using assms(1) g rb op rd by (simp add: WriteFile_def)
  qed
  then show ?thesis by (simp add: write_promise_def)
qed

definition example_write_file :: WriteFileRequest where
  "example_write_file = \<lparr>wf_RepoPath = ''/r'', wf_Path = ''./f'', wf_Content = ''new'', wf_ContentB64 = [],
     wf_ExpectedHash = ''1009'', wf_Mode = 0\<rparr>"

lemma example_write_file_run:
  "\<exists>st'. WriteFile example_digest example_host [Some ''00''] example_write_file (machine no_faults 0x12) =
     (Inr (conflict ''/r/f'' ''1003'' HashChanged), st')"
proof -
  have f: "resolveContent ''new'' [] = Inr ''new''" "TrimSpace ''./f'' \<noteq> []" "validatedFileMode 0 0x1A4 = Inr 0x1A4"
    "example_digest ''old'' = ''1003''" by code_simp+
  have opened: "openScopedFile example_host ''/r'' ''./f'' True (machine no_faults 0x12) =
      (Inr \<lparr>sf_root = ''/r'', sf_name = ''f'', sf_display = ''/r/f'', sf_relative = ''f''\<rparr>, machine no_faults 0x12)"
  proof -
    have "repoRelativePath ''/w'' ''/r'' ''./f'' = Inr (''/r/f'', ''f'')" "TrimSpace ''/r'' \<noteq> []"
      "cleanRootPath ''/w'' ''/r'' = Inr ''/r''" "Dir ''f'' = ''.''" by code_simp+
    then show ?thesis by (simp add: openScopedFile_def OpenRoot_def example_host_def)
  qed
  define s2 where "s2 = snd (ReadFile ''f'' (machine no_faults 0x12))"
  have "ReadFile ''f'' (machine no_faults 0x12) = (Inr ''old'', s2)"
    using example_read(1) [of "0x12"] by (simp add: s2_def)
  then show ?thesis by (simp add: WriteFile_def example_write_file_def f opened)
qed

theorem WriteFile_guarded_witness:
  "\<exists>st'. WriteFile example_digest example_host [Some ''00''] example_write_file (machine no_faults 0x12) =
       (Inr (conflict ''/r/f'' ''1003'' HashChanged), st') \<and>
     logged (\<lambda>d. see d ''f'' = see (dsk (machine no_faults 0x12)) ''f'') (machine no_faults 0x12) st'"
proof -
  obtain st' where r: "WriteFile example_digest example_host [Some ''00''] example_write_file (machine no_faults 0x12) =
       (Inr (conflict ''/r/f'' ''1003'' HashChanged), st')" using example_write_file_run by blast
  have f: "''f'' = edit_target example_host (wf_RepoPath example_write_file) (wf_Path example_write_file)"
    "wf_ExpectedHash example_write_file \<noteq> [] \<and> example_digest ''old'' \<noteq> wf_ExpectedHash example_write_file" by code_simp+
  have h: "honest (machine no_faults 0x12)" by (simp add: honest_def machine_def no_faults_def)
  from WriteFile_guarded [OF r machine_ok f(1) example_plain_temps h refl] show ?thesis
    using r f(2) example_content by blast
qed

section \<open>Batch reads\<close>

lemma openScoped_pure: "openScopedFile h repo f False st = (o1, st1) \<Longrightarrow> st1 = st"
  by (auto simp: openScopedFile_def Let_def split: if_splits sum.splits)

lemma opened_content:
  assumes "confined False os_open p st = (Inr fd, s1)" "os_read fd n s1 = (Inr data, s2)" "length data < n"
  shows "content_at (dsk st) (Clean p) = Some data"
proof -
  obtain c where c: "cleanRelative p False = Inr c" "os_open c st = (Inr fd, s1)"
    using assms(1) by (auto simp: confined_def split: sum.splits prod.splits)
  then have "c = Clean p" by (auto simp: cleanRelative_def Let_def split: if_splits)
  with c os_open_ok obtain t where t: "follow 41 (dsk st) (Clean p) = Inr t" "root_node (dsk st) t = Some (File fd)"
    "dsk s1 = dsk st" by blast
  from assms(2) obtain x where "inodes (dsk s1) fd = Some x" "data = take n (content x)"
    by (auto simp: os_read_def syscall_def split: option.splits)
  then show ?thesis using t assms(3) by (simp add: content_at_def)
qed

text \<open>A limited read leaves the disk alone; the content it returns is the whole file, within the limit.\<close>

lemma limited_read:
  assumes "readFileContentInRepoLimited sha h repo p n st = (r, st')"
  shows "quiet st st'"
    "r = Inr (fc, False) \<Longrightarrow> fc_Exists fc \<Longrightarrow> \<exists>data path rel. content_at (dsk st) (edit_target h repo p) = Some data \<and>
       length data \<le> n \<and> fc = full_content sha path repo rel data"
proof -
  obtain o1 s1 where o: "openScopedFile h repo p False st = (o1, s1)" by (metis surj_pair)
  have s1: "s1 = st" using o by (rule openScoped_pure)
  have both: "quiet st st' \<and> (r = Inr (fc, False) \<longrightarrow> fc_Exists fc \<longrightarrow>
    (\<exists>data path rel. content_at (dsk st) (edit_target h repo p) = Some data \<and> length data \<le> n \<and>
       fc = full_content sha path repo rel data))" (is "?Q \<and> ?C")
  proof (cases o1)
    case (Inl e)
    then show ?thesis using assms o s1 by (auto simp: readFileContentInRepoLimited_def)
  next
    case (Inr scoped)
    note T = openScoped_target [OF o [unfolded Inr]]
    obtain sr s2 where s2: "Stat (sf_name scoped) st = (sr, s2)" by (metis surj_pair)
    have q2: "quiet st s2"
      using s2 by (auto simp: Stat_def confined_def dest: os_stat_same intro: quiet_commit split: sum.splits prod.splits)
    obtain orr s3 where s3: "confined False os_open (sf_name scoped) s2 = (orr, s3)" by (metis surj_pair)
    have q3: "quiet s2 s3"
      using s3 by (auto simp: confined_def dest: os_open_same intro: quiet_commit split: sum.splits prod.splits)
    show ?thesis
    proof (cases "\<exists>info fd i. sr = Inr info \<and> fi_node info = File i \<and> fi_size info \<le> n \<and> orr = Inr fd")
      case False
      have "st' = s2 \<or> st' = s3" "r = Inr (fc, False) \<longrightarrow> \<not> fc_Exists fc"
        using assms o Inr s1 s2 s3 False
        by (auto simp: readFileContentInRepoLimited_def empty_content_def Let_def
            split: sum.splits if_splits node.splits)
      then show ?thesis using q2 q3 quiet_trans by blast
    next
      case True
      then obtain info fd i where g: "sr = Inr info" "fi_node info = File i" "\<not> n < fi_size info" "orr = Inr fd"
        by (auto simp: not_less)
      obtain rr s4 where s4: "os_read fd (n + 1) s3 = (rr, s4)" by (metis surj_pair)
      obtain cr s5 where s5: "os_close fd s4 = (cr, s5)" by (metis surj_pair)
      have q: "quiet st s5"
        using q2 q3 os_read_same [OF s4] os_close_same [OF s5] quiet_commit quiet_trans by metis
      have run: "(r, st') = (case rr of Inl e \<Rightarrow> (Inl (OsFailed e), s5)
        | Inr data \<Rightarrow>
            (if length data > n then
               (Inr (empty_content (sf_display scoped) repo (sf_relative scoped) (length data) True, True), s5)
             else (Inr (full_content sha (sf_display scoped) repo (sf_relative scoped) data, False), s5)))"
        using assms o Inr s1 s2 s3 s4 s5 g
        by (cases rr) (auto simp: readFileContentInRepoLimited_def Let_def split: if_splits)
      show ?thesis
      proof (cases "\<exists>data. rr = Inr data \<and> length data \<le> n")
        case False
        then show ?thesis using run q by (auto split: sum.splits if_splits)
      next
        case True
        then obtain data where d: "rr = Inr data" "length data \<le> n" by blast
        have "content_at (dsk s2) (Clean (sf_name scoped)) = Some data"
          using opened_content [OF s3 [unfolded g(4)] s4 [unfolded d(1)]] d(2) by simp
        then have "content_at (dsk st) (edit_target h repo p) = Some data" using q2 by (simp add: T quiet_def)
        then show ?thesis using run q d by (auto split: if_splits)
      qed
    qed
  qed
  then show "quiet st st'" by blast
  show "r = Inr (fc, False) \<Longrightarrow> fc_Exists fc \<Longrightarrow> \<exists>data path rel. content_at (dsk st) (edit_target h repo p) = Some data \<and>
       length data \<le> n \<and> fc = full_content sha path repo rel data" using both by blast
qed

text \<open>One result of a batch: nothing is returned, or the lines of the file, whole and within the limit.\<close>

definition read_answer :: "(string \<Rightarrow> string) \<Rightarrow> host \<Rightarrow> disk \<Rightarrow> string \<Rightarrow> string \<Rightarrow> ReadFilesFileResult \<Rightarrow> bool" where
  "read_answer sha h d repo path fr \<longleftrightarrow>
     (if rf_Error fr = None \<and> \<not> rf_Truncated fr
      then (\<exists>data. content_at d (edit_target h repo path) = Some data \<and> length data \<le> maxReadFileBytes \<and>
              rf_Hash fr = sha data \<and> rf_Size fr = length data \<and> rf_Lines fr = file_lines data)
      else rf_Lines fr = [])"

text \<open>The bytes returned in full, and their number.\<close>

definition returned :: "ReadFilesFileResult list \<Rightarrow> ReadFilesFileResult list" where
  "returned = filter (\<lambda>fr. rf_Error fr = None \<and> \<not> rf_Truncated fr)"

lemma returned_simps [simp]: "returned [] = []" "returned (a @ b) = returned a @ returned b"
  "returned [fr] = (if rf_Error fr = None \<and> \<not> rf_Truncated fr then [fr] else [])"
  by (auto simp: returned_def)

definition batch_ok :: "ReadFilesResult \<Rightarrow> bool" where
  "batch_ok res \<longleftrightarrow> rs_ReturnedFiles res = length (returned (rs_Files res)) \<and>
     rs_ReturnedBytes res = sum_list (map rf_Size (returned (rs_Files res))) \<and>
     rs_ReturnedBytes res \<le> maxReadFilesTotalBytes \<and> (rs_Truncated res \<longleftrightarrow> (\<exists>fr \<in> set (rs_Files res). rf_Truncated fr))"

lemma read_one_step:
  assumes "readFileContentInRepoLimited sha h repo p maxReadFileBytes st = (r, st')" "read_one p used r = (fr, bytes)"
  shows "read_answer sha h (dsk st) repo p fr"
    "bytes = (if rf_Error fr = None \<and> \<not> rf_Truncated fr then Some (rf_Size fr) else None)"
    "bytes = Some k \<Longrightarrow> used + k \<le> maxReadFilesTotalBytes"
proof -
  have "read_answer sha h (dsk st) repo p fr \<and>
    bytes = (if rf_Error fr = None \<and> \<not> rf_Truncated fr then Some (rf_Size fr) else None) \<and>
    (bytes = Some k \<longrightarrow> used + k \<le> maxReadFilesTotalBytes)"
  proof (cases r)
    case (Inl e)
    then show ?thesis using assms(2) by (auto simp: read_one_def read_answer_def)
  next
    case (Inr x)
    obtain fc b where x: "x = (fc, b)" by fastforce
    show ?thesis
    proof (cases "fc_Exists fc \<and> \<not> b \<and> used + fc_Size fc \<le> maxReadFilesTotalBytes")
      case False
      then show ?thesis using assms(2) Inr x by (auto simp: read_one_def read_answer_def Let_def split: if_splits)
    next
      case True
      obtain data path rel where d: "content_at (dsk st) (edit_target h repo p) = Some data" "length data \<le> maxReadFileBytes"
        "fc = full_content sha path repo rel data"
        using limited_read(2) [OF assms(1), of fc] Inr x True by auto
      then show ?thesis using assms(2) Inr x True
        by (auto simp: read_one_def read_answer_def Let_def full_content_def empty_content_def split: if_splits)
    qed
  qed
  then show "read_answer sha h (dsk st) repo p fr"
    "bytes = (if rf_Error fr = None \<and> \<not> rf_Truncated fr then Some (rf_Size fr) else None)"
    "bytes = Some k \<Longrightarrow> used + k \<le> maxReadFilesTotalBytes" by blast+
qed

lemma read_loop_spec:
  assumes "read_loop sha h repo paths res st = (res', st')" "batch_ok res"
  shows "quiet st st' \<and> batch_ok res' \<and> rs_TotalFiles res' = rs_TotalFiles res \<and>
    (\<exists>frs. rs_Files res' = rs_Files res @ frs \<and> list_all2 (read_answer sha h (dsk st) repo) paths frs)"
  using assms
proof (induction paths arbitrary: res st)
  case Nil
  then show ?case by simp
next
  case (Cons p ps)
  obtain r st1 where a: "readFileContentInRepoLimited sha h repo p maxReadFileBytes st = (r, st1)" by (metis surj_pair)
  obtain fr bytes where b: "read_one p (rs_ReturnedBytes res) r = (fr, bytes)" by (metis surj_pair)
  note q = limited_read(1) [OF a]
  note S = read_one_step [OF a b]
  define res1 where "res1 = res\<lparr>rs_Files := rs_Files res @ [fr],
              rs_Truncated := (rs_Truncated res \<or> rf_Truncated fr),
              rs_ReturnedFiles := rs_ReturnedFiles res + (if bytes = None then 0 else 1),
              rs_ReturnedBytes := rs_ReturnedBytes res + (case bytes of None \<Rightarrow> 0 | Some n \<Rightarrow> n)\<rparr>"
  have run: "read_loop sha h repo ps res1 st1 = (res', st')" using Cons.prems(1) a b by (simp add: res1_def)
  have ok: "batch_ok res1"
    using Cons.prems(2) S(2,3) unfolding batch_ok_def res1_def by (cases bytes) (auto split: if_splits)
  obtain frs where F: "quiet st1 st'" "batch_ok res'" "rs_TotalFiles res' = rs_TotalFiles res1"
    "rs_Files res' = rs_Files res1 @ frs" "list_all2 (read_answer sha h (dsk st1) repo) ps frs"
    using Cons.IH [OF run ok] by blast
  have "dsk st1 = dsk st" using q by (simp add: quiet_def)
  then have "rs_Files res' = rs_Files res @ (fr # frs)" "list_all2 (read_answer sha h (dsk st) repo) (p # ps) (fr # frs)"
    "rs_TotalFiles res' = rs_TotalFiles res"
    using F S(1) by (simp_all add: res1_def)
  then show ?case using F(1,2) q quiet_trans by blast
qed

text \<open>
  Batch reads are bounded and honest.  A batch read leaves the disk alone at every moment and returns
  one result per path, in order, for at most eight paths.  A result either returns no lines, or the numbered
  lines, the size and the hash of the whole file, of at most 64 KiB; together the returned files have at most
  128 KiB, and the counts of the batch are those of its results.
\<close>

theorem ReadFilesInRepo_bounded:
  assumes "ReadFilesInRepo sha h repo paths st = (Inr res, st')"
  shows "quiet st st' \<and> length paths \<le> 8 \<and> rs_TotalFiles res = length paths \<and>
    list_all2 (\<lambda>path fr.
       if rf_Error fr = None \<and> \<not> rf_Truncated fr
       then (\<exists>data. content_at (dsk st) (edit_target h repo path) = Some data \<and> length data \<le> 65536 \<and>
               rf_Hash fr = sha data \<and> rf_Size fr = length data \<and> rf_Lines fr = file_lines data)
       else rf_Lines fr = []) paths (rs_Files res) \<and>
    rs_ReturnedFiles res = length (filter (\<lambda>fr. rf_Error fr = None \<and> \<not> rf_Truncated fr) (rs_Files res)) \<and>
    rs_ReturnedBytes res = sum_list (map rf_Size (filter (\<lambda>fr. rf_Error fr = None \<and> \<not> rf_Truncated fr) (rs_Files res))) \<and>
    rs_ReturnedBytes res \<le> 131072 \<and> (rs_Truncated res \<longleftrightarrow> (\<exists>fr. fr \<in> set (rs_Files res) \<and> rf_Truncated fr))"
proof -
  let ?zero = "\<lparr>rs_RepoPath = repo, rs_Files = [], rs_TotalFiles = length paths, rs_ReturnedFiles = 0,
                rs_ReturnedBytes = 0, rs_Truncated = False\<rparr>"
  have run: "read_loop sha h repo paths ?zero st = (res, st')" and n: "length paths \<le> 8"
    using assms by (auto simp: ReadFilesInRepo_def maxReadFilesPaths_def split: if_splits prod.splits)
  have "batch_ok ?zero" by (simp add: batch_ok_def)
  from read_loop_spec [OF run this]
  have "quiet st st'" "batch_ok res" "rs_TotalFiles res = length paths"
    "list_all2 (read_answer sha h (dsk st) repo) paths (rs_Files res)" by auto
  note F = this
  have m: "maxReadFileBytes = 65536" "maxReadFilesTotalBytes = 131072"
    by (simp_all add: maxReadFileBytes_def maxReadFilesTotalBytes_def)
  from F [unfolded batch_ok_def returned_def read_answer_def [abs_def] m Bex_def] n show ?thesis
    by (elim conjE) (intro conjI; (assumption | simp only:))
qed

lemma example_limited:
  assumes "3 \<le> n"
  shows "\<exists>st'. readFileContentInRepoLimited example_digest example_host ''/r'' ''./f'' n (machine no_faults 0x12) =
      (Inr (full_content example_digest ''/r/f'' ''/r'' ''f'' ''old'', False), st')"
proof -
  have c: "cleanRelative ''f'' True = Inr ''f''" by code_simp
  have f: "follow 41 (dsk (machine no_faults 0x12)) ''f'' = Inr ''f''"
    by (simp add: machine_def eval_nat_numeral)
  have t: "take (Suc n) ''old'' = ''old''" using assms by simp
  show ?thesis
    using assms f t
    by (auto simp: readFileContentInRepoLimited_def example_opened Stat_def confined_def c clean_f abs_f
        machine_def no_faults_def os_open_def os_read_def os_stat_def os_close_def file_info_def root_node_def
        syscall_def faulty_def commit_def)
qed

lemma example_batch:
  "\<exists>res st'. ReadFilesInRepo example_digest example_host ''/r'' [''./f''] (machine no_faults 0x12) = (Inr res, st') \<and>
     rs_ReturnedBytes res = 3"
proof -
  have "3 \<le> maxReadFileBytes" "3 \<le> maxReadFilesTotalBytes" by (simp_all add: maxReadFileBytes_def maxReadFilesTotalBytes_def)
  with example_limited [of maxReadFileBytes] show ?thesis
    by (auto simp: ReadFilesInRepo_def maxReadFilesPaths_def read_one_def full_content_def empty_content_def)
qed

theorem ReadFilesInRepo_bounded_witness:
  "\<exists>res st'. ReadFilesInRepo example_digest example_host ''/r'' [''./f''] (machine no_faults 0x12) = (Inr res, st') \<and>
     rs_ReturnedBytes res = 3 \<and> length (rs_Files res) = 1 \<and> quiet (machine no_faults 0x12) st'"
proof -
  obtain res st' where r: "ReadFilesInRepo example_digest example_host ''/r'' [''./f''] (machine no_faults 0x12) = (Inr res, st')"
    "rs_ReturnedBytes res = 3" using example_batch by blast
  note B = ReadFilesInRepo_bounded [OF r(1)]
  have "length [''./f''] = length (rs_Files res)" using B by (elim conjE) (rule list_all2_lengthD)
  then show ?thesis using r B by simp
qed

end
