(* ===== verification/FileSearch.thy ===== *)
theory FileSearch
  imports FileEdits "HOL-Library.Char_ord" "HOL-Library.List_Lexorder"
begin

text \<open>
  The search of \<open>fileops\<close> (\<open>fileops/search.go\<close>, \<open>gitignore.go\<close>, \<open>search_types.go\<close>).  Globs and patterns become texts of
  regular expressions exactly as the code writes them; the engine that compiles them is the argument \<open>rc\<close>, a
  compiled expression is the record \<open>Regexp\<close> of what the code asks of it.  The directory below the search root
  is a tree, as \<open>fs.WalkDir\<close> meets it: entries in ascending order, symbolic links not followed, what reading a
  file gives at its leaves.  Ignore files are read by name (\<open>sr_read\<close>).  The loops that append lines, count and
  stop at the cap are written as one list of chunks per file, each chunk the lines that are appended before the
  counter goes up, and one loop (\<open>emit\<close>) that appends chunks and stops at the cap.
\<close>

record Regexp =
  rx_match :: "string \<Rightarrow> bool"
  rx_locs :: "string \<Rightarrow> (nat \<times> nat) list"             \<comment> \<open>spans of all matches in a line\<close>
  rx_expand :: "string \<Rightarrow> string \<Rightarrow> nat \<times> nat \<Rightarrow> string"  \<comment> \<open>template, line, span\<close>
  rx_replace :: "string \<Rightarrow> string \<Rightarrow> string"            \<comment> \<open>line, template\<close>

type_synonym rx_compiler = "string \<Rightarrow> Regexp option"

section \<open>Patterns\<close>

record SearchOptions =
  so_Pattern :: string
  so_Regex :: bool
  so_IgnoreCase :: bool
  so_SmartCase :: bool
  so_Glob :: "string list"
  so_GlobExclude :: "string list"
  so_NoIgnore :: bool
  so_Type :: "string list"
  so_TypeNot :: "string list"
  so_WordMatch :: bool
  so_LineRegexp :: bool
  so_ContextBefore :: int
  so_ContextAfter :: int
  so_FilesOnly :: bool
  so_CountOnly :: bool
  so_Invert :: bool
  so_OnlyMatching :: bool
  so_Replace :: string
  so_MaxMatches :: int

datatype search_error =
    OnlyMatchingInvert | CountAndFiles | InvalidRegex string | UnknownType string "string list"
  | SearchPathMissing string string string | SearchRoot root_error | SearchPath edit_error

definition validateSearchOptions :: "SearchOptions \<Rightarrow> search_error option" where
  "validateSearchOptions opts =
     (if so_OnlyMatching opts \<and> so_Invert opts then Some OnlyMatchingInvert
      else if so_CountOnly opts \<and> so_FilesOnly opts then Some CountAndFiles
      else None)"

text \<open>\<open>regexp.QuoteMeta\<close>.\<close>

definition QuoteMeta :: "string \<Rightarrow> string" where
  "QuoteMeta s = concat (map (\<lambda>c. if c \<in> set (BSLASH # ''.+*?()|[]{}^$'') then [BSLASH, c] else [c]) s)"

datatype searchMatcher = Literal string bool | Rx Regexp

definition newSearchMatcher :: "rx_compiler \<Rightarrow> SearchOptions \<Rightarrow> search_error + searchMatcher" where
  "newSearchMatcher rc opts =
     (let icase = so_IgnoreCase opts \<or> (so_SmartCase opts \<and> so_Pattern opts = ToLower (so_Pattern opts));
          forceRegex = so_Regex opts \<or> so_WordMatch opts \<or> so_LineRegexp opts \<or> so_OnlyMatching opts \<or> so_Replace opts \<noteq> [] in
      if \<not> forceRegex then
        Inr (Literal (if icase then ToLower (so_Pattern opts) else so_Pattern opts) icase)
      else
        let e1 = (if so_Regex opts then so_Pattern opts else QuoteMeta (so_Pattern opts));
            e2 = (if so_WordMatch opts then (BSLASH # ''b(?:'') @ e1 @ '')'' @ (BSLASH # ''b'') else e1);
            e3 = (if so_LineRegexp opts then ''^(?:'' @ e2 @ '')$'' else e2);
            expr = (if icase then ''(?i)'' @ e3 else e3) in
        (case rc expr of None \<Rightarrow> Inl (InvalidRegex (so_Pattern opts)) | Some re \<Rightarrow> Inr (Rx re)))"

fun matcher_matches :: "searchMatcher \<Rightarrow> string \<Rightarrow> bool" where
  "matcher_matches (Rx re) line = rx_match re line"
| "matcher_matches (Literal lit ic) line = Contains (if ic then ToLower line else line) lit"

fun onlyMatches :: "searchMatcher \<Rightarrow> string \<Rightarrow> string \<Rightarrow> string list" where
  "onlyMatches (Literal lit ic) line replace = [line]"
| "onlyMatches (Rx re) line replace =
     map (\<lambda>loc. if replace \<noteq> [] then rx_expand re replace line loc
                else take (snd loc - fst loc) (drop (fst loc) line)) (rx_locs re line)"

section \<open>Globs\<close>

text \<open>\<open>regexp.QuoteMeta(string(b))\<close> for a byte \<open>b\<close>: a byte beyond ASCII becomes the two bytes of its rune.\<close>

definition quote_byte :: "char \<Rightarrow> string" where
  "quote_byte c =
     (if byteval c < 128 then QuoteMeta [c]
      else [char_of (192 + byteval c div 64), char_of (128 + byteval c mod 64)])"

function translateGlob :: "string \<Rightarrow> string" where
  "translateGlob [] = []"
| "translateGlob (c # cs) =
     (if c = CHR ''*'' then
        (if HasPrefix cs ''*'' then
           (if HasPrefix (drop 1 cs) ''/'' then ''(?:.*/)?'' @ translateGlob (drop 2 cs)
            else ''.*'' @ translateGlob (drop 1 cs))
         else ''[^/]*'' @ translateGlob cs)
      else if c = CHR ''?'' then ''[^/]'' @ translateGlob cs
      else if c = CHR ''['' then
        (case Index cs '']'' of
           None \<Rightarrow> [BSLASH, CHR ''[''] @ translateGlob cs
         | Some e \<Rightarrow>
             (let class = take e cs; class' = (if HasPrefix class ''!'' then CHR ''^'' # drop 1 class else class) in
              ''['' @ class' @ '']'' @ translateGlob (drop (Suc e) cs)))
      else if c = BSLASH then
        (case cs of
           [] \<Rightarrow> QuoteMeta [BSLASH]
         | d # ds \<Rightarrow> quote_byte d @ translateGlob ds)
      else quote_byte c @ translateGlob cs)"
  by pat_completeness auto
termination
  by (relation "measure length") auto

definition anchored_glob :: "string \<Rightarrow> string" where
  "anchored_glob pattern = ''^'' @ translateGlob pattern @ ''$''"

text \<open>The compiled globs, each with whether it is matched against the base name.\<close>

type_synonym globSet = "(Regexp \<times> bool) list"

fun compileGlobSet :: "rx_compiler \<Rightarrow> string list \<Rightarrow> globSet" where
  "compileGlobSet rc [] = []"
| "compileGlobSet rc (p # ps) =
     (case rc (anchored_glob p) of
        None \<Rightarrow> compileGlobSet rc ps
      | Some re \<Rightarrow> (re, \<not> Contains p [SLASH]) # compileGlobSet rc ps)"

definition globs_match :: "globSet \<Rightarrow> string \<Rightarrow> bool" where
  "globs_match g relative = list_ex (\<lambda>(re, byBase). rx_match re (if byBase then Base relative else relative)) g"

section \<open>File types (\<open>search_types.go\<close>)\<close>

definition searchTypeGlobs :: "(string \<times> string list) list" where
  "searchTypeGlobs =
    [(''c'', [''*.c'', ''*.h'']),
     (''cpp'', [''*.cpp'', ''*.cc'', ''*.cxx'', ''*.hpp'', ''*.hh'', ''*.h'']),
     (''cs'', [''*.cs'']), (''css'', [''*.css'']), (''go'', [''*.go'']),
     (''html'', [''*.html'', ''*.htm'']), (''java'', [''*.java'']), (''js'', [''*.js'', ''*.mjs'', ''*.cjs'']),
     (''json'', [''*.json'']), (''kt'', [''*.kt'', ''*.kts'']), (''lua'', [''*.lua'']),
     (''make'', [''Makefile'', ''makefile'', ''GNUmakefile'', ''*.mk'']),
     (''md'', [''*.md'', ''*.markdown'']), (''php'', [''*.php'']), (''py'', [''*.py'']), (''rb'', [''*.rb'']),
     (''rs'', [''*.rs'']), (''sh'', [''*.sh'', ''*.bash'', ''*.zsh'']), (''sql'', [''*.sql'']),
     (''swift'', [''*.swift'']), (''toml'', [''*.toml'']), (''ts'', [''*.ts'', ''*.tsx'']), (''vim'', [''*.vim'']),
     (''xml'', [''*.xml'']), (''yaml'', [''*.yaml'', ''*.yml''])]"

definition searchTypeAliases :: "(string \<times> string) list" where
  "searchTypeAliases =
    [(''golang'', ''go''), (''javascript'', ''js''), (''markdown'', ''md''), (''python'', ''py''),
     (''rust'', ''rs''), (''typescript'', ''ts'')]"

fun type_loop :: "string list \<Rightarrow> search_error + string list" where
  "type_loop [] = Inr []"
| "type_loop (name # ns) =
     (let key0 = ToLower (TrimSpace name);
          key = (case map_of searchTypeAliases key0 of Some a \<Rightarrow> a | None \<Rightarrow> key0) in
      case map_of searchTypeGlobs key of
        None \<Rightarrow> Inl (UnknownType name (sort (map fst searchTypeGlobs)))
      | Some gs \<Rightarrow> rbind (type_loop ns) (\<lambda>rest. Inr (gs @ rest)))"

definition typeGlobs :: "string list \<Rightarrow> search_error + string list" where
  "typeGlobs ns = (if ns = [] then Inr [] else type_loop ns)"

section \<open>Ignore files (\<open>gitignore.go\<close>)\<close>

definition ignoreFileNames :: "string list" where
  "ignoreFileNames = [''.gitignore'', ''.ignore'', ''.rgignore'']"

record ignorePattern =
  ip_re :: Regexp
  ip_negate :: bool
  ip_dirOnly :: bool
  ip_byBase :: bool

text \<open>The loop drops the last character; the text is given last character first.\<close>

fun trim_blanks :: "string \<Rightarrow> string" where
  "trim_blanks [] = []"
| "trim_blanks (c # r) =
     (if c \<noteq> CHR '' '' \<and> c \<noteq> TAB then c # r
      else if HasPrefix r [BSLASH] then c # r
      else trim_blanks r)"

definition trimUnescapedTrailingSpace :: "string \<Rightarrow> string" where
  "trimUnescapedTrailingSpace line = rev (trim_blanks (rev line))"

definition parse_rule :: "rx_compiler \<Rightarrow> string \<Rightarrow> ignorePattern option" where
  "parse_rule rc raw =
     (let line = TrimRightP (\<lambda>c. c = CR) raw in
      if line = [] \<or> HasPrefix line ''#'' then None
      else
        let line1 = trimUnescapedTrailingSpace line;
            negate = HasPrefix line1 ''!'';
            line2 = (if negate then drop 1 line1
                     else if HasPrefix line1 [BSLASH, CHR ''!''] \<or> HasPrefix line1 [BSLASH, CHR ''#''] then drop 1 line1
                     else line1);
            dirOnly = HasSuffix line2 [SLASH];
            line3 = TrimSuffix line2 [SLASH];
            anchored = Contains line3 [SLASH];
            line4 = TrimPrefix line3 [SLASH] in
        if line4 = [] then None
        else map_option (\<lambda>re. \<lparr>ip_re = re, ip_negate = negate, ip_dirOnly = dirOnly, ip_byBase = \<not> anchored\<rparr>)
               (rc (anchored_glob line4)))"

definition parseIgnoreRules :: "rx_compiler \<Rightarrow> string \<Rightarrow> ignorePattern list" where
  "parseIgnoreRules rc body = List.map_filter (parse_rule rc) (SplitChar LF body)"

record dirIgnore =
  di_path :: string
  di_rules :: "ignorePattern list"

text \<open>A level's view of a path below its directory; \<open>None\<close>: the path is not below it.\<close>

definition level_view :: "dirIgnore \<Rightarrow> string \<Rightarrow> string option" where
  "level_view level entryPath =
     (if di_path level = ''.'' then Some entryPath
      else let rel = TrimPrefix entryPath (di_path level @ [SLASH]) in
        if rel = entryPath then None else Some rel)"

definition rule_hits :: "string \<Rightarrow> bool \<Rightarrow> ignorePattern \<Rightarrow> bool" where
  "rule_hits rel isDir p \<longleftrightarrow>
     (ip_dirOnly p \<longrightarrow> isDir) \<and> rx_match (ip_re p) (if ip_byBase p then Base rel else rel)"

text \<open>The deepest level first, in a level the last rule first; the first hit decides.\<close>

fun levels_decide :: "dirIgnore list \<Rightarrow> string \<Rightarrow> bool \<Rightarrow> bool" where
  "levels_decide [] entryPath isDir = False"
| "levels_decide (level # up) entryPath isDir =
     (case level_view level entryPath of
        None \<Rightarrow> levels_decide up entryPath isDir
      | Some rel \<Rightarrow>
          (case List.find (rule_hits rel isDir) (rev (di_rules level)) of
             Some p \<Rightarrow> \<not> ip_negate p
           | None \<Rightarrow> levels_decide up entryPath isDir))"

text \<open>The stack is kept with its last level first.\<close>

type_synonym ignoreStack = "dirIgnore list"

definition stack_ignores :: "ignoreStack \<Rightarrow> string \<Rightarrow> bool \<Rightarrow> bool" where
  "stack_ignores s entryPath isDir = levels_decide s entryPath isDir"

fun popLeftDirs :: "ignoreStack \<Rightarrow> string \<Rightarrow> ignoreStack" where
  "popLeftDirs [] entryPath = []"
| "popLeftDirs (level # s) entryPath =
     (if di_path level = ''.'' \<or> HasPrefix (entryPath @ [SLASH]) (di_path level @ [SLASH]) then level # s
      else popLeftDirs s entryPath)"

definition loadDirIgnore :: "rx_compiler \<Rightarrow> (string \<Rightarrow> string option) \<Rightarrow> string \<Rightarrow> dirIgnore" where
  "loadDirIgnore rc read dirPath =
     \<lparr>di_path = dirPath,
      di_rules = concat (map (\<lambda>name. case read (JoinPath [dirPath, name]) of
         None \<Rightarrow> [] | Some body \<Rightarrow> parseIgnoreRules rc body) ignoreFileNames)\<rparr>"

text \<open>The levels of the proper ancestors, grown from the root down: \<open>acc\<close> is the path so far.\<close>

fun ancestor_loop :: "rx_compiler \<Rightarrow> (string \<Rightarrow> string option) \<Rightarrow> string \<Rightarrow> string list \<Rightarrow> ignoreStack \<Rightarrow> ignoreStack" where
  "ancestor_loop rc read acc (p # q # ps) levels =
     (let acc' = (if acc = [] then p else acc @ SLASH # p) in
      ancestor_loop rc read acc' (q # ps) (loadDirIgnore rc read acc' # levels))"
| "ancestor_loop rc read acc _ levels = levels"

definition ancestorIgnoreLevels :: "rx_compiler \<Rightarrow> (string \<Rightarrow> string option) \<Rightarrow> string \<Rightarrow> ignoreStack" where
  "ancestorIgnoreLevels rc read walkRoot =
     (if walkRoot = ''.'' then [loadDirIgnore rc read ''.'']
      else ancestor_loop rc read [] (SplitChar SLASH walkRoot) [loadDirIgnore rc read ''.''])"

section \<open>The tree and the walk\<close>

text \<open>A leaf: what \<open>Info\<close> says (regular or not, and the size) and what opening, reading and closing gives.\<close>

record leaf =
  lf_info :: "(bool \<times> nat) option"
  lf_data :: "string option"

datatype fnode = FileNode leaf | DirNode "(string \<times> fnode) list"

fun is_dir :: "fnode \<Rightarrow> bool" where
  "is_dir (FileNode l) = False"
| "is_dir (DirNode es) = True"

datatype verdict = Continue | SkipDir | SkipAll

text \<open>\<open>fs.WalkDir\<close>; the flag says that the walk was ended by \<open>SkipAll\<close>.\<close>

function walk_node :: "(string \<Rightarrow> fnode \<Rightarrow> 's \<Rightarrow> verdict \<times> 's) \<Rightarrow> string \<Rightarrow> fnode \<Rightarrow> 's \<Rightarrow> bool \<times> 's"
  and walk_list :: "(string \<Rightarrow> fnode \<Rightarrow> 's \<Rightarrow> verdict \<times> 's) \<Rightarrow> string \<Rightarrow> (string \<times> fnode) list \<Rightarrow> 's \<Rightarrow> bool \<times> 's" where
  "walk_node visit p (FileNode l) s = (case visit p (FileNode l) s of (v, s1) \<Rightarrow> (v = SkipAll, s1))"
| "walk_node visit p (DirNode es) s =
     (case visit p (DirNode es) s of
        (Continue, s1) \<Rightarrow> walk_list visit p es s1
      | (SkipDir, s1) \<Rightarrow> (False, s1)
      | (SkipAll, s1) \<Rightarrow> (True, s1))"
| "walk_list visit p [] s = (False, s)"
| "walk_list visit p ((name, n) # es) s =
     (case walk_node visit (JoinPath [p, name]) n s of
        (True, s1) \<Rightarrow> (True, s1)
      | (False, s1) \<Rightarrow> walk_list visit p es s1)"
  by pat_completeness auto

termination
  by (relation "measure (\<lambda>x. case x of Inl (v, p, n, s) \<Rightarrow> size n | Inr (v, p, es, s) \<Rightarrow> size_list (\<lambda>e. Suc (size (snd e))) es)")
    (auto simp: size_prod_simp)


section \<open>One file\<close>

text \<open>\<open>path.Ext\<close>: from the last dot of the last element.\<close>

definition Ext :: "string \<Rightarrow> string" where
  "Ext p =
     (let base = rev (takeWhile (\<lambda>c. c \<noteq> SLASH) (rev p)); r = takeWhile (\<lambda>c. c \<noteq> CHR ''.'') (rev base) in
      if length r = length base then [] else CHR ''.'' # rev r)"

definition skippedExtensions :: "string list" where
  "skippedExtensions =
    [''.exe'', ''.dll'', ''.so'', ''.dylib'', ''.bin'', ''.jpg'', ''.png'', ''.gif'', ''.ico'',
     ''.zip'', ''.tar'', ''.gz'', ''.bz2'', ''.xz'', ''.7z'', ''.pdf'', ''.class'', ''.pyc'', ''.pyo'']"

definition maxSearchFile :: nat where "maxSearchFile = 1048576"   \<comment> \<open>1 shifted left by 20\<close>

definition hit_lines :: "searchMatcher \<Rightarrow> bool \<Rightarrow> string list \<Rightarrow> nat list" where
  "hit_lines m inverted lines = filter (\<lambda>i. matcher_matches m (lines ! i) \<noteq> inverted) [0..<length lines]"

definition match_line :: "string \<Rightarrow> string \<Rightarrow> nat \<Rightarrow> string \<Rightarrow> string" where
  "match_line relative sep i body = relative @ sep @ nat_digits (i + 1) @ '':'' @ body"

definition window_line :: "SearchOptions \<Rightarrow> searchMatcher \<Rightarrow> string \<Rightarrow> string list \<Rightarrow> nat list \<Rightarrow> nat \<Rightarrow> string" where
  "window_line opts m relative lines hits i =
     (if i \<in> set hits then
        match_line relative '':'' i
          (case m of Rx re \<Rightarrow> if so_Replace opts \<noteq> [] then rx_replace re (lines ! i) (so_Replace opts) else lines ! i
           | Literal l f \<Rightarrow> lines ! i)
      else match_line relative ''-'' i (lines ! i))"

text \<open>The windows of the hits: the line numbers each hit adds, \<open>emitted\<close> being the last one added so far.\<close>

fun window_loop :: "int \<Rightarrow> int \<Rightarrow> int \<Rightarrow> int \<Rightarrow> nat list \<Rightarrow> nat list list" where
  "window_loop before after n emitted [] = []"
| "window_loop before after n emitted (hit # hs) =
     (let s0 = wrap64 (int hit - before);
          s1 = (if s0 < 0 then 0 else s0);
          s2 = (if s1 \<le> emitted then emitted + 1 else s1);
          e0 = wrap64 (int hit + after);
          e1 = (if e0 \<ge> n then n - 1 else e0) in
      map nat [s2..e1] # window_loop before after n (if s2 \<le> e1 then e1 else emitted) hs)"

text \<open>What a file adds to the result, per counted unit.\<close>

definition text_chunks :: "SearchOptions \<Rightarrow> searchMatcher \<Rightarrow> string \<Rightarrow> string list \<Rightarrow> string list list" where
  "text_chunks opts m relative lines =
     (let hits = hit_lines m (so_Invert opts) lines in
      if hits = [] then []
      else if so_FilesOnly opts then [[relative]]
      else if so_CountOnly opts then [[relative @ '':'' @ nat_digits (length hits)]]
      else if so_OnlyMatching opts then
        concat (map (\<lambda>hit. map (\<lambda>t. [match_line relative '':'' hit t]) (onlyMatches m (lines ! hit) (so_Replace opts))) hits)
      else
        map (map (window_line opts m relative lines hits))
          (window_loop (so_ContextBefore opts) (so_ContextAfter opts) (int (length lines)) (-1) hits))"

definition text_lines :: "string \<Rightarrow> string list" where
  "text_lines data =
     (let lines = SplitChar LF (ReplaceAll data CRLF [LF]) in
      if length lines > 0 \<and> last lines = [] then butlast lines else lines)"

text \<open>What the walk callback shares.\<close>

record search_env =
  se_opts :: SearchOptions
  se_matcher :: searchMatcher
  se_include :: globSet
  se_exclude :: globSet
  se_root :: string           \<comment> \<open>where the walk starts\<close>
  se_rc :: rx_compiler
  se_read :: "string \<Rightarrow> string option"

definition relative_of :: "string \<Rightarrow> string \<Rightarrow> string" where
  "relative_of walkRoot entryPath =
     (if entryPath = walkRoot then ''.'' else TrimPrefix entryPath (walkRoot @ [SLASH]))"

text \<open>The chunks of a file that the ignore rules leave in.\<close>

definition file_chunks :: "search_env \<Rightarrow> string \<Rightarrow> leaf \<Rightarrow> string list list" where
  "file_chunks env entryPath l =
     (let relative0 = relative_of (se_root env) entryPath;
          relative = (if relative0 = ''.'' then Base entryPath else relative0) in
      if ToLower (Ext entryPath) \<in> set skippedExtensions then []
      else if isProtectedLeanPath entryPath then []
      else if se_include env \<noteq> [] \<and> \<not> globs_match (se_include env) relative then []
      else if se_exclude env \<noteq> [] \<and> globs_match (se_exclude env) relative then []
      else (case lf_info l of
          None \<Rightarrow> []
        | Some (regular, bytes) \<Rightarrow>
            if \<not> regular \<or> bytes > maxSearchFile then []
            else (case lf_data l of
                None \<Rightarrow> []
              | Some full \<Rightarrow>
                  (let data = take (maxSearchFile + 1) full in
                   if length data > maxSearchFile then []
                   else if NUL \<in> set data then []
                   else text_chunks (se_opts env) (se_matcher env) relative (text_lines data)))))"

section \<open>The search\<close>

record FoundResult =
  fo_Pattern :: string
  fo_Path :: string
  fo_Matches :: "string list"
  fo_Total :: nat
  fo_Truncated :: bool

text \<open>Append a chunk, count, stop at the cap.\<close>

fun emit :: "nat \<Rightarrow> string list list \<Rightarrow> FoundResult \<Rightarrow> bool \<times> FoundResult" where
  "emit cap [] r = (False, r)"
| "emit cap (c # cs) r =
     (let r1 = r\<lparr>fo_Matches := fo_Matches r @ c, fo_Total := fo_Total r + 1\<rparr> in
      if fo_Total r1 \<ge> cap then (True, r1\<lparr>fo_Truncated := True\<rparr>) else emit cap cs r1)"

definition skip_dir :: "search_env \<Rightarrow> string \<Rightarrow> bool" where
  "skip_dir env entryPath \<longleftrightarrow>
     (HasPrefix (Base entryPath) ''.'' \<and> entryPath \<noteq> se_root env) \<or>
     Base entryPath \<in> set [''node_modules'', ''__pycache__'', ''vendor''] \<or>
     isTaskRegistryRelative (relative_of (se_root env) entryPath)"

definition visit_entry :: "search_env \<Rightarrow> nat \<Rightarrow> string \<Rightarrow> fnode \<Rightarrow> ignoreStack \<times> FoundResult \<Rightarrow> verdict \<times> (ignoreStack \<times> FoundResult)" where
  "visit_entry env cap entryPath n s =
     (let noIgnore = so_NoIgnore (se_opts env);
          ignores = (if noIgnore then fst s else popLeftDirs (fst s) entryPath);
          r = snd s in
      case n of
        DirNode es \<Rightarrow>
          if skip_dir env entryPath then (SkipDir, (ignores, r))
          else if \<not> noIgnore \<and> stack_ignores ignores entryPath True then (SkipDir, (ignores, r))
          else (Continue, (if noIgnore then ignores else loadDirIgnore (se_rc env) (se_read env) entryPath # ignores, r))
      | FileNode l \<Rightarrow>
          if \<not> noIgnore \<and> entryPath \<noteq> se_root env \<and> stack_ignores ignores entryPath False then (Continue, (ignores, r))
          else (case emit cap (file_chunks env entryPath l) r of
              (stopped, r1) \<Rightarrow> (if stopped then SkipAll else Continue, (ignores, r1))))"

text \<open>What the opened root answers: its path, which names exist, the tree at a name, and its readable files.\<close>

record search_root =
  sr_path :: string
  sr_exists :: "string \<Rightarrow> bool"
  sr_node :: "string \<Rightarrow> fnode option"
  sr_read :: "string \<Rightarrow> string option"

fun nearest_name :: "(string \<Rightarrow> bool) \<Rightarrow> string list \<Rightarrow> string" where
  "nearest_name exists [] = ''.''"
| "nearest_name exists (c # up) =
     (let candidate = Join [SLASH] (rev (c # up)) in if exists candidate then candidate else nearest_name exists up)"

definition search_setup :: "rx_compiler \<Rightarrow> SearchOptions \<Rightarrow> search_error + searchMatcher \<times> globSet \<times> globSet" where
  "search_setup rc opts =
     (case validateSearchOptions opts of
        Some e \<Rightarrow> Inl e
      | None \<Rightarrow>
          rbind (newSearchMatcher rc opts) (\<lambda>m.
          rbind (typeGlobs (so_Type opts)) (\<lambda>typeInclude.
          rbind (typeGlobs (so_TypeNot opts)) (\<lambda>typeExclude.
            Inr (m, compileGlobSet rc (so_Glob opts @ typeInclude), compileGlobSet rc (so_GlobExclude opts @ typeExclude))))))"

definition search_cap :: "SearchOptions \<Rightarrow> nat" where
  "search_cap opts = (if so_MaxMatches opts \<le> 0 then 100 else nat (so_MaxMatches opts))"

definition searchFilesAtRoot ::
  "rx_compiler \<Rightarrow> string \<Rightarrow> search_root \<Rightarrow> string \<Rightarrow> SearchOptions \<Rightarrow> search_error + FoundResult" where
  "searchFilesAtRoot rc displayPath root walkRoot0 opts =
     rbind (search_setup rc opts) (\<lambda>(m, includeGlobs, excludeGlobs).
       let walkRoot = Clean walkRoot0 in
       if \<not> sr_exists root walkRoot then
         Inl (SearchPathMissing walkRoot (sr_path root)
           (if walkRoot = ''.'' then ''.'' else nearest_name (sr_exists root) (rev (SplitChar SLASH walkRoot))))
       else
         let ignores = (if \<not> so_NoIgnore opts \<and> walkRoot \<noteq> ''.'' then ancestorIgnoreLevels rc (sr_read root) walkRoot else []);
             result = \<lparr>fo_Pattern = so_Pattern opts, fo_Path = displayPath, fo_Matches = [], fo_Total = 0, fo_Truncated = False\<rparr>;
             env = \<lparr>se_opts = opts, se_matcher = m, se_include = includeGlobs, se_exclude = excludeGlobs,
                    se_root = walkRoot, se_rc = rc, se_read = sr_read root\<rparr> in
         (case sr_node root walkRoot of
            None \<Rightarrow> Inr result
          | Some n \<Rightarrow> Inr (snd (snd (walk_node (visit_entry env (search_cap opts)) walkRoot n (ignores, result))))))"

definition SearchFilesWithOptions ::
  "rx_compiler \<Rightarrow> host \<Rightarrow> (string \<Rightarrow> search_root) \<Rightarrow> string \<Rightarrow> SearchOptions \<Rightarrow> search_error + FoundResult" where
  "SearchFilesWithOptions rc h roots rootPath opts =
     (case OpenRoot h rootPath of
        Inl e \<Rightarrow> Inl (SearchRoot e)
      | Inr clean \<Rightarrow> searchFilesAtRoot rc rootPath (roots clean) ''.'' opts)"

definition SearchFilesInRepoWithOptions ::
  "rx_compiler \<Rightarrow> host \<Rightarrow> (string \<Rightarrow> search_root) \<Rightarrow> string \<Rightarrow> string \<Rightarrow> SearchOptions \<Rightarrow> search_error + FoundResult" where
  "SearchFilesInRepoWithOptions rc h roots repoPath filePath opts =
     (case OpenRoot h repoPath of
        Inl e \<Rightarrow> Inl (SearchRoot e)
      | Inr clean \<Rightarrow>
          if TrimSpace filePath = [] then searchFilesAtRoot rc (sr_path (roots clean)) (roots clean) ''.'' opts
          else (case repoRelativePath (h_wd h) repoPath filePath of
              Inl e \<Rightarrow> Inl (SearchPath e)
            | Inr (display, relative) \<Rightarrow> searchFilesAtRoot rc display (roots clean) relative opts))"

text \<open>The searches with only a pattern: every other option is zero.\<close>

definition literal_options :: "string \<Rightarrow> int \<Rightarrow> SearchOptions" where
  "literal_options pattern maxMatches =
     \<lparr>so_Pattern = pattern, so_Regex = False, so_IgnoreCase = False, so_SmartCase = False, so_Glob = [], so_GlobExclude = [],
      so_NoIgnore = False, so_Type = [], so_TypeNot = [], so_WordMatch = False, so_LineRegexp = False, so_ContextBefore = 0,
      so_ContextAfter = 0, so_FilesOnly = False, so_CountOnly = False, so_Invert = False, so_OnlyMatching = False,
      so_Replace = [], so_MaxMatches = maxMatches\<rparr>"

definition SearchFiles where
  "SearchFiles rc h roots rootPath pattern maxMatches = SearchFilesWithOptions rc h roots rootPath (literal_options pattern maxMatches)"

definition SearchFilesInRepo where
  "SearchFilesInRepo rc h roots repoPath filePath pattern maxMatches =
     SearchFilesInRepoWithOptions rc h roots repoPath filePath (literal_options pattern maxMatches)"

end
