(* ===== verification/FileSearchFacts.thy ===== *)
theory FileSearchFacts
  imports FileSearch
begin

text \<open>
  What a search of \<open>fileops\<close> returns.  The reference \<open>tree_chunks\<close> visits the tree without state: it computes the
  ignore levels of every path afresh and ignores the cap.  The walk, which keeps a stack of levels, unwinds it by
  prefix and stops at the cap, returns the first chunks of the reference.
\<close>

section \<open>Paths of the walk\<close>

definition walk_path :: "string list \<Rightarrow> string" where
  "walk_path cs = (if cs = [] then ''.'' else Join [SLASH] cs)"

lemma walk_path_snoc:
  assumes "list_all plain_comp cs" "plain_comp n"
  shows "JoinPath [walk_path cs, n] = walk_path (cs @ [n])"
proof -
  have n: "n \<noteq> []" using assms(2) by auto
  show ?thesis
  proof (cases "cs = []")
    case True
    have "\<not> HasPrefix (CHR ''.'' # SLASH # n) [SLASH]" by simp
    moreover have "SplitChar SLASH (CHR ''.'' # SLASH # n) = [''.'', n]"
      using assms(2) by (simp add: SplitChar_single plain_comp_def)
    ultimately show ?thesis
      using True n assms(2) by (simp add: walk_path_def JoinPath_def Clean_def IsAbs_def plain_comp_def)
  next
    case False
    have b: "below (Join [SLASH] (cs @ [n]))"
      unfolding below_def using assms by (intro exI [of _ "cs @ [n]"]) simp
    have "Join [SLASH] cs \<noteq> []" using below_ne [of "Join [SLASH] cs"] assms(1) False by (auto simp: below_def)
    then have "JoinPath [Join [SLASH] cs, n] = Clean (Join [SLASH] (cs @ [n]))"
      using n False by (simp add: JoinPath_def Join_snoc)
    then show ?thesis using Clean_below_id [OF b] False by (simp add: walk_path_def)
  qed
qed

text \<open>Segments ended by slashes: a textual prefix is a prefix of the components.\<close>

lemma Join_slash: "cs \<noteq> [] \<Longrightarrow> Join [SLASH] cs @ [SLASH] = concat (map (\<lambda>c. c @ [SLASH]) cs)"
  by (induction cs rule: induct_list012) (auto simp: Join_Cons)

lemma segments_prefix:
  "list_all plain_comp cs \<Longrightarrow> list_all plain_comp ds \<Longrightarrow>
   HasPrefix (concat (map (\<lambda>c. c @ [SLASH]) cs)) (concat (map (\<lambda>c. c @ [SLASH]) ds)) \<longleftrightarrow> prefix ds cs"
proof (induction ds arbitrary: cs)
  case Nil
  then show ?case by (simp add: HasPrefix_iff)
next
  case (Cons d ds)
  show ?case
  proof (cases cs)
    case Nil
    then show ?thesis by (auto simp: HasPrefix_iff)
  next
    case (Cons c cs')
    have sl: "SLASH \<notin> set c" "SLASH \<notin> set d"
      using Cons.prems \<open>cs = c # cs'\<close> by (simp_all add: plain_comp_def)
    have eq: "c @ SLASH # x = d @ SLASH # y \<longleftrightarrow> c = d \<and> x = y" for x y
    proof
      assume e: "c @ SLASH # x = d @ SLASH # y"
      have t: "takeWhile (\<lambda>z. z \<noteq> SLASH) (e @ SLASH # z) = e" if "SLASH \<notin> set e" for e z
        using that by (induction e) auto
      have "c = d" using t [OF sl(1), of x] t [OF sl(2), of y] e by simp
      with e show "c = d \<and> x = y" by simp
    qed simp
    have "HasPrefix (concat (map (\<lambda>c. c @ [SLASH]) cs)) (concat (map (\<lambda>c. c @ [SLASH]) (d # ds))) \<longleftrightarrow>
        c = d \<and> HasPrefix (concat (map (\<lambda>c. c @ [SLASH]) cs')) (concat (map (\<lambda>c. c @ [SLASH]) ds))"
      using Cons eq by (auto simp: HasPrefix_iff)
    then show ?thesis using Cons.IH [of cs'] Cons.prems \<open>cs = c # cs'\<close> by auto
  qed
qed

lemma walk_prefix:
  assumes "list_all plain_comp cs" "list_all plain_comp ds" "cs \<noteq> []" "ds \<noteq> []"
  shows "HasPrefix (walk_path cs @ [SLASH]) (walk_path ds @ [SLASH]) \<longleftrightarrow> prefix ds cs"
  using segments_prefix [OF assms(1,2)] assms(3,4) by (simp add: walk_path_def Join_slash)

lemma walk_path_not_dot:
  assumes "list_all plain_comp cs" "cs \<noteq> []"
  shows "walk_path cs \<noteq> ''.''"
  using below_not_special [of "Join [SLASH] cs"] assms by (auto simp: walk_path_def below_def)

section \<open>The levels of a path\<close>

text \<open>What the stack holds when a path is looked at: the levels of its proper ancestors, the parent first.\<close>

definition levels_of :: "rx_compiler \<Rightarrow> (string \<Rightarrow> string option) \<Rightarrow> string \<Rightarrow> ignoreStack" where
  "levels_of rc read p = (if p = ''.'' then [] else ancestorIgnoreLevels rc read p)"

lemma ancestor_loop_levels:
  "list_all plain_comp (done' @ ps) \<Longrightarrow> ps \<noteq> [] \<Longrightarrow>
   ancestor_loop rc read (if done' = [] then [] else Join [SLASH] done') ps levels =
     rev (map (\<lambda>k. loadDirIgnore rc read (walk_path (done' @ take k ps))) [1..<length ps]) @ levels"
proof (induction ps arbitrary: done' levels)
  case Nil
  then show ?case by simp
next
  case (Cons p ps)
  show ?case
  proof (cases ps)
    case Nil
    then show ?thesis by (cases "done' = []") simp_all
  next
    case (Cons q qs)
    have acc: "(if (if done' = [] then [] else Join [SLASH] done') = [] then p
         else (if done' = [] then [] else Join [SLASH] done') @ SLASH # p) = Join [SLASH] (done' @ [p])"
      using Cons.prems(1) below_ne [of "Join [SLASH] done'"] by (auto simp: Join_snoc below_def)
    have IH: "ancestor_loop rc read (Join [SLASH] (done' @ [p])) ps levels' =
        rev (map (\<lambda>k. loadDirIgnore rc read (walk_path (done' @ [p] @ take k ps))) [1..<length ps]) @ levels'" for levels'
      using Cons.IH [of "done' @ [p]" levels'] Cons.prems \<open>ps = q # qs\<close> by simp
    have up: "map f [1..<length (p # ps)] = f 1 # map (\<lambda>k. f (Suc k)) [1..<length ps]" for f :: "nat \<Rightarrow> dirIgnore"
      using \<open>ps = q # qs\<close> by (simp add: upt_conv_Cons map_Suc_upt [symmetric] del: upt_Suc)
    have "ancestor_loop rc read (if done' = [] then [] else Join [SLASH] done') (p # ps) levels =
        ancestor_loop rc read (Join [SLASH] (done' @ [p])) ps
          (loadDirIgnore rc read (Join [SLASH] (done' @ [p])) # levels)"
      using \<open>ps = q # qs\<close> acc by (simp add: Let_def)
    also have "\<dots> = rev (map (\<lambda>k. loadDirIgnore rc read (walk_path (done' @ take k (p # ps)))) [1..<length (p # ps)]) @ levels"
      unfolding IH up by (simp add: walk_path_def)
    finally show ?thesis .
  qed
qed

lemma levels_snoc:
  assumes "list_all plain_comp cs" "plain_comp n"
  shows "levels_of rc read (walk_path (cs @ [n])) = loadDirIgnore rc read (walk_path cs) # levels_of rc read (walk_path cs)"
proof -
  have L: "levels_of rc read (walk_path ds) =
      rev (map (\<lambda>k. loadDirIgnore rc read (walk_path (take k ds))) [1..<length ds]) @ [loadDirIgnore rc read ''.'']"
    if "list_all plain_comp ds" "ds \<noteq> []" for ds
    using ancestor_loop_levels [of "[]" ds rc read "[loadDirIgnore rc read ''.'']"] that walk_path_not_dot [OF that]
    by (simp add: levels_of_def ancestorIgnoreLevels_def) (simp add: walk_path_def below_split)
  show ?thesis
  proof (cases "cs = []")
    case True
    then show ?thesis using L [of "[n]"] assms(2) by (simp add: levels_of_def walk_path_def)
  next
    case False
    have "map (\<lambda>k. loadDirIgnore rc read (walk_path (take k (cs @ [n])))) [1..<length (cs @ [n])] =
        map (\<lambda>k. loadDirIgnore rc read (walk_path (take k cs))) [1..<length cs] @ [loadDirIgnore rc read (walk_path cs)]"
      using False by (simp add: Suc_le_eq)
    then show ?thesis using L [of "cs @ [n]"] L [of cs] assms False by simp
  qed
qed


section \<open>Unwinding the stack\<close>

text \<open>Levels left behind by the directories below \<open>cs\<close> whose next component is not \<open>n\<close>.\<close>

definition left_behind :: "string list \<Rightarrow> string \<Rightarrow> dirIgnore \<Rightarrow> bool" where
  "left_behind cs n e \<longleftrightarrow>
     (\<exists>m ds. di_path e = walk_path (cs @ m # ds) \<and> list_all plain_comp (m # ds) \<and> m \<noteq> n)"

lemma pop_left_behind:
  assumes "list_all plain_comp cs" "plain_comp n" "\<forall>e \<in> set extra. left_behind cs n e"
  shows "popLeftDirs (extra @ loadDirIgnore rc read (walk_path cs) # up) (walk_path (cs @ [n])) =
    loadDirIgnore rc read (walk_path cs) # up"
  using assms(3)
proof (induction extra)
  case Nil
  have "HasPrefix (walk_path (cs @ [n]) @ [SLASH]) (walk_path cs @ [SLASH])" if "cs \<noteq> []"
    using walk_prefix [of "cs @ [n]" cs] assms(1,2) that by simp
  then show ?case by (cases "cs = []") (simp_all add: loadDirIgnore_def walk_path_def)
next
  case (Cons e extra)
  then obtain m ds where e: "di_path e = walk_path (cs @ m # ds)" "list_all plain_comp (m # ds)" "m \<noteq> n"
    by (auto simp: left_behind_def)
  have p: "list_all plain_comp (cs @ m # ds)" using assms(1) e(2) by simp
  have "\<not> prefix (cs @ m # ds) (cs @ [n])" using e(3) by (auto simp: prefix_def)
  then have "\<not> HasPrefix (walk_path (cs @ [n]) @ [SLASH]) (di_path e @ [SLASH])"
    using walk_prefix [of "cs @ [n]" "cs @ m # ds"] assms(1,2) p e(1) by simp
  then show ?case using Cons walk_path_not_dot [OF p] e(1) by simp
qed

section \<open>The reference\<close>

text \<open>The chunks of a tree, the ignore levels computed afresh at every path.\<close>

function tree_chunks :: "search_env \<Rightarrow> string \<Rightarrow> fnode \<Rightarrow> string list list" where
  "tree_chunks env p (FileNode l) =
     (if \<not> so_NoIgnore (se_opts env) \<and> p \<noteq> se_root env \<and>
          stack_ignores (levels_of (se_rc env) (se_read env) p) p False then []
      else file_chunks env p l)"
| "tree_chunks env p (DirNode es) =
     (if skip_dir env p \<or> (\<not> so_NoIgnore (se_opts env) \<and> stack_ignores (levels_of (se_rc env) (se_read env) p) p True) then []
      else concat (map (\<lambda>(n, t). tree_chunks env (JoinPath [p, n]) t) es))"
  by pat_completeness auto

termination
proof (relation "measure (\<lambda>(env, p, t). size t)", goal_cases)
  case (2 env p es z x y)
  then show ?case using size_list_estimation' [of z es "size y" "size_prod (\<lambda>x. 0) size"] by (cases z) auto
qed simp

text \<open>Names of a tree are plain and distinct among the entries of a directory.\<close>

function names_ok :: "fnode \<Rightarrow> bool" where
  "names_ok (FileNode l) = True"
| "names_ok (DirNode es) = (list_all plain_comp (map fst es) \<and> distinct (map fst es) \<and> list_all (\<lambda>(n, t). names_ok t) es)"
  by pat_completeness auto

termination
proof (relation "measure size", goal_cases)
  case (2 es z x y)
  then show ?case using size_list_estimation' [of z es "size y" "size_prod (\<lambda>x. 0) size"] by (cases z) auto
qed simp

lemma emit_append: "emit cap (a @ b) r = (case emit cap a r of (True, r1) \<Rightarrow> (True, r1) | (False, r1) \<Rightarrow> emit cap b r1)"
  by (induction cap a r rule: emit.induct) (auto simp: Let_def)

text \<open>The cap cuts the list of chunks.\<close>

lemma emit_take:
  "fo_Total r < cap \<Longrightarrow> emit cap cs r =
     (cap \<le> fo_Total r + length cs,
      r\<lparr>fo_Matches := fo_Matches r @ concat (take (cap - fo_Total r) cs),
        fo_Total := min cap (fo_Total r + length cs),
        fo_Truncated := (fo_Truncated r \<or> cap \<le> fo_Total r + length cs)\<rparr>)"
proof (induction cs arbitrary: r)
  case Nil
  then show ?case by simp
next
  case (Cons c cs)
  show ?case
  proof (cases "Suc (fo_Total r) \<ge> cap")
    case True
    then have "cap = Suc (fo_Total r)" using Cons.prems by simp
    then show ?thesis by (simp add: Let_def)
  next
    case False
    then have "cap - fo_Total r = Suc (cap - Suc (fo_Total r))" by simp
    then show ?thesis using False Cons.IH [of "r\<lparr>fo_Matches := fo_Matches r @ c, fo_Total := fo_Total r + 1\<rparr>"]
      by (simp add: Let_def)
  qed
qed

text \<open>The walk of a subtree emits the chunks of the reference; unless it was stopped, the stack it leaves is the
  stack of the subtree's ancestors under levels of the subtree itself.\<close>

definition walk_correct ::
  "search_env \<Rightarrow> nat \<Rightarrow> string list \<Rightarrow> ignoreStack \<times> FoundResult \<Rightarrow> string list list \<Rightarrow> (dirIgnore \<Rightarrow> bool) \<Rightarrow>
   bool \<times> (ignoreStack \<times> FoundResult) \<Rightarrow> bool" where
  "walk_correct env cap cs s chunks below' out \<longleftrightarrow>
     (fst out, snd (snd out)) = emit cap chunks (snd s) \<and>
     (\<not> fst out \<and> \<not> so_NoIgnore (se_opts env) \<longrightarrow>
        (\<exists>extra. fst (snd out) = extra @ levels_of (se_rc env) (se_read env) (walk_path cs) \<and> (\<forall>e \<in> set extra. below' e)))"

definition own_level :: "string list \<Rightarrow> dirIgnore \<Rightarrow> bool" where
  "own_level cs e \<longleftrightarrow> (\<exists>ds. di_path e = walk_path (cs @ ds) \<and> list_all plain_comp ds)"

text \<open>The stack a path finds when its turn comes: once unwound, the levels of its ancestors.\<close>

definition stack_ready :: "search_env \<Rightarrow> string list \<Rightarrow> ignoreStack \<Rightarrow> bool" where
  "stack_ready env cs ignores \<longleftrightarrow> \<not> so_NoIgnore (se_opts env) \<longrightarrow>
     popLeftDirs ignores (walk_path cs) = levels_of (se_rc env) (se_read env) (walk_path cs)"

text \<open>The stack while the entries of a directory are walked.\<close>

definition stack_inside :: "search_env \<Rightarrow> string list \<Rightarrow> string list \<Rightarrow> ignoreStack \<Rightarrow> bool" where
  "stack_inside env cs todo ignores \<longleftrightarrow> \<not> so_NoIgnore (se_opts env) \<longrightarrow>
     (\<exists>extra. ignores = extra @ loadDirIgnore (se_rc env) (se_read env) (walk_path cs) #
         levels_of (se_rc env) (se_read env) (walk_path cs) \<and>
       (\<forall>n \<in> set todo. \<forall>e \<in> set extra. left_behind cs n e) \<and> (\<forall>e \<in> set extra. own_level cs e))"

lemma stack_inside_ready:
  "stack_inside env cs (n # todo) ignores \<Longrightarrow> list_all plain_comp cs \<Longrightarrow> plain_comp n \<Longrightarrow> stack_ready env (cs @ [n]) ignores"
  using pop_left_behind [of cs n] levels_snoc [of cs n] by (auto simp: stack_inside_def stack_ready_def)

lemma own_level_left:
  "own_level (cs @ [n]) e \<Longrightarrow> plain_comp n \<Longrightarrow> n' \<noteq> n \<Longrightarrow> left_behind cs n' e"
  "own_level (cs @ [n]) e \<Longrightarrow> plain_comp n \<Longrightarrow> own_level cs e"
  unfolding own_level_def left_behind_def by force+

lemma walk_list_correct:
  assumes IH: "\<And>n t s. (n, t) \<in> set es \<Longrightarrow> stack_ready env (cs @ [n]) (fst s) \<Longrightarrow>
      walk_correct env cap (cs @ [n]) s (tree_chunks env (walk_path (cs @ [n])) t) (own_level (cs @ [n]))
        (walk_node (visit_entry env cap) (walk_path (cs @ [n])) t s)"
    and cs: "list_all plain_comp cs"
  shows "list_all plain_comp (map fst es) \<Longrightarrow> distinct (map fst es) \<Longrightarrow> stack_inside env cs (map fst es) (fst s) \<Longrightarrow>
     walk_correct env cap cs s (concat (map (\<lambda>(n, t). tree_chunks env (JoinPath [walk_path cs, n]) t) es)) (own_level cs)
       (walk_list (visit_entry env cap) (walk_path cs) es s)"
  using IH
proof (induction es arbitrary: s)
  case Nil
  let ?l = "loadDirIgnore (se_rc env) (se_read env) (walk_path cs)"
  have "own_level cs ?l" unfolding own_level_def by (intro exI [of _ "[]"]) (simp add: loadDirIgnore_def)
  then have "\<exists>extra. fst s = extra @ levels_of (se_rc env) (se_read env) (walk_path cs) \<and> (\<forall>e \<in> set extra. own_level cs e)"
    if noign: "\<not> so_NoIgnore (se_opts env)"
  proof -
    from Nil.prems(3) noign obtain extra where x: "fst s = extra @ ?l # levels_of (se_rc env) (se_read env) (walk_path cs)"
        "\<forall>e \<in> set extra. own_level cs e" unfolding stack_inside_def by blast
    then show ?thesis using \<open>own_level cs ?l\<close> by (intro exI [of _ "extra @ [?l]"]) auto
  qed
  then show ?case by (simp add: walk_correct_def)
next
  case (Cons nt es)
  obtain n t where nt: "nt = (n, t)" by (cases nt)
  have n: "plain_comp n" "n \<notin> set (map fst es)" using Cons.prems(1,2) nt by simp_all
  have ne: "n' \<noteq> n" if "n' \<in> set (map fst es)" for n' using n(2) that by blast
  have j: "JoinPath [walk_path cs, n] = walk_path (cs @ [n])" using walk_path_snoc [OF cs n(1)] .
  obtain stopped s1 where o1: "walk_node (visit_entry env cap) (walk_path (cs @ [n])) t s = (stopped, s1)" by (metis surj_pair)
  have ready: "stack_ready env (cs @ [n]) (fst s)"
    using stack_inside_ready Cons.prems(3) cs n(1) nt by simp
  have W: "walk_correct env cap (cs @ [n]) s (tree_chunks env (walk_path (cs @ [n])) t) (own_level (cs @ [n])) (stopped, s1)"
    using Cons.prems(4) [of n t s] nt ready o1 by simp
  have em: "emit cap (tree_chunks env (walk_path (cs @ [n])) t) (snd s) = (stopped, snd s1)"
    using W by (simp add: walk_correct_def)
  show ?case
  proof (cases stopped)
    case True
    then show ?thesis using nt j o1 em by (simp add: walk_correct_def emit_append)
  next
    case False
    have "stack_inside env cs (map fst es) (fst s1)"
      unfolding stack_inside_def
    proof (intro impI)
      assume "\<not> so_NoIgnore (se_opts env)"
      then obtain extra where x: "fst s1 = extra @ levels_of (se_rc env) (se_read env) (walk_path (cs @ [n]))"
          "\<forall>e \<in> set extra. own_level (cs @ [n]) e"
        using W False unfolding walk_correct_def by auto
      then show "\<exists>extra. fst s1 = extra @ loadDirIgnore (se_rc env) (se_read env) (walk_path cs) #
            levels_of (se_rc env) (se_read env) (walk_path cs) \<and>
          (\<forall>n \<in> set (map fst es). \<forall>e \<in> set extra. left_behind cs n e) \<and> (\<forall>e \<in> set extra. own_level cs e)"
        using own_level_left [of cs n] n(1) levels_snoc [OF cs n(1)] ne by (intro exI [of _ extra]) metis
    qed
    then have "walk_correct env cap cs s1 (concat (map (\<lambda>(n, t). tree_chunks env (JoinPath [walk_path cs, n]) t) es)) (own_level cs)
       (walk_list (visit_entry env cap) (walk_path cs) es s1)"
      using Cons.IH [of s1] Cons.prems(1,2,4) nt by simp
    then show ?thesis using nt j o1 em False by (simp add: walk_correct_def emit_append)
  qed
qed

lemma walk_node_correct:
  "names_ok t \<Longrightarrow> list_all plain_comp cs \<Longrightarrow> stack_ready env cs (fst s) \<Longrightarrow>
   walk_correct env cap cs s (tree_chunks env (walk_path cs) t) (own_level cs)
     (walk_node (visit_entry env cap) (walk_path cs) t s)"
proof (induction t arbitrary: cs s)
  case (FileNode l)
  then show ?case
    by (auto simp: walk_correct_def visit_entry_def stack_ready_def Let_def split: prod.split)
next
  case (DirNode es)
  let ?noign = "so_NoIgnore (se_opts env)"
  have names: "list_all plain_comp (map fst es)" "distinct (map fst es)" "\<And>n t. (n, t) \<in> set es \<Longrightarrow> names_ok t"
    using DirNode.prems(1) by (auto simp: list_all_iff)
  let ?ign = "if ?noign then fst s else popLeftDirs (fst s) (walk_path cs)"
  have ign: "\<not> ?noign \<Longrightarrow> ?ign = levels_of (se_rc env) (se_read env) (walk_path cs)"
    using DirNode.prems(3) by (simp add: stack_ready_def)
  show ?case
  proof (cases "skip_dir env (walk_path cs) \<or> (\<not> ?noign \<and> stack_ignores ?ign (walk_path cs) True)")
    case True
    then have v: "visit_entry env cap (walk_path cs) (DirNode es) s = (SkipDir, (?ign, snd s))"
      by (auto simp: visit_entry_def Let_def)
    have "tree_chunks env (walk_path cs) (DirNode es) = []" using True ign by auto
    then show ?thesis using v ign by (simp add: walk_correct_def)
  next
    case False
    let ?s1 = "(if ?noign then ?ign else loadDirIgnore (se_rc env) (se_read env) (walk_path cs) # ?ign, snd s)"
    have v: "visit_entry env cap (walk_path cs) (DirNode es) s = (Continue, ?s1)"
      using False by (auto simp: visit_entry_def Let_def)
    have ref: "tree_chunks env (walk_path cs) (DirNode es) =
        concat (map (\<lambda>(n, t). tree_chunks env (JoinPath [walk_path cs, n]) t) es)"
      using False ign by auto
    have inside: "stack_inside env cs (map fst es) (fst ?s1)"
      unfolding stack_inside_def using ign by auto
    have IH: "walk_correct env cap (cs @ [n]) s' (tree_chunks env (walk_path (cs @ [n])) t) (own_level (cs @ [n]))
        (walk_node (visit_entry env cap) (walk_path (cs @ [n])) t s')"
      if "(n, t) \<in> set es" "stack_ready env (cs @ [n]) (fst s')" for n t s'
    proof -
      have "plain_comp n" using names(1) that(1) by (force simp: list_all_iff)
      moreover have "t \<in> Basic_BNFs.snds (n, t)" by (simp add: Basic_BNFs.snds.simps)
      ultimately show ?thesis
        using DirNode.IH [of "(n, t)" t "cs @ [n]" s'] that names(3) DirNode.prems(2) by auto
    qed
    have "walk_correct env cap cs ?s1 (concat (map (\<lambda>(n, t). tree_chunks env (JoinPath [walk_path cs, n]) t) es)) (own_level cs)
       (walk_list (visit_entry env cap) (walk_path cs) es ?s1)"
      by (rule walk_list_correct [OF _ DirNode.prems(2) names(1,2) inside]) (rule IH)
    then show ?thesis unfolding ref using v by (simp add: walk_correct_def)
  qed
qed


text \<open>
  Claim C33: a search returns the first chunks of the reference.  If the search root is the repository root or a
  clean path below it and the tree has proper names, then the matches are exactly those that a stateless walk
  finds, which computes the ignore rules of every path from the root down, in tree order and cut after
  \<open>MaxMatches\<close> counted units (100 when it is not positive); the total is the number of counted units
  returned, and the result is marked truncated exactly when the cap was reached.
\<close>

theorem search_is_reference:
  assumes "searchFilesAtRoot rc display root walkRoot opts = Inr r" "search_setup rc opts = Inr (m, inc, exc)"
    "sr_node root (Clean walkRoot) = Some t" "names_ok t" "Clean walkRoot = ''.'' \<or> below (Clean walkRoot)"
    "env = \<lparr>se_opts = opts, se_matcher = m, se_include = inc, se_exclude = exc, se_root = Clean walkRoot, se_rc = rc,
       se_read = sr_read root\<rparr>"
    "chunks = tree_chunks env (Clean walkRoot) t"
  shows "fo_Matches r = concat (take (search_cap opts) chunks) \<and> fo_Total r = min (search_cap opts) (length chunks) \<and>
    fo_Truncated r = (search_cap opts \<le> length chunks)"
proof -
  let ?w = "Clean walkRoot"
  let ?ign = "if \<not> so_NoIgnore opts \<and> ?w \<noteq> ''.'' then ancestorIgnoreLevels rc (sr_read root) ?w else []"
  let ?r0 = "\<lparr>fo_Pattern = so_Pattern opts, fo_Path = display, fo_Matches = [], fo_Total = 0, fo_Truncated = False\<rparr>"
  have r: "r = snd (snd (walk_node (visit_entry env (search_cap opts)) ?w t (?ign, ?r0)))"
    using assms(1-3,6) by (auto simp: searchFilesAtRoot_def Let_def split: if_splits)
  obtain cs where cs: "list_all plain_comp cs" "?w = walk_path cs"
  proof (cases "?w = ''.''")
    case True
    then show thesis using that [of "[]"] by (simp add: walk_path_def)
  next
    case False
    then obtain cs where "cs \<noteq> []" "list_all plain_comp cs" "?w = Join [SLASH] cs" using assms(5) by (auto simp: below_def)
    then show thesis using that [of cs] by (simp add: walk_path_def)
  qed
  have ready: "stack_ready env cs ?ign"
  proof (cases cs rule: rev_cases)
    case Nil
    then show ?thesis using cs(2) by (simp add: stack_ready_def levels_of_def walk_path_def)
  next
    case (snoc ds d)
    then have d: "list_all plain_comp ds" "plain_comp d" using cs(1) by simp_all
    have "?w \<noteq> ''.''" using walk_path_not_dot [OF cs(1)] cs(2) snoc by simp
    then have "\<not> so_NoIgnore opts \<Longrightarrow> ?ign = levels_of rc (sr_read root) (walk_path cs)"
      using cs(2) by (simp add: levels_of_def)
    then show ?thesis
      using pop_left_behind [OF d, of "[]"] levels_snoc [OF d] snoc assms(6) by (simp add: stack_ready_def)
  qed
  have W: "walk_correct env (search_cap opts) cs (?ign, ?r0) chunks (own_level cs)
      (walk_node (visit_entry env (search_cap opts)) ?w t (?ign, ?r0))"
    using walk_node_correct [OF assms(4) cs(1), of env "(?ign, ?r0)"] ready cs(2) assms(7) by simp
  then have "snd (emit (search_cap opts) chunks ?r0) = r"
    unfolding walk_correct_def r by (metis snd_conv)
  moreover have "0 < search_cap opts" by (simp add: search_cap_def)
  ultimately show ?thesis using emit_take [of ?r0 "search_cap opts" chunks] by auto
qed

definition example_root :: search_root where
  "example_root = \<lparr>sr_path = ''/r'', sr_exists = (\<lambda>p. p = ''.''),
     sr_node = (\<lambda>p. if p = ''.'' then Some (DirNode
       [(''a.txt'', FileNode \<lparr>lf_info = Some (True, 5), lf_data = Some (''one'' @ [LF] @ ''two'' @ [LF])\<rparr>),
        (''vendor'', DirNode [(''b.txt'', FileNode \<lparr>lf_info = Some (True, 3), lf_data = Some ''one''\<rparr>)])]) else None),
     sr_read = (\<lambda>p. None)\<rparr>"

definition example_tree :: fnode where
  "example_tree = DirNode
       [(''a.txt'', FileNode \<lparr>lf_info = Some (True, 5), lf_data = Some (''one'' @ [LF] @ ''two'' @ [LF])\<rparr>),
        (''vendor'', DirNode [(''b.txt'', FileNode \<lparr>lf_info = Some (True, 3), lf_data = Some ''one''\<rparr>)])]"

definition no_regexp :: rx_compiler where "no_regexp e = None"

definition example_env :: search_env where
  "example_env = \<lparr>se_opts = literal_options ''o'' 2, se_matcher = Literal ''o'' False, se_include = [], se_exclude = [],
     se_root = ''.'', se_rc = no_regexp, se_read = sr_read example_root\<rparr>"

lemma example_search_facts:
  "search_setup no_regexp (literal_options ''o'' 2) = Inr (Literal ''o'' False, [], [])"
  "search_cap (literal_options ''o'' 2) = 2" "names_ok example_tree" "sr_node example_root ''.'' = Some example_tree"
  "sr_exists example_root ''.''"
  by (simp_all add: search_setup_def validateSearchOptions_def newSearchMatcher_def typeGlobs_def literal_options_def
      search_cap_def example_tree_def example_root_def plain_comp_def)

lemma example_paths: "Clean ''.'' = ''.''" "JoinPath [''.'', ''a.txt''] = ''a.txt''" "JoinPath [''.'', ''vendor''] = ''vendor''"
  "Base ''a.txt'' = ''a.txt''" "Base ''vendor'' = ''vendor''" "Base ''.'' = ''.''" "Ext ''a.txt'' = ''.txt''"
  "relative_of ''.'' ''a.txt'' = ''a.txt''" "relative_of ''.'' ''.'' = ''.''" "isProtectedLeanPath ''a.txt'' = False"
  "isTaskRegistryRelative ''.'' = False" "set skippedExtensions \<inter> {''.txt''} = {}" "ToLower ''.txt'' = ''.txt''"
  "text_lines (''one'' @ [LF] @ ''two'' @ [LF]) = [''one'', ''two'']"
  "hit_lines (Literal ''o'' False) False [''one'', ''two''] = [0, 1]"
  "window_loop 0 0 2 (-1) [0, 1] = [[0], [1]]" "nat_digits (Suc 0) = ''1''" "nat_digits (Suc (Suc 0)) = ''2''"
  by code_simp+

lemma example_ignores: "stack_ignores (levels_of no_regexp (\<lambda>p. None) p) q d = False"
proof -
  have e: "di_rules l = []" if "l \<in> set (levels_of no_regexp (\<lambda>p. None) p)" for l p
  proof -
    have a: "l \<in> set ls \<or> di_rules l = []" if "l \<in> set (ancestor_loop no_regexp (\<lambda>p. None) acc ps ls)" for acc ps ls l
      using that
      by (induction no_regexp "\<lambda>p :: string. None :: string option" acc ps ls rule: ancestor_loop.induct)
        (auto simp: Let_def loadDirIgnore_def)
    have "di_rules (loadDirIgnore no_regexp (\<lambda>p. None) ''.'') = []" by (simp add: loadDirIgnore_def)
    then show ?thesis using that by (auto simp: levels_of_def ancestorIgnoreLevels_def split: if_splits dest!: a)
  qed
  have "levels_decide ls q d = False" if "\<forall>l \<in> set ls. di_rules l = []" for ls
    using that by (induction ls) (auto split: option.splits)
  then show ?thesis using e by (simp add: stack_ignores_def)
qed

lemma example_chunks: "tree_chunks example_env ''.'' example_tree = [[''a.txt:1:one''], [''a.txt:2:two'']]"
proof -
  have s: "skip_dir example_env ''.'' = False" "skip_dir example_env ''vendor'' = True"
    by (simp_all add: skip_dir_def example_env_def example_paths)
  have f: "file_chunks example_env ''a.txt'' \<lparr>lf_info = Some (True, 5), lf_data = Some (''one'' @ [LF] @ ''two'' @ [LF])\<rparr> =
      [[''a.txt:1:one''], [''a.txt:2:two'']]"
    using example_paths(12,14-18)
    by (simp add: file_chunks_def example_env_def example_paths(4,7,8,10,13) maxSearchFile_def text_chunks_def literal_options_def
        window_line_def match_line_def del: window_loop.simps)
  show ?thesis
    using s f example_ignores
    by (simp add: example_tree_def example_paths(2,3)) (simp add: example_env_def example_root_def)
qed

theorem search_is_reference_witness:
  "\<exists>r. searchFilesAtRoot no_regexp ''/r'' example_root ''.'' (literal_options ''o'' 2) = Inr r \<and>
     fo_Matches r = [''a.txt:1:one'', ''a.txt:2:two''] \<and> fo_Total r = 2 \<and> fo_Truncated r"
proof -
  obtain r where r: "searchFilesAtRoot no_regexp ''/r'' example_root ''.'' (literal_options ''o'' 2) = Inr r"
    using example_search_facts example_paths(1) by (auto simp: searchFilesAtRoot_def Let_def)
  have env: "example_env = \<lparr>se_opts = literal_options ''o'' 2, se_matcher = Literal ''o'' False, se_include = [], se_exclude = [],
     se_root = Clean ''.'', se_rc = no_regexp, se_read = sr_read example_root\<rparr>"
    by (simp add: example_env_def example_paths(1))
  have "fo_Matches r = concat (take 2 [[''a.txt:1:one''], [''a.txt:2:two'']]) \<and> fo_Total r = min 2 2 \<and> fo_Truncated r = (2 \<le> (2::nat))"
    using search_is_reference [OF r example_search_facts(1) _ example_search_facts(3) _ env refl]
    by (simp add: example_paths(1) example_search_facts(2,4) example_chunks)
  then show ?thesis using r by simp
qed


section \<open>Context windows\<close>

definition in_window :: "int \<Rightarrow> int \<Rightarrow> nat list \<Rightarrow> nat \<Rightarrow> bool" where
  "in_window before after hits i \<longleftrightarrow> list_ex (\<lambda>h. int h - before \<le> int i \<and> int i \<le> int h + after) hits"

lemma sorted_nat_upto: "sorted_wrt (<) (map nat [a..b])" if "0 \<le> a" for a b :: int
  unfolding sorted_wrt_map by (rule sorted_wrt_mono_rel [OF _ sorted_wrt_upto]) (use that in auto)

lemma window_loop_exact:
  assumes "0 \<le> before" "before < 2 ^ 62" "0 \<le> after" "after < 2 ^ 62" "n < 2 ^ 62"
  shows "sorted_wrt (<) hits \<Longrightarrow> \<forall>h \<in> set hits. h < n \<Longrightarrow> - 1 \<le> e \<Longrightarrow>
    concat (window_loop before after (int n) e hits) = filter (\<lambda>i. e < int i \<and> in_window before after hits i) [0..<n] \<and>
    length (window_loop before after (int n) e hits) = length hits"
proof (induction hits arbitrary: e)
  case Nil
  then show ?case by (simp add: in_window_def)
next
  case (Cons hit hs)
  define s2 where "s2 = max (max 0 (int hit - before)) (e + 1)"
  define e1 where "e1 = min (int hit + after) (int n - 1)"
  define e' where "e' = (if s2 \<le> e1 then e1 else e)"
  have hn: "hit < n" using Cons.prems(2) by simp
  have w: "wrap64 (int hit - before) = int hit - before" "wrap64 (int hit + after) = int hit + after"
    using assms hn by (auto intro!: wrap64_id)
  have step: "window_loop before after (int n) e (hit # hs) = map nat [s2..e1] # window_loop before after (int n) e' hs"
  proof -
    have "(if (if int hit - before < 0 then 0 else int hit - before) \<le> e then e + 1
           else if int hit - before < 0 then 0 else int hit - before) = s2"
      using Cons.prems(3) by (auto simp: s2_def)
    moreover have "(if int n \<le> int hit + after then int n - 1 else int hit + after) = e1" by (auto simp: e1_def)
    ultimately show ?thesis unfolding window_loop.simps w Let_def e'_def by simp
  qed
  have s2: "0 \<le> s2" "e < s2" "int hit - before \<le> s2" by (auto simp: s2_def)
  have e1: "e1 < int n" "e1 \<le> int hit + after" by (auto simp: e1_def)
  have "- 1 \<le> e'" using Cons.prems(3) s2 by (auto simp: e'_def)
  with Cons have IH: "concat (window_loop before after (int n) e' hs) = filter (\<lambda>i. e' < int i \<and> in_window before after hs i) [0..<n]"
      "length (window_loop before after (int n) e' hs) = length hs" by auto
  have later: "int h - before \<ge> int hit - before" if "h \<in> set hs" for h
    using Cons.prems(1) that by auto
  let ?L = "map nat [s2..e1] @ filter (\<lambda>i. e' < int i \<and> in_window before after hs i) [0..<n]"
  let ?R = "filter (\<lambda>i. e < int i \<and> in_window before after (hit # hs) i) [0..<n]"
  have "set ?L = set ?R"
  proof (rule set_eqI)
    fix i
    have first: "i \<in> set (map nat [s2..e1]) \<longleftrightarrow> s2 \<le> int i \<and> int i \<le> e1"
      using s2(1) by (auto simp: image_iff) (metis atLeastAtMost_iff nat_int)
    have s2i: "s2 \<le> int i \<longleftrightarrow> int hit - before \<le> int i \<and> e < int i" by (auto simp: s2_def)
    have e1i: "int i \<le> e1 \<longleftrightarrow> int i \<le> int hit + after \<and> i < n" by (auto simp: e1_def)
    have win: "in_window before after hs i \<Longrightarrow> int hit - before \<le> int i"
      using later by (force simp: in_window_def list_ex_iff)
    have cut: "e' < int i \<longleftrightarrow> e < int i \<and> \<not> (s2 \<le> int i \<and> int i \<le> e1)" if "in_window before after hs i"
      using win [OF that] s2 s2i by (auto simp: e'_def)
    show "i \<in> set ?L \<longleftrightarrow> i \<in> set ?R"
      using first s2i e1i cut by (auto simp: in_window_def)
  qed
  moreover have "sorted_wrt (<) ?L"
    using sorted_nat_upto [OF s2(1), of e1] s2
    by (auto simp: sorted_wrt_append sorted_wrt_filter e'_def split: if_splits)
  moreover have "sorted_wrt (<) ?R" by (simp add: sorted_wrt_filter)
  ultimately have "?L = ?R" by (metis strict_sorted_equal)
  then show ?case unfolding step using IH by simp
qed

text \<open>
  Claim C34: the lines a file adds to a search with context.  Once and in order, these are exactly the lines
  within the context of a line that hits, a hit marked with a colon and rewritten if asked, any other line
  marked with a dash; and every hit is counted once, whatever windows overlap.
\<close>

theorem text_chunks_windows:
  assumes "\<not> so_FilesOnly opts" "\<not> so_CountOnly opts" "\<not> so_OnlyMatching opts"
    "0 \<le> so_ContextBefore opts" "so_ContextBefore opts < 2 ^ 62" "0 \<le> so_ContextAfter opts" "so_ContextAfter opts < 2 ^ 62"
    "length lines < 2 ^ 62" "hits = hit_lines m (so_Invert opts) lines"
  shows "concat (text_chunks opts m relative lines) =
      map (window_line opts m relative lines hits)
        (filter (in_window (so_ContextBefore opts) (so_ContextAfter opts) hits) [0..<length lines]) \<and>
    length (text_chunks opts m relative lines) = length hits"
proof (cases "hits = []")
  case True
  then show ?thesis using assms(9) by (simp add: text_chunks_def in_window_def Let_def filter_empty_conv)
next
  case False
  have h: "sorted_wrt (<) hits" "\<forall>h \<in> set hits. h < length lines"
    unfolding assms(9) hit_lines_def by (simp_all add: sorted_wrt_filter)
  have W: "concat (window_loop (so_ContextBefore opts) (so_ContextAfter opts) (int (length lines)) (-1) hits) =
      filter (in_window (so_ContextBefore opts) (so_ContextAfter opts) hits) [0..<length lines]"
    "length (window_loop (so_ContextBefore opts) (so_ContextAfter opts) (int (length lines)) (-1) hits) = length hits"
    using window_loop_exact [OF assms(4-8) h, of "-1"] by simp_all
  have "text_chunks opts m relative lines = map (map (window_line opts m relative lines hits))
      (window_loop (so_ContextBefore opts) (so_ContextAfter opts) (int (length lines)) (-1) hits)"
    using False assms(1-3,9) by (simp add: text_chunks_def Let_def)
  then show ?thesis using W by (simp add: map_concat [symmetric])
qed

theorem text_chunks_windows_witness:
  "concat (text_chunks ((literal_options ''o'' 2)\<lparr>so_ContextAfter := 1\<rparr>) (Literal ''o'' False) ''f'' [''one'', ''six'', ''ten'']) =
     [''f:1:one'', ''f-2:six'']"
proof -
  let ?o = "(literal_options ''o'' 2)\<lparr>so_ContextAfter := 1\<rparr>"
  have h: "[0] = hit_lines (Literal ''o'' False) (so_Invert ?o) [''one'', ''six'', ''ten'']" by code_simp
  have u: "in_window 0 1 [0] 0" "in_window 0 1 [0] (Suc 0)" "in_window 0 1 [0] (Suc (Suc 0)) = False" by code_simp+
  have "concat (text_chunks ?o (Literal ''o'' False) ''f'' [''one'', ''six'', ''ten'']) =
      map (window_line ?o (Literal ''o'' False) ''f'' [''one'', ''six'', ''ten''] [0]) [0, 1]"
    using text_chunks_windows [OF _ _ _ _ _ _ _ _ h, of "''f''"] u by (simp add: literal_options_def)
  then show ?thesis by (simp add: window_line_def match_line_def example_paths(17,18) literal_options_def)
qed

section \<open>Observations\<close>

text \<open>A search of a directory with a skipped name finds nothing, and does not say so.\<close>

lemma scoped_to_skipped_dir_is_empty:
  "Base (se_root env) \<in> set [''node_modules'', ''__pycache__'', ''vendor''] \<Longrightarrow> tree_chunks env (se_root env) (DirNode es) = []"
  by (simp add: skip_dir_def)

text \<open>An include filter none of whose globs compiles admits every file.\<close>

lemma broken_include_admits_all:
  "\<forall>p \<in> set ps. rc (anchored_glob p) = None \<Longrightarrow> compileGlobSet rc ps = []"
  by (induction ps) auto

lemma broken_globs: "anchored_glob ''[]'' = ''^[]$''" "anchored_glob ''[z-a]'' = ''^[z-a]$''"
  by code_simp+

text \<open>Stopping at one counted match, a window can already hold a second one.\<close>

lemma cap_shows_more_hits:
  "emit 1 (text_chunks ((literal_options ''o'' 1)\<lparr>so_ContextAfter := 1\<rparr>) (Literal ''o'' False) ''f'' [''one'', ''two''])
     \<lparr>fo_Pattern = ''o'', fo_Path = [], fo_Matches = [], fo_Total = 0, fo_Truncated = False\<rparr> =
   (True, \<lparr>fo_Pattern = ''o'', fo_Path = [], fo_Matches = [''f:1:one'', ''f:2:two''], fo_Total = 1, fo_Truncated = True\<rparr>)"
proof -
  have w: "window_loop 0 1 2 (-1) [0, 1] = [[0, 1], []]" by code_simp
  show ?thesis
    using w example_paths(15)
    by (simp add: text_chunks_def literal_options_def window_line_def match_line_def example_paths(17,18) Let_def
        del: window_loop.simps)
qed

end
