(* ===== verification/ToolSchemas.thy ===== *)
theory ToolSchemas
  imports Tools "HOL-Library.AList" "HOL-Library.List_Lexorder" "HOL-Library.Char_ord"
begin

text \<open>
  The declarations of package \<open>fstools\<close>: the input schemas of \<open>schemas.go\<close> and the tool specifications of
  \<open>catalog.go\<close>.  A \<open>map[string]any\<close> is written in the order of the source; \<open>go_map\<close> is the object
  \<open>MustSchema\<close> encodes it as, with its members in key order.
\<close>

section \<open>Schemas\<close>

definition go_map :: "(string \<times> json) list \<Rightarrow> json" where
  "go_map kvs = JObj (sort_key fst kvs)"

definition number :: "nat \<Rightarrow> json" where
  "number n = JNum (Itoa (int n))"

definition strings :: "string list \<Rightarrow> json" where
  "strings ss = JArr (map JStr ss)"

definition stringProperty :: "(string \<times> json) list list \<Rightarrow> json" where
  "stringProperty extra =
     go_map (foldl (\<lambda>property kv. AList.update (fst kv) (snd kv) property) [(''type'', JStr ''string'')] (concat extra))"

definition integerProperty :: "nat \<Rightarrow> json" where
  "integerProperty minimum = go_map [(''type'', JStr ''integer''), (''minimum'', number minimum)]"

definition booleanProperty :: json where
  "booleanProperty = go_map [(''type'', JStr ''boolean'')]"

definition objectSchema :: "(string \<times> json) list \<Rightarrow> string list \<Rightarrow> Schema" where
  "objectSchema properties needed =
     Some (go_map ([(''type'', JStr ''object''), (''properties'', go_map properties), (''additionalProperties'', JBool False)]
       @ (if needed \<noteq> [] then [(''required'', strings needed)] else [])))"

definition nonempty :: "(string \<times> json) list" where
  "nonempty = [(''minLength'', number 1)]"

definition anchor_pattern :: string where
  "anchor_pattern = ''^[1-9][0-9]*#[a-z]{3}$''"

definition hash_shape :: "(string \<times> json) list" where
  "hash_shape = [(''minLength'', number 4), (''maxLength'', number 64), (''pattern'', JStr ''^[A-Fa-f0-9]+$'')]"

definition maxReadManyFiles :: nat where "maxReadManyFiles = 32"

definition nativeReadSchema :: Schema where
  "nativeReadSchema = objectSchema
     [(''path'', stringProperty [nonempty]), (''offset'', integerProperty 1), (''limit'', integerProperty 1)] [''path'']"

definition nativeListSchema :: Schema where
  "nativeListSchema = objectSchema
     [(''path'', stringProperty []), (''max_depth'', integerProperty 0), (''limit'', integerProperty 1),
      (''show_hidden'', booleanProperty)] []"

definition nativeFindSchema :: Schema where
  "nativeFindSchema = objectSchema
     [(''pattern'', stringProperty [nonempty]), (''path'', stringProperty []), (''limit'', integerProperty 1),
      (''show_hidden'', booleanProperty)] [''pattern'']"

definition nativeGrepSchema :: Schema where
  "nativeGrepSchema = objectSchema
     [(''pattern'', stringProperty [nonempty]), (''path'', stringProperty []), (''glob'', stringProperty []),
      (''literal'', booleanProperty), (''ignore_case'', booleanProperty), (''before'', integerProperty 0),
      (''after'', integerProperty 0), (''context'', integerProperty 0), (''limit'', integerProperty 1)] [''pattern'']"

definition nativeWriteSchema :: Schema where
  "nativeWriteSchema = objectSchema
     [(''path'', stringProperty [nonempty]), (''content'', stringProperty [])] [''path'', ''content'']"

definition nativeEditSchema :: Schema where
  "nativeEditSchema =
     (let edit = go_map [(''type'', JStr ''object''),
            (''properties'', go_map [(''from'', stringProperty [[(''pattern'', JStr anchor_pattern)]]),
               (''to'', stringProperty [[(''pattern'', JStr anchor_pattern)]]), (''content'', stringProperty [])]),
            (''required'', strings [''from'']), (''additionalProperties'', JBool False)]
      in objectSchema
        [(''path'', stringProperty [nonempty]), (''hash'', stringProperty [hash_shape]),
         (''edits'', go_map [(''type'', JStr ''array''), (''minItems'', number 1), (''items'', edit)])]
        [''path'', ''hash'', ''edits''])"

definition mcpFileSchema :: Schema where
  "mcpFileSchema = objectSchema
     [(''repo_path'', stringProperty [nonempty]),
      (''action'', stringProperty [[(''enum'', strings [''read'', ''read_many'', ''search'', ''list'', ''write'', ''create''])]]),
      (''path'', stringProperty []),
      (''paths'', go_map [(''type'', JStr ''array''), (''minItems'', number 1), (''maxItems'', number maxReadManyFiles),
         (''items'', stringProperty [nonempty])]),
      (''offset'', integerProperty 1), (''limit'', integerProperty 1), (''max_depth'', integerProperty 0),
      (''show_hidden'', booleanProperty), (''pattern'', stringProperty []), (''regex'', booleanProperty),
      (''literal'', booleanProperty), (''ignore_case'', booleanProperty), (''glob'', stringProperty []),
      (''globs'', go_map [(''type'', JStr ''array''), (''maxItems'', number 32), (''items'', stringProperty [nonempty])]),
      (''before'', integerProperty 0), (''after'', integerProperty 0), (''context'', integerProperty 0),
      (''content'', stringProperty []), (''content_b64'', stringProperty []),
      (''expected_hash'', stringProperty [hash_shape])] [''repo_path'', ''action'']"

definition mcpEditSchema :: Schema where
  "mcpEditSchema = objectSchema
     [(''repo_path'', stringProperty [nonempty]), (''path'', stringProperty [nonempty]),
      (''action'', stringProperty [[(''enum'', strings [''replace'', ''append_unique'', ''delete_exact'', ''create_if_absent''])]]),
      (''old_text'', stringProperty []), (''new_text'', stringProperty []), (''content'', stringProperty []),
      (''content_b64'', stringProperty []), (''expected_hash'', stringProperty [hash_shape])]
     [''repo_path'', ''path'', ''action'']"

section \<open>Specifications\<close>

definition readOperation :: "string \<Rightarrow> Operation" where
  "readOperation name = \<lparr>op_Name = name, op_Effects = [EffectFilesystemRead],
     op_Hints = \<lparr>ReadOnly = True, Destructive = False, Idempotent = True, OpenWorld = False\<rparr>\<rparr>"

definition writeOperation :: "string \<Rightarrow> bool \<Rightarrow> Operation" where
  "writeOperation name destructive = \<lparr>op_Name = name, op_Effects = [EffectFilesystemWrite],
     op_Hints = \<lparr>ReadOnly = False, Destructive = destructive, Idempotent = True, OpenWorld = False\<rparr>\<rparr>"

definition direct_spec :: "string \<Rightarrow> string \<Rightarrow> Schema \<Rightarrow> Operation \<Rightarrow> Spec" where
  "direct_spec name description schema op = \<lparr>sp_Name = name, sp_Description = description, sp_InputSchema = schema,
     sp_Operation = op, sp_OperationField = [], sp_Operations = []\<rparr>"

definition dispatch_spec :: "string \<Rightarrow> string \<Rightarrow> Schema \<Rightarrow> (string \<times> Operation) list \<Rightarrow> Spec" where
  "dispatch_spec name description schema ops = \<lparr>sp_Name = name, sp_Description = description, sp_InputSchema = schema,
     sp_Operation = \<lparr>op_Name = [], op_Effects = [],
       op_Hints = \<lparr>ReadOnly = False, Destructive = False, Idempotent = False, OpenWorld = False\<rparr>\<rparr>,
     sp_OperationField = ''action'', sp_Operations = ops\<rparr>"

definition native_specs :: "Spec list" where
  "native_specs =
     [direct_spec ''read'' ''Read a bounded root-relative file with editable line anchors.'' nativeReadSchema (readOperation ''read''),
      direct_spec ''ls'' ''List a root-relative directory as a deterministic tree.'' nativeListSchema (readOperation ''ls''),
      direct_spec ''find'' ''Find root-relative paths matching a glob.'' nativeFindSchema (readOperation ''find''),
      direct_spec ''grep'' ''Search files and return editable anchored matches grouped by file.'' nativeGrepSchema (readOperation ''grep''),
      direct_spec ''write'' ''Atomically create or overwrite a root-relative file.'' nativeWriteSchema (writeOperation ''write'' True),
      direct_spec ''edit'' ''Apply guarded hashline edits to one file snapshot.'' nativeEditSchema (writeOperation ''edit'' True)]"

definition file_operations :: "(string \<times> Operation) list" where
  "file_operations =
     [(''read'', readOperation ''read''), (''read_many'', readOperation ''read_many''), (''search'', readOperation ''search''),
      (''list'', readOperation ''list''), (''write'', writeOperation ''write'' True), (''create'', writeOperation ''create'' False)]"

definition edit_operations :: "(string \<times> Operation) list" where
  "edit_operations =
     [(''replace'', writeOperation ''replace'' True), (''append_unique'', writeOperation ''append_unique'' False),
      (''delete_exact'', writeOperation ''delete_exact'' True), (''create_if_absent'', writeOperation ''create_if_absent'' False)]"

definition mcp_specs :: "Spec list" where
  "mcp_specs =
     [dispatch_spec ''file'' ''Bounded repository file reads, searches, listings, writes, and creates.'' mcpFileSchema file_operations,
      dispatch_spec ''edit'' ''Guarded idempotent repository text edits and create-if-absent.'' mcpEditSchema edit_operations]"

lemma native_valid: "list_all (\<lambda>s. Spec_Validate s = None) native_specs"
  by code_simp

lemma mcp_valid: "list_all (\<lambda>s. Spec_Validate s = None) mcp_specs"
  by code_simp

lemma spec_names: "map sp_Name native_specs = [''read'', ''ls'', ''find'', ''grep'', ''write'', ''edit'']"
  "map sp_Name mcp_specs = [''file'', ''edit'']"
  by code_simp+

end
