(* ===== verification/FsInput.thy ===== *)
theory FsInput
  imports ToolSchemas
begin

text \<open>
  The inputs of the \<open>fstools\<close> handlers and \<open>decodeStrict\<close> of \<open>helpers.go\<close>.  Every struct comes with the table of
  its JSON fields in declaration order; a key is looked up as \<open>encoding/json\<close> does, exactly first and without regard
  to ASCII case second, and members are stored one after the other, so that the last one wins.  Each element of
  the array \<open>edits\<close> starts from the zero value.  Texts formatted with \<open>%q\<close> are shown without the quotes.
\<close>

type_synonym 'a field_table = "(string \<times> (json \<Rightarrow> 'a \<Rightarrow> 'a option)) list"

section \<open>Decoding\<close>

definition set_string :: "(string \<Rightarrow> 'a \<Rightarrow> 'a) \<Rightarrow> json \<Rightarrow> 'a \<Rightarrow> 'a option" where
  "set_string put j r = (case j of JStr s \<Rightarrow> Some (put s r) | JNull \<Rightarrow> Some r | _ \<Rightarrow> None)"

definition set_int :: "(int \<Rightarrow> 'a \<Rightarrow> 'a) \<Rightarrow> json \<Rightarrow> 'a \<Rightarrow> 'a option" where
  "set_int put j r =
     (case j of JNum s \<Rightarrow> map_option (\<lambda>n. put n r) (Atoi s) | JNull \<Rightarrow> Some r | _ \<Rightarrow> None)"

definition set_bool :: "(bool \<Rightarrow> 'a \<Rightarrow> 'a) \<Rightarrow> json \<Rightarrow> 'a \<Rightarrow> 'a option" where
  "set_bool put j r = (case j of JBool b \<Rightarrow> Some (put b r) | JNull \<Rightarrow> Some r | _ \<Rightarrow> None)"

definition set_pointer :: "(string option \<Rightarrow> 'a \<Rightarrow> 'a) \<Rightarrow> json \<Rightarrow> 'a \<Rightarrow> 'a option" where
  "set_pointer put j r = (case j of JStr s \<Rightarrow> Some (put (Some s) r) | JNull \<Rightarrow> Some (put None r) | _ \<Rightarrow> None)"

definition set_strings :: "(string list \<Rightarrow> 'a \<Rightarrow> 'a) \<Rightarrow> json \<Rightarrow> 'a \<Rightarrow> 'a option" where
  "set_strings put j r = map_option (\<lambda>ss. put ss r) (decode_string_slice (Some j))"

definition lookup_field :: "'a field_table \<Rightarrow> string \<Rightarrow> (json \<Rightarrow> 'a \<Rightarrow> 'a option) option" where
  "lookup_field table key =
     (case map_of table key of
        Some f \<Rightarrow> Some f
      | None \<Rightarrow> map_option snd (find (\<lambda>kv. field_matches (fst kv) key) table))"

text \<open>A member of an unknown name is an error (\<open>DisallowUnknownFields\<close>), as is one of the wrong type.\<close>

fun decode_members :: "'a field_table \<Rightarrow> (string \<times> json) list \<Rightarrow> 'a \<Rightarrow> 'a option" where
  "decode_members table [] r = Some r"
| "decode_members table ((key, v) # ms) r =
     (case lookup_field table key of
        None \<Rightarrow> None
      | Some f \<Rightarrow> (case f v r of None \<Rightarrow> None | Some r' \<Rightarrow> decode_members table ms r'))"

definition decode_struct :: "'a field_table \<Rightarrow> 'a \<Rightarrow> json \<Rightarrow> 'a option" where
  "decode_struct table zero j =
     (case j of JObj ms \<Rightarrow> decode_members table ms zero | JNull \<Rightarrow> Some zero | _ \<Rightarrow> None)"

fun decode_elements :: "'a field_table \<Rightarrow> 'a \<Rightarrow> json list \<Rightarrow> 'a list option" where
  "decode_elements table zero [] = Some []"
| "decode_elements table zero (j # js) =
     (case (decode_struct table zero j, decode_elements table zero js) of
        (Some x, Some xs) \<Rightarrow> Some (x # xs) | _ \<Rightarrow> None)"

text \<open>
  \<open>raw\<close> are the bytes of the input and \<open>parsed\<close> their parse, \<open>None\<close> when they are not one JSON value.
\<close>

definition decodeStrict :: "'a field_table \<Rightarrow> 'a \<Rightarrow> string \<Rightarrow> RawMessage \<Rightarrow> go_error + 'a" where
  "decodeStrict table zero raw parsed =
     (case (if TrimSpace raw = [] then Some (JObj []) else parsed) of
        None \<Rightarrow> Inl (WrapError CodeInvalidArgument ''decode tool input'' (Plain ''json''))
      | Some j \<Rightarrow> (case decode_struct table zero j of
            None \<Rightarrow> Inl (WrapError CodeInvalidArgument ''decode tool input'' (Plain ''json''))
          | Some r \<Rightarrow> Inr r))"

definition invalid :: "string \<Rightarrow> go_error" where
  "invalid message = NewError CodeInvalidArgument message"

definition need :: "string \<Rightarrow> string \<Rightarrow> go_error + unit" where
  "need v field = (if v = [] then Inl (invalid (field @ '' is required'')) else Inr ())"

section \<open>Native inputs\<close>

record nativeReadInput =
  nr_Path :: string
  nr_Offset :: int
  nr_Limit :: int

definition read_fields :: "nativeReadInput field_table" where
  "read_fields =
     [(''path'', set_string (\<lambda>s r. r\<lparr>nr_Path := s\<rparr>)), (''offset'', set_int (\<lambda>n r. r\<lparr>nr_Offset := n\<rparr>)),
      (''limit'', set_int (\<lambda>n r. r\<lparr>nr_Limit := n\<rparr>))]"

definition read_zero :: nativeReadInput where
  "read_zero = \<lparr>nr_Path = [], nr_Offset = 0, nr_Limit = 0\<rparr>"

record nativeListInput =
  nl_Path :: string
  nl_MaxDepth :: int
  nl_Limit :: int
  nl_ShowHidden :: bool

definition list_fields :: "nativeListInput field_table" where
  "list_fields =
     [(''path'', set_string (\<lambda>s r. r\<lparr>nl_Path := s\<rparr>)), (''max_depth'', set_int (\<lambda>n r. r\<lparr>nl_MaxDepth := n\<rparr>)),
      (''limit'', set_int (\<lambda>n r. r\<lparr>nl_Limit := n\<rparr>)), (''show_hidden'', set_bool (\<lambda>b r. r\<lparr>nl_ShowHidden := b\<rparr>))]"

definition list_zero :: nativeListInput where
  "list_zero = \<lparr>nl_Path = [], nl_MaxDepth = 0, nl_Limit = 0, nl_ShowHidden = False\<rparr>"

record nativeFindInput =
  nf_Pattern :: string
  nf_Path :: string
  nf_Limit :: int
  nf_ShowHidden :: bool

definition find_fields :: "nativeFindInput field_table" where
  "find_fields =
     [(''pattern'', set_string (\<lambda>s r. r\<lparr>nf_Pattern := s\<rparr>)), (''path'', set_string (\<lambda>s r. r\<lparr>nf_Path := s\<rparr>)),
      (''limit'', set_int (\<lambda>n r. r\<lparr>nf_Limit := n\<rparr>)), (''show_hidden'', set_bool (\<lambda>b r. r\<lparr>nf_ShowHidden := b\<rparr>))]"

definition find_zero :: nativeFindInput where
  "find_zero = \<lparr>nf_Pattern = [], nf_Path = [], nf_Limit = 0, nf_ShowHidden = False\<rparr>"

record nativeGrepInput =
  ng_Pattern :: string
  ng_Path :: string
  ng_Glob :: string
  ng_Literal :: bool
  ng_IgnoreCase :: bool
  ng_Before :: int
  ng_After :: int
  ng_Context :: int
  ng_Limit :: int

definition grep_fields :: "nativeGrepInput field_table" where
  "grep_fields =
     [(''pattern'', set_string (\<lambda>s r. r\<lparr>ng_Pattern := s\<rparr>)), (''path'', set_string (\<lambda>s r. r\<lparr>ng_Path := s\<rparr>)),
      (''glob'', set_string (\<lambda>s r. r\<lparr>ng_Glob := s\<rparr>)), (''literal'', set_bool (\<lambda>b r. r\<lparr>ng_Literal := b\<rparr>)),
      (''ignore_case'', set_bool (\<lambda>b r. r\<lparr>ng_IgnoreCase := b\<rparr>)), (''before'', set_int (\<lambda>n r. r\<lparr>ng_Before := n\<rparr>)),
      (''after'', set_int (\<lambda>n r. r\<lparr>ng_After := n\<rparr>)), (''context'', set_int (\<lambda>n r. r\<lparr>ng_Context := n\<rparr>)),
      (''limit'', set_int (\<lambda>n r. r\<lparr>ng_Limit := n\<rparr>))]"

definition grep_zero :: nativeGrepInput where
  "grep_zero = \<lparr>ng_Pattern = [], ng_Path = [], ng_Glob = [], ng_Literal = False, ng_IgnoreCase = False, ng_Before = 0,
     ng_After = 0, ng_Context = 0, ng_Limit = 0\<rparr>"

record nativeWriteInput =
  nw_Path :: string
  nw_Content :: "string option"

definition write_fields :: "nativeWriteInput field_table" where
  "write_fields =
     [(''path'', set_string (\<lambda>s r. r\<lparr>nw_Path := s\<rparr>)), (''content'', set_pointer (\<lambda>s r. r\<lparr>nw_Content := s\<rparr>))]"

definition write_zero :: nativeWriteInput where
  "write_zero = \<lparr>nw_Path = [], nw_Content = None\<rparr>"

record editInput =
  ei_From :: string
  ei_To :: string
  ei_Content :: "string option"

record nativeEditInput =
  ne_Path :: string
  ne_Hash :: string
  ne_Edits :: "editInput list"

definition edit_item_fields :: "editInput field_table" where
  "edit_item_fields =
     [(''from'', set_string (\<lambda>s r. r\<lparr>ei_From := s\<rparr>)), (''to'', set_string (\<lambda>s r. r\<lparr>ei_To := s\<rparr>)),
      (''content'', set_pointer (\<lambda>s r. r\<lparr>ei_Content := s\<rparr>))]"

definition set_edits :: "json \<Rightarrow> nativeEditInput \<Rightarrow> nativeEditInput option" where
  "set_edits j r =
     (case j of
        JArr js \<Rightarrow> map_option (\<lambda>es. r\<lparr>ne_Edits := es\<rparr>)
            (decode_elements edit_item_fields \<lparr>ei_From = [], ei_To = [], ei_Content = None\<rparr> js)
      | JNull \<Rightarrow> Some (r\<lparr>ne_Edits := []\<rparr>)
      | _ \<Rightarrow> None)"

definition edit_fields :: "nativeEditInput field_table" where
  "edit_fields =
     [(''path'', set_string (\<lambda>s r. r\<lparr>ne_Path := s\<rparr>)), (''hash'', set_string (\<lambda>s r. r\<lparr>ne_Hash := s\<rparr>)), (''edits'', set_edits)]"

definition edit_zero :: nativeEditInput where
  "edit_zero = \<lparr>ne_Path = [], ne_Hash = [], ne_Edits = []\<rparr>"

section \<open>MCP inputs\<close>

record mcpFileInput =
  mf_RepoPath :: string
  mf_Action :: string
  mf_Path :: string
  mf_Paths :: "string list"
  mf_Offset :: int
  mf_Limit :: int
  mf_MaxDepth :: int
  mf_ShowHidden :: bool
  mf_Pattern :: string
  mf_Regex :: bool
  mf_Literal :: bool
  mf_IgnoreCase :: bool
  mf_Glob :: string
  mf_Globs :: "string list"
  mf_Before :: int
  mf_After :: int
  mf_Context :: int
  mf_Content :: "string option"
  mf_ContentB64 :: "string option"
  mf_ExpectedHash :: string

definition file_fields :: "mcpFileInput field_table" where
  "file_fields =
     [(''repo_path'', set_string (\<lambda>s r. r\<lparr>mf_RepoPath := s\<rparr>)), (''action'', set_string (\<lambda>s r. r\<lparr>mf_Action := s\<rparr>)),
      (''path'', set_string (\<lambda>s r. r\<lparr>mf_Path := s\<rparr>)), (''paths'', set_strings (\<lambda>ss r. r\<lparr>mf_Paths := ss\<rparr>)),
      (''offset'', set_int (\<lambda>n r. r\<lparr>mf_Offset := n\<rparr>)), (''limit'', set_int (\<lambda>n r. r\<lparr>mf_Limit := n\<rparr>)),
      (''max_depth'', set_int (\<lambda>n r. r\<lparr>mf_MaxDepth := n\<rparr>)), (''show_hidden'', set_bool (\<lambda>b r. r\<lparr>mf_ShowHidden := b\<rparr>)),
      (''pattern'', set_string (\<lambda>s r. r\<lparr>mf_Pattern := s\<rparr>)), (''regex'', set_bool (\<lambda>b r. r\<lparr>mf_Regex := b\<rparr>)),
      (''literal'', set_bool (\<lambda>b r. r\<lparr>mf_Literal := b\<rparr>)), (''ignore_case'', set_bool (\<lambda>b r. r\<lparr>mf_IgnoreCase := b\<rparr>)),
      (''glob'', set_string (\<lambda>s r. r\<lparr>mf_Glob := s\<rparr>)), (''globs'', set_strings (\<lambda>ss r. r\<lparr>mf_Globs := ss\<rparr>)),
      (''before'', set_int (\<lambda>n r. r\<lparr>mf_Before := n\<rparr>)), (''after'', set_int (\<lambda>n r. r\<lparr>mf_After := n\<rparr>)),
      (''context'', set_int (\<lambda>n r. r\<lparr>mf_Context := n\<rparr>)), (''content'', set_pointer (\<lambda>s r. r\<lparr>mf_Content := s\<rparr>)),
      (''content_b64'', set_pointer (\<lambda>s r. r\<lparr>mf_ContentB64 := s\<rparr>)),
      (''expected_hash'', set_string (\<lambda>s r. r\<lparr>mf_ExpectedHash := s\<rparr>))]"

definition file_zero :: mcpFileInput where
  "file_zero = \<lparr>mf_RepoPath = [], mf_Action = [], mf_Path = [], mf_Paths = [], mf_Offset = 0, mf_Limit = 0, mf_MaxDepth = 0,
     mf_ShowHidden = False, mf_Pattern = [], mf_Regex = False, mf_Literal = False, mf_IgnoreCase = False, mf_Glob = [],
     mf_Globs = [], mf_Before = 0, mf_After = 0, mf_Context = 0, mf_Content = None, mf_ContentB64 = None,
     mf_ExpectedHash = []\<rparr>"

record mcpEditInput =
  me_RepoPath :: string
  me_Path :: string
  me_Action :: string
  me_OldText :: "string option"
  me_NewText :: "string option"
  me_Content :: "string option"
  me_ContentB64 :: "string option"
  me_ExpectedHash :: string

definition mcp_edit_fields :: "mcpEditInput field_table" where
  "mcp_edit_fields =
     [(''repo_path'', set_string (\<lambda>s r. r\<lparr>me_RepoPath := s\<rparr>)), (''path'', set_string (\<lambda>s r. r\<lparr>me_Path := s\<rparr>)),
      (''action'', set_string (\<lambda>s r. r\<lparr>me_Action := s\<rparr>)), (''old_text'', set_pointer (\<lambda>s r. r\<lparr>me_OldText := s\<rparr>)),
      (''new_text'', set_pointer (\<lambda>s r. r\<lparr>me_NewText := s\<rparr>)), (''content'', set_pointer (\<lambda>s r. r\<lparr>me_Content := s\<rparr>)),
      (''content_b64'', set_pointer (\<lambda>s r. r\<lparr>me_ContentB64 := s\<rparr>)),
      (''expected_hash'', set_string (\<lambda>s r. r\<lparr>me_ExpectedHash := s\<rparr>))]"

definition mcp_edit_zero :: mcpEditInput where
  "mcp_edit_zero = \<lparr>me_RepoPath = [], me_Path = [], me_Action = [], me_OldText = None, me_NewText = None, me_Content = None,
     me_ContentB64 = None, me_ExpectedHash = []\<rparr>"

section \<open>Checks of the MCP inputs\<close>

fun empty_path_at :: "string list \<Rightarrow> nat \<Rightarrow> nat option" where
  "empty_path_at [] i = None"
| "empty_path_at (p # ps) i = (if p = [] then Some i else empty_path_at ps (i + 1))"

definition validateMCPFileInput :: "mcpFileInput \<Rightarrow> go_error + unit" where
  "validateMCPFileInput rq =
     rbind (need (mf_Action rq) ''action'') (\<lambda>_.
       if mf_Action rq = ''read'' then need (mf_Path rq) ''path''
       else if mf_Action rq = ''read_many'' then
         (if mf_Paths rq = [] then Inl (invalid ''paths must contain at least one path'')
          else if length (mf_Paths rq) > maxReadManyFiles then
            Inl (invalid (''paths may contain at most '' @ Itoa (int maxReadManyFiles) @ '' files''))
          else (case empty_path_at (mf_Paths rq) 0 of
              Some i \<Rightarrow> Inl (invalid (''paths['' @ Itoa (int i) @ ''] must not be empty''))
            | None \<Rightarrow> Inr ()))
       else if mf_Action rq = ''search'' then
         rbind (need (mf_Pattern rq) ''pattern'') (\<lambda>_.
           if mf_Regex rq \<and> mf_Literal rq then Inl (invalid ''regex and literal cannot both be true'')
           else if mf_Context rq < 0 then Inl (invalid ''context must not be negative'')
           else Inr ())
       else if mf_Action rq = ''list'' then Inr ()
       else if mf_Action rq = ''write'' \<or> mf_Action rq = ''create'' then
         rbind (need (mf_Path rq) ''path'') (\<lambda>_.
           if (mf_Content rq = None) = (mf_ContentB64 rq = None) then
             Inl (invalid ''exactly one of content or content_b64 is required'')
           else if mf_Action rq = ''create'' \<and> mf_ExpectedHash rq \<noteq> [] then
             Inl (invalid ''create does not accept expected_hash'')
           else Inr ())
       else Inl (invalid (''unknown action '' @ mf_Action rq)))"

definition validateMCPEditInput :: "mcpEditInput \<Rightarrow> go_error + unit" where
  "validateMCPEditInput rq =
     rbind (need (me_RepoPath rq) ''repo_path'') (\<lambda>_.
     rbind (need (me_Path rq) ''path'') (\<lambda>_.
     rbind (need (me_Action rq) ''action'') (\<lambda>_.
       if me_Action rq = ''replace'' then
         (if me_OldText rq = None \<or> me_OldText rq = Some [] then
            Inl (invalid ''old_text must be a non-empty string for replace'')
          else if me_NewText rq = None then Inl (invalid ''new_text is required for replace'')
          else need (me_ExpectedHash rq) ''expected_hash'')
       else if me_Action rq = ''append_unique'' \<or> me_Action rq = ''delete_exact'' then
         (if me_Content rq = None \<or> me_Content rq = Some [] then
            Inl (invalid (''content must be a non-empty string for '' @ me_Action rq))
          else if me_ContentB64 rq \<noteq> None then Inl (invalid (me_Action rq @ '' accepts text content only''))
          else need (me_ExpectedHash rq) ''expected_hash'')
       else if me_Action rq = ''create_if_absent'' then
         (if (me_Content rq = None) = (me_ContentB64 rq = None) then
            Inl (invalid ''exactly one of content or content_b64 is required'')
          else if me_ExpectedHash rq \<noteq> [] then Inl (invalid ''create_if_absent does not accept expected_hash'')
          else Inr ())
       else Inl (invalid (''unknown action '' @ me_Action rq)))))"

end
