(* ===== verification/Marshal.thy ===== *)
theory Marshal
  imports FileEdits Json
begin

text \<open>
  What the tool adapters use of \<open>encoding/json\<close> and \<open>encoding/base64\<close> to answer: the text \<open>json.Marshal\<close> makes of a
  value, and \<open>base64.StdEncoding.EncodeToString\<close> with its round trip.  A Go struct or map is the object of its
  members in the order they are written: declaration order for a struct, key order for a map.
\<close>

section \<open>Base64\<close>

definition b64_char :: "nat \<Rightarrow> char" where
  "b64_char n =
     (if n < 26 then char_of (n + 65) else if n < 52 then char_of (n + 71) else if n < 62 then char_of (n - 4)
      else if n = 62 then CHR ''+'' else SLASH)"

fun EncodeToString :: "string \<Rightarrow> string" where
  "EncodeToString (a # b # c # rest) =
     [b64_char (byteval a div 4), b64_char (16 * (byteval a mod 4) + byteval b div 16),
      b64_char (4 * (byteval b mod 16) + byteval c div 64), b64_char (byteval c mod 64)] @ EncodeToString rest"
| "EncodeToString [a, b] =
     [b64_char (byteval a div 4), b64_char (16 * (byteval a mod 4) + byteval b div 16),
      b64_char (4 * (byteval b mod 16)), CHR ''='']"
| "EncodeToString [a] = [b64_char (byteval a div 4), b64_char (16 * (byteval a mod 4)), CHR ''='', CHR ''='']"
| "EncodeToString [] = []"

lemma byteval_b64_char: "n < 64 \<Longrightarrow> byteval (b64_char n) =
    (if n < 26 then n + 65 else if n < 52 then n + 71 else if n < 62 then n - 4 else if n = 62 then 43 else 47)"
  by (simp add: b64_char_def byteval_char_of) (simp add: byteval_def)

lemma b64_char_facts [simp]:
  assumes "n < 64"
  shows "b64_value (b64_char n) = Some n" "b64_char n \<noteq> LF" "b64_char n \<noteq> CR" "b64_char n \<noteq> CHR ''=''"
proof -
  have v: "byteval LF = 10" "byteval CR = 13" "byteval (CHR ''='') = 61" by (simp_all add: byteval_def)
  have ne: "b64_char n \<noteq> c" if "byteval c \<in> {10, 13, 61}" for c
    using byteval_b64_char [OF assms] that assms by (auto split: if_splits)
  show "b64_char n \<noteq> LF" "b64_char n \<noteq> CR" "b64_char n \<noteq> CHR ''=''" using ne v by simp_all
  show "b64_value (b64_char n) = Some n"
  proof (cases "n < 62")
    case True
    then show ?thesis using byteval_b64_char [OF assms]
      by (auto simp: b64_value_def is_upper_def is_lower_def is_digit_def)
  next
    case False
    then have "n = 62 \<or> n = 63" using assms by auto
    then show ?thesis by (auto simp: b64_char_def b64_value_def is_upper_def is_lower_def is_digit_def byteval_def)
  qed
qed

lemma byteval_less [simp]: "byteval c < 256"
  by (simp add: byteval_def)

lemma sextets [simp]: "byteval c div 4 < 64" "16 * (byteval c mod 4) + byteval d div 16 < 64" "16 * (byteval c mod 4) < 64"
  "4 * (byteval c mod 16) + byteval d div 64 < 64" "4 * (byteval c mod 16) < 64" "byteval c mod 64 < 64"
proof -
  have d: "byteval d div 16 < 16" "byteval d div 64 < 4" "byteval c div 4 < 64"
    using byteval_less [of d] byteval_less [of c] by (simp_all add: less_mult_imp_div_less)
  have m: "byteval c mod 4 < 4" "byteval c mod 16 < 16" "byteval c mod 64 < 64" by simp_all
  show "byteval c div 4 < 64" "16 * (byteval c mod 4) + byteval d div 16 < 64" "16 * (byteval c mod 4) < 64"
    "4 * (byteval c mod 16) + byteval d div 64 < 64" "4 * (byteval c mod 16) < 64" "byteval c mod 64 < 64"
    using d m by linarith+
qed

lemma byte_parts:
  "char_of (4 * (byteval a div 4) + (16 * (byteval a mod 4) + byteval b div 16) div 16) = a"
  "char_of (4 * (byteval a div 4) + 16 * (byteval a mod 4) div 16) = a"
  "char_of (16 * ((16 * (byteval a mod 4) + byteval b div 16) mod 16) + (4 * (byteval b mod 16) + byteval c div 64) div 4) = b"
  "char_of (16 * ((16 * (byteval a mod 4) + byteval b div 16) mod 16) + 4 * (byteval b mod 16) div 4) = b"
  "char_of (64 * ((4 * (byteval b mod 16) + byteval c div 64) mod 4) + byteval c mod 64) = c"
proof -
  have d: "byteval b div 16 < 16" "byteval c div 64 < 4"
    using byteval_less [of b] byteval_less [of c] by (simp_all add: less_mult_imp_div_less)
  have e: "(16 * x + byteval b div 16) div 16 = x" "(16 * x + byteval b div 16) mod 16 = byteval b div 16"
    "(4 * x + byteval c div 64) div 4 = x" "(4 * x + byteval c div 64) mod 4 = byteval c div 64" for x
    using d by simp_all
  show "char_of (4 * (byteval a div 4) + (16 * (byteval a mod 4) + byteval b div 16) div 16) = a"
    "char_of (4 * (byteval a div 4) + 16 * (byteval a mod 4) div 16) = a"
    "char_of (16 * ((16 * (byteval a mod 4) + byteval b div 16) mod 16) + (4 * (byteval b mod 16) + byteval c div 64) div 4) = b"
    "char_of (16 * ((16 * (byteval a mod 4) + byteval b div 16) mod 16) + 4 * (byteval b mod 16) div 4) = b"
    "char_of (64 * ((4 * (byteval b mod 16) + byteval c div 64) mod 4) + byteval c mod 64) = c"
    unfolding e by (simp_all add: byteval_def)
qed

lemma b64_bytes_sextets:
  "b64_bytes (byteval a div 4) (16 * (byteval a mod 4) + byteval b div 16) (4 * (byteval b mod 16) + byteval c div 64)
     (byteval c mod 64) = [a, b, c]"
  "take 2 (b64_bytes (byteval a div 4) (16 * (byteval a mod 4) + byteval b div 16) (4 * (byteval b mod 16)) 0) = [a, b]"
  "take (Suc 0) (b64_bytes (byteval a div 4) (16 * (byteval a mod 4)) 0 0) = [a]"
  unfolding b64_bytes_def byte_parts by (simp_all add: numeral_2_eq_2)

lemma b64_quanta_Encode: "b64_quanta (EncodeToString s) = Some s"
  by (induction s rule: EncodeToString.induct) (simp_all add: b64_bytes_sextets)

lemma filter_Encode: "filter (\<lambda>c. c \<noteq> LF \<and> c \<noteq> CR) (EncodeToString s) = EncodeToString s"
  by (induction s rule: EncodeToString.induct) simp_all

lemma DecodeString_Encode: "DecodeString (EncodeToString s) = Some s"
  by (simp add: DecodeString_def filter_Encode b64_quanta_Encode)

lemma length_EncodeToString: "length (EncodeToString s) = 4 * ((length s + 2) div 3)"
proof (induction s rule: EncodeToString.induct)
  case (1 a b c rest)
  have "length (a # b # c # rest) + 2 = (length rest + 2) + 3" by simp
  then show ?case using 1 by (simp only: EncodeToString.simps div_add_self2) simp
qed simp_all

section \<open>JSON text\<close>

definition hex_digit :: "nat \<Rightarrow> char" where
  "hex_digit n = (if n < 10 then char_of (n + 48) else char_of (n + 87))"

text \<open>\<open>appendString\<close> with HTML escaping, rune by rune: an invalid byte becomes the replacement character.\<close>

definition escape_rune :: "string \<Rightarrow> string" where
  "escape_rune r =
     (case r of
        [c] \<Rightarrow>
          (if c = DQ \<or> c = BSLASH then [BSLASH, c]
           else if c = CHR 0x08 then BSLASH # ''b''
           else if c = CHR 0x0C then BSLASH # ''f''
           else if c = LF then BSLASH # ''n''
           else if c = CR then BSLASH # ''r''
           else if c = TAB then BSLASH # ''t''
           else if byteval c < 32 \<or> c = CHR ''<'' \<or> c = CHR ''>'' \<or> c = CHR ''&'' then
             BSLASH # ''u00'' @ [hex_digit (byteval c div 16), hex_digit (byteval c mod 16)]
           else [c])
      | _ \<Rightarrow>
          (if r = [CHR 0xE2, CHR 0x80, CHR 0xA8] then BSLASH # ''u2028''
           else if r = [CHR 0xE2, CHR 0x80, CHR 0xA9] then BSLASH # ''u2029''
           else r))"

function escape :: "string \<Rightarrow> string" where
  "escape s =
     (if s = [] then []
      else if rune_len s = 0 then (BSLASH # ''ufffd'') @ escape (drop 1 s)
      else escape_rune (take (rune_len s) s) @ escape (drop (rune_len s) s))"
  by auto
termination by (relation "measure length") (auto simp: neq_Nil_conv simp del: rune_len.simps)

declare escape.simps [simp del]

definition quote :: "string \<Rightarrow> string" where
  "quote s = DQ # escape s @ [DQ]"

fun Marshal :: "json \<Rightarrow> string" where
  "Marshal JNull = ''null''"
| "Marshal (JBool b) = (if b then ''true'' else ''false'')"
| "Marshal (JNum n) = n"
| "Marshal (JStr s) = quote s"
| "Marshal (JArr xs) = ''['' @ Join '','' (map Marshal xs) @ '']''"
| "Marshal (JObj ms) = ''{'' @ Join '','' (map (\<lambda>(k, v). quote k @ '':'' @ Marshal v) ms) @ ''}''"

text \<open>Members of a struct: always written, or left out when the value is zero (\<open>omitempty\<close>).\<close>

definition jint :: "int \<Rightarrow> json" where "jint n = JNum (Itoa n)"

definition omit_zero :: "string \<Rightarrow> int \<Rightarrow> (string \<times> json) list" where
  "omit_zero k n = (if n = 0 then [] else [(k, jint n)])"

definition omit_empty :: "string \<Rightarrow> string \<Rightarrow> (string \<times> json) list" where
  "omit_empty k s = (if s = [] then [] else [(k, JStr s)])"

definition omit_nil :: "string \<Rightarrow> string option \<Rightarrow> (string \<times> json) list" where
  "omit_nil k s = (case s of None \<Rightarrow> [] | Some x \<Rightarrow> [(k, JStr x)])"

definition omit_false :: "string \<Rightarrow> bool \<Rightarrow> (string \<times> json) list" where
  "omit_false k b = (if b then [(k, JBool True)] else [])"

definition omit_none :: "string \<Rightarrow> json list \<Rightarrow> (string \<times> json) list" where
  "omit_none k xs = (if xs = [] then [] else [(k, JArr xs)])"

definition jstrs :: "string list \<Rightarrow> json" where "jstrs ss = JArr (map JStr ss)"

definition jsonSize :: "json \<Rightarrow> int" where "jsonSize j = int (length (Marshal j))"

end
