(* ===== verification/FsTools.thy ===== *)
theory FsTools
  imports FsInput Marshal Listing
begin

text \<open>
  Package \<open>fstools\<close>: the adapter (\<open>config.go\<close>, \<open>helpers.go\<close>), the native handlers (\<open>native.go\<close>), the MCP
  handlers (\<open>mcp_file.go\<close>, \<open>mcp_edit.go\<close>) and the catalogs (\<open>catalog.go\<close>) over the filesystem service.  A handler
  gets the bytes of its input and their parse and runs in a state of the file-system machine, which is the tree
  beneath the root the capability resolves; the record \<open>fs_env\<close> holds what a call gets from outside.
\<close>

section \<open>Configuration\<close>

text \<open>A capability gets whether the context is done and the requested root; \<open>None\<close> is a nil one.\<close>

type_synonym capability = "bool \<Rightarrow> string \<Rightarrow> go_error + string"

definition FixedRoot :: "string \<Rightarrow> capability" where
  "FixedRoot root done requested = (if done then Inl (Plain ''context'') else Inr root)"

record Config =
  cf_RootCapability :: "capability option"
  cf_Limits :: Limits
  cf_ModelBytes :: int

record adapter =
  ad_roots :: capability
  ad_limits :: Limits
  ad_modelBytes :: int

definition TagLength :: nat where "TagLength = 8"
definition defaultModelBytes :: int where "defaultModelBytes = 51200"

definition limit_checks :: "Limits \<Rightarrow> (string \<times> int \<times> int) list" where
  "limit_checks l =
     [(''whole_file_bytes'', WholeFileBytes l, WholeFileBytes DefaultLimits), (''read_lines'', ReadLines l, ReadLines DefaultLimits),
      (''read_bytes'', ReadBytes l, ReadBytes DefaultLimits), (''list_entries'', ListEntries l, ListEntries DefaultLimits),
      (''find_matches'', FindMatches l, FindMatches DefaultLimits), (''search_matches'', SearchMatches l, SearchMatches DefaultLimits),
      (''search_bytes'', SearchBytes l, SearchBytes DefaultLimits), (''scan_files'', ScanFiles l, ScanFiles DefaultLimits),
      (''scan_bytes'', ScanBytes l, ScanBytes DefaultLimits)]"

definition validateLimits :: "Limits \<Rightarrow> go_error + unit" where
  "validateLimits l =
     (case find (\<lambda>(name, got, cap). got < 0 \<or> got > cap) (limit_checks l) of
        Some (name, got, cap) \<Rightarrow>
          Inl (NewError CodeInvalidArgument (''filesystem limit '' @ name @ '' must be zero or between 1 and '' @ Itoa cap))
      | None \<Rightarrow> Inr ())"

definition newAdapter :: "Config \<Rightarrow> go_error + adapter" where
  "newAdapter config =
     (case cf_RootCapability config of
        None \<Rightarrow> Inl (NewError CodePermissionDenied ''filesystem root capability is required'')
      | Some roots \<Rightarrow>
          if cf_ModelBytes config < 0 then Inl (NewError CodeInvalidArgument ''model byte budget must not be negative'')
          else let modelBytes = (if cf_ModelBytes config = 0 then defaultModelBytes else cf_ModelBytes config) in
            if modelBytes < 1024 then Inl (NewError CodeInvalidArgument ''model byte budget must be at least 1024 bytes'')
            else rbind (validateLimits (cf_Limits config)) (\<lambda>_.
              Inr \<lparr>ad_roots = roots, ad_limits = cf_Limits config, ad_modelBytes = modelBytes\<rparr>))"

section \<open>Running a call\<close>

record fs_env =
  fe_sha :: "string \<Rightarrow> string"               \<comment> \<open>SHA-256 in hexadecimal\<close>
  fe_re :: compiler                          \<comment> \<open>\<open>regexp.Compile\<close>\<close>
  fe_tree :: tree                            \<comment> \<open>the tree as listings and searches see it\<close>
  fe_ctx :: "nat \<Rightarrow> bool"                    \<comment> \<open>whether the context is done, by the clock\<close>
  fe_deadline :: bool                        \<comment> \<open>by its deadline\<close>
  fe_random :: "string option"               \<comment> \<open>random part of a temporary name\<close>
  fe_open :: "string \<Rightarrow> os_error option"     \<comment> \<open>opening a root fails\<close>
  fe_close :: "os_error option"              \<comment> \<open>closing it fails\<close>
  fe_modtime :: "string \<Rightarrow> string"           \<comment> \<open>formatted modification time of a file\<close>

datatype run_error = ToolError go_error | FileError call_error

fun fs_text :: "fs_error \<Rightarrow> string" where
  "fs_text (FsError c op p m) =
     ''filesystem'' @ (if op \<noteq> [] then '' '' @ op else []) @ (if p \<noteq> [] then '' '' @ p else []) @ '': '' @ m"

fun tool_code :: "FsCode \<Rightarrow> ErrorCode" where
  "tool_code CodeInvalidInput = CodeInvalidArgument"
| "tool_code TextEdit.CodeNotFound = Tools.CodeNotFound"
| "tool_code TextEdit.CodeConflict = Tools.CodeConflict"
| "tool_code CodeLimit = CodeLimitExceeded"
| "tool_code CodePermission = CodePermissionDenied"
| "tool_code TextEdit.CodeInternal = Tools.CodeInternal"

definition mapFilesystemError :: "fs_env \<Rightarrow> string \<Rightarrow> run_error \<Rightarrow> go_error" where
  "mapFilesystemError env message err =
     (case err of
        ToolError e \<Rightarrow> e
      | FileError ContextErr \<Rightarrow> Coded CodeUnavailable message (fe_deadline env) (Some (Plain ''context''))
      | FileError (FsErr e) \<Rightarrow> WrapError (tool_code (code_of e)) message (Plain (fs_text e)))"

definition run ::
  "fs_env \<Rightarrow> adapter \<Rightarrow> string \<Rightarrow> (svc \<Rightarrow> os \<Rightarrow> (run_error + Result) \<times> os) \<Rightarrow> os \<Rightarrow> (go_error + Result) \<times> os" where
  "run env ad requested execute st =
     (case ad_roots ad (fe_ctx env (clock st)) requested of
        Inl e \<Rightarrow> (Inl (WrapError CodePermissionDenied ''filesystem root was not authorized'' e), st)
      | Inr root \<Rightarrow>
          if root = [] then (Inl (NewError CodePermissionDenied ''filesystem root capability resolved an empty root''), st)
          else
            (case Open root [ad_limits ad] of
               Inl e \<Rightarrow> (Inl (mapFilesystemError env ''open filesystem root'' (FileError (FsErr e))), st)
             | Inr service \<Rightarrow>
                 (case fe_open env root of
                    Some e \<Rightarrow>
                      (Inl (mapFilesystemError env ''open filesystem root'' (FileError (FsErr (classifyError ''open'' root e)))), st)
                  | None \<Rightarrow>
                      (case execute service st of
                         (Inl e, st1) \<Rightarrow> (Inl (mapFilesystemError env ''filesystem operation failed'' e), st1)
                       | (Inr result, st1) \<Rightarrow>
                           (case fe_close env of
                              Some e \<Rightarrow>
                                (Inl (mapFilesystemError env ''close filesystem root'' (FileError (FsErr (classifyError ''close'' [] e)))), st1)
                            | None \<Rightarrow> (Inr result, st1))))))"

text \<open>A call of the service, and what is made of its result.\<close>

definition on_result :: "('a \<Rightarrow> Result) \<Rightarrow> (call_error + 'a) \<times> os \<Rightarrow> (run_error + Result) \<times> os" where
  "on_result f r = (case r of (Inl e, st) \<Rightarrow> (Inl (FileError e), st) | (Inr x, st) \<Rightarrow> (Inr (f x), st))"

text \<open>\<open>tool.Result\<close> with \<open>Structured\<close> as the JSON value that is marshalled.\<close>

definition answer :: "string \<Rightarrow> json \<Rightarrow> string \<Rightarrow> string \<Rightarrow> Result" where
  "answer text' structured detail output =
     \<lparr>Content = text', Structured = Some (Inr (Marshal structured)), Detail = detail, Output = output, Truncated = None\<rparr>"

definition tag :: "string \<Rightarrow> string" where
  "tag hash = (if length hash < TagLength then [] else ToUpper (take TagLength hash))"

section \<open>The results of the service as JSON\<close>

definition truncation_json :: "Listing.Truncation \<Rightarrow> json" where
  "truncation_json t = JObj
     ([(''truncated'', JBool (tr_Truncated t))] @ omit_empty ''reason'' (Listing.tr_Reason t)
      @ omit_empty ''continuation'' (Listing.tr_Continuation t) @ omit_zero ''returned_items'' (tr_ReturnedItems t)
      @ omit_zero ''returned_bytes'' (Listing.tr_ReturnedBytes t) @ omit_zero ''scanned_files'' (tr_ScannedFiles t)
      @ omit_zero ''scanned_bytes'' (tr_ScannedBytes t))"

text \<open>A file snapshot: the result of \<open>Service.Read\<close> with its metadata and truncation blocks, which come from the
  cleaned name, the line limit and the \<open>Stat\<close> that a successful read begins with.\<close>

record snapshot =
  sn_Path :: string
  sn_Info :: FileInfo
  sn_ModTime :: string
  sn_Read :: ReadResult
  sn_Truncation :: Listing.Truncation

definition no_truncation :: Listing.Truncation where
  "no_truncation = \<lparr>tr_Truncated = False, tr_Reason = [], tr_Continuation = [], tr_ReturnedItems = 0, tr_ReturnedBytes = 0,
     tr_ScannedFiles = 0, tr_ScannedBytes = 0\<rparr>"

definition read_truncation :: "int \<Rightarrow> ReadResult \<Rightarrow> Listing.Truncation" where
  "read_truncation lineLimit r =
     (let items = int (length (rr_Lines r));
          base = no_truncation\<lparr>tr_ReturnedItems := items, Listing.tr_ReturnedBytes := rr_ReturnedBytes r\<rparr> in
      if \<not> rr_Truncated r then base
      else base\<lparr>tr_Truncated := True,
             Listing.tr_Reason := (if rr_Binary r then ''byte limit''
               else if items < lineLimit then ''byte limit (next line would be split)'' else ''line limit''),
             Listing.tr_Continuation := ''offset='' @ Itoa (rr_NextOffset r)\<rparr>)"

definition Service_Read :: "fs_env \<Rightarrow> svc \<Rightarrow> ReadRequest \<Rightarrow> os \<Rightarrow> (call_error + snapshot) \<times> os" where
  "Service_Read env s rq st =
     (case Read (fe_sha env) s (fe_ctx env) rq st of
        (Inl e, st1) \<Rightarrow> (Inl e, st1)
      | (Inr r, st1) \<Rightarrow>
          (let name = projr (Service.cleanPath (rq_Path rq) False);
               lineLimit = projr (lowerInt ''limit'' (ReadLines (limits s)) (rq_Limit rq))
           in (Inr \<lparr>sn_Path = name, sn_Info = projr (fst (os_stat name st)), sn_ModTime = fe_modtime env name, sn_Read = r,
                 sn_Truncation = read_truncation lineLimit r\<rparr>, st1)))"

definition type_name :: "FileMode \<Rightarrow> string" where
  "type_name m = (if IsSymlink m then ''symlink'' else if IsDir m then ''directory'' else if \<not> IsRegular m then ''other'' else ''file'')"

definition metadata_json :: "snapshot \<Rightarrow> json" where
  "metadata_json sn = JObj
     ([(''path'', JStr (sn_Path sn))] @ omit_empty ''name'' (Base (sn_Path sn)) @ [(''type'', JStr (type_name (fi_mode (sn_Info sn))))]
      @ omit_zero ''size'' (int (fi_size (sn_Info sn))) @ [(''mode'', jint (uint (fi_mode (sn_Info sn))))]
      @ omit_empty ''mod_time'' (sn_ModTime sn))"

definition line_json :: "Line \<Rightarrow> json" where
  "line_json l = JObj [(''number'', jint (int (li_Number l))), (''anchor'', JStr (li_Anchor l)), (''text'', JStr (li_Text l))]"

definition read_json :: "snapshot \<Rightarrow> json" where
  "read_json sn =
     (let r = sn_Read sn in JObj
      ([(''file'', metadata_json sn), (''sha256'', JStr (rr_SHA256 r)), (''hash_chunks'', jstrs (rr_HashChunks r)),
        (''binary'', JBool (rr_Binary r))] @ omit_empty ''content'' (rr_Content r) @ omit_empty ''data'' (EncodeToString (rr_Data r))
       @ [(''lines'', JArr (map line_json (rr_Lines r))), (''total_lines'', jint (int (rr_TotalLines r))),
          (''offset'', jint (rr_Offset r))] @ omit_zero ''next_offset'' (rr_NextOffset r) @ omit_empty ''newline'' (rr_Newline r)
       @ omit_false ''final_newline'' (rr_FinalNewline r) @ [(''truncation'', truncation_json (sn_Truncation sn))]))"

definition entry_json :: "Entry \<Rightarrow> json" where
  "entry_json e = JObj
     ([(''path'', JStr (en_Path e)), (''name'', JStr (en_Name e)), (''type'', JStr (en_Type e)), (''depth'', jint (en_Depth e))]
      @ omit_zero ''size'' (en_Size e) @ [(''mode'', jint (uint (en_Mode e)))])"

definition list_json :: "ListResult \<Rightarrow> json" where
  "list_json r = JObj [(''root'', JStr (lr_Root r)), (''entries'', JArr (map entry_json (lr_Entries r))), (''tree'', JStr (lr_Tree r)),
     (''truncation'', truncation_json (lr_Truncation r))]"

definition find_json :: "FindResult \<Rightarrow> json" where
  "find_json r = JObj [(''paths'', jstrs (fr_Paths r)), (''entries'', JArr (map entry_json (fr_Entries r))),
     (''truncation'', truncation_json (fr_Truncation r))]"

definition context_json :: "ContextLine \<Rightarrow> json" where
  "context_json l = JObj [(''number'', jint (int (cl_Number l))), (''anchor'', JStr (cl_Anchor l)), (''text'', JStr (cl_Text l))]"

definition match_json :: "SearchMatch \<Rightarrow> json" where
  "match_json m = JObj
     ([(''path'', JStr (sm_Path m)), (''sha256'', JStr (sm_SHA256 m)), (''line'', jint (int (sm_Line m))), (''anchor'', JStr (sm_Anchor m)),
       (''text'', JStr (sm_Text m))] @ omit_none ''before'' (map context_json (sm_Before m))
      @ omit_none ''after'' (map context_json (sm_After m)))"

definition search_json :: "SearchResult \<Rightarrow> json" where
  "search_json r = JObj
     ([(''matches'', JArr (map match_json (sr_Matches r)))] @ omit_zero ''skipped_files'' (int (sr_SkippedFiles r))
      @ [(''truncation'', truncation_json (sr_Truncation r))])"

definition write_json :: "WriteResult \<Rightarrow> json" where
  "write_json r = JObj
     ([(''path'', JStr (ws_Path r))] @ omit_empty ''old_sha256'' (ws_OldSHA256 r) @ [(''new_sha256'', JStr (ws_NewSHA256 r)),
       (''changed'', JBool (ws_Changed r)), (''status'', JStr (ws_Status r)), (''bytes'', jint (int (ws_Bytes r))),
       (''mode'', jint (uint (ws_Mode r)))])"

definition edit_json :: "EditResult \<Rightarrow> json" where
  "edit_json r = JObj [(''path'', JStr (es_Path r)), (''old_sha256'', JStr (es_OldSHA256 r)), (''new_sha256'', JStr (es_NewSHA256 r)),
     (''changed'', JBool (es_Changed r)), (''status'', JStr (es_Status r))]"

section \<open>Native handlers\<close>

type_synonym fs_handler = "fs_env \<Rightarrow> adapter \<Rightarrow> string \<Rightarrow> RawMessage \<Rightarrow> os \<Rightarrow> (go_error + Result) \<times> os"

text \<open>Decode, check, run: the common shape of the handlers.\<close>

definition handle ::
  "'a field_table \<Rightarrow> 'a \<Rightarrow> ('a \<Rightarrow> go_error + unit) \<Rightarrow> ('a \<Rightarrow> string) \<Rightarrow> (fs_env \<Rightarrow> adapter \<Rightarrow> 'a \<Rightarrow> svc \<Rightarrow> os \<Rightarrow> (run_error + Result) \<times> os) \<Rightarrow>
   fs_handler" where
  "handle table zero checks requested execute env ad raw parsed st =
     (case rbind (decodeStrict table zero raw parsed) (\<lambda>rq. rbind (checks rq) (\<lambda>_. Inr rq)) of
        Inl e \<Rightarrow> (Inl e, st)
      | Inr rq \<Rightarrow> run env ad (requested rq) (execute env ad rq) st)"

definition rendered_line :: "nat \<Rightarrow> string \<Rightarrow> string \<Rightarrow> string" where
  "rendered_line n anchor t = Itoa (int n) @ ''#'' @ anchor @ ''|'' @ t @ [LF]"

definition file_header :: "string \<Rightarrow> string \<Rightarrow> string" where
  "file_header path hash = ''@file '' @ path @ ''#'' @ tag hash @ [LF]"

definition renderNativeRead :: "snapshot \<Rightarrow> string" where
  "renderNativeRead sn =
     (let r = sn_Read sn; t = sn_Truncation sn in
      TrimSuffix
        (file_header (sn_Path sn) (rr_SHA256 r)
         @ (if rr_Binary r then
              (if rr_Data r = [] then ''[binary file: no bytes returned]'' @ [LF]
               else ''[binary base64]'' @ [LF] @ EncodeToString (rr_Data r) @ [LF])
            else if rr_Lines r = [] then ''[empty result]'' @ [LF]
            else concat (map (\<lambda>l. rendered_line (li_Number l) (li_Anchor l) (li_Text l)) (rr_Lines r)))
         @ (if tr_Truncated t then ''[truncated: '' @ Listing.tr_Reason t
              @ (if rr_NextOffset r > 0 then ''; next offset='' @ Itoa (rr_NextOffset r) else []) @ '']'' @ [LF]
            else []))
        [LF])"

definition nativeRead :: fs_handler where
  "nativeRead = handle read_fields read_zero (\<lambda>rq. need (nr_Path rq) ''path'') (\<lambda>rq. [])
     (\<lambda>env ad rq service st.
        on_result (\<lambda>sn. answer (renderNativeRead sn) (read_json sn) (''read '' @ sn_Path sn) (renderNativeRead sn))
          (Service_Read env service \<lparr>rq_Path = nr_Path rq, rq_Offset = nr_Offset rq, rq_Limit = nr_Limit rq, rq_MaxBytes = 0\<rparr> st))"

definition truncated_line :: "Listing.Truncation \<Rightarrow> string" where
  "truncated_line t = (if tr_Truncated t then LF # ''[truncated: '' @ Listing.tr_Reason t @ '']'' else [])"

text \<open>The walk returns (its fuel suffices), so a listing, a find or a search has a result.\<close>

definition nativeList :: fs_handler where
  "nativeList = handle list_fields list_zero (\<lambda>rq. Inr ()) (\<lambda>rq. [])
     (\<lambda>env ad rq service st.
        on_result (\<lambda>r. let rendered = lr_Tree r @ truncated_line (lr_Truncation r) in
            answer rendered (list_json r) (''listed '' @ lr_Root r) rendered)
          (the (List_files service (fe_tree env) \<lparr>lq_Path = nl_Path rq, lq_MaxDepth = nl_MaxDepth rq, lq_ShowHidden = nl_ShowHidden rq,
             lq_MaxEntries = nl_Limit rq, lq_ScanFiles = 0, lq_ScanBytes = 0\<rparr>), st))"

definition nativeFind :: fs_handler where
  "nativeFind = handle find_fields find_zero (\<lambda>rq. need (nf_Pattern rq) ''pattern'') (\<lambda>rq. [])
     (\<lambda>env ad rq service st.
        on_result (\<lambda>r. let rendered = (if fr_Paths r = [] then ''[no matches]'' else Join [LF] (fr_Paths r))
              @ truncated_line (fr_Truncation r) in
            answer rendered (find_json r) (''found '' @ Itoa (int (length (fr_Paths r))) @ '' paths'') rendered)
          (the (Find_files service (fe_tree env) \<lparr>fq_Path = nf_Path rq, fq_Pattern = nf_Pattern rq, fq_ShowHidden = nf_ShowHidden rq,
             fq_Limit = nf_Limit rq, fq_ScanFiles = 0, fq_ScanBytes = 0\<rparr>), st))"

text \<open>The files of a search result, by path, with the hash of the first match and the lines by number.\<close>

record grepFile =
  gf_hash :: string
  gf_lines :: "(nat \<times> ContextLine) list"

definition match_lines :: "SearchMatch \<Rightarrow> ContextLine list" where
  "match_lines m = sm_Before m @ [\<lparr>cl_Number = sm_Line m, cl_Anchor = sm_Anchor m, cl_Text = sm_Text m\<rparr>] @ sm_After m"

definition add_match :: "(string \<times> grepFile) list \<Rightarrow> SearchMatch \<Rightarrow> (string \<times> grepFile) list" where
  "add_match files m =
     (let file = (case map_of files (sm_Path m) of Some f \<Rightarrow> f | None \<Rightarrow> \<lparr>gf_hash = sm_SHA256 m, gf_lines = []\<rparr>) in
      AList.update (sm_Path m)
        (file\<lparr>gf_lines := foldl (\<lambda>ls l. AList.update (cl_Number l) l ls) (gf_lines file) (match_lines m)\<rparr>) files)"

definition renderer_marker :: string where "renderer_marker = ''[truncated: renderer byte limit]''"

text \<open>The chunks that are written, in order: a blank line between files, a header, the lines by number.\<close>

definition file_chunks :: "string \<times> grepFile \<Rightarrow> string list" where
  "file_chunks pf = file_header (fst pf) (gf_hash (snd pf))
     # map (\<lambda>(n, l). rendered_line (cl_Number l) (cl_Anchor l) (cl_Text l)) (sort_key fst (gf_lines (snd pf)))"

definition grep_chunks :: "(string \<times> grepFile) list \<Rightarrow> string list" where
  "grep_chunks files =
     concat (map (\<lambda>(i, pf). (if i > 0 then [[LF]] else []) @ file_chunks pf) (enumerate 0 (sort_key fst files)))"

text \<open>\<open>appendChunk\<close> until one does not fit: what was written, and whether all of it was.\<close>

fun write_chunks :: "int \<Rightarrow> string list \<Rightarrow> string \<Rightarrow> string \<times> bool" where
  "write_chunks budget [] out = (out, True)"
| "write_chunks budget (c # cs) out =
     (if int (length out + length c) > budget then (out, False) else write_chunks budget cs (out @ c))"

definition renderNativeGrep :: "SearchResult \<Rightarrow> int \<Rightarrow> string \<times> bool" where
  "renderNativeGrep result budget =
     (let files = foldl add_match [] (sr_Matches result);
          payloadBudget = max 0 (budget - int (length renderer_marker) - 1) in
      if files = [] then (''[no matches]'' @ truncated_line (sr_Truncation result), False)
      else (case write_chunks payloadBudget (grep_chunks files) [] of
          (out, False) \<Rightarrow> (TrimSuffix out [LF] @ [LF] @ renderer_marker, True)
        | (out, True) \<Rightarrow>
            (let rendered = TrimSuffix out [LF]; truncation = drop 1 (truncated_line (sr_Truncation result)) in
             (if tr_Truncated (sr_Truncation result) \<and> int (length rendered + 1 + length truncation) \<le> budget
              then rendered @ [LF] @ truncation else rendered, False))))"

definition mark_rendered :: "bool \<Rightarrow> SearchResult \<Rightarrow> SearchResult" where
  "mark_rendered trimmed r =
     (if trimmed \<and> \<not> tr_Truncated (sr_Truncation r)
      then r\<lparr>sr_Truncation := (sr_Truncation r)\<lparr>tr_Truncated := True, Listing.tr_Reason := ''renderer byte limit''\<rparr>\<rparr> else r)"

definition around :: "int \<Rightarrow> int \<Rightarrow> int" where
  "around given context' = (if context' > 0 \<and> given = 0 then context' else given)"

definition nativeGrep :: fs_handler where
  "nativeGrep = handle grep_fields grep_zero
     (\<lambda>rq. rbind (need (ng_Pattern rq) ''pattern'') (\<lambda>_. if ng_Context rq < 0 then Inl (invalid ''context must not be negative'') else Inr ()))
     (\<lambda>rq. [])
     (\<lambda>env ad rq service st.
        on_result (\<lambda>r. case renderNativeGrep r (ad_modelBytes ad) of (rendered, trimmed) \<Rightarrow>
            answer rendered (search_json (mark_rendered trimmed r)) (''matched '' @ Itoa (int (length (sr_Matches r))) @ '' lines'') rendered)
          (the (Search_files (fe_sha env) (fe_re env) service (fe_tree env)
             \<lparr>sq_Path = ng_Path rq, sq_Pattern = ng_Pattern rq, sq_Literal = ng_Literal rq, sq_CaseInsensitive = ng_IgnoreCase rq,
              sq_Glob = ng_Glob rq, sq_Globs = [], sq_ShowHidden = False, sq_Before = around (ng_Before rq) (ng_Context rq),
              sq_After = around (ng_After rq) (ng_Context rq), sq_Limit = ng_Limit rq, sq_MaxBytes = 0, sq_ScanFiles = 0,
              sq_ScanBytes = 0\<rparr>), st))"

definition written_header :: "string \<Rightarrow> string \<Rightarrow> string \<Rightarrow> string" where
  "written_header path hash status = file_header path hash @ status @ ''; sha256='' @ hash"

definition nativeWrite :: fs_handler where
  "nativeWrite = handle write_fields write_zero
     (\<lambda>rq. rbind (need (nw_Path rq) ''path'') (\<lambda>_. if nw_Content rq = None then Inl (invalid ''content is required'') else Inr ()))
     (\<lambda>rq. [])
     (\<lambda>env ad rq service st.
        on_result (\<lambda>r. let rendered = written_header (ws_Path r) (ws_NewSHA256 r) (ws_Status r) @ ''; bytes='' @ Itoa (int (ws_Bytes r)) in
            answer rendered (write_json r) (ws_Status r @ '' '' @ ws_Path r) rendered)
          (Write (fe_sha env) service (fe_ctx env) (fe_random env)
             \<lparr>wr_Path = nw_Path rq, wr_Data = None, wr_Content = the (nw_Content rq), wr_Mode = WriteDefault, wr_CreateOnly = False,
              wr_ExpectedSHA256 = [], wr_Permissions = None\<rparr> st))"

fun missing_from :: "editInput list \<Rightarrow> nat \<Rightarrow> nat option" where
  "missing_from [] i = None"
| "missing_from (e # es) i = (if ei_From e = [] then Some i else missing_from es (i + 1))"

definition nativeEdit :: fs_handler where
  "nativeEdit = handle edit_fields edit_zero
     (\<lambda>rq. rbind (need (ne_Path rq) ''path'') (\<lambda>_. rbind (need (ne_Hash rq) ''hash'') (\<lambda>_.
        if ne_Edits rq = [] then Inl (invalid ''edits must contain at least one edit'')
        else (case missing_from (ne_Edits rq) 0 of
            Some i \<Rightarrow> Inl (invalid (''edits['' @ Itoa (int i) @ ''].from is required'')) | None \<Rightarrow> Inr ()))))
     (\<lambda>rq. [])
     (\<lambda>env ad rq service st.
        on_result (\<lambda>r. let rendered = written_header (es_Path r) (es_NewSHA256 r) (es_Status r) @ [LF]
              @ ''Re-read before editing again; prior TAG and line anchors are stale.'' in
            answer rendered (edit_json r) (es_Status r @ '' '' @ es_Path r) rendered)
          (Edit (fe_sha env) service (fe_ctx env) (fe_random env)
             \<lparr>er_Path = ne_Path rq, er_ExpectedSHA256 = ne_Hash rq, er_Replace = None, er_OldText = [], er_NewText = [],
              er_Edits = map (\<lambda>e. \<lparr>he_From = ei_From e, he_To = ei_To e, he_Content = ei_Content e\<rparr>) (ne_Edits rq)\<rparr> st))"

end
