(* ===== verification/McpTools.thy ===== *)
theory McpTools
  imports FsTools
begin

text \<open>
  The MCP handlers of \<open>fstools\<close> (\<open>mcp_file.go\<close>, \<open>mcp_edit.go\<close>) and the two catalogs (\<open>catalog.go\<close>).
\<close>

section \<open>Reading within the model budget\<close>

record mcpReadData =
  md_Path :: string
  md_SHA256 :: string
  md_HashChunks :: "string list"
  md_Size :: int
  md_Binary :: bool
  md_Content :: "string option"
  md_ContentB64 :: "string option"
  md_Lines :: "Line list"
  md_TotalLines :: int
  md_Offset :: int
  md_NextOffset :: int
  md_Newline :: string
  md_FinalNewline :: bool
  md_Truncation :: Listing.Truncation
  md_raw :: string

text \<open>A nil slice of hash chunks is written as \<open>null\<close>.\<close>

definition read_data_json :: "mcpReadData \<Rightarrow> json" where
  "read_data_json r = JObj
     ([(''path'', JStr (md_Path r)), (''sha256'', JStr (md_SHA256 r)),
       (''hash_chunks'', if md_HashChunks r = [] then JNull else jstrs (md_HashChunks r)), (''size'', jint (md_Size r)),
       (''binary'', JBool (md_Binary r))] @ omit_nil ''content'' (md_Content r) @ omit_nil ''content_b64'' (md_ContentB64 r)
      @ omit_none ''lines'' (map line_json (md_Lines r))
      @ [(''total_lines'', jint (md_TotalLines r)), (''offset'', jint (md_Offset r))] @ omit_zero ''next_offset'' (md_NextOffset r)
      @ omit_empty ''newline'' (md_Newline r) @ omit_false ''final_newline'' (md_FinalNewline r)
      @ [(''truncation'', truncation_json (md_Truncation r))])"

definition makeMCPReadData :: "snapshot \<Rightarrow> mcpReadData" where
  "makeMCPReadData sn =
     (let r = sn_Read sn in
      \<lparr>md_Path = sn_Path sn, md_SHA256 = rr_SHA256 r, md_HashChunks = rr_HashChunks r, md_Size = int (fi_size (sn_Info sn)),
       md_Binary = rr_Binary r, md_Content = (if rr_Binary r then None else Some (rr_Content r)),
       md_ContentB64 = (if rr_Binary r then Some (EncodeToString (rr_Data r)) else None), md_Lines = rr_Lines r,
       md_TotalLines = int (rr_TotalLines r), md_Offset = rr_Offset r, md_NextOffset = rr_NextOffset r,
       md_Newline = rr_Newline r, md_FinalNewline = rr_FinalNewline r, md_Truncation = sn_Truncation sn,
       md_raw = (if rr_Binary r then rr_Data r else [])\<rparr>)"

definition read_size :: "mcpReadData \<Rightarrow> int" where
  "read_size r = jsonSize (read_data_json r)"

definition shorten_raw :: "int \<Rightarrow> mcpReadData \<Rightarrow> mcpReadData" where
  "shorten_raw budget r =
     (let over = read_size r - budget; remove = min (nat (over * 3 div 4 + 1)) (length (md_raw r));
          raw = take (length (md_raw r) - remove) (md_raw r)
      in r\<lparr>md_raw := raw, md_ContentB64 := Some (EncodeToString raw), md_NextOffset := md_Offset r + int (length raw)\<rparr>)"

definition drop_line :: "mcpReadData \<Rightarrow> mcpReadData" where
  "drop_line r =
     (let ls = butlast (md_Lines r) in
      r\<lparr>md_Lines := ls, md_Content := Some (Join [LF] (map li_Text ls)), md_NextOffset := int (li_Number (last (md_Lines r)))\<rparr>)"

text \<open>The loop: the data, and whether anything had to go.\<close>

function fit_loop :: "int \<Rightarrow> mcpReadData \<Rightarrow> bool \<Rightarrow> mcpReadData \<times> bool" where
  "fit_loop budget r truncated =
     (if read_size r \<le> budget then (r, truncated)
      else if md_Binary r \<and> md_raw r \<noteq> [] then fit_loop budget (shorten_raw budget r) True
      else if \<not> md_Binary r \<and> md_Lines r \<noteq> [] then fit_loop budget (drop_line r) True
      else (r, True))"
  by auto
termination
proof (relation "measure (\<lambda>(b, r, t). length (md_raw r) + length (md_Lines r))")
  fix budget :: int and r :: mcpReadData and truncated :: bool
  assume a: "\<not> read_size r \<le> budget" "md_Binary r \<and> md_raw r \<noteq> []"
  then have "0 < min (nat ((read_size r - budget) * 3 div 4 + 1)) (length (md_raw r))" by simp
  then show "((budget, shorten_raw budget r, True), (budget, r, truncated)) \<in> measure (\<lambda>(b, r, t). length (md_raw r) + length (md_Lines r))"
    using a(2) by (simp add: shorten_raw_def Let_def)
next
  fix budget :: int and r :: mcpReadData and truncated :: bool
  assume "\<not> md_Binary r \<and> md_Lines r \<noteq> []"
  then show "((budget, drop_line r, True), (budget, r, truncated)) \<in> measure (\<lambda>(b, r, t). length (md_raw r) + length (md_Lines r))"
    by (simp add: drop_line_def Let_def)
qed simp

declare fit_loop.simps [simp del]

definition truncationHeadroom :: int where "truncationHeadroom = 128"

definition budget_note :: "mcpReadData \<Rightarrow> mcpReadData" where
  "budget_note r =
     (let t = (md_Truncation r)\<lparr>tr_Truncated := True, Listing.tr_Reason := ''model byte budget'',
                 Listing.tr_Continuation := ''offset='' @ Itoa (md_NextOffset r), tr_ReturnedItems := int (length (md_Lines r))\<rparr>
      in r\<lparr>md_Truncation := (if md_Binary r then t\<lparr>Listing.tr_ReturnedBytes := int (length (md_raw r))\<rparr> else t)\<rparr>)"

definition fitMCPRead :: "mcpReadData \<Rightarrow> int \<Rightarrow> mcpReadData \<times> bool" where
  "fitMCPRead r budget =
     (case fit_loop (if budget > truncationHeadroom then budget - truncationHeadroom else budget) r False of
        (r', True) \<Rightarrow> (budget_note r', True) | (r', False) \<Rightarrow> (r', False))"

definition cut_note :: "Listing.Truncation \<Rightarrow> string" where
  "cut_note t = (if tr_Truncated t then ''; truncated: '' @ Listing.tr_Reason t else [])"

definition read_request :: "string \<Rightarrow> mcpFileInput \<Rightarrow> ReadRequest" where
  "read_request path rq = \<lparr>rq_Path = path, rq_Offset = mf_Offset rq, rq_Limit = mf_Limit rq, rq_MaxBytes = 0\<rparr>"

definition mcpRead :: "fs_env \<Rightarrow> adapter \<Rightarrow> mcpFileInput \<Rightarrow> svc \<Rightarrow> os \<Rightarrow> (run_error + Result) \<times> os" where
  "mcpRead env ad rq service st =
     on_result (\<lambda>sn. let structured = fst (fitMCPRead (makeMCPReadData sn) (ad_modelBytes ad)) in
         answer (''read '' @ md_Path structured @ '' ('' @ Itoa (md_Size structured) @ '' bytes, sha256 '' @ md_SHA256 structured @ '')''
             @ cut_note (md_Truncation structured))
           (read_data_json structured) (''read '' @ md_Path structured) [])
       (Service_Read env service (read_request (mf_Path rq) rq) st)"

section \<open>Reading many files\<close>

record mcpReadManyData =
  mm_Files :: "mcpReadData list"
  mm_Requested :: int
  mm_Returned :: int
  mm_Truncated :: bool
  mm_Reason :: string

definition read_many_json :: "mcpReadManyData \<Rightarrow> json" where
  "read_many_json r = JObj
     ([(''files'', JArr (map read_data_json (mm_Files r))), (''requested'', jint (mm_Requested r)), (''returned'', jint (mm_Returned r)),
       (''truncated'', JBool (mm_Truncated r))] @ omit_empty ''reason'' (mm_Reason r))"

definition aggregate_reason :: string where "aggregate_reason = ''aggregate model byte budget''"

definition add_file :: "mcpReadData \<Rightarrow> mcpReadManyData \<Rightarrow> mcpReadManyData" where
  "add_file item r = r\<lparr>mm_Files := mm_Files r @ [item], mm_Returned := int (length (mm_Files r)) + 1\<rparr>"

definition over_budget :: "mcpReadManyData \<Rightarrow> mcpReadManyData" where
  "over_budget r = r\<lparr>mm_Truncated := True, mm_Reason := aggregate_reason\<rparr>"

fun read_many_loop ::
  "fs_env \<Rightarrow> svc \<Rightarrow> mcpFileInput \<Rightarrow> int \<Rightarrow> string list \<Rightarrow> mcpReadManyData \<Rightarrow> os \<Rightarrow> (call_error + mcpReadManyData) \<times> os" where
  "read_many_loop env service rq payloadBudget [] result st = (Inr result, st)"
| "read_many_loop env service rq payloadBudget (path # paths) result st =
     (case Service_Read env service (read_request path rq) st of
        (Inl e, st1) \<Rightarrow> (Inl e, st1)
      | (Inr sn, st1) \<Rightarrow>
          (let remaining = payloadBudget - jsonSize (read_many_json result) in
           if remaining < 512 then (Inr (over_budget result), st1)
           else let item = fst (fitMCPRead (makeMCPReadData sn) remaining) in
             if jsonSize (read_many_json (add_file item result)) > payloadBudget then (Inr (over_budget result), st1)
             else read_many_loop env service rq payloadBudget paths (add_file item result) st1))"

definition read_many_end :: "mcpReadManyData \<Rightarrow> mcpReadManyData" where
  "read_many_end r =
     (if mm_Returned r < mm_Requested r
      then r\<lparr>mm_Truncated := True, mm_Reason := (if mm_Reason r = [] then aggregate_reason else mm_Reason r)\<rparr> else r)"

definition mcpReadMany :: "fs_env \<Rightarrow> adapter \<Rightarrow> mcpFileInput \<Rightarrow> svc \<Rightarrow> os \<Rightarrow> (run_error + Result) \<times> os" where
  "mcpReadMany env ad rq service st =
     on_result (\<lambda>r0. let r = read_many_end r0;
           text' = ''read '' @ Itoa (mm_Returned r) @ ''/'' @ Itoa (mm_Requested r) @ '' files''
             @ (if mm_Truncated r then ''; truncated: '' @ mm_Reason r else []) in
         answer text' (read_many_json r) text' [])
       (read_many_loop env service rq (ad_modelBytes ad - 512) (mf_Paths rq)
          \<lparr>mm_Files = [], mm_Requested = int (length (mf_Paths rq)), mm_Returned = 0, mm_Truncated = False, mm_Reason = []\<rparr> st)"

section \<open>Searching and listing within the model budget\<close>

text \<open>The last item goes until the result fits; \<open>kind\<close> names the continuation.\<close>

definition trim_note :: "string \<Rightarrow> nat \<Rightarrow> Listing.Truncation \<Rightarrow> Listing.Truncation" where
  "trim_note kind n t = t\<lparr>tr_Truncated := True, Listing.tr_Reason := ''model byte budget'',
     Listing.tr_Continuation := kind @ ''_after='' @ Itoa (int n), tr_ReturnedItems := int n\<rparr>"

definition drop_match :: "SearchResult \<Rightarrow> SearchResult" where
  "drop_match r =
     (let ms = butlast (sr_Matches r) in
      r\<lparr>sr_Matches := ms, sr_Truncation := trim_note ''match'' (length ms) (sr_Truncation r)\<rparr>)"

function fit_search :: "int \<Rightarrow> SearchResult \<Rightarrow> SearchResult" where
  "fit_search budget r =
     (if jsonSize (search_json r) > budget \<and> sr_Matches r \<noteq> [] then fit_search budget (drop_match r) else r)"
  by auto
termination by (relation "measure (\<lambda>(b, r). length (sr_Matches r))") (auto simp: drop_match_def Let_def)

declare fit_search.simps [simp del]

definition mcpSearch :: "fs_env \<Rightarrow> adapter \<Rightarrow> mcpFileInput \<Rightarrow> svc \<Rightarrow> os \<Rightarrow> (run_error + Result) \<times> os" where
  "mcpSearch env ad rq service st =
     on_result (\<lambda>r0. let r = fit_search (ad_modelBytes ad) r0;
           text' = ''matched '' @ Itoa (int (length (sr_Matches r))) @ '' lines'' @ cut_note (sr_Truncation r) in
         answer text' (search_json r) text' [])
       (the (Search_files (fe_sha env) (fe_re env) service (fe_tree env)
          \<lparr>sq_Path = mf_Path rq, sq_Pattern = mf_Pattern rq, sq_Literal = mf_Literal rq, sq_CaseInsensitive = mf_IgnoreCase rq,
           sq_Glob = mf_Glob rq, sq_Globs = mf_Globs rq, sq_ShowHidden = mf_ShowHidden rq,
           sq_Before = around (mf_Before rq) (mf_Context rq), sq_After = around (mf_After rq) (mf_Context rq),
           sq_Limit = mf_Limit rq, sq_MaxBytes = 0, sq_ScanFiles = 0, sq_ScanBytes = 0\<rparr>), st)"

record mcpListData =
  ml_Root :: string
  ml_Entries :: "Entry list"
  ml_Truncation :: Listing.Truncation

definition list_data_json :: "mcpListData \<Rightarrow> json" where
  "list_data_json r = JObj [(''root'', JStr (ml_Root r)), (''entries'', JArr (map entry_json (ml_Entries r))),
     (''truncation'', truncation_json (ml_Truncation r))]"

definition drop_entry :: "mcpListData \<Rightarrow> mcpListData" where
  "drop_entry r =
     (let es = butlast (ml_Entries r) in
      r\<lparr>ml_Entries := es, ml_Truncation := trim_note ''entry'' (length es) (ml_Truncation r)\<rparr>)"

function fit_list :: "int \<Rightarrow> mcpListData \<Rightarrow> mcpListData" where
  "fit_list budget r =
     (if jsonSize (list_data_json r) > budget \<and> ml_Entries r \<noteq> [] then fit_list budget (drop_entry r) else r)"
  by auto
termination by (relation "measure (\<lambda>(b, r). length (ml_Entries r))") (auto simp: drop_entry_def Let_def)

declare fit_list.simps [simp del]

definition mcpList :: "fs_env \<Rightarrow> adapter \<Rightarrow> mcpFileInput \<Rightarrow> svc \<Rightarrow> os \<Rightarrow> (run_error + Result) \<times> os" where
  "mcpList env ad rq service st =
     on_result (\<lambda>listed. let r = fit_list (ad_modelBytes ad)
             \<lparr>ml_Root = lr_Root listed, ml_Entries = lr_Entries listed, ml_Truncation = lr_Truncation listed\<rparr>;
           text' = ''listed '' @ ml_Root r @ '': '' @ Itoa (int (length (ml_Entries r))) @ '' entries'' @ cut_note (ml_Truncation r) in
         answer text' (list_data_json r) text' (lr_Tree listed))
       (the (List_files service (fe_tree env) \<lparr>lq_Path = mf_Path rq, lq_MaxDepth = mf_MaxDepth rq, lq_ShowHidden = mf_ShowHidden rq,
          lq_MaxEntries = mf_Limit rq, lq_ScanFiles = 0, lq_ScanBytes = 0\<rparr>), st)"

section \<open>Mutations\<close>

record mcpMutationData =
  mu_Path :: string
  mu_OldSHA256 :: string
  mu_NewSHA256 :: string
  mu_HashChunks :: "string list"
  mu_Changed :: bool
  mu_Status :: string
  mu_Bytes :: int

definition mutation_json :: "mcpMutationData \<Rightarrow> json" where
  "mutation_json m = JObj
     ([(''path'', JStr (mu_Path m))] @ omit_empty ''old_sha256'' (mu_OldSHA256 m)
      @ [(''new_sha256'', JStr (mu_NewSHA256 m)), (''hash_chunks'', jstrs (mu_HashChunks m)), (''changed'', JBool (mu_Changed m)),
         (''status'', JStr (mu_Status m))] @ omit_zero ''bytes'' (mu_Bytes m))"

function splitHash :: "string \<Rightarrow> string list" where
  "splitHash hash = (if hash = [] then [] else take (min 8 (length hash)) hash # splitHash (drop (min 8 (length hash)) hash))"
  by auto
termination by (relation "measure length") (auto simp: neq_Nil_conv)

declare splitHash.simps [simp del]

definition mutationFromWrite :: "WriteResult \<Rightarrow> mcpMutationData" where
  "mutationFromWrite r = \<lparr>mu_Path = ws_Path r, mu_OldSHA256 = ws_OldSHA256 r, mu_NewSHA256 = ws_NewSHA256 r,
     mu_HashChunks = splitHash (ws_NewSHA256 r), mu_Changed = ws_Changed r, mu_Status = ws_Status r, mu_Bytes = int (ws_Bytes r)\<rparr>"

text \<open>The bytes of a write: decoded from base64, or the text; shared by \<open>mcpWrite\<close> and \<open>mcpCreateIfAbsent\<close>.\<close>

definition write_input :: "string option \<Rightarrow> string option \<Rightarrow> go_error + (string option \<times> string)" where
  "write_input text' b64 =
     (case b64 of
        Some encoded \<Rightarrow>
          (case DecodeString encoded of
             None \<Rightarrow> Inl (WrapError CodeInvalidArgument ''content_b64 must be valid standard base64'' (Plain ''base64''))
           | Some d \<Rightarrow> Inr (Some d, []))
      | None \<Rightarrow> Inr (None, the text'))"

definition write_answer :: "WriteResult \<Rightarrow> Result" where
  "write_answer r =
     answer (ws_Status r @ '' '' @ ws_Path r @ '' ('' @ Itoa (int (ws_Bytes r)) @ '' bytes, sha256 '' @ ws_NewSHA256 r @ '')'')
       (mutation_json (mutationFromWrite r)) (ws_Status r @ '' '' @ ws_Path r) []"

definition mcp_write ::
  "fs_env \<Rightarrow> string \<Rightarrow> string option \<Rightarrow> string option \<Rightarrow> string \<Rightarrow> bool \<Rightarrow> svc \<Rightarrow> os \<Rightarrow> (run_error + Result) \<times> os" where
  "mcp_write env path text' b64 expected create service st =
     (case write_input text' b64 of
        Inl e \<Rightarrow> (Inl (ToolError e), st)
      | Inr (data, plain) \<Rightarrow>
          on_result write_answer
            (Write (fe_sha env) service (fe_ctx env) (fe_random env)
               \<lparr>wr_Path = path, wr_Data = data, wr_Content = plain, wr_Mode = (if create then WriteCreateOnly else WriteDefault),
                wr_CreateOnly = False, wr_ExpectedSHA256 = expected, wr_Permissions = None\<rparr> st))"

definition mcpWrite :: "fs_env \<Rightarrow> mcpFileInput \<Rightarrow> svc \<Rightarrow> os \<Rightarrow> (run_error + Result) \<times> os" where
  "mcpWrite env rq = mcp_write env (mf_Path rq) (mf_Content rq) (mf_ContentB64 rq) (mf_ExpectedHash rq) (mf_Action rq = ''create'')"

definition mcpCreateIfAbsent :: "fs_env \<Rightarrow> mcpEditInput \<Rightarrow> svc \<Rightarrow> os \<Rightarrow> (run_error + Result) \<times> os" where
  "mcpCreateIfAbsent env rq = mcp_write env (me_Path rq) (me_Content rq) (me_ContentB64 rq) [] True"

text \<open>\<open>appendUniqueRequest\<close>: from the snapshot to the replacement.\<close>

definition append_replacement :: "string \<Rightarrow> bool \<Rightarrow> string \<Rightarrow> go_error + (string \<times> string)" where
  "append_replacement snap finalNewline body =
     (let addition = ReplaceAll body CRLF [LF]; identity = TrimSuffix addition [LF] in
      if identity = [] then Inl (invalid ''append_unique content must contain non-newline text'')
      else if Contains snap identity then Inr (identity, identity)
      else let appended = (if finalNewline then snap @ [LF] else snap) @ addition in
        Inr (snap, if finalNewline then TrimSuffix appended [LF] else appended))"

definition appendUniqueRequest :: "fs_env \<Rightarrow> mcpEditInput \<Rightarrow> svc \<Rightarrow> os \<Rightarrow> (run_error + EditRequest) \<times> os" where
  "appendUniqueRequest env rq service st =
     (case Service_Read env service \<lparr>rq_Path = me_Path rq, rq_Offset = 0, rq_Limit = 0, rq_MaxBytes = 0\<rparr> st of
        (Inl e, st1) \<Rightarrow> (Inl (FileError e), st1)
      | (Inr sn, st1) \<Rightarrow>
          (let r = sn_Read sn in
           if rr_Binary r then (Inl (ToolError (invalid ''append_unique cannot edit a binary file'')), st1)
           else if tr_Truncated (sn_Truncation sn) \<or> length (rr_Lines r) \<noteq> rr_TotalLines r then
             (Inl (ToolError (NewError CodeLimitExceeded ''append_unique requires a complete snapshot within configured read limits'')), st1)
           else (case append_replacement (Join [LF] (map li_Text (rr_Lines r))) (rr_FinalNewline r) (the (me_Content rq)) of
               Inl e \<Rightarrow> (Inl (ToolError e), st1)
             | Inr replacement \<Rightarrow>
                 (Inr \<lparr>er_Path = me_Path rq, er_ExpectedSHA256 = me_ExpectedHash rq, er_Replace = Some replacement,
                    er_OldText = [], er_NewText = [], er_Edits = []\<rparr>, st1))))"

definition edit_request :: "fs_env \<Rightarrow> mcpEditInput \<Rightarrow> svc \<Rightarrow> os \<Rightarrow> (run_error + EditRequest) \<times> os" where
  "edit_request env rq service st =
     (let replace = (\<lambda>old new. \<lparr>er_Path = me_Path rq, er_ExpectedSHA256 = me_ExpectedHash rq, er_Replace = Some (old, new),
            er_OldText = [], er_NewText = [], er_Edits = []\<rparr>) in
      if me_Action rq = ''replace'' then (Inr (replace (the (me_OldText rq)) (the (me_NewText rq))), st)
      else if me_Action rq = ''delete_exact'' then (Inr (replace (the (me_Content rq)) []), st)
      else appendUniqueRequest env rq service st)"

definition edit_answer :: "EditResult \<Rightarrow> Result" where
  "edit_answer r =
     answer (es_Status r @ '' '' @ es_Path r @ '' (sha256 '' @ es_NewSHA256 r @ '')'')
       (mutation_json \<lparr>mu_Path = es_Path r, mu_OldSHA256 = es_OldSHA256 r, mu_NewSHA256 = es_NewSHA256 r,
          mu_HashChunks = splitHash (es_NewSHA256 r), mu_Changed = es_Changed r, mu_Status = es_Status r, mu_Bytes = 0\<rparr>)
       (es_Status r @ '' '' @ es_Path r) []"

section \<open>The handlers\<close>

definition file_execute :: "fs_env \<Rightarrow> adapter \<Rightarrow> mcpFileInput \<Rightarrow> svc \<Rightarrow> os \<Rightarrow> (run_error + Result) \<times> os" where
  "file_execute env ad rq service st =
     (if mf_Action rq = ''read'' then mcpRead env ad rq service st
      else if mf_Action rq = ''read_many'' then mcpReadMany env ad rq service st
      else if mf_Action rq = ''search'' then mcpSearch env ad rq service st
      else if mf_Action rq = ''list'' then mcpList env ad rq service st
      else if mf_Action rq = ''write'' \<or> mf_Action rq = ''create'' then mcpWrite env rq service st
      else (Inl (ToolError (invalid (''unknown action '' @ mf_Action rq))), st))"

definition mcpFile :: fs_handler where
  "mcpFile = handle file_fields file_zero
     (\<lambda>rq. rbind (need (mf_RepoPath rq) ''repo_path'') (\<lambda>_. validateMCPFileInput rq)) mf_RepoPath file_execute"

definition edit_execute :: "fs_env \<Rightarrow> adapter \<Rightarrow> mcpEditInput \<Rightarrow> svc \<Rightarrow> os \<Rightarrow> (run_error + Result) \<times> os" where
  "edit_execute env ad rq service st =
     (if me_Action rq = ''create_if_absent'' then mcpCreateIfAbsent env rq service st
      else
        (case edit_request env rq service st of
           (Inl e, st1) \<Rightarrow> (Inl e, st1)
         | (Inr edit, st1) \<Rightarrow> on_result edit_answer (Edit (fe_sha env) service (fe_ctx env) (fe_random env) edit st1)))"

definition mcpEdit :: fs_handler where
  "mcpEdit = handle mcp_edit_fields mcp_edit_zero validateMCPEditInput me_RepoPath edit_execute"

section \<open>Catalogs\<close>

text \<open>The tools of a catalog with their handlers, for a call with the input bytes \<open>raw\<close> in the state \<open>st\<close>.\<close>

definition with_handlers :: "fs_env \<Rightarrow> adapter \<Rightarrow> string \<Rightarrow> os \<Rightarrow> Spec list \<Rightarrow> fs_handler list \<Rightarrow> Tool list" where
  "with_handlers env ad raw st specs hs =
     map2 (\<lambda>s h. \<lparr>to_Spec = s, to_Handler = Some (\<lambda>parsed. fst (h env ad raw parsed st)), to_DetailFromArgs = None\<rparr>) specs hs"

definition native_handlers :: "fs_handler list" where
  "native_handlers = [nativeRead, nativeList, nativeFind, nativeGrep, nativeWrite, nativeEdit]"

text \<open>The first error is of the configuration, the second of the declarations.\<close>

definition NativeCatalog :: "fs_env \<Rightarrow> string \<Rightarrow> os \<Rightarrow> Config \<Rightarrow> (go_error + tool_error) + Catalog" where
  "NativeCatalog env raw st config =
     (case newAdapter config of
        Inl e \<Rightarrow> Inl (Inl e)
      | Inr ad \<Rightarrow> map_sum Inr id (NewCatalog (with_handlers env ad raw st native_specs native_handlers)))"

definition MCPCatalog :: "fs_env \<Rightarrow> string \<Rightarrow> os \<Rightarrow> Config \<Rightarrow> (go_error + tool_error) + Catalog" where
  "MCPCatalog env raw st config =
     (case newAdapter config of
        Inl e \<Rightarrow> Inl (Inl e)
      | Inr ad \<Rightarrow> map_sum Inr id (NewCatalog (with_handlers env ad raw st mcp_specs [mcpFile, mcpEdit])))"

end
