(* ===== verification/FsToolFacts.thy ===== *)
theory FsToolFacts
  imports McpTools
begin

text \<open>
  Properties of \<open>fstools\<close>: its declarations, what a read-only declaration means for the disk, the model byte
  budget, and binary content and unique appends across the tool boundary.
\<close>

section \<open>Declarations\<close>

text \<open>The names under \<open>properties\<close> of a schema, in the order they are written.\<close>

definition schema_fields :: "Schema \<Rightarrow> string list" where
  "schema_fields s = (case Decode_shape s of None \<Rightarrow> [] | Some sh \<Rightarrow> map fst (ss_Properties sh))"

definition declared_operations :: "Spec \<Rightarrow> Operation list" where
  "declared_operations s = (if sp_OperationField s = [] then [directOperation s] else map snd (sp_Operations s))"

lemma catalog_of:
  assumes "list_all (\<lambda>s. Spec_Validate s = None) specs" "distinct (map sp_Name specs)" "length hs = length specs"
  shows "\<exists>c. NewCatalog (with_handlers env ad raw st specs hs) = Inr c \<and> tools c = with_handlers env ad raw st specs hs"
proof -
  let ?ts = "with_handlers env ad raw st specs hs"
  have n: "map to_Spec ?ts = specs"
    using assms(3) by (simp add: with_handlers_def o_def split_def)
  have "map tool_name ?ts = map sp_Name (map to_Spec ?ts)" by simp
  also have "\<dots> = map sp_Name specs" by (simp only: n)
  finally have "distinct (map tool_name ?ts)" using assms(2) by simp
  moreover have "list_all (\<lambda>t. Tool_Validate t = None) ?ts"
    using assms(1,3) by (auto simp: with_handlers_def Tool_Validate_def list_all_iff dest: set_zip_leftD)
  ultimately show ?thesis using NewCatalog_cases [of ?ts] by (auto split: sum.splits)
qed

lemma native_fields: "map (schema_fields \<circ> sp_InputSchema) native_specs =
    [sort (map fst read_fields), sort (map fst list_fields), sort (map fst find_fields), sort (map fst grep_fields),
     sort (map fst write_fields), sort (map fst edit_fields)]"
  by code_simp

lemma mcp_fields: "map (schema_fields \<circ> sp_InputSchema) mcp_specs = [sort (map fst file_fields), sort (map fst mcp_edit_fields)]"
  by code_simp

lemma operations_declared: "list_all (\<lambda>s. list_all (\<lambda>op. ReadOnly (op_Hints op) = (\<not> Mutates (op_Effects op))) (declared_operations s))
    (native_specs @ mcp_specs)"
  by code_simp

text \<open>
  Claim C40: the declarations of the file-system tools are well typed.  For every accepted configuration both
  catalogs are built, with the documented tools in order; every specification passes the validation; the properties
  of each input schema are exactly the fields the strict decoder of its handler accepts, so a schema-valid
  input never has an unknown field; and an operation is declared read-only exactly when none of its effects
  mutates.
\<close>

theorem catalogs_well_typed:
  assumes "newAdapter config = Inr ad"
  shows "\<exists>n m. NativeCatalog env raw st config = Inr n \<and> MCPCatalog env raw st config = Inr m \<and>
    Names (Some n) = [''read'', ''ls'', ''find'', ''grep'', ''write'', ''edit''] \<and> Names (Some m) = [''file'', ''edit''] \<and>
    list_all (\<lambda>t. Tool_Validate t = None) (tools n @ tools m) \<and>
    map (schema_fields \<circ> sp_InputSchema \<circ> to_Spec) (tools n @ tools m) =
      [sort (map fst read_fields), sort (map fst list_fields), sort (map fst find_fields), sort (map fst grep_fields),
       sort (map fst write_fields), sort (map fst edit_fields), sort (map fst file_fields), sort (map fst mcp_edit_fields)] \<and>
    list_all (\<lambda>t. list_all (\<lambda>op. ReadOnly (op_Hints op) = (\<not> Mutates (op_Effects op))) (declared_operations (to_Spec t)))
      (tools n @ tools m)"
proof -
  have d: "distinct (map sp_Name native_specs)" "distinct (map sp_Name mcp_specs)" by (simp_all add: spec_names)
  have l: "length native_handlers = length native_specs" "length [mcpFile, mcpEdit] = length mcp_specs"
    by (simp_all add: native_handlers_def native_specs_def mcp_specs_def)
  obtain n m where c: "NewCatalog (with_handlers env ad raw st native_specs native_handlers) = Inr n"
    "tools n = with_handlers env ad raw st native_specs native_handlers"
    "NewCatalog (with_handlers env ad raw st mcp_specs [mcpFile, mcpEdit]) = Inr m"
    "tools m = with_handlers env ad raw st mcp_specs [mcpFile, mcpEdit]"
    using catalog_of [OF native_valid d(1) l(1)] catalog_of [OF mcp_valid d(2) l(2)] by blast
  have s: "map to_Spec (tools n) = native_specs" "map to_Spec (tools m) = mcp_specs"
    unfolding c(2,4) using l by (simp_all add: with_handlers_def o_def split_def)
  have names: "Names (Some n) = map sp_Name native_specs" "Names (Some m) = map sp_Name mcp_specs"
    unfolding s [symmetric] by (simp_all add: Names_def Tools_of_def)
  have both: "map to_Spec (tools n @ tools m) = native_specs @ mcp_specs" using s by simp
  have v: "list_all (\<lambda>t. Tool_Validate t = None) (tools n @ tools m)"
    using NewCatalog_cases [of "with_handlers env ad raw st native_specs native_handlers"]
      NewCatalog_cases [of "with_handlers env ad raw st mcp_specs [mcpFile, mcpEdit]"] c
    by (simp add: catalog_ok_def)
  have f: "map (schema_fields \<circ> sp_InputSchema \<circ> to_Spec) (tools n @ tools m) =
      map (schema_fields \<circ> sp_InputSchema) (native_specs @ mcp_specs)"
    unfolding both [symmetric] by simp
  have o: "list_all (\<lambda>t. list_all (\<lambda>op. ReadOnly (op_Hints op) = (\<not> Mutates (op_Effects op))) (declared_operations (to_Spec t)))
      (tools n @ tools m)"
    using operations_declared unfolding both [symmetric] by (simp only: list.pred_map o_def)
  have r: "NativeCatalog env raw st config = Inr n" "MCPCatalog env raw st config = Inr m"
    using assms c by (simp_all add: NativeCatalog_def MCPCatalog_def)
  have g: "map (schema_fields \<circ> sp_InputSchema \<circ> to_Spec) (tools n @ tools m) =
      [sort (map fst read_fields), sort (map fst list_fields), sort (map fst find_fields), sort (map fst grep_fields),
       sort (map fst write_fields), sort (map fst edit_fields), sort (map fst file_fields), sort (map fst mcp_edit_fields)]"
    unfolding f by (simp only: map_append native_fields mcp_fields append.simps)
  show ?thesis
    by (intro exI [of _ n] exI [of _ m] conjI r v g o) (simp_all only: names spec_names)
qed

definition example_config :: Config where
  "example_config = \<lparr>cf_RootCapability = Some (FixedRoot ''/r''), cf_Limits = \<lparr>WholeFileBytes = 0, ReadLines = 0, ReadBytes = 0,
     ListEntries = 2, FindMatches = 0, SearchMatches = 0, SearchBytes = 0, ScanFiles = 0, ScanBytes = 0\<rparr>, cf_ModelBytes = 0\<rparr>"

definition example_adapter :: adapter where
  "example_adapter = \<lparr>ad_roots = FixedRoot ''/r'', ad_limits = cf_Limits example_config, ad_modelBytes = 51200\<rparr>"

lemma example_adapter_new: "newAdapter example_config = Inr example_adapter"
proof -
  have "validateLimits (cf_Limits example_config) = Inr ()" by code_simp
  then show ?thesis by (simp add: newAdapter_def example_config_def example_adapter_def defaultModelBytes_def)
qed

theorem catalogs_well_typed_witness:
  "\<forall>env raw st. \<exists>n m. NativeCatalog env raw st example_config = Inr n \<and> MCPCatalog env raw st example_config = Inr m \<and>
    Names (Some n) = [''read'', ''ls'', ''find'', ''grep'', ''write'', ''edit''] \<and> Names (Some m) = [''file'', ''edit'']"
  using catalogs_well_typed [OF example_adapter_new] by blast

section \<open>Read-only calls\<close>

lemma Read_quiet:
  assumes "Read sha s ctx rq st = (r, st')"
  shows "quiet st st'"
proof (cases "begin_op s ctx (clock st) ''read'' = None \<and> (\<exists>n. Service.cleanPath (rq_Path rq) False = Inr n)")
  case False
  then show ?thesis using assms by (auto simp: Read_def split: option.splits sum.splits)
next
  case True
  then obtain name where n: "begin_op s ctx (clock st) ''read'' = None" "Service.cleanPath (rq_Path rq) False = Inr name" by blast
  obtain r1 s1 where a: "os_stat name st = (r1, s1)" by (metis surj_pair)
  obtain r2 s2 where b: "load s ctx name ''file grew beyond whole-file cap while reading'' s1 = (r2, s2)" by (metis surj_pair)
  have q: "quiet st s1" "quiet st s2"
    using quiet_commit [OF os_stat_same [OF a]] load_quiet [OF b] quiet_trans by blast+
  have "st' = st \<or> st' = s1 \<or> st' = s2"
    using assms by (auto simp: Read_def n a b Let_def split: if_splits sum.splits node.splits)
  then show ?thesis using q by auto
qed

lemma Service_Read_quiet: "Service_Read env s rq st = (r, st') \<Longrightarrow> quiet st st'"
  by (auto simp: Service_Read_def Let_def split: prod.splits sum.splits dest!: Read_quiet)

lemma on_result_quiet: "on_result f x = (r, st') \<Longrightarrow> quiet st (snd x) \<Longrightarrow> quiet st st'"
  by (cases x) (auto simp: on_result_def split: sum.splits)

lemma read_call_quiet: "on_result f (Service_Read env s rq st) = (r, st') \<Longrightarrow> quiet st st'"
  by (erule on_result_quiet) (rule Service_Read_quiet [OF prod.collapse [symmetric]])

lemma run_quiet:
  assumes "run env ad req execute st = (r, st')" "\<And>s st r st'. execute s st = (r, st') \<Longrightarrow> quiet st st'"
  shows "quiet st st'"
  using assms(1) by (auto simp: run_def split: sum.splits if_splits option.splits prod.splits dest: assms(2))

lemma handle_quiet:
  assumes "handle table zero checks req execute env ad raw parsed st = (r, st')"
    "\<And>rq s st r st'. rbind (decodeStrict table zero raw parsed) (\<lambda>rq. rbind (checks rq) (\<lambda>_. Inr rq)) = Inr rq \<Longrightarrow>
       execute env ad rq s st = (r, st') \<Longrightarrow> quiet st st'"
  shows "quiet st st'"
proof (cases "rbind (decodeStrict table zero raw parsed) (\<lambda>rq. rbind (checks rq) (\<lambda>_. Inr rq))")
  case (Inl e)
  then show ?thesis using assms(1) by (simp add: handle_def)
next
  case (Inr rq)
  then have "run env ad (req rq) (execute env ad rq) st = (r, st')" using assms(1) by (simp add: handle_def)
  then show ?thesis by (rule run_quiet) (rule assms(2) [OF Inr])
qed

lemma read_many_quiet: "read_many_loop env s rq b paths res st = (r, st') \<Longrightarrow> quiet st st'"
proof (induction paths arbitrary: res st)
  case (Cons p ps)
  obtain r1 s1 where a: "Service_Read env s (read_request p rq) st = (r1, s1)" by (metis surj_pair)
  note q = Service_Read_quiet [OF a]
  from Cons.prems have "st' = s1 \<or> (\<exists>res'. read_many_loop env s rq b ps res' s1 = (r, st'))"
    by (auto simp: a Let_def split: sum.splits if_splits)
  then show ?case using q Cons.IH quiet_trans by blast
qed simp

lemma file_reads_quiet:
  assumes "file_execute env ad rq s st = (r, st')" "mf_Action rq \<in> {''read'', ''read_many'', ''search'', ''list''}"
  shows "quiet st st'"
proof -
  consider "mcpRead env ad rq s st = (r, st')" | "mcpReadMany env ad rq s st = (r, st')"
    | "mcpSearch env ad rq s st = (r, st')" | "mcpList env ad rq s st = (r, st')"
    using assms by (auto simp: file_execute_def)
  then show ?thesis
  proof cases
    case 1
    then show ?thesis unfolding mcpRead_def by (rule read_call_quiet)
  next
    case 2
    then show ?thesis unfolding mcpReadMany_def
      by (rule on_result_quiet) (rule read_many_quiet [OF prod.collapse [symmetric]])
  next
    case 3
    then show ?thesis unfolding mcpSearch_def by (rule on_result_quiet) simp
  next
    case 4
    then show ?thesis unfolding mcpList_def by (rule on_result_quiet) simp
  qed
qed

text \<open>The action the handler sees is the one that was resolved, if no other spelling of the key occurs.\<close>

lemma lookup_field_cases:
  assumes "lookup_field table key = Some f"
  obtains name where "(name, f) \<in> set table" "name = key \<or> field_matches name key"
proof (cases "map_of table key")
  case None
  then obtain kv where "find (\<lambda>kv. field_matches (fst kv) key) table = Some kv" "f = snd kv"
    using assms by (auto simp: lookup_field_def)
  then have "kv \<in> set table" "field_matches (fst kv) key" by (auto simp: find_Some_iff)
  then show thesis using that [of "fst kv"] \<open>f = snd kv\<close> by simp
next
  case (Some g)
  then show thesis using assms that [of key] by (auto simp: lookup_field_def dest: map_of_SomeD)
qed

lemmas setter_defs = set_string_def set_int_def set_bool_def set_pointer_def set_strings_def

lemma file_setters:
  assumes "(name, f) \<in> set file_fields" "f v rq = Some rq'"
  shows "name \<noteq> ''action'' \<Longrightarrow> mf_Action rq' = mf_Action rq" "name = ''action'' \<Longrightarrow> v = JStr s \<Longrightarrow> mf_Action rq' = s"
  using assms by (auto simp: file_fields_def setter_defs split: json.splits)

lemma action_key: "list_all (\<lambda>n. field_matches n ''action'' \<longrightarrow> n = ''action'') (map fst file_fields)"
  by code_simp

lemma decoded_action:
  assumes "decode_members file_fields ms rq = Some rq'" "\<forall>k \<in> set (map fst ms). field_matches ''action'' k \<longrightarrow> k = ''action''"
  shows "member ''action'' ms = Some (JStr s) \<Longrightarrow> mf_Action rq' = s"
    "member ''action'' ms = None \<Longrightarrow> mf_Action rq' = mf_Action rq"
proof -
  have "(member ''action'' ms = Some (JStr s) \<longrightarrow> mf_Action rq' = s) \<and> (member ''action'' ms = None \<longrightarrow> mf_Action rq' = mf_Action rq)"
    using assms
  proof (induction ms arbitrary: rq)
    case Nil
    then show ?case by (simp add: member_def)
  next
    case (Cons kv ms)
    obtain k v where kv: "kv = (k, v)" by fastforce
    from Cons.prems(1) obtain f rq1 where f: "lookup_field file_fields k = Some f" "f v rq = Some rq1"
      "decode_members file_fields ms rq1 = Some rq'"
      by (auto simp: kv split: option.splits)
    from f(1) obtain name where n: "(name, f) \<in> set file_fields" "name = k \<or> field_matches name k"
      by (rule lookup_field_cases)
    have name: "name = ''action'' \<longleftrightarrow> k = ''action''"
    proof
      assume "name = ''action''"
      then show "k = ''action''" using n(2) Cons.prems(2) kv by auto
    next
      assume k: "k = ''action''"
      have "name \<in> set (map fst file_fields)" using n(1) by force
      then show "name = ''action''" using n(2) k action_key by (auto simp: list_all_iff simp del: set_map)
    qed
    have m: "member ''action'' (kv # ms) =
        (case member ''action'' ms of Some x \<Rightarrow> Some x | None \<Rightarrow> if k = ''action'' then Some v else None)"
      by (auto simp: member_def kv map_add_def split: option.splits)
    have IH: "(member ''action'' ms = Some (JStr s) \<longrightarrow> mf_Action rq' = s) \<and> (member ''action'' ms = None \<longrightarrow> mf_Action rq' = mf_Action rq1)"
      using Cons.IH [OF f(3)] Cons.prems(2) by simp
    show ?case
      using IH m name file_setters [OF n(1) f(2)] by (auto split: option.splits if_splits)
  qed
  then show "member ''action'' ms = Some (JStr s) \<Longrightarrow> mf_Action rq' = s"
    "member ''action'' ms = None \<Longrightarrow> mf_Action rq' = mf_Action rq" by blast+
qed

lemma file_reads:
  "map_of file_operations name = Some op \<Longrightarrow> ReadOnly (op_Hints op) \<Longrightarrow> name \<in> {''read'', ''read_many'', ''search'', ''list''}"
  by (auto simp: file_operations_def writeOperation_def split: if_splits)

lemma resolved_action:
  assumes "ResolveOperation (dispatch_spec n d schema ops) parsed = Inr op"
  obtains ms name d' where "parsed = Some (JObj ms)" "member ''action'' ms = Some (JStr name)" "map_of ops name = Some d'"
    "op_Hints op = op_Hints d'"
proof -
  obtain ms where ms: "decode_object parsed = Some ms"
    using assms by (cases "decode_object parsed") (auto simp: ResolveOperation_def dispatch_spec_def)
  obtain v where v: "member ''action'' ms = Some v"
    using assms ms by (cases "member ''action'' ms") (auto simp: ResolveOperation_def dispatch_spec_def)
  obtain name where n: "decode_string [] (Some v) = Some name" "TrimSpace name \<noteq> []"
    using assms ms v by (cases "decode_string [] (Some v)") (auto simp: ResolveOperation_def dispatch_spec_def split: if_splits)
  obtain d' where d: "map_of ops name = Some d'" "op_Hints op = op_Hints d'"
    using assms ms v n by (cases "map_of ops name") (auto simp: ResolveOperation_def dispatch_spec_def)
  have "v = JStr name" using n by (cases v) (auto simp: TrimSpace_def TrimP_def TrimLeftP_def TrimRightP_def)
  moreover have "parsed = Some (JObj ms)"
    using ms v by (cases parsed rule: decode_object.cases) (auto simp: member_def)
  ultimately show thesis using that v d by blast
qed

lemma file_read_call:
  assumes "ResolveOperation (dispatch_spec n d schema file_operations) parsed = Inr op" "ReadOnly (op_Hints op)"
    "mcpFile env ad raw parsed st = (r, st')"
    "\<forall>ms. parsed = Some (JObj ms) \<longrightarrow> (\<forall>k \<in> set (map fst ms). field_matches ''action'' k \<longrightarrow> k = ''action'')"
  shows "quiet st st'"
proof -
  obtain ms name d' where p: "parsed = Some (JObj ms)" "member ''action'' ms = Some (JStr name)"
    "map_of file_operations name = Some d'" "op_Hints op = op_Hints d'"
    using resolved_action [OF assms(1)] by blast
  have name: "name \<in> {''read'', ''read_many'', ''search'', ''list''}" using file_reads p(3,4) assms(2) by auto
  show ?thesis using assms(3) unfolding mcpFile_def
  proof (rule handle_quiet)
    fix rq s st and r :: "run_error + Result" and st'
    assume a: "rbind (decodeStrict file_fields file_zero raw parsed)
        (\<lambda>rq. rbind (rbind (need (mf_RepoPath rq) ''repo_path'') (\<lambda>_. validateMCPFileInput rq)) (\<lambda>_. Inr rq)) = Inr rq"
      and e: "file_execute env ad rq s st = (r, st')"
    have "TrimSpace raw \<noteq> []"
      using a by (auto simp: decodeStrict_def decode_struct_def result_simps need_def file_zero_def)
    then have "decode_members file_fields ms file_zero = Some rq"
      using a p(1) by (auto simp: decodeStrict_def decode_struct_def result_simps split: option.splits)
    from decoded_action(1) [OF this _ p(2)] assms(4) p(1) have "mf_Action rq = name" by blast
    then show "quiet st st'" using file_reads_quiet [OF e] name by simp
  qed
qed

text \<open>
  Claim C36: a call that is declared read-only leaves the disk alone.  If the operation a tool of either catalog
  resolves its input to has the read-only hint, then running the handler on that input, under any faults,
  configuration and root, changes nothing at any moment, provided the input spells the key \<open>action\<close> in
  no other way.
\<close>

theorem readonly_calls_quiet:
  assumes "(spec, h) \<in> set (zip native_specs native_handlers @ zip mcp_specs [mcpFile, mcpEdit])"
    "ResolveOperation spec parsed = Inr op" "ReadOnly (op_Hints op)" "h env ad raw parsed st = (r, st')"
    "\<forall>ms. parsed = Some (JObj ms) \<longrightarrow> (\<forall>k \<in> set (map fst ms). field_matches ''action'' k \<longrightarrow> k = ''action'')"
  shows "quiet st st'"
proof -
  have direct: "\<not> ReadOnly (op_Hints op)" if "ResolveOperation (direct_spec n d s (writeOperation name b)) parsed = Inr op" for n d s name b
    using that by (auto simp: ResolveOperation_def direct_spec_def directOperation_def writeOperation_def split: if_splits)
  have edits: "\<not> ReadOnly (op_Hints d)" if "map_of edit_operations name = Some d" for name d
    using that by (auto simp: edit_operations_def writeOperation_def split: if_splits)
  consider "h = nativeRead" | "h = nativeList" | "h = nativeFind" | "h = nativeGrep"
    | n d s name b where "spec = direct_spec n d s (writeOperation name b)"
    | n d s where "spec = dispatch_spec n d s file_operations" "h = mcpFile"
    | n d s where "spec = dispatch_spec n d s edit_operations"
    using assms(1) unfolding native_specs_def native_handlers_def mcp_specs_def by auto
  then show ?thesis
  proof cases
    case 1
    show ?thesis using assms(4) unfolding 1 nativeRead_def
      by (rule handle_quiet) (rule read_call_quiet)
  next
    case 2
    show ?thesis using assms(4) unfolding 2 nativeList_def
      by (rule handle_quiet) (auto elim: on_result_quiet)
  next
    case 3
    show ?thesis using assms(4) unfolding 3 nativeFind_def
      by (rule handle_quiet) (auto elim: on_result_quiet)
  next
    case 4
    show ?thesis using assms(4) unfolding 4 nativeGrep_def
      by (rule handle_quiet) (auto elim: on_result_quiet)
  next
    case 5
    then show ?thesis using direct assms(2,3) by blast
  next
    case 6
    then show ?thesis using file_read_call assms(2-5) by blast
  next
    case 7
    then show ?thesis using resolved_action edits assms(2,3) by metis
  qed
qed

definition empty_tree :: tree where
  "empty_tree = \<lparr>t_ctx = False, t_lstat = (\<lambda>p. Inl (''lstat'', ErrNotExist)), t_open = (\<lambda>p. None), t_readDir = (\<lambda>p. Inr []),
     t_done = (\<lambda>b p. False), t_gitignore = None, t_read = (\<lambda>p. Inl (''read'', ErrNotExist)), t_fileDone = (\<lambda>p. False),
     t_lineDone = (\<lambda>p n. False)\<rparr>"

definition example_env :: fs_env where
  "example_env = \<lparr>fe_sha = example_sha, fe_re = (\<lambda>p. Inl []), fe_tree = empty_tree, fe_ctx = never, fe_deadline = False,
     fe_random = Some ''00'', fe_open = (\<lambda>p. None), fe_close = None, fe_modtime = (\<lambda>p. [])\<rparr>"

definition file_call :: "(string \<times> json) list \<Rightarrow> RawMessage" where
  "file_call ms = Some (JObj ((''repo_path'', JStr ''/r'') # ms))"

definition file_spec :: Spec where "file_spec = hd mcp_specs"

lemma file_spec_tool: "(file_spec, mcpFile) \<in> set (zip mcp_specs [mcpFile, mcpEdit])"
  by (simp add: file_spec_def mcp_specs_def)

theorem readonly_calls_quiet_witness:
  "\<exists>r st'. mcpFile example_env example_adapter ''{}'' (file_call [(''action'', JStr ''read''), (''path'', JStr ''f'')])
       (machine no_faults 0x12) = (r, st') \<and> quiet (machine no_faults 0x12) st'"
proof -
  let ?p = "file_call [(''action'', JStr ''read''), (''path'', JStr ''f'')]"
  obtain r st' where run: "mcpFile example_env example_adapter ''{}'' ?p (machine no_faults 0x12) = (r, st')" by (metis surj_pair)
  have res: "ResolveOperation file_spec ?p = Inr (readOperation ''read'')" by code_simp
  have ro: "ReadOnly (op_Hints (readOperation ''read''))" by (simp add: readOperation_def)
  have "list_all (\<lambda>k. field_matches ''action'' k \<longrightarrow> k = ''action'') [''repo_path'', ''action'', ''path'']" by code_simp
  then have keys: "\<forall>ms. ?p = Some (JObj ms) \<longrightarrow> (\<forall>k \<in> set (map fst ms). field_matches ''action'' k \<longrightarrow> k = ''action'')"
    by (auto simp: file_call_def list_all_iff)
  have tool: "(file_spec, mcpFile) \<in> set (zip native_specs native_handlers @ zip mcp_specs [mcpFile, mcpEdit])"
    using file_spec_tool by simp
  from readonly_calls_quiet [OF tool res ro run keys] show ?thesis using run by blast
qed

text \<open>
  The proviso matters.  A second member \<open>Action\<close> is ignored when the operation is resolved and wins when the
  handler decodes its input: a call that resolves to the read-only operation \<open>read\<close> overwrites the file.
\<close>

definition confused_call :: RawMessage where
  "confused_call = file_call [(''action'', JStr ''read''), (''Action'', JStr ''write''), (''path'', JStr ''f''), (''content'', JStr ''new!'')]"

definition confused_request :: mcpFileInput where
  "confused_request = file_zero\<lparr>mf_RepoPath := ''/r'', mf_Action := ''write'', mf_Path := ''f'', mf_Content := Some ''new!''\<rparr>"

definition confused_write :: WriteRequest where
  "confused_write = \<lparr>wr_Path = ''f'', wr_Data = None, wr_Content = ''new!'', wr_Mode = WriteDefault, wr_CreateOnly = False,
     wr_ExpectedSHA256 = [], wr_Permissions = None\<rparr>"

definition adapter_svc :: svc where
  "adapter_svc = \<lparr>limits = DefaultLimits\<lparr>ListEntries := 2\<rparr>, closed = False\<rparr>"

lemma confused_facts:
  "rbind (decodeStrict file_fields file_zero ''{}'' confused_call)
     (\<lambda>rq. rbind (rbind (need (mf_RepoPath rq) ''repo_path'') (\<lambda>_. validateMCPFileInput rq)) (\<lambda>_. Inr rq)) = Inr confused_request"
  "Open ''/r'' [ad_limits example_adapter] = Inr adapter_svc"
  "ResolveOperation file_spec confused_call = Inr (readOperation ''read'')"
  by code_simp+

lemma confused_write_facts:
  "wr_Path confused_write = ''f''" "write_bytes confused_write = ''new!''" "write_mode confused_write = WriteOverwrite"
  "check_write adapter_svc ''f'' ''new!'' confused_write = None"
  "decide_write example_sha ''f'' ''new!'' confused_write (Some (''old'', 0x1B6)) = Proceed"
  "write_permissions confused_write (Some (''old'', 0x1B6)) = 0x1B6" "wr_Permissions confused_write = None"
  by code_simp+

lemma adapter_svc_facts: "WholeFileBytes (limits adapter_svc) = 8388608" "\<not> closed adapter_svc"
  by (simp_all add: adapter_svc_def DefaultLimits_def)

lemma confused_write_run:
  "\<exists>st' res. Write example_sha adapter_svc never (Some ''00'') confused_write (machine no_faults 0x12) = (Inr res, st') \<and>
     see (dsk st') ''f'' = AFile ''new!'' 0x1B6"
  unfolding Write_def finish_write_def
  by (simp add: confused_write_facts example_clean service_run_defs machine_def no_faults_def never_def abs_f clean_f
      path_facts example_shas adapter_svc_facts follow_file see_def)

lemma readonly_call_writes:
  "\<exists>op r st'. ResolveOperation file_spec confused_call = Inr op \<and> ReadOnly (op_Hints op) \<and>
     mcpFile example_env example_adapter ''{}'' confused_call (machine no_faults 0x12) = (Inr r, st') \<and>
     see (dsk (machine no_faults 0x12)) ''f'' = AFile ''old'' 0x1B6 \<and> see (dsk st') ''f'' = AFile ''new!'' 0x1B6"
proof -
  obtain st' res where w: "Write example_sha adapter_svc never (Some ''00'') confused_write (machine no_faults 0x12) = (Inr res, st')"
    "see (dsk st') ''f'' = AFile ''new!'' 0x1B6" using confused_write_run by blast
  have rq: "mf_RepoPath confused_request = ''/r''" "mf_Action confused_request = ''write''" "mf_Path confused_request = ''f''"
    "mf_Content confused_request = Some ''new!''" "mf_ContentB64 confused_request = None" "mf_ExpectedHash confused_request = []"
    by (simp_all add: confused_request_def file_zero_def)
  have "file_execute example_env example_adapter confused_request adapter_svc (machine no_faults 0x12) = (Inr (write_answer res), st')"
    using w(1) by (simp add: file_execute_def mcpWrite_def mcp_write_def write_input_def on_result_def rq example_env_def
        confused_write_def)
  then have "mcpFile example_env example_adapter ''{}'' confused_call (machine no_faults 0x12) = (Inr (write_answer res), st')"
    unfolding mcpFile_def handle_def confused_facts(1)
    using confused_facts(2) by (simp add: run_def rq example_env_def example_adapter_def FixedRoot_def never_def)
  moreover have "see (dsk (machine no_faults 0x12)) ''f'' = AFile ''old'' 0x1B6" by (simp add: machine_def see_def)
  ultimately show ?thesis using w(2) confused_facts(3) by (auto simp: readOperation_def)
qed

text \<open>
  The three ways in which \<open>append_unique\<close> differs from appending a line that is not there yet: a text that occurs twice
  already is a conflict and not \<open>unchanged\<close>; a text that is part of a longer line counts as present; and without a
  final newline the text is glued to the last line.
\<close>

lemma append_unique_quirks:
  "append_replacement ''a b a'' True ''a'' = Inr (''a'', ''a'') \<and>
   applyUniqueReplacement ''a b a'' ''a'' ''a'' = Inl (FsError CodeConflict ''edit'' [] ''old text occurs 2 times'') \<and>
   append_replacement ''foobar'' True ''foo'' = Inr (''foo'', ''foo'') \<and>
   append_replacement ''a'' False ''b'' = Inr (''a'', ''ab'')"
  by code_simp

end
