(* ===== verification/ModelBudget.thy ===== *)
theory ModelBudget
  imports FsToolFacts
begin

text \<open>
  The model byte budget of the MCP tools: the length of JSON texts, the loops that drop content until a result
  fits, and the batch reads.
\<close>

section \<open>Lengths of JSON texts\<close>

definition plain :: "char \<Rightarrow> bool" where
  "plain c \<longleftrightarrow> 32 \<le> byteval c \<and> byteval c < 128 \<and> c \<noteq> DQ \<and> c \<noteq> BSLASH \<and> c \<noteq> CHR ''<'' \<and> c \<noteq> CHR ''>'' \<and> c \<noteq> CHR ''&''"

lemma printable: "32 \<le> byteval c \<Longrightarrow> c \<noteq> CHR 0x08 \<and> c \<noteq> CHR 0x0C \<and> c \<noteq> LF \<and> c \<noteq> CR \<and> c \<noteq> TAB"
proof -
  assume a: "32 \<le> byteval c"
  have "byteval (CHR 0x08) = 8" "byteval (CHR 0x0C) = 12" "byteval LF = 10" "byteval CR = 13" "byteval TAB = 9"
    by (simp_all add: byteval_def)
  with a show ?thesis by force
qed

lemma escape_rune_plain: "plain c \<Longrightarrow> escape_rune [c] = [c]"
  using printable [of c] by (simp add: escape_rune_def plain_def)

lemma rune_len_ascii: "byteval c < 128 \<Longrightarrow> rune_len (c # s) = 1"
  by simp

lemma escape_plain: "list_all plain s \<Longrightarrow> escape s = s"
proof (induction s)
  case Nil
  then show ?case by (simp add: escape.simps)
next
  case (Cons c s)
  then have "rune_len (c # s) = 1" using rune_len_ascii by (simp add: plain_def del: rune_len.simps)
  then show ?case using Cons escape_rune_plain by (subst escape.simps) (simp del: rune_len.simps)
qed

lemma quote_plain: "list_all plain s \<Longrightarrow> length (quote s) = length s + 2"
  by (simp add: quote_def escape_plain)

lemma plain_digit: "is_digit c \<Longrightarrow> plain c"
  by (auto simp: plain_def is_digit_def byteval_def)

lemma plain_Itoa: "list_all plain (Itoa n)"
proof -
  have "list_all plain (nat_digits k)" for k
    using nat_digits_digits [of k] by (auto simp: list_all_iff plain_digit)
  moreover have "plain (CHR ''-'')" by (simp add: plain_def byteval_def)
  ultimately show ?thesis by (simp add: Itoa_def)
qed

lemma length_nat_digits: "n < 10 ^ k \<Longrightarrow> 0 < k \<Longrightarrow> length (nat_digits n) \<le> k"
proof (induction k arbitrary: n)
  case (Suc k)
  show ?case
  proof (cases "n < 10")
    case True
    then show ?thesis by (subst nat_digits.simps) simp
  next
    case False
    then have k: "0 < k" using Suc.prems(1) by (cases k) auto
    have "n div 10 < 10 ^ k" using Suc.prems(1) by (simp add: less_mult_imp_div_less mult.commute)
    then have "length (nat_digits (n div 10)) \<le> k" using Suc.IH k by blast
    then show ?thesis using False by (subst nat_digits.simps) simp
  qed
qed simp

lemma length_Itoa: "0 \<le> n \<Longrightarrow> n < 10 ^ k \<Longrightarrow> 0 < k \<Longrightarrow> length (Itoa n) \<le> k"
  using length_nat_digits [of "nat n" k] by (simp add: Itoa_def nat_less_iff)

text \<open>Each member of an object counts with its colon and one comma.\<close>

definition members_size :: "(string \<times> json) list \<Rightarrow> nat" where
  "members_size ms = sum_list (map (\<lambda>(k, v). length (quote k) + length (Marshal v) + 2) ms)"

lemma members_size_simps [simp]:
  "members_size [] = 0" "members_size ((k, v) # ms) = length (quote k) + length (Marshal v) + 2 + members_size ms"
  "members_size (xs @ ys) = members_size xs + members_size ys"
  by (simp_all add: members_size_def)

lemma length_Join_comma: "xs \<noteq> [] \<Longrightarrow> length (Join '','' xs) + 1 = sum_list (map (\<lambda>x. length x + 1) xs)"
proof (induction xs)
  case (Cons x xs)
  then show ?case by (cases xs) auto
qed simp

lemma size_object: "ms \<noteq> [] \<Longrightarrow> length (Marshal (JObj ms)) = members_size ms + 1"
proof -
  assume "ms \<noteq> []"
  then have "length (Join '','' (map (\<lambda>(k, v). quote k @ '':'' @ Marshal v) ms)) + 1 = members_size ms"
    using length_Join_comma [of "map (\<lambda>(k, v). quote k @ '':'' @ Marshal v) ms"]
    by (simp add: members_size_def split_def o_def)
  then show ?thesis by simp
qed

lemma omit_sizes:
  "members_size (omit_empty k s) \<le> length (quote k) + length (quote s) + 2"
  "members_size (omit_zero k n) \<le> length (quote k) + length (Itoa n) + 2"
  by (auto simp: omit_empty_def omit_zero_def jint_def)

section \<open>Dropping content until a result fits\<close>

text \<open>The shape of the three loops: while the text is too long and something is left, a part of it goes.\<close>

locale trimming =
  fixes parts :: "'a \<Rightarrow> 'b list" and weight :: "'a \<Rightarrow> int" and cut :: "int \<Rightarrow> 'a \<Rightarrow> 'a" and fit :: "int \<Rightarrow> 'a \<Rightarrow> 'a"
  assumes loop: "fit b r = (if weight r > b \<and> parts r \<noteq> [] then fit b (cut b r) else r)"
    and cut_parts: "weight r > b \<Longrightarrow> parts r \<noteq> [] \<Longrightarrow> strict_prefix (parts (cut b r)) (parts r)"
begin

lemma shorter: "weight r > b \<Longrightarrow> parts r \<noteq> [] \<Longrightarrow> length (parts (cut b r)) < length (parts r)"
  using cut_parts by (rule prefix_length_less)

lemma trimmed_induct [case_names stop cut]:
  assumes "\<And>r. weight r \<le> b \<or> parts r = [] \<Longrightarrow> P r r"
    "\<And>r. weight r > b \<Longrightarrow> parts r \<noteq> [] \<Longrightarrow> P (cut b r) (fit b (cut b r)) \<Longrightarrow> P r (fit b (cut b r))"
  shows "P r (fit b r)"
proof (induction "length (parts r)" arbitrary: r rule: less_induct)
  case less
  show ?case
  proof (cases "weight r > b \<and> parts r \<noteq> []")
    case False
    have "fit b r = r" by (rule trans [OF loop if_not_P [OF False]])
    then show ?thesis using False assms(1) by auto
  next
    case True
    have "fit b r = fit b (cut b r)" by (rule trans [OF loop if_P [OF True]])
    then show ?thesis using True assms(2) [of r] less [of "cut b r"] shorter by simp
  qed
qed

lemma fits: "weight (fit b r) \<le> b \<or> parts (fit b r) = []"
  by (induction rule: trimmed_induct) auto

lemma keeps_prefix: "prefix (parts (fit b r)) (parts r)"
proof (induction rule: trimmed_induct)
  case (cut r)
  then have "prefix (parts (cut b r)) (parts r)" using cut_parts prefix_order.less_imp_le by blast
  then show ?case using cut.IH by (rule prefix_order.trans [rotated])
qed simp

lemma unchanged: "weight r \<le> b \<Longrightarrow> fit b r = r"
  using loop [of b r] by simp

lemma invariant:
  assumes "I r" "\<And>r. I r \<Longrightarrow> weight r > b \<Longrightarrow> parts r \<noteq> [] \<Longrightarrow> I (cut b r)"
  shows "I (fit b r)"
proof -
  have "I r \<longrightarrow> I (fit b r)" by (induction rule: trimmed_induct) (use assms(2) in auto)
  then show ?thesis using assms(1) by blast
qed

end

lemma strict_prefix_butlast: "xs \<noteq> [] \<Longrightarrow> strict_prefix (butlast xs) xs"
  by (simp add: strict_prefix_def prefixeq_butlast) (metis append_butlast_last_id not_Cons_self2 self_append_conv)

interpretation searched: trimming sr_Matches "\<lambda>r. jsonSize (search_json r)" "\<lambda>b. drop_match" fit_search
  by unfold_locales (subst fit_search.simps, simp, simp add: drop_match_def Let_def strict_prefix_butlast)

interpretation listed: trimming ml_Entries "\<lambda>r. jsonSize (list_data_json r)" "\<lambda>b. drop_entry" fit_list
  by unfold_locales (subst fit_list.simps, simp, simp add: drop_entry_def Let_def strict_prefix_butlast)

text \<open>What a read returns: the bytes of a binary file, the lines of a text.\<close>

definition payload :: "mcpReadData \<Rightarrow> (Line + char) list" where
  "payload r = (if md_Binary r then map Inr (md_raw r) else map Inl (md_Lines r))"

definition read_cut :: "int \<Rightarrow> mcpReadData \<Rightarrow> mcpReadData" where
  "read_cut b r = (if md_Binary r then shorten_raw b r else drop_line r)"

lemma payload_ne: "payload r \<noteq> [] \<longleftrightarrow> (if md_Binary r then md_raw r \<noteq> [] else md_Lines r \<noteq> [])"
  by (simp add: payload_def)

lemma cut_Binary [simp]: "md_Binary (shorten_raw b r) = md_Binary r" "md_Binary (drop_line r) = md_Binary r"
  by (simp_all add: shorten_raw_def drop_line_def Let_def)

lemma fit_loop_fst: "fst (fit_loop b r t) = fst (fit_loop b r t')"
proof (induction b r t arbitrary: t' rule: fit_loop.induct)
  case (1 b r t)
  show ?case
    by (subst (1 2) fit_loop.simps) (use 1 in auto)
qed

lemma strict_prefix_map: "inj f \<Longrightarrow> strict_prefix xs ys \<Longrightarrow> strict_prefix (map f xs) (map f ys)"
  by (auto simp: strict_prefix_def map_mono_prefix inj_map_eq_map)

lemma shorten_raw_raw:
  assumes "read_size r > b" "md_raw r \<noteq> []"
  shows "strict_prefix (md_raw (shorten_raw b r)) (md_raw r)"
proof -
  let ?n = "min (nat ((read_size r - b) * 3 div 4 + 1)) (length (md_raw r))"
  have "0 < ?n" "?n \<le> length (md_raw r)" using assms by auto
  then have "length (take (length (md_raw r) - ?n) (md_raw r)) < length (md_raw r)" using assms(2) by simp
  then show ?thesis
    by (auto simp: shorten_raw_def Let_def strict_prefix_def take_is_prefix simp del: length_take min.absorb1 min.absorb2)
qed

interpretation fitted: trimming payload read_size read_cut "\<lambda>b r. fst (fit_loop b r False)"
proof unfold_locales
  fix b :: int and r :: mcpReadData
  show "fst (fit_loop b r False) = (if read_size r > b \<and> payload r \<noteq> [] then fst (fit_loop b (read_cut b r) False) else r)"
    by (subst fit_loop.simps) (simp add: payload_ne read_cut_def fit_loop_fst [of b _ True False])
  show "read_size r > b \<Longrightarrow> payload r \<noteq> [] \<Longrightarrow> strict_prefix (payload (read_cut b r)) (payload r)"
    using shorten_raw_raw [of b r]
    by (auto simp: payload_def read_cut_def strict_prefix_map drop_line_def Let_def strict_prefix_butlast)
qed

section \<open>The truncation note fits its headroom\<close>

text \<open>Offsets, line numbers and lengths below a million millions.\<close>

definition modest :: "mcpReadData \<Rightarrow> bool" where
  "modest r \<longleftrightarrow> 0 \<le> md_Offset r \<and> md_Offset r + int (length (md_raw r)) < 10 ^ 12 \<and>
     0 \<le> md_NextOffset r \<and> md_NextOffset r < 10 ^ 12 \<and> (\<forall>l \<in> set (md_Lines r). li_Number l < 10 ^ 12) \<and>
     length (md_Lines r) < 10 ^ 12"

text \<open>The text of the result is what is left of the payload.\<close>

definition consistent :: "mcpReadData \<Rightarrow> bool" where
  "consistent r \<longleftrightarrow>
     (if md_Binary r then md_Content r = None \<and> md_ContentB64 r = Some (EncodeToString (md_raw r)) \<and> md_Lines r = []
      else md_ContentB64 r = None \<and> md_Content r = Some (Join [LF] (map li_Text (md_Lines r))) \<and> md_raw r = [])"

lemma kept_by_cut:
  assumes "modest r \<and> consistent r" "payload r \<noteq> []"
  shows "modest (read_cut b r) \<and> consistent (read_cut b r)"
proof (cases "md_Binary r")
  case True
  have l: "length (md_raw (shorten_raw b r)) \<le> length (md_raw r)" by (simp add: shorten_raw_def Let_def)
  have "md_NextOffset (shorten_raw b r) = md_Offset r + int (length (md_raw (shorten_raw b r)))"
    "md_Offset (shorten_raw b r) = md_Offset r" "md_Lines (shorten_raw b r) = md_Lines r"
    "md_Content (shorten_raw b r) = md_Content r"
    "md_ContentB64 (shorten_raw b r) = Some (EncodeToString (md_raw (shorten_raw b r)))"
    by (simp_all add: shorten_raw_def Let_def)
  then show ?thesis using assms(1) True l by (auto simp: modest_def consistent_def read_cut_def)
next
  case False
  then have "md_Lines r \<noteq> []" using assms(2) by (simp add: payload_ne)
  then have "last (md_Lines r) \<in> set (md_Lines r)" by simp
  then have "int (li_Number (last (md_Lines r))) < 10 ^ 12" using assms(1) by (auto simp: modest_def)
  then show ?thesis using assms(1) False
    by (auto simp: modest_def consistent_def read_cut_def drop_line_def Let_def dest: in_set_butlastD)
qed

lemma note_strings: "list_all plain ''truncated''" "list_all plain ''reason''" "list_all plain ''continuation''"
  "list_all plain ''returned_items''" "list_all plain ''returned_bytes''" "list_all plain ''model byte budget''"
  "list_all plain ''offset=''" "list_all plain ''aggregate model byte budget''" "list_all plain ''files''"
  "list_all plain ''requested''" "list_all plain ''returned''"
  by code_simp+

lemma budget_note_size:
  assumes "modest r"
  shows "read_size (budget_note r) \<le> read_size r + 128"
proof -
  define t where "t = md_Truncation r"
  define t' where "t' = md_Truncation (budget_note r)"
  have parts: "read_size x = int (members_size (
     [(''path'', JStr (md_Path x)), (''sha256'', JStr (md_SHA256 x)),
       (''hash_chunks'', if md_HashChunks x = [] then JNull else jstrs (md_HashChunks x)), (''size'', jint (md_Size x)),
       (''binary'', JBool (md_Binary x))] @ omit_nil ''content'' (md_Content x) @ omit_nil ''content_b64'' (md_ContentB64 x)
      @ omit_none ''lines'' (map line_json (md_Lines x))
      @ [(''total_lines'', jint (md_TotalLines x)), (''offset'', jint (md_Offset x))] @ omit_zero ''next_offset'' (md_NextOffset x)
      @ omit_empty ''newline'' (md_Newline x) @ omit_false ''final_newline'' (md_FinalNewline x)) + length (quote ''truncation'') +
      length (Marshal (truncation_json (md_Truncation x))) + 3)" for x
    unfolding read_size_def jsonSize_def read_data_json_def by (subst size_object) (simp_all del: Marshal.simps)
  have same: "md_Path (budget_note r) = md_Path r" "md_SHA256 (budget_note r) = md_SHA256 r" "md_HashChunks (budget_note r) = md_HashChunks r"
    "md_Size (budget_note r) = md_Size r" "md_Binary (budget_note r) = md_Binary r" "md_Content (budget_note r) = md_Content r"
    "md_ContentB64 (budget_note r) = md_ContentB64 r" "md_Lines (budget_note r) = md_Lines r" "md_TotalLines (budget_note r) = md_TotalLines r"
    "md_Offset (budget_note r) = md_Offset r" "md_NextOffset (budget_note r) = md_NextOffset r" "md_Newline (budget_note r) = md_Newline r"
    "md_FinalNewline (budget_note r) = md_FinalNewline r"
    by (simp_all add: budget_note_def Let_def)
  have d: "read_size (budget_note r) - read_size r = int (length (Marshal (truncation_json t'))) - int (length (Marshal (truncation_json t)))"
    unfolding parts same t_def t'_def by (simp only: of_nat_add)
  have tsize: "length (Marshal (truncation_json x)) = length (quote ''truncated'') + length (Marshal (JBool (tr_Truncated x))) + 3
      + members_size (omit_empty ''reason'' (Listing.tr_Reason x)) + members_size (omit_empty ''continuation'' (Listing.tr_Continuation x))
      + members_size (omit_zero ''returned_items'' (tr_ReturnedItems x)) + members_size (omit_zero ''returned_bytes'' (Listing.tr_ReturnedBytes x))
      + members_size (omit_zero ''scanned_files'' (tr_ScannedFiles x)) + members_size (omit_zero ''scanned_bytes'' (tr_ScannedBytes x))" for x
    unfolding truncation_json_def by (subst size_object) (simp_all del: Marshal.simps)
  have t': "tr_Truncated t'" "Listing.tr_Reason t' = ''model byte budget''" "Listing.tr_Continuation t' = ''offset='' @ Itoa (md_NextOffset r)"
    "tr_ReturnedItems t' = int (length (md_Lines r))" "tr_ScannedFiles t' = tr_ScannedFiles t" "tr_ScannedBytes t' = tr_ScannedBytes t"
    "Listing.tr_ReturnedBytes t' = (if md_Binary r then int (length (md_raw r)) else Listing.tr_ReturnedBytes t)"
    by (simp_all add: t'_def t_def budget_note_def Let_def)
  have I: "length (Itoa (md_NextOffset r)) \<le> 12" "length (Itoa (int (length (md_Lines r)))) \<le> 12" "length (Itoa (int (length (md_raw r)))) \<le> 12"
    using assms by (auto simp: modest_def intro!: length_Itoa)
  have q: "length (quote ''reason'') = 8" "length (quote ''model byte budget'') = 19" "length (quote ''continuation'') = 14"
    "length (quote ''returned_items'') = 16" "length (quote ''returned_bytes'') = 16"
    using note_strings by (simp_all add: quote_plain)
  have qo: "length (quote (''offset='' @ Itoa (md_NextOffset r))) = 9 + length (Itoa (md_NextOffset r))"
    using note_strings plain_Itoa by (subst quote_plain) auto
  have a: "members_size (omit_empty ''reason'' (Listing.tr_Reason t')) \<le> 29"
    "members_size (omit_empty ''continuation'' (Listing.tr_Continuation t')) \<le> 37"
    "members_size (omit_zero ''returned_items'' (tr_ReturnedItems t')) \<le> 30"
    "members_size (omit_zero ''returned_bytes'' (Listing.tr_ReturnedBytes t')) \<le> members_size (omit_zero ''returned_bytes'' (Listing.tr_ReturnedBytes t)) + 30"
    using omit_sizes(1) [of "''reason''" "Listing.tr_Reason t'"] omit_sizes(1) [of "''continuation''" "Listing.tr_Continuation t'"]
      omit_sizes(2) [of "''returned_items''" "tr_ReturnedItems t'"] omit_sizes(2) [of "''returned_bytes''" "int (length (md_raw r))"]
      q qo I by (auto simp: t' simp del: of_nat_eq_0_iff)
  have m: "length (Marshal (JBool (tr_Truncated t'))) \<le> length (Marshal (JBool (tr_Truncated t)))" by (simp add: t')
  have "length (Marshal (truncation_json t')) \<le> length (Marshal (truncation_json t)) + 126"
    unfolding tsize using a m t'(5,6) by simp
  then show ?thesis using d by linarith
qed

lemma fit_read:
  assumes "modest r \<and> consistent r" "fitMCPRead r b = (r', trimmed)" "128 < b"
  shows "consistent r' \<and> md_Binary r' = md_Binary r \<and> prefix (payload r') (payload r) \<and> (read_size r' \<le> b \<or> payload r' = [])"
proof -
  let ?b = "b - 128"
  obtain r1 t1 where r1: "fit_loop ?b r False = (r1, t1)" by (metis surj_pair)
  then have f: "fst (fit_loop ?b r False) = r1" by simp
  have p: "prefix (payload r1) (payload r)" using fitted.keeps_prefix [of ?b r] f by simp
  have s: "read_size r1 \<le> ?b \<or> payload r1 = []" using fitted.fits [of ?b r] f by simp
  have I: "modest r1 \<and> consistent r1"
    using fitted.invariant [of "\<lambda>r. modest r \<and> consistent r" r ?b] assms(1) kept_by_cut f by auto
  have B: "md_Binary r1 = md_Binary r"
    using fitted.invariant [of "\<lambda>x. md_Binary x = md_Binary r" r ?b] f by (simp add: read_cut_def)
  have note': "payload (budget_note r1) = payload r1" "consistent (budget_note r1) = consistent r1" "md_Binary (budget_note r1) = md_Binary r1"
    by (simp_all add: budget_note_def Let_def payload_def consistent_def)
  have n: "read_size (budget_note r1) \<le> read_size r1 + 128" using budget_note_size I by blast
  have "r' = budget_note r1 \<or> r' = r1"
    using assms(2,3) r1 by (auto simp: fitMCPRead_def truncationHeadroom_def split: bool.splits)
  then show ?thesis
  proof
    assume "r' = budget_note r1"
    then show ?thesis using p s I B note' n by auto
  next
    assume "r' = r1"
    then show ?thesis using p s I B by auto
  qed
qed

end
