(* ===== verification/McpReads.thy ===== *)
theory McpReads
  imports ModelBudget FileReads
begin

text \<open>
  Reads through the MCP tools: what a snapshot holds, the budget of single and batch reads, and binary content
  carried from a read into a write.
\<close>

section \<open>Snapshots\<close>

lemma length_ReplaceAll_CRLF: "length (ReplaceAll s CRLF [LF]) \<le> length s"
proof (induction s rule: length_induct)
  case (1 s)
  show ?case
  proof (cases s)
    case (Cons c cs)
    show ?thesis
    proof (cases "HasPrefix s CRLF")
      case True
      then have "length (drop 2 s) < length s" using Cons by simp
      then have "length (ReplaceAll (drop 2 s) CRLF [LF]) \<le> length (drop 2 s)" using 1 by blast
      moreover have "2 \<le> length s" using True Cons by (cases cs) auto
      ultimately show ?thesis using True Cons by (simp add: ReplaceAll_Cons)
    next
      case False
      have "length (ReplaceAll cs CRLF [LF]) \<le> length cs" using 1 Cons by simp
      then show ?thesis using False Cons by (auto simp: ReplaceAll_Cons)
    qed
  qed simp
qed

lemma length_SplitChar_le: "length (SplitChar c s) \<le> length s + 1"
  by (induction s) (auto split: list.splits)

lemma length_texts: "length (splitTextLines (normalizeLF raw)) \<le> length raw"
proof (cases "normalizeLF raw = []")
  case False
  let ?n = "normalizeLF raw"
  have n: "length ?n \<le> length raw" by (simp add: normalizeLF_def length_ReplaceAll_CRLF)
  show ?thesis
  proof (cases "last (SplitChar LF ?n) = []")
    case True
    then show ?thesis using False n length_SplitChar_le [of LF ?n] by (simp add: splitTextLines_def Let_def)
  next
    case last: False
    have "length (SplitChar LF s) \<le> length s" if "last (SplitChar LF s) \<noteq> []" for s
      using that
    proof (induction s)
      case (Cons a s)
      show ?case
      proof (cases "last (SplitChar LF s) = []")
        case False
        then show ?thesis using Cons.IH by (auto split: list.splits)
      next
        case True
        then have "a \<noteq> LF" using Cons.prems by (auto split: list.splits if_splits)
        moreover from this True Cons.prems have "SplitChar LF s = [[]]"
          by (auto split: list.splits if_splits)
        ultimately show ?thesis by simp
      qed
    qed simp
    then show ?thesis using last False n by (fastforce simp: splitTextLines_def Let_def)
  qed
qed (simp add: splitTextLines_def)

lemma load_content_at:
  assumes "load s ctx name msg st = (Inr raw, st')"
  shows "content_at (dsk st) name = Some raw \<and> int (length raw) \<le> WholeFileBytes (limits s)"
proof -
  obtain r1 s1 where a: "os_open name st = (r1, s1)" by (metis surj_pair)
  then obtain fd where fd: "r1 = Inr fd" using assms by (cases r1) (auto simp: load_def)
  obtain t where t: "follow 41 (dsk st) name = Inr t" "root_node (dsk st) t = Some (File fd)" "dsk s1 = dsk st"
    using os_open_ok a fd by blast
  obtain r2 s2 where b: "os_read fd (nat (WholeFileBytes (limits s) + 1)) s1 = (r2, s2)" by (metis surj_pair)
  obtain r3 s3 where c: "os_close fd s2 = (r3, s3)" by (metis surj_pair)
  have r: "r2 = Inr raw" "int (length raw) \<le> WholeFileBytes (limits s)"
    using assms by (auto simp: load_def a b c fd split: sum.splits if_splits)
  from b obtain x where "inodes (dsk s1) fd = Some x" "raw = take (nat (WholeFileBytes (limits s) + 1)) (content x)"
    using r(1) unfolding os_read_def by (auto elim!: syscall_cases split: option.splits)
  with r(2) take_all_if_short have "inodes (dsk s1) fd = Some x \<and> raw = content x" by simp
  then show ?thesis using t r(2) by (simp add: content_at_def)
qed

lemma Read_result:
  assumes "Read sha s ctx rq st = (Inr r, st')"
  shows "\<exists>name raw offset ll bl. Service.cleanPath (rq_Path rq) False = Inr name \<and> content_at (dsk st) name = Some raw \<and>
    int (length raw) \<le> WholeFileBytes (limits s) \<and> offset = (if rq_Offset rq = 0 then 1 else rq_Offset rq) \<and> 1 \<le> offset \<and>
    lowerInt ''limit'' (ReadLines (limits s)) (rq_Limit rq) = Inr ll \<and>
    lowerInt ''max_bytes'' (ReadBytes (limits s)) (rq_MaxBytes rq) = Inr bl \<and> r = read_result sha raw offset ll bl"
proof -
  obtain name where n: "Service.cleanPath (rq_Path rq) False = Inr name" "begin_op s ctx (clock st) ''read'' = None"
    using assms by (auto simp: Read_def split: option.splits sum.splits)
  obtain r1 s1 where a: "os_stat name st = (r1, s1)" by (metis surj_pair)
  obtain r2 s2 where b: "load s ctx name ''file grew beyond whole-file cap while reading'' s1 = (r2, s2)" by (metis surj_pair)
  have d: "dsk s1 = dsk st" using os_stat_same [OF a] by simp
  define offset where "offset = (if rq_Offset rq = 0 then 1 else rq_Offset rq)"
  have off: "1 \<le> offset"
    using assms by (auto simp: Read_def n offset_def Let_def split: if_splits)
  then have no: "\<not> offset < 1" by simp
  have ok: "(case lowerInt ''limit'' (ReadLines (limits s)) (rq_Limit rq) of
              Inl e \<Rightarrow> (Inl (FsErr e), st)
            | Inr lineLimit \<Rightarrow>
          (case lowerInt ''max_bytes'' (ReadBytes (limits s)) (rq_MaxBytes rq) of
              Inl e \<Rightarrow> (Inl (FsErr e), st)
            | Inr byteLimit \<Rightarrow>
          (case r1 of
              Inl e \<Rightarrow> (Inl (FsErr (rootError ''read'' name (path_error_text ''statat'' name e) e)), s1)
            | Inr info \<Rightarrow>
                (case fi_node info of
                   File i \<Rightarrow>
                     if int (fi_size info) > WholeFileBytes (limits s) then
                       (Inl (FsErr (FsError CodeLimit ''read'' name ''file size exceeds whole-file cap'')), s1)
                     else (case r2 of
                         Inl e \<Rightarrow> (Inl e, s2)
                       | Inr raw \<Rightarrow> (Inr (read_result sha raw offset lineLimit byteLimit), s2))
                 | _ \<Rightarrow> (Inl (FsErr (FsError CodeInvalidInput ''read'' name ''path is not a regular file'')), s1))))) = (Inr r, st')"
    using assms unfolding Read_def n option.case sum.case offset_def [symmetric] Let_def a prod.case if_not_P [OF no]
    by (auto simp: b split: sum.splits if_splits node.splits)
  obtain ll where ll: "lowerInt ''limit'' (ReadLines (limits s)) (rq_Limit rq) = Inr ll"
    using ok by (cases "lowerInt ''limit'' (ReadLines (limits s)) (rq_Limit rq)") auto
  obtain bl where bl: "lowerInt ''max_bytes'' (ReadBytes (limits s)) (rq_MaxBytes rq) = Inr bl"
    using ok ll by (cases "lowerInt ''max_bytes'' (ReadBytes (limits s)) (rq_MaxBytes rq)") auto
  obtain raw where raw: "r2 = Inr raw" "r = read_result sha raw offset ll bl"
    using ok ll bl by (auto split: sum.splits if_splits node.splits)
  show ?thesis
    using n(1) load_content_at [OF b [unfolded raw(1)]] d off ll bl raw(2) offset_def by metis
qed

lemma read_result_shape:
  assumes "1 \<le> offset" "r = read_result sha raw offset ll bl"
  shows "rr_Binary r = isBinary raw" "rr_Offset r = offset" "0 \<le> rr_NextOffset r" "rr_NextOffset r \<le> int (length raw)"
    "length (rr_Data r) \<le> length raw" "\<forall>l \<in> set (rr_Lines r). li_Number l \<le> length raw" "length (rr_Lines r) \<le> length raw"
    "isBinary raw \<Longrightarrow> rr_Lines r = []" "\<not> isBinary raw \<Longrightarrow> rr_Content r = Join [LF] (map li_Text (rr_Lines r))"
proof -
  show "rr_Binary r = isBinary raw" "rr_Offset r = offset" "isBinary raw \<Longrightarrow> rr_Lines r = []"
    by (simp_all add: assms(2) read_result_def Let_def split_def)
  let ?ts = "splitTextLines (normalizeLF raw)"
  have T: "0 \<le> rr_NextOffset r \<and> rr_NextOffset r \<le> int (length raw) \<and> length (rr_Data r) \<le> length raw \<and>
    (\<forall>l \<in> set (rr_Lines r). li_Number l \<le> length raw) \<and> length (rr_Lines r) \<le> length raw \<and>
    (\<not> isBinary raw \<longrightarrow> rr_Content r = Join [LF] (map li_Text (rr_Lines r)))"
  proof (cases "isBinary raw")
    case True
    define e where "e = min (min (nat (offset - 1)) (length raw) + nat bl) (length raw)"
    have "rr_NextOffset r = (if e < length raw then int e + 1 else 0) \<and> rr_Lines r = [] \<and> length (rr_Data r) \<le> length raw"
      using True unfolding assms(2) by (simp add: read_result_def Let_def e_def)
    then show ?thesis using True by auto
  next
    case nb: False
    have data: "rr_Data r = []" using assms(2) nb by (auto simp: read_result_def Let_def split: prod.splits)
    show ?thesis
    proof (cases "offset > int (length ?ts)")
      case True
      then show ?thesis using read_text_past [OF nb True, of sha ll bl] data by (simp add: assms(2))
    next
      case False
      then have le: "offset \<le> int (length ?ts)" by simp
      obtain ls u e where p: "page_loop ll bl (drop (nat (offset - 1)) ?ts) (nat (offset - 1)) 0 0 = (ls, u, e)"
        by (metis prod_cases3)
      note R = read_text [OF nb assms(1) le p, of sha, folded assms(2)]
      have S: "e = nat (offset - 1) + length ls" "length ls \<le> length ?ts - nat (offset - 1)"
        "map li_Number ls = [nat (offset - 1) + 1..<nat (offset - 1) + 1 + length ls]"
        using page_loop_spec [OF p] by auto
      have "li_Number l \<le> length ?ts" if "l \<in> set ls" for l
      proof -
        have "li_Number l \<in> set (map li_Number ls)" using that by simp
        then show ?thesis unfolding S(3) using S(2) le assms(1) by auto
      qed
      then show ?thesis using R S(2) data length_texts [of raw] by (auto intro: order_trans)
    qed
  qed
  then show "0 \<le> rr_NextOffset r" "rr_NextOffset r \<le> int (length raw)" "length (rr_Data r) \<le> length raw"
    "\<forall>l \<in> set (rr_Lines r). li_Number l \<le> length raw" "length (rr_Lines r) \<le> length raw"
    "\<not> isBinary raw \<Longrightarrow> rr_Content r = Join [LF] (map li_Text (rr_Lines r))" by blast+
qed

lemma Service_Read_result:
  assumes "Service_Read env s rq st = (Inr sn, st')"
  shows "\<exists>raw offset ll bl. Service.cleanPath (rq_Path rq) False = Inr (sn_Path sn) \<and> content_at (dsk st) (sn_Path sn) = Some raw \<and>
    int (length raw) \<le> WholeFileBytes (limits s) \<and> offset = (if rq_Offset rq = 0 then 1 else rq_Offset rq) \<and> 1 \<le> offset \<and>
    lowerInt ''limit'' (ReadLines (limits s)) (rq_Limit rq) = Inr ll \<and>
    lowerInt ''max_bytes'' (ReadBytes (limits s)) (rq_MaxBytes rq) = Inr bl \<and>
    sn_Read sn = read_result (fe_sha env) raw offset ll bl \<and> sn_Truncation sn = read_truncation ll (sn_Read sn)"
proof -
  obtain r where r: "Read (fe_sha env) s (fe_ctx env) rq st = (Inr r, st')" "sn_Read sn = r"
    "sn_Path sn = projr (Service.cleanPath (rq_Path rq) False)"
    "sn_Truncation sn = read_truncation (projr (lowerInt ''limit'' (ReadLines (limits s)) (rq_Limit rq))) r"
    using assms by (auto simp: Service_Read_def Let_def split: prod.splits sum.splits)
  show ?thesis using Read_result [OF r(1)] r(2-4) by auto
qed

lemma snapshot_ready:
  assumes "Service_Read env s rq st = (Inr sn, st')" "WholeFileBytes (limits s) \<le> 8388608" "rq_Offset rq < 10 ^ 11"
  shows "modest (makeMCPReadData sn) \<and> consistent (makeMCPReadData sn)"
proof -
  obtain raw offset ll bl where f: "int (length raw) \<le> WholeFileBytes (limits s)" "1 \<le> offset"
    "offset = (if rq_Offset rq = 0 then 1 else rq_Offset rq)" "sn_Read sn = read_result (fe_sha env) raw offset ll bl"
    using Service_Read_result [OF assms(1)] by (elim exE conjE)
  have s: "int (length raw) \<le> 8388608" "1 \<le> offset" "offset < 10 ^ 11" "sn_Read sn = read_result (fe_sha env) raw offset ll bl"
    using f assms(2,3) by (auto split: if_splits)
  note S = read_result_shape [OF s(2,4)]
  have "modest (makeMCPReadData sn)"
    using S s(1-3) by (auto simp: modest_def makeMCPReadData_def Let_def)
  moreover have "consistent (makeMCPReadData sn)"
    using S by (auto simp: consistent_def makeMCPReadData_def Let_def)
  ultimately show ?thesis by blast
qed

section \<open>Single reads\<close>

lemma on_result_Inr:
  assumes "on_result f x = (Inr res, st')"
  obtains y where "x = (Inr y, st')" "res = f y"
  using assms by (cases x) (auto simp: on_result_def split: sum.splits)

text \<open>Where the loop stops, and the offset it leaves.\<close>

definition continues_after :: "mcpReadData \<Rightarrow> mcpReadData \<Rightarrow> bool" where
  "continues_after r d \<longleftrightarrow>
     (if md_Binary r then md_NextOffset d = md_Offset r + int (length (md_raw d))
      else length (md_Lines d) < length (md_Lines r) \<and> md_NextOffset d = int (li_Number (md_Lines r ! length (md_Lines d))))"

definition nothing_left :: "mcpReadData \<Rightarrow> bool" where
  "nothing_left r \<longleftrightarrow> (if md_Binary r then md_raw r = [] else md_Lines r = [])"

lemma continues_after_cut:
  "md_Binary r \<Longrightarrow> md_raw r \<noteq> [] \<Longrightarrow> continues_after r (shorten_raw b r)"
  "\<not> md_Binary r \<Longrightarrow> md_Lines r \<noteq> [] \<Longrightarrow> continues_after r (drop_line r)"
  by (auto simp: continues_after_def shorten_raw_def drop_line_def Let_def last_conv_nth)

lemma continues_after_trans:
  "\<not> md_Binary r \<Longrightarrow> md_Lines r \<noteq> [] \<Longrightarrow> continues_after (drop_line r) d \<Longrightarrow> continues_after r d"
  "md_Binary r \<Longrightarrow> continues_after (shorten_raw b r) d \<Longrightarrow> continues_after r d"
  by (auto simp: continues_after_def drop_line_def shorten_raw_def Let_def nth_butlast)

lemma fit_loop_stop:
  "fit_loop b r t = (d, t') \<Longrightarrow> (d = r \<and> (t' = t \<or> t' \<and> nothing_left r)) \<or> (t' \<and> continues_after r d)"
proof (induction b r t rule: fit_loop.induct)
  case (1 b r t)
  consider "read_size r \<le> b" | "\<not> read_size r \<le> b" "md_Binary r" "md_raw r \<noteq> []"
    | "\<not> read_size r \<le> b" "\<not> md_Binary r" "md_Lines r \<noteq> []" | "\<not> read_size r \<le> b" "nothing_left r"
    unfolding nothing_left_def by (cases "md_Binary r") (simp, metis)+
  then show ?case
  proof cases
    case 1
    then show ?thesis using "1.prems" by (subst (asm) fit_loop.simps) simp
  next
    case 2
    then have "fit_loop b (shorten_raw b r) True = (d, t')" using "1.prems" by (subst (asm) fit_loop.simps) simp
    from "1.IH"(1) [OF 2(1) conjI [OF 2(2,3)] this] have "t' \<and> (d = shorten_raw b r \<or> continues_after (shorten_raw b r) d)" by blast
    then show ?thesis using continues_after_cut(1) [OF 2(2,3)] continues_after_trans(2) [OF 2(2)] by blast
  next
    case 3
    then have "fit_loop b (drop_line r) True = (d, t')" using "1.prems" by (subst (asm) fit_loop.simps) simp
    moreover have "\<not> (md_Binary r \<and> md_raw r \<noteq> [])" using 3(2) by blast
    ultimately have "t' \<and> (d = drop_line r \<or> continues_after (drop_line r) d)"
      using "1.IH"(2) [OF 3(1) _ conjI [OF 3(2,3)]] by blast
    then show ?thesis using continues_after_cut(2) [OF 3(2,3)] continues_after_trans(1) [OF 3(2,3)] by blast
  next
    case 4
    then have "(r, True) = (d, t')"
      using "1.prems" by (subst (asm) fit_loop.simps) (auto simp: nothing_left_def split: if_splits)
    then show ?thesis using 4 by simp
  qed
qed

text \<open>What is marked: the reason, where to continue, how many items are there.\<close>

definition marked :: "mcpReadData \<Rightarrow> bool" where
  "marked d \<longleftrightarrow> tr_Truncated (md_Truncation d) \<and> Listing.tr_Reason (md_Truncation d) = ''model byte budget''
     \<and> Listing.tr_Continuation (md_Truncation d) = ''offset='' @ Itoa (md_NextOffset d)
     \<and> tr_ReturnedItems (md_Truncation d) = int (length (md_Lines d))"

lemma fit_marked:
  assumes "fitMCPRead r budget = (d, t)"
  shows "d = r \<or> marked d \<and> (continues_after r d \<or> nothing_left r)"
proof -
  obtain x y where l: "fit_loop (if budget > truncationHeadroom then budget - truncationHeadroom else budget) r False = (x, y)"
    by fastforce
  have n: "marked (budget_note x)" "continues_after r (budget_note x) = continues_after r x"
    by (simp_all add: marked_def budget_note_def continues_after_def Let_def)
  show ?thesis using assms fit_loop_stop [OF l] l n by (cases y) (auto simp: fitMCPRead_def)
qed

text \<open>
  Claim C39: an MCP read stays within the model byte budget and tells the truth about what it left out.  The JSON
  document returned for a read is no longer than the configured budget, truncation note included, unless nothing
  of the file is left in it; its lines, or its bytes, are a prefix of the page the service read, and its content
  is exactly the text of these lines, or the base64 form of these bytes.  Either it is the page as it was read, or it is
  marked as truncated for the budget with the number of lines that are left, and the offset it names for the next read
  is that of the first line, or byte, that was cut.
\<close>

theorem mcp_read_within_budget:
  assumes "mcpRead env ad rq s st = (Inr res, st')" "128 < ad_modelBytes ad" "WholeFileBytes (limits s) \<le> 8388608"
    "mf_Offset rq < 10 ^ 11"
  shows "\<exists>sn d. Service_Read env s (read_request (mf_Path rq) rq) st = (Inr sn, st') \<and>
    Structured res = Some (Inr (Marshal (read_data_json d))) \<and>
    (int (length (Marshal (read_data_json d))) \<le> ad_modelBytes ad \<or> md_Lines d = [] \<and> md_raw d = []) \<and>
    (if rr_Binary (sn_Read sn)
     then prefix (md_raw d) (rr_Data (sn_Read sn)) \<and> md_ContentB64 d = Some (EncodeToString (md_raw d)) \<and> md_Lines d = []
     else prefix (md_Lines d) (rr_Lines (sn_Read sn)) \<and> md_Content d = Some (Join [LF] (map li_Text (md_Lines d))) \<and> md_raw d = []) \<and>
    (d = makeMCPReadData sn \<or> marked d \<and>
       (if rr_Binary (sn_Read sn)
        then rr_Data (sn_Read sn) = [] \<or> md_NextOffset d = rr_Offset (sn_Read sn) + int (length (md_raw d))
        else rr_Lines (sn_Read sn) = [] \<or> length (md_Lines d) < length (rr_Lines (sn_Read sn)) \<and>
          md_NextOffset d = int (li_Number (rr_Lines (sn_Read sn) ! length (md_Lines d)))))"
proof -
  obtain sn where sn: "Service_Read env s (read_request (mf_Path rq) rq) st = (Inr sn, st')"
    and res: "Structured res = Some (Inr (Marshal (read_data_json (fst (fitMCPRead (makeMCPReadData sn) (ad_modelBytes ad))))))"
    using assms(1) unfolding mcpRead_def by (rule on_result_Inr) (simp add: Let_def answer_def)
  have ready: "modest (makeMCPReadData sn) \<and> consistent (makeMCPReadData sn)"
    using snapshot_ready [OF sn assms(3)] assms(4) by (simp add: read_request_def)
  obtain d t where d: "fitMCPRead (makeMCPReadData sn) (ad_modelBytes ad) = (d, t)" by (metis surj_pair)
  note F = fit_read [OF ready d assms(2)]
  have b: "md_Binary d = rr_Binary (sn_Read sn)" using F by (simp add: makeMCPReadData_def Let_def)
  have raw: "payload (makeMCPReadData sn) =
      (if rr_Binary (sn_Read sn) then map Inr (rr_Data (sn_Read sn)) else map Inl (rr_Lines (sn_Read sn)))"
    by (simp add: payload_def makeMCPReadData_def Let_def)
  have pre: "prefix xs ys" if "prefix (map f xs) (map f ys)" "inj f" for f :: "'x \<Rightarrow> Line + char" and xs ys
    using that by (metis inj_map_eq_map map_mono_prefix prefix_def take_map prefix_order.refl append_eq_conv_conj take_is_prefix)
  have fits: "int (length (Marshal (read_data_json d))) \<le> ad_modelBytes ad \<or> md_Lines d = [] \<and> md_raw d = []"
    using F by (auto simp: read_size_def jsonSize_def payload_def consistent_def split: if_splits)
  show ?thesis
  proof (intro exI [of _ sn] exI [of _ d] conjI sn fits)
    show "Structured res = Some (Inr (Marshal (read_data_json d)))" using res d by simp
    show "if rr_Binary (sn_Read sn)
     then prefix (md_raw d) (rr_Data (sn_Read sn)) \<and> md_ContentB64 d = Some (EncodeToString (md_raw d)) \<and> md_Lines d = []
     else prefix (md_Lines d) (rr_Lines (sn_Read sn)) \<and> md_Content d = Some (Join [LF] (map li_Text (md_Lines d))) \<and> md_raw d = []"
      using F b raw pre [of Inr "md_raw d" "rr_Data (sn_Read sn)"] pre [of Inl "md_Lines d" "rr_Lines (sn_Read sn)"]
      by (auto simp: consistent_def payload_def)
    show "d = makeMCPReadData sn \<or> marked d \<and>
       (if rr_Binary (sn_Read sn)
        then rr_Data (sn_Read sn) = [] \<or> md_NextOffset d = rr_Offset (sn_Read sn) + int (length (md_raw d))
        else rr_Lines (sn_Read sn) = [] \<or> length (md_Lines d) < length (rr_Lines (sn_Read sn)) \<and>
          md_NextOffset d = int (li_Number (rr_Lines (sn_Read sn) ! length (md_Lines d))))"
      using fit_marked [OF d] by (auto simp: continues_after_def nothing_left_def makeMCPReadData_def Let_def split: if_splits)
  qed
qed

definition read_call :: mcpFileInput where
  "read_call = file_zero\<lparr>mf_RepoPath := ''/r'', mf_Action := ''read'', mf_Path := ''f''\<rparr>"

lemma read_limits: "lowerInt ''limit'' (ReadLines (limits adapter_svc)) 0 = Inr 1000"
  "lowerInt ''max_bytes'' (ReadBytes (limits adapter_svc)) 0 = Inr 51200"
  by (simp_all add: lowerInt_def adapter_svc_def DefaultLimits_def)

lemma example_stat: "os_stat ''f'' (machine no_faults 0x12) =
    (Inr \<lparr>fi_node = File 0, fi_mode = 0x1B6, fi_size = 3\<rparr>, commit (dsk (machine no_faults 0x12)) (machine no_faults 0x12))"
proof -
  have "follow 41 (dsk (machine no_faults 0x12)) ''f'' = Inr ''f''" by (rule follow_file) (simp add: machine_def)
  then show ?thesis
    by (simp add: os_stat_def syscall_def faulty_def abs_f root_node_def file_info_def machine_def no_faults_def commit_def)
qed

lemma example_load: "\<exists>st'. load adapter_svc never ''f'' msg (commit (dsk (machine no_faults 0x12)) (machine no_faults 0x12)) = (Inr ''old'', st')"
proof -
  have "follow 41 (dsk (machine no_faults 0x12)) ''f'' = Inr ''f''" by (rule follow_file) (simp add: machine_def)
  then show ?thesis
    by (simp add: load_def os_open_def os_read_def os_close_def syscall_def faulty_def abs_f root_node_def machine_def no_faults_def
        commit_def adapter_svc_facts never_def)
qed

lemma example_service_read:
  "\<exists>sn st'. Service_Read example_env adapter_svc \<lparr>rq_Path = ''f'', rq_Offset = 0, rq_Limit = 0, rq_MaxBytes = 0\<rparr> (machine no_faults 0x12) =
     (Inr sn, st') \<and> sn_Read sn = read_result example_sha ''old'' 1 1000 51200 \<and> sn_Path sn = ''f''"
proof -
  obtain st' where l: "load adapter_svc never ''f'' ''file grew beyond whole-file cap while reading''
      (commit (dsk (machine no_faults 0x12)) (machine no_faults 0x12)) = (Inr ''old'', st')" using example_load by blast
  have b: "begin_op adapter_svc never (clock (machine no_faults 0x12)) ''read'' = None"
    by (simp add: begin_op_def never_def adapter_svc_facts)
  have "Read example_sha adapter_svc never \<lparr>rq_Path = ''f'', rq_Offset = 0, rq_Limit = 0, rq_MaxBytes = 0\<rparr> (machine no_faults 0x12) =
      (Inr (read_result example_sha ''old'' 1 1000 51200), st')"
    by (simp add: Read_def b l example_clean example_stat read_limits adapter_svc_facts Let_def)
  then show ?thesis by (simp add: Service_Read_def example_env_def example_clean Let_def)
qed

lemma example_page: "\<not> rr_Binary (read_result example_sha ''old'' 1 1000 51200)"
  "map li_Text (rr_Lines (read_result example_sha ''old'' 1 1000 51200)) = [''old'']"
proof -
  have "\<not> isBinary ''old''" "splitTextLines (normalizeLF ''old'') = [''old'']" by code_simp+
  then show "\<not> rr_Binary (read_result example_sha ''old'' 1 1000 51200)"
    "map li_Text (rr_Lines (read_result example_sha ''old'' 1 1000 51200)) = [''old'']"
    by (simp_all add: read_result_def Let_def)
qed

theorem mcp_read_within_budget_witness:
  "\<exists>res st' d. mcpRead example_env example_adapter read_call adapter_svc (machine no_faults 0x12) = (Inr res, st') \<and>
     Structured res = Some (Inr (Marshal (read_data_json d))) \<and> prefix (map li_Text (md_Lines d)) [''old'']"
proof -
  obtain sn s1 where sn: "Service_Read example_env adapter_svc (read_request (mf_Path read_call) read_call) (machine no_faults 0x12) = (Inr sn, s1)"
    "sn_Read sn = read_result example_sha ''old'' 1 1000 51200"
    using example_service_read by (auto simp: read_request_def read_call_def file_zero_def)
  obtain res st' where run: "mcpRead example_env example_adapter read_call adapter_svc (machine no_faults 0x12) = (Inr res, st')"
    by (simp add: mcpRead_def on_result_def sn Let_def)
  have r: "\<not> rr_Binary (sn_Read sn)" "map li_Text (rr_Lines (sn_Read sn)) = [''old'']"
    unfolding sn(2) using example_page by simp_all
  have c: "128 < ad_modelBytes example_adapter" "WholeFileBytes (limits adapter_svc) \<le> 8388608" "mf_Offset read_call < 10 ^ 11"
    by (simp_all add: example_adapter_def adapter_svc_facts read_call_def file_zero_def)
  obtain sn' d where d: "Service_Read example_env adapter_svc (read_request (mf_Path read_call) read_call) (machine no_faults 0x12) = (Inr sn', st')"
    "Structured res = Some (Inr (Marshal (read_data_json d)))"
    "if rr_Binary (sn_Read sn')
     then prefix (md_raw d) (rr_Data (sn_Read sn')) \<and> md_ContentB64 d = Some (EncodeToString (md_raw d)) \<and> md_Lines d = []
     else prefix (md_Lines d) (rr_Lines (sn_Read sn')) \<and> md_Content d = Some (Join [LF] (map li_Text (md_Lines d))) \<and> md_raw d = []"
    using mcp_read_within_budget [OF run c] by blast
  have "sn' = sn" using d(1) sn(1) by simp
  then have "prefix (md_Lines d) (rr_Lines (sn_Read sn))" using d(3) r(1) by simp
  then have "prefix (map li_Text (md_Lines d)) (map li_Text (rr_Lines (sn_Read sn)))" by (rule map_mono_prefix)
  then show ?thesis using run d(2) r(2) by auto
qed

section \<open>Batch reads through MCP\<close>

definition batch_size :: "mcpReadManyData \<Rightarrow> int" where
  "batch_size r = jsonSize (read_many_json r)"

lemma batch_size_reason:
  assumes "mm_Reason r = []" "\<not> mm_Truncated r"
  shows "batch_size (r\<lparr>mm_Truncated := True, mm_Reason := aggregate_reason\<rparr>) \<le> batch_size r + 38"
proof -
  have parts: "batch_size x = int (members_size [(''files'', JArr (map read_data_json (mm_Files x))), (''requested'', jint (mm_Requested x)),
       (''returned'', jint (mm_Returned x))] + length (quote ''truncated'') + length (Marshal (JBool (mm_Truncated x))) + 3 +
       members_size (omit_empty ''reason'' (mm_Reason x)))" for x
    unfolding batch_size_def jsonSize_def read_many_json_def by (subst size_object) (simp_all del: Marshal.simps)
  have "length (quote ''reason'') = 8" "length (quote aggregate_reason) = 29"
    using note_strings by (simp_all add: quote_plain aggregate_reason_def)
  then have "members_size (omit_empty ''reason'' aggregate_reason) \<le> 39"
    using omit_sizes(1) [of "''reason''" aggregate_reason] by simp
  then show ?thesis unfolding parts using assms by (simp add: omit_empty_def)
qed

lemma batch_size_start:
  assumes "n \<le> 32"
  shows "batch_size \<lparr>mm_Files = [], mm_Requested = int n, mm_Returned = 0, mm_Truncated = False, mm_Reason = []\<rparr> \<le> 64"
proof -
  have "length (Itoa (int n)) \<le> 2" using assms by (intro length_Itoa) auto
  moreover have "length (quote ''files'') = 7" "length (quote ''requested'') = 11" "length (quote ''returned'') = 10"
    "length (quote ''truncated'') = 11" "length (Itoa 0) \<le> 1"
    using note_strings length_Itoa [of 0 1] by (simp_all add: quote_plain)
  ultimately show ?thesis
    unfolding batch_size_def jsonSize_def read_many_json_def by (subst size_object) (simp_all add: omit_empty_def jint_def)
qed

text \<open>A file of a batch is the snapshot of its path; \<open>d\<close> is the disk.\<close>

definition file_answer :: "fs_env \<Rightarrow> disk \<Rightarrow> string \<Rightarrow> mcpReadData \<Rightarrow> bool" where
  "file_answer env d path f \<longleftrightarrow> Service.cleanPath path False = Inr (md_Path f) \<and>
     (\<exists>raw. content_at d (md_Path f) = Some raw \<and> md_SHA256 f = fe_sha env raw)"

lemma fit_keeps: "md_Path (fst (fitMCPRead r b)) = md_Path r \<and> md_SHA256 (fst (fitMCPRead r b)) = md_SHA256 r"
proof -
  let ?I = "\<lambda>x. md_Path x = md_Path r \<and> md_SHA256 x = md_SHA256 r"
  have "?I (fst (fit_loop c r False))" for c
    by (rule fitted.invariant [of ?I]) (auto simp: read_cut_def shorten_raw_def drop_line_def Let_def)
  then show ?thesis
    by (auto simp: fitMCPRead_def budget_note_def Let_def split: prod.splits bool.splits) (metis fst_conv)+
qed

lemma item_answer:
  assumes "Service_Read env s (read_request path rq) st = (Inr sn, st')"
  shows "file_answer env (dsk st) path (fst (fitMCPRead (makeMCPReadData sn) b))"
proof -
  obtain raw offset ll bl where r: "Service.cleanPath path False = Inr (sn_Path sn)" "content_at (dsk st) (sn_Path sn) = Some raw"
    "sn_Read sn = read_result (fe_sha env) raw offset ll bl"
    using Service_Read_result [OF assms] by (auto simp: read_request_def)
  have "rr_SHA256 (read_result (fe_sha env) raw offset ll bl) = fe_sha env raw"
    by (auto simp: read_result_def Let_def split: prod.splits)
  then show ?thesis using r by (simp add: file_answer_def fit_keeps makeMCPReadData_def Let_def)
qed

definition batch_running :: "int \<Rightarrow> mcpReadManyData \<Rightarrow> bool" where
  "batch_running budget r \<longleftrightarrow> mm_Reason r = [] \<and> \<not> mm_Truncated r \<and> batch_size r \<le> budget \<and> mm_Returned r = int (length (mm_Files r))"

lemma read_many_spec:
  assumes "read_many_loop env s rq budget paths r st = (Inr r', st')" "batch_running budget r"
  shows "\<exists>fs rest. mm_Files r' = mm_Files r @ fs \<and> length fs \<le> length paths \<and>
      list_all2 (file_answer env (dsk st)) (take (length fs) paths) fs \<and> mm_Requested r' = mm_Requested r \<and>
      (batch_running budget r' \<and> length fs = length paths \<or>
       (\<exists>r1. batch_running budget r1 \<and> r' = over_budget r1 \<and> length fs < length paths))"
  using assms
proof (induction paths arbitrary: r st)
  case Nil
  then show ?case by simp
next
  case (Cons p ps)
  obtain r1 s1 where a: "Service_Read env s (read_request p rq) st = (r1, s1)" by (metis surj_pair)
  then obtain sn where sn: "r1 = Inr sn" using Cons.prems(1) by (cases r1) auto
  have d: "dsk s1 = dsk st" using Service_Read_quiet [OF a] by (simp add: quiet_def)
  define item where "item = fst (fitMCPRead (makeMCPReadData sn) (budget - jsonSize (read_many_json r)))"
  have run: "(if budget - jsonSize (read_many_json r) < 512 then (Inr (over_budget r), s1)
      else if jsonSize (read_many_json (add_file item r)) > budget then (Inr (over_budget r), s1)
      else read_many_loop env s rq budget ps (add_file item r) s1) = (Inr r', st')"
    using Cons.prems(1) unfolding read_many_loop.simps a sn prod.case sum.case Let_def item_def .
  show ?case
  proof (cases "budget - jsonSize (read_many_json r) < 512 \<or> jsonSize (read_many_json (add_file item r)) > budget")
    case True
    then have "r' = over_budget r" using run by (auto split: if_splits)
    then show ?thesis using Cons.prems(2) by (intro exI [of _ "[]"]) (auto simp: over_budget_def)
  next
    case False
    then have rest: "read_many_loop env s rq budget ps (add_file item r) s1 = (Inr r', st')" using run by auto
    have ok: "batch_running budget (add_file item r)"
      using Cons.prems(2) False by (auto simp: batch_running_def add_file_def batch_size_def)
    obtain fs where fs: "mm_Files r' = mm_Files (add_file item r) @ fs" "length fs \<le> length ps"
      "list_all2 (file_answer env (dsk st)) (take (length fs) ps) fs" "mm_Requested r' = mm_Requested (add_file item r)"
      "batch_running budget r' \<and> length fs = length ps \<or>
       (\<exists>r1. batch_running budget r1 \<and> r' = over_budget r1 \<and> length fs < length ps)"
      using Cons.IH [OF rest ok] unfolding d by blast
    have item: "file_answer env (dsk st) p item" unfolding item_def by (rule item_answer [OF a [unfolded sn]])
    show ?thesis
      by (rule exI [of _ "item # fs"]) (use fs item in \<open>auto simp: add_file_def\<close>)
  qed
qed

text \<open>
  Claim C38: a batch read always stays within the model byte budget and is honest about what is missing.  For every
  validated request the JSON document is no longer than the budget of the adapter; it holds, in request order, the
  snapshots of the first paths with the hashes of these files, as many as it reports, and it is marked truncated
  exactly when files are missing.
\<close>

theorem read_many_within_budget:
  assumes "mcpReadMany env ad rq s st = (Inr res, st')" "newAdapter config = Inr ad" "mf_Action rq = ''read_many''"
    "validateMCPFileInput rq = Inr ()"
  shows "\<exists>d. Structured res = Some (Inr (Marshal (read_many_json d))) \<and>
    int (length (Marshal (read_many_json d))) \<le> ad_modelBytes ad \<and>
    mm_Requested d = int (length (mf_Paths rq)) \<and> mm_Returned d = int (length (mm_Files d)) \<and>
    (mm_Truncated d \<longleftrightarrow> length (mm_Files d) < length (mf_Paths rq)) \<and>
    list_all2 (\<lambda>path f. Service.cleanPath path False = Inr (md_Path f) \<and>
        (\<exists>raw. content_at (dsk st) (md_Path f) = Some raw \<and> md_SHA256 f = fe_sha env raw))
      (take (length (mm_Files d)) (mf_Paths rq)) (mm_Files d)"
proof -
  let ?zero = "\<lparr>mm_Files = [], mm_Requested = int (length (mf_Paths rq)), mm_Returned = 0, mm_Truncated = False, mm_Reason = []\<rparr>"
  let ?b = "ad_modelBytes ad - 512"
  have M: "1024 \<le> ad_modelBytes ad"
    using assms(2) by (auto simp: newAdapter_def Let_def defaultModelBytes_def result_simps split: option.splits if_splits)
  have n: "length (mf_Paths rq) \<le> 32"
    using assms(3,4) by (auto simp: validateMCPFileInput_def need_def maxReadManyFiles_def split: if_splits)
  obtain r where run: "read_many_loop env s rq ?b (mf_Paths rq) ?zero st = (Inr r, st')"
    and res: "Structured res = Some (Inr (Marshal (read_many_json (read_many_end r))))"
    using assms(1) unfolding mcpReadMany_def by (rule on_result_Inr) (simp add: Let_def answer_def)
  have zero: "batch_running ?b ?zero" using batch_size_start [OF n] M by (simp add: batch_running_def)
  obtain fs where fs: "mm_Files r = fs" "length fs \<le> length (mf_Paths rq)"
    "list_all2 (file_answer env (dsk st)) (take (length fs) (mf_Paths rq)) fs" "mm_Requested r = int (length (mf_Paths rq))"
    "batch_running ?b r \<and> length fs = length (mf_Paths rq) \<or>
       (\<exists>r1. batch_running ?b r1 \<and> r = over_budget r1 \<and> length fs < length (mf_Paths rq))"
    using read_many_spec [OF run zero] by auto
  have E: "read_many_end r = r \<and> batch_size r \<le> ad_modelBytes ad \<and> mm_Returned r = int (length (mm_Files r)) \<and>
      (mm_Truncated r \<longleftrightarrow> length (mm_Files r) < length (mf_Paths rq))"
    using fs(5)
  proof (elim disjE exE conjE)
    assume "batch_running ?b r" "length fs = length (mf_Paths rq)"
    then show ?thesis using fs(1,4) by (auto simp: batch_running_def read_many_end_def)
  next
    fix r1 assume r1: "batch_running ?b r1" "r = over_budget r1" "length fs < length (mf_Paths rq)"
    then have "batch_size r \<le> batch_size r1 + 38" using batch_size_reason [of r1] by (simp add: batch_running_def over_budget_def)
    then show ?thesis using r1 fs(1,4)
      by (auto simp: batch_running_def over_budget_def read_many_end_def aggregate_reason_def)
  qed
  show ?thesis
    by (rule exI [of _ r])
      (use E res fs in \<open>auto simp: batch_size_def jsonSize_def file_answer_def [abs_def]\<close>)
qed

theorem read_many_within_budget_witness:
  "\<exists>res st' d. mcpReadMany example_env example_adapter (read_call\<lparr>mf_Action := ''read_many'', mf_Paths := [''f'']\<rparr>) adapter_svc
       (machine no_faults 0x12) = (Inr res, st') \<and>
     Structured res = Some (Inr (Marshal (read_many_json d))) \<and> int (length (Marshal (read_many_json d))) \<le> 51200 \<and> mm_Requested d = 1"
proof -
  let ?rq = "read_call\<lparr>mf_Action := ''read_many'', mf_Paths := [''f'']\<rparr>"
  obtain sn s1 where sn: "Service_Read example_env adapter_svc (read_request ''f'' ?rq) (machine no_faults 0x12) = (Inr sn, s1)"
    using example_service_read by (auto simp: read_request_def read_call_def file_zero_def)
  have p: "mf_Paths ?rq = [''f'']" "mf_Action ?rq = ''read_many''" by simp_all
  let ?zero = "\<lparr>mm_Files = [], mm_Requested = int (length [''f'']), mm_Returned = 0, mm_Truncated = False, mm_Reason = []\<rparr>"
  have "\<exists>r. read_many_loop example_env adapter_svc ?rq b [''f''] z (machine no_faults 0x12) = (Inr r, s1)" for b z
    by (simp add: sn Let_def)
  then obtain r where r: "read_many_loop example_env adapter_svc ?rq (ad_modelBytes example_adapter - 512) [''f''] ?zero
      (machine no_faults 0x12) = (Inr r, s1)" by blast
  obtain res st' where run: "mcpReadMany example_env example_adapter ?rq adapter_svc (machine no_faults 0x12) = (Inr res, st')"
    unfolding mcpReadMany_def p(1) r on_result_def prod.case sum.case by blast
  have v: "validateMCPFileInput ?rq = Inr ()" by code_simp
  from read_many_within_budget [OF run example_adapter_new p(2) v] show ?thesis
    using run unfolding p(1) by (auto simp: example_adapter_def)
qed

section \<open>Binary content\<close>

lemma fit_loop_untouched: "fit_loop b r t = (r', False) \<Longrightarrow> r' = r"
proof (induction b r t rule: fit_loop.induct)
  case (1 b r t)
  have no_cut: "fit_loop c x True \<noteq> (y, False)" for c x y
  proof (induction c x True rule: fit_loop.induct)
    case (1 c x)
    then show ?case by (subst fit_loop.simps) auto
  qed
  show ?case using "1.prems" no_cut by (subst (asm) fit_loop.simps) (auto split: if_splits)
qed

lemma whole_binary:
  assumes "Service_Read env s rq st = (Inr sn, st')" "rr_Binary (sn_Read sn)" "rq_Offset rq \<le> 1" "\<not> tr_Truncated (sn_Truncation sn)"
  shows "content_at (dsk st) (sn_Path sn) = Some (rr_Data (sn_Read sn))"
proof -
  obtain raw offset ll bl where r: "content_at (dsk st) (sn_Path sn) = Some raw" "1 \<le> offset"
    "offset = (if rq_Offset rq = 0 then 1 else rq_Offset rq)" "sn_Read sn = read_result (fe_sha env) raw offset ll bl"
    "sn_Truncation sn = read_truncation ll (sn_Read sn)"
    using Service_Read_result [OF assms(1)] by (elim exE conjE)
  have o: "offset = 1" using r(2,3) assms(3) by (auto split: if_splits)
  have bin: "isBinary raw" using read_result_shape(1) [OF r(2,4)] assms(2) by simp
  have t: "\<not> rr_Truncated (sn_Read sn)" using assms(4) r(5) by (auto simp: read_truncation_def no_truncation_def Let_def split: if_splits)
  have "rr_Data (sn_Read sn) = raw"
    using t bin unfolding r(4) o by (auto simp: read_result_def Let_def min_def split: if_splits)
  then show ?thesis using r(1) by simp
qed

text \<open>
  Claim C37: binary content survives the trip through the tools.  When a read of a binary file is returned whole,
  passing its \<open>content_b64\<close> to a write or a create, at any path, through any service, leaves at the target exactly
  the bytes that were read, or reports an error.
\<close>

theorem binary_copy_exact:
  assumes "Service_Read env s rq st = (Inr sn, st1)" "rr_Binary (sn_Read sn)" "rq_Offset rq \<le> 1" "\<not> tr_Truncated (sn_Truncation sn)"
    "fitMCPRead (makeMCPReadData sn) b = (d, False)"
    "mcp_write env path text' (md_ContentB64 d) expected create s2 st2 = (Inr res, st')" "disk_ok (next_ino st2) (dsk st2)"
    "Service.cleanPath path False = Inr name" "name \<notin> service_temps (fe_random env) name"
  shows "\<exists>raw m. content_at (dsk st) (sn_Path sn) = Some raw \<and> see (dsk st') name = AFile raw m"
proof -
  note raw = whole_binary [OF assms(1-4)]
  have "d = makeMCPReadData sn"
    using assms(5) fit_loop_untouched by (auto simp: fitMCPRead_def split: prod.splits bool.splits)
  then have "md_ContentB64 d = Some (EncodeToString (rr_Data (sn_Read sn)))"
    using assms(2) by (simp add: makeMCPReadData_def Let_def)
  then have w: "write_input text' (md_ContentB64 d) = Inr (Some (rr_Data (sn_Read sn)), [])"
    by (simp add: write_input_def DecodeString_Encode)
  define wq where "wq = \<lparr>wr_Path = path, wr_Data = Some (rr_Data (sn_Read sn)), wr_Content = [],
    wr_Mode = (if create then WriteCreateOnly else WriteDefault), wr_CreateOnly = False, wr_ExpectedSHA256 = expected, wr_Permissions = None\<rparr>"
  obtain wr where run: "Write (fe_sha env) s2 (fe_ctx env) (fe_random env) wq st2 = (Inr wr, st')"
    using assms(6) unfolding mcp_write_def w by (auto simp: wq_def elim: on_result_Inr)
  have q: "Service.cleanPath (wr_Path wq) False = Inr name" "write_bytes wq = rr_Data (sn_Read sn)"
    using assms(8) by (simp_all add: wq_def write_bytes_def)
  obtain m where "write_post (fe_sha env) (service_temps (fe_random env) name) name wq m st2 (Inr wr) st'"
    using Write_steps [OF run assms(7) q(1) assms(9)] by blast
  then have "\<exists>m. see (dsk st') name = AFile (rr_Data (sn_Read sn)) m"
    unfolding write_post_def q(2) by (cases "ws_Changed wr") auto
  then show ?thesis using raw by blast
qed

definition binary_machine :: os where
  "binary_machine = (machine no_faults 0x12)\<lparr>dsk := \<lparr>names = [''f'' \<mapsto> File 0], inodes = [0 \<mapsto> \<lparr>content = [NUL], mode = 0x1B6\<rparr>]\<rparr>\<rparr>"

definition copy_write :: WriteRequest where
  "copy_write = \<lparr>wr_Path = ''f'', wr_Data = Some [NUL], wr_Content = [], wr_Mode = WriteDefault, wr_CreateOnly = False,
     wr_ExpectedSHA256 = [], wr_Permissions = None\<rparr>"

lemma binary_machine_follow: "follow 41 (dsk binary_machine) ''f'' = Inr ''f''"
  by (rule follow_file) (simp add: binary_machine_def)

lemma binary_read:
  "\<exists>sn st'. Service_Read example_env adapter_svc \<lparr>rq_Path = ''f'', rq_Offset = 0, rq_Limit = 0, rq_MaxBytes = 0\<rparr> binary_machine =
     (Inr sn, st') \<and> sn_Read sn = read_result example_sha [NUL] 1 1000 51200 \<and> sn_Path sn = ''f'' \<and>
     sn_Truncation sn = read_truncation 1000 (sn_Read sn)"
proof -
  have s: "os_stat ''f'' binary_machine = (Inr \<lparr>fi_node = File 0, fi_mode = 0x1B6, fi_size = 1\<rparr>, commit (dsk binary_machine) binary_machine)"
    using binary_machine_follow
    by (simp add: os_stat_def syscall_def faulty_def abs_f root_node_def file_info_def binary_machine_def machine_def no_faults_def commit_def)
  obtain st' where l: "load adapter_svc never ''f'' ''file grew beyond whole-file cap while reading'' (commit (dsk binary_machine) binary_machine)
      = (Inr [NUL], st')"
    using binary_machine_follow
    by (simp add: load_def os_open_def os_read_def os_close_def syscall_def faulty_def abs_f root_node_def binary_machine_def
        machine_def no_faults_def commit_def adapter_svc_facts never_def)
  have b: "begin_op adapter_svc never (clock binary_machine) ''read'' = None"
    by (simp add: begin_op_def never_def adapter_svc_facts)
  have "Read example_sha adapter_svc never \<lparr>rq_Path = ''f'', rq_Offset = 0, rq_Limit = 0, rq_MaxBytes = 0\<rparr> binary_machine =
      (Inr (read_result example_sha [NUL] 1 1000 51200), st')"
    by (simp add: Read_def b l example_clean s read_limits adapter_svc_facts Let_def)
  then show ?thesis by (simp add: Service_Read_def example_env_def example_clean Let_def read_limits)
qed

lemma binary_page: "rr_Binary (read_result example_sha [NUL] 1 1000 51200)" "rr_Data (read_result example_sha [NUL] 1 1000 51200) = [NUL]"
  "\<not> tr_Truncated (read_truncation 1000 (read_result example_sha [NUL] 1 1000 51200))"
proof -
  have b: "isBinary [NUL]" by (simp add: isBinary_def)
  show "rr_Binary (read_result example_sha [NUL] 1 1000 51200)" "rr_Data (read_result example_sha [NUL] 1 1000 51200) = [NUL]"
    "\<not> tr_Truncated (read_truncation 1000 (read_result example_sha [NUL] 1 1000 51200))"
    using b by (simp_all add: read_result_def read_truncation_def no_truncation_def Let_def)
qed

lemma copy_facts: "write_input None (Some (EncodeToString [NUL])) = Inr (Some [NUL], [])"
  "check_write adapter_svc ''f'' [NUL] copy_write = None" "write_bytes copy_write = [NUL]" "wr_Path copy_write = ''f''"
  "decide_write example_sha ''f'' [NUL] copy_write (Some ([NUL], 0x1B6)) = Unchanged"
  by code_simp+

lemma copy_run: "\<exists>res st'. Write example_sha adapter_svc never (Some ''00'') copy_write binary_machine = (Inr res, st')"
  unfolding Write_def finish_write_def
  by (simp add: copy_facts example_clean service_run_defs binary_machine_def machine_def no_faults_def never_def abs_f clean_f
      adapter_svc_facts follow_file Let_def)

lemma fit_untouched: "read_size r \<le> b - 128 \<Longrightarrow> 128 < b \<Longrightarrow> fitMCPRead r b = (r, False)"
  by (simp add: fitMCPRead_def truncationHeadroom_def fit_loop.simps)

theorem binary_copy_exact_witness:
  "\<exists>raw (st' :: os) m. content_at (dsk binary_machine) ''f'' = Some raw \<and> see (dsk st') ''f'' = AFile raw m"
proof -
  obtain sn s1 where sn: "Service_Read example_env adapter_svc \<lparr>rq_Path = ''f'', rq_Offset = 0, rq_Limit = 0, rq_MaxBytes = 0\<rparr> binary_machine =
     (Inr sn, s1)" "sn_Read sn = read_result example_sha [NUL] 1 1000 51200" "sn_Path sn = ''f''"
    "sn_Truncation sn = read_truncation 1000 (sn_Read sn)" using binary_read by blast
  define d where "d = makeMCPReadData sn"
  have fit: "fitMCPRead d (read_size d + 129 + \<bar>read_size d\<bar>) = (d, False)" by (rule fit_untouched) auto
  have b64: "md_ContentB64 d = Some (EncodeToString [NUL])"
    unfolding d_def by (simp add: makeMCPReadData_def Let_def sn(2) binary_page)
  obtain res st' where w: "mcp_write example_env ''f'' None (md_ContentB64 d) [] False adapter_svc binary_machine = (Inr res, st')"
    using copy_run unfolding b64 mcp_write_def copy_facts(1)
    by (auto simp: on_result_def example_env_def copy_write_def)
  have ok: "disk_ok (next_ino binary_machine) (dsk binary_machine)"
    by (simp add: binary_machine_def machine_def disk_ok_def)
  have rest: "rr_Binary (sn_Read sn)" "\<not> tr_Truncated (sn_Truncation sn)"
    "''f'' \<notin> service_temps (fe_random example_env) ''f''"
    using example_service_temps by (simp_all add: sn binary_page example_env_def)
  have "rq_Offset \<lparr>rq_Path = ''f'', rq_Offset = 0, rq_Limit = 0, rq_MaxBytes = 0\<rparr> \<le> 1" by simp
  from binary_copy_exact [OF sn(1) rest(1) this rest(2) fit [unfolded d_def] w [unfolded d_def] ok example_clean rest(3)]
  show ?thesis unfolding sn(3) by (elim exE conjE) (intro exI conjI)
qed

end
