(* ===== verification/Spec2Isabelle.thy ===== *)
theory Spec2Isabelle
  imports Vars Security Evidence Tools Service Termination Coordinator GitCommit Listing FileReads FileSearchFacts McpReads
begin

text \<open>
  A model of the Go module \<open>cozy-tools\<close>: the parts a helper of a coding agent uses to read and change
  files, to run commands, and to remember what they printed.  Source names below are files under \<open>src/\<close>
  and functions in them; a definition keeps the name of the Go function it translates where it can.

  Shared vocabulary.  \<open>Prelude\<close> holds Go strings as byte lists (\<open>char\<close> is a byte, only ASCII is folded
  or trimmed), the functions of \<open>strings\<close> and \<open>strconv\<close> the code calls, and fallible results as sums.
  \<open>GoPath\<close> and \<open>AbsPath\<close> are \<open>path/filepath\<close> on Unix, \<open>Json\<close> decoded JSON values, \<open>OsRoot\<close> an executable
  machine for \<open>os.Root\<close> and \<open>os.File\<close>: a disk, open descriptors, a clock that counts system calls, a
  fault schedule that makes any call fail, and the log of the disks between calls, which are the states
  a crash can leave.

  Values and text.
    \<open>Vars\<close> (\<open>vars/substitute.go\<close>): template substitution; exact on parsed templates, fail-closed otherwise.
    \<open>Security\<close> (\<open>security/sanitize.go\<close>): the secret mask as a sorted list; redaction is complete for secrets
      that are no part of a token.
    \<open>Evidence\<close> (\<open>evidence/evidence.go\<close>): selection of failure lines and the check of citations.
    \<open>Tools\<close> (\<open>tool/*.go\<close>): effects, coded errors, tool specifications, operation resolution, catalogs.

  Files.
    \<open>Safefs\<close> (\<open>safefs/root.go\<close>, \<open>safefs/atomic_opts.go\<close>): confined names and the two atomic writers over the
      machine.  The locale \<open>atomic_writer\<close> states what a writer promises under every fault schedule (each
      logged disk shows the old state or the complete new content); it is interpreted on both writers,
      and histories of writes are proved once in it.
    \<open>TextEdit\<close> (\<open>filesystem/edit.go\<close>, helpers of \<open>read.go\<close> and \<open>write.go\<close>): line splitting, anchors, unique
      replacement and hashline edits, the last against a one-pass merge as reference.
    \<open>Service\<close> (\<open>filesystem/service.go\<close>, \<open>types.go\<close>, \<open>errors.go\<close>, \<open>read.go\<close>, \<open>write.go\<close>, \<open>edit.go\<close>): limits, paths,
      error classes, paged reads, guarded writes and edits over the machine.

  Commands.
    \<open>CommandGuards\<close> (\<open>config/config.go\<close>, \<open>command/wrongtool.go\<close>, checks of \<open>command/runner.go\<close>): protected
      markers, source written through a shell (the regular expressions as matchers), working directories.
    \<open>Argv\<close> (\<open>command/argv.go\<close>, \<open>mergeEnv\<close>): display of argument vectors, against a shell splitter, and the
      merged environment.
    \<open>TailOutput\<close> (\<open>command/tail_output.go\<close>): the bounded tail of two streams and its hash.
    \<open>OutputFilter\<close> (\<open>command/runner.go\<close> from \<open>applyFilter\<close> on, \<open>command/failure.go\<close>): output filters against a
      reference that keeps the windows around hits, and failure markers.
    \<open>Project\<close> (\<open>project/store.go\<close>): where a repository's logs live.
    \<open>HistoryIndex\<close>, \<open>History\<close>, \<open>HistoryFacts\<close> (\<open>command/history.go\<close>): index rows and their bounded reader, the
      collapse of an index, one helper's memory (\<open>history\<close>) over the log directory several helpers share
      (\<open>disk\<close>), every operation with the faults of its I/O steps; the last theory has the contract between
      helpers, retention and listings.
    \<open>Runner\<close> (\<open>command/runner.go\<close>, \<open>RunArgv\<close>): value channels, what is started, classification of the
      outcome, records, results, \<open>Abort\<close>.  It is a client of all of the above: a run writes the process's
      output to the tail, updates the running record, and puts the terminal record.
    \<open>Termination\<close> (\<open>command/termination_unix.go\<close>): the thread that runs a process and the thread that cancels
      it as a step relation; an inductive invariant over its reachable states.
    \<open>Coordinator\<close> (\<open>command/coordinator.go\<close>): the registry of runners.  Runners are a store addressed by
      index, because Go shares them by pointer; everything that can happen is the step relation \<open>cstep\<close>.
      The locale \<open>record_lookup\<close> states what resolution needs of a runner's lookup and is interpreted on
      the history's \<open>getRecord\<close>.

  Directories.
    \<open>Glob\<close> (\<open>filesystem/ignore.go\<close>): globs and ignore rules, as syntax trees of the expressions the code builds.
    \<open>Walk\<close> (\<open>filesystem/walk.go\<close>): the walk over an arbitrary file system (the record \<open>tree\<close>), with its file and
      depth budgets; it ends on every tree.
    \<open>Listing\<close> (\<open>filesystem/list_find.go\<close>, \<open>search.go\<close>): listing, finding and searching over the walk.

  Path-based edits and search.
    \<open>Roots\<close> (\<open>safefs/root.go\<close>: \<open>Open\<close>, \<open>Ensure\<close>, \<open>ReadDir\<close>): opening a directory as a boundary, over a record of
      what the host outside it answers.
    \<open>FileEdits\<close> (\<open>fileops/safe_edit.go\<close>, \<open>file_state.go\<close>): scoped paths, transport encodings, guarded replace, append,
      delete, create and write, captured states, single and batch reads, directory listings.  \<open>FileEditFacts\<close> has
      the locale \<open>planned_edit\<close> (read, plan the next content, store it atomically), interpreted on replace, append
      and delete; \<open>FileStates\<close> and \<open>FileReads\<close> have capture and restore, exclusive creation, whole-file writes and
      batch reads.
    \<open>FileSearch\<close> (\<open>fileops/search.go\<close>, \<open>gitignore.go\<close>, \<open>search_types.go\<close>): the search of a tree with nested ignore
      files.  \<open>FileSearchFacts\<close> compares it with the stateless reference \<open>tree_chunks\<close>, and the loop that
      prints the context of hits with the lines near a hit.

  Tools over files (\<open>fstools/*.go\<close>).
    \<open>Marshal\<close>: \<open>json.Marshal\<close> and base64 as texts.  \<open>ToolSchemas\<close> (\<open>schemas.go\<close>, \<open>catalog.go\<close>): the input schemas and
      specifications.  \<open>FsInput\<close> (\<open>helpers.go\<close> and the input structs): strict decoding by tables of fields, and
      the checks of the inputs.  \<open>FsTools\<close> (\<open>config.go\<close>, \<open>native.go\<close>): configuration, a call on the root the capability
      grants, JSON documents of the results, the native handlers and their renderings.  \<open>McpTools\<close>
      (\<open>mcp_file.go\<close>, \<open>mcp_edit.go\<close>, \<open>catalog.go\<close>): the MCP handlers, the loops that cut a result to the model byte budget, the
      two catalogs.  A handler is a client of \<open>Service\<close> and \<open>Listing\<close> and runs in the state of the file-system
      machine; the record \<open>fs_env\<close> holds what a call gets from outside.
    \<open>FsToolFacts\<close>: catalogs and decoders agree, and read-only calls change nothing.  \<open>ModelBudget\<close>: lengths of JSON
      texts, and the locale \<open>trimming\<close> (while the text is too long a part goes), interpreted on the loops of searches,
      listings and reads.  \<open>McpReads\<close>: what single, batch and binary reads return within the budget.

  Git.
    \<open>GitText\<close> (\<open>gitops/git_status.go\<close>, \<open>git_blame.go\<close>, \<open>git_branch.go\<close>, \<open>git_diff.go\<close>, \<open>git_log.go\<close>, \<open>naming.go\<close>,
      \<open>preflight.go\<close>, \<open>git_common.go\<close>, \<open>git_untracked.go\<close>): argument vectors, the parsers of git's output, names.
    \<open>GitTextFacts\<close>: what the parsers return on text git prints, and what the names guarantee.
    \<open>GitCommit\<close> (\<open>gitops/git_commit.go\<close>, \<open>git_commitlock.go\<close>, \<open>git_worktree.go\<close>): the commit transaction with its
      scratch index and lock, and task worktrees, over an abstract world of git calls.
      The one thing assumed of git is that with \<open>GIT_INDEX_FILE\<close> naming the scratch file it leaves the real index alone
      (\<open>index_private\<close>); which calls run on which index, in which order, is proved.

  Parameters.  Code that is not in the repository is an argument: SHA-256, JSON and gzip codecs of the history (a record
  \<open>codec\<close> with what encoders and decoders do to each other as hypotheses), the parse of a tool's input, the
  regular-expression compiler, the process that is run, the git process, the directory tree a walk meets, the
  clock, the host outside an opened root, the home and working directories, \<open>EvalSymlinks\<close> and \<open>Stat\<close>, random
  names, formatted modification times.

  Bounds and recursion.  Loops that are not structural are functions with a measure on the text or the list
  that is left.  Only the walk of \<open>filesystem\<close> has fuel: \<open>visit\<close> gets the file budget plus one, and the walk's
  termination theorem shows that it never runs out, whatever the tree is (it may have cycles); the walk of
  \<open>fileops\<close> is structural on a finite tree.  Integers are unbounded where the code cannot overflow, and
  \<open>wrap64\<close> marks the places where it can (\<open>hit_window\<close>, \<open>window_loop\<close>, the byte count of the walk); file modes are
  32-bit words.

  Not modelled.  Windows and macOS variants; the advisory lock files (a locked section is one step, an
  unlocked one is split into its steps) and mutexes (an operation is one step, but for \<open>Termination\<close>); \<open>redact\<close>'s fixed
  patterns; Unicode classes and case folding beyond ASCII; how a modification time is formatted; the quotes of
  \<open>%q\<close> and the texts of nested causes in errors; \<open>WaitForHistory\<close>; glob metacharacters in the log root;
  \<open>WriteFile\<close> and \<open>FS\<close> of \<open>safefs\<close>; test support.
\<close>

end
